(* ===== verification/FL_Prelude.thy ===== *)
theory FL_Prelude
  imports Main "HOL-Library.Word"
begin

text \<open>
  Shared vocabulary of the development: the machine integer types of the Rust sources, Rust's
  saturating arithmetic, slices of byte buffers, and the little- and big-endian byte codecs
  (\<open>to_le_bytes\<close>, \<open>from_le_bytes\<close>, \<open>to_be_bytes\<close>, \<open>from_be_bytes\<close>) with their round trips.
  Integers are fixed-width words with the wrap-around of a release build; lengths, indices and
  counters that the code keeps in \<open>usize\<close> are natural numbers.
\<close>

unbundle bit_operations_syntax

named_theorems codec_simps \<open>evaluation and round trip of the byte codecs\<close>
named_theorems book_simps \<open>rewriting rules of the order book operations\<close>

section \<open>Machine integers\<close>

type_synonym u8 = "8 word"
type_synonym u16 = "16 word"
type_synonym u32 = "32 word"
type_synonym u64 = "64 word"
type_synonym i64 = "64 word"
type_synonym bytes = "u8 list"

definition sat_sub :: "'a::len word \<Rightarrow> 'a word \<Rightarrow> 'a word" where
  "sat_sub a b = (if b \<le> a then a - b else 0)"

definition sat_add :: "'a::len word \<Rightarrow> 'a word \<Rightarrow> 'a word" where
  "sat_add a b = (if a + b < a then - 1 else a + b)"

lemma unat_sat_add: "unat (sat_add a b :: 'a::len word) = min (unat a + unat b) (2 ^ LENGTH('a) - 1)"
proof (cases "unat a + unat b < 2 ^ LENGTH('a)")
  case True
  then have "unat (a + b) = unat a + unat b" by (simp add: unat_word_ariths)
  with True show ?thesis by (simp add: sat_add_def word_less_nat_alt)
next
  case False
  have "unat a < 2 ^ LENGTH('a)" "unat b < 2 ^ LENGTH('a)" by (rule unsigned_less)+
  then have "unat a + unat b - 2 ^ LENGTH('a) < 2 ^ LENGTH('a)" by linarith
  then have "(unat a + unat b) mod 2 ^ LENGTH('a) = unat a + unat b - 2 ^ LENGTH('a)"
    using False by (simp add: le_mod_geq)
  then have "unat (a + b) = unat a + unat b - 2 ^ LENGTH('a)" by (simp only: unat_word_ariths)
  moreover from this have "unat (a + b) < unat a"
    using False \<open>unat b < 2 ^ LENGTH('a)\<close> by linarith
  ultimately show ?thesis using False by (simp add: sat_add_def word_less_nat_alt unsigned_minus_1_eq_mask mask_eq_exp_minus_1)
qed

lemma sat_add_ge: "a \<le> sat_add a b"
  by (auto simp: sat_add_def word_order.extremum)

lemma sat_add_1_nonzero: "sat_add (a :: u64) 1 \<noteq> 0"
proof -
  have "0 < unat (sat_add a 1)" unfolding unat_sat_add by simp
  then show ?thesis by auto
qed

lemma unat_sat_sub: "unat (sat_sub a b) = unat a - unat b"
  by (auto simp: sat_sub_def unat_sub word_le_nat_alt)

lemma sat_sub_le: "sat_sub a b \<le> a"
  by (simp add: word_le_nat_alt unat_sat_sub)

lemma sat_sub_0 [simp]: "sat_sub a 0 = a"
  by (simp add: sat_sub_def)

lemma sat_sub_self [simp]: "sat_sub a a = 0"
  by (simp add: sat_sub_def)

lemma unat_of_nat_small: "n < 2 ^ LENGTH('a) \<Longrightarrow> unat (of_nat n :: 'a::len word) = n"
  by (simp add: unat_of_nat)

lemma unat_lt_u64: "unat (x :: u64) < 2 ^ 64"
  using unsigned_less [of x] by simp

lemma unat_lt_u32: "unat (x :: u32) < 2 ^ 32"
  using unsigned_less [of x] by simp

lemma unat_lt_u16: "unat (x :: u16) < 2 ^ 16"
  using unsigned_less [of x] by simp

lemma unat_lt_u8: "unat (x :: u8) < 256"
  using unsigned_less [of x] by simp

section \<open>Slices\<close>

text \<open>\<open>slice i j buf\<close> is Rust's \<open>buf[i..j]\<close>, for \<open>i \<le> j \<le> buf.len()\<close>.\<close>

definition slice :: "nat \<Rightarrow> nat \<Rightarrow> 'a list \<Rightarrow> 'a list" where
  "slice i j xs = take (j - i) (drop i xs)"

lemma length_slice [simp]: "length (slice i j xs) = min (j - i) (length xs - i)"
  by (simp add: slice_def min.commute)

lemma slice_append_left: "j \<le> length xs \<Longrightarrow> slice i j (xs @ ys) = slice i j xs"
  by (cases "i \<le> j") (simp_all add: slice_def)

lemma slice_append_right:
  "length xs = n \<Longrightarrow> slice (n + i) (n + j) (xs @ ys) = slice i j ys"
  by (simp add: slice_def)

lemma slice_0_all: "length xs = n \<Longrightarrow> slice 0 n (xs @ ys) = xs"
  by (simp add: slice_def)

lemma slice_mid: "length xs = i \<Longrightarrow> length xs + length ys = j \<Longrightarrow> slice i j (xs @ ys @ zs) = ys"
  by (auto simp: slice_def)

section \<open>Sliding windows\<close>

text \<open>The last \<open>k\<close> elements of a list: what a bounded queue of that capacity holds.\<close>

definition lastn :: "nat \<Rightarrow> 'a list \<Rightarrow> 'a list" where
  "lastn k xs = drop (length xs - k) xs"

lemma lastn_append: "lastn k (lastn k xs @ ys) = lastn k (xs @ ys)"
  by (cases "length xs \<le> k") (auto simp: lastn_def add.commute)

text \<open>Dropping the expired front of a queue keeps what is not expired when age decreases along the queue.\<close>

lemma dropWhile_eq_filter:
  "sorted_wrt (\<lambda>x y. P y \<longrightarrow> P x) xs \<Longrightarrow> dropWhile P xs = filter (\<lambda>x. \<not> P x) xs"
proof (induction xs)
  case (Cons x xs)
  then show ?case by (cases "P x") (auto simp: filter_id_conv)
qed simp

section \<open>Byte codecs\<close>

primrec le_enc :: "nat \<Rightarrow> nat \<Rightarrow> bytes" where
  "le_enc 0 n = []"
| "le_enc (Suc k) n = of_nat n # le_enc k (n div 256)"

primrec le_dec :: "bytes \<Rightarrow> nat" where
  "le_dec [] = 0"
| "le_dec (b # bs) = unat b + 256 * le_dec bs"

lemma length_le_enc [simp]: "length (le_enc k n) = k"
  by (induction k arbitrary: n) auto

lemma le_dec_enc: "le_dec (le_enc k n) = n mod 256 ^ k"
proof (induction k arbitrary: n)
  case (Suc k)
  have "le_dec (le_enc (Suc k) n) = n mod 256 + 256 * (n div 256 mod 256 ^ k)"
    by (simp add: Suc.IH unat_of_nat)
  also have "\<dots> = n mod (256 * 256 ^ k)"
    by (simp only: mod_mult2_eq)
  finally show ?case by simp
qed simp

lemma le_dec_bound: "le_dec bs < 256 ^ length bs"
proof (induction bs)
  case (Cons b bs)
  have "unat b < 256" by (rule unat_lt_u8)
  with Cons show ?case by simp
qed simp

lemma le_enc_dec: "le_enc (length bs) (le_dec bs) = bs"
proof (induction bs)
  case (Cons b bs)
  have b: "unat b < 256" by (rule unat_lt_u8)
  have "(256 :: u8) = 0" by simp
  then have "of_nat (unat b + 256 * le_dec bs) = b"
    by (simp only: of_nat_add of_nat_mult of_nat_numeral) simp
  then show ?case
    using Cons b by simp
qed simp

definition to_le :: "nat \<Rightarrow> 'a::len word \<Rightarrow> bytes" where
  "to_le k w = le_enc k (unat w)"

definition from_le :: "bytes \<Rightarrow> 'a::len word" where
  "from_le bs = of_nat (le_dec bs)"

definition to_be :: "nat \<Rightarrow> 'a::len word \<Rightarrow> bytes" where
  "to_be k w = rev (to_le k w)"

definition from_be :: "bytes \<Rightarrow> 'a::len word" where
  "from_be bs = from_le (rev bs)"

lemma length_to_le [simp]: "length (to_le k w) = k"
  by (simp add: to_le_def)

lemma length_to_be [simp]: "length (to_be k w) = k"
  by (simp add: to_be_def)

lemma pow256: "(256::nat) ^ k = 2 ^ (8 * k)"
  by (simp add: power_mult)

lemma from_to_le:
  fixes w :: "'a::len word"
  assumes "LENGTH('a) = 8 * k"
  shows "from_le (to_le k w) = w"
proof -
  have "unat w < 256 ^ k"
    using unsigned_less [of w] assms by (simp add: pow256)
  then show ?thesis
    by (simp add: from_le_def to_le_def le_dec_enc)
qed

lemma from_to_be:
  fixes w :: "'a::len word"
  assumes "LENGTH('a) = 8 * k"
  shows "from_be (to_be k w) = w"
  using assms by (simp add: from_be_def to_be_def from_to_le)

lemma to_from_le:
  assumes "LENGTH('a) = 8 * k" "length bs = k"
  shows "to_le k (from_le bs :: 'a::len word) = bs"
proof -
  have "unat (of_nat (le_dec bs) :: 'a word) = le_dec bs"
    using le_dec_bound [of bs] assms by (intro unat_of_nat_small) (simp add: pow256)
  then show ?thesis
    using le_enc_dec [of bs] assms by (simp add: to_le_def from_le_def)
qed

lemma from_to_le_u64 [codec_simps, simp]: "from_le (to_le 8 (w :: u64)) = w"
  by (rule from_to_le) simp

lemma from_to_le_u32 [codec_simps, simp]: "from_le (to_le 4 (w :: u32)) = w"
  by (rule from_to_le) simp

lemma from_to_be_u64 [codec_simps, simp]: "from_be (to_be 8 (w :: u64)) = w"
  by (rule from_to_be) simp

lemma from_to_be_u32 [codec_simps, simp]: "from_be (to_be 4 (w :: u32)) = w"
  by (rule from_to_be) simp

lemma from_to_be_u16 [codec_simps, simp]: "from_be (to_be 2 (w :: u16)) = w"
  by (rule from_to_be) simp

lemma to_from_le_u64: "length bs = 8 \<Longrightarrow> to_le 8 (from_le bs :: u64) = bs"
  by (rule to_from_le) simp_all

lemma to_from_le_u32: "length bs = 4 \<Longrightarrow> to_le 4 (from_le bs :: u32) = bs"
  by (rule to_from_le) simp_all

lemma to_le_inj_u64: "to_le 8 (a :: u64) = to_le 8 b \<longleftrightarrow> a = b"
  by (metis from_to_le_u64)

lemma to_le_inj_u32: "to_le 4 (a :: u32) = to_le 4 b \<longleftrightarrow> a = b"
  by (metis from_to_le_u32)

section \<open>Errors as values\<close>

text \<open>A \<open>Result\<close> is a sum with the error on the left, as in \<^typ>\<open>'e + 'a\<close>; \<open>bind_res\<close> is the
  \<open>?\<close> operator.\<close>

fun bind_res :: "'e + 'a \<Rightarrow> ('a \<Rightarrow> 'e + 'b) \<Rightarrow> 'e + 'b" where
  "bind_res (Inl e) f = Inl e"
| "bind_res (Inr x) f = f x"

lemma bind_res_Inr_iff: "bind_res r f = Inr y \<longleftrightarrow> (\<exists>x. r = Inr x \<and> f x = Inr y)"
  by (cases r) auto

end
