(* ===== verification/FL_OrdMap.thy ===== *)
theory FL_OrdMap
  imports FL_Prelude
begin

text \<open>
  Rust's ordered map \<open>BTreeMap\<close>, and \<open>HashMap\<close> wherever the code does not observe the iteration
  order: a finite map kept as a key-sorted association list. The type is closed under its
  operations, so no representation invariant shows up in the books and trackers that use it; two
  maps with the same look-up function are equal.
\<close>

section \<open>Sorted association lists\<close>

fun al_insert :: "'k::linorder \<Rightarrow> 'v \<Rightarrow> ('k \<times> 'v) list \<Rightarrow> ('k \<times> 'v) list" where
  "al_insert k v [] = [(k, v)]"
| "al_insert k v ((k', v') # xs) =
     (if k < k' then (k, v) # (k', v') # xs
      else if k = k' then (k, v) # xs
      else (k', v') # al_insert k v xs)"

fun al_remove :: "'k::linorder \<Rightarrow> ('k \<times> 'v) list \<Rightarrow> ('k \<times> 'v) list" where
  "al_remove k [] = []"
| "al_remove k ((k', v') # xs) = (if k = k' then xs else (k', v') # al_remove k xs)"

fun al_equal :: "('k::linorder \<times> 'v) list \<Rightarrow> ('k \<times> 'v) list \<Rightarrow> bool" where
  "al_equal [] [] = True"
| "al_equal ((k, v) # xs) ((k', v') # ys) = (k \<le> k' \<and> k' \<le> k \<and> v = v' \<and> al_equal xs ys)"
| "al_equal _ _ = False"

abbreviation al_sorted :: "('k::linorder \<times> 'v) list \<Rightarrow> bool" where
  "al_sorted xs \<equiv> sorted_wrt (<) (map fst xs)"

lemma al_insert_keys: "set (map fst (al_insert k v xs)) = insert k (set (map fst xs))"
  by (induction k v xs rule: al_insert.induct) auto

lemma al_insert_sorted: "al_sorted xs \<Longrightarrow> al_sorted (al_insert k v xs)"
proof (induction k v xs rule: al_insert.induct)
  case (2 k v k' v' xs)
  then show ?case
    using al_insert_keys [of k v xs] by fastforce
qed simp

lemma al_remove_keys_subset: "set (map fst (al_remove k xs)) \<subseteq> set (map fst xs)"
  by (induction k xs rule: al_remove.induct) auto

lemma al_remove_sorted: "al_sorted xs \<Longrightarrow> al_sorted (al_remove k xs)"
proof (induction k xs rule: al_remove.induct)
  case (2 k k' v' xs)
  then show ?case
    using al_remove_keys_subset [of k xs] by fastforce
qed simp

lemma al_sorted_distinct: "al_sorted xs \<Longrightarrow> distinct (map fst xs)"
  by (simp add: strict_sorted_iff)

lemma map_of_al_insert: "map_of (al_insert k v xs) = (map_of xs)(k \<mapsto> v)"
  by (induction k v xs rule: al_insert.induct) auto

lemma map_of_not_key: "k \<notin> set (map fst xs) \<Longrightarrow> map_of xs k = None"
  by (simp add: map_of_eq_None_iff)

lemma map_of_al_remove: "al_sorted xs \<Longrightarrow> map_of (al_remove k xs) = (map_of xs)(k := None)"
proof (induction k xs rule: al_remove.induct)
  case (2 k k' v' xs)
  have "map_of xs k' = None"
    using 2 by (intro map_of_not_key) auto
  with 2 show ?case by (auto simp: fun_eq_iff)
qed simp

lemma map_of_rev: "distinct (map fst xs) \<Longrightarrow> map_of (rev xs) = map_of xs"
  by (intro map_of_inject_set [THEN iffD2]) (auto simp: rev_map [symmetric])

lemma al_eqI:
  assumes "al_sorted xs" "al_sorted ys" "map_of xs = map_of ys"
  shows "xs = ys"
proof -
  have d: "distinct (map fst xs)" "distinct (map fst ys)"
    using assms by (auto simp: al_sorted_distinct)
  then have s: "set xs = set ys"
    using assms(3) by (metis map_of_inject_set)
  have k: "map fst xs = map fst ys"
    using assms s by (intro strict_sorted_equal) auto
  have "inj_on fst (set xs \<union> set ys)"
    using d s by (simp add: distinct_map)
  then show ?thesis
    using k by (rule map_inj_on [rotated])
qed

lemma al_equal_iff: "al_equal xs ys \<longleftrightarrow> xs = ys"
  by (induction xs ys rule: al_equal.induct) auto

section \<open>The type of finite ordered maps\<close>

typedef (overloaded) ('k::linorder, 'v) omap = "{xs :: ('k \<times> 'v) list. al_sorted xs}"
  morphisms om_entries Omap
  by (rule exI [of _ "[]"]) simp

setup_lifting type_definition_omap

lift_definition om_empty :: "('k::linorder, 'v) omap" is "[]" by simp

lift_definition om_insert :: "'k::linorder \<Rightarrow> 'v \<Rightarrow> ('k, 'v) omap \<Rightarrow> ('k, 'v) omap" is al_insert
  by (rule al_insert_sorted)

lift_definition om_remove :: "'k::linorder \<Rightarrow> ('k, 'v) omap \<Rightarrow> ('k, 'v) omap" is al_remove
  by (rule al_remove_sorted)

definition om_lookup :: "('k::linorder, 'v) omap \<Rightarrow> 'k \<Rightarrow> 'v option" where
  "om_lookup m = map_of (om_entries m)"

definition om_keys :: "('k::linorder, 'v) omap \<Rightarrow> 'k list" where
  "om_keys m = map fst (om_entries m)"

definition om_values :: "('k::linorder, 'v) omap \<Rightarrow> 'v list" where
  "om_values m = map snd (om_entries m)"

definition om_size :: "('k::linorder, 'v) omap \<Rightarrow> nat" where
  "om_size m = length (om_entries m)"

definition om_first_key :: "('k::linorder, 'v) omap \<Rightarrow> 'k option" where
  "om_first_key m = (case om_keys m of [] \<Rightarrow> None | k # _ \<Rightarrow> Some k)"

definition om_last_key :: "('k::linorder, 'v) omap \<Rightarrow> 'k option" where
  "om_last_key m = (if om_keys m = [] then None else Some (last (om_keys m)))"

instantiation omap :: (linorder, equal) equal
begin
definition equal_omap :: "('a, 'b) omap \<Rightarrow> ('a, 'b) omap \<Rightarrow> bool" where
  "equal_omap m n \<longleftrightarrow> al_equal (om_entries m) (om_entries n)"
instance
  by standard (simp add: equal_omap_def al_equal_iff om_entries_inject)
end

lemma om_sorted: "al_sorted (om_entries m)"
  using om_entries [of m] by simp

lemma om_keys_sorted: "sorted_wrt (<) (om_keys m)"
  by (simp add: om_keys_def om_sorted)

lemma om_keys_distinct [simp]: "distinct (om_keys m)"
  using om_keys_sorted [of m] by (simp add: strict_sorted_iff)

lemma om_lookup_empty [simp]: "om_lookup om_empty k = None"
  by (simp add: om_lookup_def om_empty.rep_eq)

lemma om_entries_empty [simp]: "om_entries om_empty = []"
  by (rule om_empty.rep_eq)

lemma om_lookup_insert: "om_lookup (om_insert k v m) = (om_lookup m)(k \<mapsto> v)"
  by (simp add: om_lookup_def om_insert.rep_eq map_of_al_insert)

lemma om_lookup_remove: "om_lookup (om_remove k m) = (om_lookup m)(k := None)"
  by (simp add: om_lookup_def om_remove.rep_eq map_of_al_remove om_sorted)

lemma omap_eqI: "(\<And>k. om_lookup m k = om_lookup n k) \<Longrightarrow> m = n"
  using al_eqI [OF om_sorted om_sorted, of m n]
  by (auto simp: om_lookup_def om_entries_inject [symmetric] fun_eq_iff)

lemma omap_eq_iff: "m = n \<longleftrightarrow> om_lookup m = om_lookup n"
  by (auto intro: omap_eqI)

lemma om_lookup_Some_iff: "om_lookup m k = Some v \<longleftrightarrow> (k, v) \<in> set (om_entries m)"
  using al_sorted_distinct [OF om_sorted, of m] by (simp add: om_lookup_def)

lemma om_key_iff: "k \<in> set (om_keys m) \<longleftrightarrow> om_lookup m k \<noteq> None"
  by (auto simp: om_keys_def om_lookup_def map_of_eq_None_iff)

lemma dom_om_lookup: "dom (om_lookup m) = set (om_keys m)"
  by (auto simp: om_key_iff)

lemma finite_dom_om_lookup [simp]: "finite (dom (om_lookup m))"
  by (simp add: dom_om_lookup)

lemma om_size_card: "om_size m = card (dom (om_lookup m))"
  using distinct_card [OF om_keys_distinct, of m]
  by (simp add: dom_om_lookup om_size_def om_keys_def)

lemma om_remove_absent: "om_lookup m k = None \<Longrightarrow> om_remove k m = m"
  by (rule omap_eqI) (simp add: om_lookup_remove fun_upd_idem)

lemma om_size_insert: "om_size (om_insert k v m) = (if om_lookup m k = None then Suc (om_size m) else om_size m)"
  by (auto simp: om_size_card om_lookup_insert card_insert_if domIff)

lemma om_size_remove: "om_size (om_remove k m) = (if om_lookup m k = None then om_size m else om_size m - 1)"
  by (auto simp: om_size_card om_lookup_remove domIff)

lemma om_size_0_iff: "om_size m = 0 \<longleftrightarrow> m = om_empty"
  by (metis length_0_conv om_entries_empty om_entries_inject om_size_def)

lemma om_size_empty [simp]: "om_size om_empty = 0"
  by (simp add: om_size_0_iff)

lemma om_first_key_None: "om_first_key m = None \<longleftrightarrow> m = om_empty"
  by (auto simp: om_first_key_def om_keys_def om_entries_inject [symmetric] split: list.splits)

lemma om_first_key_Some:
  "om_first_key m = Some k \<longleftrightarrow> om_lookup m k \<noteq> None \<and> (\<forall>k'. om_lookup m k' \<noteq> None \<longrightarrow> k \<le> k')"
proof (cases "om_keys m")
  case Nil
  then show ?thesis
    using om_key_iff [of _ m] by (auto simp: om_first_key_def)
next
  case (Cons a ks)
  have "\<forall>k' \<in> set ks. a < k'"
    using om_keys_sorted [of m] Cons by simp
  moreover have "om_lookup m k' \<noteq> None \<longleftrightarrow> k' = a \<or> k' \<in> set ks" for k'
    using om_key_iff [of k' m] Cons by simp
  moreover have "om_first_key m = Some k \<longleftrightarrow> a = k"
    using Cons by (simp add: om_first_key_def)
  ultimately show ?thesis
    by (metis less_imp_le not_less order.order_iff_strict)
qed

lemma om_last_key_Some:
  "om_last_key m = Some k \<longleftrightarrow> om_lookup m k \<noteq> None \<and> (\<forall>k'. om_lookup m k' \<noteq> None \<longrightarrow> k' \<le> k)"
proof (cases "om_keys m" rule: rev_cases)
  case Nil
  then show ?thesis
    using om_key_iff [of _ m] by (auto simp: om_last_key_def)
next
  case (snoc ks a)
  have "\<forall>k' \<in> set ks. k' < a"
    using om_keys_sorted [of m] snoc by (simp add: sorted_wrt_append)
  moreover have "om_lookup m k' \<noteq> None \<longleftrightarrow> k' = a \<or> k' \<in> set ks" for k'
    using om_key_iff [of k' m] snoc by auto
  moreover have "om_last_key m = Some k \<longleftrightarrow> a = k"
    using snoc by (simp add: om_last_key_def)
  ultimately show ?thesis
    by (metis less_imp_le not_less order.order_iff_strict)
qed

text \<open>Re-inserting the entries of a map one by one gives the map back, in any order of the keys.\<close>

lemma om_lookup_fold_insert:
  "om_lookup (fold (\<lambda>(k, v). om_insert k v) xs m) = om_lookup m ++ map_of (rev xs)"
  by (induction xs arbitrary: m) (auto simp: om_lookup_insert map_add_def fun_eq_iff split: option.splits)

lemma om_fold_entries: "fold (\<lambda>(k, v). om_insert k v) (om_entries m) om_empty = m"
proof (rule omap_eqI)
  fix k
  have "map_of (rev (om_entries m)) = map_of (om_entries m)"
    by (intro map_of_rev al_sorted_distinct om_sorted)
  then show "om_lookup (fold (\<lambda>(k, v). om_insert k v) (om_entries m) om_empty) k = om_lookup m k"
    by (simp only: om_lookup_fold_insert) (simp add: om_lookup_def map_add_def split: option.split)
qed

section \<open>Sums over the values\<close>

definition om_sum :: "('v \<Rightarrow> 'n::comm_monoid_add) \<Rightarrow> ('k::linorder, 'v) omap \<Rightarrow> 'n" where
  "om_sum f m = sum_list (map f (om_values m))"

lemma om_sum_alt: "om_sum f m = (\<Sum>k\<in>dom (om_lookup m). f (the (om_lookup m k)))"
proof -
  have "sum_list (map f (om_values m)) = sum_list (map (\<lambda>k. f (the (om_lookup m k))) (om_keys m))"
    unfolding om_values_def om_keys_def map_map
    by (intro arg_cong [where f = sum_list] map_cong refl)
       (auto simp: om_lookup_Some_iff [symmetric])
  also have "\<dots> = (\<Sum>k\<in>set (om_keys m). f (the (om_lookup m k)))"
    by (intro sum_list_distinct_conv_sum_set om_keys_distinct)
  finally show ?thesis by (simp add: om_sum_def dom_om_lookup)
qed

lemma om_sum_empty [simp]: "om_sum f om_empty = 0"
  by (simp add: om_sum_def om_values_def)

lemma om_sum_insert: "om_sum f (om_insert k v m) = f v + om_sum f (om_remove k m)"
proof -
  let ?D = "dom (om_lookup m) - {k}"
  have "om_sum f (om_insert k v m) = (\<Sum>j\<in>insert k ?D. f (the (((om_lookup m)(k \<mapsto> v)) j)))"
    by (simp add: om_sum_alt om_lookup_insert)
  also have "\<dots> = f v + (\<Sum>j\<in>?D. f (the (((om_lookup m)(k \<mapsto> v)) j)))"
    by (subst sum.insert) auto
  also have "(\<Sum>j\<in>?D. f (the (((om_lookup m)(k \<mapsto> v)) j))) = om_sum f (om_remove k m)"
    by (simp add: om_sum_alt om_lookup_remove)
  finally show ?thesis .
qed

lemma om_sum_split: "om_lookup m k = Some v \<Longrightarrow> om_sum f m = f v + om_sum f (om_remove k m)"
  by (metis fun_upd_idem om_lookup_insert om_sum_insert omap_eq_iff)

lemma om_sum_absent: "om_lookup m k = None \<Longrightarrow> om_sum f (om_insert k v m) = f v + om_sum f m"
  by (simp add: om_sum_insert om_remove_absent)

end
