(* ===== verification/FL_Event.thy ===== *)
theory FL_Event
  imports FL_OrdMap
begin

text \<open>
  The canonical 40-byte event of \<open>core/src/event.rs\<close>: the struct as a record, the discriminated
  codes \<open>EventType\<close> and \<open>Side\<close> with their \<open>from_u8\<close>, the byte layout that \<open>bytemuck\<close> exposes on a
  little-endian target, and the sequenced wrapper that the replay engine orders by.
\<close>

record event =
  ev_ts :: u64
  ev_price :: u64
  ev_qty :: u64
  ev_order_id :: u64
  ev_instrument_id :: u32
  ev_event_type :: u8
  ev_side :: u8
  ev_pad :: "u8 \<times> u8"

datatype event_type = OrderAdd | OrderCancel | OrderModify | Trade | BookSnapshot

datatype side = Bid | Ask

record sequenced_event =
  se_seq :: u64
  se_channel_id :: u32
  se_event :: event

definition event_type_from_u8 :: "u8 \<Rightarrow> event_type option" where
  "event_type_from_u8 v =
     (if v = 1 then Some OrderAdd
      else if v = 2 then Some OrderCancel
      else if v = 3 then Some OrderModify
      else if v = 4 then Some Trade
      else if v = 5 then Some BookSnapshot
      else None)"

fun event_type_code :: "event_type \<Rightarrow> u8" where
  "event_type_code OrderAdd = 1"
| "event_type_code OrderCancel = 2"
| "event_type_code OrderModify = 3"
| "event_type_code Trade = 4"
| "event_type_code BookSnapshot = 5"

definition side_from_u8 :: "u8 \<Rightarrow> side option" where
  "side_from_u8 v = (if v = 0 then Some Bid else if v = 1 then Some Ask else None)"

fun side_code :: "side \<Rightarrow> u8" where
  "side_code Bid = 0"
| "side_code Ask = 1"

lemma event_type_from_u8_Some: "event_type_from_u8 v = Some t \<longleftrightarrow> v = event_type_code t"
  by (cases t) (auto simp: event_type_from_u8_def)

lemma event_type_from_code [simp]: "event_type_from_u8 (event_type_code t) = Some t"
  by (simp add: event_type_from_u8_Some)

lemma side_from_u8_Some: "side_from_u8 v = Some s \<longleftrightarrow> v = side_code s"
  by (cases s) (auto simp: side_from_u8_def)

lemma side_from_code [simp]: "side_from_u8 (side_code s) = Some s"
  by (simp add: side_from_u8_Some)

lemma side_code_eq_0 [simp]: "side_code s = 0 \<longleftrightarrow> s = Bid"
  by (cases s) auto

section \<open>The byte layout\<close>

definition event_zeroed :: event where
  "event_zeroed = \<lparr>ev_ts = 0, ev_price = 0, ev_qty = 0, ev_order_id = 0, ev_instrument_id = 0,
     ev_event_type = 0, ev_side = 0, ev_pad = (0, 0)\<rparr>"

definition event_bytes :: "event \<Rightarrow> bytes" where
  "event_bytes e =
     to_le 8 (ev_ts e) @ to_le 8 (ev_price e) @ to_le 8 (ev_qty e) @ to_le 8 (ev_order_id e) @
     to_le 4 (ev_instrument_id e) @
     [ev_event_type e, ev_side e, fst (ev_pad e), snd (ev_pad e)]"

definition event_of_bytes :: "bytes \<Rightarrow> event" where
  "event_of_bytes b = \<lparr>ev_ts = from_le (slice 0 8 b), ev_price = from_le (slice 8 16 b),
     ev_qty = from_le (slice 16 24 b), ev_order_id = from_le (slice 24 32 b),
     ev_instrument_id = from_le (slice 32 36 b), ev_event_type = b ! 36, ev_side = b ! 37,
     ev_pad = (b ! 38, b ! 39)\<rparr>"

lemma length_event_bytes [simp]: "length (event_bytes e) = 40"
  by (simp add: event_bytes_def)

lemma event_bytes_roundtrip: "event_of_bytes (event_bytes e) = e"
  by (simp add: event_of_bytes_def event_bytes_def slice_def nth_append)

lemma event_bytes_inj: "event_bytes e = event_bytes e' \<longleftrightarrow> e = e'"
  by (metis event_bytes_roundtrip)

end
