(* ===== verification/FL_OrderIndex.thy ===== *)
theory FL_OrderIndex
  imports FL_Event
begin

text \<open>
  The interface between an order book and its order-id index. The reference book keeps resting
  orders in a hash map, the hot book in a slab with a free list; both books only rely on the laws
  below. \<open>used\<close> bounds the number of slots ever allocated: the slab addresses them with 32 bits, so an
  insert is specified while fewer than \<open>2^32\<close> slots are in use.
\<close>

datatype 'm ix_op = IxInsert u64 'm | IxUpdate u64 'm | IxRemove u64

fun ix_spec :: "(u64 \<rightharpoonup> 'm) \<Rightarrow> 'm ix_op \<Rightarrow> (u64 \<rightharpoonup> 'm)" where
  "ix_spec m (IxInsert k v) = m(k \<mapsto> v)"
| "ix_spec m (IxUpdate k v) = (if m k = None then m else m(k \<mapsto> v))"
| "ix_spec m (IxRemove k) = m(k := None)"

locale order_index =
  fixes empty :: 's
    and insert :: "u64 \<Rightarrow> 'm \<Rightarrow> 's \<Rightarrow> 's"
    and update :: "u64 \<Rightarrow> 'm \<Rightarrow> 's \<Rightarrow> 's"
    and remove :: "u64 \<Rightarrow> 's \<Rightarrow> 's"
    and get :: "'s \<Rightarrow> u64 \<Rightarrow> 'm option"
    and invar :: "'s \<Rightarrow> bool"
    and used :: "'s \<Rightarrow> nat"
  assumes get_empty: "get empty = Map.empty"
    and get_insert: "invar s \<Longrightarrow> used s < 2 ^ 32 \<Longrightarrow> get (insert k m s) = (get s)(k \<mapsto> m)"
    and get_update: "invar s \<Longrightarrow> get s k \<noteq> None \<Longrightarrow> get (update k m s) = (get s)(k \<mapsto> m)"
    and update_absent: "get s k = None \<Longrightarrow> update k m s = s"
    and get_remove: "invar s \<Longrightarrow> get (remove k s) = (get s)(k := None)"
    and invar_empty: "invar empty"
    and invar_insert: "invar s \<Longrightarrow> used s < 2 ^ 32 \<Longrightarrow> invar (insert k m s)"
    and invar_update: "invar s \<Longrightarrow> invar (update k m s)"
    and invar_remove: "invar s \<Longrightarrow> invar (remove k s)"
    and used_empty: "used empty = 0"
    and used_insert: "used (insert k m s) \<le> Suc (used s)"
    and used_update: "used (update k m s) = used s"
    and used_remove: "used (remove k s) = used s"
begin

fun step :: "'s \<Rightarrow> 'm ix_op \<Rightarrow> 's" where
  "step s (IxInsert k v) = insert k v s"
| "step s (IxUpdate k v) = update k v s"
| "step s (IxRemove k) = remove k s"

lemma used_step: "used (step s a) \<le> Suc (used s)"
  by (cases a) (simp_all add: used_insert used_update used_remove)

lemma step_refines:
  assumes "invar s" "used s < 2 ^ 32"
  shows "invar (step s a)" and "get (step s a) = ix_spec (get s) a"
proof -
  show "invar (step s a)"
    using assms by (cases a) (simp_all add: invar_insert invar_update invar_remove)
  show "get (step s a) = ix_spec (get s) a"
    using assms by (cases a) (simp_all add: get_insert get_update get_remove update_absent)
qed

lemma run_refines:
  "invar s \<Longrightarrow> used s + length ops \<le> 2 ^ 32 \<Longrightarrow>
   invar (foldl step s ops) \<and> used (foldl step s ops) \<le> used s + length ops \<and>
   get (foldl step s ops) = foldl ix_spec (get s) ops"
proof (induction ops arbitrary: s)
  case (Cons a ops)
  have u: "used s < 2 ^ 32" using Cons.prems by simp
  have *: "used (step s a) \<le> Suc (used s)" by (rule used_step)
  with Cons.prems have "used (step s a) + length ops \<le> 2 ^ 32" by simp
  from Cons.IH [OF step_refines(1) [OF Cons.prems(1) u, of a] this] show ?case
    using * step_refines(2) [OF Cons.prems(1) u, of a] by simp
qed simp

end

end
