(* ===== verification/FL_Slab.thy ===== *)
theory FL_Slab
  imports FL_OrderIndex
begin

text \<open>
  The slab-backed order index of \<open>core/src/hot_book.rs\<close> (\<open>OrderMeta\<close>, \<open>OrderSlab\<close>): a dense vector of
  metadata, a stack of free slots and a hash index from order id to slot. Vectors grow and shrink at
  the end of the list. \<open>get_mut\<close> is modelled by \<open>slab_update\<close>, which writes through the returned
  reference. Reads of \<open>data\<close> are unchecked in the source; \<open>slab_inv\<close> is what makes every slot the
  index holds a valid one.
\<close>

record order_meta =
  mt_price :: u64
  mt_qty :: u64
  mt_side :: u8

record order_slab =
  sl_data :: "order_meta list"
  sl_free :: "u32 list"
  sl_index :: "(u64, u32) omap"

definition slab_new :: order_slab where
  "slab_new = \<lparr>sl_data = [], sl_free = [], sl_index = om_empty\<rparr>"

definition slab_insert :: "u64 \<Rightarrow> order_meta \<Rightarrow> order_slab \<Rightarrow> order_slab" where
  "slab_insert oid meta s =
     (case om_lookup (sl_index s) oid of
        Some slot \<Rightarrow> s\<lparr>sl_data := (sl_data s)[unat slot := meta]\<rparr>
      | None \<Rightarrow>
          if sl_free s \<noteq> [] then
            let slot = last (sl_free s) in
            s\<lparr>sl_data := (sl_data s)[unat slot := meta],
              sl_free := butlast (sl_free s),
              sl_index := om_insert oid slot (sl_index s)\<rparr>
          else
            let slot = of_nat (length (sl_data s)) in
            s\<lparr>sl_data := sl_data s @ [meta], sl_index := om_insert oid slot (sl_index s)\<rparr>)"

definition slab_get :: "order_slab \<Rightarrow> u64 \<Rightarrow> order_meta option" where
  "slab_get s oid =
     (case om_lookup (sl_index s) oid of
        None \<Rightarrow> None
      | Some slot \<Rightarrow> Some (sl_data s ! unat slot))"

definition slab_update :: "u64 \<Rightarrow> order_meta \<Rightarrow> order_slab \<Rightarrow> order_slab" where
  "slab_update oid meta s =
     (case om_lookup (sl_index s) oid of
        None \<Rightarrow> s
      | Some slot \<Rightarrow> s\<lparr>sl_data := (sl_data s)[unat slot := meta]\<rparr>)"

definition slab_remove :: "u64 \<Rightarrow> order_slab \<Rightarrow> order_slab \<times> order_meta option" where
  "slab_remove oid s =
     (case om_lookup (sl_index s) oid of
        None \<Rightarrow> (s, None)
      | Some slot \<Rightarrow>
          (s\<lparr>sl_index := om_remove oid (sl_index s), sl_free := sl_free s @ [slot]\<rparr>,
           Some (sl_data s ! unat slot)))"

section \<open>The slab invariant\<close>

definition slab_inv :: "order_slab \<Rightarrow> bool" where
  "slab_inv s \<longleftrightarrow>
     (\<forall>oid slot. om_lookup (sl_index s) oid = Some slot \<longrightarrow>
        unat slot < length (sl_data s) \<and> slot \<notin> set (sl_free s)) \<and>
     (\<forall>oid oid' slot. om_lookup (sl_index s) oid = Some slot \<longrightarrow>
        om_lookup (sl_index s) oid' = Some slot \<longrightarrow> oid = oid') \<and>
     distinct (sl_free s) \<and>
     (\<forall>slot \<in> set (sl_free s). unat slot < length (sl_data s)) \<and>
     length (sl_data s) = om_size (sl_index s) + length (sl_free s) \<and>
     length (sl_data s) \<le> 2 ^ 32"

lemma slab_invD:
  assumes "slab_inv s"
  shows slab_slot_bound: "om_lookup (sl_index s) oid = Some slot \<Longrightarrow> unat slot < length (sl_data s)"
    and slab_slot_not_free: "om_lookup (sl_index s) oid = Some slot \<Longrightarrow> slot \<notin> set (sl_free s)"
    and slab_slot_inj: "om_lookup (sl_index s) oid = Some slot \<Longrightarrow>
          om_lookup (sl_index s) oid' = Some slot \<Longrightarrow> oid = oid'"
    and slab_free_distinct: "distinct (sl_free s)"
    and slab_free_bound: "slot' \<in> set (sl_free s) \<Longrightarrow> unat slot' < length (sl_data s)"
    and slab_accounting: "length (sl_data s) = om_size (sl_index s) + length (sl_free s)"
    and slab_len_bound: "length (sl_data s) \<le> 2 ^ 32"
  using assms unfolding slab_inv_def by blast+

lemma slab_inv_new [simp]: "slab_inv slab_new"
  by (simp add: slab_inv_def slab_new_def om_size_def)

lemma slab_get_new [simp]: "slab_get slab_new = Map.empty"
  by (simp add: slab_get_def slab_new_def fun_eq_iff)

lemma slab_get_data_update:
  assumes "slab_inv s" "om_lookup (sl_index s) oid = Some slot"
  shows "slab_get (s\<lparr>sl_data := (sl_data s)[unat slot := meta]\<rparr>) = (slab_get s)(oid \<mapsto> meta)"
proof
  fix k
  show "slab_get (s\<lparr>sl_data := (sl_data s)[unat slot := meta]\<rparr>) k = ((slab_get s)(oid \<mapsto> meta)) k"
  proof (cases "k = oid")
    case True
    then show ?thesis
      using assms slab_slot_bound [OF assms] by (simp add: slab_get_def)
  next
    case False
    then have "om_lookup (sl_index s) k \<noteq> Some slot"
      using slab_slot_inj [OF assms(1), of oid slot k] assms(2) by blast
    then have "om_lookup (sl_index s) k = Some slot' \<Longrightarrow> unat slot' \<noteq> unat slot" for slot'
      by (auto simp: word_unat_eq_iff [symmetric])
    with False show ?thesis
      by (auto simp: slab_get_def split: option.split)
  qed
qed

lemma slab_inv_data_update: "slab_inv s \<Longrightarrow> slab_inv (s\<lparr>sl_data := (sl_data s)[i := meta]\<rparr>)"
  by (auto simp: slab_inv_def)

lemma slab_inv_reuse:
  assumes "slab_inv s" "om_lookup (sl_index s) oid = None" "sl_free s = fs @ [slot]"
  shows "slab_inv (s\<lparr>sl_data := (sl_data s)[unat slot := meta], sl_free := fs,
           sl_index := om_insert oid slot (sl_index s)\<rparr>)"
  using assms unfolding slab_inv_def
  by (auto simp: om_lookup_insert om_size_insert)

lemma slab_get_reuse:
  assumes "slab_inv s" "om_lookup (sl_index s) oid = None" "sl_free s = fs @ [slot]"
  shows "slab_get (s\<lparr>sl_data := (sl_data s)[unat slot := meta], sl_free := fs,
           sl_index := om_insert oid slot (sl_index s)\<rparr>) = (slab_get s)(oid \<mapsto> meta)"
proof
  fix k
  have b: "unat slot < length (sl_data s)"
    using slab_free_bound [OF assms(1), of slot] assms(3) by simp
  have "unat slot' \<noteq> unat slot" if "om_lookup (sl_index s) k = Some slot'" for slot'
    using slab_slot_not_free [OF assms(1) that] assms(3) by (auto simp: word_unat_eq_iff [symmetric])
  with b show "slab_get (s\<lparr>sl_data := (sl_data s)[unat slot := meta], sl_free := fs,
      sl_index := om_insert oid slot (sl_index s)\<rparr>) k = ((slab_get s)(oid \<mapsto> meta)) k"
    by (auto simp: slab_get_def om_lookup_insert split: option.split)
qed

lemma slab_inv_push:
  assumes "slab_inv s" "om_lookup (sl_index s) oid = None" "sl_free s = []"
    "length (sl_data s) < 2 ^ 32"
  shows "slab_inv (s\<lparr>sl_data := sl_data s @ [meta],
           sl_index := om_insert oid (of_nat (length (sl_data s))) (sl_index s)\<rparr>)"
proof -
  have u: "unat (of_nat (length (sl_data s)) :: u32) = length (sl_data s)"
    using assms(4) by (intro unat_of_nat_small) simp
  have "om_lookup (sl_index s) k \<noteq> Some (of_nat (length (sl_data s)))" for k
    using slab_slot_bound [OF assms(1), of k "of_nat (length (sl_data s))"] u by auto
  with assms u show ?thesis
    unfolding slab_inv_def by (auto simp: om_lookup_insert om_size_insert less_Suc_eq)
qed

lemma slab_get_push:
  assumes "slab_inv s" "length (sl_data s) < 2 ^ 32"
  shows "slab_get (s\<lparr>sl_data := sl_data s @ [meta],
           sl_index := om_insert oid (of_nat (length (sl_data s))) (sl_index s)\<rparr>) =
         (slab_get s)(oid \<mapsto> meta)"
proof -
  have u: "unat (of_nat (length (sl_data s)) :: u32) = length (sl_data s)"
    using assms(2) by (intro unat_of_nat_small) simp
  then show ?thesis
    using slab_slot_bound [OF assms(1)]
    by (auto simp: slab_get_def om_lookup_insert fun_eq_iff nth_append split: option.split)
qed

lemma slab_insert_correct:
  assumes "slab_inv s" "length (sl_data s) < 2 ^ 32"
  shows "slab_inv (slab_insert oid meta s) \<and>
         slab_get (slab_insert oid meta s) = (slab_get s)(oid \<mapsto> meta)"
proof (cases "om_lookup (sl_index s) oid")
  case (Some slot)
  then show ?thesis
    using assms by (simp add: slab_insert_def slab_inv_data_update slab_get_data_update)
next
  case None
  show ?thesis
  proof (cases "sl_free s" rule: rev_cases)
    case Nil
    then show ?thesis
      using None assms slab_inv_push [OF assms(1) None Nil assms(2)] slab_get_push [OF assms]
      by (simp add: slab_insert_def Let_def)
  next
    case (snoc fs slot)
    then show ?thesis
      using None slab_inv_reuse [OF assms(1) None snoc] slab_get_reuse [OF assms(1) None snoc]
      by (simp add: slab_insert_def Let_def)
  qed
qed

lemma slab_remove_correct:
  assumes "slab_inv s"
  shows "slab_inv (fst (slab_remove oid s)) \<and>
         slab_get (fst (slab_remove oid s)) = (slab_get s)(oid := None) \<and>
         snd (slab_remove oid s) = slab_get s oid"
proof (cases "om_lookup (sl_index s) oid")
  case None
  then show ?thesis
    using assms by (auto simp: slab_remove_def slab_get_def fun_eq_iff)
next
  case (Some slot)
  have "om_size (sl_index s) \<noteq> 0"
    using Some by (auto simp: om_size_0_iff)
  then have "slab_inv (s\<lparr>sl_index := om_remove oid (sl_index s), sl_free := sl_free s @ [slot]\<rparr>)"
    using assms Some unfolding slab_inv_def
    by (auto simp: om_lookup_remove om_size_remove split: if_splits)
  with Some show ?thesis
    by (auto simp: slab_remove_def slab_get_def om_lookup_remove fun_eq_iff split: option.split)
qed

section \<open>The slab implements the order index\<close>

interpretation slab: order_index slab_new slab_insert slab_update "\<lambda>oid s. fst (slab_remove oid s)"
    slab_get slab_inv "\<lambda>s. length (sl_data s)"
proof
  show "slab_get (slab_update k m s) = (slab_get s)(k \<mapsto> m)"
    if "slab_inv s" "slab_get s k \<noteq> None" for s k m
    using that slab_get_data_update
    by (auto simp: slab_update_def slab_get_def [of s k] split: option.splits)
  show "slab_inv (slab_update k m s)" if "slab_inv s" for s k m
    using that slab_inv_data_update by (auto simp: slab_update_def split: option.split)
  show "length (sl_data (slab_insert k m s)) \<le> Suc (length (sl_data s))" for k m s
    by (simp add: slab_insert_def Let_def split: option.split)
  show "slab_inv (fst (slab_remove k s))" "slab_get (fst (slab_remove k s)) = (slab_get s)(k := None)"
    if "slab_inv s" for s k
    using slab_remove_correct [OF that, of k] by auto
  show "length (sl_data (fst (slab_remove k s))) = length (sl_data s)" for s k
    by (simp add: slab_remove_def split: option.split)
  show "slab_update k m s = s" if "slab_get s k = None" for s k m
    using that by (simp add: slab_update_def slab_get_def split: option.splits)
  show "length (sl_data (slab_update k m s)) = length (sl_data s)" for s k m
    by (simp add: slab_update_def split: option.split)
  show "length (sl_data slab_new) = 0"
    by (simp add: slab_new_def)
qed (simp_all add: slab_insert_correct)

end
