(* ===== verification/FL_OrderBook.thy ===== *)
theory FL_OrderBook
  imports FL_OrderIndex
begin

text \<open>
  The reference order book of \<open>core/src/orderbook.rs\<close>: two \<open>BTreeMap\<close>s of price levels and a hash
  map of resting orders. Every method is a definition that takes the book and returns the new book
  together with the Boolean the method returns.
\<close>

record level =
  lv_price :: u64
  lv_total_qty :: u64
  lv_order_count :: u32

record order =
  or_order_id :: u64
  or_price :: u64
  or_qty :: u64
  or_side :: side

record order_book =
  ob_instrument_id :: u32
  ob_bids :: "(u64, level) omap"
  ob_asks :: "(u64, level) omap"
  ob_orders :: "(u64, order) omap"

definition ob_new :: "u32 \<Rightarrow> order_book" where
  "ob_new iid = \<lparr>ob_instrument_id = iid, ob_bids = om_empty, ob_asks = om_empty,
     ob_orders = om_empty\<rparr>"

fun ob_levels :: "side \<Rightarrow> order_book \<Rightarrow> (u64, level) omap" where
  "ob_levels Bid b = ob_bids b"
| "ob_levels Ask b = ob_asks b"

fun ob_set_levels :: "side \<Rightarrow> (u64, level) omap \<Rightarrow> order_book \<Rightarrow> order_book" where
  "ob_set_levels Bid ls b = b\<lparr>ob_bids := ls\<rparr>"
| "ob_set_levels Ask ls b = b\<lparr>ob_asks := ls\<rparr>"

text \<open>\<open>levels.entry(price).or_insert_with(..)\<close>, then \<open>total_qty += qty; order_count += 1\<close>.\<close>

definition ob_grow_level :: "u64 \<Rightarrow> u64 \<Rightarrow> (u64, level) omap \<Rightarrow> (u64, level) omap" where
  "ob_grow_level price qty levels =
     (let l = (case om_lookup levels price of Some l \<Rightarrow> l
               | None \<Rightarrow> \<lparr>lv_price = price, lv_total_qty = 0, lv_order_count = 0\<rparr>)
      in om_insert price
           (l\<lparr>lv_total_qty := lv_total_qty l + qty, lv_order_count := lv_order_count l + 1\<rparr>) levels)"

definition ob_add_order :: "order_book \<Rightarrow> event \<Rightarrow> order_book \<times> bool" where
  "ob_add_order b e =
     (case side_from_u8 (ev_side e) of
        None \<Rightarrow> (b, False)
      | Some sd \<Rightarrow>
          let ord = \<lparr>or_order_id = ev_order_id e, or_price = ev_price e, or_qty = ev_qty e, or_side = sd\<rparr>;
              b1 = ob_set_levels sd (ob_grow_level (ev_price e) (ev_qty e) (ob_levels sd b)) b
          in (b1\<lparr>ob_orders := om_insert (ev_order_id e) ord (ob_orders b1)\<rparr>, True))"

text \<open>
  The level update shared by cancels and trades: deduct \<open>q\<close>, and when the order leaves the book
  drop the order count, removing the level at zero. A missing level is left alone.
\<close>

definition ob_shrink_level :: "u64 \<Rightarrow> u64 \<Rightarrow> bool \<Rightarrow> (u64, level) omap \<Rightarrow> (u64, level) omap" where
  "ob_shrink_level price q release levels =
     (case om_lookup levels price of
        None \<Rightarrow> levels
      | Some l \<Rightarrow>
          let l1 = l\<lparr>lv_total_qty := sat_sub (lv_total_qty l) q\<rparr> in
          if release then
            let l2 = l1\<lparr>lv_order_count := sat_sub (lv_order_count l1) 1\<rparr> in
            if lv_order_count l2 = 0 then om_remove price levels else om_insert price l2 levels
          else om_insert price l1 levels)"

definition ob_cancel_order :: "order_book \<Rightarrow> event \<Rightarrow> order_book \<times> bool" where
  "ob_cancel_order b e =
     (let oid = ev_order_id e in
      case om_lookup (ob_orders b) oid of
        None \<Rightarrow> (b, False)
      | Some ord \<Rightarrow>
          let (deduct_qty, release_slot, orders') =
                (if ev_qty e = 0 \<or> or_qty ord \<le> ev_qty e
                 then (or_qty ord, True, om_remove oid (ob_orders b))
                 else (ev_qty e, False,
                       om_insert oid (ord\<lparr>or_qty := or_qty ord - ev_qty e\<rparr>) (ob_orders b)));
              b1 = b\<lparr>ob_orders := orders'\<rparr>;
              levels' = ob_shrink_level (or_price ord) deduct_qty release_slot (ob_levels (or_side ord) b1)
          in (ob_set_levels (or_side ord) levels' b1, True))"

definition ob_modify_order :: "order_book \<Rightarrow> event \<Rightarrow> order_book \<times> bool" where
  "ob_modify_order b e = ob_add_order (fst (ob_cancel_order b e)) e"

definition ob_execute_trade :: "order_book \<Rightarrow> event \<Rightarrow> order_book \<times> bool" where
  "ob_execute_trade b e =
     (let oid = ev_order_id e in
      case om_lookup (ob_orders b) oid of
        None \<Rightarrow> (b, False)
      | Some ord \<Rightarrow>
          let old_qty = or_qty ord;
              new_qty = sat_sub (or_qty ord) (ev_qty e);
              levels' = ob_shrink_level (or_price ord) (min (ev_qty e) old_qty) (new_qty = 0)
                          (ob_levels (or_side ord) b);
              b1 = ob_set_levels (or_side ord) levels' b;
              orders' = (if new_qty = 0 then om_remove oid (ob_orders b1)
                         else om_insert oid (ord\<lparr>or_qty := new_qty\<rparr>) (ob_orders b1))
          in (b1\<lparr>ob_orders := orders'\<rparr>, True))"

definition ob_apply :: "order_book \<Rightarrow> event \<Rightarrow> order_book \<times> bool" where
  "ob_apply b e =
     (case event_type_from_u8 (ev_event_type e) of
        None \<Rightarrow> (b, False)
      | Some OrderAdd \<Rightarrow> ob_add_order b e
      | Some OrderCancel \<Rightarrow> ob_cancel_order b e
      | Some OrderModify \<Rightarrow> ob_modify_order b e
      | Some Trade \<Rightarrow> ob_execute_trade b e
      | Some BookSnapshot \<Rightarrow> (b, False))"

definition ob_best_bid :: "order_book \<Rightarrow> u64 option" where
  "ob_best_bid b = om_last_key (ob_bids b)"

definition ob_best_ask :: "order_book \<Rightarrow> u64 option" where
  "ob_best_ask b = om_first_key (ob_asks b)"

definition ob_spread :: "order_book \<Rightarrow> u64 option" where
  "ob_spread b = (case (ob_best_bid b, ob_best_ask b) of
       (Some bid, Some ask) \<Rightarrow> if bid < ask then Some (ask - bid) else None
     | _ \<Rightarrow> None)"

definition ob_bid_depth :: "order_book \<Rightarrow> u64" where
  "ob_bid_depth b = sum_list (map lv_total_qty (om_values (ob_bids b)))"

definition ob_ask_depth :: "order_book \<Rightarrow> u64" where
  "ob_ask_depth b = sum_list (map lv_total_qty (om_values (ob_asks b)))"

text \<open>
  The canonical L2 hash. XXH3 is the third-party crate \<open>xxhash-rust\<close>: the two entry points the code
  calls, \<open>xxh3_64\<close> and \<open>xxh3_64_with_seed\<close>, are parameters \<open>xxh\<close> and \<open>xxs\<close>. Levels are XOR-folded,
  the separator replaces the accumulator.
\<close>

definition l2_tag :: bytes where
  "l2_tag = [0x46, 0x4C, 0x4F, 0x57, 0x4C, 0x41, 0x42, 0x2D, 0x4C, 0x32, 0x2D, 0x76, 0x31]"

definition l2_fold :: "(bytes \<Rightarrow> u64 \<Rightarrow> u64) \<Rightarrow> (u64 \<times> u64) list \<Rightarrow> u64 \<Rightarrow> u64" where
  "l2_fold xxs pqs h = fold (\<lambda>(p, q) h. h XOR xxs (to_le 8 p @ to_le 8 q) h) pqs h"

definition ob_canonical_l2_hash :: "(bytes \<Rightarrow> u64) \<Rightarrow> (bytes \<Rightarrow> u64 \<Rightarrow> u64) \<Rightarrow> order_book \<Rightarrow> u64" where
  "ob_canonical_l2_hash xxh xxs b =
     (let h0 = xxh l2_tag;
          h1 = l2_fold xxs (map (\<lambda>(p, l). (p, lv_total_qty l)) (rev (om_entries (ob_bids b)))) h0;
          h2 = xxs [0x7C] h1
      in l2_fold xxs (map (\<lambda>(p, l). (p, lv_total_qty l)) (om_entries (ob_asks b))) h2)"

section \<open>The hash map of resting orders is an order index\<close>

interpretation hmap: order_index "om_empty :: (u64, 'v) omap" om_insert
    "\<lambda>k v m. if om_lookup m k = None then m else om_insert k v m" om_remove om_lookup
    "\<lambda>_. True" "\<lambda>_. 0"
  by unfold_locales (auto simp: om_lookup_insert om_lookup_remove)

section \<open>Frame rules\<close>

lemma ob_set_levels_simps [simp, book_simps]:
  "ob_instrument_id (ob_set_levels sd ls b) = ob_instrument_id b"
  "ob_orders (ob_set_levels sd ls b) = ob_orders b"
  "ob_levels sd' (ob_set_levels sd ls b) = (if sd = sd' then ls else ob_levels sd' b)"
  "ob_levels sd (b\<lparr>ob_orders := os\<rparr>) = ob_levels sd b"
  by (cases sd; cases sd'; simp)+

lemma order_book_eqI:
  "ob_instrument_id b = ob_instrument_id c \<Longrightarrow> (\<And>sd. ob_levels sd b = ob_levels sd c) \<Longrightarrow>
   ob_orders b = ob_orders c \<Longrightarrow> b = c"
  by (metis ob_levels.simps order_book.equality old.unit.exhaust)

lemma ob_set_levels_commute:
  "ob_set_levels sd ls (b\<lparr>ob_orders := os\<rparr>) = (ob_set_levels sd ls b)\<lparr>ob_orders := os\<rparr>"
  by (cases sd) simp_all

lemma lookup_grow_other:
  "p \<noteq> price \<Longrightarrow> om_lookup (ob_grow_level price q ls) p = om_lookup ls p"
  by (simp add: ob_grow_level_def om_lookup_insert Let_def)

lemma lookup_shrink_other:
  "p \<noteq> price \<Longrightarrow> om_lookup (ob_shrink_level price q r ls) p = om_lookup ls p"
  by (simp add: ob_shrink_level_def om_lookup_insert om_lookup_remove Let_def split: option.split)

section \<open>Level changes\<close>

text \<open>What an add and a deduction do to one level, as functions of the level alone.\<close>

definition grown :: "u64 \<Rightarrow> u64 \<Rightarrow> level option \<Rightarrow> level" where
  "grown price qty lo = (case lo of
      Some l \<Rightarrow> l\<lparr>lv_total_qty := lv_total_qty l + qty, lv_order_count := lv_order_count l + 1\<rparr>
    | None \<Rightarrow> \<lparr>lv_price = price, lv_total_qty = qty, lv_order_count = 1\<rparr>)"

definition shrunk :: "u64 \<Rightarrow> bool \<Rightarrow> level \<Rightarrow> level option" where
  "shrunk q release l =
     (let l1 = l\<lparr>lv_total_qty := sat_sub (lv_total_qty l) q\<rparr> in
      if release then
        let l2 = l1\<lparr>lv_order_count := sat_sub (lv_order_count l1) 1\<rparr> in
        if lv_order_count l2 = 0 then None else Some l2
      else Some l1)"

lemma shrunk_price: "shrunk q r l = Some l' \<Longrightarrow> lv_price l' = lv_price l"
  by (auto simp: shrunk_def Let_def split: if_splits)

lemma ob_grow_level_lookup:
  "om_lookup (ob_grow_level p q ls) = (om_lookup ls)(p \<mapsto> grown p q (om_lookup ls p))"
  by (auto simp: ob_grow_level_def Let_def om_lookup_insert grown_def fun_eq_iff split: option.split)

lemma ob_shrink_level_lookup:
  "om_lookup (ob_shrink_level p q r ls) = (om_lookup ls)(p := Option.bind (om_lookup ls p) (shrunk q r))"
  by (auto simp: ob_shrink_level_def Let_def om_lookup_insert om_lookup_remove shrunk_def fun_eq_iff
      split: option.split)

end
