(* ===== verification/FL_HotBook.thy ===== *)
theory FL_HotBook
  imports FL_Slab FL_OrderBook
begin

text \<open>
  The fixed-depth order book of \<open>core/src/hot_book.rs\<close>: two arrays of \<open>MAX_LEVELS\<close> price levels, of
  which a counted prefix is live, best price first, and the order slab. The const generic
  \<open>MAX_LEVELS\<close> is the parameter \<open>N\<close>. An array is a list of fixed length, a \<open>memmove\<close> is \<open>mem_copy\<close>,
  and \<open>partition_point\<close> is the length of the prefix on which the predicate holds. Prefetch hints have
  no effect on the state and are left out.
\<close>

type_synonym grid = "level list \<times> u32"

record hot_book =
  hb_instrument_id :: u32
  hb_bid_count :: u32
  hb_ask_count :: u32
  hb_bids :: "level list"
  hb_asks :: "level list"
  hb_orders :: order_slab

definition level_default :: level where
  "level_default = \<lparr>lv_price = 0, lv_total_qty = 0, lv_order_count = 0\<rparr>"

definition hb_new :: "nat \<Rightarrow> u32 \<Rightarrow> hot_book" where
  "hb_new N iid = \<lparr>hb_instrument_id = iid, hb_bid_count = 0, hb_ask_count = 0,
     hb_bids = replicate N level_default, hb_asks = replicate N level_default,
     hb_orders = slab_new\<rparr>"

definition hb_grid :: "bool \<Rightarrow> hot_book \<Rightarrow> grid" where
  "hb_grid is_bid b =
     (if is_bid then (hb_bids b, hb_bid_count b) else (hb_asks b, hb_ask_count b))"

definition hb_set_grid :: "bool \<Rightarrow> grid \<Rightarrow> hot_book \<Rightarrow> hot_book" where
  "hb_set_grid is_bid g b =
     (if is_bid then b\<lparr>hb_bids := fst g, hb_bid_count := snd g\<rparr>
      else b\<lparr>hb_asks := fst g, hb_ask_count := snd g\<rparr>)"

section \<open>Arrays of levels\<close>

definition mem_copy :: "nat \<Rightarrow> nat \<Rightarrow> nat \<Rightarrow> 'a list \<Rightarrow> 'a list" where
  "mem_copy src dst n xs = take dst xs @ take n (drop src xs) @ drop (dst + n) xs"

definition before :: "bool \<Rightarrow> u64 \<Rightarrow> u64 \<Rightarrow> bool" where
  "before is_bid p q = (if is_bid then p > q else p < q)"

definition partition_point :: "('a \<Rightarrow> bool) \<Rightarrow> 'a list \<Rightarrow> nat" where
  "partition_point P xs = length (takeWhile P xs)"

definition find_level :: "level list \<Rightarrow> nat \<Rightarrow> u64 \<Rightarrow> bool \<Rightarrow> nat option" where
  "find_level levels cnt price is_bid =
     (let pos = partition_point (\<lambda>l. before is_bid (lv_price l) price) (take cnt levels)
      in if pos < cnt \<and> lv_price (levels ! pos) = price then Some pos else None)"

definition remove_level :: "grid \<Rightarrow> nat \<Rightarrow> grid" where
  "remove_level g i =
     (let cnt = unat (snd g);
          levels = (if i < cnt - 1 then mem_copy (i + 1) i (cnt - i - 1) (fst g) else fst g)
      in (levels[cnt - 1 := level_default], of_nat (cnt - 1)))"

definition grid_add :: "nat \<Rightarrow> bool \<Rightarrow> u64 \<Rightarrow> u64 \<Rightarrow> grid \<Rightarrow> grid \<times> bool" where
  "grid_add N is_bid price qty g =
     (let levels = fst g;
          cnt = unat (snd g);
          pos = partition_point (\<lambda>l. before is_bid (lv_price l) price) (take cnt levels)
      in if pos < cnt \<and> lv_price (levels ! pos) = price then
           let l = levels ! pos in
           ((levels[pos := l\<lparr>lv_total_qty := lv_total_qty l + qty,
                             lv_order_count := lv_order_count l + 1\<rparr>], snd g), True)
         else if N \<le> cnt then (g, False)
         else
           let levels' = (if pos < cnt then mem_copy pos (pos + 1) (cnt - pos) levels else levels)
           in ((levels'[pos := \<lparr>lv_price = price, lv_total_qty = qty, lv_order_count = 1\<rparr>],
                of_nat (cnt + 1)), True))"

text \<open>
  The deduction \<open>cancel_order\<close>, \<open>trade\<close> and \<open>trade_full_fill\<close> share: find the level, saturate the
  quantity down, and drop the order count (and the level at zero) when the order is released.
\<close>

definition grid_shrink :: "bool \<Rightarrow> u64 \<Rightarrow> u64 \<Rightarrow> bool \<Rightarrow> grid \<Rightarrow> grid \<times> bool" where
  "grid_shrink is_bid price q release g =
     (case find_level (fst g) (unat (snd g)) price is_bid of
        None \<Rightarrow> (g, False)
      | Some i \<Rightarrow>
          let l1 = (fst g ! i)\<lparr>lv_total_qty := sat_sub (lv_total_qty (fst g ! i)) q\<rparr> in
          if release then
            let l2 = l1\<lparr>lv_order_count := sat_sub (lv_order_count l1) 1\<rparr>;
                g2 = ((fst g)[i := l2], snd g)
            in (if lv_order_count l2 = 0 then remove_level g2 i else g2, True)
          else (((fst g)[i := l1], snd g), True))"

section \<open>Mutations\<close>

definition hb_add_order :: "nat \<Rightarrow> hot_book \<Rightarrow> event \<Rightarrow> hot_book \<times> bool" where
  "hb_add_order N b e =
     (let is_bid = (ev_side e = 0);
          r = grid_add N is_bid (ev_price e) (ev_qty e) (hb_grid is_bid b);
          b1 = hb_set_grid is_bid (fst r) b
      in if snd r \<and> ev_order_id e \<noteq> 0 then
           (b1\<lparr>hb_orders := slab_insert (ev_order_id e)
                 \<lparr>mt_price = ev_price e, mt_qty = ev_qty e, mt_side = ev_side e\<rparr> (hb_orders b1)\<rparr>, True)
         else (b1, snd r))"

definition hb_cancel_order :: "hot_book \<Rightarrow> event \<Rightarrow> hot_book \<times> bool" where
  "hb_cancel_order b e =
     (let resolved =
            (if ev_order_id e \<noteq> 0 then
               (case slab_get (hb_orders b) (ev_order_id e) of
                  None \<Rightarrow> None
                | Some meta \<Rightarrow>
                    if ev_qty e = 0 \<or> mt_qty meta \<le> ev_qty e then
                      Some (mt_price meta, mt_qty meta, mt_side meta = 0, True,
                            fst (slab_remove (ev_order_id e) (hb_orders b)))
                    else
                      Some (mt_price meta, ev_qty e, mt_side meta = 0, False,
                            slab_update (ev_order_id e) (meta\<lparr>mt_qty := mt_qty meta - ev_qty e\<rparr>)
                              (hb_orders b)))
             else Some (ev_price e, ev_qty e, ev_side e = 0, True, hb_orders b))
      in case resolved of
           None \<Rightarrow> (b, False)
         | Some (price, qty, is_bid, release_slot, orders') \<Rightarrow>
             let b1 = b\<lparr>hb_orders := orders'\<rparr>;
                 r = grid_shrink is_bid price qty release_slot (hb_grid is_bid b1)
             in (hb_set_grid is_bid (fst r) b1, snd r))"

definition hb_trade_full_fill :: "hot_book \<Rightarrow> u64 \<Rightarrow> u64 \<Rightarrow> u64 \<Rightarrow> bool \<Rightarrow> hot_book \<times> bool" where
  "hb_trade_full_fill b order_id price fill is_bid =
     (let b1 = b\<lparr>hb_orders := fst (slab_remove order_id (hb_orders b))\<rparr>;
          r = grid_shrink is_bid price fill True (hb_grid is_bid b1)
      in (hb_set_grid is_bid (fst r) b1, snd r))"

definition hb_trade_anon :: "hot_book \<Rightarrow> u64 \<Rightarrow> u64 \<Rightarrow> bool \<Rightarrow> hot_book \<times> bool" where
  "hb_trade_anon b price qty is_bid =
     (let g = hb_grid is_bid b in
      case find_level (fst g) (unat (snd g)) price is_bid of
        None \<Rightarrow> (b, False)
      | Some i \<Rightarrow>
          let l1 = (fst g ! i)\<lparr>lv_total_qty := sat_sub (lv_total_qty (fst g ! i)) qty\<rparr> in
          if lv_total_qty l1 = 0 then
            let l2 = l1\<lparr>lv_order_count := sat_sub (lv_order_count l1) 1\<rparr>;
                g2 = ((fst g)[i := l2], snd g)
            in (hb_set_grid is_bid (if lv_order_count l2 = 0 then remove_level g2 i else g2) b, True)
          else (hb_set_grid is_bid ((fst g)[i := l1], snd g) b, True))"

definition hb_trade :: "hot_book \<Rightarrow> event \<Rightarrow> hot_book \<times> bool" where
  "hb_trade b e =
     (if ev_order_id e = 0 then hb_trade_anon b (ev_price e) (ev_qty e) (ev_side e = 0)
      else case slab_get (hb_orders b) (ev_order_id e) of
        None \<Rightarrow> (b, False)
      | Some meta \<Rightarrow>
          let fill = min (ev_qty e) (mt_qty meta);
              new_qty = mt_qty meta - fill;
              price = mt_price meta;
              is_bid = (mt_side meta = 0)
          in if new_qty \<noteq> 0 then
               let b1 = b\<lparr>hb_orders := slab_update (ev_order_id e) (meta\<lparr>mt_qty := new_qty\<rparr>) (hb_orders b)\<rparr>;
                   r = grid_shrink is_bid price fill False (hb_grid is_bid b1)
               in (hb_set_grid is_bid (fst r) b1, snd r)
             else hb_trade_full_fill b (ev_order_id e) price fill is_bid)"

definition hb_apply :: "nat \<Rightarrow> hot_book \<Rightarrow> event \<Rightarrow> hot_book \<times> bool" where
  "hb_apply N b e =
     (case event_type_from_u8 (ev_event_type e) of
        None \<Rightarrow> (b, False)
      | Some OrderAdd \<Rightarrow> hb_add_order N b e
      | Some OrderCancel \<Rightarrow> hb_cancel_order b e
      | Some OrderModify \<Rightarrow> hb_add_order N (fst (hb_cancel_order b e)) e
      | Some Trade \<Rightarrow> hb_trade b e
      | Some BookSnapshot \<Rightarrow> (b, False))"

section \<open>Lane-separated batch apply\<close>

definition lane_pass :: "(event \<Rightarrow> bool) \<Rightarrow> (hot_book \<Rightarrow> event \<Rightarrow> hot_book \<times> bool) \<Rightarrow>
    event list \<Rightarrow> hot_book \<Rightarrow> hot_book \<times> nat" where
  "lane_pass sel op events b =
     fold (\<lambda>e (b, changes). if sel e then (let r = op b e in (fst r, if snd r then Suc changes else changes))
                            else (b, changes)) events (b, 0)"

definition apply_lane_adds :: "nat \<Rightarrow> hot_book \<Rightarrow> event list \<Rightarrow> hot_book \<times> nat" where
  "apply_lane_adds N b events =
     lane_pass (\<lambda>e. ev_event_type e = event_type_code OrderAdd \<or>
                    ev_event_type e = event_type_code OrderModify) (hb_add_order N) events b"

definition apply_lane_trades :: "hot_book \<Rightarrow> event list \<Rightarrow> hot_book \<times> nat" where
  "apply_lane_trades b events =
     lane_pass (\<lambda>e. ev_event_type e = event_type_code Trade) hb_trade events b"

definition apply_lane_cancels :: "hot_book \<Rightarrow> event list \<Rightarrow> hot_book \<times> nat" where
  "apply_lane_cancels b events =
     lane_pass (\<lambda>e. ev_event_type e = event_type_code OrderCancel) hb_cancel_order events b"

definition apply_lanes :: "nat \<Rightarrow> hot_book \<Rightarrow> event list \<Rightarrow> hot_book \<times> nat" where
  "apply_lanes N b events =
     (let (b1, n1) = apply_lane_adds N b events;
          (b2, n2) = apply_lane_trades b1 events;
          (b3, n3) = apply_lane_cancels b2 events
      in (b3, n1 + n2 + n3))"

section \<open>Accessors\<close>

definition hb_best_bid :: "hot_book \<Rightarrow> u64 option" where
  "hb_best_bid b = (if 0 < hb_bid_count b then Some (lv_price (hb_bids b ! 0)) else None)"

definition hb_best_ask :: "hot_book \<Rightarrow> u64 option" where
  "hb_best_ask b = (if 0 < hb_ask_count b then Some (lv_price (hb_asks b ! 0)) else None)"

definition hb_best_bid_size :: "hot_book \<Rightarrow> u64" where
  "hb_best_bid_size b = (if 0 < hb_bid_count b then lv_total_qty (hb_bids b ! 0) else 0)"

definition hb_best_ask_size :: "hot_book \<Rightarrow> u64" where
  "hb_best_ask_size b = (if 0 < hb_ask_count b then lv_total_qty (hb_asks b ! 0) else 0)"

definition hb_spread :: "hot_book \<Rightarrow> u64 option" where
  "hb_spread b = (case (hb_best_bid b, hb_best_ask b) of
       (Some bid, Some ask) \<Rightarrow> if bid < ask then Some (ask - bid) else None
     | _ \<Rightarrow> None)"

definition hb_order_meta :: "hot_book \<Rightarrow> u64 \<Rightarrow> order_meta option" where
  "hb_order_meta b oid = slab_get (hb_orders b) oid"

text \<open>The four-lane depth sum: \<open>n / 4\<close> rounds over four accumulators, then the tail match.\<close>

definition depth_chunk :: "level list \<Rightarrow> nat \<Rightarrow> u64 \<times> u64 \<times> u64 \<times> u64 \<Rightarrow> u64 \<times> u64 \<times> u64 \<times> u64" where
  "depth_chunk levels c = (\<lambda>(d0, d1, d2, d3).
     let base = c * 4 in
     (d0 + lv_total_qty (levels ! base), d1 + lv_total_qty (levels ! (base + 1)),
      d2 + lv_total_qty (levels ! (base + 2)), d3 + lv_total_qty (levels ! (base + 3))))"

definition depth_tail :: "level list \<Rightarrow> nat \<Rightarrow> nat \<Rightarrow> u64 \<times> u64 \<times> u64 \<times> u64 \<Rightarrow> u64 \<times> u64 \<times> u64 \<times> u64" where
  "depth_tail levels tail remainder = (\<lambda>(d0, d1, d2, d3).
     if remainder = 3 then
       (d0 + lv_total_qty (levels ! tail), d1 + lv_total_qty (levels ! (tail + 1)),
        d2 + lv_total_qty (levels ! (tail + 2)), d3)
     else if remainder = 2 then
       (d0 + lv_total_qty (levels ! tail), d1 + lv_total_qty (levels ! (tail + 1)), d2, d3)
     else if remainder = 1 then (d0 + lv_total_qty (levels ! tail), d1, d2, d3)
     else (d0, d1, d2, d3))"

definition depth_sum :: "level list \<Rightarrow> nat \<Rightarrow> nat \<Rightarrow> u64" where
  "depth_sum levels count n =
     (let n = min n count;
          chunks = n div 4;
          acc = fold (depth_chunk levels) [0..<chunks] (0, 0, 0, 0);
          (d0, d1, d2, d3) = depth_tail levels (chunks * 4) (n mod 4) acc
      in d0 + d1 + d2 + d3)"

definition hb_bid_depth :: "hot_book \<Rightarrow> nat \<Rightarrow> u64" where
  "hb_bid_depth b n = depth_sum (hb_bids b) (unat (hb_bid_count b)) n"

definition hb_ask_depth :: "hot_book \<Rightarrow> nat \<Rightarrow> u64" where
  "hb_ask_depth b n = depth_sum (hb_asks b) (unat (hb_ask_count b)) n"

definition hb_total_bid_depth :: "hot_book \<Rightarrow> u64" where
  "hb_total_bid_depth b = hb_bid_depth b (unat (hb_bid_count b))"

definition hb_total_ask_depth :: "hot_book \<Rightarrow> u64" where
  "hb_total_ask_depth b = hb_ask_depth b (unat (hb_ask_count b))"

definition hb_bid_levels :: "hot_book \<Rightarrow> level list" where
  "hb_bid_levels b = take (unat (hb_bid_count b)) (hb_bids b)"

definition hb_ask_levels :: "hot_book \<Rightarrow> level list" where
  "hb_ask_levels b = take (unat (hb_ask_count b)) (hb_asks b)"

definition hb_canonical_l2_hash :: "(bytes \<Rightarrow> u64) \<Rightarrow> (bytes \<Rightarrow> u64 \<Rightarrow> u64) \<Rightarrow> hot_book \<Rightarrow> u64" where
  "hb_canonical_l2_hash xxh xxs b =
     (let h0 = xxh l2_tag;
          h1 = l2_fold xxs (map (\<lambda>l. (lv_price l, lv_total_qty l)) (hb_bid_levels b)) h0;
          h2 = xxs [0x7C] h1
      in l2_fold xxs (map (\<lambda>l. (lv_price l, lv_total_qty l)) (hb_ask_levels b)) h2)"

end
