(* ===== verification/FL_HotGrid.thy ===== *)
theory FL_HotGrid
  imports FL_HotBook
begin

text \<open>
  Correctness of the level arrays of the hot book. A grid is seen through its live prefix; the
  invariant says that the array has its full size, that the live prefix is strictly ordered best
  price first, and that every dead cell holds the default level. Binary search, insertion by
  \<open>memmove\<close> and removal by \<open>memmove\<close> then act on the grid as look-up, update and deletion act on a
  finite map from prices to levels.
\<close>

definition live :: "grid \<Rightarrow> level list" where
  "live g = take (unat (snd g)) (fst g)"

definition glook :: "grid \<Rightarrow> u64 \<Rightarrow> level option" where
  "glook g = map_of (map (\<lambda>l. (lv_price l, l)) (live g))"

definition grid_inv :: "nat \<Rightarrow> bool \<Rightarrow> grid \<Rightarrow> bool" where
  "grid_inv N is_bid g \<longleftrightarrow>
     length (fst g) = N \<and> unat (snd g) \<le> N \<and> N < 2 ^ 32 \<and>
     sorted_wrt (before is_bid) (map lv_price (live g)) \<and>
     drop (unat (snd g)) (fst g) = replicate (N - unat (snd g)) level_default"

section \<open>The price order\<close>

lemma before_irrefl [simp]: "\<not> before d p p"
  by (simp add: before_def)

lemma before_trans: "before d p q \<Longrightarrow> before d q r \<Longrightarrow> before d p r"
  by (auto simp: before_def split: if_splits)

lemma before_total: "p \<noteq> q \<Longrightarrow> \<not> before d p q \<Longrightarrow> before d q p"
  by (auto simp: before_def split: if_splits)

lemma before_sorted_distinct: "sorted_wrt (before d) ps \<Longrightarrow> distinct ps"
  by (induction ps) auto

text \<open>Where binary search splits a strictly ordered list.\<close>

lemma partition_point_split:
  assumes "sorted_wrt (before d) (map lv_price ls)"
  obtains as bs where "ls = as @ bs"
    and "length as = partition_point (\<lambda>l. before d (lv_price l) price) ls"
    and "\<forall>l \<in> set as. before d (lv_price l) price"
    and "(\<exists>l bs'. bs = l # bs' \<and> lv_price l = price \<and> (\<forall>l' \<in> set bs'. before d price (lv_price l'))) \<or>
         (\<forall>l \<in> set bs. before d price (lv_price l))"
proof -
  let ?P = "\<lambda>l. before d (lv_price l) price"
  define as where "as = takeWhile ?P ls"
  define bs where "bs = dropWhile ?P ls"
  have ls: "ls = as @ bs" by (simp add: as_def bs_def)
  have sorted: "sorted_wrt (before d) (map lv_price bs)"
    using assms ls by (simp add: sorted_wrt_append)
  have tail: "(\<exists>l bs'. bs = l # bs' \<and> lv_price l = price \<and> (\<forall>l' \<in> set bs'. before d price (lv_price l'))) \<or>
      (\<forall>l \<in> set bs. before d price (lv_price l))"
  proof (cases bs)
    case (Cons l bs')
    have "dropWhile ?P ls \<noteq> []"
      using Cons by (simp add: bs_def)
    from hd_dropWhile [OF this] have "\<not> ?P l"
      using Cons by (simp add: bs_def)
    with sorted Cons show ?thesis
      by (cases "lv_price l = price") (auto intro: before_trans dest: before_total)
  qed simp
  show thesis
    by (rule that [OF ls _ _ tail])
       (auto simp: as_def partition_point_def dest: set_takeWhileD)
qed

section \<open>Moving memory\<close>

lemma mem_copy_open:
  assumes "length as = pos" "length bs = n"
  shows "(mem_copy pos (pos + 1) n (as @ bs @ x # ts))[pos := new] = as @ new # bs @ ts"
proof -
  obtain y where y: "take (pos + 1) (as @ bs @ x # ts) = as @ [y]"
    using assms by (cases bs) auto
  have "mem_copy pos (pos + 1) n (as @ bs @ x # ts) = (as @ [y]) @ bs @ ts"
    unfolding mem_copy_def y using assms by simp
  then show ?thesis
    using assms by (simp add: list_update_append)
qed

lemma mem_copy_close:
  assumes "length as = i" "length bs = n"
  shows "(mem_copy (i + 1) i n (as @ l # bs @ ts))[i + n := dflt] = as @ bs @ dflt # ts"
proof -
  have "\<exists>y. drop n (l # bs) = [y]"
    using assms by (cases bs rule: rev_cases) (auto simp: drop_Cons')
  then obtain y where "drop n (l # bs) = [y]" ..
  then have "drop (i + n) (as @ l # bs @ ts) = y # ts"
    using assms by (simp add: append_Cons [symmetric] del: append_Cons)
  with assms show ?thesis
    by (simp add: mem_copy_def list_update_append)
qed

lemma mem_copy_none: "mem_copy i j 0 xs = xs"
  by (simp add: mem_copy_def)

section \<open>The grid as a map from prices to levels\<close>

lemma glook_append:
  "live g = as @ bs \<Longrightarrow> glook g p =
     (case map_of (map (\<lambda>l. (lv_price l, l)) bs) p of
        None \<Rightarrow> map_of (map (\<lambda>l. (lv_price l, l)) as) p | Some l \<Rightarrow>
          (case map_of (map (\<lambda>l. (lv_price l, l)) as) p of None \<Rightarrow> Some l | Some l' \<Rightarrow> Some l'))"
  by (simp add: glook_def map_add_def split: option.split)

lemma map_of_price_None:
  "(\<forall>l \<in> set ls. lv_price l \<noteq> p) \<Longrightarrow> map_of (map (\<lambda>l. (lv_price l, l)) ls) p = None"
  by (induction ls) auto

lemma map_of_price_mid:
  "(\<forall>l' \<in> set as. lv_price l' \<noteq> lv_price l) \<Longrightarrow>
   map_of (map (\<lambda>l. (lv_price l, l)) (as @ l # bs)) =
     (map_of (map (\<lambda>l. (lv_price l, l)) (as @ bs)))(lv_price l \<mapsto> l)"
  by (induction as) (auto simp: fun_eq_iff)

lemma grid_parts:
  assumes "grid_inv N d g"
  obtains ts where "fst g = live g @ ts" and "ts = replicate (N - unat (snd g)) level_default"
    and "length (live g) = unat (snd g)"
  using assms unfolding grid_inv_def live_def
  by (metis append_take_drop_id length_take min.absorb2)

lemma grid_invI:
  assumes "fst g = ls @ replicate k level_default" "length ls + k = N" "unat (snd g) = length ls"
    "N < 2 ^ 32" "sorted_wrt (before d) (map lv_price ls)"
  shows "grid_inv N d g" and "live g = ls"
  using assms by (auto simp: grid_inv_def live_def)

lemma glook_Some_price: "glook g p = Some l \<Longrightarrow> lv_price l = p"
  by (auto simp: glook_def dest: map_of_SomeD)

text \<open>The two cases of a search: the price is live at \<open>length as\<close>, or absent there.\<close>

lemma grid_search:
  assumes inv: "grid_inv N d g"
  obtains (found) as l bs ts where
      "fst g = (as @ l # bs) @ ts" "live g = as @ l # bs" "lv_price l = price"
      "partition_point (\<lambda>l. before d (lv_price l) price) (live g) = length as"
      "unat (snd g) = length (as @ l # bs)" "ts = replicate (N - unat (snd g)) level_default"
      "\<forall>l' \<in> set as. before d (lv_price l') price" "\<forall>l' \<in> set bs. before d price (lv_price l')"
      "glook g price = Some l"
  | (absent) as bs ts where
      "fst g = (as @ bs) @ ts" "live g = as @ bs"
      "partition_point (\<lambda>l. before d (lv_price l) price) (live g) = length as"
      "unat (snd g) = length (as @ bs)" "ts = replicate (N - unat (snd g)) level_default"
      "\<forall>l' \<in> set as. before d (lv_price l') price" "\<forall>l' \<in> set bs. before d price (lv_price l')"
      "glook g price = None"
proof -
  obtain ts where ts: "fst g = live g @ ts" "ts = replicate (N - unat (snd g)) level_default"
      and len: "length (live g) = unat (snd g)"
    using inv by (rule grid_parts)
  have "sorted_wrt (before d) (map lv_price (live g))"
    using inv by (simp add: grid_inv_def)
  then obtain as bs where ab: "live g = as @ bs"
      "length as = partition_point (\<lambda>l. before d (lv_price l) price) (live g)"
      "\<forall>l \<in> set as. before d (lv_price l) price"
      "(\<exists>l bs'. bs = l # bs' \<and> lv_price l = price \<and> (\<forall>l' \<in> set bs'. before d price (lv_price l'))) \<or>
       (\<forall>l \<in> set bs. before d price (lv_price l))"
    by (rule partition_point_split)
  have na: "\<forall>l \<in> set as. lv_price l \<noteq> price"
    using ab(3) by auto
  from ab(4) show thesis
  proof (elim disjE exE conjE)
    fix l bs'
    assume b: "bs = l # bs'" "lv_price l = price" "\<forall>l' \<in> set bs'. before d price (lv_price l')"
    then have "glook g price = Some l"
      using ab(1) map_of_price_None [OF na] by (simp add: glook_append)
    then show thesis
      using found [of as l bs' ts] b ab ts len by simp
  next
    assume b: "\<forall>l \<in> set bs. before d price (lv_price l)"
    then have "\<forall>l \<in> set bs. lv_price l \<noteq> price" by auto
    then have "glook g price = None"
      using ab(1) map_of_price_None [OF na] map_of_price_None [of bs price]
      by (simp add: glook_append)
    then show thesis
      using absent [of as bs ts] b ab ts len by simp
  qed
qed

lemma find_level_found:
  assumes "fst g = (as @ l # bs) @ ts" "live g = as @ l # bs" "lv_price l = price"
    "partition_point (\<lambda>l. before d (lv_price l) price) (live g) = length as"
    "unat (snd g) = length (as @ l # bs)"
  shows "find_level (fst g) (unat (snd g)) price d = Some (length as)"
  using assms by (simp add: find_level_def live_def [symmetric] Let_def nth_append)

lemma find_level_absent:
  assumes "fst g = (as @ bs) @ ts" "live g = as @ bs"
    "partition_point (\<lambda>l. before d (lv_price l) price) (live g) = length as"
    "unat (snd g) = length (as @ bs)" "\<forall>l' \<in> set bs. before d price (lv_price l')"
  shows "find_level (fst g) (unat (snd g)) price d = None"
    and "\<not> (length as < unat (snd g) \<and> lv_price (fst g ! length as) = price)"
proof -
  have "lv_price (fst g ! length as) \<noteq> price" if "length as < unat (snd g)"
    using that assms by (cases bs) (auto simp: nth_append)
  then show "find_level (fst g) (unat (snd g)) price d = None"
    and "\<not> (length as < unat (snd g) \<and> lv_price (fst g ! length as) = price)"
    using assms by (auto simp: find_level_def live_def [symmetric] Let_def)
qed

text \<open>The level look-up of the code is look-up in the map.\<close>

lemma find_level_correct:
  assumes "grid_inv N d g"
  shows "(case find_level (fst g) (unat (snd g)) price d of
            None \<Rightarrow> glook g price = None
          | Some i \<Rightarrow> i < unat (snd g) \<and> glook g price = Some (fst g ! i))"
  using assms
proof (cases rule: grid_search [of N d g price])
  case (found as l bs ts)
  then show ?thesis using find_level_found [of g as l bs ts price d] by (simp add: nth_append)
next
  case (absent as bs ts)
  then show ?thesis using find_level_absent [of g as bs ts d price] by simp
qed

section \<open>Adding to a level\<close>

lemma grid_put:
  assumes "\<forall>l' \<in> set as. before d (lv_price l') (lv_price new)"
    "\<forall>l' \<in> set bs. before d (lv_price new) (lv_price l')"
    "sorted_wrt (before d) (map lv_price (as @ bs))"
    "length as + Suc (length bs) + k = N" "N < 2 ^ 32" "unat c = length as + Suc (length bs)"
  shows "grid_inv N d ((as @ new # bs) @ replicate k level_default, c)" (is "grid_inv _ _ ?g")
    and "glook ((as @ new # bs) @ replicate k level_default, c) =
           (map_of (map (\<lambda>l. (lv_price l, l)) (as @ bs)))(lv_price new \<mapsto> new)"
proof -
  have "sorted_wrt (before d) (map lv_price (as @ new # bs))"
    using assms by (auto simp: sorted_wrt_append)
  then have *: "grid_inv N d ?g" "live ?g = as @ new # bs"
    using assms grid_invI [of ?g "as @ new # bs" k N d] by auto
  then show "grid_inv N d ?g" by simp
  have "\<forall>l' \<in> set as. lv_price l' \<noteq> lv_price new"
    using assms(1) by auto
  from map_of_price_mid [OF this, of bs] * show "glook ?g =
      (map_of (map (\<lambda>l. (lv_price l, l)) (as @ bs)))(lv_price new \<mapsto> new)"
    by (simp add: glook_def)
qed

lemma glook_replace:
  assumes "live g = as @ l # bs" "\<forall>l' \<in> set as. lv_price l' \<noteq> lv_price l" "lv_price new = lv_price l"
  shows "(map_of (map (\<lambda>l. (lv_price l, l)) (as @ bs)))(lv_price new \<mapsto> new) = (glook g)(lv_price l \<mapsto> new)"
  using map_of_price_mid [OF assms(2), of bs] assms by (simp add: glook_def)

lemma sorted_drop_mid:
  "sorted_wrt R (map lv_price (as @ l # bs)) \<Longrightarrow> sorted_wrt R (map lv_price (as @ bs))"
  by (auto simp: sorted_wrt_append)

lemma grid_set_found:
  assumes inv: "grid_inv N d g"
    and f: "fst g = (as @ l # bs) @ ts" "live g = as @ l # bs" "lv_price l = price"
      "unat (snd g) = length (as @ l # bs)" "ts = replicate (N - unat (snd g)) level_default"
      "\<forall>l' \<in> set as. before d (lv_price l') price" "\<forall>l' \<in> set bs. before d price (lv_price l')"
    and n: "lv_price new = price"
  shows "grid_inv N d ((fst g)[length as := new], snd g)"
    and "glook ((fst g)[length as := new], snd g) = (glook g)(price \<mapsto> new)"
proof -
  have s: "sorted_wrt (before d) (map lv_price (as @ bs))"
    using inv f(2) sorted_drop_mid [of "before d" as l bs] by (auto simp: grid_inv_def)
  have k: "length as + Suc (length bs) + (N - unat (snd g)) = N" "N < 2 ^ 32"
    using inv f(4) by (auto simp: grid_inv_def)
  have eq: "((fst g)[length as := new], snd g) =
      ((as @ new # bs) @ replicate (N - unat (snd g)) level_default, snd g)"
    using f by (simp add: list_update_append)
  have na: "\<forall>l' \<in> set as. lv_price l' \<noteq> lv_price l"
    using f(3,6) by auto
  from grid_put [of as d new bs, OF _ _ s k] f n
  show "grid_inv N d ((fst g)[length as := new], snd g)"
    by (simp add: eq)
  from grid_put(2) [of as d new bs, OF _ _ s k] f n glook_replace [OF f(2) na, of new]
  show "glook ((fst g)[length as := new], snd g) = (glook g)(price \<mapsto> new)"
    by (simp add: eq)
qed

lemma grid_add_correct:
  assumes inv: "grid_inv N d g"
  shows "grid_inv N d (fst (grid_add N d price qty g))"
    and "snd (grid_add N d price qty g) \<longleftrightarrow> glook g price \<noteq> None \<or> unat (snd g) < N"
    and "glook (fst (grid_add N d price qty g)) =
           (if snd (grid_add N d price qty g)
            then (glook g)(price \<mapsto> grown price qty (glook g price)) else glook g)"
proof -
  let ?r = "grid_add N d price qty g"
  from inv have "grid_inv N d (fst ?r) \<and> (snd ?r \<longleftrightarrow> glook g price \<noteq> None \<or> unat (snd g) < N) \<and>
    glook (fst ?r) = (if snd ?r then (glook g)(price \<mapsto> grown price qty (glook g price)) else glook g)"
  proof (cases rule: grid_search [of N d g price])
    case (found as l bs ts)
    let ?new = "l\<lparr>lv_total_qty := lv_total_qty l + qty, lv_order_count := lv_order_count l + 1\<rparr>"
    have "?r = (((fst g)[length as := ?new], snd g), True)"
      using found by (simp add: grid_add_def live_def [symmetric] Let_def nth_append)
    then show ?thesis
      using grid_set_found [OF inv found(1,2,3,5,6,7,8), of ?new] found
      by (simp add: grown_def)
  next
    case (absent as bs ts)
    let ?new = "\<lparr>lv_price = price, lv_total_qty = qty, lv_order_count = 1\<rparr>"
    note miss = find_level_absent(2) [OF absent(1-4,7)]
    show ?thesis
    proof (cases "N \<le> unat (snd g)")
      case True
      then have "?r = (g, False)"
        using absent miss by (simp add: grid_add_def live_def [symmetric] Let_def)
      with True inv absent(8) show ?thesis by simp
    next
      case False
      then obtain k where k: "N - unat (snd g) = Suc k"
        by (cases "N - unat (snd g)") auto
      have N: "N < 2 ^ 32" and s: "sorted_wrt (before d) (map lv_price (as @ bs))"
        using inv absent(2) by (auto simp: grid_inv_def)
      have c: "unat (of_nat (unat (snd g) + 1) :: u32) = length as + Suc (length bs)"
        using absent(4) False N by (subst unat_of_nat_small) auto
      have ts: "ts = level_default # replicate k level_default"
        using absent(5) k by simp
      have r: "?r = (((as @ ?new # bs) @ replicate k level_default, of_nat (unat (snd g) + 1)), True)"
      proof (cases "bs = []")
        case True
        have "(fst g)[length as := ?new] = as @ ?new # replicate k level_default"
          using absent(1) True ts by (simp add: list_update_append)
        with absent(1-5) miss False True show ?thesis
          by (simp add: grid_add_def live_def [symmetric] Let_def)
      next
        case bs: False
        have "(mem_copy (length as) (length as + 1) (length bs) (fst g))[length as := ?new] =
            as @ ?new # bs @ replicate k level_default"
          using mem_copy_open [of as "length as" bs "length bs" level_default "replicate k level_default" ?new]
            absent(1) ts by simp
        with bs absent miss False ts show ?thesis
          by (simp add: grid_add_def live_def [symmetric] Let_def)
      qed
      have len: "length as + Suc (length bs) + k = N"
        using absent(4) k by simp
      have ab: "\<forall>l' \<in> set as. before d (lv_price l') (lv_price ?new)"
        "\<forall>l' \<in> set bs. before d (lv_price ?new) (lv_price l')"
        using absent(6,7) by simp_all
      note put = grid_put [OF ab s len N c]
      have gl: "map_of (map (\<lambda>l. (lv_price l, l)) (as @ bs)) = glook g"
        using absent(2) by (simp add: glook_def)
      have "grown price qty (glook g price) = ?new"
        using absent(8) by (simp add: grown_def)
      moreover have "glook (fst ?r) = (glook g)(price \<mapsto> ?new)"
        using put(2) unfolding r gl by simp
      moreover have "grid_inv N d (fst ?r)"
        using put(1) unfolding r by simp
      ultimately show ?thesis
        using False r by simp
    qed
  qed
  then show "grid_inv N d (fst ?r)" and "snd ?r \<longleftrightarrow> glook g price \<noteq> None \<or> unat (snd g) < N"
    and "glook (fst ?r) = (if snd ?r then (glook g)(price \<mapsto> grown price qty (glook g price)) else glook g)"
    by blast+
qed

section \<open>Deducting from a level\<close>

lemma remove_level_correct:
  assumes inv: "grid_inv N d g"
    and f: "fst g = (as @ l # bs) @ ts" "live g = as @ l # bs" "lv_price l = price"
      "unat (snd g) = length (as @ l # bs)" "ts = replicate (N - unat (snd g)) level_default"
      "\<forall>l' \<in> set as. before d (lv_price l') price" "\<forall>l' \<in> set bs. before d price (lv_price l')"
  shows "grid_inv N d (remove_level ((fst g)[length as := new], snd g) (length as))"
    and "glook (remove_level ((fst g)[length as := new], snd g) (length as)) = (glook g)(price := None)"
proof -
  have N: "N < 2 ^ 32" "unat (snd g) \<le> N" and s: "sorted_wrt (before d) (map lv_price (as @ bs))"
    using inv f(2) sorted_drop_mid [of "before d" as l bs] by (auto simp: grid_inv_def)
  let ?c = "of_nat (length as + length bs) :: u32"
  have u: "unat ?c = length as + length bs"
    using N f(4) by (intro unat_of_nat_small) simp
  have lu: "(fst g)[length as := new] = as @ new # bs @ ts"
    using f(1) by (simp add: list_update_append)
  have eq: "remove_level ((fst g)[length as := new], snd g) (length as) =
      ((as @ bs) @ level_default # ts, ?c)"
  proof (cases "bs = []")
    case True
    then show ?thesis
      using f(4) lu by (simp add: remove_level_def Let_def list_update_append)
  next
    case False
    have i: "unat (snd g) - length as - 1 = length bs" "length as < unat (snd g) - 1"
      "unat (snd g) - 1 = length as + length bs"
      using f(4) False by auto
    show ?thesis
      using i lu mem_copy_close [of as "length as" bs "length bs" new ts level_default]
      by (simp add: remove_level_def Let_def)
  qed
  have ts: "level_default # ts = replicate (Suc (N - unat (snd g))) level_default"
    using f(5) by simp
  have g: "grid_inv N d ((as @ bs) @ level_default # ts, ?c)"
    "live ((as @ bs) @ level_default # ts, ?c) = as @ bs"
    using N f(4) u s ts
      grid_invI [of "((as @ bs) @ level_default # ts, ?c)" "as @ bs" "Suc (N - unat (snd g))" N d]
    by auto
  then show "grid_inv N d (remove_level ((fst g)[length as := new], snd g) (length as))"
    by (simp add: eq)
  have na: "\<forall>l' \<in> set as. lv_price l' \<noteq> lv_price l" "\<forall>l' \<in> set (as @ bs). lv_price l' \<noteq> price"
    using f(3,6,7) by auto
  have "glook g = (map_of (map (\<lambda>l. (lv_price l, l)) (as @ bs)))(price \<mapsto> l)"
    using map_of_price_mid [OF na(1), of bs] f(2,3) by (simp add: glook_def)
  moreover have "map_of (map (\<lambda>l. (lv_price l, l)) (as @ bs)) price = None"
    using na(2) by (rule map_of_price_None)
  ultimately show "glook (remove_level ((fst g)[length as := new], snd g) (length as)) = (glook g)(price := None)"
    using g(2) by (simp add: eq glook_def fun_upd_idem)
qed

lemma grid_shrink_correct:
  assumes inv: "grid_inv N d g"
  shows "grid_inv N d (fst (grid_shrink d price q release g))"
    and "snd (grid_shrink d price q release g) \<longleftrightarrow> glook g price \<noteq> None"
    and "glook (fst (grid_shrink d price q release g)) =
           (glook g)(price := Option.bind (glook g price) (shrunk q release))"
proof -
  let ?r = "grid_shrink d price q release g"
  from inv have "grid_inv N d (fst ?r) \<and> (snd ?r \<longleftrightarrow> glook g price \<noteq> None) \<and>
    glook (fst ?r) = (glook g)(price := Option.bind (glook g price) (shrunk q release))"
  proof (cases rule: grid_search [of N d g price])
    case (found as l bs ts)
    have i: "find_level (fst g) (unat (snd g)) price d = Some (length as)" "fst g ! length as = l"
      using find_level_found [OF found(1-5)] found(1) by (auto simp: nth_append)
    note set = grid_set_found [OF inv found(1,2,3,5,6,7,8)]
    note del = remove_level_correct [OF inv found(1,2,3,5,6,7,8)]
    from i found(3,9) show ?thesis
      by (simp add: grid_shrink_def shrunk_def Let_def set del)
  next
    case (absent as bs ts)
    then show ?thesis
      using find_level_absent(1) [OF absent(1-4,7)] inv by (simp add: grid_shrink_def fun_upd_idem)
  qed
  then show "grid_inv N d (fst ?r)" and "snd ?r \<longleftrightarrow> glook g price \<noteq> None"
    and "glook (fst ?r) = (glook g)(price := Option.bind (glook g price) (shrunk q release))"
    by blast+
qed

section \<open>The depth sum\<close>

lemma depth_chunk_step:
  "depth_chunk levels c (d0, d1, d2, d3) =
     (d0 + lv_total_qty (levels ! (c * 4)), d1 + lv_total_qty (levels ! (c * 4 + 1)),
      d2 + lv_total_qty (levels ! (c * 4 + 2)), d3 + lv_total_qty (levels ! (c * 4 + 3)))"
  by (simp add: depth_chunk_def Let_def)

lemma depth_chunk_fold:
  "chunks * 4 \<le> length levels \<Longrightarrow>
   (case fold (depth_chunk levels) [0..<chunks] (0, 0, 0, 0) of (d0, d1, d2, d3) \<Rightarrow> d0 + d1 + d2 + d3) =
   sum_list (map lv_total_qty (take (chunks * 4) levels))"
proof (induction chunks)
  case (Suc c)
  obtain d0 d1 d2 d3 where d: "fold (depth_chunk levels) [0..<c] (0, 0, 0, 0) = (d0, d1, d2, d3)"
    by (metis prod_cases4)
  have "take (Suc c * 4) levels = take (c * 4) levels @
      [levels ! (c * 4), levels ! (c * 4 + 1), levels ! (c * 4 + 2), levels ! (c * 4 + 3)]"
    using Suc.prems by (simp add: take_Suc_conv_app_nth numeral_eq_Suc)
  with Suc d show ?case
    by (simp add: depth_chunk_step algebra_simps)
qed simp

lemma depth_sum_correct:
  assumes "n \<le> count" "count \<le> length levels"
  shows "depth_sum levels count n = sum_list (map lv_total_qty (take n levels))"
proof -
  let ?c = "n div 4"
  obtain d0 d1 d2 d3 where d: "fold (depth_chunk levels) [0..<?c] (0, 0, 0, 0) = (d0, d1, d2, d3)"
    by (metis prod_cases4)
  have sum: "d0 + d1 + d2 + d3 = sum_list (map lv_total_qty (take (?c * 4) levels))"
    using depth_chunk_fold [of ?c levels] d assms by simp
  have m: "n mod 4 \<le> length levels - ?c * 4" "?c * 4 + n mod 4 \<le> length levels"
    using assms div_mult_mod_eq [of n 4] by linarith+
  then have "take (n mod 4) (drop (?c * 4) levels) = map (\<lambda>i. levels ! (?c * 4 + i)) [0..<n mod 4]"
    by (intro nth_equalityI) (auto simp: min_absorb2)
  moreover have "take n levels = take (?c * 4) levels @ take (n mod 4) (drop (?c * 4) levels)"
    using take_add [of "?c * 4" "n mod 4" levels] by simp
  ultimately have rhs: "sum_list (map lv_total_qty (take n levels)) =
      d0 + d1 + d2 + d3 + sum_list (map (\<lambda>i. lv_total_qty (levels ! (?c * 4 + i))) [0..<n mod 4])"
    by (simp add: sum comp_def)
  have lhs: "depth_sum levels count n =
      (case depth_tail levels (?c * 4) (n mod 4) (d0, d1, d2, d3) of (a, b, c, d) \<Rightarrow> a + b + c + d)"
    using assms(1) by (simp add: depth_sum_def Let_def d min_absorb1)
  have "n mod 4 = 0 \<or> n mod 4 = 1 \<or> n mod 4 = 2 \<or> n mod 4 = 3" by presburger
  moreover have "[0..<2] = [0, 1 :: nat]" "[0..<3] = [0, 1, 2 :: nat]"
    by (simp_all add: upt_rec)
  ultimately show ?thesis
    unfolding lhs rhs by (elim disjE) (simp_all add: depth_tail_def)
qed

end
