(* ===== verification/FL_BookRefine.thy ===== *)
theory FL_BookRefine
  imports FL_HotGrid
begin

text \<open>
  The hot book refines the reference book. \<open>hb_inv\<close> is the invariant of the hot book; \<open>book_rel\<close>
  relates a hot book and a reference book that show the same levels and the same resting orders.
  Every event that \<open>conformant\<close> admits (a non-zero order id; for an add or a modify a side of 0 or 1
  and room for the level) is simulated, so two engines fed the same conformant stream keep equal
  canonical L2 hashes.
\<close>

definition hb_inv :: "nat \<Rightarrow> hot_book \<Rightarrow> bool" where
  "hb_inv N b \<longleftrightarrow> grid_inv N True (hb_grid True b) \<and> grid_inv N False (hb_grid False b) \<and>
     slab_inv (hb_orders b)"

definition order_of_meta :: "u64 \<Rightarrow> order_meta \<Rightarrow> order" where
  "order_of_meta oid m = \<lparr>or_order_id = oid, or_price = mt_price m, or_qty = mt_qty m,
     or_side = (if mt_side m = 0 then Bid else Ask)\<rparr>"

definition book_rel :: "nat \<Rightarrow> hot_book \<Rightarrow> order_book \<Rightarrow> bool" where
  "book_rel N h b \<longleftrightarrow> hb_inv N h \<and> hb_instrument_id h = ob_instrument_id b \<and>
     (\<forall>sd. glook (hb_grid (sd = Bid) h) = om_lookup (ob_levels sd b)) \<and>
     (\<forall>oid. map_option (order_of_meta oid) (slab_get (hb_orders h) oid) = om_lookup (ob_orders b) oid)"

section \<open>Grid access\<close>

lemma hb_grid_set [simp, book_simps]:
  "hb_grid d (hb_set_grid d' g h) = (if d = d' then g else hb_grid d h)"
  "hb_grid d (h\<lparr>hb_orders := os\<rparr>) = hb_grid d h"
  "hb_orders (hb_set_grid d g h) = hb_orders h"
  "hb_instrument_id (hb_set_grid d g h) = hb_instrument_id h"
  by (auto simp: hb_grid_def hb_set_grid_def)

lemma hb_inv_grid: "hb_inv N h \<Longrightarrow> grid_inv N d (hb_grid d h)"
  by (cases d) (simp_all add: hb_inv_def)

lemma hb_inv_set:
  "hb_inv N h \<Longrightarrow> grid_inv N d g \<Longrightarrow> slab_inv s \<Longrightarrow> hb_inv N ((hb_set_grid d g h)\<lparr>hb_orders := s\<rparr>)"
  "hb_inv N h \<Longrightarrow> grid_inv N d g \<Longrightarrow> slab_inv s \<Longrightarrow> hb_inv N (hb_set_grid d g (h\<lparr>hb_orders := s\<rparr>))"
  "hb_inv N h \<Longrightarrow> grid_inv N d g \<Longrightarrow> hb_inv N (hb_set_grid d g h)"
  by (cases d; auto simp: hb_inv_def)+

lemma hb_inv_new: "N < 2 ^ 32 \<Longrightarrow> hb_inv N (hb_new N iid)"
  by (auto simp: hb_inv_def hb_new_def grid_inv_def hb_grid_def live_def)

section \<open>Every operation keeps the invariant\<close>

text \<open>\<open>slab_room\<close>: the slab has fewer than \<open>2^32\<close> slots, so that a new one has a 32-bit address.\<close>

definition slab_room :: "hot_book \<Rightarrow> bool" where
  "slab_room h \<longleftrightarrow> length (sl_data (hb_orders h)) < 2 ^ 32"

lemma hb_add_order_inv:
  "hb_inv N h \<Longrightarrow> slab_room h \<Longrightarrow> hb_inv N (fst (hb_add_order N h e))"
  using grid_add_correct(1) [OF hb_inv_grid, of N h]
  by (auto simp: hb_add_order_def Let_def slab_room_def hb_inv_def slab.invar_insert
      intro!: hb_inv_set)

lemma slab_remove_inv: "slab_inv s \<Longrightarrow> slab_inv (fst (slab_remove oid s))"
  by (rule slab.invar_remove)

lemma hb_cancel_order_inv: "hb_inv N h \<Longrightarrow> hb_inv N (fst (hb_cancel_order h e))"
  using grid_shrink_correct(1) [OF hb_inv_grid, of N h]
  by (auto simp: hb_cancel_order_def Let_def hb_inv_def slab_remove_inv slab.invar_update
      intro!: hb_inv_set(2) split: option.split)

lemma hb_trade_anon_shrink:
  "hb_trade_anon h price qty d =
     (let g = hb_grid d h;
          full = (case find_level (fst g) (unat (snd g)) price d of
                    None \<Rightarrow> False | Some i \<Rightarrow> sat_sub (lv_total_qty (fst g ! i)) qty = 0);
          r = grid_shrink d price qty full g
      in (hb_set_grid d (fst r) h, snd r))"
proof -
  have "hb_set_grid d (hb_grid d h) h = h"
    by (simp add: hb_grid_def hb_set_grid_def)
  then show ?thesis
    by (simp add: hb_trade_anon_def grid_shrink_def Let_def split: option.split)
qed

lemma hb_trade_inv: "hb_inv N h \<Longrightarrow> hb_inv N (fst (hb_trade h e))"
  using grid_shrink_correct(1) [OF hb_inv_grid, of N h]
  by (auto simp: hb_trade_def hb_trade_anon_shrink hb_trade_full_fill_def Let_def hb_inv_def
      slab_remove_inv slab.invar_update intro!: hb_inv_set split: option.split)

lemma slab_data_length_remove: "length (sl_data (fst (slab_remove oid s))) = length (sl_data s)"
  by (rule slab.used_remove)

lemma slab_data_length_update: "length (sl_data (slab_update oid m s)) = length (sl_data s)"
  by (rule slab.used_update)

lemma hb_cancel_order_slots: "length (sl_data (hb_orders (fst (hb_cancel_order h e)))) = length (sl_data (hb_orders h))"
  by (simp add: hb_cancel_order_def Let_def slab_data_length_remove slab_data_length_update split: option.split)

lemma hb_trade_slots: "length (sl_data (hb_orders (fst (hb_trade h e)))) = length (sl_data (hb_orders h))"
  by (simp add: hb_trade_def hb_trade_anon_shrink hb_trade_full_fill_def Let_def
      slab_data_length_remove slab_data_length_update split: option.split)

lemma hb_add_order_slots:
  "length (sl_data (hb_orders (fst (hb_add_order N h e)))) \<le> Suc (length (sl_data (hb_orders h)))"
  using slab.used_insert [of _ _ "hb_orders h"] by (simp add: hb_add_order_def Let_def)

lemma hb_apply_slots:
  "length (sl_data (hb_orders (fst (hb_apply N h e)))) \<le> Suc (length (sl_data (hb_orders h)))"
  using hb_add_order_slots [of N h e] hb_add_order_slots [of N "fst (hb_cancel_order h e)" e]
  by (auto simp: hb_apply_def hb_cancel_order_slots hb_trade_slots split: option.split event_type.split)

lemma hb_apply_inv: "hb_inv N h \<Longrightarrow> slab_room h \<Longrightarrow> hb_inv N (fst (hb_apply N h e))"
  by (auto simp: hb_apply_def hb_add_order_inv hb_cancel_order_inv hb_trade_inv slab_room_def
      hb_cancel_order_slots split: option.split event_type.split)

section \<open>The simulation\<close>

lemma hb_set_grid_commute:
  "hb_set_grid d g (h\<lparr>hb_orders := s\<rparr>) = (hb_set_grid d g h)\<lparr>hb_orders := s\<rparr>"
  by (simp add: hb_set_grid_def)

lemma side_eq_iff: "((sd :: side) = Bid) = (sd' = Bid) \<longleftrightarrow> sd = sd'"
  by (cases sd; cases sd') simp_all

lemma book_rel_update:
  assumes "book_rel N h b" "grid_inv N (sd = Bid) g" "glook g = om_lookup ls" "slab_inv s"
    "\<And>oid. map_option (order_of_meta oid) (slab_get s oid) = om_lookup os oid"
  shows "book_rel N ((hb_set_grid (sd = Bid) g h)\<lparr>hb_orders := s\<rparr>) ((ob_set_levels sd ls b)\<lparr>ob_orders := os\<rparr>)"
  using assms hb_inv_set(1) [of N h "sd = Bid" g s]
  by (auto simp: book_rel_def side_eq_iff)

lemma book_relD:
  assumes "book_rel N h b"
  shows "hb_inv N h" and "glook (hb_grid (sd = Bid) h) = om_lookup (ob_levels sd b)"
    and "map_option (order_of_meta oid) (slab_get (hb_orders h) oid) = om_lookup (ob_orders b) oid"
    and "slab_inv (hb_orders h)"
  using assms by (auto simp: book_rel_def hb_inv_def)

text \<open>A shrink of the level grid matches the shrink of the level map.\<close>

lemma shrink_rel:
  assumes "book_rel N h b" "slab_inv s"
    "\<And>oid. map_option (order_of_meta oid) (slab_get s oid) = om_lookup os oid"
  shows "book_rel N ((hb_set_grid (sd = Bid) (fst (grid_shrink (sd = Bid) p q r (hb_grid (sd = Bid) h))) h)\<lparr>hb_orders := s\<rparr>)
           ((ob_set_levels sd (ob_shrink_level p q r (ob_levels sd b)) b)\<lparr>ob_orders := os\<rparr>)"
    and "snd (grid_shrink (sd = Bid) p q r (hb_grid (sd = Bid) h)) \<longleftrightarrow> om_lookup (ob_levels sd b) p \<noteq> None"
proof -
  note g = grid_shrink_correct [OF hb_inv_grid [OF book_relD(1) [OF assms(1)]], of "sd = Bid" p q r]
  have gl: "glook (hb_grid (sd = Bid) h) = om_lookup (ob_levels sd b)"
    using assms(1) by (rule book_relD)
  show "book_rel N ((hb_set_grid (sd = Bid) (fst (grid_shrink (sd = Bid) p q r (hb_grid (sd = Bid) h))) h)\<lparr>hb_orders := s\<rparr>)
      ((ob_set_levels sd (ob_shrink_level p q r (ob_levels sd b)) b)\<lparr>ob_orders := os\<rparr>)"
    by (rule book_rel_update [OF assms(1) g(1) _ assms(2,3)])
       (simp add: g(3) gl ob_shrink_level_lookup)
  show "snd (grid_shrink (sd = Bid) p q r (hb_grid (sd = Bid) h)) \<longleftrightarrow> om_lookup (ob_levels sd b) p \<noteq> None"
    by (simp add: g(2) gl)
qed

lemma get_remove_rel:
  assumes "book_rel N h b"
  shows "map_option (order_of_meta k) (slab_get (fst (slab_remove oid (hb_orders h))) k) =
         om_lookup (om_remove oid (ob_orders b)) k"
  using book_relD(3) [OF assms, of k] slab.get_remove [OF book_relD(4) [OF assms], of oid]
  by (simp add: om_lookup_remove)

lemma get_update_rel:
  assumes "book_rel N h b" "slab_get (hb_orders h) oid = Some m"
  shows "map_option (order_of_meta k) (slab_get (slab_update oid (m\<lparr>mt_qty := q\<rparr>) (hb_orders h)) k) =
         om_lookup (om_insert oid ((order_of_meta oid m)\<lparr>or_qty := q\<rparr>) (ob_orders b)) k"
  using book_relD(3) [OF assms(1), of k]
    slab.get_update [OF book_relD(4) [OF assms(1)], of oid "m\<lparr>mt_qty := q\<rparr>"] assms(2)
  by (simp add: om_lookup_insert order_of_meta_def)

definition level_room :: "nat \<Rightarrow> hot_book \<Rightarrow> event \<Rightarrow> bool" where
  "level_room N h e =
     (let g = hb_grid (ev_side e = 0) h in
      find_level (fst g) (unat (snd g)) (ev_price e) (ev_side e = 0) \<noteq> None \<or> unat (snd g) < N)"

lemma level_room_iff:
  assumes "hb_inv N h"
  shows "level_room N h e \<longleftrightarrow>
    snd (grid_add N (ev_side e = 0) (ev_price e) (ev_qty e) (hb_grid (ev_side e = 0) h))"
  using find_level_correct [OF hb_inv_grid [OF assms, of "ev_side e = 0"], of "ev_price e"]
    grid_add_correct(2) [OF hb_inv_grid [OF assms, of "ev_side e = 0"], of "ev_price e" "ev_qty e"]
  by (auto simp: level_room_def Let_def split: option.splits)

lemma add_order_sim:
  assumes rel: "book_rel N h b" and ok: "ev_order_id e \<noteq> 0" "ev_side e = side_code sd"
    and room: "level_room N h e" "slab_room h"
  shows "book_rel N (fst (hb_add_order N h e)) (fst (ob_add_order b e))"
    and "snd (hb_add_order N h e)" and "snd (ob_add_order b e)"
proof -
  have d: "(ev_side e = 0) = (sd = Bid)" using ok(2) by simp
  let ?g = "grid_add N (sd = Bid) (ev_price e) (ev_qty e) (hb_grid (sd = Bid) h)"
  let ?m = "\<lparr>mt_price = ev_price e, mt_qty = ev_qty e, mt_side = ev_side e\<rparr>"
  have inv: "hb_inv N h" and si: "slab_inv (hb_orders h)" and sr: "length (sl_data (hb_orders h)) < 2 ^ 32"
    using rel room(2) by (auto simp: book_rel_def hb_inv_def slab_room_def)
  have added: "snd ?g"
    using room(1) level_room_iff [OF inv, of e] d by simp
  note g = grid_add_correct [OF hb_inv_grid [OF inv], of "sd = Bid" "ev_price e" "ev_qty e"]
  have om: "order_of_meta (ev_order_id e) ?m =
      \<lparr>or_order_id = ev_order_id e, or_price = ev_price e, or_qty = ev_qty e, or_side = sd\<rparr>"
    using d by (cases sd) (simp_all add: order_of_meta_def)
  have gl: "glook (hb_grid (sd = Bid) h) = om_lookup (ob_levels sd b)"
    using rel by (rule book_relD)
  have "book_rel N ((hb_set_grid (sd = Bid) (fst ?g) h)\<lparr>hb_orders := slab_insert (ev_order_id e) ?m (hb_orders h)\<rparr>)
      ((ob_set_levels sd (ob_grow_level (ev_price e) (ev_qty e) (ob_levels sd b)) b)\<lparr>ob_orders :=
        om_insert (ev_order_id e) (order_of_meta (ev_order_id e) ?m) (ob_orders b)\<rparr>)"
  proof (rule book_rel_update [OF rel g(1)])
    show "glook (fst ?g) = om_lookup (ob_grow_level (ev_price e) (ev_qty e) (ob_levels sd b))"
      using added by (simp add: g(3) gl ob_grow_level_lookup)
    show "slab_inv (slab_insert (ev_order_id e) ?m (hb_orders h))"
      using si sr by (rule slab.invar_insert)
    show "map_option (order_of_meta oid) (slab_get (slab_insert (ev_order_id e) ?m (hb_orders h)) oid) =
        om_lookup (om_insert (ev_order_id e) (order_of_meta (ev_order_id e) ?m) (ob_orders b)) oid" for oid
      using book_relD(3) [OF rel, of oid] by (simp add: slab.get_insert [OF si sr] om_lookup_insert)
  qed
  then show "book_rel N (fst (hb_add_order N h e)) (fst (ob_add_order b e))"
    using ok added om by (simp add: hb_add_order_def ob_add_order_def Let_def)
  show "snd (hb_add_order N h e)" "snd (ob_add_order b e)"
    using ok added by (simp_all add: hb_add_order_def ob_add_order_def Let_def)
qed

lemma lookup_order_rel:
  assumes "book_rel N h b"
  shows "om_lookup (ob_orders b) oid = None \<longleftrightarrow> slab_get (hb_orders h) oid = None"
    and "slab_get (hb_orders h) oid = Some m \<Longrightarrow> om_lookup (ob_orders b) oid = Some (order_of_meta oid m)"
  using book_relD(3) [OF assms, of oid, symmetric] by auto

lemma meta_side: "or_side (order_of_meta oid m) = Bid \<longleftrightarrow> mt_side m = 0"
  by (simp add: order_of_meta_def)

lemma order_of_meta_sel [simp]:
  "or_price (order_of_meta oid m) = mt_price m" "or_qty (order_of_meta oid m) = mt_qty m"
  by (simp_all add: order_of_meta_def)

lemma cancel_order_sim:
  assumes rel: "book_rel N h b" and oid: "ev_order_id e \<noteq> 0"
  shows "book_rel N (fst (hb_cancel_order h e)) (fst (ob_cancel_order b e))"
proof (cases "slab_get (hb_orders h) (ev_order_id e)")
  case None
  then show ?thesis
    using rel oid lookup_order_rel(1) [OF rel, of "ev_order_id e"]
    by (simp add: hb_cancel_order_def ob_cancel_order_def Let_def)
next
  case (Some m)
  note lk = lookup_order_rel(2) [OF rel Some]
  note si = book_relD(4) [OF rel]
  let ?sd = "or_side (order_of_meta (ev_order_id e) m)"
  note full = shrink_rel(1) [where sd = ?sd and p = "mt_price m" and q = "mt_qty m" and r = True,
      OF rel slab_remove_inv [OF si] get_remove_rel [OF rel, where oid = "ev_order_id e"]]
  note part = shrink_rel(1) [where sd = ?sd and p = "mt_price m" and q = "ev_qty e" and r = False,
      OF rel slab.invar_update [OF si] get_update_rel [OF rel Some, where q = "mt_qty m - ev_qty e"]]
  show ?thesis
    using Some lk oid full part
    by (simp add: hb_cancel_order_def ob_cancel_order_def Let_def hb_set_grid_commute
        ob_set_levels_commute meta_side)
qed

lemma hb_trade_known:
  assumes "slab_get (hb_orders h) (ev_order_id e) = Some m" "ev_order_id e \<noteq> 0"
  shows "hb_trade h e =
     (let fill = min (ev_qty e) (mt_qty m);
          d = (mt_side m = 0)
      in if sat_sub (mt_qty m) (ev_qty e) \<noteq> 0 then
           let r = grid_shrink d (mt_price m) fill False (hb_grid d h)
           in ((hb_set_grid d (fst r) h)\<lparr>hb_orders := slab_update (ev_order_id e)
                 (m\<lparr>mt_qty := sat_sub (mt_qty m) (ev_qty e)\<rparr>) (hb_orders h)\<rparr>, snd r)
         else hb_trade_full_fill h (ev_order_id e) (mt_price m) fill d)"
proof -
  have "mt_qty m - min (ev_qty e) (mt_qty m) = sat_sub (mt_qty m) (ev_qty e)"
    by (auto simp: sat_sub_def min_def)
  with assms show ?thesis
    by (simp only: hb_trade_def Let_def option.case if_False hb_grid_set hb_set_grid_commute)
qed

lemma execute_trade_sim:
  assumes rel: "book_rel N h b" and oid: "ev_order_id e \<noteq> 0"
  shows "book_rel N (fst (hb_trade h e)) (fst (ob_execute_trade b e))"
proof (cases "slab_get (hb_orders h) (ev_order_id e)")
  case None
  then show ?thesis
    using rel oid lookup_order_rel(1) [OF rel, of "ev_order_id e"]
    by (simp add: hb_trade_def ob_execute_trade_def Let_def)
next
  case (Some m)
  note lk = lookup_order_rel(2) [OF rel Some]
  note si = book_relD(4) [OF rel]
  let ?sd = "or_side (order_of_meta (ev_order_id e) m)"
  note full = shrink_rel(1) [where sd = ?sd and p = "mt_price m" and q = "min (ev_qty e) (mt_qty m)" and r = True,
      OF rel slab_remove_inv [OF si] get_remove_rel [OF rel, where oid = "ev_order_id e"]]
  note part = shrink_rel(1) [where sd = ?sd and p = "mt_price m" and q = "min (ev_qty e) (mt_qty m)" and r = False,
      OF rel slab.invar_update [OF si] get_update_rel [OF rel Some, where q = "sat_sub (mt_qty m) (ev_qty e)"]]
  show ?thesis
    using Some lk oid full part
    by (simp add: hb_trade_known hb_trade_full_fill_def ob_execute_trade_def Let_def
        hb_set_grid_commute ob_set_levels_commute meta_side)
qed

section \<open>Events and runs\<close>

definition conformant :: "nat \<Rightarrow> hot_book \<Rightarrow> event \<Rightarrow> bool" where
  "conformant N h e \<longleftrightarrow> ev_order_id e \<noteq> 0 \<and>
     (case event_type_from_u8 (ev_event_type e) of
        Some OrderAdd \<Rightarrow> side_from_u8 (ev_side e) \<noteq> None \<and> level_room N h e
      | Some OrderModify \<Rightarrow> side_from_u8 (ev_side e) \<noteq> None \<and> level_room N (fst (hb_cancel_order h e)) e
      | _ \<Rightarrow> True)"

lemma apply_sim:
  assumes "book_rel N h b" "conformant N h e" "slab_room h"
  shows "book_rel N (fst (hb_apply N h e)) (fst (ob_apply b e))"
proof -
  have room: "slab_room (fst (hb_cancel_order h e))"
    using assms(3) by (simp add: slab_room_def hb_cancel_order_slots)
  show ?thesis
    using assms room
    by (auto simp: hb_apply_def ob_apply_def ob_modify_order_def conformant_def side_from_u8_Some
        add_order_sim(1) cancel_order_sim execute_trade_sim split: option.splits event_type.splits)
qed

definition hb_run :: "nat \<Rightarrow> hot_book \<Rightarrow> event list \<Rightarrow> hot_book" where
  "hb_run N h es = foldl (\<lambda>h e. fst (hb_apply N h e)) h es"

definition ob_run :: "order_book \<Rightarrow> event list \<Rightarrow> order_book" where
  "ob_run b es = foldl (\<lambda>b e. fst (ob_apply b e)) b es"

fun conformant_run :: "nat \<Rightarrow> hot_book \<Rightarrow> event list \<Rightarrow> bool" where
  "conformant_run N h [] = True"
| "conformant_run N h (e # es) = (conformant N h e \<and> conformant_run N (fst (hb_apply N h e)) es)"

lemma run_inv:
  "hb_inv N h \<Longrightarrow> length (sl_data (hb_orders h)) + length es \<le> 2 ^ 32 \<Longrightarrow> hb_inv N (hb_run N h es)"
proof (induction es arbitrary: h)
  case (Cons e es)
  have "slab_room h"
    using Cons.prems by (simp add: slab_room_def)
  moreover have "length (sl_data (hb_orders (fst (hb_apply N h e)))) + length es \<le> 2 ^ 32"
    using hb_apply_slots [of N h e] Cons.prems(2) by simp
  ultimately show ?case
    using Cons.IH [of "fst (hb_apply N h e)"] Cons.prems(1) by (simp add: hb_run_def hb_apply_inv)
qed (simp add: hb_run_def)

lemma run_sim:
  "book_rel N h b \<Longrightarrow> conformant_run N h es \<Longrightarrow> length (sl_data (hb_orders h)) + length es \<le> 2 ^ 32 \<Longrightarrow>
   book_rel N (hb_run N h es) (ob_run b es)"
proof (induction es arbitrary: h b)
  case (Cons e es)
  have "slab_room h"
    using Cons.prems by (simp add: slab_room_def)
  moreover have "length (sl_data (hb_orders (fst (hb_apply N h e)))) + length es \<le> 2 ^ 32"
    using hb_apply_slots [of N h e] Cons.prems(3) by simp
  ultimately show ?case
    using Cons.IH [of "fst (hb_apply N h e)" "fst (ob_apply b e)"] Cons.prems apply_sim [of N h b e]
    by (simp add: hb_run_def ob_run_def)
qed (simp add: hb_run_def ob_run_def)

lemma new_rel: "N < 2 ^ 32 \<Longrightarrow> book_rel N (hb_new N iid) (ob_new iid)"
proof -
  assume N: "N < 2 ^ 32"
  have "glook (hb_grid (sd = Bid) (hb_new N iid)) = om_lookup (ob_levels sd (ob_new iid))" for sd
    by (cases sd) (auto simp: hb_new_def ob_new_def hb_grid_def glook_def live_def fun_eq_iff)
  with N show ?thesis
    by (simp add: book_rel_def hb_inv_new) (simp add: hb_new_def ob_new_def)
qed

section \<open>What the relation makes visible\<close>

definition best_first :: "side \<Rightarrow> 'a list \<Rightarrow> 'a list" where
  "best_first sd xs = (if sd = Bid then rev xs else xs)"

lemma before_eq: "before True = (\<lambda>p q. q < p)" "before False = (<)"
  by (simp_all add: before_def fun_eq_iff)

lemma live_entries:
  assumes "grid_inv N (sd = Bid) g" "glook g = om_lookup m"
  shows "map (\<lambda>l. (lv_price l, l)) (live g) = best_first sd (om_entries m)"
proof -
  let ?xs = "map (\<lambda>l. (lv_price l, l)) (live g)"
  have s: "sorted_wrt (before (sd = Bid)) (map fst ?xs)"
    using assms(1) by (simp add: grid_inv_def comp_def)
  then have d: "distinct (map fst ?xs)"
    by (rule before_sorted_distinct)
  have "al_sorted (best_first sd ?xs)"
    using s by (cases sd) (simp_all add: best_first_def before_eq rev_map [symmetric] sorted_wrt_rev)
  moreover have "map_of (best_first sd ?xs) = map_of (om_entries m)"
    using assms(2) map_of_rev [OF d] by (simp add: best_first_def glook_def om_lookup_def)
  ultimately have "best_first sd ?xs = om_entries m"
    using om_sorted by (intro al_eqI)
  then show ?thesis
    by (auto simp: best_first_def rev_swap split: if_splits)
qed

lemma rel_levels:
  assumes "book_rel N h b"
  shows "map (\<lambda>l. (lv_price l, l)) (hb_bid_levels h) = rev (om_entries (ob_bids b))"
    and "map (\<lambda>l. (lv_price l, l)) (hb_ask_levels h) = om_entries (ob_asks b)"
  using live_entries [OF hb_inv_grid [OF book_relD(1) [OF assms], of "Bid = Bid"] book_relD(2) [OF assms]]
    live_entries [OF hb_inv_grid [OF book_relD(1) [OF assms], of "Ask = Bid"] book_relD(2) [OF assms]]
  by (simp_all add: best_first_def live_def hb_grid_def hb_bid_levels_def hb_ask_levels_def)

lemma rel_hash:
  assumes "book_rel N h b"
  shows "hb_canonical_l2_hash xxh xxs h = ob_canonical_l2_hash xxh xxs b"
proof -
  let ?pq = "map (\<lambda>(p, l). (p, lv_total_qty l)) :: (u64 \<times> level) list \<Rightarrow> (u64 \<times> u64) list"
  have "map (\<lambda>l. (lv_price l, lv_total_qty l)) (hb_bid_levels h) = ?pq (rev (om_entries (ob_bids b)))"
    "map (\<lambda>l. (lv_price l, lv_total_qty l)) (hb_ask_levels h) = ?pq (om_entries (ob_asks b))"
    by (simp_all only: rel_levels [OF assms, symmetric] map_map) (simp_all add: comp_def)
  then show ?thesis
    by (simp add: hb_canonical_l2_hash_def ob_canonical_l2_hash_def)
qed

lemma live_nonempty: "0 < unat c \<Longrightarrow> unat c \<le> length ls \<Longrightarrow> hd (take (unat c) ls) = ls ! 0"
  by (cases ls) (auto simp: take_Cons')

lemma rel_best_bid:
  assumes "book_rel N h b"
  shows "hb_best_bid h = ob_best_bid b"
proof -
  have len: "unat (hb_bid_count h) \<le> length (hb_bids h)"
    using hb_inv_grid [OF book_relD(1) [OF assms], of True] by (simp add: grid_inv_def hb_grid_def)
  have m: "map lv_price (hb_bid_levels h) = rev (om_keys (ob_bids b))"
    using arg_cong [OF rel_levels(1) [OF assms], of "map fst"]
    by (simp add: om_keys_def rev_map comp_def)
  show ?thesis
  proof (cases "hb_bid_count h = 0")
    case True
    then have "om_keys (ob_bids b) = []"
      using m by (simp add: hb_bid_levels_def)
    with True show ?thesis
      by (simp add: hb_best_bid_def ob_best_bid_def om_last_key_def)
  next
    case False
    then have c: "0 < unat (hb_bid_count h)" by (simp add: unat_gt_0)
    then have ne: "hb_bid_levels h \<noteq> []"
      using len by (auto simp: hb_bid_levels_def)
    have "lv_price (hb_bids h ! 0) = hd (map lv_price (hb_bid_levels h))"
      using ne live_nonempty [OF c len] by (simp add: hd_map hb_bid_levels_def)
    also have "\<dots> = last (om_keys (ob_bids b))"
      unfolding m by (rule hd_rev)
    finally show ?thesis
      using False ne m by (auto simp: hb_best_bid_def ob_best_bid_def om_last_key_def word_gt_0)
  qed
qed

lemma rel_best_ask:
  assumes "book_rel N h b"
  shows "hb_best_ask h = ob_best_ask b"
proof -
  have len: "unat (hb_ask_count h) \<le> length (hb_asks h)"
    using hb_inv_grid [OF book_relD(1) [OF assms], of False] by (simp add: grid_inv_def hb_grid_def)
  have m: "map lv_price (hb_ask_levels h) = om_keys (ob_asks b)"
    using arg_cong [OF rel_levels(2) [OF assms], of "map fst"] by (simp add: om_keys_def comp_def)
  show ?thesis
  proof (cases "hb_ask_count h = 0")
    case True
    then have "om_keys (ob_asks b) = []"
      using m by (simp add: hb_ask_levels_def)
    with True show ?thesis
      by (simp add: hb_best_ask_def ob_best_ask_def om_first_key_def)
  next
    case False
    then have c: "0 < unat (hb_ask_count h)" by (simp add: unat_gt_0)
    then have ne: "hb_ask_levels h \<noteq> []"
      using len by (auto simp: hb_ask_levels_def)
    have "lv_price (hb_asks h ! 0) = hd (om_keys (ob_asks b))"
      using ne live_nonempty [OF c len] by (simp add: m [symmetric] hd_map hb_ask_levels_def)
    moreover have "om_keys (ob_asks b) \<noteq> []" using ne m by auto
    ultimately show ?thesis
      using False by (cases "om_keys (ob_asks b)")
        (auto simp: hb_best_ask_def ob_best_ask_def om_first_key_def word_gt_0)
  qed
qed

end
