(* ===== verification/FL_BookConsistent.thy ===== *)
theory FL_BookConsistent
  imports FL_OrderBook
begin

text \<open>
  The L2 view of the reference book is the aggregation of its L3 view: at every side and price the
  level holds exactly the total quantity and the number of the orders resting there, and there is no
  level without an order. The invariant is kept by every event that a well-formed feed sends
  (\<open>well_formed\<close>): adds of fresh ids that do not overflow a level, cancels and trades of any kind, and
  modifies that do not shrink the resting quantity.
\<close>

definition at_level :: "side \<Rightarrow> u64 \<Rightarrow> order \<Rightarrow> bool" where
  "at_level sd p ord \<longleftrightarrow> or_side ord = sd \<and> or_price ord = p"

definition rest_count :: "side \<Rightarrow> u64 \<Rightarrow> (u64, order) omap \<Rightarrow> nat" where
  "rest_count sd p = om_sum (\<lambda>ord. if at_level sd p ord then 1 else 0)"

definition rest_qty :: "side \<Rightarrow> u64 \<Rightarrow> (u64, order) omap \<Rightarrow> nat" where
  "rest_qty sd p = om_sum (\<lambda>ord. if at_level sd p ord then unat (or_qty ord) else 0)"

definition level_ok :: "u64 \<Rightarrow> nat \<Rightarrow> nat \<Rightarrow> level option \<Rightarrow> bool" where
  "level_ok p n q lo = (case lo of
      None \<Rightarrow> n = 0 \<and> q = 0
    | Some l \<Rightarrow> lv_price l = p \<and> 0 < n \<and> unat (lv_order_count l) = n \<and> unat (lv_total_qty l) = q)"

definition consistent :: "order_book \<Rightarrow> bool" where
  "consistent b \<longleftrightarrow> (\<forall>sd p. level_ok p (rest_count sd p (ob_orders b)) (rest_qty sd p (ob_orders b))
      (om_lookup (ob_levels sd b) p))"

definition fits :: "order_book \<Rightarrow> event \<Rightarrow> bool" where
  "fits b e \<longleftrightarrow> (\<exists>sd. side_from_u8 (ev_side e) = Some sd \<and>
      Suc (rest_count sd (ev_price e) (ob_orders b)) < 2 ^ 32 \<and>
      rest_qty sd (ev_price e) (ob_orders b) + unat (ev_qty e) < 2 ^ 64)"

definition well_formed :: "order_book \<Rightarrow> event \<Rightarrow> bool" where
  "well_formed b e \<longleftrightarrow>
     (case event_type_from_u8 (ev_event_type e) of
        Some OrderAdd \<Rightarrow> om_lookup (ob_orders b) (ev_order_id e) = None \<and> fits b e
      | Some OrderModify \<Rightarrow>
          (case om_lookup (ob_orders b) (ev_order_id e) of
             None \<Rightarrow> fits b e
           | Some ord \<Rightarrow> (ev_qty e = 0 \<or> or_qty ord \<le> ev_qty e) \<and> fits b e)
      | _ \<Rightarrow> True)"

section \<open>One level\<close>

lemma level_ok_grow:
  assumes "level_ok p n q lo" "Suc n < 2 ^ 32" "q + unat x < 2 ^ 64"
  shows "level_ok p (Suc n) (q + unat x) (Some (grown p x lo))"
proof -
  have "unat (c + 1) = Suc (unat c)" if "Suc (unat c) < 2 ^ 32" for c :: u32
    using that by (simp add: unat_word_ariths)
  moreover have "unat (t + x) = unat t + unat x" if "unat t + unat x < 2 ^ 64" for t :: u64
    using that by (simp add: unat_word_ariths)
  ultimately show ?thesis
    using assms by (auto simp: level_ok_def grown_def split: option.splits)
qed

lemma level_ok_shrink:
  assumes "level_ok p (n + (if r then 1 else 0)) (q + unat x) (Some l)" "r \<or> 0 < n" "n = 0 \<longrightarrow> q = 0"
  shows "level_ok p n q (shrunk x r l)"
  using assms by (auto simp: level_ok_def shrunk_def Let_def unat_sat_sub word_unat_eq_iff split: if_splits)

section \<open>Orders at a level\<close>

lemma rest_sums_insert:
  "rest_count sd p (om_insert k ord m) = (if at_level sd p ord then 1 else 0) + rest_count sd p (om_remove k m)"
  "rest_qty sd p (om_insert k ord m) = (if at_level sd p ord then unat (or_qty ord) else 0) + rest_qty sd p (om_remove k m)"
  by (simp_all add: rest_count_def rest_qty_def om_sum_insert)

lemma rest_sums_split:
  assumes "om_lookup m k = Some ord"
  shows "rest_count sd p m = (if at_level sd p ord then 1 else 0) + rest_count sd p (om_remove k m)"
    and "rest_qty sd p m = (if at_level sd p ord then unat (or_qty ord) else 0) + rest_qty sd p (om_remove k m)"
  by (simp_all add: rest_count_def rest_qty_def om_sum_split [OF assms])

lemma rest_qty_0: "rest_count sd p m = 0 \<Longrightarrow> rest_qty sd p m = 0"
  by (auto simp: rest_count_def rest_qty_def om_sum_alt split: if_splits)

lemma consistentD:
  "consistent b \<Longrightarrow> level_ok p (rest_count sd p (ob_orders b)) (rest_qty sd p (ob_orders b))
      (om_lookup (ob_levels sd b) p)"
  by (simp add: consistent_def)

lemma consistent_level_exists:
  assumes "consistent b" "om_lookup (ob_orders b) oid = Some ord"
  obtains l where "om_lookup (ob_levels (or_side ord) b) (or_price ord) = Some l"
  using consistentD [OF assms(1), of "or_price ord" "or_side ord"]
    rest_sums_split(1) [OF assms(2), of "or_side ord" "or_price ord"]
  by (cases "om_lookup (ob_levels (or_side ord) b) (or_price ord)")
     (auto simp: level_ok_def at_level_def)

text \<open>
  Deducting \<open>x\<close> from the order \<open>k\<close>, removing it when \<open>r\<close> holds, in both views at once.
\<close>

lemma consistent_deduct:
  assumes con: "consistent b" and lk: "om_lookup (ob_orders b) k = Some ord"
    and x: "x \<le> or_qty ord" and r: "r \<longrightarrow> x = or_qty ord"
  shows "consistent ((ob_set_levels (or_side ord) (ob_shrink_level (or_price ord) x r (ob_levels (or_side ord) b)) b)
     \<lparr>ob_orders := (if r then om_remove k (ob_orders b)
        else om_insert k (ord\<lparr>or_qty := or_qty ord - x\<rparr>) (ob_orders b))\<rparr>)"
  (is "consistent ?b'")
  unfolding consistent_def
proof (intro allI)
  fix sd p
  let ?m = "om_remove k (ob_orders b)"
  note ok = consistentD [OF con, of p sd]
  note sums = rest_sums_split [OF lk, of sd p]
  have sub: "unat (or_qty ord - x) + unat x = unat (or_qty ord)"
    using x by (simp add: unat_sub word_le_nat_alt)
  show "level_ok p (rest_count sd p (ob_orders ?b')) (rest_qty sd p (ob_orders ?b')) (om_lookup (ob_levels sd ?b') p)"
  proof (cases "at_level sd p ord")
    case False
    then have "\<not> (or_side ord = sd \<and> or_price ord = p)" "\<not> at_level sd p (ord\<lparr>or_qty := or_qty ord - x\<rparr>)"
      by (simp_all add: at_level_def)
    with ok sums show ?thesis
      using False by (auto simp: rest_sums_insert ob_shrink_level_lookup)
  next
    case True
    then have at: "or_side ord = sd" "or_price ord = p" "at_level sd p (ord\<lparr>or_qty := or_qty ord - x\<rparr>)"
      by (simp_all add: at_level_def)
    obtain l where l: "om_lookup (ob_levels sd b) p = Some l"
      using consistent_level_exists [OF con lk] at by auto
    have lk': "om_lookup (ob_levels sd ?b') p = shrunk x r l"
      using at l by (simp add: ob_shrink_level_lookup)
    show ?thesis
    proof (cases r)
      case True
      then have "level_ok p (rest_count sd p ?m) (rest_qty sd p ?m) (shrunk x r l)"
        using ok sums \<open>at_level sd p ord\<close> l r rest_qty_0 [of sd p ?m]
        by (intro level_ok_shrink) (simp_all add: add.commute)
      with True lk' show ?thesis by simp
    next
      case False
      have eq: "unat (or_qty ord - x) + rest_qty sd p ?m + unat x = unat (or_qty ord) + rest_qty sd p ?m"
        using sub by simp
      have "level_ok p (Suc (rest_count sd p ?m) + (if r then 1 else 0))
          (unat (or_qty ord - x) + rest_qty sd p ?m + unat x) (Some l)"
        unfolding eq using ok sums \<open>at_level sd p ord\<close> l False by simp
      then have "level_ok p (Suc (rest_count sd p ?m)) (unat (or_qty ord - x) + rest_qty sd p ?m) (shrunk x r l)"
        by (rule level_ok_shrink) simp_all
      with False lk' at(3) show ?thesis by (simp add: rest_sums_insert)
    qed
  qed
qed

lemma consistent_new: "consistent (ob_new iid)"
proof -
  have "om_lookup (ob_levels sd (ob_new iid)) p = None" for sd p
    by (cases sd) (simp_all add: ob_new_def)
  then show ?thesis
    by (simp add: consistent_def level_ok_def rest_count_def rest_qty_def) (simp add: ob_new_def)
qed

lemma consistent_add:
  assumes con: "consistent b" and fresh: "om_lookup (ob_orders b) (ev_order_id e) = None" and f: "fits b e"
  shows "consistent (fst (ob_add_order b e))"
proof -
  obtain sd where sd: "side_from_u8 (ev_side e) = Some sd"
      "Suc (rest_count sd (ev_price e) (ob_orders b)) < 2 ^ 32"
      "rest_qty sd (ev_price e) (ob_orders b) + unat (ev_qty e) < 2 ^ 64"
    using f by (auto simp: fits_def)
  note ok = consistentD [OF con]
  note grow = level_ok_grow [OF ok sd(2,3)]
  show ?thesis
    unfolding consistent_def
  proof (intro allI)
    fix sd' p
    show "level_ok p (rest_count sd' p (ob_orders (fst (ob_add_order b e))))
        (rest_qty sd' p (ob_orders (fst (ob_add_order b e)))) (om_lookup (ob_levels sd' (fst (ob_add_order b e))) p)"
      using ok [of p sd'] grow fresh
      by (cases "sd' = sd \<and> p = ev_price e")
         (auto simp: ob_add_order_def sd(1) Let_def rest_sums_insert om_remove_absent ob_grow_level_lookup
            at_level_def add.commute)
  qed
qed

lemma consistent_cancel:
  assumes con: "consistent b"
  shows "consistent (fst (ob_cancel_order b e))"
proof (cases "om_lookup (ob_orders b) (ev_order_id e)")
  case None
  with con show ?thesis by (simp add: ob_cancel_order_def)
next
  case (Some ord)
  show ?thesis
    using Some consistent_deduct [OF con Some, of "or_qty ord" True]
      consistent_deduct [OF con Some, of "ev_qty e" False]
    by (auto simp: ob_cancel_order_def Let_def ob_set_levels_commute)
qed

lemma consistent_trade:
  assumes con: "consistent b"
  shows "consistent (fst (ob_execute_trade b e))"
proof (cases "om_lookup (ob_orders b) (ev_order_id e)")
  case None
  with con show ?thesis by (simp add: ob_execute_trade_def)
next
  case (Some ord)
  have full: "sat_sub (or_qty ord) (ev_qty e) = 0 \<Longrightarrow> min (ev_qty e) (or_qty ord) = or_qty ord"
    by (auto simp: sat_sub_def min_def split: if_splits)
  have part: "sat_sub (or_qty ord) (ev_qty e) = or_qty ord - min (ev_qty e) (or_qty ord)"
    by (auto simp: sat_sub_def min_def)
  show ?thesis
    using Some consistent_deduct [OF con Some, of "min (ev_qty e) (or_qty ord)" "sat_sub (or_qty ord) (ev_qty e) = 0"]
      full part by (simp add: ob_execute_trade_def Let_def split: if_splits)
qed

text \<open>After a cancel that empties the order, the order id is free again and no level grew.\<close>

lemma cancel_full:
  assumes "om_lookup (ob_orders b) (ev_order_id e) = Some ord" "ev_qty e = 0 \<or> or_qty ord \<le> ev_qty e"
  shows "ob_orders (fst (ob_cancel_order b e)) = om_remove (ev_order_id e) (ob_orders b)"
  using assms by (simp add: ob_cancel_order_def Let_def)

lemma fits_cancel:
  assumes "om_lookup (ob_orders b) (ev_order_id e) = Some ord" "ev_qty e = 0 \<or> or_qty ord \<le> ev_qty e" "fits b e"
  shows "fits (fst (ob_cancel_order b e)) e"
proof -
  obtain sd where sd: "side_from_u8 (ev_side e) = Some sd"
      "Suc (rest_count sd (ev_price e) (ob_orders b)) < 2 ^ 32"
      "rest_qty sd (ev_price e) (ob_orders b) + unat (ev_qty e) < 2 ^ 64"
    using assms(3) by (auto simp: fits_def)
  then show ?thesis
    using rest_sums_split [OF assms(1), of sd "ev_price e"]
    by (auto simp: fits_def cancel_full [OF assms(1,2)])
qed

lemma consistent_apply:
  assumes con: "consistent b" and wf: "well_formed b e"
  shows "consistent (fst (ob_apply b e))"
proof (cases "event_type_from_u8 (ev_event_type e)")
  case None
  with con show ?thesis by (simp add: ob_apply_def)
next
  case (Some t)
  show ?thesis
  proof (cases t)
    case OrderModify
    show ?thesis
    proof (cases "om_lookup (ob_orders b) (ev_order_id e)")
      case None
      then have "fst (ob_cancel_order b e) = b" by (simp add: ob_cancel_order_def)
      with None Some OrderModify con wf show ?thesis
        by (simp add: ob_apply_def ob_modify_order_def well_formed_def consistent_add)
    next
      case lk: (Some ord)
      then have q: "ev_qty e = 0 \<or> or_qty ord \<le> ev_qty e" and f: "fits b e"
        using Some OrderModify wf by (auto simp: well_formed_def)
      have "consistent (fst (ob_add_order (fst (ob_cancel_order b e)) e))"
        using consistent_cancel [OF con] fits_cancel [OF lk q f]
        by (intro consistent_add) (simp_all add: cancel_full [OF lk q] om_lookup_remove)
      with Some OrderModify show ?thesis by (simp add: ob_apply_def ob_modify_order_def)
    qed
  qed (use Some con wf in \<open>simp_all add: ob_apply_def well_formed_def consistent_add consistent_cancel consistent_trade\<close>)
qed

end
