(* ===== verification/FL_BookBand.thy ===== *)
theory FL_BookBand
  imports FL_BookRefine FL_BookConsistent
begin

text \<open>
  Streams whose adds stay in a band of prices. The generators of the repository (the engine's synthetic
  source, the benchmark streams) place every bid and every ask inside a fixed set of prices. The locale
  \<open>price_band\<close> states what such a stream guarantees of both books: as long as the hot book has a level for
  every price of the band, the stream is conformant, so that the two books agree, and a band whose bids
  lie below its asks keeps the book uncrossed.
\<close>

text \<open>A banded event names an order and, if it places one, has its price in the band of its side.\<close>

definition banded :: "(side \<Rightarrow> u64 set) \<Rightarrow> event \<Rightarrow> bool" where
  "banded P e \<longleftrightarrow> ev_order_id e \<noteq> 0 \<and>
     (event_type_from_u8 (ev_event_type e) \<in> {Some OrderAdd, Some OrderModify} \<longrightarrow>
        (case side_from_u8 (ev_side e) of None \<Rightarrow> False | Some sd \<Rightarrow> ev_price e \<in> P sd))"

definition in_band :: "(side \<Rightarrow> u64 set) \<Rightarrow> order_book \<Rightarrow> bool" where
  "in_band P b \<longleftrightarrow> (\<forall>sd. dom (om_lookup (ob_levels sd b)) \<subseteq> P sd)"

definition uncrossed :: "order_book \<Rightarrow> bool" where
  "uncrossed b \<longleftrightarrow> (\<forall>bid ask. ob_best_bid b = Some bid \<longrightarrow> ob_best_ask b = Some ask \<longrightarrow> bid < ask)"

lemma uncrossed_iff_spread:
  "uncrossed b \<longleftrightarrow> (ob_best_bid b \<noteq> None \<and> ob_best_ask b \<noteq> None \<longrightarrow> ob_spread b \<noteq> None)"
  by (auto simp: uncrossed_def ob_spread_def split: option.splits)

lemma grid_count_card:
  assumes "grid_inv N d g"
  shows "unat (snd g) = card (dom (glook g))"
proof -
  have "distinct (map lv_price (live g))"
    using assms by (auto simp: grid_inv_def intro: before_sorted_distinct)
  moreover have "dom (glook g) = set (map lv_price (live g))"
    by (simp add: glook_def dom_map_of_conv_image_fst image_image)
  moreover have "length (live g) = unat (snd g)"
    using assms by (simp add: grid_inv_def live_def)
  ultimately show ?thesis by (metis distinct_card length_map)
qed

locale price_band =
  fixes P :: "side \<Rightarrow> u64 set" and N :: nat
  assumes band_finite: "finite (P sd)"
    and band_card: "card (P sd) \<le> N"
    and band_width: "N < 2 ^ 32"
begin

lemma in_band_new: "in_band P (ob_new iid)"
proof -
  have "om_lookup (ob_levels sd (ob_new iid)) = Map.empty" for sd
    by (cases sd) (simp_all add: ob_new_def fun_eq_iff)
  then show ?thesis by (simp add: in_band_def)
qed

lemma in_band_shrink:
  "in_band P b \<Longrightarrow> in_band P (ob_set_levels sd (ob_shrink_level p q r (ob_levels sd b)) b)"
  by (auto simp: in_band_def ob_shrink_level_lookup split: if_splits)
     (metis Option.bind.bind_lzero domIff option.distinct(1) subsetD)

lemma in_band_orders [simp]: "in_band P (b\<lparr>ob_orders := os\<rparr>) = in_band P b"
  by (simp add: in_band_def)

lemma in_band_cancel: "in_band P b \<Longrightarrow> in_band P (fst (ob_cancel_order b e))"
  using in_band_shrink [of b]
  by (auto simp: ob_cancel_order_def Let_def ob_set_levels_commute split: option.split)

lemma in_band_trade: "in_band P b \<Longrightarrow> in_band P (fst (ob_execute_trade b e))"
  using in_band_shrink [of b] by (auto simp: ob_execute_trade_def Let_def split: option.split)

lemma in_band_add:
  "in_band P b \<Longrightarrow> side_from_u8 (ev_side e) = Some sd \<Longrightarrow> ev_price e \<in> P sd \<Longrightarrow> in_band P (fst (ob_add_order b e))"
  by (auto simp: ob_add_order_def in_band_def ob_grow_level_lookup Let_def split: if_splits)

lemma in_band_apply: "in_band P b \<Longrightarrow> banded P e \<Longrightarrow> in_band P (fst (ob_apply b e))"
  by (auto simp: ob_apply_def ob_modify_order_def banded_def
      intro: in_band_add in_band_cancel in_band_trade split: option.splits event_type.split)

lemma band_level_room:
  assumes rel: "book_rel N h b" and band: "in_band P b" and e: "ev_side e = side_code sd" "ev_price e \<in> P sd"
  shows "level_room N h e"
proof (cases "glook (hb_grid (ev_side e = 0) h) (ev_price e)")
  case None
  have g: "grid_inv N (ev_side e = 0) (hb_grid (ev_side e = 0) h)"
    by (rule hb_inv_grid [OF book_relD(1) [OF rel]])
  have "glook (hb_grid (ev_side e = 0) h) = om_lookup (ob_levels sd b)"
    using book_relD(2) [OF rel, of sd] e(1) by simp
  then have "dom (glook (hb_grid (ev_side e = 0) h)) \<subset> P sd"
    using band None e(2) by (auto simp: in_band_def)
  then have "unat (snd (hb_grid (ev_side e = 0) h)) < N"
    using psubset_card_mono [OF band_finite] grid_count_card [OF g] band_card [of sd] by (metis less_le_trans)
  then show ?thesis by (simp add: level_room_def Let_def)
next
  case (Some l)
  have "grid_inv N (ev_side e = 0) (hb_grid (ev_side e = 0) h)"
    by (rule hb_inv_grid [OF book_relD(1) [OF rel]])
  from find_level_correct [OF this, of "ev_price e"] Some show ?thesis
    by (auto simp: level_room_def Let_def split: option.splits)
qed

lemma band_conformant:
  assumes "book_rel N h b" "in_band P b" "banded P e"
  shows "conformant N h e"
proof -
  have oid: "ev_order_id e \<noteq> 0" using assms(3) by (simp add: banded_def)
  have c: "book_rel N (fst (hb_cancel_order h e)) (fst (ob_cancel_order b e))" "in_band P (fst (ob_cancel_order b e))"
    using cancel_order_sim [OF assms(1) oid] in_band_cancel [OF assms(2)] by simp_all
  show ?thesis
    using assms oid band_level_room [OF assms(1,2)] band_level_room [OF c]
    by (auto simp: conformant_def banded_def side_from_u8_Some
        split: option.splits event_type.splits)
qed

lemma band_run_from:
  "book_rel N h b \<Longrightarrow> in_band P b \<Longrightarrow> \<forall>e \<in> set es. banded P e \<Longrightarrow>
   length (sl_data (hb_orders h)) + length es \<le> 2 ^ 32 \<Longrightarrow>
   conformant_run N h es \<and> book_rel N (hb_run N h es) (ob_run b es) \<and> in_band P (ob_run b es)"
proof (induction es arbitrary: h b)
  case (Cons e es)
  have c: "conformant N h e" using band_conformant Cons.prems by auto
  have "slab_room h" using Cons.prems by (simp add: slab_room_def)
  with c have r: "book_rel N (fst (hb_apply N h e)) (fst (ob_apply b e))"
    using apply_sim Cons.prems by blast
  have l: "length (sl_data (hb_orders (fst (hb_apply N h e)))) + length es \<le> 2 ^ 32"
    using hb_apply_slots [of N h e] Cons.prems(4) by simp
  show ?case
    using Cons.IH [OF r in_band_apply [OF Cons.prems(2)] _ l] Cons.prems c
    by (simp add: hb_run_def ob_run_def)
qed (simp add: hb_run_def ob_run_def)

lemma band_run:
  assumes "\<forall>e \<in> set es. banded P e" "length es \<le> 2 ^ 32"
  shows "conformant_run N (hb_new N iid) es"
    and "book_rel N (hb_run N (hb_new N iid) es) (ob_run (ob_new iid) es)"
    and "in_band P (ob_run (ob_new iid) es)"
  using band_run_from [OF new_rel [OF band_width, of iid] in_band_new assms(1)] assms(2)
  by (simp_all add: hb_new_def slab_new_def)

lemma in_band_uncrossed:
  assumes "in_band P b" "\<And>p q. p \<in> P Bid \<Longrightarrow> q \<in> P Ask \<Longrightarrow> p < q"
  shows "uncrossed b"
proof -
  have "bid \<in> P Bid" if "ob_best_bid b = Some bid" for bid
    using that assms(1) om_last_key_Some [of "ob_bids b" bid] unfolding ob_best_bid_def in_band_def
    by (metis domIff ob_levels.simps(1) option.distinct(1) subsetD)
  moreover have "ask \<in> P Ask" if "ob_best_ask b = Some ask" for ask
    using that assms(1) om_first_key_Some [of "ob_asks b" ask] unfolding ob_best_ask_def in_band_def
    by (metis domIff ob_levels.simps(2) option.distinct(1) subsetD)
  ultimately show ?thesis using assms(2) by (auto simp: uncrossed_def)
qed

end

end
