(* ===== verification/FL_FreshStream.thy ===== *)
theory FL_FreshStream
  imports FL_BookConsistent FL_BookRefine
begin

text \<open>
  A stream that never re-uses an order id, never modifies and stays within the widths of the level counters keeps
  the reference book consistent: its levels are the sums of its resting orders. The generators of the repository
  are clients: their adds take consecutive ids.
\<close>

lemma u8_le_1: "(sd :: u8) \<le> 1 \<longleftrightarrow> sd = 0 \<or> sd = 1"
proof -
  have "unat sd \<le> 1 \<longleftrightarrow> unat sd = 0 \<or> unat sd = 1" by linarith
  then show ?thesis by (simp add: word_le_nat_alt word_unat_eq_iff)
qed

lemma sum_list_bounded: "(\<forall>x \<in> set xs. f x \<le> k) \<Longrightarrow> sum_list (map f xs) \<le> k * length xs" for f :: "'a \<Rightarrow> nat"
  by (induction xs) auto

definition is_add :: "event \<Rightarrow> bool" where
  "is_add e \<longleftrightarrow> event_type_from_u8 (ev_event_type e) = Some OrderAdd"

definition fresh_stream :: "event list \<Rightarrow> bool" where
  "fresh_stream es \<longleftrightarrow> distinct (map ev_order_id (filter is_add es)) \<and>
     (\<forall>e \<in> set es. event_type_from_u8 (ev_event_type e) \<noteq> Some OrderModify \<and>
        (is_add e \<longrightarrow> side_from_u8 (ev_side e) \<noteq> None)) \<and>
     length es < 2 ^ 32 \<and> (\<Sum>e\<leftarrow>filter is_add es. unat (ev_qty e)) < 2 ^ 64"

definition rest_bounded :: "event list \<Rightarrow> order_book \<Rightarrow> bool" where
  "rest_bounded es b \<longleftrightarrow>
     (\<forall>oid. om_lookup (ob_orders b) oid \<noteq> None \<longrightarrow> oid \<in> ev_order_id ` set (filter is_add es)) \<and>
     (\<forall>sd p. rest_count sd p (ob_orders b) \<le> length (filter is_add es) \<and>
        rest_qty sd p (ob_orders b) \<le> (\<Sum>e\<leftarrow>filter is_add es. unat (ev_qty e)))"

lemma rest_bounded_new: "rest_bounded [] (ob_new iid)"
  by (simp add: rest_bounded_def ob_new_def rest_count_def rest_qty_def)

lemma rest_bounded_remove:
  assumes "rest_bounded es b" "om_lookup (ob_orders b) k = Some ord" "ob_orders b' = om_remove k (ob_orders b)"
  shows "rest_bounded es b'"
  using assms(1) unfolding rest_bounded_def assms(3) rest_sums_split [OF assms(2)]
  by (auto simp: om_lookup_remove) (meson add_leE)+

lemma rest_bounded_reduce:
  assumes b: "rest_bounded es b" and k: "om_lookup (ob_orders b) k = Some ord" and q: "q \<le> or_qty ord"
    and o': "ob_orders b' = om_insert k (ord\<lparr>or_qty := q\<rparr>) (ob_orders b)"
  shows "rest_bounded es b'"
proof -
  have at: "at_level sd p (ord\<lparr>or_qty := q\<rparr>) = at_level sd p ord" for sd p by (simp add: at_level_def)
  have le: "rest_count sd p (ob_orders b') \<le> rest_count sd p (ob_orders b)"
    "rest_qty sd p (ob_orders b') \<le> rest_qty sd p (ob_orders b)" for sd p
    using q by (simp_all add: o' rest_sums_insert rest_sums_split [OF k] at word_le_nat_alt)
  have "(om_lookup (ob_orders b') oid \<noteq> None) = (om_lookup (ob_orders b) oid \<noteq> None)" for oid
    using k by (simp add: o' om_lookup_insert)
  then show ?thesis using b le unfolding rest_bounded_def by (meson le_trans)
qed

lemma rest_bounded_cancel: "rest_bounded es b \<Longrightarrow> rest_bounded es (fst (ob_cancel_order b e))"
proof (cases "om_lookup (ob_orders b) (ev_order_id e)")
  case (Some ord)
  assume b: "rest_bounded es b"
  have "or_qty ord - ev_qty e \<le> or_qty ord" if "\<not> or_qty ord \<le> ev_qty e"
    using that by (simp add: word_sub_le not_le)
  then show ?thesis
    using Some rest_bounded_remove [OF b Some, of "fst (ob_cancel_order b e)"]
      rest_bounded_reduce [OF b Some, of "or_qty ord - ev_qty e" "fst (ob_cancel_order b e)"]
    by (auto simp: ob_cancel_order_def Let_def split: if_splits)
qed (simp add: ob_cancel_order_def)

lemma rest_bounded_trade: "rest_bounded es b \<Longrightarrow> rest_bounded es (fst (ob_execute_trade b e))"
proof (cases "om_lookup (ob_orders b) (ev_order_id e)")
  case (Some ord)
  assume b: "rest_bounded es b"
  show ?thesis
    using Some rest_bounded_remove [OF b Some, of "fst (ob_execute_trade b e)"]
      rest_bounded_reduce [OF b Some sat_sub_le, of "fst (ob_execute_trade b e)" "ev_qty e"]
    by (auto simp: ob_execute_trade_def Let_def split: if_splits)
qed (simp add: ob_execute_trade_def)

lemma rest_bounded_add:
  assumes "rest_bounded es b" "is_add e" "om_lookup (ob_orders b) (ev_order_id e) = None"
  shows "rest_bounded (es @ [e]) (fst (ob_add_order b e))"
  using assms by (auto simp: rest_bounded_def ob_add_order_def Let_def om_lookup_insert rest_sums_insert
      om_remove_absent add.commute intro: add_mono le_SucI trans_le_add1 trans_le_add2 split: option.split)

lemma rest_bounded_other: "\<not> is_add e \<Longrightarrow> rest_bounded (es @ [e]) b = rest_bounded es b"
  by (simp add: rest_bounded_def)

lemma fresh_stream_snoc:
  assumes "fresh_stream (es @ [e])"
  shows "fresh_stream es" and "is_add e \<Longrightarrow> ev_order_id e \<notin> ev_order_id ` set (filter is_add es)"
    and "event_type_from_u8 (ev_event_type e) \<noteq> Some OrderModify"
  using assms by (auto simp: fresh_stream_def split: if_splits)

lemma fresh_run:
  "fresh_stream es \<Longrightarrow> consistent (ob_run (ob_new iid) es) \<and> rest_bounded es (ob_run (ob_new iid) es)"
proof (induction es rule: rev_induct)
  case Nil
  show ?case by (simp add: ob_run_def consistent_new rest_bounded_new)
next
  case (snoc e es)
  let ?b = "ob_run (ob_new iid) es"
  have ih: "consistent ?b" "rest_bounded es ?b" using snoc fresh_stream_snoc(1) by blast+
  have run: "ob_run (ob_new iid) (es @ [e]) = fst (ob_apply ?b e)" by (simp add: ob_run_def)
  show ?case
  proof (cases "is_add e")
    case True
    then have fresh: "om_lookup (ob_orders ?b) (ev_order_id e) = None"
      using ih(2) fresh_stream_snoc(2) [OF snoc.prems] by (auto simp: rest_bounded_def)
    obtain sd where sd: "side_from_u8 (ev_side e) = Some sd"
      using snoc.prems True by (auto simp: fresh_stream_def)
    have "Suc (rest_count sd p (ob_orders ?b)) < 2 ^ 32" for p
    proof -
      have "rest_count sd p (ob_orders ?b) \<le> length (filter is_add es)"
        using ih(2) by (simp add: rest_bounded_def)
      also have "\<dots> \<le> length es" by (rule length_filter_le)
      finally show ?thesis using snoc.prems by (simp add: fresh_stream_def)
    qed
    moreover have "rest_qty sd p (ob_orders ?b) + unat (ev_qty e) < 2 ^ 64" for p
    proof -
      have "rest_qty sd p (ob_orders ?b) \<le> (\<Sum>e\<leftarrow>filter is_add es. unat (ev_qty e))"
        using ih(2) by (simp add: rest_bounded_def)
      then show ?thesis using snoc.prems True by (simp add: fresh_stream_def)
    qed
    ultimately have "fits ?b e" using sd by (simp add: fits_def)
    with fresh True ih show ?thesis
      unfolding run using consistent_add rest_bounded_add [OF ih(2) True fresh]
      by (simp add: ob_apply_def is_add_def)
  next
    case False
    then show ?thesis
      unfolding run rest_bounded_other [OF False]
      using ih fresh_stream_snoc(3) [OF snoc.prems]
      by (auto simp: ob_apply_def is_add_def consistent_cancel consistent_trade rest_bounded_cancel rest_bounded_trade
          split: option.split event_type.split)
  qed
qed

end
