(* ===== verification/FL_Itch.thy ===== *)
theory FL_Itch
  imports FL_Event
begin

text \<open>
  The ITCH 5.0 reference parser and the synthetic stream generator (\<open>replay/src/itch.rs\<close>). A message is a
  byte slice; every parser checks its length before it reads. Characters of the source are their ASCII
  codes. \<open>parse_buffer\<close> returns the events it pushed together with the result, since events stay pushed
  when a later message is refused.
\<close>

section \<open>Parser\<close>

definition msg_length :: "u8 \<Rightarrow> u16" where
  "msg_length t =
     (if t = 0x53 then 12 else if t = 0x52 then 39 else if t = 0x48 then 25 else if t = 0x59 then 20
      else if t = 0x4C then 26 else if t = 0x56 then 35 else if t = 0x57 then 12 else if t = 0x4B then 28
      else if t = 0x4A then 35 else if t = 0x68 then 21 else if t = 0x41 then 36 else if t = 0x46 then 40
      else if t = 0x45 then 31 else if t = 0x43 then 36 else if t = 0x58 then 23 else if t = 0x44 then 19
      else if t = 0x55 then 35 else if t = 0x50 then 44 else if t = 0x51 then 40 else if t = 0x42 then 19
      else if t = 0x49 then 50 else if t = 0x4E then 20 else 0)"

definition rd_u16 :: "bytes \<Rightarrow> nat \<Rightarrow> u16" where
  "rd_u16 b off = from_be (slice off (off + 2) b)"

definition rd_u32 :: "bytes \<Rightarrow> nat \<Rightarrow> u32" where
  "rd_u32 b off = from_be (slice off (off + 4) b)"

definition rd_u64 :: "bytes \<Rightarrow> nat \<Rightarrow> u64" where
  "rd_u64 b off = from_be (slice off (off + 8) b)"

definition rd_ts48 :: "bytes \<Rightarrow> nat \<Rightarrow> u64" where
  "rd_ts48 b off = push_bit 32 (ucast (rd_u16 b off)) OR ucast (rd_u32 b (off + 2))"

definition utf8_cont :: "u8 \<Rightarrow> bool" where
  "utf8_cont b \<longleftrightarrow> 0x80 \<le> b \<and> b \<le> 0xBF"

text \<open>\<open>std::str::from_utf8\<close> succeeds on these byte sequences.\<close>

fun utf8_valid :: "bytes \<Rightarrow> bool" where
  "utf8_valid [] = True"
| "utf8_valid (b # bs) =
     (if b < 0x80 then utf8_valid bs
      else if 0xC2 \<le> b \<and> b \<le> 0xDF then
        (case bs of c1 # rest \<Rightarrow> utf8_cont c1 \<and> utf8_valid rest | _ \<Rightarrow> False)
      else if 0xE0 \<le> b \<and> b \<le> 0xEF then
        (case bs of c1 # c2 # rest \<Rightarrow>
           utf8_cont c1 \<and> utf8_cont c2 \<and> (b = 0xE0 \<longrightarrow> 0xA0 \<le> c1) \<and> (b = 0xED \<longrightarrow> c1 \<le> 0x9F) \<and> utf8_valid rest
         | _ \<Rightarrow> False)
      else if 0xF0 \<le> b \<and> b \<le> 0xF4 then
        (case bs of c1 # c2 # c3 # rest \<Rightarrow>
           utf8_cont c1 \<and> utf8_cont c2 \<and> utf8_cont c3 \<and> (b = 0xF0 \<longrightarrow> 0x90 \<le> c1) \<and> (b = 0xF4 \<longrightarrow> c1 \<le> 0x8F) \<and>
           utf8_valid rest
         | _ \<Rightarrow> False)
      else False)"

definition trim_spaces :: "bytes \<Rightarrow> bytes" where
  "trim_spaces raw = rev (dropWhile (\<lambda>c. c = 0x20) (rev raw))"

definition parse_stock_directory :: "bytes \<Rightarrow> (u32 \<times> bytes) option" where
  "parse_stock_directory m =
     (if length m < 19 \<or> m ! 0 \<noteq> 0x52 then None
      else
        let sym = trim_spaces (slice 11 19 m)
        in if utf8_valid sym then Some (ucast (rd_u16 m 1), sym) else None)"

definition parse_side :: "u8 \<Rightarrow> u8" where
  "parse_side b = (if b = 0x42 then side_code Bid else side_code Ask)"

definition parse_add_order :: "bytes \<Rightarrow> event option" where
  "parse_add_order m =
     (if length m < 36 then None
      else Some (event_zeroed\<lparr>ev_ts := rd_ts48 m 5, ev_price := ucast (rd_u32 m 32), ev_qty := ucast (rd_u32 m 20),
        ev_order_id := rd_u64 m 11, ev_instrument_id := ucast (rd_u16 m 1),
        ev_event_type := event_type_code OrderAdd, ev_side := parse_side (m ! 19)\<rparr>))"

definition parse_order_delete :: "bytes \<Rightarrow> event option" where
  "parse_order_delete m =
     (if length m < 19 then None
      else Some (event_zeroed\<lparr>ev_ts := rd_ts48 m 5, ev_order_id := rd_u64 m 11,
        ev_instrument_id := ucast (rd_u16 m 1), ev_event_type := event_type_code OrderCancel\<rparr>))"

definition parse_order_cancel :: "bytes \<Rightarrow> event option" where
  "parse_order_cancel m =
     (if length m < 23 then None
      else Some (event_zeroed\<lparr>ev_ts := rd_ts48 m 5, ev_qty := ucast (rd_u32 m 19), ev_order_id := rd_u64 m 11,
        ev_instrument_id := ucast (rd_u16 m 1), ev_event_type := event_type_code OrderCancel\<rparr>))"

definition parse_order_executed :: "bytes \<Rightarrow> event option" where
  "parse_order_executed m =
     (if length m < 31 then None
      else Some (event_zeroed\<lparr>ev_ts := rd_ts48 m 5,
        ev_price := (if m ! 0 = 0x43 \<and> 36 \<le> length m then ucast (rd_u32 m 32) else 0),
        ev_qty := ucast (rd_u32 m 19), ev_order_id := rd_u64 m 11,
        ev_instrument_id := ucast (rd_u16 m 1), ev_event_type := event_type_code Trade\<rparr>))"

definition parse_trade :: "bytes \<Rightarrow> event option" where
  "parse_trade m =
     (if length m < 44 then None
      else Some (event_zeroed\<lparr>ev_ts := rd_ts48 m 5, ev_price := ucast (rd_u32 m 32), ev_qty := ucast (rd_u32 m 20),
        ev_order_id := rd_u64 m 11, ev_instrument_id := ucast (rd_u16 m 1),
        ev_event_type := event_type_code Trade, ev_side := parse_side (m ! 19)\<rparr>))"

definition dispatch :: "bytes \<Rightarrow> event option" where
  "dispatch m =
     (case m of
        [] \<Rightarrow> None
      | t # _ \<Rightarrow>
          if t = 0x41 \<or> t = 0x46 then parse_add_order m
          else if t = 0x44 then parse_order_delete m
          else if t = 0x58 then parse_order_cancel m
          else if t = 0x45 \<or> t = 0x43 then parse_order_executed m
          else if t = 0x50 then parse_trade m
          else None)"

datatype itch_error = UnknownItchType | TruncatedItch

function parse_buffer_from :: "bytes \<Rightarrow> nat \<Rightarrow> event list \<Rightarrow> nat \<Rightarrow> event list \<times> (itch_error + nat)" where
  "parse_buffer_from raw i out n =
     (if length raw \<le> i then (out, Inr n)
      else
        let len = unat (msg_length (raw ! i))
        in if len = 0 then (out, Inl UnknownItchType)
           else if length raw < i + len then (out, Inl TruncatedItch)
           else
             (case dispatch (slice i (i + len) raw) of
                Some e \<Rightarrow> parse_buffer_from raw (i + len) (out @ [e]) (Suc n)
              | None \<Rightarrow> parse_buffer_from raw (i + len) out n))"
  by pat_completeness auto
termination
  by (relation "measure (\<lambda>(raw, i, _). length raw - i)") auto

declare parse_buffer_from.simps [simp del]

definition parse_buffer :: "bytes \<Rightarrow> event list \<Rightarrow> event list \<times> (itch_error + nat)" where
  "parse_buffer raw out = parse_buffer_from raw 0 out 0"

section \<open>Generator\<close>

definition emit_header :: "u8 \<Rightarrow> u64 \<Rightarrow> u64 \<Rightarrow> bytes" where
  "emit_header t ts order_id =
     t # to_be 2 (0 :: u16) @ to_be 2 (0 :: u16) @
     to_be 2 (ucast (drop_bit 32 ts) :: u16) @ to_be 4 (ucast (ts AND 0xFFFFFFFF) :: u32) @ to_be 8 order_id"

definition side_char :: "side \<Rightarrow> u8" where
  "side_char sd = (if sd = Bid then 0x42 else 0x53)"

definition emit_add_order :: "bytes \<Rightarrow> u64 \<Rightarrow> u64 \<Rightarrow> side \<Rightarrow> u32 \<Rightarrow> u32 \<Rightarrow> bytes" where
  "emit_add_order buf ts order_id sd shares price =
     buf @ emit_header 0x41 ts order_id @ [side_char sd] @ to_be 4 shares @ replicate 8 0x20 @ to_be 4 price"

definition emit_order_delete :: "bytes \<Rightarrow> u64 \<Rightarrow> u64 \<Rightarrow> bytes" where
  "emit_order_delete buf ts order_id = buf @ emit_header 0x44 ts order_id"

definition emit_trade :: "bytes \<Rightarrow> u64 \<Rightarrow> u64 \<Rightarrow> side \<Rightarrow> u32 \<Rightarrow> u32 \<Rightarrow> bytes" where
  "emit_trade buf ts order_id sd shares price =
     buf @ emit_header 0x50 ts order_id @ [side_char sd] @ to_be 4 shares @ replicate 8 0x20 @ to_be 4 price @
     to_be 8 (0 :: u64)"

definition next_u64 :: "u64 \<Rightarrow> u64" where
  "next_u64 x0 =
     (let x1 = x0 XOR push_bit 13 x0;
          x2 = x1 XOR drop_bit 7 x1
      in x2 XOR push_bit 17 x2)"

record itch_gen =
  ig_rng :: u64
  ig_buf :: bytes
  ig_next_id :: u64
  ig_live_ids :: "u64 list"

definition mid_price :: int where
  "mid_price = 1000000"

definition swap_remove :: "nat \<Rightarrow> 'a list \<Rightarrow> 'a list" where
  "swap_remove i xs = butlast (xs[i := last xs])"

definition synthetic_step :: "nat \<Rightarrow> itch_gen \<Rightarrow> itch_gen" where
  "synthetic_step i g =
     (let r = next_u64 (ig_rng g);
          kind = r mod 100;
          ts = of_nat i * 1000
      in if kind < 60 \<or> ig_live_ids g = [] then
           let r1 = next_u64 r;
               offset = int (unat (r1 mod 50)) - 25;
               price = of_int (max (mid_price + offset * 100) 1) :: u32;
               r2 = next_u64 r1;
               shares = ucast (r2 mod 1000 + 1) :: u32;
               r3 = next_u64 r2;
               sd = (if r3 mod 2 = 0 then Bid else Ask);
               order_id = ig_next_id g
           in g\<lparr>ig_rng := r3, ig_next_id := order_id + 1,
                ig_buf := emit_add_order (ig_buf g) ts order_id sd shares price,
                ig_live_ids := ig_live_ids g @ [order_id]\<rparr>
         else if kind < 85 then
           let r1 = next_u64 r;
               idx = unat r1 mod length (ig_live_ids g);
               order_id = ig_live_ids g ! idx
           in g\<lparr>ig_rng := r1, ig_buf := emit_order_delete (ig_buf g) ts order_id,
                ig_live_ids := swap_remove idx (ig_live_ids g)\<rparr>
         else
           let r1 = next_u64 r;
               shares = ucast (r1 mod 200 + 1) :: u32;
               r2 = next_u64 r1;
               sd = (if r2 mod 2 = 0 then Bid else Ask)
           in g\<lparr>ig_rng := r2, ig_buf := emit_trade (ig_buf g) ts (ig_next_id g) sd shares (of_int mid_price)\<rparr>)"

definition synthetic_itch_stream :: "nat \<Rightarrow> u64 \<Rightarrow> bytes" where
  "synthetic_itch_stream n_events seed =
     ig_buf (fold synthetic_step [0..<n_events] \<lparr>ig_rng = seed, ig_buf = [], ig_next_id = 1, ig_live_ids = []\<rparr>)"

end
