(* ===== verification/FL_Float.thy ===== *)
theory FL_Float
  imports Complex_Main FL_Prelude
begin

text \<open>
  The floating-point operations the analytics use. An \<open>f64\<close> is a rational, an infinity or NaN; the two zeros
  are one value. Arithmetic is exact and then rounded by the parameter \<open>rnd\<close>, which may overflow to an
  infinity. Functions that the standard library leaves to the platform (square root, logarithm) are
  parameters of the definitions that use them.
\<close>

section \<open>Floating point\<close>

datatype f64 = Fin rat | PInf | NInf | NaN

fun f64_div :: "(rat \<Rightarrow> f64) \<Rightarrow> f64 \<Rightarrow> f64 \<Rightarrow> f64" where
  "f64_div rnd (Fin a) (Fin b) =
     (if b = 0 then if a = 0 then NaN else if 0 < a then PInf else NInf else rnd (a / b))"
| "f64_div rnd (Fin a) PInf = Fin 0"
| "f64_div rnd (Fin a) NInf = Fin 0"
| "f64_div rnd PInf (Fin b) = (if 0 \<le> b then PInf else NInf)"
| "f64_div rnd NInf (Fin b) = (if 0 \<le> b then NInf else PInf)"
| "f64_div rnd _ _ = NaN"

fun f64_neg :: "f64 \<Rightarrow> f64" where
  "f64_neg (Fin a) = Fin (- a)"
| "f64_neg PInf = NInf"
| "f64_neg NInf = PInf"
| "f64_neg NaN = NaN"

fun f64_add :: "(rat \<Rightarrow> f64) \<Rightarrow> f64 \<Rightarrow> f64 \<Rightarrow> f64" where
  "f64_add rnd (Fin a) (Fin b) = rnd (a + b)"
| "f64_add rnd (Fin _) y = y"
| "f64_add rnd x (Fin _) = x"
| "f64_add rnd PInf PInf = PInf"
| "f64_add rnd NInf NInf = NInf"
| "f64_add rnd _ _ = NaN"

definition f64_sub :: "(rat \<Rightarrow> f64) \<Rightarrow> f64 \<Rightarrow> f64 \<Rightarrow> f64" where
  "f64_sub rnd x y = f64_add rnd x (f64_neg y)"

definition f64_sgn :: "f64 \<Rightarrow> int" where
  "f64_sgn x = (case x of Fin a \<Rightarrow> (if a < 0 then - 1 else if a = 0 then 0 else 1) | PInf \<Rightarrow> 1 | NInf \<Rightarrow> - 1 | NaN \<Rightarrow> 0)"

definition f64_mul :: "(rat \<Rightarrow> f64) \<Rightarrow> f64 \<Rightarrow> f64 \<Rightarrow> f64" where
  "f64_mul rnd x y =
     (case (x, y) of
        (Fin a, Fin b) \<Rightarrow> rnd (a * b)
      | (NaN, _) \<Rightarrow> NaN
      | (_, NaN) \<Rightarrow> NaN
      | _ \<Rightarrow> if 0 < f64_sgn x * f64_sgn y then PInf else if f64_sgn x * f64_sgn y < 0 then NInf else NaN)"

definition f64_abs :: "f64 \<Rightarrow> f64" where
  "f64_abs x = (if f64_sgn x < 0 then f64_neg x else x)"

text \<open>Comparison is false on NaN; \<open>f64::min\<close> and \<open>f64::max\<close> prefer the operand that is a number.\<close>

fun f64_le :: "f64 \<Rightarrow> f64 \<Rightarrow> bool" where
  "f64_le NaN _ = False"
| "f64_le _ NaN = False"
| "f64_le NInf _ = True"
| "f64_le _ PInf = True"
| "f64_le (Fin a) (Fin b) = (a \<le> b)"
| "f64_le _ _ = False"

definition f64_lt :: "f64 \<Rightarrow> f64 \<Rightarrow> bool" where
  "f64_lt x y \<longleftrightarrow> f64_le x y \<and> \<not> f64_le y x"

definition f64_min :: "f64 \<Rightarrow> f64 \<Rightarrow> f64" where
  "f64_min x y = (if x = NaN then y else if y = NaN then x else if f64_le x y then x else y)"

definition f64_max :: "f64 \<Rightarrow> f64 \<Rightarrow> f64" where
  "f64_max x y = (if x = NaN then y else if y = NaN then x else if f64_le x y then y else x)"

definition f64_clamp :: "f64 \<Rightarrow> f64 \<Rightarrow> f64 \<Rightarrow> f64" where
  "f64_clamp lo hi x = (if f64_lt x lo then lo else if f64_lt hi x then hi else x)"

definition f64_of_nat :: "(rat \<Rightarrow> f64) \<Rightarrow> nat \<Rightarrow> f64" where
  "f64_of_nat rnd n = rnd (of_nat n)"

definition u64_as_f64 :: "(rat \<Rightarrow> f64) \<Rightarrow> u64 \<Rightarrow> f64" where
  "u64_as_f64 rnd w = f64_of_nat rnd (unat w)"

text \<open>
  What rounding to nearest guarantees and the proofs use: it is monotone and never invents a NaN, it keeps
  0 and 1, and it does not overflow up to the largest 64-bit integer.
\<close>

definition rounding :: "(rat \<Rightarrow> f64) \<Rightarrow> bool" where
  "rounding rnd \<longleftrightarrow> rnd 0 = Fin 0 \<and> rnd 1 = Fin 1 \<and> (\<forall>x y. x \<le> y \<longrightarrow> f64_le (rnd x) (rnd y)) \<and>
     (\<exists>m. rnd (2 ^ 64) = Fin m)"

text \<open>A severity score lies between 0 and 1.\<close>

definition unit_score :: "f64 \<Rightarrow> bool" where
  "unit_score x \<longleftrightarrow> f64_le (Fin 0) x \<and> f64_le x (Fin 1)"

section \<open>Lemmas on scores\<close>

lemma rounding_Fin: "rounding Fin"
  by (simp add: rounding_def)

lemma rounding_nonneg: "rounding rnd \<Longrightarrow> 0 \<le> x \<Longrightarrow> f64_le (Fin 0) (rnd x)"
  by (metis rounding_def)

lemma f64_le_refl: "f64_le x x \<longleftrightarrow> x \<noteq> NaN"
  by (cases x) auto

lemma f64_le_total: "x \<noteq> NaN \<Longrightarrow> y \<noteq> NaN \<Longrightarrow> f64_le x y \<or> f64_le y x"
  by (cases x; cases y) auto

lemma f64_le_trans: "f64_le x y \<Longrightarrow> f64_le y z \<Longrightarrow> f64_le x z"
  by (cases x; cases y; cases z) auto

lemma f64_le_not_NaN: "f64_le x y \<Longrightarrow> x \<noteq> NaN \<and> y \<noteq> NaN"
  by (cases x; cases y) auto

lemma rounding_not_NaN: "rounding rnd \<Longrightarrow> rnd x \<noteq> NaN"
  using f64_le_not_NaN [of "rnd x" "rnd x"] by (auto simp: rounding_def)

lemma u64_as_f64_Fin:
  assumes "rounding rnd"
  shows "\<exists>a. u64_as_f64 rnd w = Fin a \<and> 0 \<le> a \<and> (w \<noteq> 0 \<longrightarrow> 1 \<le> a)"
proof -
  have mono: "f64_le (rnd x) (rnd y)" if "x \<le> y" for x y using assms that by (simp add: rounding_def)
  have "of_nat (unat w) \<le> (of_nat (2 ^ 64) :: rat)" using unat_lt_u64 [of w] by (intro of_nat_mono) simp
  then have hi: "f64_le (rnd (of_nat (unat w))) (rnd (2 ^ 64))" by (intro mono) (simp del: of_nat_unat)
  have lo: "f64_le (Fin 0) (rnd (of_nat (unat w)))" using assms by (simp only: rounding_nonneg of_nat_0_le_iff)
  obtain a where a: "rnd (of_nat (unat w)) = Fin a" "0 \<le> a"
    using hi lo assms by (cases "rnd (of_nat (unat w))") (auto simp: rounding_def simp del: of_nat_unat)
  have "1 \<le> a" if "w \<noteq> 0"
  proof -
    have "1 \<le> unat w" using that unat_eq_zero [of w] by linarith
    then have "of_nat 1 \<le> (of_nat (unat w) :: rat)" by (rule of_nat_mono)
    then have "(1 :: rat) \<le> of_nat (unat w)" by (simp only: of_nat_1)
    then have "f64_le (rnd 1) (Fin a)" using mono a(1) by metis
    then show ?thesis using assms by (simp add: rounding_def)
  qed
  with a show ?thesis by (auto simp: u64_as_f64_def f64_of_nat_def simp del: of_nat_unat)
qed

lemma f64_div_nonneg:
  assumes "rounding rnd" "f64_le (Fin 0) x" "f64_le (Fin 0) y"
  shows "f64_div rnd x y = NaN \<or> f64_le (Fin 0) (f64_div rnd x y)"
  using assms rounding_nonneg by (cases x; cases y) auto

lemma unit_score_min:
  assumes "x = NaN \<or> f64_le (Fin 0) x"
  shows "unit_score (f64_min x (Fin 1))"
  using assms by (cases x) (auto simp: unit_score_def f64_min_def)

lemma unit_score_clamp: "x \<noteq> NaN \<Longrightarrow> unit_score (f64_clamp (Fin 0) (Fin 1) x)"
  by (cases x) (auto simp: unit_score_def f64_clamp_def f64_lt_def)

lemma f64_of_nat_nonneg: "rounding rnd \<Longrightarrow> f64_le (Fin 0) (f64_of_nat rnd n)"
  by (simp add: f64_of_nat_def rounding_nonneg)

lemma u64_as_f64_nonneg: "rounding rnd \<Longrightarrow> f64_le (Fin 0) (u64_as_f64 rnd w)"
  by (simp add: u64_as_f64_def f64_of_nat_nonneg)

section \<open>Rounding without overflow\<close>

fun is_fin :: "f64 \<Rightarrow> bool" where
  "is_fin (Fin _) = True"
| "is_fin _ = False"

text \<open>The idealised rounding of an unbounded exponent range: results are never infinite.\<close>

definition unbounded :: "(rat \<Rightarrow> f64) \<Rightarrow> bool" where
  "unbounded rnd \<longleftrightarrow> rounding rnd \<and> (\<forall>x. is_fin (rnd x))"

lemma is_fin_iff: "is_fin x \<longleftrightarrow> (\<exists>a. x = Fin a)"
  by (cases x) simp_all

lemma unbounded_rounding: "unbounded rnd \<Longrightarrow> rounding rnd"
  by (simp add: unbounded_def)

lemma unbounded_Fin: "unbounded Fin"
  by (simp add: unbounded_def rounding_Fin)

lemma is_fin_add: "unbounded rnd \<Longrightarrow> is_fin x \<Longrightarrow> is_fin y \<Longrightarrow> is_fin (f64_add rnd x y)"
  by (cases x; cases y) (simp_all add: unbounded_def)

lemma is_fin_sub: "unbounded rnd \<Longrightarrow> is_fin x \<Longrightarrow> is_fin y \<Longrightarrow> is_fin (f64_sub rnd x y)"
  by (cases y) (simp_all add: f64_sub_def is_fin_add)

lemma is_fin_mul: "unbounded rnd \<Longrightarrow> is_fin x \<Longrightarrow> is_fin y \<Longrightarrow> is_fin (f64_mul rnd x y)"
  by (cases x; cases y) (simp_all add: unbounded_def f64_mul_def)

lemma is_fin_div: "unbounded rnd \<Longrightarrow> is_fin x \<Longrightarrow> is_fin y \<Longrightarrow> y \<noteq> Fin 0 \<Longrightarrow> is_fin (f64_div rnd x y)"
  by (cases x; cases y) (auto simp: unbounded_def)

lemma is_fin_max: "is_fin x \<Longrightarrow> is_fin y \<Longrightarrow> is_fin (f64_max x y)"
  by (simp add: f64_max_def)

lemma f64_max_0: "is_fin x \<Longrightarrow> \<exists>z \<ge> 0. f64_max x (Fin 0) = Fin z"
  by (cases x) (auto simp: f64_max_def)

lemma is_fin_clamp: "is_fin x \<Longrightarrow> is_fin (f64_clamp (Fin a) (Fin b) x)"
  by (simp add: f64_clamp_def)

lemma is_fin_not_NaN: "is_fin x \<Longrightarrow> x \<noteq> NaN"
  by auto

lemma is_fin_u64: "unbounded rnd \<Longrightarrow> is_fin (u64_as_f64 rnd w)"
  by (simp add: unbounded_def u64_as_f64_def f64_of_nat_def)

lemma is_fin_of_nat: "unbounded rnd \<Longrightarrow> is_fin (f64_of_nat rnd n)"
  by (simp add: unbounded_def f64_of_nat_def)

lemma is_fin_rnd: "unbounded rnd \<Longrightarrow> is_fin (rnd x)"
  by (simp add: unbounded_def)

lemma rnd_ge_1:
  assumes "rounding rnd" "1 \<le> x"
  shows "rnd x \<noteq> Fin 0"
proof -
  have "f64_le (rnd 1) (rnd x)" using assms unfolding rounding_def by blast
  then show ?thesis using assms(1) by (auto simp: rounding_def)
qed

lemma f64_of_nat_nonzero: "rounding rnd \<Longrightarrow> 0 < n \<Longrightarrow> f64_of_nat rnd n \<noteq> Fin 0"
  by (simp add: f64_of_nat_def rnd_ge_1)

lemma f64_of_nat_ge_1:
  assumes "unbounded rnd" "0 < n"
  shows "\<exists>a \<ge> 1. f64_of_nat rnd n = Fin a"
proof -
  have "1 \<le> (of_nat n :: rat)" using assms(2) by simp
  then have "f64_le (rnd 1) (rnd (of_nat n))" using assms(1) unfolding unbounded_def rounding_def by blast
  moreover obtain a where "rnd (of_nat n) = Fin a" using assms(1) by (auto simp: unbounded_def is_fin_iff)
  ultimately show ?thesis using assms(1) by (simp add: f64_of_nat_def unbounded_def rounding_def)
qed

lemma f64_scaled_nonzero:
  assumes "unbounded rnd" "0 < n" "1 \<le> c"
  shows "f64_mul rnd (f64_of_nat rnd n) (Fin c) \<noteq> Fin 0"
proof -
  obtain a where a: "1 \<le> a" "f64_of_nat rnd n = Fin a" using f64_of_nat_ge_1 [OF assms(1,2)] by blast
  have "1 * 1 \<le> a * c" using a(1) assms(3) by (intro mult_mono) auto
  then have "rnd (a * c) \<noteq> Fin 0" using rnd_ge_1 [OF unbounded_rounding [OF assms(1)], of "a * c"] by simp
  then show ?thesis by (simp add: a(2) f64_mul_def)
qed

lemma u64_as_f64_nonzero: "rounding rnd \<Longrightarrow> w \<noteq> 0 \<Longrightarrow> u64_as_f64 rnd w \<noteq> Fin 0"
  using u64_as_f64_Fin [of rnd w] by auto

lemmas is_fin_ops = is_fin_add is_fin_sub is_fin_mul is_fin_div is_fin_max is_fin_clamp is_fin_u64 is_fin_of_nat is_fin_rnd

section \<open>Conversions to integers\<close>

text \<open>\<open>f64 as u64\<close> truncates and saturates, and maps NaN to 0; \<open>f64::round\<close> rounds half away from zero.\<close>

definition f64_as_nat :: "f64 \<Rightarrow> nat" where
  "f64_as_nat x =
     (case x of Fin a \<Rightarrow> nat (min \<lfloor>max 0 a\<rfloor> (2 ^ 64 - 1)) | PInf \<Rightarrow> 2 ^ 64 - 1 | NInf \<Rightarrow> 0 | NaN \<Rightarrow> 0)"

definition f64_as_u64 :: "f64 \<Rightarrow> u64" where
  "f64_as_u64 x = of_nat (f64_as_nat x)"

fun f64_round :: "f64 \<Rightarrow> f64" where
  "f64_round (Fin a) = Fin (of_int (if 0 \<le> a then \<lfloor>a + 1 / 2\<rfloor> else \<lceil>a - 1 / 2\<rceil>))"
| "f64_round x = x"

fun f64_ceil :: "f64 \<Rightarrow> f64" where
  "f64_ceil (Fin a) = Fin (of_int \<lceil>a\<rceil>)"
| "f64_ceil x = x"

lemma f64_as_nat_mono: "f64_le x y \<Longrightarrow> f64_as_nat x \<le> f64_as_nat y"
  by (cases x; cases y) (auto simp: f64_as_nat_def intro!: nat_mono min.mono floor_mono max.mono)

lemma f64_as_nat_bound: "f64_as_nat x < 2 ^ 64"
  by (cases x) (auto simp: f64_as_nat_def nat_less_iff min_def)

lemma f64_round_mono:
  assumes "f64_le (Fin 0) x" "f64_le x y"
  shows "f64_le (f64_round x) (f64_round y)"
  using assms by (cases x; cases y) (auto intro!: floor_mono)

lemma f64_ceil_mono: "f64_le x y \<Longrightarrow> f64_le (f64_ceil x) (f64_ceil y)"
  by (cases x; cases y) (auto intro!: ceiling_mono)

lemma f64_mul_mono:
  assumes "rounding rnd" "f64_le (Fin 0) x" "0 \<le> p" "p \<le> q" "x \<noteq> PInf"
  shows "f64_le (f64_mul rnd x (Fin p)) (f64_mul rnd x (Fin q))"
  using assms mult_left_mono [of p q] by (cases x) (auto simp: f64_mul_def rounding_def)

end
