(* ===== verification/FL_Synthetic.thy ===== *)
theory FL_Synthetic
  imports FL_BookBand FL_FreshStream FL_Itch FL_Float
begin

text \<open>
  The engine's synthetic source (\<open>engine/src/synthetic.rs\<close>): a scheduler of phases, a pool of live orders and
  a random mix of adds, cancels and trades around a fixed mid price. The crate \<open>rand\<close> is a parameter: a
  generator state of any type, the seeding, and the two draws the source makes. \<open>rng_ok\<close> is what its
  documentation promises of them. The clock reading of each event is an argument.
\<close>

section \<open>The random number generator\<close>

datatype int_ty = TyU8 | TyI32 | TyU32 | TyI64 | TyU64 | TyUsize

datatype span = Excl int int | Incl int int

record 'r std_rng =
  seed_from_u64 :: "u64 \<Rightarrow> 'r"
  gen_range :: "int_ty \<Rightarrow> span \<Rightarrow> 'r \<Rightarrow> 'r \<times> int"
  gen_bool :: "rat \<Rightarrow> 'r \<Rightarrow> 'r \<times> bool"

fun in_span :: "span \<Rightarrow> int \<Rightarrow> bool" where
  "in_span (Excl lo hi) x \<longleftrightarrow> lo \<le> x \<and> x < hi"
| "in_span (Incl lo hi) x \<longleftrightarrow> lo \<le> x \<and> x \<le> hi"

text \<open>A draw from a range that is not empty lies in the range.\<close>

definition rng_ok :: "'r std_rng \<Rightarrow> bool" where
  "rng_ok R \<longleftrightarrow> (\<forall>ty s r x. in_span s x \<longrightarrow> in_span s (snd (gen_range R ty s r)))"

section \<open>State\<close>

datatype phase = PhCalm | PhImbalanceBurst u8 | PhTradeBurst u8 | PhFlash u8

type_synonym live_order = "u64 \<times> u64 \<times> u8"

record 'r synthetic =
  sy_rng :: 'r
  sy_next_oid :: u64
  sy_seq :: u64
  sy_live_orders :: "live_order list"
  sy_mid_ticks :: i64
  sy_phase :: phase
  sy_phase_remaining :: u32

definition sy_new :: "'r std_rng \<Rightarrow> u64 \<Rightarrow> 'r synthetic" where
  "sy_new R seed = \<lparr>sy_rng = seed_from_u64 R seed, sy_next_oid = 1, sy_seq = 0, sy_live_orders = [],
     sy_mid_ticks = 100000000, sy_phase = PhCalm, sy_phase_remaining = 4000\<rparr>"

section \<open>Phases\<close>

definition pick_next_phase :: "'r std_rng \<Rightarrow> 'r \<Rightarrow> 'r \<times> phase \<times> u32" where
  "pick_next_phase R g =
     (let (g, r) = gen_range R TyU8 (Excl 0 100) g;
          (g, sd) = gen_range R TyI32 (Excl 0 2) g;
          side = word_of_int sd :: u8;
          (p, span) = (if r < 50 then (PhCalm, Incl 2800 5500)
                       else if r < 73 then (PhImbalanceBurst side, Incl 800 1500)
                       else if r < 88 then (PhTradeBurst side, Incl 450 950)
                       else (PhFlash side, Incl 260 520));
          (g, n) = gen_range R TyU32 span g
      in (g, p, word_of_int n))"

definition sy_schedule :: "'r std_rng \<Rightarrow> 'r synthetic \<Rightarrow> 'r synthetic" where
  "sy_schedule R s =
     (let s = (if sy_phase_remaining s = 0 then
                 let (g, p, n) = pick_next_phase R (sy_rng s)
                 in s\<lparr>sy_rng := g, sy_phase := p, sy_phase_remaining := n\<rparr>
               else s)
      in s\<lparr>sy_phase_remaining := sy_phase_remaining s - 1\<rparr>)"

fun phase_mix :: "phase \<Rightarrow> int \<times> int \<times> u8 option" where
  "phase_mix PhCalm = (60, 85, None)"
| "phase_mix (PhImbalanceBurst side) = (95, 100, Some side)"
| "phase_mix (PhTradeBurst side) = (15, 20, Some side)"
| "phase_mix (PhFlash side) = (2, 35, Some side)"

fun flash_mode :: "phase \<Rightarrow> bool" where
  "flash_mode (PhFlash _) = True"
| "flash_mode _ = False"

section \<open>The three kinds of event\<close>

definition sy_side :: "'r std_rng \<Rightarrow> u8 option \<Rightarrow> 'r \<Rightarrow> 'r \<times> u8" where
  "sy_side R forced g =
     (case forced of
        Some sd \<Rightarrow> (g, sd)
      | None \<Rightarrow> let (g, b) = gen_bool R (1 / 2) g in (g, if b then 0 else 1))"

definition sy_offset :: "'r std_rng \<Rightarrow> bool \<Rightarrow> 'r \<Rightarrow> 'r \<times> int" where
  "sy_offset R forced = gen_range R TyI64 (if forced then Incl 5 7 else Incl 5 50)"

definition sy_price :: "i64 \<Rightarrow> u8 \<Rightarrow> int \<Rightarrow> u64" where
  "sy_price mid side off =
     (if side = 0 then (let p = mid - word_of_int off in if sint p < 1 then 1 else p)
      else mid + word_of_int off)"

type_synonym draft = "event_type \<times> u64 \<times> u64 \<times> u64 \<times> u8"

definition sy_add :: "'r std_rng \<Rightarrow> u8 option \<Rightarrow> 'r synthetic \<Rightarrow> 'r synthetic \<times> draft" where
  "sy_add R forced s =
     (let (g, side) = sy_side R forced (sy_rng s);
          (g, off) = sy_offset R (forced \<noteq> None) g;
          price = sy_price (sy_mid_ticks s) side off;
          (g, q) = gen_range R TyU64 (Incl 10 500) g;
          oid = sy_next_oid s;
          pool = sy_live_orders s @ [(oid, price, side)];
          pool = (if 8192 < length pool then swap_remove 0 pool else pool)
      in (s\<lparr>sy_rng := g, sy_next_oid := oid + 1, sy_live_orders := pool\<rparr>,
          (OrderAdd, oid, price, word_of_int q, side)))"

text \<open>
  \<open>Iterator::max_by_key\<close> keeps the last of several maxima; \<open>Iterator::position\<close> the first hit. Both work on the
  orders of one side.
\<close>

definition touch_key :: "live_order \<Rightarrow> u64" where
  "touch_key x = (case x of (_, price, side) \<Rightarrow> if side = 0 then price else 0xFFFFFFFFFFFFFFFF - price)"

fun best_on_side :: "u8 \<Rightarrow> nat \<Rightarrow> live_order list \<Rightarrow> (nat \<times> u64) option \<Rightarrow> (nat \<times> u64) option" where
  "best_on_side sd i [] acc = acc"
| "best_on_side sd i (x # xs) acc =
     best_on_side sd (Suc i) xs
       (if snd (snd x) = sd then
          case acc of
            None \<Rightarrow> Some (i, touch_key x)
          | Some (j, k) \<Rightarrow> if k \<le> touch_key x then Some (i, touch_key x) else Some (j, k)
        else acc)"

fun first_on_side :: "u8 \<Rightarrow> nat \<Rightarrow> live_order list \<Rightarrow> nat option" where
  "first_on_side sd i [] = None"
| "first_on_side sd i (x # xs) = (if snd (snd x) = sd then Some i else first_on_side sd (Suc i) xs)"

definition any_index :: "'r std_rng \<Rightarrow> live_order list \<Rightarrow> 'r \<Rightarrow> 'r \<times> nat" where
  "any_index R pool g = (let (g, i) = gen_range R TyUsize (Excl 0 (int (length pool))) g in (g, nat i))"

definition pick_index :: "'r std_rng \<Rightarrow> bool \<Rightarrow> u8 option \<Rightarrow> live_order list \<Rightarrow> 'r \<Rightarrow> 'r \<times> nat" where
  "pick_index R flash target pool g =
     (case target of
        None \<Rightarrow> any_index R pool g
      | Some sd \<Rightarrow>
          case (if flash then map_option fst (best_on_side sd 0 pool None) else first_on_side sd 0 pool) of
            Some i \<Rightarrow> (g, i)
          | None \<Rightarrow> any_index R pool g)"

text \<open>Cancels and trades index the pool; an index out of range would panic, which is \<open>None\<close>.\<close>

definition sy_cancel :: "'r std_rng \<Rightarrow> bool \<Rightarrow> u8 option \<Rightarrow> 'r synthetic \<Rightarrow> ('r synthetic \<times> draft) option" where
  "sy_cancel R flash forced s =
     (let (g, i) = pick_index R flash forced (sy_live_orders s) (sy_rng s)
      in if i < length (sy_live_orders s) then
           let (oid, price, side) = sy_live_orders s ! i
           in Some (s\<lparr>sy_rng := g, sy_live_orders := swap_remove i (sy_live_orders s)\<rparr>,
                    (OrderCancel, oid, price, 0, side))
         else None)"

definition sy_trade :: "'r std_rng \<Rightarrow> bool \<Rightarrow> u8 option \<Rightarrow> 'r synthetic \<Rightarrow> ('r synthetic \<times> draft) option" where
  "sy_trade R flash forced s =
     (let (g, i) = pick_index R flash (map_option (\<lambda>t. 1 - t) forced) (sy_live_orders s) (sy_rng s)
      in if i < length (sy_live_orders s) then
           let (oid, price, side) = sy_live_orders s ! i;
               (g, fill) = gen_range R TyU64 (if flash then Incl 35 140 else Incl 1 50) g
           in Some (s\<lparr>sy_rng := g\<rparr>, (Trade, oid, price, word_of_int fill, side))
         else None)"

section \<open>The next event\<close>

definition sy_event :: "u64 \<Rightarrow> draft \<Rightarrow> event" where
  "sy_event now d =
     (case d of (t, oid, price, qty, side) \<Rightarrow>
        \<lparr>ev_ts = now, ev_price = price, ev_qty = qty, ev_order_id = oid, ev_instrument_id = 1,
         ev_event_type = event_type_code t, ev_side = (if side = 0 then side_code Bid else side_code Ask),
         ev_pad = (0, 0)\<rparr>)"

definition sy_draw :: "'r std_rng \<Rightarrow> 'r synthetic \<Rightarrow> ('r synthetic \<times> draft) option" where
  "sy_draw R s =
     (let (add_pct, cancel_pct, forced) = phase_mix (sy_phase s);
          flash = flash_mode (sy_phase s);
          (g, r) = gen_range R TyU8 (Excl 0 100) (sy_rng s);
          s = s\<lparr>sy_rng := g\<rparr>
      in if r < add_pct \<or> sy_live_orders s = [] then Some (sy_add R forced s)
         else if r < cancel_pct then sy_cancel R flash forced s
         else sy_trade R flash forced s)"

definition sy_next :: "'r std_rng \<Rightarrow> u64 \<Rightarrow> 'r synthetic \<Rightarrow> ('r synthetic \<times> event) option" where
  "sy_next R now s =
     map_option (\<lambda>(s, d). (s, sy_event now d)) (sy_draw R (sy_schedule R (s\<lparr>sy_seq := sy_seq s + 1\<rparr>)))"

text \<open>Pulling one event per clock reading.\<close>

fun sy_run :: "'r std_rng \<Rightarrow> u64 list \<Rightarrow> 'r synthetic \<Rightarrow> ('r synthetic \<times> event list) option" where
  "sy_run R [] s = Some (s, [])"
| "sy_run R (now # nows) s =
     (case sy_next R now s of
        None \<Rightarrow> None
      | Some (s, e) \<Rightarrow> map_option (\<lambda>(s, es). (s, e # es)) (sy_run R nows s))"

end
