(* ===== verification/FL_Latency.thy ===== *)
theory FL_Latency
  imports FL_Float FL_Event "HOL-Library.Log_Nat"
begin

text \<open>
  Latency accounting: the calibrated cycle counter of \<open>engine/src/tsc.rs\<close>, the rolling stage statistics and the
  log-linear histogram of \<open>engine/src/engine.rs\<close>, and the histogram of \<open>bench/src/bin/latency_apply.rs\<close> whose bins
  the telemetry promises to share. What the counter and the clock read is an argument.
\<close>

section \<open>Cycle counter\<close>

record tsc_clock =
  tsc_cycles_per_ns :: f64
  tsc_overhead_cycles :: u64

text \<open>\<open>sort_by(partial_cmp)\<close> on numbers that are not NaN: a stable insertion sort.\<close>

fun f64_insort :: "f64 \<Rightarrow> f64 list \<Rightarrow> f64 list" where
  "f64_insort x [] = [x]"
| "f64_insort x (y # ys) = (if f64_le x y then x # y # ys else y # f64_insort x ys)"

definition f64_sort :: "f64 list \<Rightarrow> f64 list" where
  "f64_sort xs = foldr f64_insort xs []"

text \<open>The readings of the five windows (\<open>c0\<close>, \<open>c1\<close>, elapsed ns) and of the 50000 back-to-back pairs.\<close>

definition tsc_calibrate :: "(rat \<Rightarrow> f64) \<Rightarrow> (u64 \<times> u64 \<times> nat) list \<Rightarrow> (u64 \<times> u64) list \<Rightarrow> tsc_clock" where
  "tsc_calibrate rnd windows pairs =
     (let ratios = map (\<lambda>(c0, c1, elapsed). f64_div rnd (u64_as_f64 rnd (c1 - c0)) (f64_max (f64_of_nat rnd elapsed) (rnd 1))) windows;
          samples = sort (map (\<lambda>(a, b). b - a) pairs)
      in \<lparr>tsc_cycles_per_ns = f64_max (f64_sort ratios ! 2) (rnd (1 / 10)),
          tsc_overhead_cycles = samples ! (50000 div 2)\<rparr>)"

definition tsc_delta_ns :: "(rat \<Rightarrow> f64) \<Rightarrow> tsc_clock \<Rightarrow> u64 \<Rightarrow> u64 \<Rightarrow> u64" where
  "tsc_delta_ns rnd c start end' =
     (let raw = end' - start;
          net = sat_sub raw (tsc_overhead_cycles c)
      in f64_as_u64 (f64_div rnd (u64_as_f64 rnd net) (tsc_cycles_per_ns c)))"

section \<open>Stage statistics\<close>

record stage_stats =
  ss_samples :: "u64 list"
  ss_cap :: nat
  ss_head :: nat

record stage_lat =
  sl_p50_ns :: u64
  sl_p99_ns :: u64
  sl_p999_ns :: u64
  sl_max_ns :: u64

definition stage_lat_default :: stage_lat where
  "stage_lat_default = \<lparr>sl_p50_ns = 0, sl_p99_ns = 0, sl_p999_ns = 0, sl_max_ns = 0\<rparr>"

definition ss_new :: "nat \<Rightarrow> stage_stats" where
  "ss_new cap = \<lparr>ss_samples = [], ss_cap = cap, ss_head = 0\<rparr>"

definition ss_push :: "u64 \<Rightarrow> stage_stats \<Rightarrow> stage_stats" where
  "ss_push ns s =
     (if length (ss_samples s) < ss_cap s then s\<lparr>ss_samples := ss_samples s @ [ns]\<rparr>
      else let head = ss_head s + 1
           in s\<lparr>ss_samples := (ss_samples s)[ss_head s := ns], ss_head := (if head = ss_cap s then 0 else head)\<rparr>)"

definition ss_pick :: "(rat \<Rightarrow> f64) \<Rightarrow> u64 list \<Rightarrow> rat \<Rightarrow> u64" where
  "ss_pick rnd s q =
     (let i = f64_as_nat (f64_round (f64_mul rnd (f64_sub rnd (f64_of_nat rnd (length s)) (rnd 1)) (rnd q)))
      in s ! min i (length s - 1))"

definition ss_snapshot :: "(rat \<Rightarrow> f64) \<Rightarrow> stage_stats \<Rightarrow> stage_lat" where
  "ss_snapshot rnd st =
     (if ss_samples st = [] then stage_lat_default
      else let s = sort (ss_samples st)
           in \<lparr>sl_p50_ns = ss_pick rnd s (50 / 100), sl_p99_ns = ss_pick rnd s (99 / 100),
               sl_p999_ns = ss_pick rnd s (999 / 1000), sl_max_ns = List.last s\<rparr>)"

section \<open>Engine histogram\<close>

definition leading_zeros :: "u64 \<Rightarrow> nat" where
  "leading_zeros w = 64 - floorlog 2 (unat w)"

record apply_histo =
  ah_bins :: "u64 list"

definition ah_new :: apply_histo where
  "ah_new = \<lparr>ah_bins = replicate 192 0\<rparr>"

definition ah_bin :: "u64 \<Rightarrow> nat" where
  "ah_bin ns =
     (if ns = 0 then 0
      else let lg = min (63 - leading_zeros ns) 23;
               span = push_bit lg 1 :: u64;
               frac = (if 0 < span then (ns - span) * 8 div span else 0)
           in min (lg * 8 + unat frac) (192 - 1))"

definition ah_record :: "u64 \<Rightarrow> apply_histo \<Rightarrow> apply_histo" where
  "ah_record ns h = (let bin = ah_bin ns in h\<lparr>ah_bins := (ah_bins h)[bin := sat_add (ah_bins h ! bin) 1]\<rparr>)"

section \<open>Benchmark histogram\<close>

definition bin_groups :: nat where "bin_groups = 24"

definition subbins :: nat where "subbins = 8"

definition n_bins :: nat where "n_bins = bin_groups * subbins"

record histogram =
  hg_counts :: "u64 list"
  hg_overflow :: u64
  hg_n :: u64

definition hg_new :: histogram where
  "hg_new = \<lparr>hg_counts = replicate n_bins 0, hg_overflow = 0, hg_n = 0\<rparr>"

definition hg_bin_of :: "u64 \<Rightarrow> nat" where
  "hg_bin_of ns =
     (if ns = 0 then 0
      else let group = 63 - leading_zeros ns
           in if bin_groups \<le> group then n_bins
              else let lo = push_bit group 1 :: u64;
                       span = lo;
                       sub = unat ((ns - lo) * of_nat subbins div span)
                   in group * subbins + min sub (subbins - 1))"

definition hg_lower_ns :: "nat \<Rightarrow> u64" where
  "hg_lower_ns idx =
     (let group = idx div subbins;
          sub = idx mod subbins;
          lo = push_bit group 1 :: u64;
          span = lo
      in lo + of_nat sub * span div of_nat subbins)"

definition hg_record :: "u64 \<Rightarrow> histogram \<Rightarrow> histogram" where
  "hg_record ns h =
     (let idx = hg_bin_of ns;
          h1 = (if n_bins \<le> idx then h\<lparr>hg_overflow := hg_overflow h + 1\<rparr>
                else h\<lparr>hg_counts := (hg_counts h)[idx := hg_counts h ! idx + 1]\<rparr>)
      in h1\<lparr>hg_n := hg_n h1 + 1\<rparr>)"

text \<open>The scan of \<open>percentile\<close> from bin \<open>i\<close> with the counts that are left.\<close>

fun hg_scan :: "u64 \<Rightarrow> nat \<Rightarrow> u64 \<Rightarrow> u64 list \<Rightarrow> u64" where
  "hg_scan target i acc [] = - 1"
| "hg_scan target i acc (c # cs) =
     (let acc' = acc + c in if target \<le> acc' then hg_lower_ns i else hg_scan target (i + 1) acc' cs)"

definition hg_percentile :: "(rat \<Rightarrow> f64) \<Rightarrow> rat \<Rightarrow> histogram \<Rightarrow> u64" where
  "hg_percentile rnd p h =
     (if hg_n h = 0 then 0
      else let target = f64_as_u64 (f64_ceil (f64_div rnd (f64_mul rnd (u64_as_f64 rnd (hg_n h)) (rnd p)) (rnd 100)))
           in hg_scan target 0 0 (hg_counts h))"

definition hg_max :: "histogram \<Rightarrow> u64" where
  "hg_max h =
     (if 0 < hg_overflow h then - 1
      else case List.find (\<lambda>i. 0 < hg_counts h ! i) (rev [0..<n_bins]) of
        Some i \<Rightarrow> sat_sub (hg_lower_ns (i + 1)) 1
      | None \<Rightarrow> 0)"

text \<open>One histogram per event type and an aggregate; a type outside the four only counts in the aggregate.\<close>

record per_type =
  pt_add :: histogram
  pt_cancel :: histogram
  pt_trade :: histogram
  pt_modify :: histogram
  pt_total :: histogram

definition pt_new :: per_type where
  "pt_new = \<lparr>pt_add = hg_new, pt_cancel = hg_new, pt_trade = hg_new, pt_modify = hg_new, pt_total = hg_new\<rparr>"

definition pt_record :: "u8 \<Rightarrow> u64 \<Rightarrow> per_type \<Rightarrow> per_type" where
  "pt_record evt_type ns p =
     (let p1 = p\<lparr>pt_total := hg_record ns (pt_total p)\<rparr>
      in if evt_type = event_type_code OrderAdd then p1\<lparr>pt_add := hg_record ns (pt_add p1)\<rparr>
         else if evt_type = event_type_code OrderCancel then p1\<lparr>pt_cancel := hg_record ns (pt_cancel p1)\<rparr>
         else if evt_type = event_type_code Trade then p1\<lparr>pt_trade := hg_record ns (pt_trade p1)\<rparr>
         else if evt_type = event_type_code OrderModify then p1\<lparr>pt_modify := hg_record ns (pt_modify p1)\<rparr>
         else p1)"

end
