(* ===== verification/FL_Wire.thy ===== *)
theory FL_Wire
  imports FL_Latency
begin

text \<open>
  The telemetry path: the frames of \<open>engine/src/wire.rs\<close>, the drop-counting channel of \<open>engine/src/backpressure.rs\<close>,
  the framing loop of \<open>engine/src/server.rs\<close> and, on the other end of the socket, the reader of
  \<open>api/server/engine_client.go\<close>. The two serializers are parameters, as is the bounded channel of the
  \<open>crossbeam\<close> crate.
\<close>

section \<open>Frames\<close>

definition wire_version :: u16 where
  "wire_version = 2"

record header =
  hd_source :: string
  hd_is_live :: bool
  hd_started_at_ns :: u64
  hd_symbol :: "bytes option"
  hd_instrument_id :: "u32 option"

record tick_frame =
  tk_seq :: u64
  tk_event_time_ns :: u64
  tk_process_time_ns :: u64
  tk_mid_ticks :: i64
  tk_spread_ticks :: i64
  tk_microprice_ticks :: i64
  tk_spread_bps :: f64
  tk_bid_depth :: u64
  tk_ask_depth :: u64
  tk_imbalance :: f64
  tk_vpin :: f64
  tk_trade_velocity :: f64
  tk_regime :: u8
  tk_events_per_sec :: u64
  tk_dropped_total :: u64

record wire_level =
  wl_price_ticks :: u64
  wl_qty :: u64
  wl_order_count :: u32

record book_frame =
  bf_seq :: u64
  bf_bids :: "wire_level list"
  bf_asks :: "wire_level list"

record risk_frame =
  rf_halted :: bool
  rf_reason :: "string option"
  rf_orders_sent :: u64
  rf_trades_done :: u64
  rf_otr_ratio :: f64
  rf_otr_limit :: f64
  rf_net_position :: i64
  rf_position_limit :: i64
  rf_cash_flow_ticks :: i64
  rf_daily_loss_floor_ticks :: i64
  rf_gaps_in_window :: u32
  rf_gap_threshold :: u32

record lat_frame =
  lf_parse :: stage_lat
  lf_apply :: stage_lat
  lf_analytics :: stage_lat
  lf_risk :: stage_lat
  lf_wire_out :: stage_lat
  lf_histo_apply :: "u64 list"

text \<open>The aggressor is an \<open>i8\<close> that only takes the values 1, -1 and 0.\<close>

record trade_frame =
  tf_seq :: u64
  tf_ts_ns :: u64
  tf_price_ticks :: u64
  tf_qty :: u64
  tf_aggressor :: int

record chaos_frame =
  xf_seq :: u64
  xf_kind :: string
  xf_severity :: f64
  xf_start_seq :: u64
  xf_end_seq :: u64
  xf_initiator :: "u64 option"

datatype telemetry_frame =
    FHeader header
  | FTick tick_frame
  | FBook book_frame
  | FRisk risk_frame
  | FLat lat_frame
  | FTrade trade_frame
  | FHeartbeat
  | FChaos chaos_frame

datatype codec = Bincode | Json

definition codec_parse :: "string \<Rightarrow> codec" where
  "codec_parse s = (if s = ''json'' then Json else Bincode)"

definition codec_encode :: "(telemetry_frame \<Rightarrow> string + bytes) \<Rightarrow> (telemetry_frame \<Rightarrow> string + bytes) \<Rightarrow> codec \<Rightarrow>
    telemetry_frame \<Rightarrow> string + bytes" where
  "codec_encode bincode json c frame = (case c of Bincode \<Rightarrow> bincode frame | Json \<Rightarrow> json frame)"

section \<open>The drop-counting channel\<close>

datatype send_result = Sent | Full | Disconnected

text \<open>
  A channel end is the channel itself and the counter both ends share. The parameters \<open>snd_op\<close> and \<open>rcv_op\<close> are
  \<open>Sender::try_send\<close> and \<open>Receiver::try_recv\<close>; \<open>recv\<close> waits until \<open>try_recv\<close> answers.
\<close>

record 'c link =
  lk_chan :: 'c
  lk_dropped :: u64

definition channel :: "(nat \<Rightarrow> 'c) \<Rightarrow> nat \<Rightarrow> 'c link" where
  "channel bounded capacity = \<lparr>lk_chan = bounded capacity, lk_dropped = 0\<rparr>"

definition bp_try_send :: "('t \<Rightarrow> 'c \<Rightarrow> 'c \<times> send_result) \<Rightarrow> 't \<Rightarrow> 'c link \<Rightarrow> 'c link" where
  "bp_try_send snd_op t l =
     (case snd_op t (lk_chan l) of
        (c, Sent) \<Rightarrow> l\<lparr>lk_chan := c\<rparr>
      | (c, Full) \<Rightarrow> l\<lparr>lk_chan := c, lk_dropped := lk_dropped l + 1\<rparr>
      | (c, Disconnected) \<Rightarrow> l\<lparr>lk_chan := c\<rparr>)"

definition bp_try_recv :: "('c \<Rightarrow> 'c \<times> 't option) \<Rightarrow> 'c link \<Rightarrow> 'c link \<times> 't option" where
  "bp_try_recv rcv_op l = (case rcv_op (lk_chan l) of (c, r) \<Rightarrow> (l\<lparr>lk_chan := c\<rparr>, r))"

definition bp_dropped_total :: "'c link \<Rightarrow> u64" where
  "bp_dropped_total l = lk_dropped l"

text \<open>What the documentation of \<open>crossbeam_channel::bounded\<close> promises while both ends are alive.\<close>

definition bounded_fifo :: "(nat \<Rightarrow> 'c) \<Rightarrow> ('t \<Rightarrow> 'c \<Rightarrow> 'c \<times> send_result) \<Rightarrow> ('c \<Rightarrow> 'c \<times> 't option) \<Rightarrow> ('c \<Rightarrow> 't list) \<Rightarrow> nat \<Rightarrow> bool" where
  "bounded_fifo bounded snd_op rcv_op queued cap \<longleftrightarrow>
     queued (bounded cap) = [] \<and>
     (\<forall>t c. if length (queued c) < cap then \<exists>c'. snd_op t c = (c', Sent) \<and> queued c' = queued c @ [t]
            else \<exists>c'. snd_op t c = (c', Full) \<and> queued c' = queued c) \<and>
     (\<forall>c. \<exists>c'. rcv_op c = (c', case queued c of [] \<Rightarrow> None | t # _ \<Rightarrow> Some t) \<and> queued c' = tl (queued c))"

text \<open>One use of the channel by the engine or by the server thread.\<close>

datatype 't link_op = LSend 't | LRecv

fun run_link :: "('t \<Rightarrow> 'c \<Rightarrow> 'c \<times> send_result) \<Rightarrow> ('c \<Rightarrow> 'c \<times> 't option) \<Rightarrow> 't link_op list \<Rightarrow> 'c link \<Rightarrow> 'c link \<times> 't list" where
  "run_link snd_op rcv_op [] l = (l, [])"
| "run_link snd_op rcv_op (LSend t # ops) l = run_link snd_op rcv_op ops (bp_try_send snd_op t l)"
| "run_link snd_op rcv_op (LRecv # ops) l =
     (case bp_try_recv rcv_op l of
        (l1, r) \<Rightarrow> (case run_link snd_op rcv_op ops l1 of (l2, got) \<Rightarrow> (l2, (case r of None \<Rightarrow> [] | Some t \<Rightarrow> [t]) @ got)))"

fun sends :: "'t link_op list \<Rightarrow> 't list" where
  "sends [] = []"
| "sends (LSend t # ops) = t # sends ops"
| "sends (LRecv # ops) = sends ops"

section \<open>Server framing\<close>

definition frame_bytes :: "bytes \<Rightarrow> bytes" where
  "frame_bytes payload = to_le 4 (2 + of_nat (length payload) :: u32) @ to_le 2 wire_version @ payload"

text \<open>
  One client: \<open>frames\<close> is what \<open>recv\<close> delivers until the channel closes and \<open>wr i\<close> the fate of the \<open>i\<close>-th
  \<open>write_all\<close>, which succeeds or fails after some bytes. The result is the byte stream the socket accepted, the
  frames left for the next client, and whether the loop ended with the channel (and not with an error). The log line before
  the loop asks for the address of the peer (when that log level is enabled), and a client that is already gone ends the call there:
  \<open>peer_ok\<close> tells whether this succeeds.
\<close>

fun client_loop :: "(telemetry_frame \<Rightarrow> string + bytes) \<Rightarrow> (nat \<Rightarrow> nat option) \<Rightarrow> nat \<Rightarrow> telemetry_frame list \<Rightarrow>
    bytes \<times> telemetry_frame list \<times> bool" where
  "client_loop enc wr i [] = ([], [], True)"
| "client_loop enc wr i (f # fs) =
     (case enc f of
        Inl _ \<Rightarrow> client_loop enc wr i fs
      | Inr payload \<Rightarrow>
          (case wr i of
             Some k \<Rightarrow> (take k (frame_bytes payload), fs, False)
           | None \<Rightarrow> (case client_loop enc wr (i + 1) fs of (out, rest, ok) \<Rightarrow> (frame_bytes payload @ out, rest, ok))))"

definition handle_client :: "(telemetry_frame \<Rightarrow> string + bytes) \<Rightarrow> bool \<Rightarrow> (nat \<Rightarrow> nat option) \<Rightarrow> telemetry_frame list \<Rightarrow>
    bytes \<times> telemetry_frame list \<times> bool" where
  "handle_client enc peer_ok wr frames = (if \<not> peer_ok then ([], frames, False) else client_loop enc wr 0 frames)"

section \<open>Client side\<close>

datatype client_end = ReadLen | FrameSize u32 | ReadPayload | WireVersion u16

definition supported_wire_version :: "u16 \<Rightarrow> bool" where
  "supported_wire_version ver \<longleftrightarrow> 1 \<le> ver \<and> ver \<le> 2"

text \<open>\<open>runOnce\<close> on the bytes the socket delivers before it closes: the payloads dispatched and why it stopped.\<close>

function run_once :: "bytes \<Rightarrow> bytes list \<times> client_end" where
  "run_once r =
     (if length r < 4 then ([], ReadLen)
      else let n = from_le (take 4 r) :: u32;
               body = drop 4 r
           in if n < 2 \<or> 2 ^ 20 < n then ([], FrameSize n)
              else if length body < unat n then ([], ReadPayload)
              else let ver = from_le (take 2 body) :: u16
                   in if \<not> supported_wire_version ver then ([], WireVersion ver)
                      else (case run_once (drop (unat n) body) of
                              (ps, e) \<Rightarrow> (slice 2 (unat n) body # ps, e)))"
  by pat_completeness auto
termination
  by (relation "measure length") auto

declare run_once.simps [simp del]

end
