(* ===== verification/FL_Chaos.thy ===== *)
theory FL_Chaos
  imports FL_Float FL_Event
begin

text \<open>
  What the detectors of the \<open>chaos\<close> crate share: the reported events of \<open>chaos/src/lib.rs\<close> and the
  interface through which a chain of detectors is used.
\<close>

section \<open>Reported events\<close>

datatype chaos_kind = QuoteStuff | PhantomLiquidity | Spoof | CancellationStorm | MomentumIgnition
  | FlashCrash | LatencyArbitrage

record chaos_features =
  cf_event_count :: u64
  cf_duration_ns :: u64
  cf_cancel_trade_ratio :: f64
  cf_price_displacement :: i64
  cf_depth_removed :: u64

record chaos_event =
  ce_kind :: chaos_kind
  ce_start_seq :: u64
  ce_end_seq :: u64
  ce_start_ts_ns :: u64
  ce_end_ts_ns :: u64
  ce_severity :: f64
  ce_initiator :: "u64 option"
  ce_features :: chaos_features

section \<open>The detector interface\<close>

text \<open>The flags a detector raises over a stream, in order.\<close>

fun detector_flags :: "(sequenced_event \<Rightarrow> 'd \<Rightarrow> 'd \<times> chaos_event option) \<Rightarrow> sequenced_event list \<Rightarrow> 'd \<Rightarrow> chaos_event list" where
  "detector_flags process [] d = []"
| "detector_flags process (se # ses) d =
     (case process se d of
        (d', None) \<Rightarrow> detector_flags process ses d'
      | (d', Some ce) \<Rightarrow> ce # detector_flags process ses d')"

text \<open>
  What the consumers of the flags rely on: a detector in a good state stays good, and a flag has the
  detector's kind, ends at the event that raised it and carries a normalised score.
\<close>

locale chaos_detector =
  fixes process :: "sequenced_event \<Rightarrow> 'd \<Rightarrow> 'd \<times> chaos_event option"
    and ok :: "'d \<Rightarrow> bool"
    and kind :: chaos_kind
  assumes ok_step: "ok d \<Longrightarrow> ok (fst (process se d))"
    and flag_ok: "ok d \<Longrightarrow> snd (process se d) = Some ce \<Longrightarrow>
      ce_kind ce = kind \<and> ce_end_seq ce = se_seq se \<and> unit_score (ce_severity ce)"
begin

lemma flags_ok:
  "ok d \<Longrightarrow> ce \<in> set (detector_flags process ses d) \<Longrightarrow>
   ce_kind ce = kind \<and> ce_end_seq ce \<in> se_seq ` set ses \<and> unit_score (ce_severity ce)"
proof (induction ses arbitrary: d)
  case (Cons se ses)
  obtain d' f where p: "process se d = (d', f)" by fastforce
  have "ok d'" using ok_step [OF Cons.prems(1), of se] p by simp
  with Cons p flag_ok [OF Cons.prems(1), of se ce] show ?case by (cases f) auto
qed simp

lemma flags_ordered:
  "ok d \<Longrightarrow> sorted_wrt (<) (map se_seq ses) \<Longrightarrow> sorted_wrt (<) (map ce_end_seq (detector_flags process ses d))"
proof (induction ses arbitrary: d)
  case (Cons se ses)
  obtain d' f where p: "process se d = (d', f)" by fastforce
  have d': "ok d'" using ok_step [OF Cons.prems(1), of se] p by simp
  show ?case
  proof (cases f)
    case None
    then show ?thesis using Cons d' p by simp
  next
    case (Some ce)
    have "ce_end_seq ce = se_seq se" using flag_ok [OF Cons.prems(1), of se ce] p Some by simp
    then show ?thesis using Cons.IH [OF d'] Cons.prems(2) flags_ok [OF d'] p Some by fastforce
  qed
qed simp

end

text \<open>
  Detectors that share a feed are told apart by the kind of their flags.
\<close>

definition flag_list :: "chaos_event option \<Rightarrow> chaos_event list" where
  "flag_list f = (case f of None \<Rightarrow> [] | Some ce \<Rightarrow> [ce])"

lemma flag_list_simps [simp]: "flag_list None = []" "flag_list (Some ce) = [ce]"
  by (simp_all add: flag_list_def)

lemma detector_flags_Cons:
  "detector_flags process (se # ses) d = flag_list (snd (process se d)) @ detector_flags process ses (fst (process se d))"
  by (cases "process se d"; cases "snd (process se d)") auto

context chaos_detector
begin

lemma step_kinds:
  "ok d \<Longrightarrow> filter (\<lambda>ce. ce_kind ce = k) (flag_list (snd (process se d))) = (if k = kind then flag_list (snd (process se d)) else [])"
  using flag_ok [of d se] by (cases "snd (process se d)") auto

lemma step_flags:
  "ok d \<Longrightarrow> ce \<in> set (flag_list (snd (process se d))) \<Longrightarrow>
   ce_kind ce = kind \<and> ce_end_seq ce = se_seq se \<and> unit_score (ce_severity ce)"
  using flag_ok [of d se] by (cases "snd (process se d)") auto

end

text \<open>
  Three detectors fall silent for a number of sequence numbers after a flag. Their contract adds the end of
  that period to the interface, and from it the distance of two flags follows once for all of them.
\<close>

locale refractory_detector = chaos_detector process ok kind
  for process :: "sequenced_event \<Rightarrow> 'd \<Rightarrow> 'd \<times> chaos_event option" and ok :: "'d \<Rightarrow> bool" and kind :: chaos_kind +
  fixes refractory :: "'d \<Rightarrow> u64"
    and cooldown :: "'d \<Rightarrow> u64"
  assumes cooldown_const: "cooldown (fst (process se d)) = cooldown d"
    and flag_arms: "snd (process se d) = Some ce \<Longrightarrow>
      refractory d \<le> se_seq se \<and> refractory (fst (process se d)) = sat_add (se_seq se) (cooldown d)"
    and quiet_keeps: "snd (process se d) = None \<Longrightarrow> refractory (fst (process se d)) = refractory d"
begin

lemma first_flag_late:
  "ok d \<Longrightarrow> detector_flags process ses d = ce # ces \<Longrightarrow> refractory d \<le> ce_end_seq ce"
proof (induction ses arbitrary: d)
  case (Cons se ses)
  obtain d' f where p: "process se d = (d', f)" by fastforce
  have d': "ok d'" using ok_step [OF Cons.prems(1), of se] p by simp
  show ?case
  proof (cases f)
    case None
    then show ?thesis using Cons.IH [OF d'] Cons.prems(2) quiet_keeps [of se d] p by simp
  next
    case (Some g)
    then have "ce = g" using Cons.prems(2) p by simp
    then show ?thesis using Some p flag_arms [of se d g] flag_ok [OF Cons.prems(1), of se g] by simp
  qed
qed simp

lemma flags_spaced:
  "ok d \<Longrightarrow> successively (\<lambda>f g. sat_add (ce_end_seq f) (cooldown d) \<le> ce_end_seq g) (detector_flags process ses d)"
proof (induction ses arbitrary: d)
  case (Cons se ses)
  obtain d' f where p: "process se d = (d', f)" by fastforce
  have d': "ok d'" and c: "cooldown d' = cooldown d"
    using ok_step [OF Cons.prems, of se] cooldown_const [of se d] p by simp_all
  show ?case
  proof (cases f)
    case None
    then show ?thesis using Cons.IH [OF d'] p c by simp
  next
    case (Some g)
    have "refractory d' = sat_add (ce_end_seq g) (cooldown d)"
      using Some p flag_arms [of se d g] flag_ok [OF Cons.prems, of se g] by simp
    then show ?thesis
      using Cons.IH [OF d'] first_flag_late [OF d', of ses] p c Some
      by (cases "detector_flags process ses d'") auto
  qed
qed simp

end

end
