(* ===== verification/FL_Detection.thy ===== *)
theory FL_Detection
  imports FL_Chaos
begin

text \<open>
  The two window detectors of \<open>chaos/src/detection.rs\<close>: quote stuffing (the cancel to trade ratio over the
  last events) and spoofing (large orders cancelled soon after they were placed). Each \<open>process\<close> takes a
  sequenced event and returns the new detector with the flag, if any.
\<close>

section \<open>Quote stuffing\<close>

record quote_stuff_detector =
  qs_window :: "(u64 \<times> u64 \<times> u8) list"
  qs_window_size :: nat
  qs_threshold :: f64

definition qs_new :: "nat \<Rightarrow> f64 \<Rightarrow> quote_stuff_detector" where
  "qs_new n thr = \<lparr>qs_window = [], qs_window_size = n, qs_threshold = thr\<rparr>"

definition qs_tracked :: "sequenced_event \<Rightarrow> bool" where
  "qs_tracked se \<longleftrightarrow> event_type_from_u8 (ev_event_type (se_event se)) \<in> {Some OrderAdd, Some OrderCancel, Some Trade}"

definition count_type :: "event_type \<Rightarrow> (u64 \<times> u64 \<times> u8) list \<Rightarrow> nat" where
  "count_type t w = length (filter (\<lambda>(_, _, c). c = event_type_code t) w)"

definition qs_push :: "sequenced_event \<Rightarrow> quote_stuff_detector \<Rightarrow> (u64 \<times> u64 \<times> u8) list" where
  "qs_push se d =
     (if qs_window_size d \<le> length (qs_window d) then drop 1 (qs_window d) else qs_window d)
       @ [(se_seq se, ev_ts (se_event se), ev_event_type (se_event se))]"

definition qs_flag :: "(rat \<Rightarrow> f64) \<Rightarrow> nat \<Rightarrow> f64 \<Rightarrow> (u64 \<times> u64 \<times> u8) list \<Rightarrow> sequenced_event \<Rightarrow> chaos_event option" where
  "qs_flag rnd wsize thr w se =
     (let cancels = f64_of_nat rnd (count_type OrderCancel w);
          trades = f64_of_nat rnd (max (count_type Trade w) 1);
          ratio = f64_div rnd cancels trades
      in if f64_le thr ratio \<and> wsize div 2 \<le> length w then
           let (start_seq, start_ts) = (case w of (s, t, _) # _ \<Rightarrow> (s, t) | [] \<Rightarrow> (0, 0))
           in Some \<lparr>ce_kind = QuoteStuff, ce_start_seq = start_seq, ce_end_seq = se_seq se,
                ce_start_ts_ns = start_ts, ce_end_ts_ns = ev_ts (se_event se),
                ce_severity = f64_min (f64_div rnd (f64_div rnd ratio thr) (Fin 2)) (Fin 1), ce_initiator = None,
                ce_features = \<lparr>cf_event_count = of_nat (length w),
                  cf_duration_ns = sat_sub (ev_ts (se_event se)) start_ts, cf_cancel_trade_ratio = ratio,
                  cf_price_displacement = 0, cf_depth_removed = 0\<rparr>\<rparr>
         else None)"

definition qs_process :: "(rat \<Rightarrow> f64) \<Rightarrow> sequenced_event \<Rightarrow> quote_stuff_detector \<Rightarrow>
    quote_stuff_detector \<times> chaos_event option" where
  "qs_process rnd se d =
     (if \<not> qs_tracked se then (d, None)
      else let w = qs_push se d
           in (d\<lparr>qs_window := w\<rparr>, qs_flag rnd (qs_window_size d) (qs_threshold d) w se))"

section \<open>Spoofing\<close>

record spoof_detector =
  sp_large_orders :: "(u64 \<times> u64 \<times> u64 \<times> u64) list"
  sp_large_qty_threshold :: u64
  sp_cancel_window :: u64

definition sp_new :: "u64 \<Rightarrow> u64 \<Rightarrow> spoof_detector" where
  "sp_new thr w = \<lparr>sp_large_orders = [], sp_large_qty_threshold = thr, sp_cancel_window = w\<rparr>"

fun remove_oid :: "u64 \<Rightarrow> (u64 \<times> u64 \<times> u64 \<times> u64) list \<Rightarrow>
    ((u64 \<times> u64 \<times> u64 \<times> u64) \<times> (u64 \<times> u64 \<times> u64 \<times> u64) list) option" where
  "remove_oid oid [] = None"
| "remove_oid oid ((s, t, i, q) # xs) =
     (if i = oid then Some ((s, t, i, q), xs)
      else case remove_oid oid xs of None \<Rightarrow> None | Some (x, ys) \<Rightarrow> Some (x, (s, t, i, q) # ys))"

definition sp_flag :: "(rat \<Rightarrow> f64) \<Rightarrow> u64 \<Rightarrow> u64 \<times> u64 \<times> u64 \<times> u64 \<Rightarrow> sequenced_event \<Rightarrow> chaos_event" where
  "sp_flag rnd thr entry se =
     (case entry of (add_seq, add_ts, _, qty) \<Rightarrow>
        \<lparr>ce_kind = Spoof, ce_start_seq = add_seq, ce_end_seq = se_seq se, ce_start_ts_ns = add_ts,
         ce_end_ts_ns = ev_ts (se_event se),
         ce_severity = f64_min (f64_div rnd (f64_div rnd (u64_as_f64 rnd qty) (u64_as_f64 rnd thr)) (Fin 5)) (Fin 1),
         ce_initiator = Some (ev_order_id (se_event se)),
         ce_features = \<lparr>cf_event_count = 2, cf_duration_ns = sat_sub (ev_ts (se_event se)) add_ts,
           cf_cancel_trade_ratio = Fin 0, cf_price_displacement = 0, cf_depth_removed = qty\<rparr>\<rparr>)"

definition sp_process :: "(rat \<Rightarrow> f64) \<Rightarrow> sequenced_event \<Rightarrow> spoof_detector \<Rightarrow>
    spoof_detector \<times> chaos_event option" where
  "sp_process rnd se d =
     (let e = se_event se in
      case event_type_from_u8 (ev_event_type e) of
        Some OrderAdd \<Rightarrow>
          if sp_large_qty_threshold d \<le> ev_qty e then
            (d\<lparr>sp_large_orders := filter (\<lambda>(s, _, _, _). se_seq se - s < sp_cancel_window d * 2)
                (sp_large_orders d @ [(se_seq se, ev_ts e, ev_order_id e, ev_qty e)])\<rparr>, None)
          else (d, None)
      | Some OrderCancel \<Rightarrow>
          (case remove_oid (ev_order_id e) (sp_large_orders d) of
             None \<Rightarrow> (d, None)
           | Some ((add_seq, add_ts, i, qty), rest) \<Rightarrow>
               (d\<lparr>sp_large_orders := rest\<rparr>,
                if se_seq se - add_seq \<le> sp_cancel_window d
                then Some (sp_flag rnd (sp_large_qty_threshold d) (add_seq, add_ts, i, qty) se) else None))
      | _ \<Rightarrow> (d, None))"

section \<open>Scores\<close>

lemma qs_flag_score:
  assumes "rounding rnd" "f64_le (Fin 0) thr" "qs_flag rnd n thr w se = Some ce"
  shows "unit_score (ce_severity ce)"
proof -
  let ?r = "f64_div rnd (f64_of_nat rnd (count_type OrderCancel w)) (f64_of_nat rnd (max (count_type Trade w) 1))"
  have s: "ce_severity ce = f64_min (f64_div rnd (f64_div rnd ?r thr) (Fin 2)) (Fin 1)"
    and t: "f64_le thr ?r"
    using assms(3) by (auto simp: qs_flag_def Let_def case_prod_unfold split: if_splits)
  have "f64_le (Fin 0) ?r" using f64_le_trans [OF assms(2) t] .
  then have "f64_div rnd ?r thr = NaN \<or> f64_le (Fin 0) (f64_div rnd ?r thr)"
    using f64_div_nonneg [OF assms(1) _ assms(2)] by blast
  then have "f64_div rnd (f64_div rnd ?r thr) (Fin 2) = NaN \<or> f64_le (Fin 0) (f64_div rnd (f64_div rnd ?r thr) (Fin 2))"
    using f64_div_nonneg [OF assms(1), of _ "Fin 2"] by auto
  then show ?thesis unfolding s by (rule unit_score_min)
qed

lemma sp_flag_score:
  assumes "rounding rnd"
  shows "unit_score (ce_severity (sp_flag rnd thr entry se))"
proof -
  obtain a t i q where e: "entry = (a, t, i, q)" by (cases entry)
  have "f64_div rnd (u64_as_f64 rnd q) (u64_as_f64 rnd thr) = NaN \<or>
      f64_le (Fin 0) (f64_div rnd (u64_as_f64 rnd q) (u64_as_f64 rnd thr))"
    using assms by (intro f64_div_nonneg u64_as_f64_nonneg)
  then show ?thesis
    unfolding sp_flag_def e prod.case chaos_event.select_convs
    using f64_div_nonneg [OF assms, of _ "Fin 5"] by (intro unit_score_min) auto
qed

section \<open>The detector interface\<close>

lemma sp_process_score:
  "rounding rnd \<Longrightarrow> snd (sp_process rnd se d) = Some ce \<Longrightarrow>
   ce_kind ce = Spoof \<and> ce_end_seq ce = se_seq se \<and> unit_score (ce_severity ce)"
  using sp_flag_score [of rnd "sp_large_qty_threshold d" _ se]
  by (auto simp: sp_process_def sp_flag_def Let_def split: option.splits event_type.splits if_splits)

lemma qs_process_score:
  "rounding rnd \<Longrightarrow> f64_le (Fin 0) (qs_threshold d) \<Longrightarrow> snd (qs_process rnd se d) = Some ce \<Longrightarrow>
   ce_kind ce = QuoteStuff \<and> ce_end_seq ce = se_seq se \<and> unit_score (ce_severity ce)"
  using qs_flag_score [of rnd "qs_threshold d" "qs_window_size d" "qs_push se d" se ce]
  by (auto simp: qs_process_def qs_flag_def Let_def case_prod_unfold split: if_splits)

interpretation quote_stuff: chaos_detector "qs_process rnd" "\<lambda>d. rounding rnd \<and> f64_le (Fin 0) (qs_threshold d)" QuoteStuff
  for rnd
  by unfold_locales (use qs_process_score in \<open>auto simp: qs_process_def Let_def\<close>)

interpretation spoof: chaos_detector "sp_process rnd" "\<lambda>d. rounding rnd" Spoof for rnd
  by unfold_locales (use sp_process_score in auto)

end
