(* ===== verification/FL_DetectionProperties.thy ===== *)
theory FL_DetectionProperties
  imports FL_Detection
begin

text \<open>
  The window detectors agree with definitions over the whole history: quote stuffing judges exactly the
  last tracked events, and spoofing flags exactly the large orders cancelled within the window.
\<close>

section \<open>Quote stuffing over a history\<close>

definition qs_run :: "(rat \<Rightarrow> f64) \<Rightarrow> nat \<Rightarrow> f64 \<Rightarrow> sequenced_event list \<Rightarrow> quote_stuff_detector" where
  "qs_run rnd n thr hs = fold (\<lambda>se d. fst (qs_process rnd se d)) hs (qs_new n thr)"

definition qs_entry :: "sequenced_event \<Rightarrow> u64 \<times> u64 \<times> u8" where
  "qs_entry se = (se_seq se, ev_ts (se_event se), ev_event_type (se_event se))"

definition last_n :: "nat \<Rightarrow> 'a list \<Rightarrow> 'a list" where
  "last_n k xs = drop (length xs - k) xs"

lemma last_n_snoc:
  "0 < k \<Longrightarrow> last_n k (xs @ [x]) = (if k \<le> length (last_n k xs) then drop 1 (last_n k xs) else last_n k xs) @ [x]"
  by (auto simp: last_n_def Suc_diff_le)

lemma qs_run_fields: "qs_window_size (qs_run rnd n thr hs) = n \<and> qs_threshold (qs_run rnd n thr hs) = thr"
  by (induction hs rule: rev_induct) (auto simp: qs_run_def qs_new_def qs_process_def Let_def)

lemma qs_push_last_n:
  assumes "qs_window d = last_n (max 1 n) (map qs_entry hs)" "qs_window_size d = n"
  shows "qs_push se d = last_n (max 1 n) (map qs_entry hs @ [qs_entry se])"
proof (cases "n = 0")
  case True
  then show ?thesis using assms by (cases hs rule: rev_cases) (auto simp: qs_push_def qs_entry_def last_n_def)
next
  case False
  then have n: "max 1 n = n" by simp
  show ?thesis using assms False unfolding n by (subst last_n_snoc) (auto simp: qs_push_def qs_entry_def)
qed

lemma qs_run_window: "qs_window (qs_run rnd n thr hs) = last_n (max 1 n) (map qs_entry (filter qs_tracked hs))"
proof (induction hs rule: rev_induct)
  case Nil
  then show ?case by (simp add: qs_run_def qs_new_def last_n_def)
next
  case (snoc se hs)
  let ?d = "qs_run rnd n thr hs"
  have s: "qs_run rnd n thr (hs @ [se]) = fst (qs_process rnd se ?d)" by (simp add: qs_run_def)
  show ?case
    using qs_push_last_n [OF snoc.IH, of se] qs_run_fields [of rnd n thr hs]
    by (cases "qs_tracked se") (simp_all add: s snoc.IH qs_process_def Let_def)
qed

section \<open>Spoofing over a history\<close>

definition sp_run :: "(rat \<Rightarrow> f64) \<Rightarrow> u64 \<Rightarrow> u64 \<Rightarrow> sequenced_event list \<Rightarrow> spoof_detector" where
  "sp_run rnd thr w hs = fold (\<lambda>se d. fst (sp_process rnd se d)) hs (sp_new thr w)"

definition se_type :: "sequenced_event \<Rightarrow> event_type option" where
  "se_type se = event_type_from_u8 (ev_event_type (se_event se))"

abbreviation se_oid :: "sequenced_event \<Rightarrow> u64" where
  "se_oid se \<equiv> ev_order_id (se_event se)"

definition large_add :: "u64 \<Rightarrow> sequenced_event \<Rightarrow> bool" where
  "large_add thr se \<longleftrightarrow> se_type se = Some OrderAdd \<and> thr \<le> ev_qty (se_event se)"

definition sp_entry :: "sequenced_event \<Rightarrow> u64 \<times> u64 \<times> u64 \<times> u64" where
  "sp_entry se = (se_seq se, ev_ts (se_event se), se_oid se, ev_qty (se_event se))"

text \<open>No event of the history cancels the order after it was placed.\<close>

definition uncancelled :: "sequenced_event list \<Rightarrow> sequenced_event \<Rightarrow> bool" where
  "uncancelled hs a \<longleftrightarrow>
     \<not> (\<exists>c \<in> set hs. se_seq a < se_seq c \<and> se_type c = Some OrderCancel \<and> se_oid c = se_oid a)"

lemma uncancelled_snoc:
  "uncancelled (hs @ [se]) a \<longleftrightarrow>
   uncancelled hs a \<and> \<not> (se_seq a < se_seq se \<and> se_type se = Some OrderCancel \<and> se_oid se = se_oid a)"
  by (auto simp: uncancelled_def)

definition entry_oid :: "u64 \<times> u64 \<times> u64 \<times> u64 \<Rightarrow> u64" where
  "entry_oid x = fst (snd (snd x))"

abbreviation oids :: "(u64 \<times> u64 \<times> u64 \<times> u64) list \<Rightarrow> u64 list" where
  "oids xs \<equiv> map entry_oid xs"

lemma entry_oid_simps [simp]: "entry_oid (s, t, i, q) = i" "entry_oid (sp_entry se) = se_oid se"
  by (simp_all add: entry_oid_def sp_entry_def)

lemma remove_oid_None: "remove_oid oid xs = None \<longleftrightarrow> oid \<notin> entry_oid ` set xs"
  by (induction oid xs rule: remove_oid.induct) (auto split: option.splits)

lemma remove_oid_Some:
  "remove_oid oid xs = Some (x, ys) \<Longrightarrow> distinct (oids xs) \<Longrightarrow>
   x \<in> set xs \<and> entry_oid x = oid \<and> set ys = {y \<in> set xs. entry_oid y \<noteq> oid} \<and> distinct (oids ys)"
proof (induction oid xs arbitrary: ys rule: remove_oid.induct)
  case (2 oid s t i q xs)
  show ?case
  proof (cases "i = oid")
    case True
    with 2 have "x = (s, t, i, q)" "ys = xs" "\<forall>y \<in> set xs. entry_oid y \<noteq> oid" by (auto simp: image_iff)
    with True 2(3) show ?thesis by auto
  next
    case False
    with 2(2) obtain zs where zs: "remove_oid oid xs = Some (x, zs)" "ys = (s, t, i, q) # zs"
      by (auto split: option.splits)
    with 2(1) [OF False zs(1)] 2(3) False show ?thesis by auto
  qed
qed simp

definition sp_inv :: "u64 \<Rightarrow> u64 \<Rightarrow> sequenced_event list \<Rightarrow> (u64 \<times> u64 \<times> u64 \<times> u64) list \<Rightarrow> bool" where
  "sp_inv thr w hs xs \<longleftrightarrow>
     (\<forall>x \<in> set xs. \<exists>a \<in> set hs. large_add thr a \<and> x = sp_entry a \<and> uncancelled hs a) \<and>
     (\<forall>a \<in> set hs. large_add thr a \<and> uncancelled hs a \<and>
        (\<forall>b \<in> set hs. unat (se_seq b) < unat (se_seq a) + 2 * unat w) \<longrightarrow> sp_entry a \<in> set xs) \<and>
     distinct (oids xs)"

lemma unat_double: "w < 2 ^ 63 \<Longrightarrow> unat (w * 2 :: u64) = 2 * unat w"
proof -
  assume "w < 2 ^ 63"
  then have "unat w < 2 ^ 63" by (simp add: word_less_nat_alt)
  then show "unat (w * 2) = 2 * unat w" by (simp add: unat_word_ariths)
qed

lemma seq_gap_less:
  "s \<le> n \<Longrightarrow> w < 2 ^ 63 \<Longrightarrow> n - s < w * 2 \<longleftrightarrow> unat n < unat (s :: u64) + 2 * unat w"
  by (auto simp: word_less_nat_alt word_le_nat_alt unat_sub unat_double)

lemma sp_process_add:
  "large_add (sp_large_qty_threshold d) se \<Longrightarrow>
   fst (sp_process rnd se d) = d\<lparr>sp_large_orders := filter (\<lambda>x. se_seq se - fst x < sp_cancel_window d * 2)
      (sp_large_orders d @ [sp_entry se])\<rparr>"
  by (simp add: sp_process_def large_add_def se_type_def sp_entry_def Let_def case_prod_unfold)

lemma sp_process_cancel:
  "se_type se = Some OrderCancel \<Longrightarrow>
   sp_process rnd se d =
     (case remove_oid (se_oid se) (sp_large_orders d) of
        None \<Rightarrow> (d, None)
      | Some (x, rest) \<Rightarrow> (d\<lparr>sp_large_orders := rest\<rparr>,
          if se_seq se - fst x \<le> sp_cancel_window d then Some (sp_flag rnd (sp_large_qty_threshold d) x se) else None))"
  by (simp add: sp_process_def se_type_def Let_def split: option.splits)

lemma sp_process_other:
  "\<not> large_add (sp_large_qty_threshold d) se \<Longrightarrow> se_type se \<noteq> Some OrderCancel \<Longrightarrow> sp_process rnd se d = (d, None)"
  by (simp add: sp_process_def large_add_def se_type_def Let_def split: option.splits event_type.splits)

lemma sp_process_no_flag: "se_type se \<noteq> Some OrderCancel \<Longrightarrow> snd (sp_process rnd se d) = None"
  by (simp add: sp_process_def se_type_def Let_def split: option.splits event_type.splits)

text \<open>
  The feed's own guarantees: sequence numbers grow and a large order does not reuse the id of another.
\<close>

definition sp_stream :: "u64 \<Rightarrow> sequenced_event list \<Rightarrow> bool" where
  "sp_stream thr hs \<longleftrightarrow> sorted_wrt (<) (map se_seq hs) \<and> distinct (map se_oid (filter (large_add thr) hs))"

lemma sp_stream_prefix: "sp_stream thr (hs @ [se]) \<Longrightarrow> sp_stream thr hs"
  by (auto simp: sp_stream_def sorted_wrt_append)

lemma sp_stream_earlier: "sp_stream thr (hs @ [se]) \<Longrightarrow> a \<in> set hs \<Longrightarrow> se_seq a < se_seq se"
  by (simp add: sp_stream_def sorted_wrt_append)

lemma sp_stream_fresh:
  "sp_stream thr (hs @ [se]) \<Longrightarrow> large_add thr se \<Longrightarrow> a \<in> set hs \<Longrightarrow> large_add thr a \<Longrightarrow> se_oid a \<noteq> se_oid se"
  by (auto simp: sp_stream_def image_iff)

lemma sp_inv_add:
  assumes inv: "sp_inv thr w hs xs" and st: "sp_stream thr (hs @ [se])" and w: "w < 2 ^ 63" and se: "large_add thr se"
  shows "sp_inv thr w (hs @ [se]) (filter (\<lambda>x. se_seq se - fst x < w * 2) (xs @ [sp_entry se]))"
proof -
  let ?ys = "filter (\<lambda>x. se_seq se - fst x < w * 2) (xs @ [sp_entry se])"
  have nc: "se_type se \<noteq> Some OrderCancel" using se by (simp add: large_add_def)
  have un: "uncancelled (hs @ [se]) a \<longleftrightarrow> uncancelled hs a" for a using nc by (simp add: uncancelled_snoc)
  have un_se: "uncancelled hs se" using sp_stream_earlier [OF st] by (force simp: uncancelled_def)
  have "se_oid se \<notin> entry_oid ` set xs"
  proof
    assume "se_oid se \<in> entry_oid ` set xs"
    then obtain x where x: "x \<in> set xs" "entry_oid x = se_oid se" by auto
    then obtain a where "a \<in> set hs" "large_add thr a" "x = sp_entry a" using inv unfolding sp_inv_def by blast
    with sp_stream_fresh [OF st se] x(2) show False by simp
  qed
  then have d: "distinct (oids ?ys)"
    using inv by (auto simp: sp_inv_def distinct_map_filter)
  have kept: "sp_entry a \<in> set ?ys"
    if a: "a \<in> set (hs @ [se])" "large_add thr a" "uncancelled (hs @ [se]) a"
      "\<forall>b \<in> set (hs @ [se]). unat (se_seq b) < unat (se_seq a) + 2 * unat w" for a
  proof -
    have "se_seq a \<le> se_seq se" using a(1) sp_stream_earlier [OF st] by fastforce
    then have "se_seq se - fst (sp_entry a) < w * 2"
      using a(4) by (simp add: sp_entry_def seq_gap_less [OF _ w])
    moreover have "sp_entry a \<in> set (xs @ [sp_entry se])"
      using a inv un unfolding sp_inv_def by auto
    ultimately show ?thesis unfolding set_filter by blast
  qed
  have "\<exists>a \<in> set (hs @ [se]). large_add thr a \<and> x = sp_entry a \<and> uncancelled (hs @ [se]) a" if "x \<in> set ?ys" for x
    using that inv se un_se un unfolding sp_inv_def by (auto split: if_splits)
  with kept d show ?thesis unfolding sp_inv_def by blast
qed

lemma sp_inv_cancel:
  assumes inv: "sp_inv thr w hs xs" and st: "sp_stream thr (hs @ [se])" and se: "se_type se = Some OrderCancel"
    and ys: "set ys = {y \<in> set xs. entry_oid y \<noteq> se_oid se}" "distinct (oids ys)"
  shows "sp_inv thr w (hs @ [se]) ys"
proof -
  have nl: "\<not> large_add thr se" using se by (simp add: large_add_def)
  have un: "uncancelled (hs @ [se]) a \<longleftrightarrow> uncancelled hs a \<and> se_oid a \<noteq> se_oid se" if "a \<in> set hs" for a
    using se sp_stream_earlier [OF st that] by (auto simp: uncancelled_snoc)
  have "\<exists>a \<in> set (hs @ [se]). large_add thr a \<and> x = sp_entry a \<and> uncancelled (hs @ [se]) a" if x: "x \<in> set ys" for x
  proof -
    obtain a where "a \<in> set hs" "large_add thr a" "x = sp_entry a" "uncancelled hs a"
      using inv x ys(1) unfolding sp_inv_def by auto
    with un x ys(1) show ?thesis by force
  qed
  moreover have "sp_entry a \<in> set ys"
    if "a \<in> set (hs @ [se])" "large_add thr a" "uncancelled (hs @ [se]) a"
      "\<forall>b \<in> set (hs @ [se]). unat (se_seq b) < unat (se_seq a) + 2 * unat w" for a
  proof -
    have a: "a \<in> set hs" using that nl by auto
    with that un have "sp_entry a \<in> set xs" using inv unfolding sp_inv_def by auto
    then show ?thesis using un [OF a] that(3) ys(1) by simp
  qed
  ultimately show ?thesis using ys(2) unfolding sp_inv_def by blast
qed

lemma sp_inv_other:
  assumes inv: "sp_inv thr w hs xs" and "\<not> large_add thr se" "se_type se \<noteq> Some OrderCancel"
  shows "sp_inv thr w (hs @ [se]) xs"
proof -
  have "uncancelled (hs @ [se]) a \<longleftrightarrow> uncancelled hs a" for a using assms(3) by (simp add: uncancelled_snoc)
  with assms(1,2) show ?thesis unfolding sp_inv_def by auto
qed

lemma sp_run_inv:
  "sp_stream thr hs \<Longrightarrow> w < 2 ^ 63 \<Longrightarrow>
   sp_inv thr w hs (sp_large_orders (sp_run rnd thr w hs)) \<and>
   sp_large_qty_threshold (sp_run rnd thr w hs) = thr \<and> sp_cancel_window (sp_run rnd thr w hs) = w"
proof (induction hs rule: rev_induct)
  case Nil
  then show ?case by (simp add: sp_run_def sp_new_def sp_inv_def)
next
  case (snoc se hs)
  let ?d = "sp_run rnd thr w hs"
  have s: "sp_run rnd thr w (hs @ [se]) = fst (sp_process rnd se ?d)" by (simp add: sp_run_def)
  have IH: "sp_inv thr w hs (sp_large_orders ?d)" and f: "sp_large_qty_threshold ?d = thr" "sp_cancel_window ?d = w"
    using snoc.IH [OF sp_stream_prefix [OF snoc.prems(1)] snoc.prems(2)] by auto
  consider "large_add thr se" | "se_type se = Some OrderCancel" | "\<not> large_add thr se" "se_type se \<noteq> Some OrderCancel"
    by blast
  then show ?case
  proof cases
    case 1
    with sp_inv_add [OF IH snoc.prems 1] show ?thesis
      unfolding s using sp_process_add [of ?d se rnd] f by simp
  next
    case 2
    show ?thesis
    proof (cases "remove_oid (se_oid se) (sp_large_orders ?d)")
      case None
      then have "set (sp_large_orders ?d) = {y \<in> set (sp_large_orders ?d). entry_oid y \<noteq> se_oid se}"
        by (auto simp: remove_oid_None image_iff)
      with sp_inv_cancel [OF IH snoc.prems(1) 2] IH f None show ?thesis
        unfolding s by (simp add: sp_process_cancel [OF 2] sp_inv_def)
    next
      case (Some p)
      obtain x ys where p: "p = (x, ys)" by (cases p)
      have "distinct (oids (sp_large_orders ?d))" using IH by (simp add: sp_inv_def)
      from remove_oid_Some [OF Some [unfolded p] this] sp_inv_cancel [OF IH snoc.prems(1) 2, of ys] f show ?thesis
        unfolding s by (simp add: sp_process_cancel [OF 2] Some p)
    qed
  next
    case 3
    with sp_inv_other [OF IH 3] f show ?thesis unfolding s by (simp add: sp_process_other)
  qed
qed

lemma sp_hit:
  assumes st: "sp_stream thr (hs @ [se])" and w: "w < 2 ^ 63" and se: "se_type se = Some OrderCancel"
    and a: "a \<in> set hs" "large_add thr a" "uncancelled hs a" "se_oid a = se_oid se" "se_seq se - se_seq a \<le> w"
  shows "snd (sp_process rnd se (sp_run rnd thr w hs)) = Some (sp_flag rnd thr (sp_entry a) se)"
proof -
  let ?d = "sp_run rnd thr w hs"
  have inv: "sp_inv thr w hs (sp_large_orders ?d)" and f: "sp_large_qty_threshold ?d = thr" "sp_cancel_window ?d = w"
    using sp_run_inv [OF sp_stream_prefix [OF st] w] by auto
  have "se_seq a < se_seq se" using sp_stream_earlier [OF st a(1)] .
  then have gap: "unat (se_seq se) \<le> unat (se_seq a) + unat w" "unat (se_seq a) < unat (se_seq se)"
    using a(5) by (auto simp: word_le_nat_alt word_less_nat_alt unat_sub)
  have "\<forall>b \<in> set hs. unat (se_seq b) < unat (se_seq a) + 2 * unat w"
    using gap sp_stream_earlier [OF st] by (fastforce simp: word_less_nat_alt)
  then have mem: "sp_entry a \<in> set (sp_large_orders ?d)" using inv a unfolding sp_inv_def by blast
  then have "se_oid se \<in> entry_oid ` set (sp_large_orders ?d)" using a(4) by (metis entry_oid_simps(2) imageI)
  then obtain x ys where r: "remove_oid (se_oid se) (sp_large_orders ?d) = Some (x, ys)"
    using remove_oid_None [of "se_oid se"] by fastforce
  have d: "distinct (oids (sp_large_orders ?d))" using inv by (simp add: sp_inv_def)
  have "x = sp_entry a"
    using remove_oid_Some [OF r d] mem a(4) d by (simp add: distinct_map inj_on_def)
  then show ?thesis using a(5) f by (simp add: sp_process_cancel [OF se] r) (simp add: sp_entry_def)
qed

lemma sp_sound:
  assumes st: "sp_stream thr (hs @ [se])" and w: "w < 2 ^ 63"
    and flag: "snd (sp_process rnd se (sp_run rnd thr w hs)) = Some f"
  shows "se_type se = Some OrderCancel \<and> (\<exists>a \<in> set hs. large_add thr a \<and> uncancelled hs a \<and> se_oid a = se_oid se \<and>
    se_seq se - se_seq a \<le> w \<and> f = sp_flag rnd thr (sp_entry a) se)"
proof -
  let ?d = "sp_run rnd thr w hs"
  have inv: "sp_inv thr w hs (sp_large_orders ?d)" and f: "sp_large_qty_threshold ?d = thr" "sp_cancel_window ?d = w"
    using sp_run_inv [OF sp_stream_prefix [OF st] w] by auto
  have se: "se_type se = Some OrderCancel" using flag sp_process_no_flag by fastforce
  obtain x ys where r: "remove_oid (se_oid se) (sp_large_orders ?d) = Some (x, ys)"
    using flag by (auto simp: sp_process_cancel [OF se] split: option.splits)
  have x: "x \<in> set (sp_large_orders ?d)" "entry_oid x = se_oid se"
    using remove_oid_Some [OF r] inv by (auto simp: sp_inv_def)
  obtain a where a: "a \<in> set hs" "large_add thr a" "x = sp_entry a" "uncancelled hs a"
    using inv x(1) unfolding sp_inv_def by blast
  have "se_seq se - se_seq a \<le> w" "f = sp_flag rnd thr x se"
    using flag f a(3) by (auto simp: sp_process_cancel [OF se] r sp_entry_def split: if_splits)
  with se a x(2) show ?thesis by auto
qed

section \<open>Properties\<close>

text \<open>
  The spoofing detector is exact. On any feed with growing sequence numbers whose large
  orders have distinct ids, and for any cancel window below \<open>2 ^ 63\<close>, the event after a history is
  flagged exactly when it cancels a large order of the history that was placed at most the window before
  and not cancelled in between, and the flag describes that order. In particular the pruning of old
  entries loses no flag.
\<close>

theorem spoof_flags_exactly:
  assumes "sp_stream thr (hs @ [se])" "w < 2 ^ 63"
  shows "snd (sp_process rnd se (sp_run rnd thr w hs)) = Some f \<longleftrightarrow>
    se_type se = Some OrderCancel \<and> (\<exists>a \<in> set hs. large_add thr a \<and> uncancelled hs a \<and> se_oid a = se_oid se \<and>
      se_seq se - se_seq a \<le> w \<and> f = sp_flag rnd thr (sp_entry a) se)"
  using sp_sound [OF assms] sp_hit [OF assms] by blast

definition sample_add :: sequenced_event where
  "sample_add = \<lparr>se_seq = 7, se_channel_id = 0, se_event = event_zeroed\<lparr>ev_event_type := 1, ev_order_id := 42,
     ev_qty := 5000\<rparr>\<rparr>"

definition sample_cancel :: sequenced_event where
  "sample_cancel = \<lparr>se_seq = 9, se_channel_id = 0, se_event = event_zeroed\<lparr>ev_event_type := 2, ev_order_id := 42\<rparr>\<rparr>"

theorem spoof_flags_exactly_witness:
  "snd (sp_process Fin sample_cancel (sp_run Fin 1000 64 [sample_add]))
     = Some (sp_flag Fin 1000 (sp_entry sample_add) sample_cancel)"
proof -
  have "sp_stream 1000 ([sample_add] @ [sample_cancel])"
    by (simp add: sp_stream_def sample_add_def sample_cancel_def large_add_def se_type_def event_type_from_u8_def)
  then show ?thesis
    by (subst spoof_flags_exactly)
      (simp_all add: sample_add_def sample_cancel_def large_add_def se_type_def event_type_from_u8_def uncancelled_def)
qed

text \<open>
  The quote-stuffing detector is a function of the recent past. After any history, an event
  of a tracked type is judged on exactly the last \<open>window_size\<close> tracked events, itself included (one event
  when the size is 0), any other event is ignored, and every flag carries a severity between 0 and 1 when
  the threshold is not negative.
\<close>

theorem quote_stuff_exact:
  assumes "rounding rnd" "f64_le (Fin 0) thr"
  shows "snd (qs_process rnd se (qs_run rnd n thr hs)) =
      (if qs_tracked se
       then qs_flag rnd n thr (last_n (max 1 n) (map qs_entry (filter qs_tracked (hs @ [se])))) se else None) \<and>
    (\<forall>ce. snd (qs_process rnd se (qs_run rnd n thr hs)) = Some ce \<longrightarrow> unit_score (ce_severity ce))"
proof -
  have f: "qs_window_size (qs_run rnd n thr hs) = n" "qs_threshold (qs_run rnd n thr hs) = thr"
    using qs_run_fields by auto
  have r: "snd (qs_process rnd se (qs_run rnd n thr hs)) =
      (if qs_tracked se
       then qs_flag rnd n thr (last_n (max 1 n) (map qs_entry (filter qs_tracked (hs @ [se])))) se else None)"
    using qs_push_last_n [OF qs_run_window f(1), of se] f by (simp add: qs_process_def Let_def)
  show ?thesis using qs_flag_score [OF assms] unfolding r by (auto split: if_splits)
qed

theorem quote_stuff_exact_witness:
  "\<exists>ce. snd (qs_process Fin sample_cancel (qs_run Fin 2 (Fin 1) [sample_add])) = Some ce \<and> unit_score (ce_severity ce)"
proof -
  have "snd (qs_process Fin sample_cancel (qs_run Fin 2 (Fin 1) [sample_add])) =
      qs_flag Fin 2 (Fin 1) [(7, 0, 1), (9, 0, 2)] sample_cancel"
    using quote_stuff_exact [of Fin "Fin 1" sample_cancel 2 "[sample_add]"] rounding_Fin
    by (simp add: sample_add_def sample_cancel_def qs_tracked_def event_type_from_u8_def last_n_def qs_entry_def event_zeroed_def)
  then show ?thesis
    by (simp add: qs_flag_def count_type_def f64_of_nat_def f64_min_def unit_score_def Let_def)
qed

end
