(* ===== verification/FL_Phantom.thy ===== *)
theory FL_Phantom
  imports FL_Chaos "HOL-Library.Product_Lexorder"
begin

text \<open>
  The phantom-liquidity detector of \<open>chaos/src/phantom_liquidity.rs\<close>. The hash maps are finite maps; where
  \<open>evict_oldest\<close> scans one for the smallest creation sequence number, ties go to the smallest key (on a
  feed with growing sequence numbers there are none).
\<close>

record level_tracker =
  lt_created_seq :: u64
  lt_created_ts :: u64
  lt_added_qty :: u64
  lt_cancelled_qty :: u64
  lt_order_count :: u32
  lt_cancel_count :: u32

record phantom_detector =
  pd_levels :: "(u8 \<times> u64, level_tracker) omap"
  pd_orders :: "(u64, u8 \<times> u64) omap"
  pd_max_seq_gap :: u64
  pd_max_time_gap_ns :: u64
  pd_max_tracked :: nat
  pd_min_qty :: u64

definition fully_cancelled :: "level_tracker \<Rightarrow> bool" where
  "fully_cancelled t \<longleftrightarrow> lt_added_qty t \<le> lt_cancelled_qty t \<and> lt_order_count t \<le> lt_cancel_count t"

definition pd_new :: "u64 \<Rightarrow> u64 \<Rightarrow> nat \<Rightarrow> u64 \<Rightarrow> phantom_detector" where
  "pd_new seq_gap time_gap tracked qty =
     \<lparr>pd_levels = om_empty, pd_orders = om_empty, pd_max_seq_gap = seq_gap, pd_max_time_gap_ns = time_gap,
      pd_max_tracked = tracked, pd_min_qty = qty\<rparr>"

definition tracked_levels :: "phantom_detector \<Rightarrow> nat" where
  "tracked_levels d = om_size (pd_levels d)"

fun min_created :: "('k \<times> level_tracker) list \<Rightarrow> ('k \<times> level_tracker) option" where
  "min_created [] = None"
| "min_created ((k, t) # xs) =
     (case min_created xs of
        None \<Rightarrow> Some (k, t)
      | Some (k', t') \<Rightarrow> if lt_created_seq t \<le> lt_created_seq t' then Some (k, t) else Some (k', t'))"

definition evict_oldest :: "phantom_detector \<Rightarrow> phantom_detector" where
  "evict_oldest d =
     (case min_created (om_entries (pd_levels d)) of
        None \<Rightarrow> d
      | Some (k, _) \<Rightarrow> d\<lparr>pd_levels := om_remove k (pd_levels d)\<rparr>)"

definition pd_on_add :: "sequenced_event \<Rightarrow> phantom_detector \<Rightarrow> phantom_detector" where
  "pd_on_add se d =
     (let e = se_event se;
          d1 = (if pd_max_tracked d \<le> om_size (pd_levels d) then evict_oldest d else d);
          key = (ev_side e, ev_price e);
          t' = (case om_lookup (pd_levels d1) key of
                  Some t \<Rightarrow> t\<lparr>lt_added_qty := sat_add (lt_added_qty t) (ev_qty e),
                              lt_order_count := sat_add (lt_order_count t) 1\<rparr>
                | None \<Rightarrow> \<lparr>lt_created_seq = se_seq se, lt_created_ts = ev_ts e, lt_added_qty = ev_qty e,
                            lt_cancelled_qty = 0, lt_order_count = 1, lt_cancel_count = 0\<rparr>);
          d2 = d1\<lparr>pd_levels := om_insert key t' (pd_levels d1)\<rparr>
      in if ev_order_id e \<noteq> 0 then d2\<lparr>pd_orders := om_insert (ev_order_id e) key (pd_orders d2)\<rparr> else d2)"

text \<open>The key of a cancel and the detector after the one-shot removal of the order id.\<close>

definition pd_resolve :: "event \<Rightarrow> phantom_detector \<Rightarrow> phantom_detector \<times> (u8 \<times> u64) option" where
  "pd_resolve e d =
     (if ev_order_id e \<noteq> 0
      then (d\<lparr>pd_orders := om_remove (ev_order_id e) (pd_orders d)\<rparr>, om_lookup (pd_orders d) (ev_order_id e))
      else (d, Some (ev_side e, ev_price e)))"

definition removed_qty :: "event \<Rightarrow> level_tracker \<Rightarrow> u64" where
  "removed_qty e t =
     (if ev_qty e = 0
      then max (sat_sub (lt_added_qty t) (lt_cancelled_qty t)) 1 div ucast (max (lt_order_count t) 1)
      else ev_qty e)"

definition note_cancel :: "event \<Rightarrow> level_tracker \<Rightarrow> level_tracker" where
  "note_cancel e t = t\<lparr>lt_cancelled_qty := sat_add (lt_cancelled_qty t) (removed_qty e t),
     lt_cancel_count := sat_add (lt_cancel_count t) 1\<rparr>"

definition gap_score :: "(rat \<Rightarrow> f64) \<Rightarrow> u64 \<Rightarrow> u64 \<Rightarrow> f64" where
  "gap_score rnd gap limit =
     (if 0 < limit then f64_sub rnd (Fin 1) (f64_div rnd (u64_as_f64 rnd gap) (u64_as_f64 rnd limit)) else Fin 0)"

definition pd_judge :: "(rat \<Rightarrow> f64) \<Rightarrow> phantom_detector \<Rightarrow> sequenced_event \<Rightarrow> level_tracker \<Rightarrow> chaos_event option" where
  "pd_judge rnd d se t =
     (let e = se_event se;
          seq_gap = sat_sub (se_seq se) (lt_created_seq t);
          time_gap = sat_sub (ev_ts e) (lt_created_ts t);
          inside_seq = (0 < pd_max_seq_gap d \<and> seq_gap \<le> pd_max_seq_gap d);
          inside_time = (0 < pd_max_time_gap_ns d \<and> time_gap \<le> pd_max_time_gap_ns d)
      in if lt_added_qty t < pd_min_qty d then None
         else if \<not> (inside_seq \<or> inside_time) then None
         else Some \<lparr>ce_kind = PhantomLiquidity, ce_start_seq = lt_created_seq t, ce_end_seq = se_seq se,
           ce_start_ts_ns = lt_created_ts t, ce_end_ts_ns = ev_ts e,
           ce_severity = f64_clamp (Fin 0) (Fin 1)
             (f64_max (gap_score rnd seq_gap (pd_max_seq_gap d)) (gap_score rnd time_gap (pd_max_time_gap_ns d))),
           ce_initiator = None,
           ce_features = \<lparr>cf_event_count = ucast (lt_order_count t + lt_cancel_count t), cf_duration_ns = time_gap,
             cf_cancel_trade_ratio = PInf, cf_price_displacement = 0, cf_depth_removed = lt_cancelled_qty t\<rparr>\<rparr>)"

definition pd_on_cancel :: "(rat \<Rightarrow> f64) \<Rightarrow> sequenced_event \<Rightarrow> phantom_detector \<Rightarrow>
    phantom_detector \<times> chaos_event option" where
  "pd_on_cancel rnd se d =
     (let e = se_event se in
      case pd_resolve e d of
        (d1, None) \<Rightarrow> (d1, None)
      | (d1, Some key) \<Rightarrow>
          (case om_lookup (pd_levels d1) key of
             None \<Rightarrow> (d1, None)
           | Some t0 \<Rightarrow>
               let t = note_cancel e t0
               in if \<not> fully_cancelled t then (d1\<lparr>pd_levels := om_insert key t (pd_levels d1)\<rparr>, None)
                  else (d1\<lparr>pd_levels := om_remove key (pd_levels d1)\<rparr>, pd_judge rnd d1 se t)))"

definition pd_process :: "(rat \<Rightarrow> f64) \<Rightarrow> sequenced_event \<Rightarrow> phantom_detector \<Rightarrow>
    phantom_detector \<times> chaos_event option" where
  "pd_process rnd se d =
     (let e = se_event se in
      case event_type_from_u8 (ev_event_type e) of
        None \<Rightarrow> (d, None)
      | Some OrderAdd \<Rightarrow> (pd_on_add se d, None)
      | Some OrderCancel \<Rightarrow> pd_on_cancel rnd se d
      | Some OrderModify \<Rightarrow> (let (d1, flagged) = pd_on_cancel rnd se d in (pd_on_add se d1, flagged))
      | Some Trade \<Rightarrow> (d\<lparr>pd_levels := om_remove (ev_side e, ev_price e) (pd_levels d)\<rparr>, None)
      | Some BookSnapshot \<Rightarrow> (d, None))"

definition pd_run :: "(rat \<Rightarrow> f64) \<Rightarrow> sequenced_event list \<Rightarrow> phantom_detector \<Rightarrow> phantom_detector" where
  "pd_run rnd ses d = fold (\<lambda>se d. fst (pd_process rnd se d)) ses d"

section \<open>Bounds on the trackers\<close>

lemma min_created_mem: "min_created xs = Some (k, t) \<Longrightarrow> (k, t) \<in> set xs"
  by (induction xs arbitrary: k t rule: min_created.induct) (auto split: option.splits if_splits)

lemma min_created_None: "min_created xs = None \<longleftrightarrow> xs = []"
  by (cases xs) (auto split: option.splits)

lemma evict_oldest_size: "om_size (pd_levels (evict_oldest d)) = om_size (pd_levels d) - 1"
proof (cases "min_created (om_entries (pd_levels d))")
  case None
  then show ?thesis by (simp add: evict_oldest_def min_created_None om_size_def)
next
  case (Some p)
  obtain k t where p: "p = (k, t)" by (cases p)
  have "om_lookup (pd_levels d) k = Some t"
    using min_created_mem [of _ k t] Some p by (simp add: om_lookup_Some_iff)
  then show ?thesis by (simp add: evict_oldest_def Some p om_size_remove)
qed

lemma evict_oldest_cfg: "pd_max_tracked (evict_oldest d) = pd_max_tracked d"
  by (simp add: evict_oldest_def split: option.splits)

lemma om_size_insert_le: "om_size (om_insert k v m) \<le> Suc (om_size m)"
  by (simp add: om_size_insert)

lemma om_size_remove_le: "om_size (om_remove k m) \<le> om_size m"
  by (simp add: om_size_remove)

definition pd_bounded :: "phantom_detector \<Rightarrow> bool" where
  "pd_bounded d \<longleftrightarrow> tracked_levels d \<le> max 1 (pd_max_tracked d)"

lemma pd_on_add_bounded:
  assumes "pd_bounded d"
  shows "pd_bounded (pd_on_add se d)" "pd_max_tracked (pd_on_add se d) = pd_max_tracked d"
proof -
  define d1 where "d1 = (if pd_max_tracked d \<le> om_size (pd_levels d) then evict_oldest d else d)"
  have s: "Suc (om_size (pd_levels d1)) \<le> max 1 (pd_max_tracked d)"
    using assms by (auto simp: d1_def evict_oldest_size pd_bounded_def tracked_levels_def)
  have c: "pd_max_tracked d1 = pd_max_tracked d" by (simp add: d1_def evict_oldest_cfg)
  obtain t' where l: "pd_levels (pd_on_add se d) = om_insert (ev_side (se_event se), ev_price (se_event se)) t' (pd_levels d1)"
    unfolding pd_on_add_def Let_def d1_def [symmetric] by (cases "ev_order_id (se_event se) = 0") auto
  show c': "pd_max_tracked (pd_on_add se d) = pd_max_tracked d"
    using c by (simp add: pd_on_add_def Let_def d1_def)
  show "pd_bounded (pd_on_add se d)"
    unfolding pd_bounded_def tracked_levels_def l c' using om_size_insert_le s by (metis le_trans)
qed

lemma pd_on_cancel_bounded:
  assumes "pd_bounded d"
  shows "pd_bounded (fst (pd_on_cancel rnd se d))" "pd_max_tracked (fst (pd_on_cancel rnd se d)) = pd_max_tracked d"
proof -
  show c: "pd_max_tracked (fst (pd_on_cancel rnd se d)) = pd_max_tracked d"
    by (simp add: pd_on_cancel_def pd_resolve_def Let_def split: option.splits)
  have "om_size (pd_levels (fst (pd_on_cancel rnd se d))) \<le> om_size (pd_levels d)"
    by (auto simp: pd_on_cancel_def pd_resolve_def Let_def om_size_insert om_size_remove split: option.splits if_splits)
  then show "pd_bounded (fst (pd_on_cancel rnd se d))"
    using assms unfolding pd_bounded_def tracked_levels_def c by linarith
qed

lemma pd_process_bounded:
  assumes "pd_bounded d"
  shows "pd_bounded (fst (pd_process rnd se d)) \<and> pd_max_tracked (fst (pd_process rnd se d)) = pd_max_tracked d"
proof (cases "event_type_from_u8 (ev_event_type (se_event se))")
  case (Some ty)
  show ?thesis
  proof (cases ty)
    case OrderModify
    then show ?thesis
      using Some pd_on_cancel_bounded [OF assms, of rnd se] pd_on_add_bounded [OF pd_on_cancel_bounded(1) [OF assms, of rnd se]]
      by (simp add: pd_process_def Let_def case_prod_unfold)
  next
    case Trade
    have "pd_bounded (d\<lparr>pd_levels := om_remove k (pd_levels d)\<rparr>)" for k
      using assms om_size_remove_le [of k "pd_levels d"] by (simp add: pd_bounded_def tracked_levels_def)
    then show ?thesis using Some Trade by (simp add: pd_process_def Let_def)
  qed (use Some assms pd_on_add_bounded [OF assms] pd_on_cancel_bounded [OF assms, of rnd se] in \<open>simp_all add: pd_process_def Let_def\<close>)
qed (use assms in \<open>simp add: pd_process_def\<close>)

lemma pd_run_bounded: "pd_bounded d \<Longrightarrow> pd_bounded (pd_run rnd ses d) \<and> pd_max_tracked (pd_run rnd ses d) = pd_max_tracked d"
  unfolding pd_run_def
proof (induction ses arbitrary: d)
  case (Cons se ses)
  then show ?case using pd_process_bounded [OF Cons.prems, of rnd se] Cons.IH [of "fst (pd_process rnd se d)"] by simp
qed simp

end
