(* ===== verification/FL_PhantomProperties.thy ===== *)
theory FL_PhantomProperties
  imports FL_Phantom FL_DetectionProperties
begin

text \<open>
  What a phantom-liquidity flag means in terms of the history, the bound on the tracked levels, and two
  limits of the detector: the order map grows without bound, and an execution that carries no price does
  not clear its level.
\<close>

definition se_key :: "sequenced_event \<Rightarrow> u8 \<times> u64" where
  "se_key se = (ev_side (se_event se), ev_price (se_event se))"

text \<open>
  The tracked level goes back to an add (or the add half of a modify) at its key, and no trade at that side
  and price came later.
\<close>

definition born :: "sequenced_event list \<Rightarrow> u8 \<times> u64 \<Rightarrow> level_tracker \<Rightarrow> bool" where
  "born hs key t \<longleftrightarrow>
     (\<exists>a \<in> set hs. se_type a \<in> {Some OrderAdd, Some OrderModify} \<and> se_key a = key \<and>
        lt_created_seq t = se_seq a \<and> lt_created_ts t = ev_ts (se_event a) \<and>
        (\<forall>b \<in> set hs. se_seq a < se_seq b \<and> se_type b = Some Trade \<longrightarrow> se_key b \<noteq> key))"

definition all_born :: "sequenced_event list \<Rightarrow> phantom_detector \<Rightarrow> bool" where
  "all_born hs d \<longleftrightarrow> (\<forall>key t. om_lookup (pd_levels d) key = Some t \<longrightarrow> born hs key t)"

lemma born_snoc: "born hs key t \<Longrightarrow> \<not> (se_type se = Some Trade \<and> se_key se = key) \<Longrightarrow> born (hs @ [se]) key t"
  unfolding born_def by fastforce

lemma born_same: "lt_created_seq t = lt_created_seq t' \<Longrightarrow> lt_created_ts t = lt_created_ts t' \<Longrightarrow> born hs key t = born hs key t'"
  by (simp add: born_def)

lemma born_here:
  assumes "se_type se = Some OrderAdd \<or> se_type se = Some OrderModify" "\<forall>a \<in> set hs. se_seq a < se_seq se"
    "lt_created_seq t = se_seq se" "lt_created_ts t = ev_ts (se_event se)"
  shows "born (hs @ [se]) (se_key se) t"
  unfolding born_def using assms by (intro bexI [of _ se]) auto

lemma evict_levels: "om_lookup (pd_levels (evict_oldest d)) key = Some t \<Longrightarrow> om_lookup (pd_levels d) key = Some t"
  by (auto simp: evict_oldest_def om_lookup_remove split: option.splits if_splits)

lemma on_add_levels:
  assumes "om_lookup (pd_levels (pd_on_add se d)) key = Some t"
  shows "(\<exists>t0. om_lookup (pd_levels d) key = Some t0 \<and> lt_created_seq t = lt_created_seq t0 \<and> lt_created_ts t = lt_created_ts t0)
    \<or> key = se_key se \<and> lt_created_seq t = se_seq se \<and> lt_created_ts t = ev_ts (se_event se)"
proof -
  define d1 where "d1 = (if pd_max_tracked d \<le> om_size (pd_levels d) then evict_oldest d else d)"
  have sub: "om_lookup (pd_levels d) k = Some u" if "om_lookup (pd_levels d1) k = Some u" for k u
    using that evict_levels [of d k u] by (simp add: d1_def split: if_splits)
  have l: "om_lookup (pd_levels (pd_on_add se d)) key =
      (if key = se_key se then
         Some (case om_lookup (pd_levels d1) (se_key se) of
            Some t \<Rightarrow> t\<lparr>lt_added_qty := sat_add (lt_added_qty t) (ev_qty (se_event se)),
                        lt_order_count := sat_add (lt_order_count t) 1\<rparr>
          | None \<Rightarrow> \<lparr>lt_created_seq = se_seq se, lt_created_ts = ev_ts (se_event se), lt_added_qty = ev_qty (se_event se),
                      lt_cancelled_qty = 0, lt_order_count = 1, lt_cancel_count = 0\<rparr>)
       else om_lookup (pd_levels d1) key)"
    unfolding pd_on_add_def Let_def d1_def [symmetric] se_key_def
    by (cases "ev_order_id (se_event se) = 0") (auto simp: om_lookup_insert)
  show ?thesis
    using assms unfolding l by (auto split: if_splits option.splits dest: sub)
qed

lemma on_cancel_levels:
  assumes "om_lookup (pd_levels (fst (pd_on_cancel rnd se d))) key = Some t"
  shows "\<exists>t0. om_lookup (pd_levels d) key = Some t0 \<and> lt_created_seq t = lt_created_seq t0 \<and> lt_created_ts t = lt_created_ts t0"
  using assms
  by (auto simp: pd_on_cancel_def pd_resolve_def Let_def note_cancel_def om_lookup_insert om_lookup_remove
      split: option.splits if_splits)

lemma all_born_on_add:
  assumes "\<And>key t. om_lookup (pd_levels d) key = Some t \<Longrightarrow> born (hs @ [se]) key t"
    "se_type se = Some OrderAdd \<or> se_type se = Some OrderModify" "\<forall>a \<in> set hs. se_seq a < se_seq se"
  shows "all_born (hs @ [se]) (pd_on_add se d)"
  unfolding all_born_def using on_add_levels assms(1) born_same born_here [OF assms(2,3)] by metis

lemma on_cancel_born:
  "(\<And>key t. om_lookup (pd_levels d) key = Some t \<Longrightarrow> born hs' key t) \<Longrightarrow>
   om_lookup (pd_levels (fst (pd_on_cancel rnd se d))) key = Some t \<Longrightarrow> born hs' key t"
  using on_cancel_levels born_same by metis

lemma all_born_step:
  assumes inv: "all_born hs d" and before: "\<forall>a \<in> set hs. se_seq a < se_seq se"
  shows "all_born (hs @ [se]) (fst (pd_process rnd se d))"
proof (cases "se_type se = Some Trade")
  case True
  then show ?thesis
    using inv born_snoc unfolding all_born_def
    by (auto simp: pd_process_def se_type_def Let_def om_lookup_remove se_key_def split: if_splits)
next
  case False
  then have old: "born (hs @ [se]) key t" if "om_lookup (pd_levels d) key = Some t" for key t
    using inv that born_snoc unfolding all_born_def by blast
  show ?thesis
  proof (cases "se_type se")
    case None
    then show ?thesis using old by (simp add: pd_process_def se_type_def all_born_def)
  next
    case (Some ty)
    then show ?thesis
      using False all_born_on_add [OF old _ before] on_cancel_born [OF old]
        all_born_on_add [OF on_cancel_born [OF old, where rnd = rnd and se = se] _ before] old
      by (cases ty) (auto simp: pd_process_def se_type_def Let_def case_prod_unfold all_born_def)
  qed
qed

lemma all_born_run:
  "sorted_wrt (<) (map se_seq hs) \<Longrightarrow> all_born hs (pd_run rnd hs (pd_new g h n q))"
proof (induction hs rule: rev_induct)
  case Nil
  then show ?case by (simp add: pd_run_def pd_new_def all_born_def)
next
  case (snoc se hs)
  then show ?case
    using all_born_step [of hs "pd_run rnd hs (pd_new g h n q)" se rnd] by (simp add: pd_run_def sorted_wrt_append)
qed

section \<open>Configuration and flags\<close>

definition pd_cfg :: "phantom_detector \<Rightarrow> u64 \<times> u64 \<times> nat \<times> u64" where
  "pd_cfg d = (pd_max_seq_gap d, pd_max_time_gap_ns d, pd_max_tracked d, pd_min_qty d)"

lemma pd_cfg_evict: "pd_cfg (evict_oldest d) = pd_cfg d"
  by (simp add: pd_cfg_def evict_oldest_def split: option.splits)

lemma pd_cfg_on_add: "pd_cfg (pd_on_add se d) = pd_cfg d"
proof -
  have "pd_cfg (if c then evict_oldest d else d) = pd_cfg d" for c by (simp add: pd_cfg_evict)
  then show ?thesis by (auto simp: pd_on_add_def Let_def pd_cfg_def)
qed

lemma pd_cfg_on_cancel: "pd_cfg (fst (pd_on_cancel rnd se d)) = pd_cfg d"
  by (simp add: pd_on_cancel_def pd_resolve_def Let_def pd_cfg_def split: option.splits)

lemma pd_cfg_process: "pd_cfg (fst (pd_process rnd se d)) = pd_cfg d"
proof (cases "event_type_from_u8 (ev_event_type (se_event se))")
  case (Some ty)
  then show ?thesis
    using pd_cfg_on_add pd_cfg_on_cancel
    by (cases ty) (simp_all add: pd_process_def Let_def case_prod_unfold, simp add: pd_cfg_def)
qed (simp add: pd_process_def)

lemma pd_cfg_run: "pd_cfg (pd_run rnd hs d) = pd_cfg d"
  by (induction hs rule: rev_induct) (simp_all add: pd_run_def pd_cfg_process)

lemma on_cancel_flag:
  assumes "snd (pd_on_cancel rnd se d) = Some ce"
  shows "\<exists>key t0. om_lookup (pd_levels d) key = Some t0 \<and> pd_judge rnd d se (note_cancel (se_event se) t0) = Some ce"
proof -
  have j: "pd_judge rnd (d\<lparr>pd_orders := m\<rparr>) se t = pd_judge rnd d se t" for m t by (simp add: pd_judge_def Let_def)
  show ?thesis using assms by (auto simp: pd_on_cancel_def pd_resolve_def Let_def j split: option.splits if_splits)
qed

lemma process_flag:
  assumes "snd (pd_process rnd se d) = Some ce"
  shows "\<exists>key t0. om_lookup (pd_levels d) key = Some t0 \<and> pd_judge rnd d se (note_cancel (se_event se) t0) = Some ce"
  using assms on_cancel_flag [of rnd se d ce]
  by (auto simp: pd_process_def Let_def case_prod_unfold split: option.splits event_type.splits)

lemma gap_score_not_NaN:
  assumes "rounding rnd"
  shows "gap_score rnd gap limit \<noteq> NaN"
proof (cases "limit = 0")
  case False
  obtain a where a: "u64_as_f64 rnd gap = Fin a" using u64_as_f64_Fin [OF assms] by blast
  obtain b where b: "u64_as_f64 rnd limit = Fin b" "1 \<le> b" using u64_as_f64_Fin [OF assms, of limit] False by blast
  have d: "f64_div rnd (Fin a) (Fin b) = rnd (a / b)" using b(2) by simp
  show ?thesis
    using rounding_not_NaN [OF assms] unfolding gap_score_def a b(1) d f64_sub_def
    by (cases "rnd (a / b)") auto
qed (simp add: gap_score_def)

lemma judge_score:
  assumes "rounding rnd" "pd_judge rnd d se t = Some ce"
  shows "unit_score (ce_severity ce)"
proof -
  have "f64_max (gap_score rnd x y) (gap_score rnd u v) \<noteq> NaN" for x y u v
    using gap_score_not_NaN [OF assms(1)] by (simp add: f64_max_def)
  then show ?thesis using assms(2) unit_score_clamp by (auto simp: pd_judge_def Let_def split: if_splits)
qed

lemma judge_fields:
  assumes "pd_judge rnd d se t = Some ce"
  shows "ce_kind ce = PhantomLiquidity" "ce_start_seq ce = lt_created_seq t" "ce_end_seq ce = se_seq se"
    "ce_start_ts_ns ce = lt_created_ts t" "pd_min_qty d \<le> lt_added_qty t"
    "0 < pd_max_seq_gap d \<and> unat (se_seq se) - unat (lt_created_seq t) \<le> unat (pd_max_seq_gap d) \<or>
     0 < pd_max_time_gap_ns d \<and> unat (ev_ts (se_event se)) - unat (lt_created_ts t) \<le> unat (pd_max_time_gap_ns d)"
proof -
  have le: "sat_sub x y \<le> z \<longleftrightarrow> unat x - unat y \<le> unat z" for x y z :: u64
    by (simp add: word_le_nat_alt unat_sat_sub)
  show "ce_kind ce = PhantomLiquidity" "ce_start_seq ce = lt_created_seq t" "ce_end_seq ce = se_seq se"
    "ce_start_ts_ns ce = lt_created_ts t" "pd_min_qty d \<le> lt_added_qty t"
    using assms by (auto simp: pd_judge_def Let_def split: if_splits)
  show "0 < pd_max_seq_gap d \<and> unat (se_seq se) - unat (lt_created_seq t) \<le> unat (pd_max_seq_gap d) \<or>
     0 < pd_max_time_gap_ns d \<and> unat (ev_ts (se_event se)) - unat (lt_created_ts t) \<le> unat (pd_max_time_gap_ns d)"
    using assms by (auto simp: pd_judge_def Let_def le split: if_splits)
qed

interpretation phantom: chaos_detector "pd_process rnd" "\<lambda>d. rounding rnd" PhantomLiquidity for rnd
proof
  fix d se ce assume "rounding rnd" "snd (pd_process rnd se d) = Some ce"
  with process_flag [of rnd se d ce] judge_score [of rnd d se] judge_fields [of rnd d se]
  show "ce_kind ce = PhantomLiquidity \<and> ce_end_seq ce = se_seq se \<and> unit_score (ce_severity ce)" by blast
qed

text \<open>On an ordered feed the flags of the three detectors come in the order of the events that raise them.\<close>

lemmas detector_flags_ordered = quote_stuff.flags_ordered spoof.flags_ordered phantom.flags_ordered

section \<open>Unbounded order map\<close>

definition add_at_one_level :: "nat \<Rightarrow> sequenced_event" where
  "add_at_one_level i = \<lparr>se_seq = of_nat i, se_channel_id = 0,
     se_event = event_zeroed\<lparr>ev_event_type := 1, ev_order_id := of_nat (Suc i), ev_qty := 1\<rparr>\<rparr>"

lemma pd_orders_on_add:
  "ev_order_id (se_event se) \<noteq> 0 \<Longrightarrow>
   pd_orders (pd_on_add se d) = om_insert (ev_order_id (se_event se)) (se_key se) (pd_orders d)"
  by (auto simp: pd_on_add_def evict_oldest_def se_key_def Let_def split: option.splits)

lemma len64: "LENGTH(64) = 64"
  by simp

lemma add_at_one_level_id: "Suc i < 2 ^ 64 \<Longrightarrow> (of_nat (Suc i) :: u64) \<noteq> 0"
  using unat_of_nat_small [of "Suc i", where 'a = 64] by (auto simp del: of_nat_Suc)

lemma many_adds_orders:
  "n < 2 ^ 64 \<Longrightarrow>
   dom (om_lookup (pd_orders (pd_run rnd (map add_at_one_level [0..<n]) d))) =
     dom (om_lookup (pd_orders d)) \<union> (\<lambda>i. of_nat (Suc i)) ` {..<n}"
proof (induction n)
  case (Suc n)
  let ?d = "pd_run rnd (map add_at_one_level [0..<n]) d"
  have "pd_run rnd (map add_at_one_level [0..<Suc n]) d = pd_on_add (add_at_one_level n) ?d"
    by (simp add: pd_run_def pd_process_def add_at_one_level_def event_type_from_u8_def)
  moreover have "ev_order_id (se_event (add_at_one_level n)) = of_nat (Suc n)" by (simp add: add_at_one_level_def)
  moreover have "(of_nat (Suc n) :: u64) \<noteq> 0" using Suc.prems by (rule add_at_one_level_id)
  ultimately have "pd_orders (pd_run rnd (map add_at_one_level [0..<Suc n]) d) =
      om_insert (of_nat (Suc n)) (se_key (add_at_one_level n)) (pd_orders ?d)"
    using pd_orders_on_add [of "add_at_one_level n" ?d] by (simp only: simp_thms)
  then show ?case
    using Suc by (simp only: om_lookup_insert dom_fun_upd lessThan_Suc image_insert option.simps if_False) simp
qed (simp add: pd_run_def)

section \<open>Properties\<close>

text \<open>
  Property C22. A phantom-liquidity flag has a cause in the feed. Whenever an event after a history with
  growing sequence numbers is flagged, the flag starts at an add (or modify) of the history, with its
  sequence number and time stamp; no trade carrying that side and price came after it; the event lies
  within the sequence window or the time window of that add; and the severity is between 0 and 1.
\<close>

theorem phantom_flag_sound:
  assumes order: "sorted_wrt (<) (map se_seq (hs @ [se]))" and rnd: "rounding rnd"
    and flag: "snd (pd_process rnd se (pd_run rnd hs (pd_new g h n q))) = Some ce"
  shows "ce_kind ce = PhantomLiquidity \<and> ce_end_seq ce = se_seq se \<and> unit_score (ce_severity ce) \<and>
    (\<exists>a \<in> set hs. se_type a \<in> {Some OrderAdd, Some OrderModify} \<and>
       ce_start_seq ce = se_seq a \<and> ce_start_ts_ns ce = ev_ts (se_event a) \<and>
       (\<forall>b \<in> set hs. se_seq a < se_seq b \<and> se_type b = Some Trade \<longrightarrow> se_key b \<noteq> se_key a) \<and>
       (0 < g \<and> unat (se_seq se) - unat (se_seq a) \<le> unat g \<or>
        0 < h \<and> unat (ev_ts (se_event se)) - unat (ev_ts (se_event a)) \<le> unat h))"
proof -
  let ?d = "pd_run rnd hs (pd_new g h n q)"
  have cfg: "pd_max_seq_gap ?d = g" "pd_max_time_gap_ns ?d = h"
    using pd_cfg_run [of rnd hs "pd_new g h n q"] by (simp_all add: pd_cfg_def pd_new_def)
  obtain key t0 where t0: "om_lookup (pd_levels ?d) key = Some t0"
      "pd_judge rnd ?d se (note_cancel (se_event se) t0) = Some ce"
    using process_flag [OF flag] by blast
  have "all_born hs ?d" using order by (intro all_born_run) (simp add: sorted_wrt_append)
  then have "born hs key t0" using t0(1) unfolding all_born_def by blast
  then show ?thesis
    using judge_fields [OF t0(2)] judge_score [OF rnd t0(2)] unfolding born_def cfg
    by (auto simp: note_cancel_def)
qed

definition phantom_add :: sequenced_event where
  "phantom_add = \<lparr>se_seq = 1, se_channel_id = 0,
     se_event = event_zeroed\<lparr>ev_event_type := 1, ev_order_id := 42, ev_qty := 500, ev_price := 10000\<rparr>\<rparr>"

definition phantom_delete :: sequenced_event where
  "phantom_delete = \<lparr>se_seq = 3, se_channel_id = 0, se_event = event_zeroed\<lparr>ev_event_type := 2, ev_order_id := 42\<rparr>\<rparr>"

definition order_executed :: sequenced_event where
  "order_executed = \<lparr>se_seq = 2, se_channel_id = 0,
     se_event = event_zeroed\<lparr>ev_event_type := 4, ev_order_id := 42, ev_qty := 300\<rparr>\<rparr>"

lemmas phantom_eval = pd_run_def pd_process_def pd_new_def pd_on_add_def pd_on_cancel_def pd_resolve_def pd_judge_def
  note_cancel_def removed_qty_def fully_cancelled_def sat_add_def sat_sub_def Let_def om_lookup_insert om_lookup_remove
  event_type_from_u8_def event_zeroed_def phantom_add_def phantom_delete_def order_executed_def

lemma phantom_flags_quick_delete:
  "\<exists>ce. snd (pd_process rnd phantom_delete (pd_run rnd [phantom_add] (pd_new 100 0 64 100))) = Some ce \<and> ce_start_seq ce = 1"
  by (simp add: phantom_eval)

theorem phantom_flag_sound_witness:
  "\<exists>ce. snd (pd_process Fin phantom_delete (pd_run Fin [phantom_add] (pd_new 100 0 64 100))) = Some ce \<and>
     unit_score (ce_severity ce)"
proof -
  obtain ce where ce: "snd (pd_process Fin phantom_delete (pd_run Fin [phantom_add] (pd_new 100 0 64 100))) = Some ce"
    using phantom_flags_quick_delete by blast
  have "sorted_wrt (<) (map se_seq ([phantom_add] @ [phantom_delete]))"
    by (simp add: phantom_add_def phantom_delete_def)
  from phantom_flag_sound [OF this rounding_Fin ce] ce show ?thesis by blast
qed

text \<open>
  The number of tracked levels never exceeds the configured cap (or one level when the cap is 0), whatever
  the feed sends.
\<close>

theorem phantom_levels_bounded: "tracked_levels (pd_run rnd hs (pd_new g h n q)) \<le> max 1 n"
proof -
  have "pd_bounded (pd_new g h n q)" "pd_max_tracked (pd_new g h n q) = n"
    by (simp_all add: pd_bounded_def tracked_levels_def pd_new_def)
  with pd_run_bounded [of "pd_new g h n q" rnd hs] show ?thesis unfolding pd_bounded_def by metis
qed

text \<open>The map from order ids to levels has no such bound: every add with a fresh id makes it grow.\<close>

theorem phantom_orders_unbounded:
  "n < 2 ^ 64 \<Longrightarrow> om_size (pd_orders (pd_run rnd (map add_at_one_level [0..<n]) (pd_new g h 1 q))) = n"
proof -
  assume n: "n < 2 ^ 64"
  have "inj_on (\<lambda>i. of_nat (Suc i) :: u64) {..<n}"
  proof (rule inj_onI)
    fix i j assume "i \<in> {..<n}" "j \<in> {..<n}" "(of_nat (Suc i) :: u64) = of_nat (Suc j)"
    then have "unat (of_nat (Suc i) :: u64) = unat (of_nat (Suc j) :: u64)" "Suc i < 2 ^ 64" "Suc j < 2 ^ 64"
      using n by simp_all
    then have "Suc i = Suc j" using unat_of_nat_small [where 'a = 64] by (metis len64)
    then show "i = j" by simp
  qed
  moreover have "dom (om_lookup (pd_orders (pd_new g h 1 q))) = {}" by (simp add: pd_new_def dom_def)
  ultimately show ?thesis
    unfolding om_size_card many_adds_orders [OF n] by (simp add: card_image del: of_nat_Suc)
qed

text \<open>
  An order execution that names its order but carries no price, as the ITCH decoder produces for
  execution messages, leaves the level tracked, so deleting the rest of the order is flagged although the
  level has traded.
\<close>

theorem phantom_flags_traded_level:
  "\<exists>ce. snd (pd_process rnd phantom_delete (pd_run rnd [phantom_add, order_executed] (pd_new 100 0 64 100))) = Some ce"
  by (simp add: phantom_eval)

end
