(* ===== verification/FL_CancelStorm.thy ===== *)
theory FL_CancelStorm
  imports FL_Chaos
begin

text \<open>
  The cancellation-storm detector of \<open>chaos/src/cancellation_storm.rs\<close>: a sliding window over sequence numbers
  and time, a Welford baseline of the cancel rate, an adaptive threshold, a persistence gate and a
  refractory period. The square root is the parameter \<open>sq\<close>. The tracing hook of \<open>emit_flag\<close> changes nothing
  and has no counterpart.
\<close>

section \<open>Welford accumulator\<close>

record welford =
  wf_n :: u64
  wf_mean :: f64
  wf_m2 :: f64

definition welford_default :: welford where
  "welford_default = \<lparr>wf_n = 0, wf_mean = Fin 0, wf_m2 = Fin 0\<rparr>"

definition wf_update :: "(rat \<Rightarrow> f64) \<Rightarrow> f64 \<Rightarrow> welford \<Rightarrow> welford" where
  "wf_update rnd x w =
     (let n = sat_add (wf_n w) 1;
          delta = f64_sub rnd x (wf_mean w);
          mean = f64_add rnd (wf_mean w) (f64_div rnd delta (u64_as_f64 rnd n));
          delta2 = f64_sub rnd x mean
      in \<lparr>wf_n = n, wf_mean = mean, wf_m2 = f64_add rnd (wf_m2 w) (f64_mul rnd delta delta2)\<rparr>)"

definition wf_stddev :: "(rat \<Rightarrow> f64) \<Rightarrow> (f64 \<Rightarrow> f64) \<Rightarrow> welford \<Rightarrow> f64" where
  "wf_stddev rnd sq w =
     (if wf_n w < 2 then Fin 0 else sq (f64_div rnd (wf_m2 w) (u64_as_f64 rnd (wf_n w - 1))))"

section \<open>The detector\<close>

record cancel_storm_detector =
  cs_window :: "(u64 \<times> u64 \<times> u8) list"
  cs_seq_window :: u64
  cs_time_window_ns :: u64
  cs_min_window :: nat
  cs_warmup_samples :: u64
  cs_sigma_floor :: f64
  cs_k_sigma :: f64
  cs_min_consecutive :: u64
  cs_cooldown_seq :: u64
  cs_welford :: welford
  cs_consecutive_above :: u64
  cs_refractory_until :: u64
  cs_burst_start_seq :: u64
  cs_burst_start_ts :: u64
  cs_last_rate :: f64
  cs_cancels_in_window :: u64

definition cs_new :: "u64 \<Rightarrow> u64 \<Rightarrow> nat \<Rightarrow> u64 \<Rightarrow> f64 \<Rightarrow> f64 \<Rightarrow> u64 \<Rightarrow> u64 \<Rightarrow> cancel_storm_detector" where
  "cs_new seq_window time_window_ns min_window warmup_samples sigma_floor k_sigma min_consecutive cooldown_seq =
     \<lparr>cs_window = [], cs_seq_window = seq_window, cs_time_window_ns = time_window_ns, cs_min_window = min_window,
      cs_warmup_samples = warmup_samples, cs_sigma_floor = sigma_floor, cs_k_sigma = k_sigma,
      cs_min_consecutive = min_consecutive, cs_cooldown_seq = cooldown_seq, cs_welford = welford_default,
      cs_consecutive_above = 0, cs_refractory_until = 0, cs_burst_start_seq = 0, cs_burst_start_ts = 0,
      cs_last_rate = Fin 0, cs_cancels_in_window = 0\<rparr>"

definition cs_threshold :: "(rat \<Rightarrow> f64) \<Rightarrow> (f64 \<Rightarrow> f64) \<Rightarrow> cancel_storm_detector \<Rightarrow> f64" where
  "cs_threshold rnd sq d =
     f64_add rnd (wf_mean (cs_welford d))
       (f64_mul rnd (cs_k_sigma d) (f64_max (wf_stddev rnd sq (cs_welford d)) (cs_sigma_floor d)))"

definition cs_welford_samples :: "cancel_storm_detector \<Rightarrow> u64" where
  "cs_welford_samples d = wf_n (cs_welford d)"

definition cs_window_len :: "cancel_storm_detector \<Rightarrow> nat" where
  "cs_window_len d = length (cs_window d)"

text \<open>\<open>too_old_seq || too_old_ts\<close> of an entry; a window of 0 is disabled.\<close>

definition expired :: "u64 \<Rightarrow> u64 \<Rightarrow> u64 \<Rightarrow> u64 \<Rightarrow> u64 \<Rightarrow> u64 \<Rightarrow> bool" where
  "expired seq_window time_window cur_seq cur_ts s t \<longleftrightarrow>
     0 < seq_window \<and> seq_window < sat_sub cur_seq s \<or> 0 < time_window \<and> time_window < sat_sub cur_ts t"

fun evict_front :: "(u64 \<times> u64 \<times> u8 \<Rightarrow> bool) \<Rightarrow> (u64 \<times> u64 \<times> u8) list \<Rightarrow> u64 \<Rightarrow> (u64 \<times> u64 \<times> u8) list \<times> u64" where
  "evict_front old [] cancels = ([], cancels)"
| "evict_front old (x # xs) cancels =
     (if old x
      then evict_front old xs (if snd (snd x) = event_type_code OrderCancel then sat_sub cancels 1 else cancels)
      else (x # xs, cancels))"

definition cs_evict_expired :: "u64 \<Rightarrow> u64 \<Rightarrow> cancel_storm_detector \<Rightarrow> cancel_storm_detector" where
  "cs_evict_expired cur_seq cur_ts d =
     (let (w, c) = evict_front (\<lambda>(s, t, _). expired (cs_seq_window d) (cs_time_window_ns d) cur_seq cur_ts s t)
                     (cs_window d) (cs_cancels_in_window d)
      in d\<lparr>cs_window := w, cs_cancels_in_window := c\<rparr>)"

definition cs_push :: "sequenced_event \<Rightarrow> cancel_storm_detector \<Rightarrow> cancel_storm_detector" where
  "cs_push se d =
     d\<lparr>cs_window := cs_window d @ [(se_seq se, ev_ts (se_event se), ev_event_type (se_event se))],
       cs_cancels_in_window := (if event_type_from_u8 (ev_event_type (se_event se)) = Some OrderCancel
         then cs_cancels_in_window d + 1 else cs_cancels_in_window d)\<rparr>"

definition cs_emit_flag :: "(rat \<Rightarrow> f64) \<Rightarrow> (f64 \<Rightarrow> f64) \<Rightarrow> u64 \<Rightarrow> u64 \<Rightarrow> f64 \<Rightarrow> cancel_storm_detector \<Rightarrow> chaos_event" where
  "cs_emit_flag rnd sq end_seq end_ts rate d =
     (let sigma = f64_max (wf_stddev rnd sq (cs_welford d)) (cs_sigma_floor d);
          z = f64_max (f64_div rnd (f64_sub rnd rate (wf_mean (cs_welford d))) sigma) (Fin 0);
          severity = f64_clamp (Fin 0) (Fin 1) (f64_div rnd z (f64_add rnd z (Fin 3)))
      in \<lparr>ce_kind = CancellationStorm, ce_start_seq = cs_burst_start_seq d, ce_end_seq = end_seq,
          ce_start_ts_ns = cs_burst_start_ts d, ce_end_ts_ns = end_ts, ce_severity = severity, ce_initiator = None,
          ce_features = \<lparr>cf_event_count = of_nat (length (cs_window d)),
            cf_duration_ns = sat_sub end_ts (cs_burst_start_ts d),
            cf_cancel_trade_ratio = f64_div rnd rate (f64_max (f64_sub rnd (Fin 1) rate) (Fin (1 / 2 ^ 52))),
            cf_price_displacement = 0, cf_depth_removed = 0\<rparr>\<rparr>)"

text \<open>The part of \<open>process\<close> after the warm-up: threshold, persistence, refractory period, baseline.\<close>

definition cs_judge :: "(rat \<Rightarrow> f64) \<Rightarrow> (f64 \<Rightarrow> f64) \<Rightarrow> sequenced_event \<Rightarrow> f64 \<Rightarrow> cancel_storm_detector \<Rightarrow>
    cancel_storm_detector \<times> chaos_event option" where
  "cs_judge rnd sq se rate d =
     (let in_refractory = se_seq se < cs_refractory_until d;
          thr = cs_threshold rnd sq d
      in if f64_lt thr rate then
           let d1 = (if cs_consecutive_above d = 0
                     then d\<lparr>cs_burst_start_seq := se_seq se, cs_burst_start_ts := ev_ts (se_event se)\<rparr> else d);
               d2 = d1\<lparr>cs_consecutive_above := cs_consecutive_above d1 + 1\<rparr>
           in if cs_min_consecutive d2 \<le> cs_consecutive_above d2 \<and> \<not> in_refractory then
                (d2\<lparr>cs_refractory_until := sat_add (se_seq se) (cs_cooldown_seq d2), cs_consecutive_above := 0\<rparr>,
                 Some (cs_emit_flag rnd sq (se_seq se) (ev_ts (se_event se)) rate d2))
              else (d2, None)
         else
           let d1 = d\<lparr>cs_consecutive_above := 0\<rparr>
           in (if in_refractory then d1 else d1\<lparr>cs_welford := wf_update rnd rate (cs_welford d1)\<rparr>, None))"

definition cs_process :: "(rat \<Rightarrow> f64) \<Rightarrow> (f64 \<Rightarrow> f64) \<Rightarrow> sequenced_event \<Rightarrow> cancel_storm_detector \<Rightarrow>
    cancel_storm_detector \<times> chaos_event option" where
  "cs_process rnd sq se d =
     (if event_type_from_u8 (ev_event_type (se_event se)) \<notin> {Some OrderAdd, Some OrderCancel, Some Trade} then (d, None)
      else
        let d1 = cs_evict_expired (se_seq se) (ev_ts (se_event se)) (cs_push se d)
        in if length (cs_window d1) < cs_min_window d1 then (d1, None)
           else
             let rate = f64_div rnd (u64_as_f64 rnd (cs_cancels_in_window d1)) (f64_of_nat rnd (length (cs_window d1)));
                 d2 = d1\<lparr>cs_last_rate := rate\<rparr>
             in if wf_n (cs_welford d2) < cs_warmup_samples d2
                then (d2\<lparr>cs_welford := wf_update rnd rate (cs_welford d2)\<rparr>, None)
                else cs_judge rnd sq se rate d2)"

end
