(* ===== verification/FL_CancelStormProperties.thy ===== *)
theory FL_CancelStormProperties
  imports FL_CancelStorm FL_DetectionProperties
begin

text \<open>
  The rolling window of the cancellation-storm detector holds exactly the recent events and its counter
  counts their cancels; the Welford accumulator computes mean and squared deviations; flags are at least
  the cool-down apart.
\<close>

section \<open>Welford\<close>

lemma wf_update_exact:
  assumes "sat_add n 1 = k" "k \<noteq> 0"
  shows "wf_update Fin (Fin x) \<lparr>wf_n = n, wf_mean = Fin m, wf_m2 = Fin s\<rparr> =
    \<lparr>wf_n = k, wf_mean = Fin (m + (x - m) / of_nat (unat k)),
     wf_m2 = Fin (s + (x - m) * (x - (m + (x - m) / of_nat (unat k))))\<rparr>"
  using assms
  by (simp add: wf_update_def Let_def f64_sub_def f64_mul_def u64_as_f64_def f64_of_nat_def unat_eq_0 del: of_nat_unat)

lemma running_mean: "0 < n \<Longrightarrow> (S + x) / (n + 1) = S / n + (x - S / n) / (n + 1)" for n S x :: rat
proof -
  assume n: "0 < n"
  then have S: "S = S / n * n" by simp
  have "(M * n + x) / (n + 1) = M + (x - M) / (n + 1)" for M using n by (simp add: field_simps)
  from this [of "S / n"] show ?thesis using S by simp
qed

lemma running_dev:
  "0 < n \<Longrightarrow> x ^ 2 - (S + x) ^ 2 / (n + 1) = (x - S / n) * (x - (S + x) / (n + 1)) - S ^ 2 / n" for n S x :: rat
proof -
  assume n: "0 < n"
  have "(x - S / n) * (x - (S + x) / (n + 1)) = (n * x - S) / n * ((n * x - S) / (n + 1))"
    using n by (simp add: diff_divide_eq_iff divide_diff_eq_iff algebra_simps)
  also have "\<dots> = (n * x - S) ^ 2 / (n * (n + 1))" by (simp add: power2_eq_square)
  finally have l: "(x - S / n) * (x - (S + x) / (n + 1)) = (n * x - S) ^ 2 / (n * (n + 1))" .
  have "x ^ 2 - (S + x) ^ 2 / (n + 1) + S ^ 2 / n = (x ^ 2 * (n * (n + 1)) - (S + x) ^ 2 * n + S ^ 2 * (n + 1)) / (n * (n + 1))"
    using n by (simp add: add_divide_distrib diff_divide_distrib)
  also have "x ^ 2 * (n * (n + 1)) - (S + x) ^ 2 * n + S ^ 2 * (n + 1) = (n * x - S) ^ 2"
    by (simp add: power2_eq_square algebra_simps)
  finally show ?thesis using l by simp
qed

definition mean_of :: "rat list \<Rightarrow> rat" where
  "mean_of xs = sum_list xs / of_nat (length xs)"

definition sq_dev :: "rat list \<Rightarrow> rat" where
  "sq_dev xs = sum_list (map (\<lambda>x. (x - mean_of xs) ^ 2) xs)"

lemma sq_dev_shift: "sum_list (map (\<lambda>x. (x - c) ^ 2) xs) =
    sum_list (map (\<lambda>x. x ^ 2) xs) - 2 * c * sum_list xs + of_nat (length xs) * c ^ 2" for c :: rat
  by (induction xs) (simp_all add: algebra_simps power2_eq_square)

lemma sq_dev_alt: "xs \<noteq> [] \<Longrightarrow> sq_dev xs = sum_list (map (\<lambda>x. x ^ 2) xs) - sum_list xs ^ 2 / of_nat (length xs)"
  unfolding sq_dev_def sq_dev_shift by (simp add: mean_of_def power2_eq_square field_simps)

lemma mean_of_snoc: "xs \<noteq> [] \<Longrightarrow> mean_of (xs @ [x]) = mean_of xs + (x - mean_of xs) / of_nat (Suc (length xs))"
  using running_mean [of "of_nat (length xs)" "sum_list xs" x] by (simp add: mean_of_def add.commute)

lemma sq_dev_snoc:
  assumes "xs \<noteq> []"
  shows "sq_dev (xs @ [x]) = sq_dev xs + (x - mean_of xs) * (x - mean_of (xs @ [x]))"
  using assms running_dev [of "of_nat (length xs)" x "sum_list xs"]
  by (simp add: sq_dev_alt mean_of_def add.commute)

lemma welford_run:
  "xs \<noteq> [] \<Longrightarrow> length xs < 2 ^ 64 \<Longrightarrow>
   fold (\<lambda>x. wf_update Fin (Fin x)) xs welford_default =
     \<lparr>wf_n = of_nat (length xs), wf_mean = Fin (mean_of xs), wf_m2 = Fin (sq_dev xs)\<rparr>"
proof (induction xs rule: rev_induct)
  case (snoc x xs)
  have k: "sat_add (of_nat (length xs)) 1 = (of_nat (Suc (length xs)) :: u64)"
    using snoc.prems(2) unat_sat_add [of "of_nat (length xs) :: u64" 1]
    by (simp add: word_unat_eq_iff unat_of_nat_small del: of_nat_Suc)
  have u: "unat (of_nat (Suc (length xs)) :: u64) = Suc (length xs)"
    using snoc.prems(2) by (intro unat_of_nat_small) simp
  then have nz: "(of_nat (Suc (length xs)) :: u64) \<noteq> 0" by (metis nat.distinct(1) unat_0)
  show ?case
  proof (cases "xs = []")
    case True
    then show ?thesis
      using wf_update_exact [OF k nz, of x 0 0] u
      by (simp add: welford_default_def mean_of_def sq_dev_def)
  next
    case False
    have IH: "fold (\<lambda>x. wf_update Fin (Fin x)) xs welford_default =
        \<lparr>wf_n = of_nat (length xs), wf_mean = Fin (mean_of xs), wf_m2 = Fin (sq_dev xs)\<rparr>"
      using snoc False by simp
    show ?thesis
      unfolding fold_append comp_apply IH fold_simps id_apply
      by (simp only: wf_update_exact [OF k nz] u mean_of_snoc [OF False] sq_dev_snoc [OF False] length_append_singleton)
  qed
qed simp

section \<open>The sliding window\<close>

lemma evict_front_window: "fst (evict_front old w c) = dropWhile old w"
  by (induction w arbitrary: c) auto

lemma count_type_Cons: "count_type ty (x # xs) = (if snd (snd x) = event_type_code ty then Suc (count_type ty xs) else count_type ty xs)"
  by (cases x) (simp add: count_type_def)

lemma evict_front_count:
  "length w < 2 ^ 64 \<Longrightarrow> c = of_nat (count_type OrderCancel w) \<Longrightarrow>
   snd (evict_front old w c) = of_nat (count_type OrderCancel (fst (evict_front old w c)))"
proof (induction w arbitrary: c)
  case (Cons x w)
  have le: "count_type OrderCancel w \<le> length w" by (simp add: count_type_def)
  then have "unat (of_nat (Suc (count_type OrderCancel w)) :: u64) = Suc (count_type OrderCancel w)"
    using Cons.prems(1) by (intro unat_of_nat_small) simp
  then have "sat_sub (of_nat (Suc (count_type OrderCancel w))) 1 = (of_nat (count_type OrderCancel w) :: u64)"
    by (simp add: sat_sub_def word_le_nat_alt del: of_nat_Suc) simp
  with Cons show ?case by (auto simp: count_type_Cons simp del: of_nat_Suc)
qed simp

lemma expired_mono: "cur_seq \<le> cur_seq' \<Longrightarrow> cur_ts \<le> cur_ts' \<Longrightarrow> expired g h cur_seq cur_ts s t \<Longrightarrow> expired g h cur_seq' cur_ts' s t"
  by (auto simp: expired_def word_less_nat_alt word_le_nat_alt unat_sat_sub)

lemma expired_older: "s \<le> s' \<Longrightarrow> t \<le> t' \<Longrightarrow> expired g h cur_seq cur_ts s' t' \<Longrightarrow> expired g h cur_seq cur_ts s t"
  by (auto simp: expired_def word_less_nat_alt word_le_nat_alt unat_sat_sub)

lemma expired_now: "\<not> expired g h s t s t"
  by (simp add: expired_def)

abbreviation old_entry :: "u64 \<Rightarrow> u64 \<Rightarrow> u64 \<Rightarrow> u64 \<Rightarrow> u64 \<times> u64 \<times> u8 \<Rightarrow> bool" where
  "old_entry g h s t \<equiv> \<lambda>(a, b, _). expired g h s t a b"

text \<open>What the detector does to window and counter on a tracked event.\<close>

definition cs_slide :: "sequenced_event \<Rightarrow> cancel_storm_detector \<Rightarrow> cancel_storm_detector" where
  "cs_slide se d = cs_evict_expired (se_seq se) (ev_ts (se_event se)) (cs_push se d)"

lemma cs_slide_window:
  "cs_window (cs_slide se d) = dropWhile (old_entry (cs_seq_window d) (cs_time_window_ns d) (se_seq se) (ev_ts (se_event se)))
     (cs_window d @ [qs_entry se])"
  using evict_front_window
  by (simp add: cs_slide_def cs_evict_expired_def cs_push_def qs_entry_def case_prod_unfold Let_def)

lemma cs_slide_nonempty: "cs_window (cs_slide se d) \<noteq> []"
  unfolding cs_slide_window by (auto simp: dropWhile_append qs_entry_def expired_now)

lemma cs_slide_same:
  "cs_seq_window (cs_slide se d) = cs_seq_window d" "cs_time_window_ns (cs_slide se d) = cs_time_window_ns d"
  "cs_welford (cs_slide se d) = cs_welford d" "cs_sigma_floor (cs_slide se d) = cs_sigma_floor d"
  "cs_cooldown_seq (cs_slide se d) = cs_cooldown_seq d" "cs_refractory_until (cs_slide se d) = cs_refractory_until d"
  by (simp_all add: cs_slide_def cs_evict_expired_def cs_push_def Let_def case_prod_unfold)

lemma cs_slide_count:
  assumes "length (cs_window d) < 2 ^ 64 - 1" "cs_cancels_in_window d = of_nat (count_type OrderCancel (cs_window d))"
  shows "cs_cancels_in_window (cs_slide se d) = of_nat (count_type OrderCancel (cs_window (cs_slide se d)))"
proof -
  let ?d = "cs_push se d"
  have c: "cs_cancels_in_window ?d = of_nat (count_type OrderCancel (cs_window ?d))"
    using assms(2) by (simp add: cs_push_def count_type_def event_type_from_u8_Some)
  have l: "length (cs_window ?d) < 2 ^ 64" using assms(1) by (simp add: cs_push_def)
  show ?thesis
    using evict_front_count [OF l c] by (simp add: cs_slide_def cs_evict_expired_def Let_def case_prod_unfold)
qed

lemma cs_judge_same:
  "cs_window (fst (cs_judge rnd sq se rate d)) = cs_window d"
  "cs_cancels_in_window (fst (cs_judge rnd sq se rate d)) = cs_cancels_in_window d"
  "cs_seq_window (fst (cs_judge rnd sq se rate d)) = cs_seq_window d"
  "cs_time_window_ns (fst (cs_judge rnd sq se rate d)) = cs_time_window_ns d"
  "cs_sigma_floor (fst (cs_judge rnd sq se rate d)) = cs_sigma_floor d"
  "cs_cooldown_seq (fst (cs_judge rnd sq se rate d)) = cs_cooldown_seq d"
  by (simp_all add: cs_judge_def Let_def)

lemma cs_process_untracked: "\<not> qs_tracked se \<Longrightarrow> cs_process rnd sq se d = (d, None)"
  by (simp add: cs_process_def qs_tracked_def)

lemma cs_process_tracked:
  "qs_tracked se \<Longrightarrow> cs_process rnd sq se d =
     (let d1 = cs_slide se d
      in if length (cs_window d1) < cs_min_window d1 then (d1, None)
         else
           let rate = f64_div rnd (u64_as_f64 rnd (cs_cancels_in_window d1)) (f64_of_nat rnd (length (cs_window d1)));
               d2 = d1\<lparr>cs_last_rate := rate\<rparr>
           in if wf_n (cs_welford d2) < cs_warmup_samples d2
              then (d2\<lparr>cs_welford := wf_update rnd rate (cs_welford d2)\<rparr>, None)
              else cs_judge rnd sq se rate d2)"
  unfolding cs_process_def cs_slide_def [symmetric] by (simp add: qs_tracked_def)

lemma cs_process_slides:
  assumes "qs_tracked se"
  shows "cs_window (fst (cs_process rnd sq se d)) = cs_window (cs_slide se d)"
    "cs_cancels_in_window (fst (cs_process rnd sq se d)) = cs_cancels_in_window (cs_slide se d)"
    "cs_seq_window (fst (cs_process rnd sq se d)) = cs_seq_window d"
    "cs_time_window_ns (fst (cs_process rnd sq se d)) = cs_time_window_ns d"
  by (simp_all add: cs_process_tracked [OF assms] Let_def cs_judge_same cs_slide_same)

definition cs_run :: "(rat \<Rightarrow> f64) \<Rightarrow> (f64 \<Rightarrow> f64) \<Rightarrow> sequenced_event list \<Rightarrow> cancel_storm_detector \<Rightarrow> cancel_storm_detector" where
  "cs_run rnd sq hs d = fold (\<lambda>se d. fst (cs_process rnd sq se d)) hs d"

text \<open>Sequence numbers and time stamps of a feed do not go backwards.\<close>

definition feed_ordered :: "sequenced_event list \<Rightarrow> bool" where
  "feed_ordered hs \<longleftrightarrow> sorted_wrt (\<lambda>a b. se_seq a \<le> se_seq b \<and> ev_ts (se_event a) \<le> ev_ts (se_event b)) hs"

definition recent :: "u64 \<Rightarrow> u64 \<Rightarrow> sequenced_event list \<Rightarrow> (u64 \<times> u64 \<times> u8) list" where
  "recent g h hs =
     (let es = filter qs_tracked hs
      in if es = [] then []
         else filter (\<lambda>x. \<not> old_entry g h (se_seq (last es)) (ev_ts (se_event (last es))) x) (map qs_entry es))"

lemma recent_eq:
  "filter qs_tracked hs \<noteq> [] \<Longrightarrow> recent g h hs =
     filter (\<lambda>x. \<not> old_entry g h (se_seq (last (filter qs_tracked hs))) (ev_ts (se_event (last (filter qs_tracked hs)))) x)
       (map qs_entry (filter qs_tracked hs))"
  by (simp add: recent_def Let_def)

lemma recent_snoc:
  assumes ord: "feed_ordered (hs @ [se])" and t: "qs_tracked se"
  shows "dropWhile (old_entry g h (se_seq se) (ev_ts (se_event se))) (recent g h hs @ [qs_entry se]) = recent g h (hs @ [se])"
proof -
  let ?old = "old_entry g h (se_seq se) (ev_ts (se_event se))"
  let ?es = "filter qs_tracked hs"
  have le: "se_seq a \<le> se_seq se \<and> ev_ts (se_event a) \<le> ev_ts (se_event se)" if "a \<in> set hs" for a
    using ord that by (auto simp: feed_ordered_def sorted_wrt_append)
  have s: "sorted_wrt (\<lambda>a b. se_seq a \<le> se_seq b \<and> ev_ts (se_event a) \<le> ev_ts (se_event b)) (?es @ [se])"
    using ord sorted_wrt_filter [of _ "hs @ [se]" qs_tracked] t by (simp add: feed_ordered_def)
  then have srt: "sorted_wrt (\<lambda>x y. ?old y \<longrightarrow> ?old x) (map qs_entry (?es @ [se]))"
    unfolding sorted_wrt_map by (rule sorted_wrt_mono_rel [rotated]) (auto simp: qs_entry_def intro: expired_older)
  have "filter (\<lambda>x. \<not> ?old x) (recent g h hs) = filter (\<lambda>x. \<not> ?old x) (map qs_entry ?es)"
  proof (cases "?es = []")
    case False
    then have "last ?es \<in> set hs" using last_in_set [OF False] by auto
    note m = le [OF this]
    have "filter (\<lambda>x. \<not> ?old x) (filter (\<lambda>x. \<not> old_entry g h (se_seq (last ?es)) (ev_ts (se_event (last ?es))) x) (map qs_entry ?es))
        = filter (\<lambda>x. \<not> ?old x) (map qs_entry ?es)"
      unfolding filter_filter by (rule filter_cong) (use m expired_mono in \<open>auto\<close>)
    then show ?thesis unfolding recent_eq [OF False] .
  qed (simp add: recent_def)
  moreover have sub: "sorted_wrt (\<lambda>x y. ?old y \<longrightarrow> ?old x) (recent g h hs @ [qs_entry se])"
  proof -
    have "sorted_wrt (\<lambda>x y. ?old y \<longrightarrow> ?old x) (recent g h hs)"
      using srt by (auto simp: recent_def Let_def sorted_wrt_append intro: sorted_wrt_filter)
    moreover have "\<not> ?old (qs_entry se)" by (simp add: qs_entry_def expired_now)
    ultimately show ?thesis by (simp add: sorted_wrt_append)
  qed
  moreover have "\<not> ?old (qs_entry se)" by (simp add: qs_entry_def expired_now)
  moreover have "recent g h (hs @ [se]) = filter (\<lambda>x. \<not> ?old x) (map qs_entry (?es @ [se]))"
    using t by (simp add: recent_def)
  ultimately show ?thesis unfolding dropWhile_eq_filter [OF sub] by simp
qed

lemma cs_run_snoc: "cs_run rnd sq (hs @ [se]) d = fst (cs_process rnd sq se (cs_run rnd sq hs d))"
  by (simp add: cs_run_def)

lemma cs_run_window:
  assumes "feed_ordered hs" "length hs < 2 ^ 64 - 1" and d_def: "d = cs_new g h n wu sf ks mc cd"
  shows "cs_window (cs_run rnd sq hs d) = recent g h hs \<and>
    cs_cancels_in_window (cs_run rnd sq hs d) = of_nat (count_type OrderCancel (recent g h hs)) \<and>
    cs_seq_window (cs_run rnd sq hs d) = g \<and> cs_time_window_ns (cs_run rnd sq hs d) = h"
  using assms(1,2)
proof (induction hs rule: rev_induct)
  case Nil
  then show ?case by (simp add: cs_run_def d_def cs_new_def recent_def count_type_def)
next
  case (snoc se hs)
  let ?d = "cs_run rnd sq hs d"
  have IH: "cs_window ?d = recent g h hs" "cs_cancels_in_window ?d = of_nat (count_type OrderCancel (recent g h hs))"
      "cs_seq_window ?d = g" "cs_time_window_ns ?d = h"
    using snoc by (auto simp: feed_ordered_def sorted_wrt_append)
  show ?case
  proof (cases "qs_tracked se")
    case False
    then show ?thesis using IH by (simp add: cs_run_snoc cs_process_untracked recent_def)
  next
    case True
    have w: "cs_window (cs_slide se ?d) = recent g h (hs @ [se])"
      unfolding cs_slide_window IH by (rule recent_snoc [OF snoc.prems(1) True])
    have "length (recent g h hs) \<le> length hs"
      by (auto simp: recent_def Let_def intro: le_trans [OF length_filter_le])
    then have l: "length (cs_window ?d) < 2 ^ 64 - 1" using snoc.prems(2) IH(1) by simp
    show ?thesis
      using cs_slide_count [OF l, of se] IH by (simp add: cs_run_snoc cs_process_slides [OF True] w)
  qed
qed

section \<open>The detector interface\<close>

definition cs_ok :: "(rat \<Rightarrow> f64) \<Rightarrow> cancel_storm_detector \<Rightarrow> bool" where
  "cs_ok rnd d \<longleftrightarrow> unbounded rnd \<and> (\<exists>f > 0. cs_sigma_floor d = Fin f) \<and> is_fin (wf_mean (cs_welford d))"

lemma wf_update_fin:
  assumes "unbounded rnd" "is_fin x" "is_fin (wf_mean w)"
  shows "is_fin (wf_mean (wf_update rnd x w))"
proof -
  have "sat_add (wf_n w) 1 \<noteq> 0" by (rule sat_add_1_nonzero)
  then show ?thesis
    using assms by (simp add: wf_update_def Let_def is_fin_ops unbounded_rounding u64_as_f64_nonzero)
qed

lemma cs_rate_fin:
  "unbounded rnd \<Longrightarrow> is_fin (f64_div rnd (u64_as_f64 rnd c) (f64_of_nat rnd (length (cs_window (cs_slide se d)))))"
  using cs_slide_nonempty [of se d]
  by (intro is_fin_div is_fin_u64 is_fin_of_nat f64_of_nat_nonzero) (auto intro: unbounded_rounding)

lemma sigma_cases:
  assumes "0 < f"
  shows "(\<exists>s > 0. f64_max x (Fin f) = Fin s) \<or> f64_max x (Fin f) = PInf"
  using assms by (cases x) (auto simp: f64_max_def)

lemma cs_emit_score:
  assumes "cs_ok rnd d" "is_fin rate"
  shows "unit_score (ce_severity (cs_emit_flag rnd sq s t rate d))"
proof -
  have u: "unbounded rnd" and r: "rounding rnd" using assms(1) by (simp_all add: cs_ok_def unbounded_def)
  obtain f where f: "0 < f" "cs_sigma_floor d = Fin f" using assms(1) by (auto simp: cs_ok_def)
  let ?x = "f64_sub rnd rate (wf_mean (cs_welford d))"
  let ?sg = "f64_max (wf_stddev rnd sq (cs_welford d)) (Fin f)"
  have x: "is_fin ?x" using assms u by (simp add: cs_ok_def is_fin_sub)
  have "is_fin (f64_div rnd ?x ?sg)"
    using sigma_cases [OF f(1), of "wf_stddev rnd sq (cs_welford d)"] x u
    by (cases ?x) (auto simp: is_fin_rnd)
  then obtain z where z: "f64_max (f64_div rnd ?x ?sg) (Fin 0) = Fin z" "0 \<le> z"
    using f64_max_0 by blast
  have "is_fin (f64_div rnd (Fin z) (f64_add rnd (Fin z) (Fin 3)))"
    using z(2) u by (intro is_fin_div is_fin_add) (simp_all add: rnd_ge_1 [OF r])
  then show ?thesis
    unfolding cs_emit_flag_def Let_def f(2) z(1) chaos_event.select_convs by (intro unit_score_clamp is_fin_not_NaN)
qed

lemma cs_judge_refractory:
  "snd (cs_judge rnd sq se rate d) = Some ce \<Longrightarrow> cs_refractory_until d \<le> se_seq se \<and>
     cs_refractory_until (fst (cs_judge rnd sq se rate d)) = sat_add (se_seq se) (cs_cooldown_seq d)"
  "snd (cs_judge rnd sq se rate d) = None \<Longrightarrow> cs_refractory_until (fst (cs_judge rnd sq se rate d)) = cs_refractory_until d"
  by (auto simp: cs_judge_def Let_def not_less split: if_splits)

lemma cs_judge_ok:
  assumes "cs_ok rnd d" "is_fin rate"
  shows "cs_ok rnd (fst (cs_judge rnd sq se rate d))"
    "snd (cs_judge rnd sq se rate d) = Some ce \<Longrightarrow>
       ce_kind ce = CancellationStorm \<and> ce_end_seq ce = se_seq se \<and> unit_score (ce_severity ce)"
proof -
  show "cs_ok rnd (fst (cs_judge rnd sq se rate d))"
    using assms wf_update_fin [of rnd rate "cs_welford d"] by (auto simp: cs_judge_def Let_def cs_ok_def)
  show "ce_kind ce = CancellationStorm \<and> ce_end_seq ce = se_seq se \<and> unit_score (ce_severity ce)"
    if "snd (cs_judge rnd sq se rate d) = Some ce"
  proof -
    define d1 where "d1 = (if cs_consecutive_above d = 0
      then d\<lparr>cs_burst_start_seq := se_seq se, cs_burst_start_ts := ev_ts (se_event se)\<rparr> else d)"
    define d2 where "d2 = d1\<lparr>cs_consecutive_above := cs_consecutive_above d1 + 1\<rparr>"
    have d2: "cs_ok rnd d2" using assms(1) by (simp add: cs_ok_def d2_def d1_def)
    have "ce = cs_emit_flag rnd sq (se_seq se) (ev_ts (se_event se)) rate d2"
      using that unfolding cs_judge_def Let_def d1_def [symmetric] d2_def [symmetric] by (simp split: if_splits)
    then show ?thesis using cs_emit_score [OF d2 assms(2)] by (simp add: cs_emit_flag_def Let_def)
  qed
qed

interpretation cancel_storm: refractory_detector "cs_process rnd sq" "cs_ok rnd" CancellationStorm
    cs_refractory_until cs_cooldown_seq for rnd sq
proof
  fix d se ce
  let ?d1 = "cs_slide se d"
  let ?rate = "f64_div rnd (u64_as_f64 rnd (cs_cancels_in_window ?d1)) (f64_of_nat rnd (length (cs_window ?d1)))"
  note p = cs_process_tracked [of se rnd sq d, unfolded Let_def] cs_process_untracked [of se rnd sq d]
  have rate: "is_fin ?rate" if "cs_ok rnd d" using that cs_rate_fin by (simp add: cs_ok_def)
  have ok2: "cs_ok rnd (?d1\<lparr>cs_last_rate := ?rate\<rparr>)" if "cs_ok rnd d"
    using that by (simp add: cs_ok_def cs_slide_same)
  show "cs_ok rnd (fst (cs_process rnd sq se d))" if "cs_ok rnd d"
    using p cs_judge_ok(1) [OF ok2 [OF that] rate [OF that], of sq se] that wf_update_fin [of rnd ?rate "cs_welford d"] rate [OF that]
    by (cases "qs_tracked se") (auto simp: cs_ok_def cs_slide_same)
  show "ce_kind ce = CancellationStorm \<and> ce_end_seq ce = se_seq se \<and> unit_score (ce_severity ce)"
    if "cs_ok rnd d" "snd (cs_process rnd sq se d) = Some ce"
    using p cs_judge_ok(2) [OF ok2 [OF that(1)] rate [OF that(1)], of sq se ce] that(2)
    by (cases "qs_tracked se") (auto split: if_splits)
  show "cs_cooldown_seq (fst (cs_process rnd sq se d)) = cs_cooldown_seq d"
    using p by (cases "qs_tracked se") (auto simp: cs_judge_same cs_slide_same)
  show "cs_refractory_until d \<le> se_seq se \<and>
      cs_refractory_until (fst (cs_process rnd sq se d)) = sat_add (se_seq se) (cs_cooldown_seq d)"
    if "snd (cs_process rnd sq se d) = Some ce"
    using p cs_judge_refractory(1) [of rnd sq se ?rate "?d1\<lparr>cs_last_rate := ?rate\<rparr>" ce] that
    by (cases "qs_tracked se") (auto simp: cs_slide_same split: if_splits)
  show "cs_refractory_until (fst (cs_process rnd sq se d)) = cs_refractory_until d"
    if "snd (cs_process rnd sq se d) = None"
    using p cs_judge_refractory(2) [of rnd sq se ?rate "?d1\<lparr>cs_last_rate := ?rate\<rparr>"] that
    by (cases "qs_tracked se") (auto simp: cs_slide_same split: if_splits)
qed

section \<open>Properties\<close>

text \<open>
  The incremental state of the cancellation-storm detector is exact. On a feed whose sequence
  numbers and time stamps do not go backwards (and shorter than \<open>2 ^ 64 - 1\<close> events) the window holds exactly
  the tracked events inside both enabled windows as seen from the latest tracked event, and the cancel
  counter, which is only ever incremented and decremented, counts exactly the cancels among them.
\<close>

theorem storm_window_exact:
  assumes "feed_ordered hs" "length hs < 2 ^ 64 - 1"
  shows "cs_window (cs_run rnd sq hs (cs_new g h n wu sf ks mc cd)) = recent g h hs \<and>
    cs_cancels_in_window (cs_run rnd sq hs (cs_new g h n wu sf ks mc cd)) = of_nat (count_type OrderCancel (recent g h hs))"
  using cs_run_window [OF assms refl] by blast

theorem storm_window_exact_witness:
  "cs_cancels_in_window (cs_run Fin id [sample_add, sample_cancel] (cs_new 1 0 1 1 (Fin 1) (Fin 1) 1 1)) = 1"
proof -
  have "feed_ordered [sample_add, sample_cancel]"
    by (simp add: feed_ordered_def sample_add_def sample_cancel_def event_zeroed_def)
  from storm_window_exact [OF this, of Fin id 1 0 1 1 "Fin 1" "Fin 1" 1 1] show ?thesis
    by (simp add: recent_def qs_tracked_def sample_add_def sample_cancel_def event_zeroed_def event_type_from_u8_def
        qs_entry_def expired_def sat_sub_def count_type_def)
qed

text \<open>
  With exact arithmetic the Welford accumulator of any non-empty sequence of samples holds their
  number, their arithmetic mean and the sum of their squared deviations from it.
\<close>

theorem welford_exact:
  assumes "xs \<noteq> []" "length xs < 2 ^ 64"
  shows "fold (\<lambda>x. wf_update Fin (Fin x)) xs welford_default =
    \<lparr>wf_n = of_nat (length xs), wf_mean = Fin (sum_list xs / of_nat (length xs)),
     wf_m2 = Fin (sum_list (map (\<lambda>x. (x - sum_list xs / of_nat (length xs)) ^ 2) xs))\<rparr>"
  using welford_run [OF assms] by (simp add: mean_of_def sq_dev_def)

theorem welford_exact_witness:
  "fold (\<lambda>x. wf_update Fin (Fin x)) [1, 2, 6] welford_default = \<lparr>wf_n = 3, wf_mean = Fin 3, wf_m2 = Fin 14\<rparr>"
  using welford_exact [of "[1, 2, 6]"] by simp

text \<open>
  A baseline without any deviation and a floor of 0, which the constructor admits, make the score of a flag
  NaN instead of a number between 0 and 1: the deviation is divided by 0 and the infinity by itself.
\<close>

theorem storm_severity_nan:
  assumes "cs_sigma_floor d = Fin 0" "wf_stddev Fin sq (cs_welford d) = Fin 0" "wf_mean (cs_welford d) = Fin m" "m < r"
  shows "ce_severity (cs_emit_flag Fin sq s t (Fin r) d) = NaN"
  using assms by (simp add: cs_emit_flag_def Let_def f64_max_def f64_sub_def f64_clamp_def f64_lt_def)

end
