(* ===== verification/FL_MiniBook.thy ===== *)
theory FL_MiniBook
  imports FL_OrdMap
begin

text \<open>
  The mini-book that three detectors keep: per side a \<open>BTreeMap\<close> from price to aggregated quantity, capped by
  evicting the levels farthest from the best price. The detectors carry identical copies of \<open>add_qty\<close>,
  \<open>sub_qty\<close> and \<open>prune_levels\<close>; the definitions here follow \<open>chaos/src/momentum_ignition.rs\<close>.
\<close>

type_synonym side_book = "(u64, u64) omap"

text \<open>The level an over-full side loses next: the lowest bid, the highest ask.\<close>

definition evict_key :: "u8 \<Rightarrow> side_book \<Rightarrow> u64 option" where
  "evict_key sd m = (if sd = 0 then om_first_key m else om_last_key m)"

lemma evict_key_size: "evict_key sd m = Some p \<Longrightarrow> om_size (om_remove p m) < om_size m"
proof -
  assume "evict_key sd m = Some p"
  then have p: "om_lookup m p \<noteq> None"
    by (auto simp: evict_key_def om_first_key_Some om_last_key_Some split: if_splits)
  then have "om_size m \<noteq> 0" by (auto simp: om_size_0_iff)
  with p show ?thesis by (simp add: om_size_remove)
qed

function prune_levels :: "u8 \<Rightarrow> nat \<Rightarrow> side_book \<Rightarrow> side_book" where
  "prune_levels sd cap m =
     (if cap < om_size m then
        (case evict_key sd m of Some p \<Rightarrow> prune_levels sd cap (om_remove p m) | None \<Rightarrow> m)
      else m)"
  by pat_completeness auto
termination
  by (relation "measure (\<lambda>(_, _, m). om_size m)") (auto simp: evict_key_size)

declare prune_levels.simps [simp del]

definition level_qty :: "side_book \<Rightarrow> u64 \<Rightarrow> u64" where
  "level_qty m p = (case om_lookup m p of None \<Rightarrow> 0 | Some q \<Rightarrow> q)"

definition mb_add_qty :: "u8 \<Rightarrow> nat \<Rightarrow> u64 \<Rightarrow> u64 \<Rightarrow> side_book \<Rightarrow> side_book" where
  "mb_add_qty sd cap price qty m = prune_levels sd cap (om_insert price (level_qty m price + qty) m)"

definition sub_take :: "u64 \<Rightarrow> u64 \<Rightarrow> u64" where
  "sub_take qty entry = (if qty = 0 then entry else min qty entry)"

definition mb_sub_qty :: "u64 \<Rightarrow> u64 \<Rightarrow> side_book \<Rightarrow> side_book" where
  "mb_sub_qty price qty m =
     (case om_lookup m price of
        None \<Rightarrow> m
      | Some entry \<Rightarrow>
          let entry' = entry - sub_take qty entry
          in if entry' = 0 then om_remove price m else om_insert price entry' m)"

text \<open>\<open>midprice\<close> and \<open>spread\<close> of the best prices; the sum of the two prices wraps like the code's.\<close>

definition mid_of :: "u64 option \<Rightarrow> u64 option \<Rightarrow> u64 option" where
  "mid_of bb ba = (case (bb, ba) of (Some b, Some a) \<Rightarrow> if b \<le> a then Some ((a + b) div 2) else None | _ \<Rightarrow> None)"

definition spread_of :: "u64 option \<Rightarrow> u64 option \<Rightarrow> u64 option" where
  "spread_of bb ba = (case (bb, ba) of (Some b, Some a) \<Rightarrow> if b \<le> a then Some (a - b) else None | _ \<Rightarrow> None)"

definition bps_move :: "u64 \<Rightarrow> u64 \<Rightarrow> u32" where
  "bps_move from to' =
     (if from = 0 then 0
      else let diff = (if from \<le> to' then to' - from else from - to');
               bps = uint diff * 10000 div uint from
           in of_int (min bps (2 ^ 32 - 1)))"

section \<open>Pruning keeps the best levels\<close>

lemma al_remove_hd: "al_remove (fst x) (x # xs) = xs"
  by (cases x) simp

lemma al_remove_last:
  "distinct (map fst xs) \<Longrightarrow> xs \<noteq> [] \<Longrightarrow> al_remove (fst (last xs)) xs = butlast xs"
proof (induction xs)
  case (Cons x xs)
  then show ?case by (cases x; cases xs) (auto simp: image_iff)
qed simp

lemma evict_entries:
  assumes "om_entries m \<noteq> []"
  shows "\<exists>p. evict_key sd m = Some p \<and>
    om_entries (om_remove p m) = (if sd = 0 then drop 1 (om_entries m) else butlast (om_entries m))"
proof -
  obtain x xs where e: "om_entries m = x # xs" using assms by (cases "om_entries m") auto
  have d: "distinct (map fst (om_entries m))" using al_sorted_distinct [OF om_sorted] .
  show ?thesis
    using al_remove_last [OF d assms] e
    by (auto simp: evict_key_def om_first_key_def om_last_key_def om_keys_def om_remove.rep_eq al_remove_hd last_map
        simp del: al_remove.simps)
qed

lemma prune_entries:
  "om_entries (prune_levels sd cap m) =
     (if sd = 0 then drop (om_size m - cap) (om_entries m) else take cap (om_entries m))"
proof (induction sd cap m rule: prune_levels.induct)
  case (1 sd cap m)
  show ?case
  proof (cases "cap < om_size m")
    case True
    then have "om_entries m \<noteq> []" by (auto simp: om_size_def)
    from evict_entries [OF this, of sd] obtain p where
      p: "evict_key sd m = Some p" and
      e: "om_entries (om_remove p m) = (if sd = 0 then drop 1 (om_entries m) else butlast (om_entries m))"
      by blast
    have sz: "om_size (om_remove p m) = om_size m - 1" using e by (simp add: om_size_def)
    have "om_entries (prune_levels sd cap m) = om_entries (prune_levels sd cap (om_remove p m))"
      using True p by (subst prune_levels.simps) simp
    also have "\<dots> = (if sd = 0 then drop (om_size m - 1 - cap) (drop 1 (om_entries m))
        else take cap (butlast (om_entries m)))"
      using 1 [OF True p] e sz by simp
    also have "\<dots> = (if sd = 0 then drop (om_size m - cap) (om_entries m) else take cap (om_entries m))"
      using True by (simp add: om_size_def take_butlast Suc_diff_Suc)
    finally show ?thesis .
  next
    case False
    then show ?thesis by (subst prune_levels.simps) (simp add: om_size_def)
  qed
qed

lemma prune_size: "om_size (prune_levels sd cap m) = min cap (om_size m)"
  by (auto simp: om_size_def prune_entries)

lemma prune_lookup:
  "om_lookup (prune_levels sd cap m) p = Some q \<Longrightarrow> om_lookup m p = Some q"
  unfolding om_lookup_Some_iff prune_entries by (auto dest: in_set_dropD in_set_takeD split: if_splits)

lemma prune_id: "om_size m \<le> cap \<Longrightarrow> prune_levels sd cap m = m"
  by (subst prune_levels.simps) simp

lemma prune_best:
  assumes "0 < cap"
  shows "om_last_key (prune_levels 0 cap m) = om_last_key m"
    "sd \<noteq> 0 \<Longrightarrow> om_first_key (prune_levels sd cap m) = om_first_key m"
proof -
  have "om_last_key (prune_levels 0 cap m) = (if om_entries m = [] then None else Some (fst (last (om_entries m))))"
    using assms by (cases "om_entries m") (auto simp: om_last_key_def om_keys_def prune_entries om_size_def last_map last_drop)
  then show "om_last_key (prune_levels 0 cap m) = om_last_key m"
    by (simp add: om_last_key_def om_keys_def last_map)
  show "om_first_key (prune_levels sd cap m) = om_first_key m" if "sd \<noteq> 0"
    using assms that by (cases "om_entries m"; cases cap) (auto simp: om_first_key_def om_keys_def prune_entries)
qed

section \<open>Best prices under updates\<close>

lemma om_last_key_None: "om_last_key m = None \<longleftrightarrow> m = om_empty"
  by (auto simp: om_last_key_def om_keys_def om_entries_inject [symmetric])

lemma om_last_key_insert:
  "om_last_key (om_insert p v m) = (case om_last_key m of None \<Rightarrow> Some p | Some k \<Rightarrow> Some (max k p))"
proof (cases "om_last_key m")
  case None
  then have "om_last_key (om_insert p v m) = Some p" by (simp add: om_last_key_None om_last_key_Some om_lookup_insert)
  with None show ?thesis by simp
next
  case (Some k)
  then have k: "om_lookup m k \<noteq> None" "\<forall>k'. om_lookup m k' \<noteq> None \<longrightarrow> k' \<le> k" by (simp_all add: om_last_key_Some)
  have "om_last_key (om_insert p v m) = Some (max k p)"
    unfolding om_last_key_Some using k by (auto simp: om_lookup_insert max_def intro: order_trans)
  with Some show ?thesis by simp
qed

lemma om_first_key_insert:
  "om_first_key (om_insert p v m) = (case om_first_key m of None \<Rightarrow> Some p | Some k \<Rightarrow> Some (min k p))"
proof (cases "om_first_key m")
  case None
  then have "om_first_key (om_insert p v m) = Some p" by (simp add: om_first_key_None om_first_key_Some om_lookup_insert)
  with None show ?thesis by simp
next
  case (Some k)
  then have k: "om_lookup m k \<noteq> None" "\<forall>k'. om_lookup m k' \<noteq> None \<longrightarrow> k \<le> k'" by (simp_all add: om_first_key_Some)
  have "om_first_key (om_insert p v m) = Some (min k p)"
    unfolding om_first_key_Some using k by (auto simp: om_lookup_insert min_def intro: order_trans)
  with Some show ?thesis by simp
qed

lemma om_last_key_remove: "om_last_key m \<noteq> Some p \<Longrightarrow> om_last_key (om_remove p m) = om_last_key m"
proof (cases "om_last_key m")
  case None
  then show ?thesis by (simp add: om_last_key_None om_remove_absent)
next
  case (Some k)
  assume "om_last_key m \<noteq> Some p"
  with Some have "om_last_key (om_remove p m) = Some k" by (auto simp: om_last_key_Some om_lookup_remove)
  with Some show ?thesis by simp
qed

lemma om_first_key_remove: "om_first_key m \<noteq> Some p \<Longrightarrow> om_first_key (om_remove p m) = om_first_key m"
proof (cases "om_first_key m")
  case None
  then show ?thesis by (simp add: om_first_key_None om_remove_absent)
next
  case (Some k)
  assume "om_first_key m \<noteq> Some p"
  with Some have "om_first_key (om_remove p m) = Some k" by (auto simp: om_first_key_Some om_lookup_remove)
  with Some show ?thesis by simp
qed

lemma sub_take_le: "sub_take q e \<le> e"
  by (simp add: sub_take_def)

text \<open>Taking quantity from a level moves the best price only when it empties the best level.\<close>

lemma sub_best:
  assumes "om_lookup m p = Some e"
  shows "e - sub_take q e \<noteq> 0 \<or> om_last_key m \<noteq> Some p \<Longrightarrow> om_last_key (mb_sub_qty p q m) = om_last_key m"
    "e - sub_take q e \<noteq> 0 \<or> om_first_key m \<noteq> Some p \<Longrightarrow> om_first_key (mb_sub_qty p q m) = om_first_key m"
proof -
  have "om_last_key (om_insert p v m) = om_last_key m" for v
  proof (cases "om_last_key m")
    case None
    then show ?thesis using assms by (simp add: om_last_key_None)
  next
    case (Some k)
    then have "max k p = k" using assms by (auto simp: om_last_key_Some max_def min_def)
    with Some show ?thesis by (simp add: om_last_key_insert)
  qed
  then show "e - sub_take q e \<noteq> 0 \<or> om_last_key m \<noteq> Some p \<Longrightarrow> om_last_key (mb_sub_qty p q m) = om_last_key m"
    using assms by (auto simp: mb_sub_qty_def Let_def om_last_key_remove)
  have "om_first_key (om_insert p v m) = om_first_key m" for v
  proof (cases "om_first_key m")
    case None
    then show ?thesis using assms by (simp add: om_first_key_None)
  next
    case (Some k)
    then have "min k p = k" using assms by (auto simp: om_first_key_Some max_def min_def)
    with Some show ?thesis by (simp add: om_first_key_insert)
  qed
  then show "e - sub_take q e \<noteq> 0 \<or> om_first_key m \<noteq> Some p \<Longrightarrow> om_first_key (mb_sub_qty p q m) = om_first_key m"
    using assms by (auto simp: mb_sub_qty_def Let_def om_first_key_remove)
qed

end
