(* ===== verification/FL_OrderTracker.thy ===== *)
theory FL_OrderTracker
  imports FL_OrderBook
begin

text \<open>
  The order tracker of \<open>chaos/src/order_tracker.rs\<close>, with which the detectors resolve cancels and trades
  that carry only an order id, and its agreement with the reference order book.
\<close>

datatype aggressor_side = AggBuy | AggSell

record resolved_book_update =
  ru_side :: u8
  ru_price :: u64
  ru_qty :: u64

record resolved_trade =
  rt_update :: resolved_book_update
  rt_aggressor :: aggressor_side

record tracked_order =
  tk_side :: u8
  tk_price :: u64
  tk_qty :: u64

record order_tracker =
  ot_orders :: "(u64, tracked_order) omap"

definition ot_new :: order_tracker where
  "ot_new = \<lparr>ot_orders = om_empty\<rparr>"

definition anonymous_update :: "u8 \<Rightarrow> u64 \<Rightarrow> u64 \<Rightarrow> resolved_book_update option" where
  "anonymous_update sd price qty =
     (if sd = 0 \<or> sd = 1 then Some \<lparr>ru_side = sd, ru_price = price, ru_qty = qty\<rparr> else None)"

definition aggressor_from_resting_side :: "u8 \<Rightarrow> aggressor_side option" where
  "aggressor_from_resting_side sd = (if sd = 0 then Some AggSell else if sd = 1 then Some AggBuy else None)"

definition resolved_qty :: "u64 \<Rightarrow> u64 \<Rightarrow> u64" where
  "resolved_qty known_qty event_qty =
     (if event_qty = 0 \<or> known_qty \<le> event_qty then known_qty else event_qty)"

definition ot_on_add :: "event \<Rightarrow> order_tracker \<Rightarrow> order_tracker \<times> resolved_book_update option" where
  "ot_on_add e t =
     (case anonymous_update (ev_side e) (ev_price e) (ev_qty e) of
        None \<Rightarrow> (t, None)
      | Some u \<Rightarrow>
          (if ev_order_id e \<noteq> 0
           then t\<lparr>ot_orders := om_insert (ev_order_id e)
                  \<lparr>tk_side = ru_side u, tk_price = ru_price u, tk_qty = ru_qty u\<rparr> (ot_orders t)\<rparr>
           else t, Some u))"

text \<open>The consumption of a known order that \<open>on_cancel\<close> and \<open>on_trade\<close> share.\<close>

definition ot_consume :: "u64 \<Rightarrow> tracked_order \<Rightarrow> u64 \<Rightarrow> order_tracker \<Rightarrow> order_tracker" where
  "ot_consume oid meta qty t =
     t\<lparr>ot_orders := (if tk_qty meta \<le> qty then om_remove oid (ot_orders t)
        else om_insert oid (meta\<lparr>tk_qty := tk_qty meta - qty\<rparr>) (ot_orders t))\<rparr>"

definition ot_on_cancel :: "event \<Rightarrow> order_tracker \<Rightarrow> order_tracker \<times> resolved_book_update option" where
  "ot_on_cancel e t =
     (let oid = ev_order_id e;
          anonymous = (t, anonymous_update (ev_side e) (ev_price e) (ev_qty e))
      in if oid \<noteq> 0 then
           (case om_lookup (ot_orders t) oid of
              Some meta \<Rightarrow>
                let qty = resolved_qty (tk_qty meta) (ev_qty e)
                in (ot_consume oid meta qty t, Some \<lparr>ru_side = tk_side meta, ru_price = tk_price meta, ru_qty = qty\<rparr>)
            | None \<Rightarrow> if ev_price e = 0 then (t, None) else anonymous)
         else anonymous)"

definition ot_on_trade :: "event \<Rightarrow> order_tracker \<Rightarrow> order_tracker \<times> resolved_trade option" where
  "ot_on_trade e t =
     (let oid = ev_order_id e;
          anonymous = (t,
            case anonymous_update (ev_side e) (ev_price e) (ev_qty e) of
              None \<Rightarrow> None
            | Some u \<Rightarrow> map_option (\<lambda>ag. \<lparr>rt_update = u, rt_aggressor = ag\<rparr>) (aggressor_from_resting_side (ru_side u)))
      in if oid \<noteq> 0 then
           (case om_lookup (ot_orders t) oid of
              Some meta \<Rightarrow>
                let qty = resolved_qty (tk_qty meta) (ev_qty e);
                    u = \<lparr>ru_side = tk_side meta, ru_price = if ev_price e \<noteq> 0 then ev_price e else tk_price meta,
                         ru_qty = qty\<rparr>
                in (case aggressor_from_resting_side (tk_side meta) of
                      None \<Rightarrow> (t, None)
                    | Some ag \<Rightarrow> (ot_consume oid meta qty t, Some \<lparr>rt_update = u, rt_aggressor = ag\<rparr>))
            | None \<Rightarrow> if ev_price e = 0 then (t, None) else anonymous)
         else anonymous)"

section \<open>Tracked sides\<close>

text \<open>The tracker only ever holds and reports the two sides of the book.\<close>

definition ot_sides :: "order_tracker \<Rightarrow> bool" where
  "ot_sides t \<longleftrightarrow> (\<forall>oid meta. om_lookup (ot_orders t) oid = Some meta \<longrightarrow> tk_side meta = 0 \<or> tk_side meta = 1)"

lemma ot_sides_new: "ot_sides ot_new"
  by (simp add: ot_sides_def ot_new_def)

lemma anonymous_update_sides: "anonymous_update sd p q = Some u \<Longrightarrow> (ru_side u = 0 \<or> ru_side u = 1) \<and> ru_qty u = q"
  by (auto simp: anonymous_update_def split: if_splits)

lemma ot_consume_sides: "ot_sides t \<Longrightarrow> tk_side meta = 0 \<or> tk_side meta = 1 \<Longrightarrow> ot_sides (ot_consume oid meta q t)"
  by (auto simp: ot_sides_def ot_consume_def om_lookup_insert om_lookup_remove)

lemma ot_on_add_sides:
  assumes "ot_sides t"
  shows "ot_sides (fst (ot_on_add e t)) \<and> (\<forall>u. snd (ot_on_add e t) = Some u \<longrightarrow> (ru_side u = 0 \<or> ru_side u = 1) \<and> ru_qty u = ev_qty e)"
  using assms anonymous_update_sides [of "ev_side e" "ev_price e" "ev_qty e"]
  by (auto simp: ot_on_add_def ot_sides_def om_lookup_insert split: option.splits)

lemma ot_on_cancel_sides:
  assumes "ot_sides t"
  shows "ot_sides (fst (ot_on_cancel e t)) \<and> (\<forall>u. snd (ot_on_cancel e t) = Some u \<longrightarrow> ru_side u = 0 \<or> ru_side u = 1)"
proof -
  have s: "tk_side meta = 0 \<or> tk_side meta = 1" if "om_lookup (ot_orders t) oid = Some meta" for oid meta
    using assms that by (auto simp: ot_sides_def)
  show ?thesis
    using assms s anonymous_update_sides [of "ev_side e" "ev_price e" "ev_qty e"] ot_consume_sides [OF assms]
    by (auto simp: ot_on_cancel_def Let_def split: option.splits)
qed

lemma ot_on_trade_sides:
  assumes "ot_sides t"
  shows "ot_sides (fst (ot_on_trade e t)) \<and>
    (\<forall>u. snd (ot_on_trade e t) = Some u \<longrightarrow> ru_side (rt_update u) = 0 \<or> ru_side (rt_update u) = 1)"
proof -
  have s: "tk_side meta = 0 \<or> tk_side meta = 1" if "om_lookup (ot_orders t) oid = Some meta" for oid meta
    using assms that by (auto simp: ot_sides_def)
  show ?thesis
    using assms s anonymous_update_sides [of "ev_side e" "ev_price e" "ev_qty e"] ot_consume_sides [OF assms]
    by (auto simp: ot_on_trade_def Let_def split: option.splits)
qed

section \<open>Agreement with the reference book\<close>

text \<open>The dispatch on the event type that every client of the tracker performs; modifies are skipped.\<close>

definition ot_apply :: "event \<Rightarrow> order_tracker \<Rightarrow> order_tracker" where
  "ot_apply e t =
     (case event_type_from_u8 (ev_event_type e) of
        Some OrderAdd \<Rightarrow> fst (ot_on_add e t)
      | Some OrderCancel \<Rightarrow> fst (ot_on_cancel e t)
      | Some Trade \<Rightarrow> fst (ot_on_trade e t)
      | _ \<Rightarrow> t)"

text \<open>The events on which tracker and book mean the same: no modify, a real order id, no trade of quantity 0.\<close>

definition plain_event :: "event \<Rightarrow> bool" where
  "plain_event e \<longleftrightarrow> ev_order_id e \<noteq> 0 \<and> event_type_from_u8 (ev_event_type e) \<noteq> Some OrderModify \<and>
     (event_type_from_u8 (ev_event_type e) = Some Trade \<longrightarrow> ev_qty e \<noteq> 0)"

definition order_view :: "order \<Rightarrow> tracked_order" where
  "order_view o' = \<lparr>tk_side = side_code (or_side o'), tk_price = or_price o', tk_qty = or_qty o'\<rparr>"

definition tracks :: "order_tracker \<Rightarrow> order_book \<Rightarrow> bool" where
  "tracks t b \<longleftrightarrow> (\<forall>oid. om_lookup (ot_orders t) oid = map_option order_view (om_lookup (ob_orders b) oid))"

lemma ob_set_levels_orders [simp]: "ob_orders (ob_set_levels sd ls b) = ob_orders b"
  by (cases sd) simp_all

lemma tracks_add:
  assumes "tracks t b" "ev_order_id e \<noteq> 0"
  shows "tracks (fst (ot_on_add e t)) (fst (ob_add_order b e))"
proof (cases "side_from_u8 (ev_side e)")
  case None
  then have "anonymous_update (ev_side e) (ev_price e) (ev_qty e) = None"
    by (auto simp: side_from_u8_def anonymous_update_def split: if_splits)
  with assms None show ?thesis by (simp add: ot_on_add_def ob_add_order_def)
next
  case (Some sd)
  then have "ev_side e = side_code sd" by (simp add: side_from_u8_Some)
  then have "anonymous_update (ev_side e) (ev_price e) (ev_qty e) =
      Some \<lparr>ru_side = side_code sd, ru_price = ev_price e, ru_qty = ev_qty e\<rparr>"
    by (cases sd) (simp_all add: anonymous_update_def)
  with assms Some show ?thesis
    by (simp add: ot_on_add_def ob_add_order_def tracks_def Let_def om_lookup_insert order_view_def)
qed

lemma tracks_cancel:
  assumes "tracks t b" "ev_order_id e \<noteq> 0"
  shows "tracks (fst (ot_on_cancel e t)) (fst (ob_cancel_order b e))"
proof (cases "om_lookup (ob_orders b) (ev_order_id e)")
  case None
  with assms show ?thesis by (simp add: tracks_def ot_on_cancel_def ob_cancel_order_def Let_def)
next
  case (Some ord)
  have "om_lookup (ot_orders t) (ev_order_id e) = Some (order_view ord)" using assms(1) Some by (simp add: tracks_def)
  with assms Some show ?thesis
    by (cases "ev_qty e = 0 \<or> or_qty ord \<le> ev_qty e")
      (auto simp: tracks_def ot_on_cancel_def ob_cancel_order_def ot_consume_def resolved_qty_def order_view_def
        om_lookup_insert om_lookup_remove Let_def)
qed

lemma tracks_trade:
  assumes "tracks t b" "ev_order_id e \<noteq> 0" "ev_qty e \<noteq> 0"
  shows "tracks (fst (ot_on_trade e t)) (fst (ob_execute_trade b e))"
proof (cases "om_lookup (ob_orders b) (ev_order_id e)")
  case None
  with assms show ?thesis by (simp add: tracks_def ot_on_trade_def ob_execute_trade_def Let_def)
next
  case (Some ord)
  have l: "om_lookup (ot_orders t) (ev_order_id e) = Some (order_view ord)" using assms(1) Some by (simp add: tracks_def)
  obtain ag where "aggressor_from_resting_side (side_code (or_side ord)) = Some ag"
    by (cases "or_side ord") (simp_all add: aggressor_from_resting_side_def)
  with assms Some l show ?thesis
    by (cases "or_qty ord \<le> ev_qty e")
      (auto simp: tracks_def ot_on_trade_def ob_execute_trade_def ot_consume_def resolved_qty_def order_view_def
        om_lookup_insert om_lookup_remove sat_sub_def Let_def)
qed

lemma tracks_step: "tracks t b \<Longrightarrow> plain_event e \<Longrightarrow> tracks (ot_apply e t) (fst (ob_apply b e))"
  using tracks_add [of t b e] tracks_cancel [of t b e] tracks_trade [of t b e]
  by (auto simp: plain_event_def ot_apply_def ob_apply_def split: option.splits event_type.splits)

lemma tracks_run:
  "tracks t b \<Longrightarrow> \<forall>e \<in> set es. plain_event e \<Longrightarrow> tracks (fold ot_apply es t) (fold (\<lambda>e b. fst (ob_apply b e)) es b)"
  by (induction es arbitrary: t b) (simp_all add: tracks_step)

lemma tracks_new: "tracks ot_new (ob_new iid)"
  by (simp add: tracks_def ot_new_def ob_new_def)

text \<open>
  On a stream without modifies, with non-zero order ids and non-zero trade quantities, the
  tracker knows exactly the orders resting in the reference book, with side, price and remaining
  quantity; and a cancel that follows resolves to the side and price of the resting order with exactly the
  quantity by which the book reduces it.
\<close>

theorem tracker_matches_book:
  fixes iid :: u32
  assumes "\<forall>e \<in> set es. plain_event e" "ev_order_id c \<noteq> 0"
  defines "b \<equiv> fold (\<lambda>e b. fst (ob_apply b e)) es (ob_new iid)" and "t \<equiv> fold ot_apply es ot_new"
  shows "om_lookup (ot_orders t) oid = map_option order_view (om_lookup (ob_orders b) oid) \<and>
    (case om_lookup (ob_orders b) (ev_order_id c) of
       None \<Rightarrow> fst (ot_on_cancel c t) = t
     | Some ord \<Rightarrow>
         \<exists>q. snd (ot_on_cancel c t) = Some \<lparr>ru_side = side_code (or_side ord), ru_price = or_price ord, ru_qty = q\<rparr> \<and>
           unat q = unat (or_qty ord) -
             (case om_lookup (ob_orders (fst (ob_cancel_order b c))) (ev_order_id c) of
                None \<Rightarrow> 0 | Some ord' \<Rightarrow> unat (or_qty ord')))"
proof -
  have tr: "tracks t b" unfolding b_def t_def using tracks_run [OF tracks_new assms(1)] .
  have look: "om_lookup (ot_orders t) i = map_option order_view (om_lookup (ob_orders b) i)" for i
    using tr by (simp add: tracks_def)
  show ?thesis
  proof (cases "om_lookup (ob_orders b) (ev_order_id c)")
    case None
    with look assms(2) show ?thesis by (simp add: ot_on_cancel_def Let_def)
  next
    case (Some ord)
    show ?thesis
      using look assms(2) Some
      by (cases "ev_qty c = 0 \<or> or_qty ord \<le> ev_qty c")
        (auto simp: ot_on_cancel_def ob_cancel_order_def resolved_qty_def order_view_def om_lookup_insert
          om_lookup_remove Let_def unat_sub word_le_nat_alt)
  qed
qed

theorem tracker_matches_book_witness:
  "om_lookup (ot_orders (fold ot_apply [event_zeroed\<lparr>ev_event_type := 1, ev_order_id := 5, ev_qty := 10, ev_price := 3\<rparr>]
     ot_new)) 5 = Some \<lparr>tk_side = 0, tk_price = 3, tk_qty = 10\<rparr>"
  using tracker_matches_book [of "[event_zeroed\<lparr>ev_event_type := 1, ev_order_id := 5, ev_qty := 10, ev_price := 3\<rparr>]"
      "event_zeroed\<lparr>ev_event_type := 2, ev_order_id := 5\<rparr>" 5 0]
  by (simp add: plain_event_def event_type_from_u8_def event_zeroed_def ob_apply_def ob_add_order_def side_from_u8_def
      ob_new_def Let_def om_lookup_insert order_view_def)

end
