(* ===== verification/FL_Momentum.thy ===== *)
theory FL_Momentum
  imports FL_Chaos FL_MiniBook FL_OrderTracker FL_Detection
begin

text \<open>
  The momentum-ignition detector of \<open>chaos/src/momentum_ignition.rs\<close>: a mini-book, the deque of changed
  midprices inside the rolling windows, trade-pressure counters and a monotone-run state machine.
\<close>

datatype dir = DirUp | DirDown

record mid_sample =
  ms_seq :: u64
  ms_ts :: u64
  ms_mid :: u64

record momentum_ignition_detector =
  mi_bids :: side_book
  mi_asks :: side_book
  mi_order_tracker :: order_tracker
  mi_max_book_levels :: nat
  mi_mids :: "mid_sample list"
  mi_buy_pressure :: u64
  mi_sell_pressure :: u64
  mi_trades_in_window :: u64
  mi_seq_window :: u64
  mi_time_window_ns :: u64
  mi_min_move_bps :: u32
  mi_min_trades :: u64
  mi_min_consecutive :: u32
  mi_cooldown_seq :: u64
  mi_run_dir :: "dir option"
  mi_run_len :: u32
  mi_run_start_seq :: u64
  mi_run_start_ts :: u64
  mi_run_start_mid :: u64
  mi_refractory_until :: u64

definition mi_new :: "u64 \<Rightarrow> u64 \<Rightarrow> nat \<Rightarrow> u32 \<Rightarrow> u64 \<Rightarrow> u32 \<Rightarrow> u64 \<Rightarrow> momentum_ignition_detector" where
  "mi_new seq_window time_window_ns max_book_levels min_move_bps min_trades min_consecutive cooldown_seq =
     \<lparr>mi_bids = om_empty, mi_asks = om_empty, mi_order_tracker = ot_new, mi_max_book_levels = max_book_levels,
      mi_mids = [], mi_buy_pressure = 0, mi_sell_pressure = 0, mi_trades_in_window = 0, mi_seq_window = seq_window,
      mi_time_window_ns = time_window_ns, mi_min_move_bps = min_move_bps, mi_min_trades = min_trades,
      mi_min_consecutive = min_consecutive, mi_cooldown_seq = cooldown_seq, mi_run_dir = None, mi_run_len = 0,
      mi_run_start_seq = 0, mi_run_start_ts = 0, mi_run_start_mid = 0, mi_refractory_until = 0\<rparr>"

definition mi_best_bid :: "momentum_ignition_detector \<Rightarrow> u64 option" where
  "mi_best_bid d = om_last_key (mi_bids d)"

definition mi_best_ask :: "momentum_ignition_detector \<Rightarrow> u64 option" where
  "mi_best_ask d = om_first_key (mi_asks d)"

definition mi_midprice :: "momentum_ignition_detector \<Rightarrow> u64 option" where
  "mi_midprice d = mid_of (mi_best_bid d) (mi_best_ask d)"

definition mi_spread :: "momentum_ignition_detector \<Rightarrow> u64 option" where
  "mi_spread d = spread_of (mi_best_bid d) (mi_best_ask d)"

definition mi_add_qty :: "u8 \<Rightarrow> u64 \<Rightarrow> u64 \<Rightarrow> momentum_ignition_detector \<Rightarrow> momentum_ignition_detector" where
  "mi_add_qty sd price qty d =
     (if sd = 0 then d\<lparr>mi_bids := mb_add_qty sd (mi_max_book_levels d) price qty (mi_bids d)\<rparr>
      else d\<lparr>mi_asks := mb_add_qty sd (mi_max_book_levels d) price qty (mi_asks d)\<rparr>)"

definition mi_sub_qty :: "u8 \<Rightarrow> u64 \<Rightarrow> u64 \<Rightarrow> momentum_ignition_detector \<Rightarrow> momentum_ignition_detector" where
  "mi_sub_qty sd price qty d =
     (if sd = 0 then d\<lparr>mi_bids := mb_sub_qty price qty (mi_bids d)\<rparr>
      else d\<lparr>mi_asks := mb_sub_qty price qty (mi_asks d)\<rparr>)"

text \<open>The match on the event type; \<open>None\<close> is the early return on a book snapshot.\<close>

definition mi_apply :: "event_type \<Rightarrow> event \<Rightarrow> momentum_ignition_detector \<Rightarrow> momentum_ignition_detector option" where
  "mi_apply ty e d =
     (case ty of
        OrderAdd \<Rightarrow>
          (case ot_on_add e (mi_order_tracker d) of
             (t, None) \<Rightarrow> Some (d\<lparr>mi_order_tracker := t\<rparr>)
           | (t, Some u) \<Rightarrow> Some (mi_add_qty (ru_side u) (ru_price u) (ru_qty u) (d\<lparr>mi_order_tracker := t\<rparr>)))
      | OrderCancel \<Rightarrow>
          (case ot_on_cancel e (mi_order_tracker d) of
             (t, None) \<Rightarrow> Some (d\<lparr>mi_order_tracker := t\<rparr>)
           | (t, Some u) \<Rightarrow> Some (mi_sub_qty (ru_side u) (ru_price u) (ru_qty u) (d\<lparr>mi_order_tracker := t\<rparr>)))
      | OrderModify \<Rightarrow> Some d
      | Trade \<Rightarrow>
          (case ot_on_trade e (mi_order_tracker d) of
             (t, None) \<Rightarrow> Some (d\<lparr>mi_order_tracker := t\<rparr>)
           | (t, Some tr) \<Rightarrow>
               let d1 = mi_sub_qty (ru_side (rt_update tr)) (ru_price (rt_update tr)) (ru_qty (rt_update tr))
                          (d\<lparr>mi_order_tracker := t\<rparr>);
                   d2 = d1\<lparr>mi_trades_in_window := mi_trades_in_window d1 + 1\<rparr>
               in Some (case rt_aggressor tr of
                          AggBuy \<Rightarrow> d2\<lparr>mi_buy_pressure := mi_buy_pressure d2 + 1\<rparr>
                        | AggSell \<Rightarrow> d2\<lparr>mi_sell_pressure := mi_sell_pressure d2 + 1\<rparr>))
      | BookSnapshot \<Rightarrow> None)"

definition ms_expired :: "momentum_ignition_detector \<Rightarrow> u64 \<Rightarrow> u64 \<Rightarrow> mid_sample \<Rightarrow> bool" where
  "ms_expired d cur_seq cur_ts s \<longleftrightarrow>
     0 < mi_seq_window d \<and> mi_seq_window d < sat_sub cur_seq (ms_seq s) \<or>
     0 < mi_time_window_ns d \<and> mi_time_window_ns d < sat_sub cur_ts (ms_ts s)"

definition mi_evict_expired :: "u64 \<Rightarrow> u64 \<Rightarrow> momentum_ignition_detector \<Rightarrow> momentum_ignition_detector" where
  "mi_evict_expired cur_seq cur_ts d =
     (let d1 = d\<lparr>mi_mids := dropWhile (ms_expired d cur_seq cur_ts) (mi_mids d)\<rparr>
      in if mi_mids d1 = [] then d1\<lparr>mi_buy_pressure := 0, mi_sell_pressure := 0, mi_trades_in_window := 0\<rparr> else d1)"

text \<open>\<open>iter().rev().nth(1)\<close>: the sample before the last.\<close>

definition nth_back_1 :: "'a list \<Rightarrow> 'a option" where
  "nth_back_1 xs = (case rev xs of _ # y # _ \<Rightarrow> Some y | _ \<Rightarrow> None)"

definition mi_update_run :: "u64 \<Rightarrow> u64 \<Rightarrow> u64 \<Rightarrow> momentum_ignition_detector \<Rightarrow> momentum_ignition_detector" where
  "mi_update_run mid seq ts d =
     (case nth_back_1 (mi_mids d) of
        None \<Rightarrow> d\<lparr>mi_run_dir := None, mi_run_len := 1, mi_run_start_seq := seq, mi_run_start_ts := ts, mi_run_start_mid := mid\<rparr>
      | Some prev \<Rightarrow>
          if mid = ms_mid prev then d
          else
            let new_dir = (if ms_mid prev < mid then DirUp else DirDown)
            in if Some new_dir = mi_run_dir d then d\<lparr>mi_run_len := sat_add (mi_run_len d) 1\<rparr>
               else d\<lparr>mi_run_dir := Some new_dir, mi_run_len := 2, mi_run_start_seq := ms_seq prev,
                      mi_run_start_ts := ms_ts prev, mi_run_start_mid := ms_mid prev\<rparr>)"

definition mi_push_sample :: "u64 \<Rightarrow> momentum_ignition_detector \<Rightarrow> bool" where
  "mi_push_sample mid d = (mi_mids d = [] \<or> ms_mid (last (mi_mids d)) \<noteq> mid)"

definition mi_sample :: "u64 \<Rightarrow> sequenced_event \<Rightarrow> momentum_ignition_detector \<Rightarrow> momentum_ignition_detector" where
  "mi_sample mid se d =
     (let push = mi_push_sample mid d;
          d1 = (if push then d\<lparr>mi_mids := mi_mids d @ [\<lparr>ms_seq = se_seq se, ms_ts = ev_ts (se_event se), ms_mid = mid\<rparr>]\<rparr> else d);
          d2 = mi_evict_expired (se_seq se) (ev_ts (se_event se)) d1
      in if push then mi_update_run mid (se_seq se) (ev_ts (se_event se)) d2 else d2)"

definition mi_severity :: "(rat \<Rightarrow> f64) \<Rightarrow> u32 \<Rightarrow> dir \<Rightarrow> momentum_ignition_detector \<Rightarrow> f64" where
  "mi_severity rnd move_bps dr d =
     (let total_pressure = mi_buy_pressure d + mi_sell_pressure d;
          dom = (case dr of DirUp \<Rightarrow> mi_buy_pressure d | DirDown \<Rightarrow> mi_sell_pressure d);
          imbalance = (if total_pressure = 0 then Fin 0 else f64_div rnd (u64_as_f64 rnd dom) (u64_as_f64 rnd total_pressure));
          move_score = f64_clamp (Fin 0) (Fin 1) (f64_div rnd (f64_of_nat rnd (unat move_bps))
            (f64_mul rnd (f64_of_nat rnd (unat (mi_min_move_bps d))) (Fin 4)));
          imb_score = f64_clamp (Fin 0) (Fin 1) (f64_mul rnd (f64_sub rnd imbalance (rnd (5 / 10))) (Fin 2))
      in f64_clamp (Fin 0) (Fin 1) (f64_add rnd (f64_mul rnd (rnd (6 / 10)) move_score) (f64_mul rnd (rnd (4 / 10)) imb_score)))"

definition mi_flag :: "(rat \<Rightarrow> f64) \<Rightarrow> sequenced_event \<Rightarrow> u64 \<Rightarrow> dir \<Rightarrow> momentum_ignition_detector \<Rightarrow> chaos_event" where
  "mi_flag rnd se mid dr d =
     \<lparr>ce_kind = MomentumIgnition, ce_start_seq = mi_run_start_seq d, ce_end_seq = se_seq se,
      ce_start_ts_ns = mi_run_start_ts d, ce_end_ts_ns = ev_ts (se_event se),
      ce_severity = mi_severity rnd (bps_move (mi_run_start_mid d) mid) dr d, ce_initiator = None,
      ce_features = \<lparr>cf_event_count = mi_trades_in_window d,
        cf_duration_ns = sat_sub (ev_ts (se_event se)) (mi_run_start_ts d), cf_cancel_trade_ratio = Fin 0,
        cf_price_displacement = mid - mi_run_start_mid d, cf_depth_removed = 0\<rparr>\<rparr>"

definition mi_judge :: "(rat \<Rightarrow> f64) \<Rightarrow> sequenced_event \<Rightarrow> u64 \<Rightarrow> momentum_ignition_detector \<Rightarrow> momentum_ignition_detector \<times> chaos_event option" where
  "mi_judge rnd se mid d =
     (if se_seq se < mi_refractory_until d then (d, None)
      else case mi_run_dir d of
        None \<Rightarrow> (d, None)
      | Some dr \<Rightarrow>
          if mi_run_len d < mi_min_consecutive d then (d, None)
          else if mi_trades_in_window d < mi_min_trades d then (d, None)
          else if bps_move (mi_run_start_mid d) mid < mi_min_move_bps d then (d, None)
          else if \<not> (case dr of DirUp \<Rightarrow> mi_sell_pressure d < mi_buy_pressure d
                              | DirDown \<Rightarrow> mi_buy_pressure d < mi_sell_pressure d) then (d, None)
          else (d\<lparr>mi_refractory_until := sat_add (se_seq se) (mi_cooldown_seq d), mi_run_dir := None, mi_run_len := 0\<rparr>,
                Some (mi_flag rnd se mid dr d)))"

definition mi_process :: "(rat \<Rightarrow> f64) \<Rightarrow> sequenced_event \<Rightarrow> momentum_ignition_detector \<Rightarrow> momentum_ignition_detector \<times> chaos_event option" where
  "mi_process rnd se d =
     (case event_type_from_u8 (ev_event_type (se_event se)) of
        None \<Rightarrow> (d, None)
      | Some ty \<Rightarrow>
          (case mi_apply ty (se_event se) d of
             None \<Rightarrow> (d, None)
           | Some d1 \<Rightarrow>
               (case mi_midprice d1 of
                  None \<Rightarrow> (d1, None)
                | Some mid \<Rightarrow> mi_judge rnd se mid (mi_sample mid se d1))))"

end
