(* ===== verification/FL_BookTotals.thy ===== *)
theory FL_BookTotals
  imports FL_MiniBook FL_Event
begin

text \<open>
  Quantities of a mini-book summed over prices, as natural numbers: the measure in which the proofs about cached
  depths and about level quantities account for what an event adds and removes.
\<close>

definition band_sum :: "u64 \<Rightarrow> u64 \<Rightarrow> side_book \<Rightarrow> nat" where
  "band_sum lo hi m = (\<Sum>p \<in> {lo..hi}. unat (level_qty m p))"

definition book_total :: "side_book \<Rightarrow> nat" where
  "book_total m = (\<Sum>p \<in> UNIV. unat (level_qty m p))"

lemma level_qty_insert: "level_qty (om_insert p q m) = (level_qty m)(p := q)"
  by (auto simp: level_qty_def om_lookup_insert fun_eq_iff)

lemma level_qty_remove: "level_qty (om_remove p m) = (level_qty m)(p := 0)"
  by (auto simp: level_qty_def om_lookup_remove fun_eq_iff)

lemma level_qty_prune: "unat (level_qty (prune_levels sd cap m) p) \<le> unat (level_qty m p)"
  using prune_lookup [of sd cap m p] by (auto simp: level_qty_def split: option.splits)

lemma band_le_total: "band_sum lo hi m \<le> book_total m"
  unfolding band_sum_def book_total_def by (rule sum_mono2) auto

lemma sum_upd:
  "finite A \<Longrightarrow> (\<Sum>p \<in> A. unat ((f(x := v)) p)) + (if x \<in> A then unat (f x) else 0) =
     (\<Sum>p \<in> A. unat (f p)) + (if x \<in> A then unat v else 0)" for f :: "'b \<Rightarrow> 'a::len word"
proof (cases "x \<in> A")
  case True
  assume A: "finite A"
  have "(\<Sum>p \<in> A - {x}. unat ((f(x := v)) p)) = (\<Sum>p \<in> A - {x}. unat (f p))" by (rule sum.cong) auto
  with A True show ?thesis by (simp add: sum.remove)
next
  case False
  have "(\<Sum>p \<in> A. unat ((f(x := v)) p)) = (\<Sum>p \<in> A. unat (f p))" using False by (intro sum.cong) auto
  with False show ?thesis by simp
qed

lemma entries_sum: "(\<Sum>x \<leftarrow> filter (\<lambda>(p, _). P p) (om_entries m). unat (snd x)) = (\<Sum>p | P p. unat (level_qty m p))"
proof -
  let ?xs = "filter (\<lambda>(p, _). P p) (om_entries m)"
  have d: "distinct (map fst (om_entries m))" using al_sorted_distinct [OF om_sorted] .
  then have d': "distinct ?xs" "inj_on fst (set ?xs)" by (auto simp: distinct_map inj_on_def)
  have q: "level_qty m (fst x) = snd x" if "x \<in> set ?xs" for x
    using that om_lookup_Some_iff [of m "fst x" "snd x"] by (auto simp: level_qty_def)
  have "(\<Sum>x \<leftarrow> ?xs. unat (snd x)) = (\<Sum>x \<in> set ?xs. unat (snd x))" using d'(1) by (rule sum_list_distinct_conv_sum_set)
  also have "\<dots> = (\<Sum>x \<in> set ?xs. unat (level_qty m (fst x)))" using q by (intro sum.cong) auto
  also have "\<dots> = (\<Sum>p \<in> fst ` set ?xs. unat (level_qty m p))" using d'(2) by (simp add: sum.reindex)
  also have "\<dots> = (\<Sum>p | P p. unat (level_qty m p))"
  proof (rule sum.mono_neutral_left)
    show "\<forall>i \<in> {p. P p} - fst ` set ?xs. unat (level_qty m i) = 0"
    proof
      fix i assume i: "i \<in> {p. P p} - fst ` set ?xs"
      then have "om_lookup m i = None"
        using om_lookup_Some_iff [of m i] by (cases "om_lookup m i") force+
      then show "unat (level_qty m i) = 0" by (simp add: level_qty_def)
    qed
  qed auto
  finally show ?thesis .
qed

lemma unat_sum_list: "unat (sum_list ws) = sum_list (map unat ws) mod 2 ^ 64" for ws :: "u64 list"
  by (induction ws) (simp_all add: unat_word_ariths mod_add_right_eq)

lemma level_le_total: "unat (level_qty m p) \<le> book_total m"
  unfolding book_total_def by (rule member_le_sum) auto

lemma book_total_band: "book_total m = band_sum 0 (- 1) m"
proof -
  have "{0 :: u64..- 1} = UNIV" by (auto simp: word_order.extremum)
  then show ?thesis by (simp add: book_total_def band_sum_def)
qed

lemma band_upd:
  assumes "level_qty m' = (level_qty m)(p := v)"
  shows "band_sum lo hi m' + (if lo \<le> p \<and> p \<le> hi then unat (level_qty m p) else 0) =
    band_sum lo hi m + (if lo \<le> p \<and> p \<le> hi then unat v else 0)"
  using sum_upd [OF finite [of "{lo..hi}"], of "level_qty m" p v] by (simp only: band_sum_def assms atLeastAtMost_iff)

lemma band_add:
  assumes "book_total m + unat q < 2 ^ 64"
  shows "band_sum lo hi (om_insert p (level_qty m p + q) m) = band_sum lo hi m + (if lo \<le> p \<and> p \<le> hi then unat q else 0)"
proof -
  have "unat (level_qty m p) + unat q < 2 ^ 64" using level_le_total [of m p] assms by linarith
  then have "unat (level_qty m p + q) = unat (level_qty m p) + unat q" by (simp add: unat_word_ariths)
  then show ?thesis
    using band_upd [OF level_qty_insert [of p "level_qty m p + q" m], of lo hi] by (auto split: if_splits)
qed

lemma band_sub:
  assumes "om_lookup m p = Some e"
  shows "band_sum lo hi (mb_sub_qty p q m) + (if lo \<le> p \<and> p \<le> hi then unat (sub_take q e) else 0) = band_sum lo hi m"
proof -
  have e: "level_qty m p = e" using assms by (simp add: level_qty_def)
  have u: "unat (e - sub_take q e) + unat (sub_take q e) = unat e"
    using sub_take_le [of q e] by (simp add: unat_sub word_le_nat_alt)
  have "level_qty (mb_sub_qty p q m) = (level_qty m)(p := e - sub_take q e)"
    using assms by (simp add: mb_sub_qty_def Let_def level_qty_insert level_qty_remove)
  from band_upd [OF this, of lo hi] u e show ?thesis by (auto split: if_splits)
qed

lemma band_prune: "band_sum lo hi (prune_levels sd cap m) \<le> band_sum lo hi m"
  unfolding band_sum_def by (intro sum_mono level_qty_prune)

lemma total_add: "book_total m + unat q < 2 ^ 64 \<Longrightarrow> book_total (om_insert p (level_qty m p + q) m) = book_total m + unat q"
  using band_add [of m q 0 "- 1" p] by (simp add: book_total_band word_order.extremum)

lemma total_sub: "om_lookup m p = Some e \<Longrightarrow> book_total (mb_sub_qty p q m) + unat (sub_take q e) = book_total m"
  using band_sub [of m p e 0 "- 1" q] by (simp add: book_total_band word_order.extremum)

lemma total_prune: "book_total (prune_levels sd cap m) \<le> book_total m"
  by (simp add: book_total_band band_prune)

text \<open>The quantity that an event of a feed can add to a book.\<close>

definition add_qty_of :: "sequenced_event \<Rightarrow> nat" where
  "add_qty_of se = (if event_type_from_u8 (ev_event_type (se_event se)) = Some OrderAdd then unat (ev_qty (se_event se)) else 0)"

lemma book_total_empty: "book_total om_empty = 0"
  by (simp add: book_total_def level_qty_def)

section \<open>Well-formed sides\<close>

text \<open>A side that holds at most \<open>cap\<close> levels, none of them empty.\<close>

definition side_ok :: "nat \<Rightarrow> side_book \<Rightarrow> bool" where
  "side_ok cap m \<longleftrightarrow> om_size m \<le> cap \<and> (\<forall>p q. om_lookup m p = Some q \<longrightarrow> q \<noteq> 0)"

lemma side_ok_empty: "side_ok cap om_empty"
  by (simp add: side_ok_def)

lemma side_ok_add:
  assumes "side_ok cap m" "q \<noteq> 0" "book_total m + unat q < 2 ^ 64"
  shows "side_ok cap (mb_add_qty sd cap p q m) \<and> book_total (mb_add_qty sd cap p q m) \<le> book_total m + unat q"
proof -
  have "unat (level_qty m p) + unat q < 2 ^ 64" using level_le_total [of m p] assms(3) by linarith
  then have "unat (level_qty m p + q) = unat (level_qty m p) + unat q" by (simp add: unat_word_ariths)
  then have "level_qty m p + q \<noteq> 0" using assms(2) unat_eq_zero [of q] by auto
  then have pos: "om_lookup (om_insert p (level_qty m p + q) m) p' = Some q' \<Longrightarrow> q' \<noteq> 0" for p' q'
    using assms(1) by (auto simp: side_ok_def om_lookup_insert split: if_splits)
  have "side_ok cap (mb_add_qty sd cap p q m)"
    unfolding side_ok_def mb_add_qty_def prune_size using pos [OF prune_lookup] by (intro conjI allI impI) simp_all
  moreover have "book_total (mb_add_qty sd cap p q m) \<le> book_total m + unat q"
    using total_add [OF assms(3), of p] total_prune [of sd cap "om_insert p (level_qty m p + q) m"] by (simp add: mb_add_qty_def)
  ultimately show ?thesis by blast
qed

lemma side_ok_sub:
  assumes "side_ok cap m"
  shows "side_ok cap (mb_sub_qty p q m) \<and> book_total (mb_sub_qty p q m) \<le> book_total m"
proof (cases "om_lookup m p")
  case None
  then show ?thesis using assms by (simp add: mb_sub_qty_def)
next
  case (Some e)
  then have "side_ok cap (mb_sub_qty p q m)"
    using assms by (auto simp: side_ok_def mb_sub_qty_def Let_def om_lookup_insert om_lookup_remove om_size_insert om_size_remove)
  then show ?thesis using total_sub [OF Some, of q] by simp
qed

end
