(* ===== verification/FL_MomentumProperties.thy ===== *)
theory FL_MomentumProperties
  imports FL_Momentum FL_BookTotals "HOL-Library.Sublist"
begin

text \<open>
  The momentum-ignition detector reports real runs: whatever was evicted from its deque, the counters of the run
  state machine describe a strictly monotone stretch of the midprices it sampled.
\<close>

section \<open>What each stage leaves alone\<close>

definition mi_run_state :: "momentum_ignition_detector \<Rightarrow> _" where
  "mi_run_state d = (mi_mids d, mi_run_dir d, mi_run_len d, mi_run_start_seq d, mi_run_start_ts d, mi_run_start_mid d)"

definition mi_config :: "momentum_ignition_detector \<Rightarrow> _" where
  "mi_config d = (mi_seq_window d, mi_time_window_ns d, mi_min_move_bps d, mi_min_trades d, mi_min_consecutive d,
     mi_cooldown_seq d, mi_max_book_levels d)"

lemma mi_book_same:
  "mi_run_state (mi_add_qty sd p q d) = mi_run_state d" "mi_run_state (mi_sub_qty sd p q d) = mi_run_state d"
  "mi_config (mi_add_qty sd p q d) = mi_config d" "mi_config (mi_sub_qty sd p q d) = mi_config d"
  "mi_refractory_until (mi_add_qty sd p q d) = mi_refractory_until d"
  "mi_refractory_until (mi_sub_qty sd p q d) = mi_refractory_until d"
  by (simp_all add: mi_add_qty_def mi_sub_qty_def mi_run_state_def mi_config_def)

lemma mi_apply_same:
  assumes "mi_apply ty e d = Some d'"
  shows "mi_run_state d' = mi_run_state d \<and> mi_config d' = mi_config d \<and> mi_refractory_until d' = mi_refractory_until d"
proof -
  have t: "mi_run_state (d\<lparr>mi_order_tracker := t\<rparr>) = mi_run_state d" "mi_config (d\<lparr>mi_order_tracker := t\<rparr>) = mi_config d"
    "mi_refractory_until (d\<lparr>mi_order_tracker := t\<rparr>) = mi_refractory_until d" for t
    by (simp_all add: mi_run_state_def mi_config_def)
  have p: "mi_run_state (x\<lparr>mi_trades_in_window := n, mi_buy_pressure := b\<rparr>) = mi_run_state x"
    "mi_run_state (x\<lparr>mi_trades_in_window := n, mi_sell_pressure := b\<rparr>) = mi_run_state x"
    "mi_config (x\<lparr>mi_trades_in_window := n, mi_buy_pressure := b\<rparr>) = mi_config x"
    "mi_config (x\<lparr>mi_trades_in_window := n, mi_sell_pressure := b\<rparr>) = mi_config x" for x n b
    by (simp_all add: mi_run_state_def mi_config_def)
  show ?thesis
    using assms
    by (auto simp: mi_apply_def Let_def t p mi_book_same split: event_type.splits prod.splits option.splits aggressor_side.splits)
qed

lemma mi_evict_same:
  "mi_run_dir (mi_evict_expired s t d) = mi_run_dir d" "mi_run_len (mi_evict_expired s t d) = mi_run_len d"
  "mi_run_start_seq (mi_evict_expired s t d) = mi_run_start_seq d" "mi_run_start_ts (mi_evict_expired s t d) = mi_run_start_ts d"
  "mi_run_start_mid (mi_evict_expired s t d) = mi_run_start_mid d" "mi_config (mi_evict_expired s t d) = mi_config d"
  "mi_refractory_until (mi_evict_expired s t d) = mi_refractory_until d"
  "mi_mids (mi_evict_expired s t d) = dropWhile (ms_expired d s t) (mi_mids d)"
  "mi_mids (mi_evict_expired s t d) = [] \<Longrightarrow> mi_buy_pressure (mi_evict_expired s t d) = 0 \<and> mi_sell_pressure (mi_evict_expired s t d) = 0"
  by (simp_all add: mi_evict_expired_def mi_config_def Let_def split: if_splits)

lemma mi_update_run_same:
  "mi_config (mi_update_run m s t d) = mi_config d" "mi_refractory_until (mi_update_run m s t d) = mi_refractory_until d"
  "mi_mids (mi_update_run m s t d) = mi_mids d" "mi_buy_pressure (mi_update_run m s t d) = mi_buy_pressure d"
  "mi_sell_pressure (mi_update_run m s t d) = mi_sell_pressure d"
  by (auto simp: mi_update_run_def mi_config_def Let_def split: option.split)

lemma mi_sample_same:
  "mi_config (mi_sample m se d) = mi_config d" "mi_refractory_until (mi_sample m se d) = mi_refractory_until d"
  by (simp_all add: mi_sample_def Let_def mi_update_run_same mi_evict_same) (simp add: mi_config_def)

section \<open>The run state machine over the samples taken\<close>

text \<open>The samples that an event adds to the history.\<close>

definition mi_new_samples :: "sequenced_event \<Rightarrow> momentum_ignition_detector \<Rightarrow> mid_sample list" where
  "mi_new_samples se d =
     (case event_type_from_u8 (ev_event_type (se_event se)) of
        None \<Rightarrow> []
      | Some ty \<Rightarrow>
          (case mi_apply ty (se_event se) d of
             None \<Rightarrow> []
           | Some d1 \<Rightarrow>
               (case mi_midprice d1 of
                  None \<Rightarrow> []
                | Some mid \<Rightarrow>
                    if mi_push_sample mid d1 then [\<lparr>ms_seq = se_seq se, ms_ts = ev_ts (se_event se), ms_mid = mid\<rparr>] else [])))"

definition monotone_run :: "dir \<Rightarrow> mid_sample list \<Rightarrow> bool" where
  "monotone_run dr r = (case dr of DirUp \<Rightarrow> sorted_wrt (<) (map ms_mid r) | DirDown \<Rightarrow> sorted_wrt (>) (map ms_mid r))"

text \<open>A run of the history: a monotone stretch that ends with the latest sample.\<close>

definition is_run :: "mid_sample list \<Rightarrow> dir \<Rightarrow> momentum_ignition_detector \<Rightarrow> mid_sample list \<Rightarrow> bool" where
  "is_run hist dr d r \<longleftrightarrow> suffix r hist \<and> r \<noteq> [] \<and> monotone_run dr r \<and> unat (mi_run_len d) \<le> length r \<and>
     mi_run_start_seq d = ms_seq (hd r) \<and> mi_run_start_ts d = ms_ts (hd r) \<and> mi_run_start_mid d = ms_mid (hd r)"

definition mi_inv :: "mid_sample list \<Rightarrow> momentum_ignition_detector \<Rightarrow> bool" where
  "mi_inv hist d \<longleftrightarrow> suffix (mi_mids d) hist \<and> (\<forall>dr. mi_run_dir d = Some dr \<longrightarrow> (\<exists>r. is_run hist dr d r))"

lemma monotone_snoc:
  assumes "monotone_run dr r" "r \<noteq> []" "if ms_mid (last r) < ms_mid s then dr = DirUp else dr = DirDown \<and> ms_mid s < ms_mid (last r)"
  shows "monotone_run dr (r @ [s])"
proof -
  obtain q x where r: "r = q @ [x]" using assms(2) by (cases r rule: rev_cases) auto
  show ?thesis
    using assms(1,3) unfolding r by (cases dr) (auto simp: monotone_run_def sorted_wrt_append split: if_splits)
qed

lemma nth_back_1_Some: "nth_back_1 (xs @ [x]) = (if xs = [] then None else Some (last xs))"
  by (cases xs rule: rev_cases) (simp_all add: nth_back_1_def)

lemma suffix_last: "suffix xs ys \<Longrightarrow> xs \<noteq> [] \<Longrightarrow> last ys = last xs \<and> ys \<noteq> []"
  by (auto simp: suffix_def)

lemma suffix_snoc: "suffix xs ys \<Longrightarrow> suffix (xs @ [x]) (ys @ [x])"
  by (auto simp: suffix_def)

lemma dropWhile_suffix: "suffix (dropWhile P xs) xs"
  by (metis suffix_def takeWhile_dropWhile_id)

lemma mi_inv_same: "mi_run_state d' = mi_run_state d \<Longrightarrow> mi_inv hist d \<Longrightarrow> mi_inv hist d'"
  by (auto simp: mi_inv_def is_run_def mi_run_state_def)

lemma mi_inv_evict: "mi_inv hist d \<Longrightarrow> mi_inv hist (mi_evict_expired s t d)"
  using suffix_order.trans [OF dropWhile_suffix, of "mi_mids d" hist]
  by (simp add: mi_inv_def is_run_def mi_evict_same)

lemma mi_inv_update:
  assumes hist: "suffix (xs @ [s]) (hist @ [s])" and mids: "mi_mids d = xs @ [s]" and s: "s = \<lparr>ms_seq = sq, ms_ts = ts, ms_mid = mid\<rparr>"
    and run: "\<And>dr. mi_run_dir d = Some dr \<Longrightarrow> \<exists>r. is_run hist dr d r" and ne: "xs \<noteq> [] \<Longrightarrow> ms_mid (last xs) \<noteq> mid"
  shows "mi_inv (hist @ [s]) (mi_update_run mid sq ts d)"
proof (cases "xs = []")
  case True
  then show ?thesis using hist mids by (simp add: mi_inv_def mi_update_run_def nth_back_1_def)
next
  case False
  let ?nd = "if ms_mid (last xs) < mid then DirUp else DirDown"
  have sx: "suffix xs hist" using hist by (auto simp: suffix_def)
  then have lh: "last hist = last xs" "hist \<noteq> []" using suffix_last False by auto
  have up: "mi_update_run mid sq ts d = (if Some ?nd = mi_run_dir d then d\<lparr>mi_run_len := sat_add (mi_run_len d) 1\<rparr>
      else d\<lparr>mi_run_dir := Some ?nd, mi_run_len := 2, mi_run_start_seq := ms_seq (last xs),
             mi_run_start_ts := ms_ts (last xs), mi_run_start_mid := ms_mid (last xs)\<rparr>)"
    using mids False ne by (simp add: mi_update_run_def nth_back_1_Some)
  have "\<exists>r. is_run (hist @ [s]) ?nd (mi_update_run mid sq ts d) r"
  proof (cases "Some ?nd = mi_run_dir d")
    case True
    then obtain r where r: "is_run hist ?nd d r" using run [of ?nd] by force
    then have "last r = last xs" using suffix_last [of r hist] lh by (simp add: is_run_def)
    then have "monotone_run ?nd (r @ [s])"
      using r ne False by (intro monotone_snoc) (auto simp: is_run_def s)
    then have "is_run (hist @ [s]) ?nd (d\<lparr>mi_run_len := sat_add (mi_run_len d) 1\<rparr>) (r @ [s])"
      using r suffix_snoc [of r hist s] by (auto simp: is_run_def unat_sat_add)
    then show ?thesis using up True by auto
  next
    case nd: False
    have "suffix [last xs, s] (hist @ [s])"
      using lh by (cases hist rule: rev_cases) (auto simp: suffix_def)
    then have "is_run (hist @ [s]) ?nd (d\<lparr>mi_run_dir := Some ?nd, mi_run_len := 2, mi_run_start_seq := ms_seq (last xs),
        mi_run_start_ts := ms_ts (last xs), mi_run_start_mid := ms_mid (last xs)\<rparr>) [last xs, s]"
      using ne False by (auto simp: is_run_def monotone_run_def s)
    then show ?thesis using up nd by auto
  qed
  moreover have "mi_run_dir (mi_update_run mid sq ts d) = Some ?nd" using up by auto
  ultimately show ?thesis using hist mids by (auto simp: mi_inv_def mi_update_run_same)
qed

lemma dropWhile_snoc: "\<not> P x \<Longrightarrow> dropWhile P (xs @ [x]) = dropWhile P xs @ [x]"
  by (induction xs) auto

lemma dropWhile_last: "dropWhile P xs \<noteq> [] \<Longrightarrow> last (dropWhile P xs) = last xs"
  using suffix_last [OF dropWhile_suffix, of P xs] by simp

lemma mi_sample_inv:
  assumes inv: "mi_inv hist d" and s: "s = \<lparr>ms_seq = se_seq se, ms_ts = ev_ts (se_event se), ms_mid = mid\<rparr>"
  shows "mi_inv (hist @ (if mi_push_sample mid d then [s] else [])) (mi_sample mid se d)"
proof (cases "mi_push_sample mid d")
  case True
  let ?d2 = "mi_evict_expired (se_seq se) (ev_ts (se_event se)) (d\<lparr>mi_mids := mi_mids d @ [s]\<rparr>)"
  let ?xs = "dropWhile (ms_expired (d\<lparr>mi_mids := mi_mids d @ [s]\<rparr>) (se_seq se) (ev_ts (se_event se))) (mi_mids d)"
  have mids: "mi_mids ?d2 = ?xs @ [s]"
    by (simp add: mi_evict_same dropWhile_snoc s ms_expired_def)
  have sx: "suffix (?xs @ [s]) (hist @ [s])"
    using inv unfolding mi_inv_def by (intro suffix_snoc suffix_order.trans [OF dropWhile_suffix]) blast
  have run: "\<exists>r. is_run hist dr ?d2 r" if "mi_run_dir ?d2 = Some dr" for dr
    using that inv by (simp add: mi_inv_def is_run_def mi_evict_same)
  have ne: "ms_mid (last ?xs) \<noteq> mid" if "?xs \<noteq> []"
    using dropWhile_last [OF that] that True by (auto simp: mi_push_sample_def)
  from mi_inv_update [OF sx mids s run ne] True show ?thesis by (simp add: mi_sample_def Let_def s)
next
  case False
  then show ?thesis using mi_inv_evict [OF inv] by (simp add: mi_sample_def Let_def)
qed

lemma mi_sample_last:
  "mi_mids (mi_sample mid se d) \<noteq> [] \<Longrightarrow> ms_mid (last (mi_mids (mi_sample mid se d))) = mid"
  "mi_mids (mi_sample mid se d) = [] \<Longrightarrow> mi_buy_pressure (mi_sample mid se d) = 0 \<and> mi_sell_pressure (mi_sample mid se d) = 0"
  by (auto simp: mi_sample_def Let_def mi_update_run_same mi_evict_same mi_push_sample_def dropWhile_last split: if_splits)

lemma mi_judge_cases:
  obtains (quiet) "mi_judge rnd se mid d = (d, None)"
  | (flag) dr where "mi_judge rnd se mid d =
      (d\<lparr>mi_refractory_until := sat_add (se_seq se) (mi_cooldown_seq d), mi_run_dir := None, mi_run_len := 0\<rparr>,
       Some (mi_flag rnd se mid dr d))"
      "mi_run_dir d = Some dr" "mi_refractory_until d \<le> se_seq se" "mi_min_consecutive d \<le> mi_run_len d"
      "mi_min_trades d \<le> mi_trades_in_window d" "mi_min_move_bps d \<le> bps_move (mi_run_start_mid d) mid"
      "(mi_buy_pressure d, mi_sell_pressure d) \<noteq> (0, 0)"
proof (cases "mi_judge rnd se mid d = (d, None)")
  case False
  then obtain dr where dr: "mi_run_dir d = Some dr" "\<not> se_seq se < mi_refractory_until d"
    by (auto simp: mi_judge_def split: if_splits option.splits)
  with False have "\<not> mi_run_len d < mi_min_consecutive d" "\<not> mi_trades_in_window d < mi_min_trades d"
    "\<not> bps_move (mi_run_start_mid d) mid < mi_min_move_bps d"
    and al: "case dr of DirUp \<Rightarrow> mi_sell_pressure d < mi_buy_pressure d | DirDown \<Rightarrow> mi_buy_pressure d < mi_sell_pressure d"
    by (auto simp: mi_judge_def split: if_splits)
  moreover have "(mi_buy_pressure d, mi_sell_pressure d) \<noteq> (0, 0)" using al by (auto split: dir.splits)
  ultimately show thesis using dr by (intro flag [of dr]) (auto simp: mi_judge_def)
qed (rule quiet)

lemma mi_judge_inv: "mi_inv hist d \<Longrightarrow> mi_inv hist (fst (mi_judge rnd se mid d))"
  by (cases rule: mi_judge_cases [of rnd se mid d]) (simp_all add: mi_inv_def)

lemma mi_process_sampled:
  assumes "mi_process rnd se d = (d', f)" "mi_inv hist d"
  shows "mi_inv (hist @ mi_new_samples se d) d'"
    "f = Some ce \<Longrightarrow> \<exists>x mid. mi_inv (hist @ mi_new_samples se d) (mi_sample mid se x) \<and> mi_config x = mi_config d \<and>
       mi_refractory_until x = mi_refractory_until d \<and> mi_judge rnd se mid (mi_sample mid se x) = (d', Some ce)"
proof -
  have "(mi_new_samples se d = [] \<and> f = None \<and> mi_run_state d' = mi_run_state d) \<or>
    (\<exists>ty x mid. mi_apply ty (se_event se) d = Some x \<and> mi_judge rnd se mid (mi_sample mid se x) = (d', f) \<and>
       mi_new_samples se d = (if mi_push_sample mid x then [\<lparr>ms_seq = se_seq se, ms_ts = ev_ts (se_event se), ms_mid = mid\<rparr>] else []))"
    using assms(1) mi_apply_same
    by (fastforce simp: mi_process_def mi_new_samples_def split: option.splits)
  then consider (idle) "mi_new_samples se d = []" "f = None" "mi_run_state d' = mi_run_state d"
    | (judged) ty x mid where "mi_apply ty (se_event se) d = Some x" "mi_judge rnd se mid (mi_sample mid se x) = (d', f)"
        "mi_new_samples se d = (if mi_push_sample mid x then [\<lparr>ms_seq = se_seq se, ms_ts = ev_ts (se_event se), ms_mid = mid\<rparr>] else [])"
    by blast
  then have "mi_inv (hist @ mi_new_samples se d) d' \<and> (f = Some ce \<longrightarrow> (\<exists>x mid. mi_inv (hist @ mi_new_samples se d) (mi_sample mid se x) \<and>
      mi_config x = mi_config d \<and> mi_refractory_until x = mi_refractory_until d \<and> mi_judge rnd se mid (mi_sample mid se x) = (d', Some ce)))"
  proof cases
    case idle
    then show ?thesis using mi_inv_same assms(2) by simp
  next
    case (judged ty x mid)
    have x: "mi_inv hist x" using mi_inv_same mi_apply_same [OF judged(1)] assms(2) by blast
    have s: "mi_inv (hist @ mi_new_samples se d) (mi_sample mid se x)"
      unfolding judged(3) by (rule mi_sample_inv [OF x refl])
    then have "mi_inv (hist @ mi_new_samples se d) d'" using mi_judge_inv judged(2) by (metis fst_conv)
    then show ?thesis using s judged(2) mi_apply_same [OF judged(1)] by blast
  qed
  then show "mi_inv (hist @ mi_new_samples se d) d'"
    "f = Some ce \<Longrightarrow> \<exists>x mid. mi_inv (hist @ mi_new_samples se d) (mi_sample mid se x) \<and> mi_config x = mi_config d \<and>
       mi_refractory_until x = mi_refractory_until d \<and> mi_judge rnd se mid (mi_sample mid se x) = (d', Some ce)"
    by blast+
qed

text \<open>All midprices sampled over a feed, and the detector after it.\<close>

fun mi_run :: "(rat \<Rightarrow> f64) \<Rightarrow> sequenced_event list \<Rightarrow> momentum_ignition_detector \<Rightarrow> mid_sample list \<times> momentum_ignition_detector" where
  "mi_run rnd [] d = ([], d)"
| "mi_run rnd (se # ses) d =
     (let (hist, d') = mi_run rnd ses (fst (mi_process rnd se d)) in (mi_new_samples se d @ hist, d'))"

lemma mi_run_inv: "mi_inv hist d \<Longrightarrow> mi_run rnd ses d = (h, d') \<Longrightarrow> mi_inv (hist @ h) d'"
proof (induction ses arbitrary: hist d h)
  case (Cons se ses)
  obtain d1 f where p: "mi_process rnd se d = (d1, f)" by fastforce
  obtain h1 where h: "mi_run rnd ses d1 = (h1, d')" "h = mi_new_samples se d @ h1"
    using Cons.prems(2) p by (auto split: prod.splits)
  from Cons.IH [OF mi_process_sampled(1) [OF p Cons.prems(1)] h(1)] h(2) show ?case by simp
qed simp

lemma mi_config_fields:
  "mi_config d = mi_config d' \<Longrightarrow> mi_min_move_bps d = mi_min_move_bps d' \<and> mi_min_trades d = mi_min_trades d' \<and>
   mi_min_consecutive d = mi_min_consecutive d' \<and> mi_cooldown_seq d = mi_cooldown_seq d'"
  by (simp add: mi_config_def)

lemma mi_new_inv: "mi_inv [] (mi_new sw tw levels bps trades consec cd)"
  by (simp add: mi_inv_def mi_new_def)

lemma mi_flag_run:
  assumes inv: "mi_inv hist (mi_sample mid se x)" and j: "mi_judge rnd se mid (mi_sample mid se x) = (d', Some ce)"
  shows "\<exists>dr r. suffix r hist \<and> r \<noteq> [] \<and> monotone_run dr r \<and> unat (mi_min_consecutive (mi_sample mid se x)) \<le> length r \<and>
    ce_start_seq ce = ms_seq (hd r) \<and> ce_start_ts_ns ce = ms_ts (hd r) \<and> ce_end_seq ce = se_seq se \<and>
    cf_price_displacement (ce_features ce) = ms_mid (last r) - ms_mid (hd r) \<and>
    mi_min_move_bps (mi_sample mid se x) \<le> bps_move (ms_mid (hd r)) (ms_mid (last r)) \<and>
    mi_min_trades (mi_sample mid se x) \<le> cf_event_count (ce_features ce)"
proof (cases rule: mi_judge_cases [of rnd se mid "mi_sample mid se x"])
  case quiet
  then show ?thesis using j by simp
next
  case (flag dr)
  let ?y = "mi_sample mid se x"
  obtain r where r: "is_run hist dr ?y r" using inv flag(2) by (auto simp: mi_inv_def)
  have ne: "mi_mids ?y \<noteq> []" using mi_sample_last(2) [of mid se x] flag(7) by auto
  have "last r = last hist" "last hist = last (mi_mids ?y)"
    using suffix_last [of r hist] suffix_last [of "mi_mids ?y" hist] r inv ne by (simp_all add: is_run_def mi_inv_def)
  then have l: "ms_mid (last r) = mid" using mi_sample_last(1) [OF ne] by simp
  have "unat (mi_min_consecutive ?y) \<le> length r"
    using flag(4) r by (simp add: is_run_def word_le_nat_alt)
  moreover have "ce = mi_flag rnd se mid dr ?y" using flag(1) j by simp
  ultimately show ?thesis using r flag(5,6) l by (intro exI [of _ dr] exI [of _ r]) (simp add: is_run_def mi_flag_def)
qed

section \<open>The detector contract\<close>

definition mi_ok :: "(rat \<Rightarrow> f64) \<Rightarrow> momentum_ignition_detector \<Rightarrow> bool" where
  "mi_ok rnd d \<longleftrightarrow> unbounded rnd \<and> mi_min_move_bps d \<noteq> 0"

lemma mi_severity_score: "mi_ok rnd d \<Longrightarrow> unit_score (mi_severity rnd bps dr d)"
proof -
  assume ok: "mi_ok rnd d"
  then have u: "unbounded rnd" by (simp add: mi_ok_def)
  have "0 < unat (mi_min_move_bps d)" using ok unat_eq_zero [of "mi_min_move_bps d"] by (simp add: mi_ok_def)
  then have four: "f64_mul rnd (f64_of_nat rnd (unat (mi_min_move_bps d))) (Fin 4) \<noteq> Fin 0"
    using f64_scaled_nonzero [OF u, of _ 4] by simp
  show ?thesis
    using u four u64_as_f64_nonzero [OF unbounded_rounding [OF u]]
    by (simp add: mi_severity_def Let_def unit_score_clamp is_fin_not_NaN is_fin_ops)
qed

lemma mi_process_cases:
  obtains (idle) "snd (mi_process rnd se d) = None" "mi_config (fst (mi_process rnd se d)) = mi_config d"
      "mi_refractory_until (fst (mi_process rnd se d)) = mi_refractory_until d"
  | (flag) x mid dr where "mi_process rnd se d = (x\<lparr>mi_refractory_until := sat_add (se_seq se) (mi_cooldown_seq x),
        mi_run_dir := None, mi_run_len := 0\<rparr>, Some (mi_flag rnd se mid dr x))" "mi_config x = mi_config d"
      "mi_refractory_until d \<le> se_seq se"
proof -
  have "(snd (mi_process rnd se d) = None \<and> mi_config (fst (mi_process rnd se d)) = mi_config d \<and>
      mi_refractory_until (fst (mi_process rnd se d)) = mi_refractory_until d) \<or>
    (\<exists>ty y mid. mi_apply ty (se_event se) d = Some y \<and> mi_process rnd se d = mi_judge rnd se mid (mi_sample mid se y))"
    using mi_apply_same by (fastforce simp: mi_process_def split: option.splits)
  then consider "snd (mi_process rnd se d) = None" "mi_config (fst (mi_process rnd se d)) = mi_config d"
      "mi_refractory_until (fst (mi_process rnd se d)) = mi_refractory_until d"
    | ty y mid where "mi_apply ty (se_event se) d = Some y" "mi_process rnd se d = mi_judge rnd se mid (mi_sample mid se y)"
    by (elim disjE exE conjE) simp_all
  then show thesis
  proof cases
    case 1
    then show thesis by (rule idle)
  next
    case (2 ty y mid)
    have same: "mi_config (mi_sample mid se y) = mi_config d" "mi_refractory_until (mi_sample mid se y) = mi_refractory_until d"
      using mi_apply_same [OF 2(1)] by (simp_all add: mi_sample_same)
    show thesis
    proof (cases rule: mi_judge_cases [of rnd se mid "mi_sample mid se y"])
      case quiet
      then show thesis using 2(2) same by (intro idle) simp_all
    next
      case flagged: (flag dr)
      then show thesis using 2(2) same by (intro flag [of "mi_sample mid se y" mid dr]) simp_all
    qed
  qed
qed

lemma mi_process_config: "mi_config (fst (mi_process rnd se d)) = mi_config d"
  by (cases rule: mi_process_cases [of rnd se d]) (simp_all add: mi_config_def)

interpretation momentum: refractory_detector "mi_process rnd" "mi_ok rnd" MomentumIgnition mi_refractory_until mi_cooldown_seq
  for rnd
proof
  fix d se ce
  note cfg = mi_process_config [of rnd se d]
  show "mi_ok rnd (fst (mi_process rnd se d))" if "mi_ok rnd d" using that mi_config_fields [OF cfg] by (simp add: mi_ok_def)
  show "mi_cooldown_seq (fst (mi_process rnd se d)) = mi_cooldown_seq d" using mi_config_fields [OF cfg] by simp
  show "ce_kind ce = MomentumIgnition \<and> ce_end_seq ce = se_seq se \<and> unit_score (ce_severity ce)"
    if ok: "mi_ok rnd d" and f: "snd (mi_process rnd se d) = Some ce"
  proof (cases rule: mi_process_cases [of rnd se d])
    case (flag x mid dr)
    have "mi_ok rnd x" using ok mi_config_fields [OF flag(2)] by (simp add: mi_ok_def)
    then show ?thesis using flag(1) f mi_severity_score by (auto simp: mi_flag_def)
  qed (use f in simp)
  show "mi_refractory_until d \<le> se_seq se \<and>
      mi_refractory_until (fst (mi_process rnd se d)) = sat_add (se_seq se) (mi_cooldown_seq d)"
    if "snd (mi_process rnd se d) = Some ce"
    using that by (cases rule: mi_process_cases [of rnd se d]) (auto dest: mi_config_fields)
  show "mi_refractory_until (fst (mi_process rnd se d)) = mi_refractory_until d" if "snd (mi_process rnd se d) = None"
    using that by (cases rule: mi_process_cases [of rnd se d]) simp_all
qed

lemma mi_run_config: "mi_config (snd (mi_run rnd ses d)) = mi_config d"
proof (induction ses arbitrary: d)
  case (Cons se ses)
  show ?case using mi_process_config [of rnd se d] Cons.IH [of "fst (mi_process rnd se d)"] by (simp add: case_prod_unfold Let_def)
qed simp

section \<open>The mini-book is well-formed\<close>

definition mi_typed :: "nat \<Rightarrow> momentum_ignition_detector \<Rightarrow> bool" where
  "mi_typed B d \<longleftrightarrow> side_ok (mi_max_book_levels d) (mi_bids d) \<and> side_ok (mi_max_book_levels d) (mi_asks d) \<and>
     ot_sides (mi_order_tracker d) \<and> book_total (mi_bids d) + book_total (mi_asks d) \<le> B"

definition mi_book_state :: "momentum_ignition_detector \<Rightarrow> _" where
  "mi_book_state d = (mi_bids d, mi_asks d, mi_order_tracker d, mi_max_book_levels d)"

lemma mi_typed_same: "mi_book_state d' = mi_book_state d \<Longrightarrow> mi_typed B d' = mi_typed B d"
  by (simp add: mi_typed_def mi_book_state_def)

lemma mi_typed_mono: "mi_typed B d \<Longrightarrow> B \<le> B' \<Longrightarrow> mi_typed B' d"
  by (auto simp: mi_typed_def)

lemma mi_typed_add:
  assumes "mi_typed B d" "q \<noteq> 0" "B + unat q < 2 ^ 64"
  shows "mi_typed (B + unat q) (mi_add_qty sd p q d)"
  using assms side_ok_add [of "mi_max_book_levels d" "mi_bids d" q sd p] side_ok_add [of "mi_max_book_levels d" "mi_asks d" q sd p]
  by (auto simp: mi_typed_def mi_add_qty_def)

lemma mi_typed_sub: "mi_typed B d \<Longrightarrow> mi_typed B (mi_sub_qty sd p q d)"
  using side_ok_sub [of "mi_max_book_levels d" "mi_bids d" p q] side_ok_sub [of "mi_max_book_levels d" "mi_asks d" p q]
  by (auto simp: mi_typed_def mi_sub_qty_def)

lemma mi_typed_tracker: "mi_typed B d \<Longrightarrow> ot_sides t \<Longrightarrow> mi_typed B (d\<lparr>mi_order_tracker := t\<rparr>)"
  by (simp add: mi_typed_def)

lemma mi_apply_typed:
  assumes typed: "mi_typed B d" and pos: "ty = OrderAdd \<Longrightarrow> ev_qty e \<noteq> 0"
    and B: "B + (if ty = OrderAdd then unat (ev_qty e) else 0) < 2 ^ 64" and ap: "mi_apply ty e d = Some d'"
  shows "mi_typed (B + (if ty = OrderAdd then unat (ev_qty e) else 0)) d'"
proof (cases ty)
  case OrderAdd
  obtain t u where p: "ot_on_add e (mi_order_tracker d) = (t, u)" by fastforce
  have t: "ot_sides t" "\<And>v. u = Some v \<Longrightarrow> ru_qty v = ev_qty e"
    using ot_on_add_sides [of "mi_order_tracker d" e] typed p by (auto simp: mi_typed_def)
  show ?thesis
    using ap p OrderAdd pos B t(2) mi_typed_tracker [OF typed t(1)] mi_typed_add [OF mi_typed_tracker [OF typed t(1)]]
    by (cases u) (auto simp: mi_apply_def intro: mi_typed_mono)
next
  case OrderCancel
  obtain t u where p: "ot_on_cancel e (mi_order_tracker d) = (t, u)" by fastforce
  have t: "ot_sides t" using ot_on_cancel_sides [of "mi_order_tracker d" e] typed p by (auto simp: mi_typed_def)
  show ?thesis
    using ap p OrderCancel mi_typed_tracker [OF typed t] mi_typed_sub by (cases u) (auto simp: mi_apply_def)
next
  case Trade
  obtain t u where p: "ot_on_trade e (mi_order_tracker d) = (t, u)" by fastforce
  have t: "ot_sides t" using ot_on_trade_sides [of "mi_order_tracker d" e] typed p by (auto simp: mi_typed_def)
  have bumped: "mi_typed B (x\<lparr>mi_trades_in_window := n, mi_buy_pressure := b\<rparr>) = mi_typed B x"
    "mi_typed B (x\<lparr>mi_trades_in_window := n, mi_sell_pressure := b\<rparr>) = mi_typed B x" for x n b
    by (simp_all add: mi_typed_def)
  show ?thesis
    using ap p Trade mi_typed_tracker [OF typed t] mi_typed_sub
    by (cases u) (auto simp: mi_apply_def Let_def bumped split: aggressor_side.splits)
qed (use ap typed in \<open>simp_all add: mi_apply_def\<close>)

lemma mi_book_same_rest:
  "mi_book_state (mi_evict_expired s t d) = mi_book_state d" "mi_book_state (mi_update_run m s t d) = mi_book_state d"
  by (auto simp: mi_book_state_def mi_evict_expired_def mi_update_run_def Let_def split: option.split)

lemma mi_sample_book: "mi_book_state (mi_sample mid se d) = mi_book_state d"
  by (simp add: mi_sample_def Let_def mi_book_same_rest) (simp add: mi_book_state_def)

lemma mi_judge_book: "mi_book_state (fst (mi_judge rnd se mid d)) = mi_book_state d"
  by (cases rule: mi_judge_cases [of rnd se mid d]) (simp_all add: mi_book_state_def)

lemma mi_process_typed:
  assumes "mi_typed B d" "B + add_qty_of se < 2 ^ 64"
    "event_type_from_u8 (ev_event_type (se_event se)) = Some OrderAdd \<longrightarrow> ev_qty (se_event se) \<noteq> 0"
  shows "mi_typed (B + add_qty_of se) (fst (mi_process rnd se d))"
proof (cases "event_type_from_u8 (ev_event_type (se_event se))")
  case None
  then show ?thesis using assms(1) by (simp add: mi_process_def add_qty_of_def)
next
  case (Some ty)
  have a: "add_qty_of se = (if ty = OrderAdd then unat (ev_qty (se_event se)) else 0)" using Some by (simp add: add_qty_of_def)
  show ?thesis
  proof (cases "mi_apply ty (se_event se) d")
    case None
    then show ?thesis using Some assms(1) by (auto simp: mi_process_def intro: mi_typed_mono)
  next
    case ap: (Some d1)
    have "mi_typed (B + add_qty_of se) d1" unfolding a using assms Some a ap by (intro mi_apply_typed) auto
    moreover have "mi_book_state (fst (mi_process rnd se d)) = mi_book_state d1"
      using Some ap by (cases "mi_midprice d1") (simp_all add: mi_process_def mi_judge_book mi_sample_book)
    ultimately show ?thesis using mi_typed_same by blast
  qed
qed

lemma mi_run_typed:
  "mi_typed B d \<Longrightarrow> B + sum_list (map add_qty_of ses) < 2 ^ 64 \<Longrightarrow>
   \<forall>se \<in> set ses. event_type_from_u8 (ev_event_type (se_event se)) = Some OrderAdd \<longrightarrow> ev_qty (se_event se) \<noteq> 0 \<Longrightarrow>
   mi_typed (B + sum_list (map add_qty_of ses)) (snd (mi_run rnd ses d))"
proof (induction ses arbitrary: B d)
  case (Cons se ses)
  have "mi_typed (B + add_qty_of se) (fst (mi_process rnd se d))" using Cons.prems by (intro mi_process_typed) auto
  from Cons.IH [OF this] Cons.prems(2,3) show ?case by (simp add: case_prod_unfold Let_def add.assoc)
qed simp

section \<open>Properties\<close>

text \<open>
  Property C24. Every momentum-ignition flag describes a real run of the midprice. When a detector that was run
  over any feed from a new state flags the next event, the midprices it sampled so far end in a strictly
  monotone stretch of at least \<open>min_consecutive\<close> samples whose first sample is the reported start, the reported
  displacement is the distance from its first to its last midprice, that move is at least \<open>min_move_bps\<close>, and
  at least \<open>min_trades\<close> trades are reported. Eviction from the deque and earlier flags do not spoil this.
\<close>

theorem ignition_flag_sound:
  assumes run: "mi_run rnd ses (mi_new sw tw levels bps trades consec cd) = (hist, d)"
    and flag: "mi_process rnd se d = (d', Some ce)"
  shows "\<exists>dr r. suffix r (hist @ mi_new_samples se d) \<and> r \<noteq> [] \<and> monotone_run dr r \<and> unat consec \<le> length r \<and>
    ce_start_seq ce = ms_seq (hd r) \<and> ce_start_ts_ns ce = ms_ts (hd r) \<and> ce_end_seq ce = se_seq se \<and>
    cf_price_displacement (ce_features ce) = ms_mid (last r) - ms_mid (hd r) \<and>
    bps \<le> bps_move (ms_mid (hd r)) (ms_mid (last r)) \<and> trades \<le> cf_event_count (ce_features ce)"
proof -
  have inv: "mi_inv hist d" using mi_run_inv [OF mi_new_inv run] by simp
  obtain x mid where x: "mi_inv (hist @ mi_new_samples se d) (mi_sample mid se x)" "mi_config x = mi_config d"
    "mi_judge rnd se mid (mi_sample mid se x) = (d', Some ce)"
    using mi_process_sampled(2) [OF flag inv refl] by blast
  have "mi_config d = mi_config (mi_new sw tw levels bps trades consec cd)"
    using mi_run_config run by (metis snd_conv)
  then have "mi_config (mi_sample mid se x) = mi_config (mi_new sw tw levels bps trades consec cd)"
    using x(2) by (simp add: mi_sample_same)
  from mi_flag_run [OF x(1,3)] mi_config_fields [OF this] show ?thesis by (simp add: mi_new_def)
qed

definition mi_event :: "u64 \<Rightarrow> u8 \<Rightarrow> u8 \<Rightarrow> u64 \<Rightarrow> u64 \<Rightarrow> sequenced_event" where
  "mi_event n ty sd price qty =
     \<lparr>se_seq = n, se_channel_id = 0, se_event =
        event_zeroed\<lparr>ev_price := price, ev_qty := qty, ev_event_type := ty, ev_side := sd\<rparr>\<rparr>"

definition ignition_feed :: "sequenced_event list" where
  "ignition_feed = [mi_event 1 1 0 10000 5, mi_event 2 1 1 10020 5, mi_event 3 1 1 10040 5]"

theorem ignition_flag_sound_witness:
  "\<exists>ce (r :: mid_sample list). snd (mi_process Fin (mi_event 4 4 1 10020 5) (snd (mi_run Fin ignition_feed (mi_new 100 0 8 1 1 2 5)))) = Some ce \<and>
     2 \<le> length r \<and> ce_start_seq ce = ms_seq (hd r) \<and> cf_price_displacement (ce_features ce) = ms_mid (last r) - ms_mid (hd r)"
proof -
  let ?new = "mi_new 100 0 8 1 1 2 5"
  let ?p = "mi_process Fin (mi_event 4 4 1 10020 5) (snd (mi_run Fin ignition_feed ?new))"
  have "snd ?p \<noteq> None" by code_simp
  then obtain ce where ce: "snd ?p = Some ce" by blast
  then have flag: "?p = (fst ?p, Some ce)" by (simp add: prod_eq_iff)
  from ignition_flag_sound [OF prod.collapse [symmetric] flag] obtain r :: "mid_sample list" where
    "unat (2 :: u32) \<le> length r" "ce_start_seq ce = ms_seq (hd r)"
    "cf_price_displacement (ce_features ce) = ms_mid (last r) - ms_mid (hd r)" by blast
  with ce show ?thesis by (intro exI [of _ ce] exI [of _ r]) simp
qed

text \<open>
  The run itself is not confined to the rolling windows. With a window of 3 sequence numbers, midprices that
  rise every other event give a flag at sequence number 9 whose run starts at sequence number 2.
\<close>

theorem ignition_run_outlives_window:
  "(case snd (mi_process Fin (mi_event 9 4 1 10020 1) (snd (mi_run Fin
       [mi_event 1 1 0 10000 5, mi_event 2 1 1 10020 5, mi_event 4 1 0 10004 5, mi_event 6 1 0 10008 5, mi_event 8 1 0 10012 5]
       (mi_new 3 0 8 1 1 4 5)))) of
      Some ce \<Rightarrow> ce_end_seq ce = 9 \<and> ce_start_seq ce = 2
    | None \<Rightarrow> False)"
  by code_simp

text \<open>
  A flag leaves the pressure and trade counters as they are, so the next run starts from the trades of the
  previous one.
\<close>

theorem ignition_counters_survive_flag:
  "(case mi_process Fin (mi_event 4 4 1 10020 5) (snd (mi_run Fin ignition_feed (mi_new 100 0 8 1 1 2 5))) of
      (d, Some ce) \<Rightarrow> mi_buy_pressure d = 1 \<and> mi_trades_in_window d = 1
    | _ \<Rightarrow> False)"
  by code_simp

text \<open>
  The constructor admits \<open>min_move_bps = 0\<close>; a run whose move rounds to 0 basis points then has the score NaN.
\<close>

theorem ignition_severity_nan:
  assumes "rounding rnd" "mi_min_move_bps d = 0"
  shows "mi_severity rnd 0 dr d = NaN"
proof -
  have r: "rnd 0 = Fin 0" using assms(1) by (simp add: rounding_def)
  have "f64_mul rnd a NaN = NaN" for a by (cases a) (simp_all add: f64_mul_def)
  moreover have "f64_add rnd NaN y = NaN" for y by (cases y) simp_all
  ultimately show ?thesis using assms(2) r
    by (simp add: mi_severity_def Let_def f64_of_nat_def f64_mul_def [of rnd "Fin _"] f64_clamp_def f64_lt_def)
qed

text \<open>
  Property C26. The mini-book is well-formed. After any feed whose adds have a positive quantity and sum to less than
  \<open>2 ^ 64\<close>, each side of the detector's book has at most \<open>max_book_levels\<close> levels, no level is empty, and every
  tracked order is on one of the two sides.
\<close>

theorem mini_book_typed:
  assumes "sum_list (map add_qty_of ses) < 2 ^ 64"
    "\<forall>se \<in> set ses. event_type_from_u8 (ev_event_type (se_event se)) = Some OrderAdd \<longrightarrow> ev_qty (se_event se) \<noteq> 0"
    and d: "d = snd (mi_run rnd ses (mi_new sw tw levels bps trades consec cd))"
  shows "side_ok levels (mi_bids d) \<and> side_ok levels (mi_asks d) \<and> ot_sides (mi_order_tracker d)"
proof -
  have "mi_typed 0 (mi_new sw tw levels bps trades consec cd)"
    by (simp add: mi_typed_def mi_new_def side_ok_empty ot_sides_new book_total_empty)
  from mi_run_typed [OF this, of ses rnd] assms(1,2) have "mi_typed (sum_list (map add_qty_of ses)) d" by (simp add: d)
  moreover have "mi_max_book_levels d = levels"
    using mi_run_config [of rnd ses "mi_new sw tw levels bps trades consec cd"] by (simp add: d mi_config_def mi_new_def)
  ultimately show ?thesis by (simp add: mi_typed_def)
qed

theorem mini_book_typed_witness:
  "om_size (mi_bids (snd (mi_run Fin ignition_feed (mi_new 100 0 8 1 1 2 5)))) \<le> 8"
proof -
  have "sum_list (map add_qty_of ignition_feed) < 2 ^ 64"
    "\<forall>se \<in> set ignition_feed. event_type_from_u8 (ev_event_type (se_event se)) = Some OrderAdd \<longrightarrow> ev_qty (se_event se) \<noteq> 0"
    by (simp_all add: add_qty_of_def ignition_feed_def mi_event_def event_zeroed_def event_type_from_u8_def)
  from mini_book_typed [OF this refl] show ?thesis by (simp add: side_ok_def)
qed

text \<open>
  An add of quantity 0 is not filtered: it creates an empty level, which then is the best bid, although the
  documentation of \<open>best_bid\<close> promises a level with a positive quantity.
\<close>

theorem empty_level_is_best_bid:
  "0 < mi_max_book_levels d \<Longrightarrow> mi_bids d = om_empty \<Longrightarrow>
   mi_best_bid (mi_add_qty 0 p 0 d) = Some p \<and> level_qty (mi_bids (mi_add_qty 0 p 0 d)) p = 0"
  by (simp add: mi_add_qty_def mi_best_bid_def mb_add_qty_def prune_id om_size_insert om_last_key_insert
      om_last_key_None [THEN iffD2] level_qty_def om_lookup_insert)

end
