(* ===== verification/FL_FlashCrash.thy ===== *)
theory FL_FlashCrash
  imports FL_Chaos FL_MiniBook FL_OrderTracker
begin

text \<open>
  The flash-crash detector of \<open>chaos/src/flash_crash.rs\<close>: a mini-book with cached best prices, an
  incrementally maintained depth around them, and a fixed ring of snapshots taken before each event. The
  snapshot array is a list of 16 cells. Its read index is computed modulo 16 on integers, which is what
  the wrapping \<open>usize\<close> arithmetic of the code gives.
\<close>

definition snap_cap :: nat where
  "snap_cap = 16"

record top_snapshot =
  tp_seq :: u64
  tp_ts :: u64
  tp_mid :: u64
  tp_best_bid :: u64
  tp_best_ask :: u64
  tp_depth_in_band :: u64

definition top_snapshot_default :: top_snapshot where
  "top_snapshot_default = \<lparr>tp_seq = 0, tp_ts = 0, tp_mid = 0, tp_best_bid = 0, tp_best_ask = 0, tp_depth_in_band = 0\<rparr>"

datatype crash_dir = CrashDown | CrashUp

record flash_crash_detector =
  fc_bids :: side_book
  fc_asks :: side_book
  fc_order_tracker :: order_tracker
  fc_max_book_levels :: nat
  fc_cached_bb :: "u64 option"
  fc_cached_ba :: "u64 option"
  fc_snaps :: "top_snapshot list"
  fc_snap_head :: u8
  fc_snap_len :: u8
  fc_band_depth :: u64
  fc_band_depth_valid :: bool
  fc_min_gap_bps :: u32
  fc_gap_window_events :: u32
  fc_depth_band_ticks :: u64
  fc_depth_drop_pct :: f64
  fc_min_aggr_trades :: u32
  fc_cooldown_seq :: u64
  fc_buy_aggr :: u32
  fc_sell_aggr :: u32
  fc_refractory_until :: u64

definition fc_new :: "u32 \<Rightarrow> u32 \<Rightarrow> nat \<Rightarrow> u64 \<Rightarrow> f64 \<Rightarrow> u32 \<Rightarrow> u64 \<Rightarrow> flash_crash_detector" where
  "fc_new min_gap_bps gap_window_events max_book_levels depth_band_ticks depth_drop_pct min_aggr_trades cooldown_seq =
     \<lparr>fc_bids = om_empty, fc_asks = om_empty, fc_order_tracker = ot_new, fc_max_book_levels = max_book_levels,
      fc_cached_bb = None, fc_cached_ba = None, fc_snaps = replicate snap_cap top_snapshot_default,
      fc_snap_head = 0, fc_snap_len = 0, fc_band_depth = 0, fc_band_depth_valid = True, fc_min_gap_bps = min_gap_bps,
      fc_gap_window_events = gap_window_events, fc_depth_band_ticks = depth_band_ticks,
      fc_depth_drop_pct = depth_drop_pct, fc_min_aggr_trades = min_aggr_trades, fc_cooldown_seq = cooldown_seq,
      fc_buy_aggr = 0, fc_sell_aggr = 0, fc_refractory_until = 0\<rparr>"

definition fc_midprice :: "flash_crash_detector \<Rightarrow> u64 option" where
  "fc_midprice d = mid_of (fc_cached_bb d) (fc_cached_ba d)"

text \<open>\<open>range(lo..=hi)\<close> of a side, summed with the wrap-around of \<open>u64\<close>.\<close>

definition range_sum :: "u64 \<Rightarrow> u64 \<Rightarrow> side_book \<Rightarrow> u64" where
  "range_sum lo hi m = sum_list (map snd (filter (\<lambda>(p, _). lo \<le> p \<and> p \<le> hi) (om_entries m)))"

definition fc_depth_in_band_around :: "u64 \<Rightarrow> u64 \<Rightarrow> flash_crash_detector \<Rightarrow> u64" where
  "fc_depth_in_band_around bb ba d =
     sat_add (range_sum (sat_sub bb (fc_depth_band_ticks d)) bb (fc_bids d))
             (range_sum ba (sat_add ba (fc_depth_band_ticks d)) (fc_asks d))"

definition fc_depth_in_band :: "flash_crash_detector \<Rightarrow> flash_crash_detector \<times> u64" where
  "fc_depth_in_band d =
     (if fc_band_depth_valid d then (d, fc_band_depth d)
      else let v = (case (fc_cached_bb d, fc_cached_ba d) of
                      (Some bb, Some ba) \<Rightarrow> fc_depth_in_band_around bb ba d | _ \<Rightarrow> 0)
           in (d\<lparr>fc_band_depth := v, fc_band_depth_valid := True\<rparr>, v))"

definition fc_in_band_same_side :: "u8 \<Rightarrow> u64 \<Rightarrow> flash_crash_detector \<Rightarrow> bool" where
  "fc_in_band_same_side sd price d =
     (if sd = 0 then
        (case fc_cached_bb d of Some bb \<Rightarrow> sat_sub bb (fc_depth_band_ticks d) \<le> price \<and> price \<le> bb | None \<Rightarrow> False)
      else
        (case fc_cached_ba d of Some ba \<Rightarrow> ba \<le> price \<and> price \<le> sat_add ba (fc_depth_band_ticks d) | None \<Rightarrow> False))"

definition fc_book :: "u8 \<Rightarrow> flash_crash_detector \<Rightarrow> side_book" where
  "fc_book sd d = (if sd = 0 then fc_bids d else fc_asks d)"

definition fc_set_book :: "u8 \<Rightarrow> side_book \<Rightarrow> flash_crash_detector \<Rightarrow> flash_crash_detector" where
  "fc_set_book sd m d = (if sd = 0 then d\<lparr>fc_bids := m\<rparr> else d\<lparr>fc_asks := m\<rparr>)"

definition fc_add_qty :: "u8 \<Rightarrow> u64 \<Rightarrow> u64 \<Rightarrow> flash_crash_detector \<Rightarrow> flash_crash_detector" where
  "fc_add_qty sd price qty d =
     (let book = om_insert price (level_qty (fc_book sd d) price + qty) (fc_book sd d);
          book' = prune_levels sd (fc_max_book_levels d) book;
          pruned = (om_size book \<noteq> om_size book');
          d1 = fc_set_book sd book' d;
          best_moved = (if sd = 0 then (case fc_cached_bb d of Some bb \<Rightarrow> bb < price | None \<Rightarrow> True)
                        else (case fc_cached_ba d of Some ba \<Rightarrow> price < ba | None \<Rightarrow> True));
          d2 = (if best_moved then (if sd = 0 then d1\<lparr>fc_cached_bb := Some price\<rparr> else d1\<lparr>fc_cached_ba := Some price\<rparr>)
                else d1)
      in if best_moved \<or> pruned then d2\<lparr>fc_band_depth_valid := False\<rparr>
         else if fc_band_depth_valid d2 \<and> fc_in_band_same_side sd price d2
         then d2\<lparr>fc_band_depth := sat_add (fc_band_depth d2) qty\<rparr> else d2)"

definition fc_sub_qty :: "u8 \<Rightarrow> u64 \<Rightarrow> u64 \<Rightarrow> flash_crash_detector \<Rightarrow> flash_crash_detector" where
  "fc_sub_qty sd price qty d =
     (let book = fc_book sd d;
          (removed, level_emptied) =
            (case om_lookup book price of
               None \<Rightarrow> (0, False)
             | Some entry \<Rightarrow> (sub_take qty entry, entry - sub_take qty entry = 0));
          d1 = fc_set_book sd (mb_sub_qty price qty book) d;
          bb_moved = (level_emptied \<and> sd = 0 \<and> fc_cached_bb d = Some price);
          ba_moved = (level_emptied \<and> sd = 1 \<and> fc_cached_ba d = Some price);
          d2 = (if bb_moved then d1\<lparr>fc_cached_bb := om_last_key (fc_bids d1)\<rparr>
                else if ba_moved then d1\<lparr>fc_cached_ba := om_first_key (fc_asks d1)\<rparr> else d1)
      in if bb_moved \<or> ba_moved then d2\<lparr>fc_band_depth_valid := False\<rparr>
         else if fc_band_depth_valid d2 \<and> 0 < removed \<and> fc_in_band_same_side sd price d2
         then d2\<lparr>fc_band_depth := sat_sub (fc_band_depth d2) removed\<rparr> else d2)"

definition fc_push_snap :: "top_snapshot \<Rightarrow> flash_crash_detector \<Rightarrow> flash_crash_detector" where
  "fc_push_snap snap d =
     (let cap = unat (fc_gap_window_events d) + 1;
          idx = unat (fc_snap_head d)
      in d\<lparr>fc_snaps := (fc_snaps d)[idx := snap], fc_snap_head := of_nat ((idx + 1) mod snap_cap),
           fc_snap_len := (if unat (fc_snap_len d) < cap then fc_snap_len d + 1 else fc_snap_len d)\<rparr>)"

text \<open>The valid snapshots, oldest first.\<close>

definition fc_window :: "flash_crash_detector \<Rightarrow> top_snapshot list" where
  "fc_window d =
     map (\<lambda>i. fc_snaps d ! nat ((int (unat (fc_snap_head d)) + int snap_cap - int (unat (fc_snap_len d)) + int i) mod int snap_cap))
       [0..<unat (fc_snap_len d)]"

definition fc_snapshot_top :: "sequenced_event \<Rightarrow> flash_crash_detector \<Rightarrow> flash_crash_detector" where
  "fc_snapshot_top se d =
     (case fc_midprice d of
        None \<Rightarrow> d
      | Some m \<Rightarrow>
          let bb = (case fc_cached_bb d of Some b \<Rightarrow> b | None \<Rightarrow> 0);
              ba = (case fc_cached_ba d of Some a \<Rightarrow> a | None \<Rightarrow> 0);
              (d1, depth_now) = fc_depth_in_band d
          in fc_push_snap \<lparr>tp_seq = se_seq se, tp_ts = ev_ts (se_event se), tp_mid = m, tp_best_bid = bb,
               tp_best_ask = ba, tp_depth_in_band = depth_now\<rparr> d1)"

definition fc_apply :: "event_type \<Rightarrow> event \<Rightarrow> flash_crash_detector \<Rightarrow> flash_crash_detector" where
  "fc_apply ty e d =
     (case ty of
        OrderAdd \<Rightarrow>
          (case ot_on_add e (fc_order_tracker d) of
             (t, None) \<Rightarrow> d\<lparr>fc_order_tracker := t\<rparr>
           | (t, Some u) \<Rightarrow> fc_add_qty (ru_side u) (ru_price u) (ru_qty u) (d\<lparr>fc_order_tracker := t\<rparr>))
      | OrderCancel \<Rightarrow>
          (case ot_on_cancel e (fc_order_tracker d) of
             (t, None) \<Rightarrow> d\<lparr>fc_order_tracker := t\<rparr>
           | (t, Some u) \<Rightarrow> fc_sub_qty (ru_side u) (ru_price u) (ru_qty u) (d\<lparr>fc_order_tracker := t\<rparr>))
      | Trade \<Rightarrow>
          (case ot_on_trade e (fc_order_tracker d) of
             (t, None) \<Rightarrow> d\<lparr>fc_order_tracker := t\<rparr>
           | (t, Some tr) \<Rightarrow>
               let d1 = d\<lparr>fc_order_tracker := t\<rparr>;
                   d2 = (case rt_aggressor tr of
                           AggBuy \<Rightarrow> d1\<lparr>fc_buy_aggr := sat_add (fc_buy_aggr d1) 1\<rparr>
                         | AggSell \<Rightarrow> d1\<lparr>fc_sell_aggr := sat_add (fc_sell_aggr d1) 1\<rparr>)
               in fc_sub_qty (ru_side (rt_update tr)) (ru_price (rt_update tr)) (ru_qty (rt_update tr)) d2)
      | _ \<Rightarrow> d)"

definition fc_qualifies :: "flash_crash_detector \<Rightarrow> u64 \<Rightarrow> u64 \<Rightarrow> top_snapshot \<Rightarrow> bool" where
  "fc_qualifies d cur_seq mid_after snap \<longleftrightarrow>
     (let span = sat_sub cur_seq (tp_seq snap)
      in span \<noteq> 0 \<and> span \<le> ucast (fc_gap_window_events d) \<and> fc_min_gap_bps d \<le> bps_move (tp_mid snap) mid_after)"

definition depth_drop :: "(rat \<Rightarrow> f64) \<Rightarrow> u64 \<Rightarrow> u64 \<Rightarrow> f64" where
  "depth_drop rnd depth_then depth_now =
     f64_div rnd (u64_as_f64 rnd (depth_then - min depth_now depth_then)) (u64_as_f64 rnd depth_then)"

definition fc_drop_ok :: "(rat \<Rightarrow> f64) \<Rightarrow> f64 \<Rightarrow> u64 \<Rightarrow> u64 \<Rightarrow> bool" where
  "fc_drop_ok rnd pct depth_then depth_now =
     (if pct = Fin 0 then True else if depth_then = 0 then False else f64_le pct (depth_drop rnd depth_then depth_now))"

definition fc_flag :: "(rat \<Rightarrow> f64) \<Rightarrow> sequenced_event \<Rightarrow> u64 \<Rightarrow> top_snapshot \<Rightarrow> crash_dir \<Rightarrow> u64 \<Rightarrow> flash_crash_detector \<Rightarrow> chaos_event" where
  "fc_flag rnd se mid_after snap dir depth_now d =
     (let depth_then = tp_depth_in_band snap;
          gap_bps = bps_move (tp_mid snap) mid_after;
          total_aggr = max (fc_buy_aggr d + fc_sell_aggr d) 1;
          aligned_count = (case dir of CrashDown \<Rightarrow> fc_sell_aggr d | CrashUp \<Rightarrow> fc_buy_aggr d);
          imbalance = f64_div rnd (f64_of_nat rnd (unat aligned_count)) (f64_of_nat rnd (unat total_aggr));
          move_score = f64_clamp (Fin 0) (Fin 1)
            (f64_div rnd (f64_of_nat rnd (unat gap_bps)) (f64_mul rnd (f64_of_nat rnd (unat (fc_min_gap_bps d))) (Fin 4)));
          depth_score = (if 0 < depth_then then f64_clamp (Fin 0) (Fin 1) (depth_drop rnd depth_then depth_now) else Fin 0);
          severity = f64_clamp (Fin 0) (Fin 1)
            (f64_add rnd (f64_add rnd (f64_mul rnd (rnd (5 / 10)) move_score) (f64_mul rnd (rnd (3 / 10)) depth_score))
               (f64_mul rnd (rnd (2 / 10)) imbalance))
      in \<lparr>ce_kind = FlashCrash, ce_start_seq = tp_seq snap, ce_end_seq = se_seq se, ce_start_ts_ns = tp_ts snap,
          ce_end_ts_ns = ev_ts (se_event se), ce_severity = severity, ce_initiator = None,
          ce_features = \<lparr>cf_event_count = se_seq se - tp_seq snap,
            cf_duration_ns = sat_sub (ev_ts (se_event se)) (tp_ts snap), cf_cancel_trade_ratio = Fin 0,
            cf_price_displacement = mid_after - tp_mid snap, cf_depth_removed = sat_sub depth_then depth_now\<rparr>\<rparr>)"

definition fc_detect :: "(rat \<Rightarrow> f64) \<Rightarrow> sequenced_event \<Rightarrow> flash_crash_detector \<Rightarrow> flash_crash_detector \<times> chaos_event option" where
  "fc_detect rnd se d =
     (case fc_midprice d of
        None \<Rightarrow> (d, None)
      | Some mid_after \<Rightarrow>
          if se_seq se < fc_refractory_until d then (d\<lparr>fc_buy_aggr := 0, fc_sell_aggr := 0\<rparr>, None)
          else (case find (fc_qualifies d (se_seq se) mid_after) (fc_window d) of
                  None \<Rightarrow> (d, None)
                | Some snap \<Rightarrow>
                    let dir = (if mid_after < tp_mid snap then CrashDown else CrashUp);
                        depth_now = fc_depth_in_band_around (tp_best_bid snap) (tp_best_ask snap) d;
                        aligned = (case dir of CrashDown \<Rightarrow> fc_min_aggr_trades d \<le> fc_sell_aggr d
                                             | CrashUp \<Rightarrow> fc_min_aggr_trades d \<le> fc_buy_aggr d)
                    in if \<not> fc_drop_ok rnd (fc_depth_drop_pct d) (tp_depth_in_band snap) depth_now then (d, None)
                       else if \<not> aligned then (d, None)
                       else (d\<lparr>fc_refractory_until := sat_add (se_seq se) (fc_cooldown_seq d), fc_buy_aggr := 0,
                               fc_sell_aggr := 0, fc_snap_len := 0\<rparr>,
                             Some (fc_flag rnd se mid_after snap dir depth_now d))))"

definition fc_process :: "(rat \<Rightarrow> f64) \<Rightarrow> sequenced_event \<Rightarrow> flash_crash_detector \<Rightarrow> flash_crash_detector \<times> chaos_event option" where
  "fc_process rnd se d =
     (case event_type_from_u8 (ev_event_type (se_event se)) of
        None \<Rightarrow> (d, None)
      | Some ty \<Rightarrow>
          let d1 = fc_snapshot_top se d
          in if ty = BookSnapshot then (d1, None) else fc_detect rnd se (fc_apply ty (se_event se) d1))"

end
