(* ===== verification/FL_FlashCrashProperties.thy ===== *)
theory FL_FlashCrashProperties
  imports FL_FlashCrash FL_BookTotals
begin

text \<open>
  The caches of the flash-crash detector agree with the book they summarise: the cached best prices are the
  best prices, and a valid cached depth is the depth that a scan of both sides would give.
\<close>

section \<open>The depth scan\<close>

lemma range_sum_nat:
  assumes "book_total m < 2 ^ 64"
  shows "unat (range_sum lo hi m) = band_sum lo hi m"
proof -
  have "unat (range_sum lo hi m) = band_sum lo hi m mod 2 ^ 64"
    using entries_sum [of "\<lambda>p. lo \<le> p \<and> p \<le> hi" m]
    by (simp add: range_sum_def unat_sum_list band_sum_def comp_def atLeastAtMost_def atLeast_def atMost_def Collect_conj_eq)
  then show ?thesis using band_le_total [of lo hi m] assms by simp
qed

definition depth_around :: "u64 \<Rightarrow> u64 \<Rightarrow> u64 \<Rightarrow> side_book \<Rightarrow> side_book \<Rightarrow> nat" where
  "depth_around ticks bb ba bids asks =
     band_sum (sat_sub bb ticks) bb bids + band_sum ba (sat_add ba ticks) asks"

lemma depth_in_band_around_nat:
  assumes "book_total (fc_bids d) + book_total (fc_asks d) < 2 ^ 64"
  shows "unat (fc_depth_in_band_around bb ba d) = depth_around (fc_depth_band_ticks d) bb ba (fc_bids d) (fc_asks d)"
  using assms band_le_total [of "sat_sub bb (fc_depth_band_ticks d)" bb "fc_bids d"]
    band_le_total [of ba "sat_add ba (fc_depth_band_ticks d)" "fc_asks d"]
  by (simp add: fc_depth_in_band_around_def unat_sat_add range_sum_nat depth_around_def)

lemma depth_le_total: "depth_around ticks bb ba bids asks \<le> book_total bids + book_total asks"
  unfolding depth_around_def by (intro add_mono band_le_total)

section \<open>The cache invariant\<close>

definition fc_inv :: "nat \<Rightarrow> flash_crash_detector \<Rightarrow> bool" where
  "fc_inv B d \<longleftrightarrow> 0 < fc_max_book_levels d \<and> fc_cached_bb d = om_last_key (fc_bids d) \<and>
     fc_cached_ba d = om_first_key (fc_asks d) \<and> book_total (fc_bids d) + book_total (fc_asks d) \<le> B \<and>
     (fc_band_depth_valid d \<longrightarrow> (\<forall>bb ba. fc_cached_bb d = Some bb \<longrightarrow> fc_cached_ba d = Some ba \<longrightarrow>
        unat (fc_band_depth d) = depth_around (fc_depth_band_ticks d) bb ba (fc_bids d) (fc_asks d)))"

lemma prune_same_size: "om_size (prune_levels sd cap m) = om_size m \<Longrightarrow> prune_levels sd cap m = m"
  by (rule prune_id) (simp add: prune_size min_def split: if_splits)

lemma fc_inv_add_bid:
  assumes inv: "fc_inv B d" and B: "B + unat q < 2 ^ 64"
  shows "fc_inv (B + unat q) (fc_add_qty 0 p q d)"
proof -
  let ?b = "om_insert p (level_qty (fc_bids d) p + q) (fc_bids d)"
  let ?b' = "prune_levels 0 (fc_max_book_levels d) ?b"
  have cap: "0 < fc_max_book_levels d" using inv by (simp add: fc_inv_def)
  have tot: "book_total (fc_bids d) + book_total (fc_asks d) \<le> B" using inv by (simp add: fc_inv_def)
  have t: "book_total (fc_bids d) + unat q < 2 ^ 64" using tot B by linarith
  have total: "book_total ?b' + book_total (fc_asks d) \<le> B + unat q"
    using total_add [OF t, of p] total_prune [of 0 "fc_max_book_levels d" ?b] tot by linarith
  have ca: "fc_cached_ba d = om_first_key (fc_asks d)" using inv by (simp add: fc_inv_def)
  have best: "om_last_key ?b' = (case fc_cached_bb d of None \<Rightarrow> Some p | Some k \<Rightarrow> Some (max k p))"
    using inv by (simp add: prune_best [OF cap] om_last_key_insert fc_inv_def)
  consider (moved) "case fc_cached_bb d of Some bb \<Rightarrow> bb < p | None \<Rightarrow> True" "om_last_key ?b' = Some p"
    | (pruned) bb where "fc_cached_bb d = Some bb" "\<not> bb < p" "om_last_key ?b' = Some bb" "om_size ?b \<noteq> om_size ?b'"
    | (inband) bb where "fc_cached_bb d = Some bb" "\<not> bb < p" "om_last_key ?b' = Some bb" "om_size ?b = om_size ?b'"
    using best
    by (cases "fc_cached_bb d"; cases "the (fc_cached_bb d) < p"; cases "om_size ?b = om_size ?b'")
      (auto simp: max_def split: if_splits)
  then show ?thesis
  proof cases
    case moved
    then show ?thesis
      unfolding fc_inv_def using cap ca total by (simp add: fc_add_qty_def fc_book_def fc_set_book_def Let_def)
  next
    case pruned
    then show ?thesis
      unfolding fc_inv_def using cap ca total by (simp add: fc_add_qty_def fc_book_def fc_set_book_def Let_def)
  next
    case inband
    have eq: "?b' = ?b" using inband(4) by (intro prune_same_size) simp
    have inb: "fc_in_band_same_side 0 p (d\<lparr>fc_bids := ?b\<rparr>) \<longleftrightarrow> sat_sub bb (fc_depth_band_ticks d) \<le> p \<and> p \<le> bb"
      using inband(1) by (simp add: fc_in_band_same_side_def)
    have depth: "unat (fc_band_depth d) = depth_around (fc_depth_band_ticks d) bb ba (fc_bids d) (fc_asks d)"
      if "fc_band_depth_valid d" "om_first_key (fc_asks d) = Some ba" for ba
      using inv that inband(1) by (simp add: fc_inv_def)
    have sat: "unat (sat_add (fc_band_depth d) q) = unat (fc_band_depth d) + unat q"
      if "fc_band_depth_valid d" "om_first_key (fc_asks d) = Some ba" for ba
      using depth [OF that] depth_le_total [of "fc_depth_band_ticks d" bb ba "fc_bids d" "fc_asks d"] tot B
      by (simp add: unat_sat_add)
    show ?thesis
      unfolding fc_inv_def using cap ca total inband inb sat depth band_add [OF t]
      by (auto simp: fc_add_qty_def fc_book_def fc_set_book_def Let_def eq depth_around_def)
  qed
qed

lemma fc_inv_add_ask:
  assumes inv: "fc_inv B d" and B: "B + unat q < 2 ^ 64"
  shows "fc_inv (B + unat q) (fc_add_qty 1 p q d)"
proof -
  let ?b = "om_insert p (level_qty (fc_asks d) p + q) (fc_asks d)"
  let ?b' = "prune_levels 1 (fc_max_book_levels d) ?b"
  have cap: "0 < fc_max_book_levels d" using inv by (simp add: fc_inv_def)
  have tot: "book_total (fc_bids d) + book_total (fc_asks d) \<le> B" using inv by (simp add: fc_inv_def)
  have t: "book_total (fc_asks d) + unat q < 2 ^ 64" using tot B by linarith
  have total: "book_total (fc_bids d) + book_total ?b' \<le> B + unat q"
    using total_add [OF t, of p] total_prune [of 1 "fc_max_book_levels d" ?b] tot by linarith
  have cb: "fc_cached_bb d = om_last_key (fc_bids d)" using inv by (simp add: fc_inv_def)
  have best: "om_first_key ?b' = (case fc_cached_ba d of None \<Rightarrow> Some p | Some k \<Rightarrow> Some (min k p))"
    using inv by (simp add: prune_best(2) [OF cap] om_first_key_insert fc_inv_def)
  consider (moved) "case fc_cached_ba d of Some ba \<Rightarrow> p < ba | None \<Rightarrow> True" "om_first_key ?b' = Some p"
    | (pruned) ba where "fc_cached_ba d = Some ba" "\<not> p < ba" "om_first_key ?b' = Some ba" "om_size ?b \<noteq> om_size ?b'"
    | (inband) ba where "fc_cached_ba d = Some ba" "\<not> p < ba" "om_first_key ?b' = Some ba" "om_size ?b = om_size ?b'"
    using best
    by (cases "fc_cached_ba d"; cases "p < the (fc_cached_ba d)"; cases "om_size ?b = om_size ?b'")
      (auto simp: min_def split: if_splits)
  then show ?thesis
  proof cases
    case moved
    then show ?thesis
      unfolding fc_inv_def using cap cb total by (simp add: fc_add_qty_def fc_book_def fc_set_book_def Let_def)
  next
    case pruned
    then show ?thesis
      unfolding fc_inv_def using cap cb total by (simp add: fc_add_qty_def fc_book_def fc_set_book_def Let_def)
  next
    case inband
    have eq: "?b' = ?b" using inband(4) by (intro prune_same_size) simp
    have inb: "fc_in_band_same_side 1 p (d\<lparr>fc_asks := ?b\<rparr>) \<longleftrightarrow> ba \<le> p \<and> p \<le> sat_add ba (fc_depth_band_ticks d)"
      using inband(1) by (simp add: fc_in_band_same_side_def)
    have depth: "unat (fc_band_depth d) = depth_around (fc_depth_band_ticks d) bb ba (fc_bids d) (fc_asks d)"
      if "fc_band_depth_valid d" "om_last_key (fc_bids d) = Some bb" for bb
      using inv that inband(1) by (simp add: fc_inv_def)
    have sat: "unat (sat_add (fc_band_depth d) q) = unat (fc_band_depth d) + unat q"
      if "fc_band_depth_valid d" "om_last_key (fc_bids d) = Some bb" for bb
      using depth [OF that] depth_le_total [of "fc_depth_band_ticks d" bb ba "fc_bids d" "fc_asks d"] tot B
      by (simp add: unat_sat_add)
    show ?thesis
      unfolding fc_inv_def using cap cb total inband inb sat depth band_add [OF t]
      by (auto simp: fc_add_qty_def fc_book_def fc_set_book_def Let_def eq depth_around_def)
  qed
qed

lemma fc_inv_sub_bid:
  assumes inv: "fc_inv B d" and B: "B < 2 ^ 64"
  shows "fc_inv B (fc_sub_qty 0 p q d)"
proof (cases "om_lookup (fc_bids d) p")
  case None
  then have "fc_sub_qty 0 p q d = d" by (simp add: fc_sub_qty_def fc_book_def fc_set_book_def mb_sub_qty_def Let_def)
  then show ?thesis using inv by simp
next
  case (Some e)
  let ?b = "mb_sub_qty p q (fc_bids d)"
  have cap: "0 < fc_max_book_levels d" and ca: "fc_cached_ba d = om_first_key (fc_asks d)"
    and cb: "fc_cached_bb d = om_last_key (fc_bids d)" and tot: "book_total (fc_bids d) + book_total (fc_asks d) \<le> B"
    using inv by (simp_all add: fc_inv_def)
  have total: "book_total ?b + book_total (fc_asks d) \<le> B" using total_sub [OF Some, of q] tot by linarith
  show ?thesis
  proof (cases "e - sub_take q e = 0 \<and> om_last_key (fc_bids d) = Some p")
    case True
    then show ?thesis
      unfolding fc_inv_def using cap ca cb total Some by (simp add: fc_sub_qty_def fc_book_def fc_set_book_def Let_def)
  next
    case False
    have best: "om_last_key ?b = om_last_key (fc_bids d)" using False by (intro sub_best(1) [OF Some]) blast
    have depth: "unat (if 0 < sub_take q e \<and> fc_in_band_same_side 0 p d then sat_sub (fc_band_depth d) (sub_take q e)
        else fc_band_depth d) = depth_around (fc_depth_band_ticks d) bb ba ?b (fc_asks d)"
      if v: "fc_band_depth_valid d" "om_last_key (fc_bids d) = Some bb" "om_first_key (fc_asks d) = Some ba" for bb ba
    proof -
      have inb: "fc_in_band_same_side 0 p d \<longleftrightarrow> (sat_sub bb (fc_depth_band_ticks d)) \<le> p \<and> p \<le> bb"
        using v ca cb by (simp add: fc_in_band_same_side_def)
      have "unat (fc_band_depth d) = depth_around (fc_depth_band_ticks d) bb ba (fc_bids d) (fc_asks d)"
        using inv v by (simp add: fc_inv_def)
      moreover have "unat (sub_take q e) = 0" if "\<not> 0 < sub_take q e" using that by (simp add: word_gt_0)
      ultimately show ?thesis
        using band_sub [OF Some, of "(sat_sub bb (fc_depth_band_ticks d))" "bb" q, folded inb] unfolding depth_around_def
        by (cases "fc_in_band_same_side 0 p d"; cases "0 < sub_take q e") (simp_all add: unat_sat_sub)
    qed
    have same: "fc_in_band_same_side 0 p (d\<lparr>fc_bids := m\<rparr>) = fc_in_band_same_side 0 p d" for m
      by (simp add: fc_in_band_same_side_def split: option.split)
    show ?thesis
      unfolding fc_inv_def using cap ca cb total Some False best depth
      by (auto simp: fc_sub_qty_def fc_book_def fc_set_book_def Let_def same)
  qed
qed

lemma fc_inv_sub_ask:
  assumes inv: "fc_inv B d" and B: "B < 2 ^ 64"
  shows "fc_inv B (fc_sub_qty 1 p q d)"
proof (cases "om_lookup (fc_asks d) p")
  case None
  then have "fc_sub_qty 1 p q d = d" by (simp add: fc_sub_qty_def fc_book_def fc_set_book_def mb_sub_qty_def Let_def)
  then show ?thesis using inv by simp
next
  case (Some e)
  let ?b = "mb_sub_qty p q (fc_asks d)"
  have cap: "0 < fc_max_book_levels d" and ca: "fc_cached_ba d = om_first_key (fc_asks d)"
    and cb: "fc_cached_bb d = om_last_key (fc_bids d)" and tot: "book_total (fc_bids d) + book_total (fc_asks d) \<le> B"
    using inv by (simp_all add: fc_inv_def)
  have total: "book_total (fc_bids d) + book_total ?b \<le> B" using total_sub [OF Some, of q] tot by linarith
  show ?thesis
  proof (cases "e - sub_take q e = 0 \<and> om_first_key (fc_asks d) = Some p")
    case True
    then show ?thesis
      unfolding fc_inv_def using cap ca cb total Some by (simp add: fc_sub_qty_def fc_book_def fc_set_book_def Let_def)
  next
    case False
    have best: "om_first_key ?b = om_first_key (fc_asks d)" using False by (intro sub_best(2) [OF Some]) blast
    have depth: "unat (if 0 < sub_take q e \<and> fc_in_band_same_side 1 p d then sat_sub (fc_band_depth d) (sub_take q e)
        else fc_band_depth d) = depth_around (fc_depth_band_ticks d) bb ba (fc_bids d) ?b"
      if v: "fc_band_depth_valid d" "om_last_key (fc_bids d) = Some bb" "om_first_key (fc_asks d) = Some ba" for bb ba
    proof -
      have inb: "fc_in_band_same_side 1 p d \<longleftrightarrow> ba \<le> p \<and> p \<le> (sat_add ba (fc_depth_band_ticks d))"
        using v ca cb by (simp add: fc_in_band_same_side_def)
      have "unat (fc_band_depth d) = depth_around (fc_depth_band_ticks d) bb ba (fc_bids d) (fc_asks d)"
        using inv v by (simp add: fc_inv_def)
      moreover have "unat (sub_take q e) = 0" if "\<not> 0 < sub_take q e" using that by (simp add: word_gt_0)
      ultimately show ?thesis
        using band_sub [OF Some, of "ba" "(sat_add ba (fc_depth_band_ticks d))" q, folded inb] unfolding depth_around_def
        by (cases "fc_in_band_same_side 1 p d"; cases "0 < sub_take q e") (simp_all add: unat_sat_sub)
    qed
    have same: "fc_in_band_same_side 1 p (d\<lparr>fc_asks := m\<rparr>) = fc_in_band_same_side 1 p d" for m
      by (simp add: fc_in_band_same_side_def split: option.split)
    show ?thesis
      unfolding fc_inv_def using cap ca cb total Some False best depth
      by (auto simp: fc_sub_qty_def fc_book_def fc_set_book_def Let_def same)
  qed
qed

section \<open>Over a feed\<close>

lemma fc_inv_mono: "fc_inv B d \<Longrightarrow> B \<le> B' \<Longrightarrow> fc_inv B' d"
  by (auto simp: fc_inv_def)

lemma fc_inv_same:
  "fc_inv B d \<Longrightarrow> fc_max_book_levels d' = fc_max_book_levels d \<Longrightarrow> fc_bids d' = fc_bids d \<Longrightarrow> fc_asks d' = fc_asks d \<Longrightarrow>
   fc_cached_bb d' = fc_cached_bb d \<Longrightarrow> fc_cached_ba d' = fc_cached_ba d \<Longrightarrow> fc_band_depth d' = fc_band_depth d \<Longrightarrow>
   fc_band_depth_valid d' = fc_band_depth_valid d \<Longrightarrow> fc_depth_band_ticks d' = fc_depth_band_ticks d \<Longrightarrow> fc_inv B d'"
  by (simp add: fc_inv_def)

lemma fc_inv_add: "fc_inv B d \<Longrightarrow> B + unat q < 2 ^ 64 \<Longrightarrow> sd = 0 \<or> sd = 1 \<Longrightarrow> fc_inv (B + unat q) (fc_add_qty sd p q d)"
  using fc_inv_add_bid fc_inv_add_ask by blast

lemma fc_inv_sub: "fc_inv B d \<Longrightarrow> B < 2 ^ 64 \<Longrightarrow> sd = 0 \<or> sd = 1 \<Longrightarrow> fc_inv B (fc_sub_qty sd p q d)"
  using fc_inv_sub_bid fc_inv_sub_ask by blast

lemma fc_add_tracker: "fc_order_tracker (fc_add_qty sd p q d) = fc_order_tracker d"
  by (simp add: fc_add_qty_def fc_set_book_def Let_def)

lemma fc_sub_tracker: "fc_order_tracker (fc_sub_qty sd p q d) = fc_order_tracker d"
  by (simp add: fc_sub_qty_def fc_set_book_def Let_def case_prod_unfold)

definition fc_good :: "nat \<Rightarrow> flash_crash_detector \<Rightarrow> bool" where
  "fc_good B d \<longleftrightarrow> fc_inv B d \<and> ot_sides (fc_order_tracker d)"

lemma fc_good_tracker: "fc_good B d \<Longrightarrow> ot_sides t \<Longrightarrow> fc_good B (d\<lparr>fc_order_tracker := t\<rparr>)"
  unfolding fc_good_def by (auto intro: fc_inv_same)

lemma fc_apply_good:
  assumes g: "fc_good B d" and B: "B + (if ty = OrderAdd then unat (ev_qty e) else 0) < 2 ^ 64"
  shows "fc_good (B + (if ty = OrderAdd then unat (ev_qty e) else 0)) (fc_apply ty e d)"
proof (cases ty)
  case OrderAdd
  obtain t u where p: "ot_on_add e (fc_order_tracker d) = (t, u)" by fastforce
  have t: "ot_sides t" "\<And>v. u = Some v \<Longrightarrow> (ru_side v = 0 \<or> ru_side v = 1) \<and> ru_qty v = ev_qty e"
    using ot_on_add_sides [of "fc_order_tracker d" e] g p by (auto simp: fc_good_def)
  show ?thesis
  proof (cases u)
    case None
    then show ?thesis
      using fc_good_tracker [OF g t(1)] p OrderAdd fc_inv_mono by (auto simp: fc_apply_def fc_good_def)
  next
    case (Some v)
    then show ?thesis
      using fc_inv_add [of B "d\<lparr>fc_order_tracker := t\<rparr>" "ru_qty v" "ru_side v" "ru_price v"] fc_good_tracker [OF g t(1)] t(2) B p OrderAdd t(1)
      by (simp add: fc_apply_def fc_good_def fc_add_tracker)
  qed
next
  case OrderCancel
  obtain t u where p: "ot_on_cancel e (fc_order_tracker d) = (t, u)" by fastforce
  have t: "ot_sides t" "\<And>v. u = Some v \<Longrightarrow> ru_side v = 0 \<or> ru_side v = 1"
    using ot_on_cancel_sides [of "fc_order_tracker d" e] g p by (auto simp: fc_good_def)
  show ?thesis
    using fc_inv_sub [of B "d\<lparr>fc_order_tracker := t\<rparr>"] fc_good_tracker [OF g t(1)] t B p OrderCancel
    by (cases u) (auto simp: fc_apply_def fc_good_def fc_sub_tracker)
next
  case Trade
  obtain t u where p: "ot_on_trade e (fc_order_tracker d) = (t, u)" by fastforce
  have t: "ot_sides t" "\<And>v. u = Some v \<Longrightarrow> ru_side (rt_update v) = 0 \<or> ru_side (rt_update v) = 1"
    using ot_on_trade_sides [of "fc_order_tracker d" e] g p by (auto simp: fc_good_def)
  have bumped: "fc_inv B (d\<lparr>fc_order_tracker := t, fc_buy_aggr := x\<rparr>)" "fc_inv B (d\<lparr>fc_order_tracker := t, fc_sell_aggr := x\<rparr>)" for x
    using g unfolding fc_good_def by (auto intro: fc_inv_same)
  show ?thesis
  proof (cases u)
    case None
    then show ?thesis using fc_good_tracker [OF g t(1)] p Trade by (simp add: fc_apply_def)
  next
    case (Some v)
    then show ?thesis
      using fc_inv_sub [OF bumped(1)] fc_inv_sub [OF bumped(2)] t B p Trade
      by (cases "rt_aggressor v") (simp_all add: fc_apply_def fc_good_def fc_sub_tracker)
  qed
qed (use g in \<open>simp_all add: fc_apply_def\<close>)

lemma fc_depth_in_band_inv:
  assumes inv: "fc_inv B d" and B: "B < 2 ^ 64"
  shows "fc_inv B (fst (fc_depth_in_band d))"
proof (cases "fc_band_depth_valid d")
  case False
  have tot: "book_total (fc_bids d) + book_total (fc_asks d) < 2 ^ 64" using inv B by (simp add: fc_inv_def)
  show ?thesis
    using False inv depth_in_band_around_nat [OF tot] by (auto simp: fc_inv_def fc_depth_in_band_def Let_def)
qed (use inv in \<open>simp add: fc_depth_in_band_def\<close>)

lemma fc_depth_in_band_exact:
  assumes inv: "fc_inv B d" and B: "B < 2 ^ 64" and best: "fc_cached_bb d = Some bb" "fc_cached_ba d = Some ba"
  shows "snd (fc_depth_in_band d) = fc_depth_in_band_around bb ba d"
proof (cases "fc_band_depth_valid d")
  case True
  have tot: "book_total (fc_bids d) + book_total (fc_asks d) < 2 ^ 64" using inv B by (simp add: fc_inv_def)
  have "unat (fc_band_depth d) = unat (fc_depth_in_band_around bb ba d)"
    using True inv best depth_in_band_around_nat [OF tot] by (simp add: fc_inv_def)
  then show ?thesis using True by (simp add: fc_depth_in_band_def word_unat_eq_iff)
qed (simp add: fc_depth_in_band_def best Let_def)

lemma fc_depth_in_band_tracker: "fc_order_tracker (fst (fc_depth_in_band d)) = fc_order_tracker d"
  by (simp add: fc_depth_in_band_def Let_def)

lemma fc_push_snap_good: "fc_good B d \<Longrightarrow> fc_good B (fc_push_snap s d)"
  unfolding fc_good_def by (auto simp: fc_push_snap_def Let_def intro: fc_inv_same)

lemma fc_snapshot_top_good: "fc_good B d \<Longrightarrow> B < 2 ^ 64 \<Longrightarrow> fc_good B (fc_snapshot_top se d)"
  using fc_push_snap_good [of B "fst (fc_depth_in_band d)"] fc_depth_in_band_inv [of B d]
  by (auto simp: fc_snapshot_top_def fc_good_def fc_depth_in_band_tracker Let_def case_prod_unfold split: option.split)

lemma fc_detect_good: "fc_good B d \<Longrightarrow> fc_good B (fst (fc_detect rnd se d))"
  by (auto simp: fc_detect_def fc_good_def Let_def intro: fc_inv_same split: option.split)

lemma fc_process_good:
  assumes "fc_good B d" "B + add_qty_of se < 2 ^ 64"
  shows "fc_good (B + add_qty_of se) (fst (fc_process rnd se d))"
proof (cases "event_type_from_u8 (ev_event_type (se_event se))")
  case None
  then show ?thesis using assms by (simp add: fc_process_def add_qty_of_def)
next
  case (Some ty)
  have snap: "fc_good B (fc_snapshot_top se d)" using assms by (intro fc_snapshot_top_good) simp_all
  have a: "add_qty_of se = (if ty = OrderAdd then unat (ev_qty (se_event se)) else 0)" using Some by (simp add: add_qty_of_def)
  show ?thesis
  proof (cases "ty = BookSnapshot")
    case True
    then show ?thesis using snap Some a by (simp add: fc_process_def)
  next
    case False
    then show ?thesis
      using fc_detect_good [OF fc_apply_good [OF snap, of ty "se_event se"], of rnd se] assms(2) Some a
      by (simp add: fc_process_def)
  qed
qed

definition fc_run :: "(rat \<Rightarrow> f64) \<Rightarrow> sequenced_event list \<Rightarrow> flash_crash_detector \<Rightarrow> flash_crash_detector" where
  "fc_run rnd ses d = fold (\<lambda>se d. fst (fc_process rnd se d)) ses d"

lemma fc_run_good:
  "fc_good B d \<Longrightarrow> B + sum_list (map add_qty_of ses) < 2 ^ 64 \<Longrightarrow>
   fc_good (B + sum_list (map add_qty_of ses)) (fc_run rnd ses d)"
proof (induction ses arbitrary: B d)
  case (Cons se ses)
  then show ?case
    using Cons.IH [of "B + add_qty_of se" "fst (fc_process rnd se d)"] fc_process_good [of B d se rnd]
    by (simp add: fc_run_def add.assoc)
qed (simp add: fc_run_def)

lemma fc_new_good: "0 < levels \<Longrightarrow> fc_good 0 (fc_new gap w levels ticks pct aggr cd)"
  by (simp add: fc_good_def fc_inv_def fc_new_def book_total_empty ot_sides_new om_first_key_def om_last_key_def om_keys_def
      om_empty.rep_eq)

section \<open>The snapshot ring\<close>

definition fc_ring :: "flash_crash_detector \<Rightarrow> bool" where
  "fc_ring d \<longleftrightarrow> length (fc_snaps d) = snap_cap \<and> unat (fc_snap_head d) < snap_cap \<and>
     unat (fc_gap_window_events d) < snap_cap \<and> unat (fc_snap_len d) \<le> unat (fc_gap_window_events d) + 1"

definition ring_ix :: "nat \<Rightarrow> nat \<Rightarrow> nat \<Rightarrow> nat" where
  "ring_ix h n i = (h + (16 - n + i)) mod 16"

lemma ring_ix_new: "n \<le> 16 \<Longrightarrow> h < 16 \<Longrightarrow> ring_ix h n n = h"
  by (simp add: ring_ix_def)

lemma ring_ix_other: "i < n \<Longrightarrow> n < i + 16 \<Longrightarrow> n \<le> 16 \<Longrightarrow> h < 16 \<Longrightarrow> ring_ix h n i \<noteq> h"
proof
  assume a: "i < n" "n < i + 16" "n \<le> 16" "h < 16" "ring_ix h n i = h"
  let ?k = "16 - n + i"
  have k: "0 < ?k" "?k < 16" using a by auto
  have "(h + ?k) mod 16 = (if h + ?k < 16 then h + ?k else h + ?k - 16)"
    using a(4) k(2) by (auto simp: mod_if)
  with k a(5) show False by (auto simp: ring_ix_def split: if_splits)
qed

lemma ring_ix_step: "ring_ix ((h + 1) mod 16) n i = (h + 1 + (16 - n + i)) mod 16"
  unfolding ring_ix_def by (rule mod_add_left_eq)

lemma ring_ix_grow: "n < 16 \<Longrightarrow> ring_ix ((h + 1) mod 16) (n + 1) i = ring_ix h n i"
proof -
  assume "n < 16"
  then have "h + 1 + (16 - (n + 1) + i) = h + (16 - n + i)" by simp
  then show ?thesis by (simp only: ring_ix_step) (simp only: ring_ix_def)
qed

lemma ring_ix_slide: "ring_ix ((h + 1) mod 16) n i = ring_ix h n (i + 1)"
proof -
  have "h + 1 + (16 - n + i) = h + (16 - n + (i + 1))" by simp
  then show ?thesis by (simp only: ring_ix_step) (simp only: ring_ix_def)
qed

lemma fc_window_ring:
  assumes "unat (fc_snap_len d) \<le> 16"
  shows "fc_window d = map (\<lambda>i. fc_snaps d ! ring_ix (unat (fc_snap_head d)) (unat (fc_snap_len d)) i) [0..<unat (fc_snap_len d)]"
proof -
  have "nat ((int h + int snap_cap - int n + int i) mod int snap_cap) = ring_ix h n i" if "n \<le> 16" for h n i
  proof -
    have "int h + int snap_cap - int n + int i = int (h + (16 - n + i))" using that by (simp add: snap_cap_def)
    then show ?thesis unfolding ring_ix_def snap_cap_def by (simp only: zmod_int [symmetric] nat_int)
  qed
  then show ?thesis unfolding fc_window_def using assms by (intro map_cong refl) (simp only:)
qed

text \<open>A push appends the snapshot and drops the oldest one once \<open>gap_window_events + 1\<close> are held.\<close>

lemma fc_push_snap_window:
  assumes r: "fc_ring d"
  shows "fc_ring (fc_push_snap s d) \<and>
    fc_window (fc_push_snap s d) = lastn (unat (fc_gap_window_events d) + 1) (fc_window d @ [s])"
proof -
  define h n cap where "h = unat (fc_snap_head d)" and "n = unat (fc_snap_len d)" and "cap = unat (fc_gap_window_events d) + 1"
  let ?d = "fc_push_snap s d"
  have b: "h < 16" "cap \<le> 16" "n \<le> cap" "length (fc_snaps d) = 16"
    using r by (auto simp: fc_ring_def snap_cap_def h_def n_def cap_def)
  have head: "unat (fc_snap_head ?d) = (h + 1) mod 16"
  proof -
    have "(h + 1) mod 16 < 16" by simp
    then have "(h + 1) mod 16 < 2 ^ 8" by simp
    then show ?thesis by (simp add: fc_push_snap_def Let_def snap_cap_def h_def unat_of_nat)
  qed
  have len: "unat (fc_snap_len ?d) = min (n + 1) cap"
    using b by (auto simp: fc_push_snap_def Let_def n_def cap_def unat_word_ariths)
  have ring: "fc_ring ?d"
    using r head len by (auto simp: fc_ring_def snap_cap_def cap_def) (simp_all add: fc_push_snap_def Let_def)
  have snaps: "fc_snaps ?d = (fc_snaps d)[h := s]" by (simp add: fc_push_snap_def Let_def h_def)
  have old: "(fc_snaps d)[h := s] ! ring_ix h n i = fc_snaps d ! ring_ix h n i" if "i < n" "n < i + 16" for i
    using ring_ix_other [OF that, of h] b by simp
  have new: "(fc_snaps d)[h := s] ! ring_ix h n n = s" using b by (simp add: ring_ix_new)
  let ?w = "\<lambda>i. fc_snaps d ! ring_ix h n i"
  have w: "fc_window d = map ?w [0..<n]" using fc_window_ring [of d] b by (simp add: h_def n_def)
  have w': "fc_window ?d = map (\<lambda>i. (fc_snaps d)[h := s] ! ring_ix ((h + 1) mod 16) (min (n + 1) cap) i) [0..<min (n + 1) cap]"
    using fc_window_ring [of ?d] b by (simp add: head len snaps)
  have "fc_window ?d = lastn cap (map ?w [0..<n] @ [s])"
  proof (cases "n < cap")
    case True
    then have m: "min (n + 1) cap = n + 1" "n < 16" using b by simp_all
    show ?thesis
      unfolding w' m(1) ring_ix_grow [OF m(2)] using True m(2) old new by (simp add: lastn_def)
  next
    case False
    then have m: "min (n + 1) cap = n" "n = cap" "n = Suc (n - 1)" using b by (simp_all add: cap_def)
    have "fc_window ?d = map (\<lambda>i. (fc_snaps d)[h := s] ! ring_ix h n i) (map Suc [0..<Suc (n - 1)])"
      unfolding w' m(1) ring_ix_slide using m(3) by simp
    also have "\<dots> = map (\<lambda>i. (fc_snaps d)[h := s] ! ring_ix h n i) [1..<n] @ [s]"
      unfolding map_Suc_upt using m(3) new by simp
    also have "\<dots> = map ?w [1..<n] @ [s]" using old b m(2) by simp
    also have "\<dots> = lastn cap (map ?w [0..<n] @ [s])" using m(2,3) by (simp add: lastn_def drop_map)
    finally show ?thesis .
  qed
  then show ?thesis using ring w by (simp add: cap_def)
qed

section \<open>What a book update leaves alone\<close>

definition fc_rest :: "flash_crash_detector \<Rightarrow> _" where
  "fc_rest d = (fc_snaps d, fc_snap_head d, fc_snap_len d, fc_gap_window_events d, fc_min_gap_bps d, fc_cooldown_seq d,
     fc_refractory_until d)"

lemma fc_rest_add: "fc_rest (fc_add_qty sd p q d) = fc_rest d"
  by (simp add: fc_rest_def fc_add_qty_def fc_set_book_def Let_def)

lemma fc_rest_sub: "fc_rest (fc_sub_qty sd p q d) = fc_rest d"
  by (simp add: fc_rest_def fc_sub_qty_def fc_set_book_def Let_def case_prod_unfold)

lemma fc_rest_tracker: "fc_rest (d\<lparr>fc_order_tracker := t\<rparr>) = fc_rest d"
  "fc_rest (d\<lparr>fc_order_tracker := t, fc_buy_aggr := x\<rparr>) = fc_rest d"
  "fc_rest (d\<lparr>fc_order_tracker := t, fc_sell_aggr := x\<rparr>) = fc_rest d"
  by (simp_all add: fc_rest_def)

lemma fc_rest_apply: "fc_rest (fc_apply ty e d) = fc_rest d"
  by (auto simp: fc_apply_def Let_def fc_rest_add fc_rest_sub fc_rest_tracker
      split: event_type.split prod.split option.split aggressor_side.split)

lemma fc_rest_window: "fc_rest d = fc_rest d' \<Longrightarrow> fc_window d = fc_window d' \<and> fc_ring d = fc_ring d'"
  by (simp add: fc_rest_def fc_window_def fc_ring_def)

lemma fc_rest_depth: "fc_rest (fst (fc_depth_in_band d)) = fc_rest d"
  by (simp add: fc_rest_def fc_depth_in_band_def Let_def)

lemma fc_snapshot_keeps:
  "fc_cooldown_seq (fc_snapshot_top se d) = fc_cooldown_seq d" "fc_min_gap_bps (fc_snapshot_top se d) = fc_min_gap_bps d"
  "fc_refractory_until (fc_snapshot_top se d) = fc_refractory_until d"
  "fc_gap_window_events (fc_snapshot_top se d) = fc_gap_window_events d"
  by (auto simp: fc_snapshot_top_def fc_push_snap_def fc_depth_in_band_def Let_def split: option.split)

lemma fc_rest_fields:
  "fc_rest d = fc_rest d' \<Longrightarrow> fc_cooldown_seq d = fc_cooldown_seq d' \<and> fc_min_gap_bps d = fc_min_gap_bps d' \<and>
   fc_refractory_until d = fc_refractory_until d' \<and> fc_gap_window_events d = fc_gap_window_events d'"
  by (simp add: fc_rest_def)

text \<open>The snapshot that \<open>process\<close> takes before it applies an event.\<close>

definition fc_snap_of :: "sequenced_event \<Rightarrow> flash_crash_detector \<Rightarrow> top_snapshot list" where
  "fc_snap_of se d =
     (case (event_type_from_u8 (ev_event_type (se_event se)), fc_cached_bb d, fc_cached_ba d) of
        (Some _, Some bb, Some ba) \<Rightarrow>
          if bb \<le> ba then [\<lparr>tp_seq = se_seq se, tp_ts = ev_ts (se_event se), tp_mid = (ba + bb) div 2, tp_best_bid = bb,
            tp_best_ask = ba, tp_depth_in_band = fc_depth_in_band_around bb ba d\<rparr>] else []
      | _ \<Rightarrow> [])"

lemma fc_snapshot_top_window:
  assumes "fc_ring d" "fc_inv B d" "B < 2 ^ 64" "event_type_from_u8 (ev_event_type (se_event se)) = Some ty"
  shows "fc_ring (fc_snapshot_top se d) \<and>
    fc_window (fc_snapshot_top se d) = lastn (unat (fc_gap_window_events d) + 1) (fc_window d @ fc_snap_of se d)"
proof -
  let ?d1 = "fst (fc_depth_in_band d)"
  have r: "fc_ring ?d1" "fc_window ?d1 = fc_window d" "fc_gap_window_events ?d1 = fc_gap_window_events d"
    using fc_rest_window [OF fc_rest_depth] fc_rest_fields [OF fc_rest_depth] assms(1) by simp_all
  have len: "length (fc_window d) \<le> unat (fc_gap_window_events d) + 1" using assms(1) by (simp add: fc_ring_def fc_window_def)
  then have id: "lastn (unat (fc_gap_window_events d) + 1) (fc_window d) = fc_window d" by (simp add: lastn_def)
  show ?thesis
  proof (cases "fc_snap_of se d")
    case Nil
    then have "fc_midprice d = None"
      using assms(4) by (auto simp: fc_snap_of_def fc_midprice_def mid_of_def split: option.splits if_splits)
    then show ?thesis using Nil id assms(1) by (simp add: fc_snapshot_top_def)
  next
    case (Cons snap rest)
    then obtain bb ba where c: "fc_cached_bb d = Some bb" "fc_cached_ba d = Some ba" "bb \<le> ba" "rest = []"
      by (auto simp: fc_snap_of_def assms(4) split: option.splits if_splits)
    have "fc_snapshot_top se d = fc_push_snap snap ?d1"
      using Cons c assms(4) fc_depth_in_band_exact [OF assms(2,3) c(1,2)]
      by (simp add: fc_snapshot_top_def fc_midprice_def mid_of_def fc_snap_of_def case_prod_unfold)
    then show ?thesis using fc_push_snap_window [OF r(1), of snap] Cons c(4) r by simp
  qed
qed

lemma fc_detect_cases:
  obtains (quiet) "snd (fc_detect rnd se d) = None" "fc_rest (fst (fc_detect rnd se d)) = fc_rest d"
  | (flag) mid snap dir depth where "snd (fc_detect rnd se d) = Some (fc_flag rnd se mid snap dir depth d)"
      "fst (fc_detect rnd se d) = d\<lparr>fc_refractory_until := sat_add (se_seq se) (fc_cooldown_seq d), fc_buy_aggr := 0,
         fc_sell_aggr := 0, fc_snap_len := 0\<rparr>" "fc_refractory_until d \<le> se_seq se"
proof (cases "fc_midprice d")
  case None
  then show thesis by (intro quiet) (simp_all add: fc_detect_def)
next
  case (Some mid)
  show thesis
  proof (cases "se_seq se < fc_refractory_until d")
    case True
    then show thesis using Some by (intro quiet) (simp_all add: fc_detect_def fc_rest_def)
  next
    case False
    show thesis
    proof (cases "find (fc_qualifies d (se_seq se) mid) (fc_window d)")
      case None
      then show thesis using Some False by (intro quiet) (simp_all add: fc_detect_def)
    next
      case found: (Some snap)
      let ?armed = "d\<lparr>fc_refractory_until := sat_add (se_seq se) (fc_cooldown_seq d),
        fc_buy_aggr := 0, fc_sell_aggr := 0, fc_snap_len := 0\<rparr>"
      have "\<exists>a b dir depth. fc_detect rnd se d = (if a then (d, None) else if b then (d, None) else
          (?armed, Some (fc_flag rnd se mid snap dir depth d)))"
        unfolding fc_detect_def Let_def Some found option.case using False by (simp only: if_False) blast
      then consider "fc_detect rnd se d = (d, None)"
        | dir depth where "fc_detect rnd se d = (?armed, Some (fc_flag rnd se mid snap dir depth d))"
        by (elim exE) (auto split: if_splits)
      then show thesis
      proof cases
        case 1
        then show thesis by (intro quiet) simp_all
      next
        case (2 dir depth)
        then show thesis using False by (intro flag [of mid snap dir depth]) simp_all
      qed
    qed
  qed
qed

lemma fc_detect_window:
  assumes "fc_ring d"
  shows "fc_ring (fst (fc_detect rnd se d)) \<and>
    fc_window (fst (fc_detect rnd se d)) = (if snd (fc_detect rnd se d) = None then fc_window d else [])"
proof (cases rule: fc_detect_cases [of rnd se d])
  case quiet
  then show ?thesis using fc_rest_window [OF quiet(2)] assms by simp
next
  case (flag mid snap dir depth)
  then show ?thesis using assms by (simp add: fc_ring_def fc_window_def)
qed

lemma fc_process_window:
  assumes "fc_ring d" "fc_inv B d" "B < 2 ^ 64"
  shows "fc_ring (fst (fc_process rnd se d)) \<and> fc_window (fst (fc_process rnd se d)) =
    (if snd (fc_process rnd se d) = None then lastn (unat (fc_gap_window_events d) + 1) (fc_window d @ fc_snap_of se d) else [])"
proof (cases "event_type_from_u8 (ev_event_type (se_event se))")
  case None
  have "length (fc_window d) \<le> unat (fc_gap_window_events d) + 1" using assms(1) by (simp add: fc_ring_def fc_window_def)
  then show ?thesis using None assms(1) by (simp add: fc_process_def fc_snap_of_def lastn_def)
next
  case (Some ty)
  let ?d1 = "fc_snapshot_top se d"
  note w = fc_snapshot_top_window [OF assms Some] and r = fc_rest_window [OF fc_rest_apply, of ty "se_event se" ?d1]
  show ?thesis
    using w r fc_detect_window [of "fc_apply ty (se_event se) ?d1" rnd se] by (simp add: fc_process_def Some Let_def)
qed

text \<open>The snapshots taken since the last flag.\<close>

fun fc_hist :: "(rat \<Rightarrow> f64) \<Rightarrow> sequenced_event list \<Rightarrow> flash_crash_detector \<Rightarrow> top_snapshot list \<Rightarrow> top_snapshot list" where
  "fc_hist rnd [] d acc = acc"
| "fc_hist rnd (se # ses) d acc =
     (case fc_process rnd se d of
        (d', None) \<Rightarrow> fc_hist rnd ses d' (acc @ fc_snap_of se d)
      | (d', Some _) \<Rightarrow> fc_hist rnd ses d' [])"

lemma fc_detect_rest:
  "fc_gap_window_events (fst (fc_detect rnd se d)) = fc_gap_window_events d"
  "fc_min_gap_bps (fst (fc_detect rnd se d)) = fc_min_gap_bps d"
  "fc_cooldown_seq (fst (fc_detect rnd se d)) = fc_cooldown_seq d"
  by (cases rule: fc_detect_cases [of rnd se d]; simp add: fc_rest_def)+

lemma fc_process_rest:
  "fc_gap_window_events (fst (fc_process rnd se d)) = fc_gap_window_events d"
  "fc_min_gap_bps (fst (fc_process rnd se d)) = fc_min_gap_bps d"
  "fc_cooldown_seq (fst (fc_process rnd se d)) = fc_cooldown_seq d"
  using fc_rest_fields [OF fc_rest_apply, of _ "se_event se" "fc_snapshot_top se d"]
  by (auto simp: fc_process_def Let_def fc_detect_rest fc_snapshot_keeps split: option.split)

lemma fc_run_window:
  "fc_good B d \<Longrightarrow> fc_ring d \<Longrightarrow> B + sum_list (map add_qty_of ses) < 2 ^ 64 \<Longrightarrow>
   fc_window d = lastn (unat (fc_gap_window_events d) + 1) acc \<Longrightarrow>
   fc_window (fc_run rnd ses d) = lastn (unat (fc_gap_window_events d) + 1) (fc_hist rnd ses d acc)"
proof (induction ses arbitrary: B d acc)
  case (Cons se ses)
  obtain d' f where p: "fc_process rnd se d = (d', f)" by fastforce
  have B: "B < 2 ^ 64" "B + add_qty_of se < 2 ^ 64" "B + add_qty_of se + sum_list (map add_qty_of ses) < 2 ^ 64"
    using Cons.prems(3) by simp_all
  have g: "fc_good (B + add_qty_of se) d'" using fc_process_good [OF Cons.prems(1) B(2), of rnd] p by simp
  have w: "fc_ring d'" "fc_window d' = (if f = None then lastn (unat (fc_gap_window_events d) + 1) (fc_window d @ fc_snap_of se d) else [])"
    using fc_process_window [OF Cons.prems(2), of B rnd se] Cons.prems(1) B(1) p by (simp_all add: fc_good_def)
  have c: "fc_gap_window_events d' = fc_gap_window_events d" using fc_process_rest(1) [of rnd se d] p by simp
  have "fc_window d' = lastn (unat (fc_gap_window_events d') + 1) (if f = None then acc @ fc_snap_of se d else [])"
    using w(2) Cons.prems(4) c by (auto simp: lastn_append lastn_def [of _ "[]"])
  from Cons.IH [OF g w(1) B(3) this] show ?case using p c by (cases f) (simp_all add: fc_run_def)
qed (simp add: fc_run_def)

section \<open>The detector contract\<close>

definition fc_ok :: "(rat \<Rightarrow> f64) \<Rightarrow> flash_crash_detector \<Rightarrow> bool" where
  "fc_ok rnd d \<longleftrightarrow> unbounded rnd \<and> fc_min_gap_bps d \<noteq> 0"

lemma unat_pos: "x \<noteq> 0 \<Longrightarrow> 0 < unat x" for x :: "'a::len word"
  using unat_eq_zero [of x] by linarith

lemma fc_flag_score: "fc_ok rnd d \<Longrightarrow> unit_score (ce_severity (fc_flag rnd se mid snap dir depth_now d))"
proof -
  assume ok: "fc_ok rnd d"
  then have u: "unbounded rnd" and g: "0 < unat (fc_min_gap_bps d)" by (simp_all add: fc_ok_def unat_pos)
  have m: "max x 1 \<noteq> 0" for x :: u32 by (auto simp: max_def)
  have t: "f64_of_nat rnd (unat (max x 1)) \<noteq> Fin 0" for x :: u32
    using f64_of_nat_nonzero [OF unbounded_rounding [OF u] unat_pos [OF m]] .
  have four: "f64_mul rnd (f64_of_nat rnd (unat (fc_min_gap_bps d))) (Fin 4) \<noteq> Fin 0"
    using f64_scaled_nonzero [OF u g, of 4] by simp
  have dd: "is_fin (depth_drop rnd a b)" if "0 < a" for a b
    unfolding depth_drop_def using that u u64_as_f64_nonzero [OF unbounded_rounding [OF u], of a] by (simp add: is_fin_ops word_gt_0)
  show ?thesis
    using u t four dd by (simp add: fc_flag_def Let_def unit_score_clamp is_fin_not_NaN is_fin_ops)
qed

lemma fc_detect_flag:
  assumes "snd (fc_detect rnd se d) = Some ce"
  shows "\<exists>mid snap dir depth. ce = fc_flag rnd se mid snap dir depth d"
    "fc_refractory_until d \<le> se_seq se"
    "fc_refractory_until (fst (fc_detect rnd se d)) = sat_add (se_seq se) (fc_cooldown_seq d)"
  using assms by (cases rule: fc_detect_cases [of rnd se d]; auto)+

lemma fc_detect_quiet: "snd (fc_detect rnd se d) = None \<Longrightarrow> fc_refractory_until (fst (fc_detect rnd se d)) = fc_refractory_until d"
  by (cases rule: fc_detect_cases [of rnd se d]) (simp_all add: fc_rest_def)

interpretation flash_crash: refractory_detector "fc_process rnd" "fc_ok rnd" FlashCrash fc_refractory_until fc_cooldown_seq
  for rnd
proof
  fix d se ce
  let ?d = "\<lambda>ty. fc_apply ty (se_event se) (fc_snapshot_top se d)"
  have rest: "fc_min_gap_bps (?d ty) = fc_min_gap_bps d" "fc_cooldown_seq (?d ty) = fc_cooldown_seq d"
    "fc_refractory_until (?d ty) = fc_refractory_until d" for ty
    using fc_rest_fields [OF fc_rest_apply, of ty "se_event se" "fc_snapshot_top se d"] by (simp_all add: fc_snapshot_keeps)
  have flagged: "\<exists>ty. fc_process rnd se d = fc_detect rnd se (?d ty)" if "snd (fc_process rnd se d) = Some ce"
    using that by (auto simp: fc_process_def Let_def split: option.splits if_splits)
  show "fc_ok rnd (fst (fc_process rnd se d))" if "fc_ok rnd d" using that by (simp add: fc_ok_def fc_process_rest)
  show "ce_kind ce = FlashCrash \<and> ce_end_seq ce = se_seq se \<and> unit_score (ce_severity ce)"
    if ok: "fc_ok rnd d" and f: "snd (fc_process rnd se d) = Some ce"
  proof -
    obtain ty where ty: "fc_process rnd se d = fc_detect rnd se (?d ty)" using flagged [OF f] by blast
    have "fc_ok rnd (?d ty)" using ok rest by (simp add: fc_ok_def)
    with fc_flag_score fc_detect_flag(1) [of rnd se "?d ty" ce] f ty show ?thesis by (auto simp: fc_flag_def Let_def)
  qed
  show "fc_cooldown_seq (fst (fc_process rnd se d)) = fc_cooldown_seq d" by (rule fc_process_rest)
  show "fc_refractory_until d \<le> se_seq se \<and>
      fc_refractory_until (fst (fc_process rnd se d)) = sat_add (se_seq se) (fc_cooldown_seq d)"
    if f: "snd (fc_process rnd se d) = Some ce"
  proof -
    obtain ty where "fc_process rnd se d = fc_detect rnd se (?d ty)" using flagged [OF f] by blast
    with fc_detect_flag(2,3) [of rnd se "?d ty" ce] f rest show ?thesis by simp
  qed
  show "fc_refractory_until (fst (fc_process rnd se d)) = fc_refractory_until d" if "snd (fc_process rnd se d) = None"
    using that rest fc_detect_quiet [of rnd se "?d _"]
    by (auto simp: fc_process_def Let_def fc_snapshot_keeps split: option.splits if_splits)
qed

section \<open>Properties\<close>

text \<open>
  The caches of the flash-crash detector never drift. After any feed whose added quantities sum to
  less than \<open>2 ^ 64\<close>, starting from a new detector that keeps at least one level per side, the cached best
  prices are the best prices of the two sides, and when both exist the cached or lazily recomputed depth
  equals a full scan of the band around them.
\<close>

theorem flash_cache_exact:
  assumes "0 < levels" "sum_list (map add_qty_of ses) < 2 ^ 64"
    and d: "d = fc_run rnd ses (fc_new gap w levels ticks pct aggr cd)"
  shows "fc_cached_bb d = om_last_key (fc_bids d) \<and> fc_cached_ba d = om_first_key (fc_asks d) \<and>
    (\<forall>bb ba. fc_cached_bb d = Some bb \<longrightarrow> fc_cached_ba d = Some ba \<longrightarrow>
       snd (fc_depth_in_band d) = fc_depth_in_band_around bb ba d)"
proof -
  have inv: "fc_inv (sum_list (map add_qty_of ses)) d"
    using fc_run_good [OF fc_new_good [OF assms(1)], of ses rnd] assms(2) by (simp add: fc_good_def d)
  with fc_depth_in_band_exact [OF inv assms(2)] show ?thesis by (simp add: fc_inv_def)
qed

definition fc_sample :: "u8 \<Rightarrow> u8 \<Rightarrow> u64 \<Rightarrow> u64 \<Rightarrow> u64 \<Rightarrow> sequenced_event" where
  "fc_sample ty sd oid price qty =
     \<lparr>se_seq = oid, se_channel_id = 0, se_event =
        event_zeroed\<lparr>ev_order_id := oid, ev_price := price, ev_qty := qty, ev_event_type := ty, ev_side := sd\<rparr>\<rparr>"

theorem flash_cache_exact_witness:
  "let d = fc_run Fin [fc_sample 1 0 1 100 5, fc_sample 1 1 2 104 7] (fc_new 50 2 8 10 (Fin 0) 1 5)
   in fc_cached_bb d = om_last_key (fc_bids d) \<and> fc_cached_ba d = om_first_key (fc_asks d)"
proof -
  have "sum_list (map add_qty_of [fc_sample 1 0 1 100 5, fc_sample 1 1 2 104 7]) < 2 ^ 64"
    by (simp add: add_qty_of_def fc_sample_def event_zeroed_def event_type_from_u8_def)
  from flash_cache_exact [OF _ this refl, of 8 Fin 50 2 10 "Fin 0" 1 5] show ?thesis by (simp add: Let_def)
qed

text \<open>
  The 16-cell snapshot array with its wrapping head behaves as a queue of the latest
  \<open>gap_window_events + 1\<close> snapshots: after any such feed the cells that the gap scan visits are, oldest first,
  the last \<open>gap_window_events + 1\<close> of the snapshots taken since the last flag, each with the sequence number,
  time, prices and scanned depth of the book before its event.
\<close>

theorem flash_ring_is_queue:
  assumes "0 < levels" "unat w < snap_cap" "sum_list (map add_qty_of ses) < 2 ^ 64"
    and d: "d = fc_new gap w levels ticks pct aggr cd"
  shows "fc_window (fc_run rnd ses d) = lastn (unat w + 1) (fc_hist rnd ses d [])"
proof -
  have r: "fc_ring d" "fc_window d = lastn (unat (fc_gap_window_events d) + 1) []" "fc_gap_window_events d = w"
    using assms(2) by (simp_all add: d fc_ring_def fc_new_def fc_window_def lastn_def snap_cap_def)
  from fc_run_window [OF fc_new_good [OF assms(1)], of gap w ticks pct aggr cd, folded d, OF r(1) _ r(2)] r(3) assms(3)
  show ?thesis by simp
qed

theorem flash_ring_is_queue_witness:
  "let d = fc_new 50 2 8 10 (Fin 0) 1 5; ses = [fc_sample 1 0 1 100 5, fc_sample 1 1 2 104 7]
   in fc_window (fc_run Fin ses d) = lastn 3 (fc_hist Fin ses d [])"
proof -
  have "sum_list (map add_qty_of [fc_sample 1 0 1 100 5, fc_sample 1 1 2 104 7]) < 2 ^ 64"
    by (simp add: add_qty_of_def fc_sample_def event_zeroed_def event_type_from_u8_def)
  from flash_ring_is_queue [OF _ _ this refl, of 8 2 Fin 50 10 "Fin 0" 1 5] show ?thesis
    by (simp add: Let_def snap_cap_def)
qed

text \<open>
  The documented contract of the public \<open>depth_in_band\<close>, 0 when a side is empty, does not hold: a depth read
  while only bids exist marks the cache valid, and the next bid inside the band is added to it.
\<close>

theorem depth_of_one_sided_book:
  assumes "fc_cached_ba d = None" "fc_cached_bb d = Some p" "fc_band_depth_valid d = False"
    "om_size (fc_bids d) \<le> fc_max_book_levels d" "om_lookup (fc_bids d) p = Some e"
  shows "snd (fc_depth_in_band (fc_add_qty 0 p q (fst (fc_depth_in_band d)))) = q"
proof -
  have "om_size (om_insert p v (fc_bids d)) \<le> fc_max_book_levels d" for v
    using assms(4,5) by (simp add: om_size_insert)
  then have "prune_levels 0 (fc_max_book_levels d) (om_insert p v (fc_bids d)) = om_insert p v (fc_bids d)" for v
    by (intro prune_id)
  moreover have "sat_sub p t \<le> p" for t by (simp add: word_le_nat_alt unat_sat_sub)
  ultimately show ?thesis
    using assms
    by (simp add: fc_depth_in_band_def fc_add_qty_def fc_book_def fc_set_book_def fc_in_band_same_side_def Let_def
        sat_add_def)
qed

end
