(* ===== verification/FL_LatencyArb.thy ===== *)
theory FL_LatencyArb
  imports FL_Chaos FL_MiniBook FL_OrderTracker
begin

text \<open>
  The latency-arbitrage proxy detector of \<open>chaos/src/latency_arb_proxy.rs\<close>: a mini-book and a queue of trades that
  wait for a burst of reactions on the opposite side. The \<open>i128\<close> and \<open>u128\<close> arithmetic of the code cannot
  overflow on 64-bit prices and is done on integers; the final cast of basis points to \<open>u32\<close> truncates.
\<close>

datatype taker_dir = TakerBuy | TakerSell

record pending_trigger =
  pt_seq :: u64
  pt_ts :: u64
  pt_price :: u64
  pt_qty :: u64
  pt_dir :: taker_dir
  pt_mid_at_trade :: u64
  pt_burst_count :: u32
  pt_last_burst_seq :: u64
  pt_last_burst_ts :: u64
  pt_burst_qualified :: bool

record latency_arb_proxy_detector =
  la_bids :: side_book
  la_asks :: side_book
  la_order_tracker :: order_tracker
  la_max_book_levels :: nat
  la_pending :: "pending_trigger list"
  la_reaction_seq :: u64
  la_reaction_time_ns :: u64
  la_band_ticks :: u64
  la_min_trade_qty :: u64
  la_min_burst :: u32
  la_require_reversion :: bool
  la_reversion_bps :: u32
  la_cooldown_seq :: u64
  la_refractory_until :: u64

definition la_new :: "u64 \<Rightarrow> u64 \<Rightarrow> nat \<Rightarrow> u64 \<Rightarrow> u64 \<Rightarrow> u32 \<Rightarrow> bool \<Rightarrow> u32 \<Rightarrow> u64 \<Rightarrow> latency_arb_proxy_detector" where
  "la_new reaction_seq reaction_time_ns max_book_levels band_ticks min_trade_qty min_burst require_reversion reversion_bps
     cooldown_seq =
     \<lparr>la_bids = om_empty, la_asks = om_empty, la_order_tracker = ot_new, la_max_book_levels = max_book_levels,
      la_pending = [], la_reaction_seq = reaction_seq, la_reaction_time_ns = reaction_time_ns, la_band_ticks = band_ticks,
      la_min_trade_qty = min_trade_qty, la_min_burst = min_burst, la_require_reversion = require_reversion,
      la_reversion_bps = reversion_bps, la_cooldown_seq = cooldown_seq, la_refractory_until = 0\<rparr>"

definition la_best_bid :: "latency_arb_proxy_detector \<Rightarrow> u64 option" where
  "la_best_bid d = om_last_key (la_bids d)"

definition la_best_ask :: "latency_arb_proxy_detector \<Rightarrow> u64 option" where
  "la_best_ask d = om_first_key (la_asks d)"

definition la_midprice :: "latency_arb_proxy_detector \<Rightarrow> u64 option" where
  "la_midprice d = mid_of (la_best_bid d) (la_best_ask d)"

definition la_pending_triggers :: "latency_arb_proxy_detector \<Rightarrow> nat" where
  "la_pending_triggers d = length (la_pending d)"

definition la_add_qty :: "u8 \<Rightarrow> u64 \<Rightarrow> u64 \<Rightarrow> latency_arb_proxy_detector \<Rightarrow> latency_arb_proxy_detector" where
  "la_add_qty sd price qty d =
     (if sd = 0 then d\<lparr>la_bids := mb_add_qty sd (la_max_book_levels d) price qty (la_bids d)\<rparr>
      else d\<lparr>la_asks := mb_add_qty sd (la_max_book_levels d) price qty (la_asks d)\<rparr>)"

definition la_sub_qty :: "u8 \<Rightarrow> u64 \<Rightarrow> u64 \<Rightarrow> latency_arb_proxy_detector \<Rightarrow> latency_arb_proxy_detector" where
  "la_sub_qty sd price qty d =
     (if sd = 0 then d\<lparr>la_bids := mb_sub_qty price qty (la_bids d)\<rparr>
      else d\<lparr>la_asks := mb_sub_qty price qty (la_asks d)\<rparr>)"

text \<open>The match on the event type, with the resolved trade; \<open>None\<close> is the early return on a book snapshot.\<close>

definition la_apply :: "event_type \<Rightarrow> event \<Rightarrow> latency_arb_proxy_detector \<Rightarrow>
    (latency_arb_proxy_detector \<times> resolved_trade option) option" where
  "la_apply ty e d =
     (case ty of
        OrderAdd \<Rightarrow>
          (case ot_on_add e (la_order_tracker d) of
             (t, None) \<Rightarrow> Some (d\<lparr>la_order_tracker := t\<rparr>, None)
           | (t, Some u) \<Rightarrow> Some (la_add_qty (ru_side u) (ru_price u) (ru_qty u) (d\<lparr>la_order_tracker := t\<rparr>), None))
      | OrderCancel \<Rightarrow>
          (case ot_on_cancel e (la_order_tracker d) of
             (t, None) \<Rightarrow> Some (d\<lparr>la_order_tracker := t\<rparr>, None)
           | (t, Some u) \<Rightarrow> Some (la_sub_qty (ru_side u) (ru_price u) (ru_qty u) (d\<lparr>la_order_tracker := t\<rparr>), None))
      | OrderModify \<Rightarrow> Some (d, None)
      | Trade \<Rightarrow>
          (case ot_on_trade e (la_order_tracker d) of
             (t, None) \<Rightarrow> Some (d\<lparr>la_order_tracker := t\<rparr>, None)
           | (t, Some tr) \<Rightarrow>
               Some (la_sub_qty (ru_side (rt_update tr)) (ru_price (rt_update tr)) (ru_qty (rt_update tr))
                       (d\<lparr>la_order_tracker := t\<rparr>), Some tr))
      | BookSnapshot \<Rightarrow> None)"

definition la_trigger :: "sequenced_event \<Rightarrow> resolved_trade \<Rightarrow> u64 \<Rightarrow> pending_trigger" where
  "la_trigger se tr mid =
     \<lparr>pt_seq = se_seq se, pt_ts = ev_ts (se_event se), pt_price = ru_price (rt_update tr), pt_qty = ru_qty (rt_update tr),
      pt_dir = (case rt_aggressor tr of AggBuy \<Rightarrow> TakerBuy | AggSell \<Rightarrow> TakerSell), pt_mid_at_trade = mid,
      pt_burst_count = 0, pt_last_burst_seq = se_seq se, pt_last_burst_ts = ev_ts (se_event se), pt_burst_qualified = False\<rparr>"

definition la_seed :: "sequenced_event \<Rightarrow> resolved_trade option \<Rightarrow> u64 option \<Rightarrow> latency_arb_proxy_detector \<Rightarrow> latency_arb_proxy_detector" where
  "la_seed se resolved mid_before d =
     (if se_seq se < la_refractory_until d then d
      else case (resolved, mid_before) of
        (Some tr, Some m) \<Rightarrow>
          if la_min_trade_qty d \<le> ru_qty (rt_update tr) then
            let pending = la_pending d @ [la_trigger se tr m]
            in d\<lparr>la_pending := (if 64 < length pending then drop 1 pending else pending)\<rparr>
          else d
      | _ \<Rightarrow> d)"

definition la_inside_window :: "sequenced_event \<Rightarrow> latency_arb_proxy_detector \<Rightarrow> pending_trigger \<Rightarrow> bool" where
  "la_inside_window se d trig \<longleftrightarrow>
     0 < la_reaction_seq d \<and> sat_sub (se_seq se) (pt_seq trig) \<le> la_reaction_seq d \<or>
     0 < la_reaction_time_ns d \<and> sat_sub (ev_ts (se_event se)) (pt_ts trig) \<le> la_reaction_time_ns d"

definition la_qualifies :: "u64 \<Rightarrow> taker_dir \<Rightarrow> u64 \<Rightarrow> sequenced_event \<Rightarrow> bool" where
  "la_qualifies band_ticks dr price se \<longleftrightarrow>
     event_type_from_u8 (ev_event_type (se_event se)) \<in> {Some OrderAdd, Some OrderCancel} \<and>
     ev_side (se_event se) = (case dr of TakerBuy \<Rightarrow> 0 | TakerSell \<Rightarrow> 1) \<and>
     \<bar>uint (ev_price (se_event se)) - uint price\<bar> \<le> uint band_ticks"

definition la_contribute :: "sequenced_event \<Rightarrow> latency_arb_proxy_detector \<Rightarrow> pending_trigger \<Rightarrow> pending_trigger" where
  "la_contribute se d trig =
     (if la_inside_window se d trig \<and> \<not> pt_burst_qualified trig \<and>
         la_qualifies (la_band_ticks d) (pt_dir trig) (pt_price trig) se then
        let trig1 = trig\<lparr>pt_burst_count := sat_add (pt_burst_count trig) 1, pt_last_burst_seq := se_seq se,
                         pt_last_burst_ts := ev_ts (se_event se)\<rparr>
        in if la_min_burst d \<le> pt_burst_count trig1 then trig1\<lparr>pt_burst_qualified := True\<rparr> else trig1
      else trig)"

definition la_reverted :: "latency_arb_proxy_detector \<Rightarrow> pending_trigger \<Rightarrow> bool" where
  "la_reverted d trig =
     (case la_midprice d of
        None \<Rightarrow> False
      | Some mid_now \<Rightarrow>
          let signed_back = (case pt_dir trig of
                TakerBuy \<Rightarrow> uint (pt_mid_at_trade trig) - uint mid_now
              | TakerSell \<Rightarrow> uint mid_now - uint (pt_mid_at_trade trig));
              bps = (of_int (signed_back * 10000 div uint (max (pt_mid_at_trade trig) 1)) :: u32)
          in 0 < signed_back \<and> la_reversion_bps d \<le> bps)"

definition la_severity :: "(rat \<Rightarrow> f64) \<Rightarrow> pending_trigger \<Rightarrow> u64 \<Rightarrow> latency_arb_proxy_detector \<Rightarrow> f64" where
  "la_severity rnd trig reaction_events d =
     (let speed_score = (if 0 < la_reaction_seq d
            then f64_sub rnd (Fin 1) (f64_clamp (Fin 0) (Fin 1)
                   (f64_div rnd (u64_as_f64 rnd reaction_events) (u64_as_f64 rnd (la_reaction_seq d))))
            else Fin 0);
          burst_score = f64_clamp (Fin 0) (Fin 1) (f64_div rnd (f64_of_nat rnd (unat (pt_burst_count trig)))
            (f64_mul rnd (f64_of_nat rnd (unat (la_min_burst d))) (Fin 4)))
      in f64_clamp (Fin 0) (Fin 1) (f64_add rnd (f64_mul rnd (rnd (6 / 10)) speed_score) (f64_mul rnd (rnd (4 / 10)) burst_score)))"

definition la_build_flag :: "(rat \<Rightarrow> f64) \<Rightarrow> pending_trigger \<Rightarrow> u64 \<Rightarrow> u64 \<Rightarrow> latency_arb_proxy_detector \<Rightarrow> chaos_event" where
  "la_build_flag rnd trig end_seq end_ts d =
     \<lparr>ce_kind = LatencyArbitrage, ce_start_seq = pt_seq trig, ce_end_seq = end_seq, ce_start_ts_ns = pt_ts trig,
      ce_end_ts_ns = end_ts, ce_severity = la_severity rnd trig (sat_sub end_seq (pt_seq trig)) d, ce_initiator = None,
      ce_features = \<lparr>cf_event_count = ucast (pt_burst_count trig), cf_duration_ns = sat_sub end_ts (pt_ts trig),
        cf_cancel_trade_ratio = Fin 0, cf_price_displacement = 0, cf_depth_removed = pt_qty trig\<rparr>\<rparr>"

text \<open>What becomes of a trigger: it is dropped, kept for later, or raises the flag (only the first in a call may).\<close>

datatype trigger_fate = Dropped | Kept | Flagged

definition la_fate :: "sequenced_event \<Rightarrow> latency_arb_proxy_detector \<Rightarrow> bool \<Rightarrow> pending_trigger \<Rightarrow> trigger_fate" where
  "la_fate se d flag_is_none trig =
     (if \<not> la_inside_window se d trig then Dropped
      else if pt_burst_qualified trig then
        if la_require_reversion d then
          if sat_sub (se_seq se) (pt_last_burst_seq trig) \<le> la_reaction_seq d then
            if la_reverted d trig \<and> flag_is_none then Flagged else Kept
          else Dropped
        else if flag_is_none then Flagged else Dropped
      else Kept)"

fun la_scan :: "(rat \<Rightarrow> f64) \<Rightarrow> sequenced_event \<Rightarrow> latency_arb_proxy_detector \<Rightarrow> pending_trigger list \<Rightarrow> pending_trigger list \<Rightarrow>
    chaos_event option \<Rightarrow> pending_trigger list \<times> chaos_event option" where
  "la_scan rnd se d [] keep flag = (keep, flag)"
| "la_scan rnd se d (trig # trigs) keep flag =
     (let trig' = la_contribute se d trig
      in case la_fate se d (flag = None) trig' of
           Dropped \<Rightarrow> la_scan rnd se d trigs keep flag
         | Kept \<Rightarrow> la_scan rnd se d trigs (keep @ [trig']) flag
         | Flagged \<Rightarrow> la_scan rnd se d trigs keep (Some (la_build_flag rnd trig' (se_seq se) (ev_ts (se_event se)) d)))"

definition la_process :: "(rat \<Rightarrow> f64) \<Rightarrow> sequenced_event \<Rightarrow> latency_arb_proxy_detector \<Rightarrow> latency_arb_proxy_detector \<times> chaos_event option" where
  "la_process rnd se d =
     (case event_type_from_u8 (ev_event_type (se_event se)) of
        None \<Rightarrow> (d, None)
      | Some ty \<Rightarrow>
          (case la_apply ty (se_event se) d of
             None \<Rightarrow> (d, None)
           | Some (d1, resolved) \<Rightarrow>
               let d2 = la_seed se resolved (la_midprice d) d1;
                   (keep, flag) = la_scan rnd se d2 (la_pending d2) [] None
               in (d2\<lparr>la_pending := keep,
                      la_refractory_until := (if flag = None then la_refractory_until d2
                                              else sat_add (se_seq se) (la_cooldown_seq d2))\<rparr>, flag)))"

end
