(* ===== verification/FL_LatencyArbProperties.thy ===== *)
theory FL_LatencyArbProperties
  imports FL_LatencyArb
begin

text \<open>
  Every flag of the latency-arbitrage proxy goes back to a large enough trade and a counted burst of reactions
  to it, the queue of waiting trades is bounded, and the score of a flag does not depend on the burst.
\<close>

section \<open>What each stage leaves alone\<close>

definition la_config :: "latency_arb_proxy_detector \<Rightarrow> _" where
  "la_config d = (la_reaction_seq d, la_reaction_time_ns d, la_band_ticks d, la_min_trade_qty d, la_min_burst d,
     la_require_reversion d, la_reversion_bps d, la_cooldown_seq d)"

lemma la_book_same:
  "la_config (la_add_qty sd p q d) = la_config d" "la_config (la_sub_qty sd p q d) = la_config d"
  "la_pending (la_add_qty sd p q d) = la_pending d" "la_pending (la_sub_qty sd p q d) = la_pending d"
  by (simp_all add: la_add_qty_def la_sub_qty_def la_config_def)

lemma la_apply_same:
  assumes "la_apply ty e d = Some (d', tr)"
  shows "la_config d' = la_config d \<and> la_pending d' = la_pending d \<and> (tr \<noteq> None \<longrightarrow> ty = Trade)"
proof -
  have "la_config (d\<lparr>la_order_tracker := t\<rparr>) = la_config d" for t by (simp add: la_config_def)
  then show ?thesis
    using assms by (auto simp: la_apply_def la_book_same split: event_type.splits prod.splits option.splits)
qed

lemma la_config_fields:
  "la_config d = la_config d' \<Longrightarrow> la_min_burst d = la_min_burst d' \<and> la_min_trade_qty d = la_min_trade_qty d' \<and>
   la_band_ticks d = la_band_ticks d' \<and> la_reaction_seq d = la_reaction_seq d' \<and> la_cooldown_seq d = la_cooldown_seq d' \<and>
   la_reaction_time_ns d = la_reaction_time_ns d'"
  by (simp add: la_config_def)

lemma la_seed_same: "la_config (la_seed se tr mid d) = la_config d"
  by (simp add: la_seed_def la_config_def Let_def split: option.split)

section \<open>The scan over the waiting triggers\<close>

lemma la_scan_keep:
  "la_scan rnd se d trigs keep flag = (keep', flag') \<Longrightarrow>
   set keep' \<subseteq> set keep \<union> la_contribute se d ` set trigs \<and> length keep' \<le> length keep + length trigs"
proof (induction trigs arbitrary: keep flag)
  case (Cons t ts)
  let ?t = "la_contribute se d t"
  show ?case
    using Cons.prems Cons.IH [of keep flag] Cons.IH [of "keep @ [?t]" flag]
      Cons.IH [of keep "Some (la_build_flag rnd ?t (se_seq se) (ev_ts (se_event se)) d)"]
    by (cases "la_fate se d (flag = None) ?t") auto
qed simp

lemma la_scan_flag:
  "la_scan rnd se d trigs keep flag = (keep', Some ce) \<Longrightarrow> flag = Some ce \<or>
   (\<exists>t \<in> set trigs. let t' = la_contribute se d t in
      ce = la_build_flag rnd t' (se_seq se) (ev_ts (se_event se)) d \<and> la_inside_window se d t' \<and> pt_burst_qualified t')"
proof (induction trigs arbitrary: keep flag)
  case (Cons t ts)
  let ?t = "la_contribute se d t"
  show ?case
  proof (cases "la_fate se d (flag = None) ?t")
    case Flagged
    then have f: "flag = None" "la_inside_window se d ?t" "pt_burst_qualified ?t"
      by (auto simp: la_fate_def split: if_splits)
    have "ce = la_build_flag rnd ?t (se_seq se) (ev_ts (se_event se)) d \<or>
      (\<exists>t \<in> set ts. let t' = la_contribute se d t in
         ce = la_build_flag rnd t' (se_seq se) (ev_ts (se_event se)) d \<and> la_inside_window se d t' \<and> pt_burst_qualified t')"
      using Cons.IH [of keep "Some (la_build_flag rnd ?t (se_seq se) (ev_ts (se_event se)) d)"] Cons.prems Flagged by auto
    then show ?thesis using f by (auto simp: Let_def)
  qed (use Cons.prems Cons.IH in \<open>auto simp: Let_def\<close>)
qed simp

section \<open>Where the triggers come from\<close>

text \<open>
  A waiting trigger goes back to a trade of the feed that was large enough, and its counter to reactions that
  followed it; a qualified trigger has counted exactly \<open>min_burst\<close> of them.
\<close>

definition trigger_ok :: "sequenced_event list \<Rightarrow> latency_arb_proxy_detector \<Rightarrow> pending_trigger \<Rightarrow> bool" where
  "trigger_ok hist d t \<longleftrightarrow>
     (\<exists>pre te post. hist = pre @ te # post \<and> pt_seq t = se_seq te \<and> pt_ts t = ev_ts (se_event te) \<and>
        event_type_from_u8 (ev_event_type (se_event te)) = Some Trade \<and>
        unat (pt_burst_count t) \<le> length (filter (la_qualifies (la_band_ticks d) (pt_dir t) (pt_price t)) post)) \<and>
     la_min_trade_qty d \<le> pt_qty t \<and>
     (if pt_burst_qualified t then pt_burst_count t = la_min_burst d else pt_burst_count t < la_min_burst d)"

lemma trigger_ok_config: "la_config d = la_config d' \<Longrightarrow> trigger_ok hist d t = trigger_ok hist d' t"
  using la_config_fields [of d d'] by (simp add: trigger_ok_def)

lemma sat_add_1_le: "(x :: u32) < m \<Longrightarrow> m \<le> sat_add x 1 \<Longrightarrow> sat_add x 1 = m"
  by (simp add: word_less_nat_alt word_le_nat_alt word_unat_eq_iff unat_sat_add)

lemma contribute_ok:
  assumes "trigger_ok hist d t"
  shows "trigger_ok (hist @ [se]) d (la_contribute se d t)"
proof -
  obtain pre te post where h: "hist = pre @ te # post" "pt_seq t = se_seq te" "pt_ts t = ev_ts (se_event te)"
    "event_type_from_u8 (ev_event_type (se_event te)) = Some Trade"
    "unat (pt_burst_count t) \<le> length (filter (la_qualifies (la_band_ticks d) (pt_dir t) (pt_price t)) post)"
    using assms by (auto simp: trigger_ok_def)
  let ?c = "la_inside_window se d t \<and> \<not> pt_burst_qualified t \<and> la_qualifies (la_band_ticks d) (pt_dir t) (pt_price t) se"
  have same: "pt_seq (la_contribute se d t) = pt_seq t" "pt_ts (la_contribute se d t) = pt_ts t"
    "pt_dir (la_contribute se d t) = pt_dir t" "pt_price (la_contribute se d t) = pt_price t" "pt_qty (la_contribute se d t) = pt_qty t"
    "pt_burst_count (la_contribute se d t) = (if ?c then sat_add (pt_burst_count t) 1 else pt_burst_count t)"
    "pt_burst_qualified (la_contribute se d t) =
      (if ?c then la_min_burst d \<le> sat_add (pt_burst_count t) 1 else pt_burst_qualified t)"
    by (auto simp: la_contribute_def Let_def)
  have "unat (pt_burst_count (la_contribute se d t)) \<le>
      length (filter (la_qualifies (la_band_ticks d) (pt_dir t) (pt_price t)) (post @ [se]))"
    using h(5) by (auto simp: same unat_sat_add)
  moreover have "hist @ [se] = pre @ te # (post @ [se])" using h(1) by simp
  ultimately have orig: "\<exists>pre te post. hist @ [se] = pre @ te # post \<and> pt_seq t = se_seq te \<and> pt_ts t = ev_ts (se_event te) \<and>
      event_type_from_u8 (ev_event_type (se_event te)) = Some Trade \<and> unat (pt_burst_count (la_contribute se d t)) \<le>
        length (filter (la_qualifies (la_band_ticks d) (pt_dir t) (pt_price t)) post)"
    using h(2-4) by blast
  have "if pt_burst_qualified (la_contribute se d t) then pt_burst_count (la_contribute se d t) = la_min_burst d
    else pt_burst_count (la_contribute se d t) < la_min_burst d"
    using assms sat_add_1_le [of "pt_burst_count t" "la_min_burst d"] by (auto simp: trigger_ok_def same not_le split: if_splits)
  with orig assms show ?thesis by (simp only: trigger_ok_def same)
qed

definition la_inv :: "sequenced_event list \<Rightarrow> latency_arb_proxy_detector \<Rightarrow> bool" where
  "la_inv hist d \<longleftrightarrow> la_min_burst d \<noteq> 0 \<and> length (la_pending d) \<le> 64 \<and> (\<forall>t \<in> set (la_pending d). trigger_ok hist d t)"

text \<open>The trade event itself never counts as a reaction, so a fresh trigger enters the scan with 0.\<close>

lemma fresh_trigger:
  assumes "event_type_from_u8 (ev_event_type (se_event se)) = Some Trade" "la_min_trade_qty d \<le> ru_qty (rt_update tr)"
    "la_min_burst d \<noteq> 0"
  shows "trigger_ok (hist @ [se]) d (la_contribute se d (la_trigger se tr m))"
proof -
  have "la_contribute se d (la_trigger se tr m) = la_trigger se tr m"
    using assms(1) by (simp add: la_contribute_def la_qualifies_def)
  moreover have "hist @ [se] = hist @ se # []" by simp
  ultimately show ?thesis
    using assms unfolding trigger_ok_def la_trigger_def by (auto simp: word_gt_0)
qed

lemma trigger_ok_extend: "trigger_ok hist d t \<Longrightarrow> trigger_ok (hist @ [se]) d t"
proof -
  assume ok: "trigger_ok hist d t"
  then obtain pre te post where h: "hist = pre @ te # post" "pt_seq t = se_seq te" "pt_ts t = ev_ts (se_event te)"
    "event_type_from_u8 (ev_event_type (se_event te)) = Some Trade"
    "unat (pt_burst_count t) \<le> length (filter (la_qualifies (la_band_ticks d) (pt_dir t) (pt_price t)) post)"
    by (auto simp: trigger_ok_def)
  have "hist @ [se] = pre @ te # (post @ [se])" using h(1) by simp
  moreover have "unat (pt_burst_count t) \<le> length (filter (la_qualifies (la_band_ticks d) (pt_dir t) (pt_price t)) (post @ [se]))"
    using h(5) by auto
  ultimately show ?thesis using ok h(2-4) unfolding trigger_ok_def by blast
qed

lemma la_seed_pending:
  assumes "\<forall>t \<in> set (la_pending d). trigger_ok hist d t" "length (la_pending d) \<le> 64" "la_min_burst d \<noteq> 0"
    "tr \<noteq> None \<longrightarrow> event_type_from_u8 (ev_event_type (se_event se)) = Some Trade"
  shows "length (la_pending (la_seed se tr mid d)) \<le> 64 \<and>
    (\<forall>t \<in> set (la_pending (la_seed se tr mid d)). trigger_ok (hist @ [se]) d (la_contribute se d t))"
proof -
  have old: "trigger_ok (hist @ [se]) d (la_contribute se d t)" if "t \<in> set (la_pending d)" for t
    using assms(1) that contribute_ok by blast
  consider (same) "la_seed se tr mid d = d" | (pushed) u m where "tr = Some u" "la_min_trade_qty d \<le> ru_qty (rt_update u)"
    "la_pending (la_seed se tr mid d) = (if 64 < length (la_pending d @ [la_trigger se u m])
       then drop 1 (la_pending d @ [la_trigger se u m]) else la_pending d @ [la_trigger se u m])"
    by (cases tr; cases mid; cases "se_seq se < la_refractory_until d"; cases "la_min_trade_qty d \<le> ru_qty (rt_update (the tr))")
      (auto simp: la_seed_def Let_def)
  then show ?thesis
  proof cases
    case same
    then show ?thesis using old assms(2) by simp
  next
    case (pushed u m)
    have new: "trigger_ok (hist @ [se]) d (la_contribute se d (la_trigger se u m))"
      using fresh_trigger [OF _ pushed(2) assms(3)] assms(4) pushed(1) by simp
    have "set (la_pending (la_seed se tr mid d)) \<subseteq> set (la_pending d) \<union> {la_trigger se u m}"
      unfolding pushed(3) by (auto dest: in_set_dropD split: if_splits)
    then show ?thesis using old new assms(2) pushed(3) by auto
  qed
qed

lemma la_contribute_config:
  assumes "la_config d = la_config d'"
  shows "la_contribute se d t = la_contribute se d' t \<and> la_inside_window se d t = la_inside_window se d' t"
proof -
  note f = la_config_fields [OF assms]
  have "la_inside_window se d t = la_inside_window se d' t" using f by (simp add: la_inside_window_def)
  with f show ?thesis by (simp add: la_contribute_def)
qed

lemma la_process_cases:
  assumes "la_process rnd se d = (d', f)"
  obtains (idle) "d' = d" "f = None"
  | (scan) ty d1 tr d2 keep where "event_type_from_u8 (ev_event_type (se_event se)) = Some ty"
      "la_apply ty (se_event se) d = Some (d1, tr)" "d2 = la_seed se tr (la_midprice d) d1"
      "la_scan rnd se d2 (la_pending d2) [] None = (keep, f)" "la_pending d' = keep" "la_config d' = la_config d2"
proof (cases "event_type_from_u8 (ev_event_type (se_event se))")
  case None
  then show thesis using assms by (intro idle) (simp_all add: la_process_def)
next
  case (Some ty)
  show thesis
  proof (cases "la_apply ty (se_event se) d")
    case None
    then show thesis using assms Some by (intro idle) (simp_all add: la_process_def)
  next
    case applied: (Some x)
    obtain d1 tr where x: "x = (d1, tr)" by fastforce
    let ?d2 = "la_seed se tr (la_midprice d) d1"
    obtain keep g where k: "la_scan rnd se ?d2 (la_pending ?d2) [] None = (keep, g)" by fastforce
    have "la_pending d' = keep" "la_config d' = la_config ?d2" "f = g"
      using assms Some applied x k by (auto simp: la_process_def la_config_def Let_def)
    then show thesis using Some applied x k by (intro scan [of ty d1 tr ?d2 keep]) simp_all
  qed
qed

lemma la_process_inv:
  assumes "la_inv hist d" "la_process rnd se d = (d', f)"
  shows "la_inv (hist @ [se]) d' \<and> la_config d' = la_config d \<and>
    (\<forall>ce. f = Some ce \<longrightarrow> (\<exists>t x. trigger_ok (hist @ [se]) d t \<and> pt_burst_qualified t \<and> la_inside_window se d t \<and>
       la_config x = la_config d \<and> ce = la_build_flag rnd t (se_seq se) (ev_ts (se_event se)) x))"
proof (cases rule: la_process_cases [OF assms(2)])
  case 1
  then show ?thesis using assms(1) trigger_ok_extend by (auto simp: la_inv_def)
next
  case scan: (2 ty d1 tr d2 keep)
  note d2 = scan(3) and k = scan(4)
  let ?d2 = "la_seed se tr (la_midprice d) d1"
  note same = la_apply_same [OF scan(2)]
  have c1: "la_config d1 = la_config d" and c2: "la_config ?d2 = la_config d" using same la_seed_same by simp_all
  have c3: "la_config d' = la_config d" using scan(6) c2 d2 by simp
  have p: "length (la_pending ?d2) \<le> 64"
    "\<forall>t \<in> set (la_pending ?d2). trigger_ok (hist @ [se]) d (la_contribute se ?d2 t)"
    using la_seed_pending [of d1 hist tr se "la_midprice d"] assms(1) same scan(1) la_config_fields [OF c1]
    by (auto simp: la_inv_def trigger_ok_config [OF c1] la_contribute_config [OF c1] la_contribute_config [OF c2])
  have "la_inv (hist @ [se]) d'"
    using la_scan_keep [OF k] d2 p assms(1) la_config_fields [OF c3]
    by (auto simp: la_inv_def trigger_ok_config [OF c3] scan(5))
  moreover have "\<exists>t x. trigger_ok (hist @ [se]) d t \<and> pt_burst_qualified t \<and> la_inside_window se d t \<and>
     la_config x = la_config d \<and> ce = la_build_flag rnd t (se_seq se) (ev_ts (se_event se)) x" if "f = Some ce" for ce
    using la_scan_flag [OF k [unfolded that]] d2 p(2) c2 la_contribute_config [OF c2] by (auto simp: Let_def)
  ultimately show ?thesis using c3 by blast
qed

definition la_run :: "(rat \<Rightarrow> f64) \<Rightarrow> sequenced_event list \<Rightarrow> latency_arb_proxy_detector \<Rightarrow> latency_arb_proxy_detector" where
  "la_run rnd ses d = fold (\<lambda>se d. fst (la_process rnd se d)) ses d"

lemma la_run_inv: "la_inv hist d \<Longrightarrow> la_inv (hist @ ses) (la_run rnd ses d) \<and> la_config (la_run rnd ses d) = la_config d"
proof (induction ses arbitrary: hist d)
  case (Cons se ses)
  obtain d' f where p: "la_process rnd se d = (d', f)" by fastforce
  note step = la_process_inv [OF Cons.prems p]
  then show ?case using Cons.IH [of "hist @ [se]" d'] p by (simp add: la_run_def)
qed (simp add: la_run_def)

lemma la_new_inv: "burst \<noteq> 0 \<Longrightarrow> la_inv [] (la_new rs rt levels band qty burst rr bps cd)"
  by (simp add: la_inv_def la_new_def)

lemma la_new_fields:
  assumes "la_config d = la_config (la_new rs rt levels band qty burst rr bps cd)"
  shows "la_min_burst d = burst" "la_min_trade_qty d = qty" "la_band_ticks d = band" "la_reaction_seq d = rs"
    "la_reaction_time_ns d = rt"
  using la_config_fields [OF assms] by (simp_all add: la_new_def)

section \<open>The detector contract\<close>

definition la_ok :: "(rat \<Rightarrow> f64) \<Rightarrow> latency_arb_proxy_detector \<Rightarrow> bool" where
  "la_ok rnd d \<longleftrightarrow> unbounded rnd \<and> la_min_burst d \<noteq> 0"

lemma la_severity_score:
  assumes "unbounded rnd" "la_min_burst d \<noteq> 0"
  shows "unit_score (la_severity rnd t n d)"
proof -
  have "0 < unat (la_min_burst d)" using assms(2) unat_eq_zero [of "la_min_burst d"] by simp
  then have "f64_mul rnd (f64_of_nat rnd (unat (la_min_burst d))) (Fin 4) \<noteq> Fin 0"
    using f64_scaled_nonzero [OF assms(1), of _ 4] by simp
  then show ?thesis
    using assms(1) u64_as_f64_nonzero [OF unbounded_rounding [OF assms(1)]]
    by (simp add: la_severity_def Let_def unit_score_clamp is_fin_not_NaN is_fin_ops word_gt_0)
qed

lemma la_process_flag:
  assumes "la_process rnd se d = (d', f)"
  shows "la_config d' = la_config d"
    "f = Some ce \<Longrightarrow> \<exists>t x. la_config x = la_config d \<and> ce = la_build_flag rnd t (se_seq se) (ev_ts (se_event se)) x"
proof -
  have "la_config d' = la_config d \<and> (f = Some ce \<longrightarrow>
      (\<exists>t x. la_config x = la_config d \<and> ce = la_build_flag rnd t (se_seq se) (ev_ts (se_event se)) x))"
  proof (cases rule: la_process_cases [OF assms])
    case (2 ty d1 tr d2 keep)
    have c: "la_config d2 = la_config d" using la_apply_same [OF 2(2)] la_seed_same 2(3) by simp
    with 2(4,6) la_scan_flag [of rnd se d2 "la_pending d2" "[]" None keep ce] show ?thesis by (auto simp: Let_def)
  qed simp
  then show "la_config d' = la_config d"
    "f = Some ce \<Longrightarrow> \<exists>t x. la_config x = la_config d \<and> ce = la_build_flag rnd t (se_seq se) (ev_ts (se_event se)) x"
    by blast+
qed

interpretation latency_arb: chaos_detector "la_process rnd" "la_ok rnd" LatencyArbitrage for rnd
proof
  fix d se ce
  obtain d' f where p: "la_process rnd se d = (d', f)" by fastforce
  show "la_ok rnd (fst (la_process rnd se d))" if "la_ok rnd d"
    using that la_config_fields [OF la_process_flag(1) [OF p]] p by (simp add: la_ok_def)
  show "ce_kind ce = LatencyArbitrage \<and> ce_end_seq ce = se_seq se \<and> unit_score (ce_severity ce)"
    if ok: "la_ok rnd d" and f: "snd (la_process rnd se d) = Some ce"
  proof -
    obtain t x where x: "la_config x = la_config d" "ce = la_build_flag rnd t (se_seq se) (ev_ts (se_event se)) x"
      using la_process_flag(2) [OF p, of ce] f p by auto
    then show ?thesis using ok la_severity_score [of rnd x] la_config_fields [OF x(1)] by (simp add: la_build_flag_def la_ok_def)
  qed
qed

section \<open>Properties\<close>

text \<open>
  A latency-arbitrage flag is evidence of the pattern it names. When a new detector (with
  \<open>min_burst\<close> at least 1) has been run over any feed and flags the next event, the feed contains a trade with the
  reported start, of at least \<open>min_trade_qty\<close>, and after it at least \<open>min_burst\<close> adds or cancels on one side
  within \<open>band_ticks\<close> of its price, the last event included; the flagged event lies inside a reaction window.
\<close>

theorem arb_flag_sound:
  assumes "burst \<noteq> 0" and flag: "snd (la_process rnd se (la_run rnd ses (la_new rs rt levels band qty burst rr bps cd))) = Some ce"
  shows "\<exists>pre te post dr price. ses @ [se] = pre @ te # post \<and>
    event_type_from_u8 (ev_event_type (se_event te)) = Some Trade \<and> ce_start_seq ce = se_seq te \<and>
    qty \<le> cf_depth_removed (ce_features ce) \<and> unat burst \<le> length (filter (la_qualifies band dr price) post) \<and>
    (0 < rs \<and> sat_sub (se_seq se) (se_seq te) \<le> rs \<or> 0 < rt \<and> sat_sub (ev_ts (se_event se)) (ev_ts (se_event te)) \<le> rt)"
proof -
  let ?new = "la_new rs rt levels band qty burst rr bps cd"
  let ?d = "la_run rnd ses ?new"
  have inv: "la_inv ses ?d" "la_config ?d = la_config ?new" using la_run_inv [OF la_new_inv [OF assms(1)]] by auto
  obtain d' where p: "la_process rnd se ?d = (d', Some ce)" using flag by (metis prod.collapse)
  from la_process_inv [OF inv(1) p] obtain t x where t: "trigger_ok (ses @ [se]) ?d t" "pt_burst_qualified t"
    "la_inside_window se ?d t" "ce = la_build_flag rnd t (se_seq se) (ev_ts (se_event se)) x" by blast
  note c = la_new_fields [OF inv(2)]
  obtain pre te post where h: "ses @ [se] = pre @ te # post" "pt_seq t = se_seq te" "pt_ts t = ev_ts (se_event te)"
    "event_type_from_u8 (ev_event_type (se_event te)) = Some Trade"
    "unat (pt_burst_count t) \<le> length (filter (la_qualifies band (pt_dir t) (pt_price t)) post)"
    using t(1) c(3) by (auto simp: trigger_ok_def)
  have "pt_burst_count t = burst" "qty \<le> pt_qty t" using t(1,2) c by (simp_all add: trigger_ok_def)
  then show ?thesis
    using h t(3) c by (intro exI [of _ pre] exI [of _ te] exI [of _ post] exI [of _ "pt_dir t"] exI [of _ "pt_price t"])
      (simp add: t(4) la_build_flag_def la_inside_window_def)
qed

definition la_event :: "u64 \<Rightarrow> u8 \<Rightarrow> u8 \<Rightarrow> u64 \<Rightarrow> u64 \<Rightarrow> sequenced_event" where
  "la_event n ty sd price qty =
     \<lparr>se_seq = n, se_channel_id = 0, se_event =
        event_zeroed\<lparr>ev_price := price, ev_qty := qty, ev_event_type := ty, ev_side := sd\<rparr>\<rparr>"

definition arb_feed :: "sequenced_event list" where
  "arb_feed = [la_event 1 1 0 10000 5, la_event 2 1 1 10020 5, la_event 3 1 1 10040 5, la_event 4 4 1 10020 5,
     la_event 5 4 1 10040 1]"

definition arb_new :: latency_arb_proxy_detector where
  "arb_new = la_new 8 0 8 5 1 1 False 0 100"

lemma arb_feed_flags: "snd (la_process Fin (la_event 6 1 0 10020 1) (la_run Fin arb_feed arb_new)) \<noteq> None"
  by code_simp

theorem arb_flag_sound_witness:
  "\<exists>ce pre te post. snd (la_process Fin (la_event 6 1 0 10020 1) (la_run Fin arb_feed arb_new)) = Some ce \<and>
     arb_feed @ [la_event 6 1 0 10020 1] = pre @ te # post \<and> ce_start_seq ce = se_seq te \<and> post \<noteq> []"
proof -
  let ?f = "snd (la_process Fin (la_event 6 1 0 10020 1) (la_run Fin arb_feed arb_new))"
  obtain ce where ce: "?f = Some ce" using arb_feed_flags by blast
  have "\<exists>pre te post dr price. arb_feed @ [la_event 6 1 0 10020 1] = pre @ te # post \<and> ce_start_seq ce = se_seq te \<and>
    unat (1 :: u32) \<le> length (filter (la_qualifies 5 dr price) post)"
    using arb_flag_sound [of 1, OF _ ce [unfolded arb_new_def]] by fastforce
  then obtain pre te post dr price where "arb_feed @ [la_event 6 1 0 10020 1] = pre @ te # post" "ce_start_seq ce = se_seq te"
    "1 \<le> length (filter (la_qualifies 5 dr price) post)" by auto
  moreover have "post \<noteq> []" using calculation(3) by auto
  ultimately show ?thesis using ce by blast
qed

text \<open>
  The queue of waiting trades is bounded by 64 whatever the feed sends.
\<close>

theorem arb_pending_bounded:
  assumes "burst \<noteq> 0"
  shows "la_pending_triggers (la_run rnd ses (la_new rs rt levels band qty burst rr bps cd)) \<le> 64"
  using la_run_inv [OF la_new_inv [OF assms]] by (auto simp: la_pending_triggers_def la_inv_def)

theorem arb_pending_bounded_witness: "la_pending_triggers (la_run Fin arb_feed arb_new) \<le> 64"
  unfolding arb_new_def by (rule arb_pending_bounded) simp

text \<open>
  The burst never differentiates flags: a trigger stops counting when it qualifies, so every flag
  reports exactly \<open>min_burst\<close> reactions, and with exact arithmetic the burst part of every score is one quarter.
\<close>

theorem arb_burst_constant:
  assumes "burst \<noteq> 0" and flag: "snd (la_process Fin se (la_run Fin ses (la_new rs rt levels band qty burst rr bps cd))) = Some ce"
  shows "cf_event_count (ce_features ce) = ucast burst \<and> (rs = 0 \<longrightarrow> ce_severity ce = Fin (4 / 10 * (1 / 4)))"
proof -
  let ?new = "la_new rs rt levels band qty burst rr bps cd"
  let ?d = "la_run Fin ses ?new"
  have inv: "la_inv ses ?d" "la_config ?d = la_config ?new" using la_run_inv [OF la_new_inv [OF assms(1)]] by auto
  obtain d' where p: "la_process Fin se ?d = (d', Some ce)" using flag by (metis prod.collapse)
  from la_process_inv [OF inv(1) p] obtain t x where t: "trigger_ok (ses @ [se]) ?d t" "pt_burst_qualified t"
    "la_config x = la_config ?d" "ce = la_build_flag Fin t (se_seq se) (ev_ts (se_event se)) x" by blast
  have c: "la_min_burst x = burst" "la_reaction_seq x = rs" "pt_burst_count t = burst"
    using la_new_fields [OF inv(2)] la_config_fields [OF t(3)] t(1,2) by (simp_all add: trigger_ok_def)
  have "unat burst \<noteq> 0" using assms(1) by (simp add: unat_eq_zero)
  then have "f64_clamp (Fin 0) (Fin 1) (f64_div Fin (f64_of_nat Fin (unat burst)) (f64_mul Fin (f64_of_nat Fin (unat burst)) (Fin 4))) = Fin (1 / 4)"
    by (simp add: f64_of_nat_def f64_mul_def f64_clamp_def f64_lt_def del: of_nat_unat)
  then show ?thesis using c by (auto simp: t(4) la_build_flag_def la_severity_def Let_def f64_mul_def f64_clamp_def f64_lt_def)
qed

theorem arb_burst_constant_witness:
  "\<exists>ce. snd (la_process Fin (la_event 6 1 0 10020 1) (la_run Fin arb_feed arb_new)) = Some ce \<and>
     cf_event_count (ce_features ce) = 1"
proof -
  let ?f = "snd (la_process Fin (la_event 6 1 0 10020 1) (la_run Fin arb_feed arb_new))"
  obtain ce where ce: "?f = Some ce" using arb_feed_flags by blast
  from arb_burst_constant [of 1, OF _ ce [unfolded arb_new_def]] ce show ?thesis by simp
qed

text \<open>
  The cooldown only keeps new trades out of the queue. Trades that already wait still flag: with a cooldown of
  100 the feed below is flagged at sequence numbers 6 and 7.
\<close>

theorem arb_flags_inside_cooldown:
  "map ce_end_seq (detector_flags (la_process Fin) (arb_feed @ [la_event 6 1 0 10020 1, la_event 7 1 0 10040 1]) arb_new) = [6, 7]"
  by code_simp

end
