(* ===== verification/FL_Chain.thy ===== *)
theory FL_Chain
  imports FL_DetectionProperties FL_PhantomProperties FL_CancelStormProperties FL_MomentumProperties FL_FlashCrashProperties
    FL_LatencyArbProperties
begin

text \<open>
  The detector chain of \<open>chaos/src/chain.rs\<close>: the seven detectors fed with the same events, their flags in a
  fixed order, and a counter per kind. It is the client of the detector interface.
\<close>

section \<open>The chain\<close>

record chaos_chain =
  cc_quote :: quote_stuff_detector
  cc_spoof :: spoof_detector
  cc_phantom :: phantom_detector
  cc_storm :: cancel_storm_detector
  cc_ignition :: momentum_ignition_detector
  cc_crash :: flash_crash_detector
  cc_proxy :: latency_arb_proxy_detector
  cc_counts :: "u64 list"

definition cc_new :: "quote_stuff_detector \<Rightarrow> spoof_detector \<Rightarrow> phantom_detector \<Rightarrow> cancel_storm_detector \<Rightarrow>
    momentum_ignition_detector \<Rightarrow> flash_crash_detector \<Rightarrow> latency_arb_proxy_detector \<Rightarrow> chaos_chain" where
  "cc_new quote spoof phant storm ignition crash proxy =
     \<lparr>cc_quote = quote, cc_spoof = spoof, cc_phantom = phant, cc_storm = storm, cc_ignition = ignition,
      cc_crash = crash, cc_proxy = proxy, cc_counts = replicate 7 0\<rparr>"

definition cc_default_itch :: "(rat \<Rightarrow> f64) \<Rightarrow> chaos_chain" where
  "cc_default_itch rnd =
     cc_new (qs_new 48 (Fin 8)) (sp_new 1000 64) (pd_new 256 5000000 4096 100)
       (cs_new 2048 0 128 1024 (rnd (5 / 100)) (Fin 4) 8 4096) (mi_new 1024 0 64 5 8 4 2048)
       (fc_new 10 8 64 5 (rnd (6 / 10)) 3 2048) (la_new 64 0 64 4 200 4 False 0 1024)"

definition kind_index :: "chaos_kind \<Rightarrow> nat" where
  "kind_index k =
     (case k of QuoteStuff \<Rightarrow> 0 | Spoof \<Rightarrow> 1 | PhantomLiquidity \<Rightarrow> 2 | CancellationStorm \<Rightarrow> 3 | MomentumIgnition \<Rightarrow> 4
      | FlashCrash \<Rightarrow> 5 | LatencyArbitrage \<Rightarrow> 6)"

definition cc_bump :: "chaos_event \<Rightarrow> u64 list \<Rightarrow> u64 list" where
  "cc_bump e counts = (let i = kind_index (ce_kind e) in counts[i := sat_add (counts ! i) 1])"

text \<open>One \<open>if let Some(e) = self.detector.process(..)\<close> of \<open>process_into\<close>.\<close>

definition cc_stage :: "(sequenced_event \<Rightarrow> 'd \<Rightarrow> 'd \<times> chaos_event option) \<Rightarrow> (chaos_chain \<Rightarrow> 'd) \<Rightarrow>
    ('d \<Rightarrow> chaos_chain \<Rightarrow> chaos_chain) \<Rightarrow> sequenced_event \<Rightarrow> chaos_chain \<times> chaos_event list \<Rightarrow> chaos_chain \<times> chaos_event list" where
  "cc_stage process get put se st =
     (case st of (c, out) \<Rightarrow>
        case process se (get c) of
          (d, None) \<Rightarrow> (put d c, out)
        | (d, Some e) \<Rightarrow> ((put d c)\<lparr>cc_counts := cc_bump e (cc_counts c)\<rparr>, out @ [e]))"

definition cc_process_into :: "(rat \<Rightarrow> f64) \<Rightarrow> (f64 \<Rightarrow> f64) \<Rightarrow> sequenced_event \<Rightarrow> chaos_chain \<times> chaos_event list \<Rightarrow>
    chaos_chain \<times> chaos_event list" where
  "cc_process_into rnd sq se st =
     (let st1 = cc_stage (qs_process rnd) cc_quote (\<lambda>d c. c\<lparr>cc_quote := d\<rparr>) se st;
          st2 = cc_stage (sp_process rnd) cc_spoof (\<lambda>d c. c\<lparr>cc_spoof := d\<rparr>) se st1;
          st3 = cc_stage (pd_process rnd) cc_phantom (\<lambda>d c. c\<lparr>cc_phantom := d\<rparr>) se st2;
          st4 = cc_stage (cs_process rnd sq) cc_storm (\<lambda>d c. c\<lparr>cc_storm := d\<rparr>) se st3;
          st5 = cc_stage (mi_process rnd) cc_ignition (\<lambda>d c. c\<lparr>cc_ignition := d\<rparr>) se st4;
          st6 = cc_stage (fc_process rnd) cc_crash (\<lambda>d c. c\<lparr>cc_crash := d\<rparr>) se st5
      in cc_stage (la_process rnd) cc_proxy (\<lambda>d c. c\<lparr>cc_proxy := d\<rparr>) se st6)"

definition cc_process :: "(rat \<Rightarrow> f64) \<Rightarrow> (f64 \<Rightarrow> f64) \<Rightarrow> sequenced_event \<Rightarrow> chaos_chain \<Rightarrow> chaos_chain \<times> chaos_event list" where
  "cc_process rnd sq se c = cc_process_into rnd sq se (c, [])"

definition cc_count :: "chaos_kind \<Rightarrow> chaos_chain \<Rightarrow> u64" where
  "cc_count k c = cc_counts c ! kind_index k"

definition cc_total_flags :: "chaos_chain \<Rightarrow> u64" where
  "cc_total_flags c = sum_list (cc_counts c)"

section \<open>A call of the chain\<close>

lemma cc_stage_eq:
  assumes "\<And>d c. cc_counts (put d c) = cc_counts c" "\<And>d c. (put d c)\<lparr>cc_counts := cc_counts c\<rparr> = put d c"
  shows "cc_stage process get put se (c, out) =
    ((put (fst (process se (get c))) c)\<lparr>cc_counts := fold cc_bump (flag_list (snd (process se (get c)))) (cc_counts c)\<rparr>,
     out @ flag_list (snd (process se (get c))))"
  using assms by (cases "process se (get c)"; cases "snd (process se (get c))") (auto simp: cc_stage_def)

definition cc_step_flags :: "(rat \<Rightarrow> f64) \<Rightarrow> (f64 \<Rightarrow> f64) \<Rightarrow> sequenced_event \<Rightarrow> chaos_chain \<Rightarrow> chaos_event list" where
  "cc_step_flags rnd sq se c =
     flag_list (snd (qs_process rnd se (cc_quote c))) @ flag_list (snd (sp_process rnd se (cc_spoof c))) @
     flag_list (snd (pd_process rnd se (cc_phantom c))) @ flag_list (snd (cs_process rnd sq se (cc_storm c))) @
     flag_list (snd (mi_process rnd se (cc_ignition c))) @ flag_list (snd (fc_process rnd se (cc_crash c))) @
     flag_list (snd (la_process rnd se (cc_proxy c)))"

lemma cc_process_into_eq:
  "cc_process_into rnd sq se (c, out) =
     (\<lparr>cc_quote = fst (qs_process rnd se (cc_quote c)), cc_spoof = fst (sp_process rnd se (cc_spoof c)),
       cc_phantom = fst (pd_process rnd se (cc_phantom c)), cc_storm = fst (cs_process rnd sq se (cc_storm c)),
       cc_ignition = fst (mi_process rnd se (cc_ignition c)), cc_crash = fst (fc_process rnd se (cc_crash c)),
       cc_proxy = fst (la_process rnd se (cc_proxy c)), cc_counts = fold cc_bump (cc_step_flags rnd sq se c) (cc_counts c)\<rparr>,
      out @ cc_step_flags rnd sq se c)"
  by (simp add: cc_process_into_def Let_def cc_stage_eq cc_step_flags_def)

fun cc_run :: "(rat \<Rightarrow> f64) \<Rightarrow> (f64 \<Rightarrow> f64) \<Rightarrow> sequenced_event list \<Rightarrow> chaos_chain \<Rightarrow> chaos_chain \<times> chaos_event list" where
  "cc_run rnd sq [] c = (c, [])"
| "cc_run rnd sq (se # ses) c =
     (let (c1, fs) = cc_process rnd sq se c; (c2, gs) = cc_run rnd sq ses c1 in (c2, fs @ gs))"

lemma cc_run_Cons:
  "cc_run rnd sq (se # ses) c =
     (fst (cc_run rnd sq ses (fst (cc_process rnd sq se c))),
      cc_step_flags rnd sq se c @ snd (cc_run rnd sq ses (fst (cc_process rnd sq se c))))"
  by (simp add: cc_process_def cc_process_into_eq case_prod_unfold Let_def)

declare cc_run.simps(2) [simp del]

section \<open>Counters\<close>

lemma kind_index_bound: "kind_index k < 7"
  by (simp add: kind_index_def split: chaos_kind.split)

lemma kind_index_inject: "kind_index k = kind_index k' \<longleftrightarrow> k = k'"
  by (cases k; cases k') (simp_all add: kind_index_def)

lemma length_bumps: "length (fold cc_bump fs ns) = length ns"
  by (induction fs arbitrary: ns) (simp_all add: cc_bump_def Let_def)

lemma unat_bumps:
  "length ns = 7 \<Longrightarrow> unat (fold cc_bump fs ns ! kind_index k) =
   min (unat (ns ! kind_index k) + length (filter (\<lambda>ce. ce_kind ce = k) fs)) (2 ^ 64 - 1)"
proof (induction fs arbitrary: ns)
  case Nil
  then show ?case using unat_lt_u64 [of "ns ! kind_index k"] by simp
next
  case (Cons f fs)
  have "unat (cc_bump f ns ! kind_index k) = (if ce_kind f = k then min (unat (ns ! kind_index k) + 1) (2 ^ 64 - 1) else unat (ns ! kind_index k))"
    using Cons.prems kind_index_bound [of k] by (auto simp: cc_bump_def Let_def nth_list_update kind_index_inject unat_sat_add)
  then show ?case using Cons.IH [of "cc_bump f ns"] Cons.prems by (auto simp: cc_bump_def Let_def min_def)
qed

lemma cc_run_counts:
  "cc_counts (fst (cc_run rnd sq ses c)) = fold cc_bump (snd (cc_run rnd sq ses c)) (cc_counts c)"
  by (induction ses arbitrary: c) (simp_all add: cc_run_Cons cc_process_def cc_process_into_eq)

section \<open>The kind of a flag\<close>

text \<open>
  Whatever its configuration, its state and the rounding, a detector only raises flags of its own kind, and they end at
  the event that raised them. This is all the chain needs to tell its seven detectors apart.
\<close>

locale kinded_detector =
  fixes process :: "sequenced_event \<Rightarrow> 'd \<Rightarrow> 'd \<times> chaos_event option"
    and kind :: chaos_kind
  assumes flag_kind: "snd (process se d) = Some ce \<Longrightarrow> ce_kind ce = kind \<and> ce_end_seq ce = se_seq se"
begin

lemma kind_filter:
  "filter (\<lambda>ce. ce_kind ce = k) (flag_list (snd (process se d))) = (if k = kind then flag_list (snd (process se d)) else [])"
  using flag_kind [of se d] by (cases "snd (process se d)") auto

lemma kind_flags: "ce \<in> set (flag_list (snd (process se d))) \<Longrightarrow> ce_kind ce = kind \<and> ce_end_seq ce = se_seq se"
  using flag_kind [of se d] by (cases "snd (process se d)") auto

end

lemma qs_process_kind: "snd (qs_process rnd se d) = Some ce \<Longrightarrow> ce_kind ce = QuoteStuff \<and> ce_end_seq ce = se_seq se"
  by (auto simp: qs_process_def qs_flag_def Let_def case_prod_unfold split: if_splits)

lemma sp_process_kind: "snd (sp_process rnd se d) = Some ce \<Longrightarrow> ce_kind ce = Spoof \<and> ce_end_seq ce = se_seq se"
  by (auto simp: sp_process_def sp_flag_def Let_def split: option.splits event_type.splits if_splits)

lemma pd_on_cancel_kind: "snd (pd_on_cancel rnd se d) = Some ce \<Longrightarrow> ce_kind ce = PhantomLiquidity \<and> ce_end_seq ce = se_seq se"
  by (auto simp: pd_on_cancel_def pd_judge_def Let_def split: prod.splits option.splits if_splits)

lemma pd_process_kind: "snd (pd_process rnd se d) = Some ce \<Longrightarrow> ce_kind ce = PhantomLiquidity \<and> ce_end_seq ce = se_seq se"
  using pd_on_cancel_kind [of rnd se d ce]
  by (auto simp: pd_process_def Let_def case_prod_unfold split: option.splits event_type.splits)

lemma cs_process_kind: "snd (cs_process rnd sq se d) = Some ce \<Longrightarrow> ce_kind ce = CancellationStorm \<and> ce_end_seq ce = se_seq se"
  by (auto simp: cs_process_def cs_judge_def cs_emit_flag_def Let_def split: if_splits)

lemma mi_process_kind: "snd (mi_process rnd se d) = Some ce \<Longrightarrow> ce_kind ce = MomentumIgnition \<and> ce_end_seq ce = se_seq se"
  by (auto simp: mi_process_def mi_judge_def mi_flag_def split: option.splits if_splits)

lemma fc_process_kind: "snd (fc_process rnd se d) = Some ce \<Longrightarrow> ce_kind ce = FlashCrash \<and> ce_end_seq ce = se_seq se"
  by (auto simp: fc_process_def fc_detect_def fc_flag_def Let_def split: option.splits if_splits)

lemma la_build_flag_kind: "ce_kind (la_build_flag rnd trig s t d) = LatencyArbitrage \<and> ce_end_seq (la_build_flag rnd trig s t d) = s"
  by (simp add: la_build_flag_def)

lemma la_scan_kind:
  "snd (la_scan rnd se d trigs keep flag) = Some ce \<Longrightarrow> flag = Some ce \<or> ce_kind ce = LatencyArbitrage \<and> ce_end_seq ce = se_seq se"
proof (induction trigs arbitrary: keep flag)
  case (Cons trig trigs)
  then show ?case
    using la_build_flag_kind [of rnd "la_contribute se d trig" "se_seq se" "ev_ts (se_event se)" d]
    by (cases "la_fate se d (flag = None) (la_contribute se d trig)") (fastforce simp: Let_def)+
qed simp

lemma la_process_kind: "snd (la_process rnd se d) = Some ce \<Longrightarrow> ce_kind ce = LatencyArbitrage \<and> ce_end_seq ce = se_seq se"
  using la_scan_kind [where flag = None]
  by (fastforce simp: la_process_def Let_def case_prod_unfold split: option.splits)

interpretation quote_kind: kinded_detector "qs_process rnd" QuoteStuff for rnd by unfold_locales (rule qs_process_kind)

interpretation spoof_kind: kinded_detector "sp_process rnd" Spoof for rnd by unfold_locales (rule sp_process_kind)

interpretation phantom_kind: kinded_detector "pd_process rnd" PhantomLiquidity for rnd by unfold_locales (rule pd_process_kind)

interpretation storm_kind: kinded_detector "cs_process rnd sq" CancellationStorm for rnd sq by unfold_locales (rule cs_process_kind)

interpretation ignition_kind: kinded_detector "mi_process rnd" MomentumIgnition for rnd by unfold_locales (rule mi_process_kind)

interpretation crash_kind: kinded_detector "fc_process rnd" FlashCrash for rnd by unfold_locales (rule fc_process_kind)

interpretation proxy_kind: kinded_detector "la_process rnd" LatencyArbitrage for rnd by unfold_locales (rule la_process_kind)

lemma cc_step_kinds:
  "filter (\<lambda>ce. ce_kind ce = k) (cc_step_flags rnd sq se c) =
    (case k of
       QuoteStuff \<Rightarrow> flag_list (snd (qs_process rnd se (cc_quote c)))
     | Spoof \<Rightarrow> flag_list (snd (sp_process rnd se (cc_spoof c)))
     | PhantomLiquidity \<Rightarrow> flag_list (snd (pd_process rnd se (cc_phantom c)))
     | CancellationStorm \<Rightarrow> flag_list (snd (cs_process rnd sq se (cc_storm c)))
     | MomentumIgnition \<Rightarrow> flag_list (snd (mi_process rnd se (cc_ignition c)))
     | FlashCrash \<Rightarrow> flag_list (snd (fc_process rnd se (cc_crash c)))
     | LatencyArbitrage \<Rightarrow> flag_list (snd (la_process rnd se (cc_proxy c))))"
  by (simp add: cc_step_flags_def quote_kind.kind_filter spoof_kind.kind_filter phantom_kind.kind_filter storm_kind.kind_filter
      ignition_kind.kind_filter crash_kind.kind_filter proxy_kind.kind_filter split: chaos_kind.split)

lemma cc_step_sorted:
  "sorted_wrt (<) (map (kind_index \<circ> ce_kind) (cc_step_flags rnd sq se c)) \<and>
   (\<forall>ce \<in> set (cc_step_flags rnd sq se c). ce_end_seq ce = se_seq se)"
proof -
  have one: "sorted_wrt (<) (map h (flag_list f))" for f and h :: "chaos_event \<Rightarrow> nat" by (cases f) simp_all
  show ?thesis
    unfolding cc_step_flags_def
    by (auto simp: sorted_wrt_append one kind_index_def dest!: quote_kind.kind_flags spoof_kind.kind_flags phantom_kind.kind_flags
        storm_kind.kind_flags ignition_kind.kind_flags crash_kind.kind_flags proxy_kind.kind_flags)
qed

text \<open>The flags of a kind, as the detector of that kind would raise them on its own.\<close>

definition solo_flags :: "(rat \<Rightarrow> f64) \<Rightarrow> (f64 \<Rightarrow> f64) \<Rightarrow> chaos_kind \<Rightarrow> sequenced_event list \<Rightarrow> chaos_chain \<Rightarrow> chaos_event list" where
  "solo_flags rnd sq k ses c =
     (case k of
        QuoteStuff \<Rightarrow> detector_flags (qs_process rnd) ses (cc_quote c)
      | Spoof \<Rightarrow> detector_flags (sp_process rnd) ses (cc_spoof c)
      | PhantomLiquidity \<Rightarrow> detector_flags (pd_process rnd) ses (cc_phantom c)
      | CancellationStorm \<Rightarrow> detector_flags (cs_process rnd sq) ses (cc_storm c)
      | MomentumIgnition \<Rightarrow> detector_flags (mi_process rnd) ses (cc_ignition c)
      | FlashCrash \<Rightarrow> detector_flags (fc_process rnd) ses (cc_crash c)
      | LatencyArbitrage \<Rightarrow> detector_flags (la_process rnd) ses (cc_proxy c))"

lemma cc_run_kinds: "filter (\<lambda>ce. ce_kind ce = k) (snd (cc_run rnd sq ses c)) = solo_flags rnd sq k ses c"
proof (induction ses arbitrary: c)
  case Nil
  then show ?case by (simp add: solo_flags_def split: chaos_kind.split)
next
  case (Cons se ses)
  show ?case
    using Cons.IH [of "fst (cc_process rnd sq se c)"] cc_step_kinds [of k rnd sq se c]
    by (cases k) (simp_all add: cc_run_Cons solo_flags_def detector_flags_Cons cc_process_def cc_process_into_eq
        del: detector_flags.simps(2))
qed

section \<open>The chain as a client of the detector interface\<close>

definition cc_ok :: "(rat \<Rightarrow> f64) \<Rightarrow> chaos_chain \<Rightarrow> bool" where
  "cc_ok rnd c \<longleftrightarrow> rounding rnd \<and> f64_le (Fin 0) (qs_threshold (cc_quote c)) \<and> cs_ok rnd (cc_storm c) \<and>
     mi_ok rnd (cc_ignition c) \<and> fc_ok rnd (cc_crash c) \<and> la_ok rnd (cc_proxy c)"

lemma cc_ok_step: "cc_ok rnd c \<Longrightarrow> cc_ok rnd (fst (cc_process rnd sq se c))"
  using quote_stuff.ok_step [of rnd "cc_quote c" se] cancel_storm.ok_step [of rnd "cc_storm c" sq se]
    momentum.ok_step [of rnd "cc_ignition c" se] flash_crash.ok_step [of rnd "cc_crash c" se]
    latency_arb.ok_step [of rnd "cc_proxy c" se]
  by (simp add: cc_ok_def cc_process_def cc_process_into_eq)

lemma cc_step_ordered:
  assumes "cc_ok rnd c"
  shows "sorted_wrt (<) (map (kind_index \<circ> ce_kind) (cc_step_flags rnd sq se c)) \<and>
    (\<forall>ce \<in> set (cc_step_flags rnd sq se c). ce_end_seq ce = se_seq se \<and> unit_score (ce_severity ce))"
proof -
  have ok: "rounding rnd \<and> f64_le (Fin 0) (qs_threshold (cc_quote c))" "rounding rnd" "cs_ok rnd (cc_storm c)"
    "mi_ok rnd (cc_ignition c)" "fc_ok rnd (cc_crash c)" "la_ok rnd (cc_proxy c)"
    using assms by (simp_all add: cc_ok_def)
  note flags = quote_stuff.step_flags [OF ok(1), of _ se] spoof.step_flags [OF ok(2), of _ se "cc_spoof c"]
    phantom.step_flags [OF ok(2), of _ se "cc_phantom c"] cancel_storm.step_flags [OF ok(3), of _ sq se]
    momentum.step_flags [OF ok(4), of _ se] flash_crash.step_flags [OF ok(5), of _ se] latency_arb.step_flags [OF ok(6), of _ se]
  have one: "sorted_wrt (<) (map h (flag_list f))" for f and h :: "chaos_event \<Rightarrow> nat" by (cases f) simp_all
  show ?thesis
    unfolding cc_step_flags_def by (auto simp: sorted_wrt_append one kind_index_def dest!: flags)
qed

lemma cc_default_ok:
  assumes "unbounded rnd" "rnd (5 / 100) = Fin f" "0 < f"
  shows "cc_ok rnd (cc_default_itch rnd)"
  using assms
  by (simp add: cc_ok_def cc_default_itch_def cc_new_def qs_new_def cs_ok_def cs_new_def welford_default_def mi_ok_def mi_new_def
      fc_ok_def fc_new_def la_ok_def la_new_def unbounded_rounding)

section \<open>Properties\<close>

text \<open>
  Property C23. The seven detectors of a chain do not disturb each other, and the counters are exact. For any seven
  detectors the chain is built from, any rounding and any feed, the flags of each kind that the chain emits are
  those, in order, that the detector of that kind alone raises on the same feed; its counter is their number
  (saturating at the largest \<open>u64\<close>); and the flags of one call come in the order of the kinds, at most one of each.
\<close>

theorem chain_is_seven_detectors:
  "let c = cc_new quote spoof phant storm ignition crash proxy in
     filter (\<lambda>ce. ce_kind ce = k) (snd (cc_run rnd sq ses c)) = solo_flags rnd sq k ses c \<and>
     unat (cc_count k (fst (cc_run rnd sq ses c))) = min (length (solo_flags rnd sq k ses c)) (2 ^ 64 - 1) \<and>
     sorted_wrt (<) (map (kind_index \<circ> ce_kind) (snd (cc_process rnd sq se (fst (cc_run rnd sq ses c)))))"
proof -
  define c where "c = cc_new quote spoof phant storm ignition crash proxy"
  have "cc_counts c = replicate 7 0" by (simp add: c_def cc_new_def)
  then have "unat (cc_count k (fst (cc_run rnd sq ses c))) = min (length (solo_flags rnd sq k ses c)) (2 ^ 64 - 1)"
    using cc_run_kinds [of k rnd sq ses c] unat_bumps [of "cc_counts c" "snd (cc_run rnd sq ses c)" k] kind_index_bound [of k]
    by (simp add: cc_count_def cc_run_counts)
  then show ?thesis
    using cc_run_kinds [of k rnd sq ses c] cc_step_sorted [of rnd sq se "fst (cc_run rnd sq ses c)"]
    by (simp add: c_def [symmetric] cc_process_def cc_process_into_eq)
qed

text \<open>
  One call of a chain in a good state, such as the default one, returns at most one flag per kind,
  in the order of the kinds, each ending at the processed event and with a score between 0 and 1, and leaves the
  chain in a good state; flags of earlier calls in the caller's buffer are kept in front.
\<close>

theorem chain_flags_ordered:
  assumes "cc_ok rnd c"
  shows "\<exists>fs. snd (cc_process_into rnd sq se (c, out)) = out @ fs \<and> sorted_wrt (<) (map (kind_index \<circ> ce_kind) fs) \<and>
    (\<forall>ce \<in> set fs. ce_end_seq ce = se_seq se \<and> unit_score (ce_severity ce)) \<and>
    cc_ok rnd (fst (cc_process_into rnd sq se (c, out)))"
  using cc_step_ordered [OF assms, of sq se] cc_ok_step [OF assms, of sq se]
  by (simp add: cc_process_def cc_process_into_eq)

theorem chain_flags_ordered_witness:
  "\<exists>fs. snd (cc_process_into Fin id sample_add (cc_default_itch Fin, [])) = fs \<and> sorted_wrt (<) (map (kind_index \<circ> ce_kind) fs)"
  using chain_flags_ordered [OF cc_default_ok [OF unbounded_Fin refl], of id sample_add "[]"] by simp

end
