(* ===== verification/FL_FlowMetrics.thy ===== *)
theory FL_FlowMetrics
  imports FL_Float FL_HotBook
begin

text \<open>
  The order-flow metrics of \<open>flow/src/vpin.rs\<close>, \<open>flow/src/spread.rs\<close> and \<open>flow/src/imbalance.rs\<close>. The aggressor sign,
  an \<open>i8\<close> that is only matched on, is an integer.
\<close>

section \<open>VPIN\<close>

record vpin_calculator =
  vp_bucket_size :: u64
  vp_num_buckets :: nat
  vp_current_buy_vol :: u64
  vp_current_sell_vol :: u64
  vp_current_bucket_vol :: u64
  vp_buckets :: "(u64 \<times> u64) list"
  vp_running_abs_diff :: f64

definition vp_new :: "u64 \<Rightarrow> nat \<Rightarrow> vpin_calculator" where
  "vp_new bucket_size num_buckets =
     \<lparr>vp_bucket_size = bucket_size, vp_num_buckets = num_buckets, vp_current_buy_vol = 0, vp_current_sell_vol = 0,
      vp_current_bucket_vol = 0, vp_buckets = [], vp_running_abs_diff = Fin 0\<rparr>"

definition vp_calculate :: "(rat \<Rightarrow> f64) \<Rightarrow> vpin_calculator \<Rightarrow> f64" where
  "vp_calculate rnd v =
     (if vp_buckets v = [] then Fin 0
      else f64_div rnd (vp_running_abs_diff v)
             (f64_mul rnd (f64_of_nat rnd (length (vp_buckets v))) (u64_as_f64 rnd (vp_bucket_size v))))"

definition abs_diff :: "(rat \<Rightarrow> f64) \<Rightarrow> u64 \<times> u64 \<Rightarrow> f64" where
  "abs_diff rnd b = f64_abs (f64_sub rnd (u64_as_f64 rnd (fst b)) (u64_as_f64 rnd (snd b)))"

definition vp_push_bucket :: "(rat \<Rightarrow> f64) \<Rightarrow> u64 \<times> u64 \<Rightarrow> vpin_calculator \<Rightarrow> vpin_calculator" where
  "vp_push_bucket rnd b v =
     (let v1 = (if vp_num_buckets v \<le> length (vp_buckets v) then
            (case vp_buckets v of
               [] \<Rightarrow> v
             | old # rest \<Rightarrow> v\<lparr>vp_buckets := rest, vp_running_abs_diff := f64_sub rnd (vp_running_abs_diff v) (abs_diff rnd old)\<rparr>)
            else v)
      in v1\<lparr>vp_buckets := vp_buckets v1 @ [b], vp_running_abs_diff := f64_add rnd (vp_running_abs_diff v1) (abs_diff rnd b)\<rparr>)"

definition vp_accumulate :: "u64 \<Rightarrow> int \<Rightarrow> vpin_calculator \<Rightarrow> vpin_calculator" where
  "vp_accumulate qty aggressor v =
     (let v1 = (if aggressor = 1 then v\<lparr>vp_current_buy_vol := vp_current_buy_vol v + qty\<rparr>
                else if aggressor = - 1 then v\<lparr>vp_current_sell_vol := vp_current_sell_vol v + qty\<rparr>
                else let half = qty div 2
                     in v\<lparr>vp_current_buy_vol := vp_current_buy_vol v + half,
                          vp_current_sell_vol := vp_current_sell_vol v + (qty - half)\<rparr>)
      in v1\<lparr>vp_current_bucket_vol := vp_current_bucket_vol v1 + qty\<rparr>)"

definition vp_process_signed :: "(rat \<Rightarrow> f64) \<Rightarrow> u64 \<Rightarrow> int \<Rightarrow> vpin_calculator \<Rightarrow> vpin_calculator \<times> f64 option" where
  "vp_process_signed rnd qty aggressor v =
     (if qty = 0 then (v, None)
      else let v1 = vp_accumulate qty aggressor v
           in if vp_bucket_size v1 \<le> vp_current_bucket_vol v1 then
                let v2 = vp_push_bucket rnd (vp_current_buy_vol v1, vp_current_sell_vol v1) v1;
                    v3 = v2\<lparr>vp_current_buy_vol := 0, vp_current_sell_vol := 0, vp_current_bucket_vol := 0\<rparr>
                in (v3, Some (vp_calculate rnd v3))
              else (v1, None))"

definition vp_process_trade_signed :: "(rat \<Rightarrow> f64) \<Rightarrow> u64 \<Rightarrow> int \<Rightarrow> vpin_calculator \<Rightarrow> vpin_calculator \<times> f64 option" where
  "vp_process_trade_signed rnd qty aggressor v = vp_process_signed rnd qty aggressor v"

definition vp_process_trade :: "(rat \<Rightarrow> f64) \<Rightarrow> event \<Rightarrow> vpin_calculator \<Rightarrow> vpin_calculator \<times> f64 option" where
  "vp_process_trade rnd e v =
     (if event_type_from_u8 (ev_event_type e) \<noteq> Some Trade then (v, None)
      else case side_from_u8 (ev_side e) of
        None \<Rightarrow> (v, None)
      | Some Bid \<Rightarrow> vp_process_signed rnd (ev_qty e) 1 v
      | Some Ask \<Rightarrow> vp_process_signed rnd (ev_qty e) (- 1) v)"

definition vp_vpin :: "(rat \<Rightarrow> f64) \<Rightarrow> vpin_calculator \<Rightarrow> f64" where
  "vp_vpin rnd v = vp_calculate rnd v"

section \<open>Spread tracker\<close>

record spread_tracker =
  st_history :: "u64 list"
  st_window :: nat
  st_running_sum :: u64

record spread_metrics =
  sm_current :: u64
  sm_mean :: f64
  sm_blowout_ratio :: f64

definition st_new :: "nat \<Rightarrow> spread_tracker" where
  "st_new window = \<lparr>st_history = [], st_window = window, st_running_sum = 0\<rparr>"

definition st_push :: "u64 \<Rightarrow> spread_tracker \<Rightarrow> spread_tracker" where
  "st_push spread t =
     (let t1 = (if st_window t \<le> length (st_history t) then
            (case st_history t of
               [] \<Rightarrow> t\<lparr>st_running_sum := st_running_sum t - 0\<rparr>
             | old # rest \<Rightarrow> t\<lparr>st_history := rest, st_running_sum := st_running_sum t - old\<rparr>)
            else t)
      in t1\<lparr>st_history := st_history t1 @ [spread], st_running_sum := st_running_sum t1 + spread\<rparr>)"

definition st_record :: "(rat \<Rightarrow> f64) \<Rightarrow> hot_book \<Rightarrow> spread_tracker \<Rightarrow> spread_tracker \<times> spread_metrics option" where
  "st_record rnd book t =
     (case hb_spread book of
        None \<Rightarrow> (t, None)
      | Some spread \<Rightarrow>
          let t1 = st_push spread t;
              mean = f64_div rnd (u64_as_f64 rnd (st_running_sum t1)) (f64_of_nat rnd (length (st_history t1)));
              blowout_ratio = (if f64_lt (Fin 0) mean then f64_div rnd (u64_as_f64 rnd spread) mean else Fin 1)
          in (t1, Some \<lparr>sm_current = spread, sm_mean = mean, sm_blowout_ratio = blowout_ratio\<rparr>))"

section \<open>Book imbalance\<close>

definition book_imbalance :: "(rat \<Rightarrow> f64) \<Rightarrow> hot_book \<Rightarrow> nat \<Rightarrow> f64" where
  "book_imbalance rnd book levels =
     (let bid_qty = hb_bid_depth book levels; ask_qty = hb_ask_depth book levels; total = bid_qty + ask_qty
      in if total = 0 then Fin 0
         else f64_div rnd (f64_sub rnd (u64_as_f64 rnd bid_qty) (u64_as_f64 rnd ask_qty)) (u64_as_f64 rnd total))"

record depth_snapshot =
  ds_bid_depth :: u64
  ds_ask_depth :: u64
  ds_bid_levels :: nat
  ds_ask_levels :: nat

definition take_depth_snapshot :: "hot_book \<Rightarrow> nat \<Rightarrow> depth_snapshot" where
  "take_depth_snapshot book levels =
     \<lparr>ds_bid_depth = hb_bid_depth book levels, ds_ask_depth = hb_ask_depth book levels,
      ds_bid_levels = min (unat (hb_bid_count book)) levels, ds_ask_levels = min (unat (hb_ask_count book)) levels\<rparr>"

section \<open>Rolling sums\<close>

text \<open>
  Both trackers keep a bounded queue and a running total that is corrected by the evicted and the new element.
  From that contract the total is the sum over the queue and the queue holds the latest elements; a capacity
  of 0 acts as 1, because the new element is pushed after the eviction.
\<close>

locale rolling_sum =
  fixes step :: "'a \<Rightarrow> 's \<Rightarrow> 's"
    and hist :: "'s \<Rightarrow> 'a list"
    and total :: "'s \<Rightarrow> 'g::ab_group_add"
    and cap :: "'s \<Rightarrow> nat"
    and val :: "'a \<Rightarrow> 'g"
    and ok :: "'s \<Rightarrow> bool"
  assumes ok_step: "ok s \<Longrightarrow> ok (step x s)"
    and cap_step: "cap (step x s) = cap s"
    and hist_step: "hist (step x s) = (if cap s \<le> length (hist s) then tl (hist s) else hist s) @ [x]"
    and total_step: "ok s \<Longrightarrow> total (step x s) =
      (if cap s \<le> length (hist s) then total s - (case hist s of [] \<Rightarrow> 0 | y # _ \<Rightarrow> val y) else total s) + val x"
begin

lemma step_lastn: "length (hist s) \<le> max 1 (cap s) \<Longrightarrow> hist (step x s) = lastn (max 1 (cap s)) (hist s @ [x])"
  by (cases "hist s") (auto simp: hist_step lastn_def max_def)

lemma run:
  assumes "ok s" "hist s = lastn (max 1 (cap s)) ys" "total s = sum_list (map val (hist s))"
  shows "hist (fold step xs s) = lastn (max 1 (cap s)) (ys @ xs) \<and> ok (fold step xs s) \<and>
    total (fold step xs s) = sum_list (map val (hist (fold step xs s)))"
  using assms
proof (induction xs arbitrary: s ys)
  case (Cons x xs)
  have len: "length (hist s) \<le> max 1 (cap s)" using Cons.prems(2) by (simp add: lastn_def)
  have h: "hist (step x s) = lastn (max 1 (cap (step x s))) (ys @ [x])"
    using step_lastn [OF len] Cons.prems(2) by (simp add: cap_step lastn_append)
  have t: "total (step x s) = sum_list (map val (hist (step x s)))"
    using Cons.prems(3) by (cases "hist s") (auto simp: total_step [OF Cons.prems(1)] hist_step)
  from Cons.IH [OF ok_step [OF Cons.prems(1)] h t] show ?case by (simp add: cap_step)
qed simp

end

interpretation spread_sum: rolling_sum st_push st_history st_running_sum st_window "\<lambda>x. x" "\<lambda>_. True"
  by unfold_locales (auto simp: st_push_def Let_def split: list.split)

end
