(* ===== verification/FL_Regime.thy ===== *)
theory FL_Regime
  imports FL_Chaos
begin

text \<open>
  The market regime of \<open>flow/src/regime.rs\<close>: four ordered levels, the composite stress score and the
  threshold classifier. Decimal literals stand for their rounded values.
\<close>

datatype regime = Calm | Volatile | Aggressive | Crisis

fun regime_code :: "regime \<Rightarrow> nat" where
  "regime_code Calm = 0"
| "regime_code Volatile = 1"
| "regime_code Aggressive = 2"
| "regime_code Crisis = 3"

lemma regime_code_inj: "regime_code r = regime_code s \<longleftrightarrow> r = s"
  by (cases r; cases s) simp_all

instantiation regime :: linorder
begin
definition less_eq_regime :: "regime \<Rightarrow> regime \<Rightarrow> bool" where
  "less_eq_regime r s \<longleftrightarrow> regime_code r \<le> regime_code s"
definition less_regime :: "regime \<Rightarrow> regime \<Rightarrow> bool" where
  "less_regime r s \<longleftrightarrow> regime_code r < regime_code s"
instance
  by standard (auto simp: less_eq_regime_def less_regime_def regime_code_inj)
end

record regime_input =
  ri_spread_blowout_ratio :: f64
  ri_book_imbalance :: f64
  ri_vpin :: f64
  ri_trade_velocity_ratio :: f64
  ri_depth_depletion :: f64
  ri_mid_drift_bps :: f64
  ri_events_per_sec :: u64
  ri_book_crossed :: bool

record regime_classifier =
  rc_volatile_threshold :: f64
  rc_aggressive_threshold :: f64
  rc_crisis_threshold :: f64

definition regime_classifier_default :: "(rat \<Rightarrow> f64) \<Rightarrow> regime_classifier" where
  "regime_classifier_default rnd =
     \<lparr>rc_volatile_threshold = rnd (6 / 10), rc_aggressive_threshold = rnd (15 / 10), rc_crisis_threshold = rnd 3\<rparr>"

definition composite_score :: "(rat \<Rightarrow> f64) \<Rightarrow> regime_input \<Rightarrow> f64" where
  "composite_score rnd i =
     (let (spread_score, imbalance_score) =
            (if ri_book_crossed i then (Fin 0, Fin 0)
             else (f64_max (f64_sub rnd (ri_spread_blowout_ratio i) (rnd 1)) (Fin 0),
                   f64_mul rnd (f64_abs (ri_book_imbalance i)) (rnd 3)));
          vpin_score = f64_mul rnd (ri_vpin i) (rnd 5);
          velocity_score = f64_mul rnd (f64_abs (f64_sub rnd (ri_trade_velocity_ratio i) (rnd 1))) (rnd (6 / 10));
          drift_score = f64_mul rnd (ri_mid_drift_bps i) (rnd (30 / 100));
          depth_score = f64_mul rnd (ri_depth_depletion i) (rnd 3);
          raw = f64_add rnd (f64_add rnd (f64_add rnd (f64_add rnd (f64_add rnd
                  spread_score imbalance_score) vpin_score) velocity_score) drift_score) depth_score;
          freshness =
            (if ri_events_per_sec i = 0 then rnd 1
             else f64_min (f64_div rnd (u64_as_f64 rnd (ri_events_per_sec i)) (rnd 30)) (rnd 1))
      in f64_mul rnd raw freshness)"

definition level_of :: "regime_classifier \<Rightarrow> f64 \<Rightarrow> regime" where
  "level_of c score =
     (if f64_le (rc_crisis_threshold c) score then Crisis
      else if f64_le (rc_aggressive_threshold c) score then Aggressive
      else if f64_le (rc_volatile_threshold c) score then Volatile
      else Calm)"

definition classify :: "(rat \<Rightarrow> f64) \<Rightarrow> regime_classifier \<Rightarrow> regime_input \<Rightarrow> regime" where
  "classify rnd c i = level_of c (composite_score rnd i)"

text \<open>A higher score never gives a lower level, whatever the thresholds; a NaN score is calm.\<close>

lemma level_of_mono: "f64_le x y \<Longrightarrow> level_of c x \<le> level_of c y"
  using f64_le_trans [of _ x y] by (auto simp: level_of_def less_eq_regime_def)

lemma level_of_NaN: "level_of c NaN = Calm"
proof -
  have "\<not> f64_le x NaN" for x by (cases x) simp_all
  then show ?thesis by (simp add: level_of_def)
qed

text \<open>On a crossed book the spread and the imbalance have no influence.\<close>

lemma classify_crossed:
  "ri_book_crossed i \<Longrightarrow>
   classify rnd c (i\<lparr>ri_spread_blowout_ratio := x, ri_book_imbalance := y\<rparr>) = classify rnd c i"
  by (simp add: classify_def composite_score_def)

end
