(* ===== verification/FL_CircuitBreaker.thy ===== *)
theory FL_CircuitBreaker
  imports Complex_Main FL_Prelude FL_OrdMap
begin

text \<open>
  The trading-side risk gate (\<open>flow/src/circuit_breaker.rs\<close>). Each operation takes the time at which it
  runs, in nanoseconds. Signed 64-bit quantities are words read through \<open>sint\<close>. A finite \<open>f64\<close> is a
  rational, and the parameter \<open>rnd\<close> is the rounding of an arithmetic result to the next representable
  number. The locks make every operation atomic, so a history is a list of operations.
\<close>

datatype halt_reason = RateLimit | PositionCap | DailyLossFloor | OrderToTradeRatio | FeedGap | Manual

datatype decision = Allow | Block halt_reason

datatype order_side = Buy | Sell

record intent =
  in_instrument_id :: u32
  in_side :: order_side
  in_qty :: u32
  in_price_ticks :: u64

record fill =
  fl_instrument_id :: u32
  fl_side :: order_side
  fl_qty :: u32
  fl_price_ticks :: u64

record breaker_config =
  bc_max_orders_per_sec :: "u32 option"
  bc_max_position :: "i64 option"
  bc_max_daily_loss_ticks :: "i64 option"
  bc_max_order_to_trade_ratio :: "rat option"
  bc_otr_warmup :: u64
  bc_gap_threshold :: "u32 option"
  bc_gap_window :: int

definition breaker_config_default :: breaker_config where
  "breaker_config_default = \<lparr>bc_max_orders_per_sec = Some 5000, bc_max_position = Some 10000,
     bc_max_daily_loss_ticks = Some 5000000000, bc_max_order_to_trade_ratio = Some 100, bc_otr_warmup = 100,
     bc_gap_threshold = Some 16, bc_gap_window = 60 * 10 ^ 9\<rparr>"

record breaker_snapshot =
  bs_halted :: bool
  bs_reason :: "halt_reason option"
  bs_orders_sent :: u64
  bs_trades_done :: u64
  bs_cash_flow_ticks :: i64
  bs_net_position :: i64
  bs_gaps_in_window :: u32

section \<open>Token bucket\<close>

record token_bucket =
  tb_tokens :: rat
  tb_last :: int
  tb_capacity :: rat

definition tb_new :: "int \<Rightarrow> rat \<Rightarrow> token_bucket" where
  "tb_new now capacity = \<lparr>tb_tokens = capacity, tb_last = now, tb_capacity = capacity\<rparr>"

definition as_secs_f64 :: "(rat \<Rightarrow> rat) \<Rightarrow> int \<Rightarrow> rat" where
  "as_secs_f64 rnd d = rnd (rnd (of_int (d div 10 ^ 9)) + rnd (of_int (d mod 10 ^ 9) / 10 ^ 9))"

definition tb_try_take :: "(rat \<Rightarrow> rat) \<Rightarrow> int \<Rightarrow> rat \<Rightarrow> rat \<Rightarrow> token_bucket \<Rightarrow> token_bucket \<times> bool" where
  "tb_try_take rnd now n rate_per_sec b =
     (let elapsed = as_secs_f64 rnd (max 0 (now - tb_last b));
          tokens = min (rnd (tb_tokens b + rnd (elapsed * rate_per_sec))) (tb_capacity b)
      in if n \<le> tokens then (b\<lparr>tb_last := now, tb_tokens := rnd (tokens - n)\<rparr>, True)
         else (b\<lparr>tb_last := now, tb_tokens := tokens\<rparr>, False))"

section \<open>The breaker\<close>

record circuit_breaker =
  cb_cfg :: breaker_config
  cb_halted :: bool
  cb_reason :: "halt_reason option"
  cb_orders_sent :: u64
  cb_trades_done :: u64
  cb_cash_flow_ticks :: i64
  cb_positions :: "(u32, i64) omap"
  cb_rate :: token_bucket
  cb_gap_log :: "int list"

definition cb_new :: "int \<Rightarrow> breaker_config \<Rightarrow> circuit_breaker" where
  "cb_new now cfg =
     (let burst = (case bc_max_orders_per_sec cfg of None \<Rightarrow> 0xFFFFFFFF | Some r \<Rightarrow> r)
      in \<lparr>cb_cfg = cfg, cb_halted = False, cb_reason = None, cb_orders_sent = 0, cb_trades_done = 0,
          cb_cash_flow_ticks = 0, cb_positions = om_empty, cb_rate = tb_new now (of_nat (unat burst)),
          cb_gap_log = []\<rparr>)"

definition cb_is_halted :: "circuit_breaker \<Rightarrow> bool" where
  "cb_is_halted b = cb_halted b"

definition cb_halt_reason :: "circuit_breaker \<Rightarrow> halt_reason option" where
  "cb_halt_reason b = cb_reason b"

definition cb_latch :: "halt_reason \<Rightarrow> circuit_breaker \<Rightarrow> circuit_breaker \<times> decision" where
  "cb_latch reason b =
     (case cb_reason b of
        None \<Rightarrow> (b\<lparr>cb_reason := Some reason, cb_halted := True\<rparr>, Block reason)
      | Some r \<Rightarrow> (b, Block r))"

definition abs_i64 :: "i64 \<Rightarrow> i64" where
  "abs_i64 w = (if sint w < 0 then - w else w)"

definition signed_qty :: "order_side \<Rightarrow> u32 \<Rightarrow> i64" where
  "signed_qty sd qty = (case sd of Buy \<Rightarrow> ucast qty | Sell \<Rightarrow> - ucast qty)"

definition cb_position :: "circuit_breaker \<Rightarrow> u32 \<Rightarrow> i64" where
  "cb_position b iid = (case om_lookup (cb_positions b) iid of None \<Rightarrow> 0 | Some p \<Rightarrow> p)"

definition retain_gaps :: "int \<Rightarrow> circuit_breaker \<Rightarrow> int list" where
  "retain_gaps now b = filter (\<lambda>t. now - bc_gap_window (cb_cfg b) \<le> t) (cb_gap_log b)"

definition cb_snapshot :: "int \<Rightarrow> circuit_breaker \<Rightarrow> circuit_breaker \<times> breaker_snapshot" where
  "cb_snapshot now b =
     (let log = retain_gaps now b
      in (b\<lparr>cb_gap_log := log\<rparr>,
          \<lparr>bs_halted = cb_is_halted b, bs_reason = cb_halt_reason b, bs_orders_sent = cb_orders_sent b,
           bs_trades_done = cb_trades_done b, bs_cash_flow_ticks = cb_cash_flow_ticks b,
           bs_net_position = sum_list (map abs_i64 (om_values (cb_positions b))),
           bs_gaps_in_window = of_nat (length log)\<rparr>))"

text \<open>The four pre-trade guards; \<open>True\<close> means that the guard trips.\<close>

definition rate_trips :: "(rat \<Rightarrow> rat) \<Rightarrow> int \<Rightarrow> circuit_breaker \<Rightarrow> token_bucket \<times> bool" where
  "rate_trips rnd now b =
     (case bc_max_orders_per_sec (cb_cfg b) of
        None \<Rightarrow> (cb_rate b, False)
      | Some rps \<Rightarrow>
          (let (tb, ok) = tb_try_take rnd now 1 (of_nat (unat rps)) (cb_rate b) in (tb, \<not> ok)))"

definition position_trips :: "intent \<Rightarrow> circuit_breaker \<Rightarrow> bool" where
  "position_trips i b =
     (case bc_max_position (cb_cfg b) of
        None \<Rightarrow> False
      | Some max_pos \<Rightarrow>
          sint max_pos < sint (abs_i64 (cb_position b (in_instrument_id i) + signed_qty (in_side i) (in_qty i))))"

definition loss_trips :: "circuit_breaker \<Rightarrow> bool" where
  "loss_trips b =
     (case bc_max_daily_loss_ticks (cb_cfg b) of
        None \<Rightarrow> False
      | Some fl \<Rightarrow> sint (cb_cash_flow_ticks b) < sint (- fl))"

definition otr_trips :: "(rat \<Rightarrow> rat) \<Rightarrow> circuit_breaker \<Rightarrow> bool" where
  "otr_trips rnd b =
     (case bc_max_order_to_trade_ratio (cb_cfg b) of
        None \<Rightarrow> False
      | Some max_otr \<Rightarrow>
          bc_otr_warmup (cb_cfg b) \<le> cb_orders_sent b \<and>
          max_otr < rnd (rnd (of_nat (unat (cb_orders_sent b))) / rnd (of_nat (unat (max (cb_trades_done b) 1)))))"

definition cb_check :: "(rat \<Rightarrow> rat) \<Rightarrow> int \<Rightarrow> intent \<Rightarrow> circuit_breaker \<Rightarrow> circuit_breaker \<times> decision" where
  "cb_check rnd now i b =
     (case cb_halt_reason b of
        Some r \<Rightarrow> (b, Block r)
      | None \<Rightarrow>
          let (tb, limited) = rate_trips rnd now b;
              b1 = b\<lparr>cb_rate := tb\<rparr>
          in if limited then cb_latch RateLimit b1
             else if position_trips i b1 then cb_latch PositionCap b1
             else if loss_trips b1 then cb_latch DailyLossFloor b1
             else if otr_trips rnd b1 then cb_latch OrderToTradeRatio b1
             else (b1\<lparr>cb_orders_sent := cb_orders_sent b1 + 1\<rparr>, Allow))"

definition cb_record_fill :: "fill \<Rightarrow> circuit_breaker \<Rightarrow> circuit_breaker" where
  "cb_record_fill f b =
     (let sq = signed_qty (fl_side f) (fl_qty f)
      in b\<lparr>cb_trades_done := cb_trades_done b + 1,
           cb_positions := om_insert (fl_instrument_id f) (cb_position b (fl_instrument_id f) + sq) (cb_positions b),
           cb_cash_flow_ticks := cb_cash_flow_ticks b + - sq * fl_price_ticks f\<rparr>)"

definition cb_record_gap :: "int \<Rightarrow> circuit_breaker \<Rightarrow> circuit_breaker" where
  "cb_record_gap now b =
     (case bc_gap_threshold (cb_cfg b) of
        None \<Rightarrow> b
      | Some threshold \<Rightarrow>
          let log = retain_gaps now b @ [now];
              b1 = b\<lparr>cb_gap_log := log\<rparr>
          in if unat threshold \<le> length log then fst (cb_latch FeedGap b1) else b1)"

definition cb_manual_halt :: "circuit_breaker \<Rightarrow> circuit_breaker" where
  "cb_manual_halt b = fst (cb_latch Manual b)"

definition cb_reset :: "circuit_breaker \<Rightarrow> circuit_breaker" where
  "cb_reset b = b\<lparr>cb_reason := None, cb_halted := False\<rparr>"

definition cb_start_of_day :: "circuit_breaker \<Rightarrow> circuit_breaker" where
  "cb_start_of_day b =
     cb_reset (b\<lparr>cb_orders_sent := 0, cb_trades_done := 0, cb_cash_flow_ticks := 0,
       cb_positions := om_empty, cb_gap_log := []\<rparr>)"

section \<open>Histories\<close>

datatype breaker_op =
    OpCheck int intent
  | OpFill fill
  | OpGap int
  | OpHalt
  | OpReset
  | OpStartOfDay
  | OpSnapshot int

fun run_breaker_op :: "(rat \<Rightarrow> rat) \<Rightarrow> breaker_op \<Rightarrow> circuit_breaker \<times> decision list \<Rightarrow>
    circuit_breaker \<times> decision list" where
  "run_breaker_op rnd (OpCheck now i) (b, ds) = (let (b', d) = cb_check rnd now i b in (b', ds @ [d]))"
| "run_breaker_op rnd (OpFill f) (b, ds) = (cb_record_fill f b, ds)"
| "run_breaker_op rnd (OpGap now) (b, ds) = (cb_record_gap now b, ds)"
| "run_breaker_op rnd OpHalt (b, ds) = (cb_manual_halt b, ds)"
| "run_breaker_op rnd OpReset (b, ds) = (cb_reset b, ds)"
| "run_breaker_op rnd OpStartOfDay (b, ds) = (cb_start_of_day b, ds)"
| "run_breaker_op rnd (OpSnapshot now) (b, ds) = (fst (cb_snapshot now b), ds)"

end
