(* ===== verification/FL_Codec.thy ===== *)
theory FL_Codec
  imports FL_Event
begin

text \<open>
  Fixed-width records in a byte buffer. A \<open>fixed_codec\<close> is a pair of an encoder and a decoder whose
  encodings all have the same width; its lemmas say that a run of encoded records is read back by the
  index loops of the sources, whatever stands before and after it in the buffer.
\<close>

fun read_seq :: "(bytes \<Rightarrow> 'a) \<Rightarrow> nat \<Rightarrow> nat \<Rightarrow> bytes \<Rightarrow> nat \<Rightarrow> 'a list" where
  "read_seq dec w 0 buf p = []"
| "read_seq dec w (Suc n) buf p = dec (slice p (p + w) buf) # read_seq dec w n buf (p + w)"

lemma length_read_seq [simp]: "length (read_seq dec w n buf p) = n"
  by (induction n arbitrary: p) simp_all

lemma read_seq_append:
  "p + n * w \<le> length buf \<Longrightarrow> read_seq dec w n (buf @ z) p = read_seq dec w n buf p"
  by (induction n arbitrary: p) (simp_all add: slice_append_left algebra_simps)

locale fixed_codec =
  fixes enc :: "'a \<Rightarrow> bytes" and dec :: "bytes \<Rightarrow> 'a" and w :: nat
  assumes enc_width [simp]: "length (enc x) = w"
    and dec_enc [simp]: "dec (enc x) = x"
begin
lemma enc_inj: "enc x = enc y \<longleftrightarrow> x = y"
  by (metis dec_enc)
lemma length_concat_enc [simp]: "length (concat (map enc xs)) = length xs * w"
  by (induction xs) simp_all
lemma slice_enc: "length pre = p \<Longrightarrow> slice p (p + w) (pre @ enc x @ post) = enc x"
  by (rule slice_mid) simp_all
lemma read_seq_enc:
  "length pre = p \<Longrightarrow> read_seq dec w (length xs) (pre @ concat (map enc xs) @ post) p = xs"
proof (induction xs arbitrary: pre p)
  case (Cons x xs)
  have "read_seq dec w (length xs) ((pre @ enc x) @ concat (map enc xs) @ post) (p + w) = xs"
    using Cons.prems by (intro Cons.IH) simp
  moreover have "dec (slice p (p + w) (pre @ enc x @ concat (map enc xs) @ post)) = x"
    using Cons.prems by (simp add: slice_enc)
  ultimately show ?case by simp
qed simp
lemma enc_seq_inj: "concat (map enc xs) = concat (map enc ys) \<Longrightarrow> length xs = length ys \<Longrightarrow> xs = ys"
  using read_seq_enc [of "[]" 0 xs "[]"] read_seq_enc [of "[]" 0 ys "[]"] by simp
end

interpretation le64: fixed_codec "to_le 8 :: u64 \<Rightarrow> bytes" from_le 8
  by unfold_locales simp_all

interpretation le32: fixed_codec "to_le 4 :: u32 \<Rightarrow> bytes" from_le 4
  by unfold_locales simp_all

interpretation evc: fixed_codec event_bytes event_of_bytes 40
  by unfold_locales (simp_all add: event_bytes_roundtrip length_event_bytes)

end
