(* ===== verification/FL_BookProperties.thy ===== *)
theory FL_BookProperties
  imports FL_BookRefine FL_BookConsistent
begin

text \<open>
  The properties of the two order books, the order slab and the agreement between them, with the
  sample events that their witnesses run.
\<close>

definition mk_event :: "event_type \<Rightarrow> side \<Rightarrow> u64 \<Rightarrow> u64 \<Rightarrow> u64 \<Rightarrow> event" where
  "mk_event t sd price qty oid = event_zeroed\<lparr>ev_event_type := event_type_code t, ev_side := side_code sd,
     ev_price := price, ev_qty := qty, ev_order_id := oid\<rparr>"

definition sample_stream :: "event list" where
  "sample_stream = [mk_event OrderAdd Bid 100 50 1, mk_event OrderAdd Bid 99 30 2,
     mk_event OrderAdd Ask 102 20 3, mk_event OrderAdd Ask 101 10 4, mk_event Trade Ask 0 5 4,
     mk_event OrderCancel Bid 0 0 2, mk_event OrderCancel Bid 0 20 1, mk_event Trade Ask 0 20 3]"

fun well_formed_run :: "order_book \<Rightarrow> event list \<Rightarrow> bool" where
  "well_formed_run b [] = True"
| "well_formed_run b (e # es) = (well_formed b e \<and> well_formed_run (fst (ob_apply b e)) es)"

lemma consistent_run: "consistent b \<Longrightarrow> well_formed_run b es \<Longrightarrow> consistent (ob_run b es)"
  by (induction es arbitrary: b) (simp_all add: ob_run_def consistent_apply)

lemma cancel_returns:
  assumes rel: "book_rel N h b" and con: "consistent b" and oid: "ev_order_id e \<noteq> 0"
  shows "snd (hb_cancel_order h e) = snd (ob_cancel_order b e)"
proof (cases "slab_get (hb_orders h) (ev_order_id e)")
  case None
  then show ?thesis
    using oid lookup_order_rel(1) [OF rel, of "ev_order_id e"]
    by (simp add: hb_cancel_order_def ob_cancel_order_def Let_def)
next
  case (Some m)
  note lk = lookup_order_rel(2) [OF rel Some]
  obtain l where l: "om_lookup (ob_levels (or_side (order_of_meta (ev_order_id e) m)) b) (mt_price m) = Some l"
    using consistent_level_exists [OF con lk] by auto
  note found = shrink_rel(2) [OF rel book_relD(4) [OF rel] book_relD(3) [OF rel],
      where sd = "or_side (order_of_meta (ev_order_id e) m)" and p = "mt_price m"]
  show ?thesis
    using Some oid lk l found by (auto simp: hb_cancel_order_def ob_cancel_order_def Let_def meta_side)
qed

lemma trade_returns:
  assumes rel: "book_rel N h b" and con: "consistent b" and oid: "ev_order_id e \<noteq> 0"
  shows "snd (hb_trade h e) = snd (ob_execute_trade b e)"
proof (cases "slab_get (hb_orders h) (ev_order_id e)")
  case None
  then show ?thesis
    using oid lookup_order_rel(1) [OF rel, of "ev_order_id e"]
    by (simp add: hb_trade_def ob_execute_trade_def Let_def)
next
  case (Some m)
  note lk = lookup_order_rel(2) [OF rel Some]
  obtain l where l: "om_lookup (ob_levels (or_side (order_of_meta (ev_order_id e) m)) b) (mt_price m) = Some l"
    using consistent_level_exists [OF con lk] by auto
  note found = shrink_rel(2) [OF rel book_relD(4) [OF rel] book_relD(3) [OF rel],
      where sd = "or_side (order_of_meta (ev_order_id e) m)" and p = "mt_price m"]
  show ?thesis
    using Some oid lk l found
    by (simp add: hb_trade_known hb_trade_full_fill_def ob_execute_trade_def Let_def meta_side)
qed

lemma add_returns:
  assumes "book_rel N h b" "ev_order_id e \<noteq> 0" "ev_side e = side_code sd" "slab_room h" "level_room N h e"
  shows "snd (hb_add_order N h e) = snd (ob_add_order b e)"
  using add_order_sim(2,3) [OF assms(1,2,3,5,4)] by simp

lemma hb_bid_levels_live: "hb_bid_levels h = live (hb_grid True h)"
  by (simp add: hb_bid_levels_def live_def hb_grid_def)

lemma hb_ask_levels_live: "hb_ask_levels h = live (hb_grid False h)"
  by (simp add: hb_ask_levels_def live_def hb_grid_def)

section \<open>Hot book and reference book\<close>

text \<open>
  Property C1. The hot book and the reference book, started empty and fed the same conformant stream
  (non-zero order ids, valid sides on adds and modifies, never more than \<open>MAX_LEVELS\<close> live prices on
  a side), end with the same canonical L2 hash, whatever hash functions XXH3 provides.
\<close>

theorem hot_reference_hash_agreement:
  assumes "N < 2 ^ 32" and "conformant_run N (hb_new N iid) es" and "length es \<le> 2 ^ 32"
  shows "hb_canonical_l2_hash xxh xxs (hb_run N (hb_new N iid) es) =
         ob_canonical_l2_hash xxh xxs (ob_run (ob_new iid) es)"
proof -
  have "length (sl_data (hb_orders (hb_new N iid))) = 0"
    by (simp add: hb_new_def slab_new_def)
  with assms new_rel [OF assms(1), of iid] have "book_rel N (hb_run N (hb_new N iid) es) (ob_run (ob_new iid) es)"
    by (intro run_sim) simp_all
  then show ?thesis by (rule rel_hash)
qed

theorem hot_reference_hash_agreement_witness:
  "conformant_run 4 (hb_new 4 7) sample_stream \<and>
   hb_canonical_l2_hash (\<lambda>_. 11) (\<lambda>bs s. of_nat (le_dec bs) + 31 * s) (hb_run 4 (hb_new 4 7) sample_stream) =
   ob_canonical_l2_hash (\<lambda>_. 11) (\<lambda>bs s. of_nat (le_dec bs) + 31 * s) (ob_run (ob_new 7) sample_stream)"
proof -
  have c: "conformant_run 4 (hb_new 4 7) sample_stream" by code_simp
  have "length sample_stream \<le> 2 ^ 32" by (simp add: sample_stream_def)
  with c hot_reference_hash_agreement [of 4 7 sample_stream] show ?thesis by simp
qed

text \<open>
  Property C2. One event: if the two books agree (\<open>book_rel\<close>), the reference book is consistent and the slab of
  the hot book has fewer than \<open>2 ^ 32\<close> slots, a conformant event (with a non-zero order id and, for an add or a
  modify, a valid side and room for its price level in the hot book) leaves them in agreement and
  both report the same \<open>changed\<close> flag. Order id 0, an invalid side and a full side are outside its scope.
\<close>

theorem hot_book_simulates_reference:
  assumes "book_rel N h b" and "consistent b" and "conformant N h e"
    and "length (sl_data (hb_orders h)) < 2 ^ 32"
  shows "book_rel N (fst (hb_apply N h e)) (fst (ob_apply b e)) \<and>
         snd (hb_apply N h e) = snd (ob_apply b e)"
proof
  have room: "slab_room h" using assms(4) by (simp add: slab_room_def)
  then have room': "slab_room (fst (hb_cancel_order h e))"
    by (simp add: slab_room_def hb_cancel_order_slots)
  show "book_rel N (fst (hb_apply N h e)) (fst (ob_apply b e))"
    using assms room by (intro apply_sim)
  have oid: "ev_order_id e \<noteq> 0" using assms(3) by (simp add: conformant_def)
  note rets = cancel_returns [OF assms(1,2) oid] trade_returns [OF assms(1,2) oid]
    add_returns [OF assms(1) oid _ room] add_returns [OF cancel_order_sim [OF assms(1) oid] oid _ room']
  show "snd (hb_apply N h e) = snd (ob_apply b e)"
    using assms(3) rets
    by (auto simp: hb_apply_def ob_apply_def ob_modify_order_def conformant_def side_from_u8_Some
        split: option.splits event_type.splits)
qed

theorem hot_book_simulates_reference_witness:
  "book_rel 2 (fst (hb_apply 2 (hb_new 2 7) (mk_event OrderAdd Bid 100 50 1)))
     (fst (ob_apply (ob_new 7) (mk_event OrderAdd Bid 100 50 1))) \<and>
   snd (hb_apply 2 (hb_new 2 7) (mk_event OrderAdd Bid 100 50 1)) =
     snd (ob_apply (ob_new 7) (mk_event OrderAdd Bid 100 50 1))"
proof -
  have "conformant 2 (hb_new 2 7) (mk_event OrderAdd Bid 100 50 1)" by code_simp
  moreover have "length (sl_data (hb_orders (hb_new 2 7))) < 2 ^ 32"
    by (simp add: hb_new_def slab_new_def)
  ultimately show ?thesis
    by (intro hot_book_simulates_reference new_rel consistent_new) simp_all
qed

text \<open>
  Best bid, best ask and spread: the array book reads them off index 0, the tree book off
  the ends of its key order; on books in agreement the answers are equal.
\<close>

theorem top_of_book_agreement:
  assumes "book_rel N h b"
  shows "hb_best_bid h = ob_best_bid b \<and> hb_best_ask h = ob_best_ask b \<and> hb_spread h = ob_spread b"
  using rel_best_bid [OF assms] rel_best_ask [OF assms] by (simp add: hb_spread_def ob_spread_def)

theorem top_of_book_agreement_witness:
  "hb_best_bid (hb_run 4 (hb_new 4 7) sample_stream) = ob_best_bid (ob_run (ob_new 7) sample_stream) \<and>
   hb_best_ask (hb_run 4 (hb_new 4 7) sample_stream) = ob_best_ask (ob_run (ob_new 7) sample_stream) \<and>
   hb_spread (hb_run 4 (hb_new 4 7) sample_stream) = ob_spread (ob_run (ob_new 7) sample_stream) \<and>
   ob_spread (ob_run (ob_new 7) sample_stream) = Some 1"
proof -
  have "conformant_run 4 (hb_new 4 7) sample_stream" by code_simp
  then have "book_rel 4 (hb_run 4 (hb_new 4 7) sample_stream) (ob_run (ob_new 7) sample_stream)"
    by (intro run_sim new_rel) (simp_all add: hb_new_def slab_new_def sample_stream_def)
  moreover have "ob_spread (ob_run (ob_new 7) sample_stream) = Some 1" by code_simp
  ultimately show ?thesis
    using top_of_book_agreement by blast
qed

section \<open>The hot book on its own\<close>

text \<open>
  Property C3. Whatever events arrive (malformed, anonymous, unknown ids, full sides), a hot book that
  started empty keeps its invariant: both level arrays have their full size, the live prefix is
  strictly ordered best price first, dead cells are zeroed, every index entry points to its own
  allocated slot, and no slot is both free and in use.
\<close>

theorem hot_book_invariant:
  assumes "N < 2 ^ 32" and "length es \<le> 2 ^ 32"
  shows "hb_inv N (hb_run N (hb_new N iid) es)"
  using assms hb_inv_new [OF assms(1), of iid] by (intro run_inv) (simp_all add: hb_new_def slab_new_def)

theorem hot_book_invariant_witness: "hb_inv 256 (hb_run 256 (hb_new 256 7) sample_stream)"
  by (rule hot_book_invariant) (simp_all add: sample_stream_def)

text \<open>
  The unchecked slab reads are in bounds: in a book reached by any event stream, the slot
  of every live order id lies inside the slab vector, so \<open>get_unchecked\<close> never leaves it.
\<close>

theorem unchecked_slots_in_bounds:
  assumes "N < 2 ^ 32" and "length es \<le> 2 ^ 32"
    and "om_lookup (sl_index (hb_orders (hb_run N (hb_new N iid) es))) oid = Some slot"
  shows "unat slot < length (sl_data (hb_orders (hb_run N (hb_new N iid) es)))"
proof -
  have "hb_inv N (hb_run N (hb_new N iid) es)"
    using assms hb_inv_new [OF assms(1), of iid] by (intro run_inv) (simp_all add: hb_new_def slab_new_def)
  then show ?thesis
    using assms(3) by (auto simp: hb_inv_def intro: slab_slot_bound)
qed

theorem unchecked_slots_in_bounds_witness:
  "om_lookup (sl_index (hb_orders (hb_run 4 (hb_new 4 7) sample_stream))) 4 = Some 3 \<and>
   unat (3 :: u32) < length (sl_data (hb_orders (hb_run 4 (hb_new 4 7) sample_stream)))"
proof -
  have l: "om_lookup (sl_index (hb_orders (hb_run 4 (hb_new 4 7) sample_stream))) 4 = Some 3" by code_simp
  have "length sample_stream \<le> 2 ^ 32" by (simp add: sample_stream_def)
  with l show ?thesis
    using unchecked_slots_in_bounds [of 4 sample_stream 7 4 3] by simp
qed

text \<open>
  Property C4. The slab with its free list and hash index behaves as a finite map from order ids to
  metadata under any sequence of inserts, in-place updates and removals, slot reuse included.
\<close>

theorem slab_refines_map:
  assumes "length ops \<le> 2 ^ 32"
  shows "slab_get (foldl slab.step slab_new ops) = foldl ix_spec Map.empty ops"
  using slab.run_refines [of slab_new ops] assms by (simp add: slab.used_empty)

theorem slab_refines_map_witness:
  "slab_get (foldl slab.step slab_new
      [IxInsert 5 \<lparr>mt_price = 1, mt_qty = 2, mt_side = 0\<rparr>, IxRemove 5,
       IxInsert 9 \<lparr>mt_price = 3, mt_qty = 4, mt_side = 1\<rparr>]) 9 = Some \<lparr>mt_price = 3, mt_qty = 4, mt_side = 1\<rparr>"
  by (subst slab_refines_map) simp_all

text \<open>
  The unrolled four-lane depth sum of the hot book is the plain sum of the quantities of
  the best \<open>n\<close> live levels (modulo \<open>2^64\<close>, as both wrap).
\<close>

theorem bid_depth_is_plain_sum:
  assumes "hb_inv N h"
  shows "hb_bid_depth h n = sum_list (map lv_total_qty (take n (hb_bid_levels h))) \<and>
         hb_ask_depth h n = sum_list (map lv_total_qty (take n (hb_ask_levels h)))"
proof -
  have *: "depth_sum ls c n = sum_list (map lv_total_qty (take n (take c ls)))" if "c \<le> length ls" for ls c
  proof (cases "n \<le> c")
    case True
    then show ?thesis using that by (simp add: depth_sum_correct min_absorb1)
  next
    case False
    then have "depth_sum ls c n = depth_sum ls c c" by (simp add: depth_sum_def)
    with False that show ?thesis by (simp add: depth_sum_correct min_absorb2)
  qed
  have "unat (hb_bid_count h) \<le> length (hb_bids h)" "unat (hb_ask_count h) \<le> length (hb_asks h)"
    using hb_inv_grid [OF assms, of True] hb_inv_grid [OF assms, of False]
    by (simp_all add: grid_inv_def hb_grid_def)
  then show ?thesis
    by (simp add: * hb_bid_depth_def hb_ask_depth_def hb_bid_levels_def hb_ask_levels_def)
qed

theorem bid_depth_is_plain_sum_witness:
  "hb_bid_depth (hb_run 4 (hb_new 4 7) sample_stream) 3 =
     sum_list (map lv_total_qty (take 3 (hb_bid_levels (hb_run 4 (hb_new 4 7) sample_stream)))) \<and>
   hb_bid_depth (hb_run 4 (hb_new 4 7) sample_stream) 3 = 30"
proof -
  have "hb_inv 4 (hb_run 4 (hb_new 4 7) sample_stream)"
    by (intro run_inv hb_inv_new) (simp_all add: hb_new_def slab_new_def sample_stream_def)
  moreover have "hb_bid_depth (hb_run 4 (hb_new 4 7) sample_stream) 3 = 30" by code_simp
  ultimately show ?thesis using bid_depth_is_plain_sum by blast
qed

text \<open>
  An add is rejected exactly when its price is not live on its side and the side already
  holds \<open>MAX_LEVELS\<close> prices; a rejected add returns \<open>false\<close> and leaves the book untouched.
\<close>

theorem add_rejected_iff_full:
  assumes "hb_inv N h"
  shows "(snd (hb_add_order N h e) \<longleftrightarrow> level_room N h e) \<and>
         (\<not> level_room N h e \<longrightarrow> fst (hb_add_order N h e) = h)"
proof -
  let ?d = "ev_side e = 0"
  let ?r = "grid_add N ?d (ev_price e) (ev_qty e) (hb_grid ?d h)"
  have iff: "level_room N h e \<longleftrightarrow> snd ?r" by (rule level_room_iff [OF assms])
  have "hb_set_grid ?d (hb_grid ?d h) h = h"
    by (simp add: hb_grid_def hb_set_grid_def)
  moreover have "\<not> snd ?r \<Longrightarrow> fst ?r = hb_grid ?d h"
    by (simp add: grid_add_def Let_def split: if_splits)
  ultimately show ?thesis
    using iff by (auto simp: hb_add_order_def Let_def)
qed

theorem add_rejected_iff_full_witness:
  "\<not> snd (hb_add_order 1 (hb_run 1 (hb_new 1 7) [mk_event OrderAdd Bid 100 50 1]) (mk_event OrderAdd Bid 99 5 2))"
proof -
  let ?h = "hb_run 1 (hb_new 1 7) [mk_event OrderAdd Bid 100 50 1]"
  have "hb_inv 1 ?h"
    by (intro run_inv hb_inv_new) (simp_all add: hb_new_def slab_new_def)
  moreover have "\<not> level_room 1 ?h (mk_event OrderAdd Bid 99 5 2)" by code_simp
  ultimately show ?thesis using add_rejected_iff_full by blast
qed

section \<open>The reference book on its own\<close>

text \<open>
  Property C5. The L2 view is the aggregation of the L3 view: after any well-formed stream, every price
  level of the reference book carries exactly the summed quantity and the number of the orders that
  rest at that side and price, and no level is empty. A stream is well-formed when every add has a fresh order id,
  no modify shrinks its order to a positive quantity, and adds and modifies have a valid side and
  keep the level's order count below \<open>2 ^ 32\<close> and its quantity below \<open>2 ^ 64\<close>; a shrinking modify breaks the aggregation, as
  \<open>shrinking_modify_keeps_total\<close> below shows.
\<close>

theorem l2_aggregates_l3:
  assumes "well_formed_run (ob_new iid) es"
  shows "consistent (ob_run (ob_new iid) es)"
  using assms consistent_new by (rule consistent_run [rotated])

theorem l2_aggregates_l3_witness:
  "consistent (ob_run (ob_new 7) [mk_event OrderAdd Bid 100 50 1, mk_event Trade Bid 0 20 1])"
proof (rule l2_aggregates_l3)
  have "fits (ob_new 7) (mk_event OrderAdd Bid 100 50 1)"
    by (simp add: fits_def mk_event_def ob_new_def rest_count_def rest_qty_def side_from_u8_def)
  then show "well_formed_run (ob_new 7) [mk_event OrderAdd Bid 100 50 1, mk_event Trade Bid 0 20 1]"
    by (simp add: well_formed_def) (simp add: mk_event_def event_type_from_u8_def ob_new_def)
qed

text \<open>
  A modify that shrinks an order does not replace it: the embedded cancel is taken as a
  partial cancel, so when price and side are kept the level total stays at its old value, its order
  count grows by one, and only the order record shows the new quantity.
\<close>

theorem shrinking_modify_keeps_total:
  assumes "om_lookup (ob_orders b) (ev_order_id e) = Some ord"
    and "0 < ev_qty e" and "ev_qty e < or_qty ord"
    and "ev_side e = side_code (or_side ord)" and "ev_price e = or_price ord"
    and "om_lookup (ob_levels (or_side ord) b) (or_price ord) = Some l" and "or_qty ord \<le> lv_total_qty l"
  shows "om_lookup (ob_levels (or_side ord) (fst (ob_modify_order b e))) (or_price ord) =
           Some (l\<lparr>lv_order_count := lv_order_count l + 1\<rparr>) \<and>
         map_option or_qty (om_lookup (ob_orders (fst (ob_modify_order b e))) (ev_order_id e)) = Some (ev_qty e)"
proof -
  have nz: "ev_qty e \<noteq> 0" "\<not> or_qty ord \<le> ev_qty e" "ev_qty e \<le> lv_total_qty l"
    using assms(2,3,7) by auto
  have "om_lookup (ob_levels (or_side ord) (fst (ob_cancel_order b e))) (or_price ord) =
      Some (l\<lparr>lv_total_qty := lv_total_qty l - ev_qty e\<rparr>)"
    using assms(1,6) nz by (simp add: ob_cancel_order_def Let_def ob_shrink_level_lookup shrunk_def sat_sub_def)
  then show ?thesis
    using assms(4,5)
    by (simp add: ob_modify_order_def ob_add_order_def Let_def ob_grow_level_lookup grown_def om_lookup_insert)
qed

theorem shrinking_modify_keeps_total_witness:
  "om_lookup (ob_levels Bid (fst (ob_modify_order (ob_run (ob_new 7) [mk_event OrderAdd Bid 100 50 1])
      (mk_event OrderModify Bid 100 20 1)))) 100 =
   Some \<lparr>lv_price = 100, lv_total_qty = 50, lv_order_count = 2\<rparr>"
proof -
  let ?b = "ob_run (ob_new 7) [mk_event OrderAdd Bid 100 50 1]"
  let ?o = "\<lparr>or_order_id = 1, or_price = 100, or_qty = 50, or_side = Bid\<rparr>"
  let ?l = "\<lparr>lv_price = 100, lv_total_qty = 50, lv_order_count = 1\<rparr>"
  have "om_lookup (ob_orders ?b) 1 = Some ?o" "om_lookup (ob_levels Bid ?b) 100 = Some ?l" by code_simp+
  then show ?thesis
    using shrinking_modify_keeps_total [of ?b "mk_event OrderModify Bid 100 20 1" ?o ?l]
    by (simp add: mk_event_def)
qed

text \<open>
  The lane-separated batch apply is not equivalent to the serial loop once a batch holds a
  modify of a live order: the lanes run only the add half of it, so the old quantity stays in the book.
\<close>

theorem lanes_differ_on_modify:
  "hb_bid_levels (fst (apply_lanes 4 (hb_new 4 7)
      [mk_event OrderAdd Bid 100 50 1, mk_event OrderModify Bid 100 80 1])) \<noteq>
   hb_bid_levels (hb_run 4 (hb_new 4 7)
      [mk_event OrderAdd Bid 100 50 1, mk_event OrderModify Bid 100 80 1])"
  by code_simp

end
