(* ===== verification/FL_BookSnapshot.thy ===== *)
theory FL_BookSnapshot
  imports FL_Codec FL_BookProperties
begin

text \<open>
  Snapshots of the hot book (\<open>to_snapshot_bytes\<close> and \<open>from_snapshot_bytes\<close> of
  \<open>core/src/hot_book.rs\<close>): a header, the live levels of both sides, then three counted sections for the
  slab vector, its free list and the index sorted by order id. The index map of the model is ordered, so
  its entries are the sorted pairs the code writes.
\<close>

datatype book_snapshot_error =
    Truncated nat
  | LevelsMismatch u32 u32
  | CountExceedsMax u32 u32
  | BadLength nat nat

definition snapshot_header_len :: nat where
  "snapshot_header_len = 16"

definition write_level :: "level \<Rightarrow> bytes" where
  "write_level l = to_le 8 (lv_price l) @ to_le 8 (lv_total_qty l) @ to_le 4 (lv_order_count l) @
     replicate 4 0"

definition read_level :: "bytes \<Rightarrow> level" where
  "read_level buf = \<lparr>lv_price = from_le (slice 0 8 buf), lv_total_qty = from_le (slice 8 16 buf),
     lv_order_count = from_le (slice 16 20 buf)\<rparr>"

definition write_meta :: "order_meta \<Rightarrow> bytes" where
  "write_meta m = to_le 8 (mt_price m) @ to_le 8 (mt_qty m) @ [mt_side m] @ replicate 7 0"

definition read_meta :: "bytes \<Rightarrow> order_meta" where
  "read_meta buf = \<lparr>mt_price = from_le (slice 0 8 buf), mt_qty = from_le (slice 8 16 buf),
     mt_side = buf ! 16\<rparr>"

definition write_index_entry :: "u64 \<times> u32 \<Rightarrow> bytes" where
  "write_index_entry kv = to_le 8 (fst kv) @ to_le 4 (snd kv)"

definition read_index_entry :: "bytes \<Rightarrow> u64 \<times> u32" where
  "read_index_entry buf = (from_le (slice 0 8 buf), from_le (slice 8 12 buf))"

text \<open>A counted section: the number of records as a \<open>u32\<close>, then the records.\<close>

definition snap_section :: "('a \<Rightarrow> bytes) \<Rightarrow> 'a list \<Rightarrow> bytes" where
  "snap_section enc xs = to_le 4 (of_nat (length xs) :: u32) @ concat (map enc xs)"

definition to_snapshot_bytes :: "nat \<Rightarrow> hot_book \<Rightarrow> bytes" where
  "to_snapshot_bytes N b =
     to_le 4 (hb_instrument_id b) @ to_le 4 (hb_bid_count b) @ to_le 4 (hb_ask_count b) @
     to_le 4 (of_nat N :: u32) @
     concat (map write_level (hb_bid_levels b)) @
     concat (map write_level (hb_ask_levels b)) @
     snap_section write_meta (sl_data (hb_orders b)) @
     snap_section (to_le 4) (sl_free (hb_orders b)) @
     snap_section write_index_entry (om_entries (sl_index (hb_orders b)))"

definition read_section :: "(bytes \<Rightarrow> 'a) \<Rightarrow> nat \<Rightarrow> bytes \<Rightarrow> nat \<Rightarrow>
    book_snapshot_error + ('a list \<times> nat)" where
  "read_section dec w buf p =
     (if length buf < p + 4 then Inl (Truncated (length buf))
      else
        let n = unat (from_le (slice p (p + 4) buf) :: u32);
            q = p + 4
        in if length buf < q + n * w then Inl (BadLength (n * w) (length buf - q))
           else Inr (read_seq dec w n buf q, q + n * w))"

definition from_snapshot_bytes :: "nat \<Rightarrow> bytes \<Rightarrow> book_snapshot_error + hot_book" where
  "from_snapshot_bytes N buf =
     (if length buf < snapshot_header_len then Inl (Truncated (length buf))
      else
        let instrument_id = from_le (slice 0 4 buf);
            bid_count = from_le (slice 4 8 buf) :: u32;
            ask_count = from_le (slice 8 12 buf) :: u32;
            declared_max = from_le (slice 12 16 buf) :: u32
        in if declared_max \<noteq> of_nat N then Inl (LevelsMismatch declared_max (of_nat N))
           else if of_nat N < bid_count \<or> of_nat N < ask_count then
             Inl (CountExceedsMax (max bid_count ask_count) (of_nat N))
           else
             let nb = unat bid_count;
                 na = unat ask_count;
                 p = snapshot_header_len;
                 want = (nb + na) * 24
             in if length buf < p + want then Inl (BadLength want (length buf - p))
                else
                  let bids = read_seq read_level 24 nb buf p @ replicate (N - nb) level_default;
                      asks = read_seq read_level 24 na buf (p + nb * 24) @ replicate (N - na) level_default
                  in bind_res (read_section read_meta 24 buf (p + want)) (\<lambda>(data, p1).
                     bind_res (read_section from_le 4 buf p1) (\<lambda>(free, p2).
                     bind_res (read_section read_index_entry 12 buf p2) (\<lambda>(idx, p3).
                       Inr \<lparr>hb_instrument_id = instrument_id, hb_bid_count = bid_count,
                            hb_ask_count = ask_count, hb_bids = bids, hb_asks = asks,
                            hb_orders = \<lparr>sl_data = data, sl_free = free,
                              sl_index = fold (\<lambda>(k, v). om_insert k v) idx om_empty\<rparr>\<rparr>))))"

section \<open>The record codecs\<close>

interpretation lvc: fixed_codec write_level read_level 24
  by unfold_locales (simp_all add: write_level_def read_level_def slice_def)

interpretation mtc: fixed_codec write_meta read_meta 24
  by unfold_locales (simp_all add: write_meta_def read_meta_def slice_def nth_append)

interpretation ixc: fixed_codec write_index_entry read_index_entry 12
  by unfold_locales (simp_all add: write_index_entry_def read_index_entry_def slice_def)

section \<open>Counted sections\<close>

context fixed_codec
begin
lemma length_snap_section [simp]: "length (snap_section enc xs) = 4 + length xs * w"
  by (simp add: snap_section_def)
lemma read_section_ok:
  assumes "length pre = p" "length xs < 2 ^ 32"
  shows "read_section dec w (pre @ snap_section enc xs @ post) p = Inr (xs, p + 4 + length xs * w)"
proof -
  let ?n = "of_nat (length xs) :: u32"
  let ?buf = "(pre @ to_le 4 ?n) @ concat (map enc xs) @ post"
  have "slice p (p + 4) (pre @ to_le 4 ?n @ concat (map enc xs) @ post) = to_le 4 ?n"
    using assms(1) by (intro slice_mid) simp_all
  then have s: "slice p (p + 4) ?buf = to_le 4 ?n" by simp
  have n: "unat ?n = length xs"
    using assms(2) by (intro unat_of_nat_small) simp
  have "read_seq dec w (length xs) ?buf (p + 4) = xs"
    using assms(1) by (intro read_seq_enc) simp
  with s n assms(1) have "read_section dec w ?buf p = Inr (xs, p + 4 + length xs * w)"
    unfolding read_section_def Let_def by simp
  then show ?thesis by (simp add: snap_section_def)
qed
end

lemma read_section_extend:
  assumes "read_section dec w buf p = Inr (xs, q)"
  shows "read_section dec w (buf @ z) p = Inr (xs, q) \<and> q = p + 4 + length xs * w \<and> q \<le> length buf"
  using assms
  by (auto simp: read_section_def Let_def slice_append_left read_seq_append split: if_splits)

lemma om_size_fold_le: "om_size (fold (\<lambda>(k, v). om_insert k v) kvs m) \<le> om_size m + length kvs"
proof (induction kvs arbitrary: m)
  case (Cons kv kvs)
  obtain k v where kv: "kv = (k, v)" by force
  have "om_size (om_insert k v m) \<le> Suc (om_size m)" by (simp add: om_size_insert)
  then show ?case using Cons [of "om_insert k v m"] by (simp add: kv)
qed simp

section \<open>Round trip\<close>

lemma hb_levels_length:
  assumes "hb_inv N h"
  shows "length (hb_bid_levels h) = unat (hb_bid_count h)" "length (hb_ask_levels h) = unat (hb_ask_count h)"
    and "unat (hb_bid_count h) \<le> N" "unat (hb_ask_count h) \<le> N" "N < 2 ^ 32"
  using hb_inv_grid [OF assms, of True] hb_inv_grid [OF assms, of False]
  by (simp_all add: grid_inv_def hb_grid_def hb_bid_levels_def hb_ask_levels_def)

lemma hb_cells:
  assumes "hb_inv N h"
  shows "hb_bid_levels h @ replicate (N - unat (hb_bid_count h)) level_default = hb_bids h"
    and "hb_ask_levels h @ replicate (N - unat (hb_ask_count h)) level_default = hb_asks h"
  using hb_inv_grid [OF assms, of True] hb_inv_grid [OF assms, of False]
  by (simp_all add: grid_inv_def hb_grid_def hb_bid_levels_def hb_ask_levels_def) (metis append_take_drop_id)+

lemma slab_lengths:
  "slab_inv s \<Longrightarrow> length (sl_data s) < 2 ^ 32 \<Longrightarrow>
     length (sl_free s) < 2 ^ 32 \<and> length (om_entries (sl_index s)) < 2 ^ 32"
  by (auto simp: slab_inv_def om_size_def)

lemma length_to_snapshot_bytes:
  assumes "hb_inv N h"
  shows "length (to_snapshot_bytes N h) =
    16 + (unat (hb_bid_count h) + unat (hb_ask_count h)) * 24 + (4 + length (sl_data (hb_orders h)) * 24) +
    (4 + length (sl_free (hb_orders h)) * 4) + (4 + om_size (sl_index (hb_orders h)) * 12)"
  using hb_levels_length [OF assms] by (simp add: to_snapshot_bytes_def om_size_def)

lemma snapshot_header:
  fixes i b a n :: u32
  assumes "buf = to_le 4 i @ to_le 4 b @ to_le 4 a @ to_le 4 n @ rest"
  shows "slice 0 4 buf = to_le 4 i" "slice 4 8 buf = to_le 4 b" "slice 8 12 buf = to_le 4 a"
    "slice 12 16 buf = to_le 4 n" "16 \<le> length buf"
  by (simp_all add: assms slice_def)

lemma from_to_snapshot_bytes:
  assumes inv: "hb_inv N h" and small: "length (sl_data (hb_orders h)) < 2 ^ 32"
  shows "from_snapshot_bytes N (to_snapshot_bytes N h) = Inr h"
proof -
  define hd4 where "hd4 = to_le 4 (hb_instrument_id h) @ to_le 4 (hb_bid_count h) @
    to_le 4 (hb_ask_count h) @ to_le 4 (of_nat N :: u32)"
  define bl where "bl = concat (map write_level (hb_bid_levels h))"
  define al where "al = concat (map write_level (hb_ask_levels h))"
  define sd where "sd = snap_section write_meta (sl_data (hb_orders h))"
  define sf where "sf = snap_section (to_le 4) (sl_free (hb_orders h))"
  define si where "si = snap_section write_index_entry (om_entries (sl_index (hb_orders h)))"
  let ?buf = "to_snapshot_bytes N h"
  let ?nb = "unat (hb_bid_count h)" and ?na = "unat (hb_ask_count h)"
  have buf: "?buf = hd4 @ bl @ al @ sd @ sf @ si"
    by (simp add: to_snapshot_bytes_def hd4_def bl_def al_def sd_def sf_def si_def)
  note lens = hb_levels_length [OF inv]
  have len: "length hd4 = 16" "length bl = ?nb * 24" "length al = ?na * 24"
    "length sd = 4 + length (sl_data (hb_orders h)) * 24" "length sf = 4 + length (sl_free (hb_orders h)) * 4"
    using lens by (simp_all add: hd4_def bl_def al_def sd_def sf_def)
  have "?buf = to_le 4 (hb_instrument_id h) @ to_le 4 (hb_bid_count h) @ to_le 4 (hb_ask_count h) @
      to_le 4 (of_nat N :: u32) @ bl @ al @ sd @ sf @ si"
    by (simp add: buf hd4_def)
  note hdr = snapshot_header [OF this]
  have cnt: "\<not> of_nat N < hb_bid_count h" "\<not> of_nat N < hb_ask_count h"
    using lens by (simp_all add: word_less_nat_alt unat_of_nat_small)
  have bids: "read_seq read_level 24 ?nb ?buf 16 = hb_bid_levels h"
    using lvc.read_seq_enc [of hd4 16 "hb_bid_levels h" "al @ sd @ sf @ si"] len lens
    by (simp add: buf bl_def)
  have asks: "read_seq read_level 24 ?na ?buf (16 + ?nb * 24) = hb_ask_levels h"
    using lvc.read_seq_enc [of "hd4 @ bl" "16 + ?nb * 24" "hb_ask_levels h" "sd @ sf @ si"] len lens
    by (simp add: buf al_def)
  note sl = slab_lengths [OF _ small] inv [unfolded hb_inv_def]
  let ?p1 = "16 + (?nb + ?na) * 24"
  let ?p2 = "?p1 + 4 + length (sl_data (hb_orders h)) * 24"
  let ?p3 = "?p2 + 4 + length (sl_free (hb_orders h)) * 4"
  have s1: "read_section read_meta 24 ?buf ?p1 = Inr (sl_data (hb_orders h), ?p2)"
    using mtc.read_section_ok [of "hd4 @ bl @ al" ?p1 "sl_data (hb_orders h)" "sf @ si"] len small
    by (simp add: buf sd_def algebra_simps)
  have s2: "read_section from_le 4 ?buf ?p2 = Inr (sl_free (hb_orders h), ?p3)"
    using le32.read_section_ok [of "hd4 @ bl @ al @ sd" ?p2 "sl_free (hb_orders h)" "si"] len sl
    by (simp add: buf sf_def algebra_simps)
  have s3: "read_section read_index_entry 12 ?buf ?p3 =
      Inr (om_entries (sl_index (hb_orders h)), ?p3 + 4 + length (om_entries (sl_index (hb_orders h))) * 12)"
    using ixc.read_section_ok [of "hd4 @ bl @ al @ sd @ sf" ?p3 "om_entries (sl_index (hb_orders h))" "[]"] len sl
    by (simp add: buf si_def algebra_simps)
  have l: "?p1 \<le> length ?buf" using len by (simp add: buf algebra_simps)
  show ?thesis
    using l
    by (simp add: from_snapshot_bytes_def snapshot_header_len_def Let_def hb_cells [OF inv] om_fold_entries
        hdr cnt s1 [simplified] s2 [simplified] s3 [simplified] bids asks)
qed

section \<open>Prefixes\<close>

lemma from_snapshot_extend:
  assumes "from_snapshot_bytes N buf = Inr h"
  shows "from_snapshot_bytes N (buf @ z) = Inr h \<and>
    16 + (unat (hb_bid_count h) + unat (hb_ask_count h)) * 24 + (4 + length (sl_data (hb_orders h)) * 24) +
    (4 + length (sl_free (hb_orders h)) * 4) + (4 + om_size (sl_index (hb_orders h)) * 12) \<le> length buf"
proof -
  define nb where "nb = unat (from_le (slice 4 8 buf) :: u32)"
  define na where "na = unat (from_le (slice 8 12 buf) :: u32)"
  have h0: "16 \<le> length buf" and want: "16 + (nb + na) * 24 \<le> length buf"
    using assms by (auto simp: from_snapshot_bytes_def snapshot_header_len_def Let_def nb_def na_def split: if_splits)
  obtain data p1 free p2 idx p3 where
    s1: "read_section read_meta 24 buf (16 + (nb + na) * 24) = Inr (data, p1)" and
    s2: "read_section from_le 4 buf p1 = Inr (free, p2)" and
    s3: "read_section read_index_entry 12 buf p2 = Inr (idx, p3)" and
    os: "hb_orders h = \<lparr>sl_data = data, sl_free = free, sl_index = fold (\<lambda>(k, v). om_insert k v) idx om_empty\<rparr>"
      "hb_bid_count h = from_le (slice 4 8 buf)" "hb_ask_count h = from_le (slice 8 12 buf)"
    using assms
    by (auto simp: from_snapshot_bytes_def snapshot_header_len_def Let_def nb_def na_def bind_res_Inr_iff
        simp del: mult_Suc_right distrib_right split: if_splits)
  note e1 = read_section_extend [OF s1, of z] and e2 = read_section_extend [OF s2, of z]
    and e3 = read_section_extend [OF s3, of z]
  have sl: "slice i j (buf @ z) = slice i j buf" if "j \<le> 16" for i j
    using that h0 by (intro slice_append_left) simp
  have rs: "read_seq read_level 24 nb (buf @ z) 16 = read_seq read_level 24 nb buf 16"
    "read_seq read_level 24 na (buf @ z) (16 + nb * 24) = read_seq read_level 24 na buf (16 + nb * 24)"
    using want by (intro read_seq_append; simp)+
  have "om_size (sl_index (hb_orders h)) \<le> length idx"
    using om_size_fold_le [of idx om_empty] os by (simp add: om_size_0_iff [THEN iffD2])
  moreover have "from_snapshot_bytes N (buf @ z) = from_snapshot_bytes N buf"
    using h0 want e1 e2 e3 s1 s2 s3 rs [unfolded nb_def na_def]
    by (simp add: from_snapshot_bytes_def snapshot_header_len_def Let_def sl flip: nb_def na_def)
  ultimately show ?thesis
    using assms e1 e2 e3 os by (auto simp flip: nb_def na_def)
qed

lemma prefix_rejected:
  assumes inv: "hb_inv N h" and small: "length (sl_data (hb_orders h)) < 2 ^ 32"
    and k: "k < length (to_snapshot_bytes N h)"
  shows "\<exists>err. from_snapshot_bytes N (take k (to_snapshot_bytes N h)) = Inl err"
proof (cases "from_snapshot_bytes N (take k (to_snapshot_bytes N h))")
  case (Inr h')
  note ext = from_snapshot_extend [OF Inr, of "drop k (to_snapshot_bytes N h)"]
  then have "h' = h" using from_to_snapshot_bytes [OF inv small] by simp
  with ext k length_to_snapshot_bytes [OF inv] show ?thesis by simp
qed simp

section \<open>Properties\<close>

definition dangling_snapshot :: bytes where
  "dangling_snapshot = to_le 4 (7 :: u32) @ to_le 4 (0 :: u32) @ to_le 4 (0 :: u32) @ to_le 4 (2 :: u32) @
     to_le 4 (0 :: u32) @ to_le 4 (0 :: u32) @ to_le 4 (1 :: u32) @ write_index_entry (5, 9)"

lemma hb_run_slots: "length (sl_data (hb_orders (hb_run N h es))) \<le> length (sl_data (hb_orders h)) + length es"
proof (induction es arbitrary: h)
  case (Cons e es)
  have "hb_run N h (e # es) = hb_run N (fst (hb_apply N h e)) es" by (simp add: hb_run_def)
  then show ?case
    using Cons [of "fst (hb_apply N h e)"] hb_apply_slots [of N h e] by simp
qed (simp add: hb_run_def)

lemma hb_run_append: "hb_run N (hb_run N h es1) es2 = hb_run N h (es1 @ es2)"
  by (simp add: hb_run_def)

lemma reached_book:
  assumes "N < 2 ^ 32" "length es < 2 ^ 32"
  shows "hb_inv N (hb_run N (hb_new N iid) es)" "length (sl_data (hb_orders (hb_run N (hb_new N iid) es))) < 2 ^ 32"
proof -
  have z: "length (sl_data (hb_orders (hb_new N iid))) = 0" by (simp add: hb_new_def slab_new_def)
  with assms show "hb_inv N (hb_run N (hb_new N iid) es)" by (intro run_inv hb_inv_new) simp_all
  show "length (sl_data (hb_orders (hb_run N (hb_new N iid) es))) < 2 ^ 32"
    using hb_run_slots [of N "hb_new N iid" es] z assms(2) by linarith
qed

text \<open>
  Snapshots are exact: writing a book and reading the bytes back gives the same book, cell
  for cell, slot for slot and with the same free list, for every book that satisfies its invariant.
\<close>

theorem snapshot_roundtrip:
  assumes "hb_inv N h" and "length (sl_data (hb_orders h)) < 2 ^ 32"
  shows "from_snapshot_bytes N (to_snapshot_bytes N h) = Inr h"
  using assms by (rule from_to_snapshot_bytes)

theorem snapshot_roundtrip_witness:
  "from_snapshot_bytes 4 (to_snapshot_bytes 4 (hb_run 4 (hb_new 4 7) sample_stream)) =
   Inr (hb_run 4 (hb_new 4 7) sample_stream)"
  by (rule snapshot_roundtrip; rule reached_book; simp add: sample_stream_def)

text \<open>
  Resuming equals full replay: a book snapshotted after any prefix of a stream, restored and
  fed the rest of the stream, is the book that processed the whole stream.
\<close>

theorem snapshot_resume:
  assumes "N < 2 ^ 32" and "length es1 < 2 ^ 32"
  shows "\<exists>h. from_snapshot_bytes N (to_snapshot_bytes N (hb_run N (hb_new N iid) es1)) = Inr h \<and>
             hb_run N h es2 = hb_run N (hb_new N iid) (es1 @ es2)"
  using from_to_snapshot_bytes [OF reached_book [OF assms]] by (simp add: hb_run_append)

theorem snapshot_resume_witness:
  "\<exists>h. from_snapshot_bytes 4 (to_snapshot_bytes 4 (hb_run 4 (hb_new 4 7) (take 3 sample_stream))) = Inr h \<and>
       hb_run 4 h (drop 3 sample_stream) = hb_run 4 (hb_new 4 7) sample_stream"
  using snapshot_resume [of 4 "take 3 sample_stream" 7 "drop 3 sample_stream"]
  by (simp add: sample_stream_def)

text \<open>
  A truncated snapshot is always refused: no strict prefix of a snapshot loads.
\<close>

theorem snapshot_prefix_rejected:
  assumes "hb_inv N h" and "length (sl_data (hb_orders h)) < 2 ^ 32"
    and "k < length (to_snapshot_bytes N h)"
  shows "\<exists>err. from_snapshot_bytes N (take k (to_snapshot_bytes N h)) = Inl err"
  using assms by (rule prefix_rejected)

theorem snapshot_prefix_rejected_witness:
  "\<exists>err. from_snapshot_bytes 4 (take 40 (to_snapshot_bytes 4 (hb_run 4 (hb_new 4 7) sample_stream))) = Inl err"
proof (rule snapshot_prefix_rejected)
  show inv: "hb_inv 4 (hb_run 4 (hb_new 4 7) sample_stream)"
    "length (sl_data (hb_orders (hb_run 4 (hb_new 4 7) sample_stream))) < 2 ^ 32"
    by (rule reached_book; simp add: sample_stream_def)+
  have "length (sl_data (hb_orders (hb_run 4 (hb_new 4 7) sample_stream))) = 4" by code_simp
  then show "40 < length (to_snapshot_bytes 4 (hb_run 4 (hb_new 4 7) sample_stream))"
    using length_to_snapshot_bytes [OF inv(1)] by simp
qed

text \<open>
  The loader checks lengths and counts but not the index: a snapshot whose index names a slot
  outside the slab is accepted, so the next lookup of that order id reads past the slab vector.
\<close>

theorem snapshot_slots_not_validated:
  "\<exists>h. from_snapshot_bytes 2 dangling_snapshot = Inr h \<and>
       om_lookup (sl_index (hb_orders h)) 5 = Some 9 \<and> length (sl_data (hb_orders h)) \<le> unat (9 :: u32)"
proof -
  have "case from_snapshot_bytes 2 dangling_snapshot of Inl _ \<Rightarrow> False
      | Inr h \<Rightarrow> om_lookup (sl_index (hb_orders h)) 5 = Some 9 \<and> length (sl_data (hb_orders h)) \<le> unat (9 :: u32)"
    by code_simp
  then show ?thesis by (auto split: sum.splits)
qed

end
