(* ===== verification/FL_SnapshotFile.thy ===== *)
theory FL_SnapshotFile
  imports FL_Codec
begin

text \<open>
  The snapshot frame on disk (\<open>replay/src/snapshot.rs\<close>): magic, version, sequence number, state hash and
  a length-prefixed payload, and the write-to-temporary-then-rename protocol. The file system is a map
  from paths to contents; what the operating system answers is an argument: whether the directories could
  be created, after how many bytes the write failed (\<open>None\<close>: not at all), whether the rename succeeded.
\<close>

record snapshot =
  sn_seq :: u64
  sn_state_hash :: u64
  sn_book_data :: bytes

datatype snapshot_error =
    SnTruncated nat
  | SnBadMagic bytes
  | SnBadVersion u32
  | SnBadLength nat nat

datatype snapshot_io_error = SnIo | SnDecode snapshot_error

definition sn_magic :: bytes where
  "sn_magic = [0x46, 0x4C, 0x53, 0x4E]"

definition sn_version :: u32 where
  "sn_version = 1"

definition sn_header_len :: nat where
  "sn_header_len = 4 + 4 + 8 + 8 + 4"

definition sn_to_bytes :: "snapshot \<Rightarrow> bytes" where
  "sn_to_bytes s =
     sn_magic @ to_le 4 sn_version @ to_le 8 (sn_seq s) @ to_le 8 (sn_state_hash s) @
     to_le 4 (of_nat (min (length (sn_book_data s)) (2 ^ 32 - 1)) :: u32) @ sn_book_data s"

definition sn_from_bytes :: "bytes \<Rightarrow> snapshot_error + snapshot" where
  "sn_from_bytes buf =
     (if length buf < sn_header_len then Inl (SnTruncated (length buf))
      else if slice 0 4 buf \<noteq> sn_magic then Inl (SnBadMagic (slice 0 4 buf))
      else
        let version = from_le (slice 4 8 buf) :: u32 in
        if version \<noteq> sn_version then Inl (SnBadVersion version)
        else
          let declared = unat (from_le (slice 24 28 buf) :: u32);
              payload = drop sn_header_len buf
          in if length payload < declared then Inl (SnBadLength declared (length payload))
             else Inr \<lparr>sn_seq = from_le (slice 8 16 buf), sn_state_hash = from_le (slice 16 24 buf),
                       sn_book_data = take declared payload\<rparr>)"

type_synonym 'p file_system = "'p \<Rightarrow> bytes option"

definition sn_write_to_path :: "bool \<Rightarrow> nat option \<Rightarrow> bool \<Rightarrow> snapshot \<Rightarrow> 'p \<Rightarrow> 'p \<Rightarrow>
    'p file_system \<Rightarrow> 'p file_system \<times> bool" where
  "sn_write_to_path dir_ok wr ren_ok s tmp path fs =
     (if \<not> dir_ok then (fs, False)
      else case wr of
        Some k \<Rightarrow> (fs(tmp \<mapsto> take k (sn_to_bytes s)), False)
      | None \<Rightarrow>
          let fs1 = fs(tmp \<mapsto> sn_to_bytes s) in
          if \<not> ren_ok then (fs1, False)
          else (fs1(path := fs1 tmp, tmp := None), True))"

definition sn_read_from_path :: "'p \<Rightarrow> 'p file_system \<Rightarrow> snapshot_io_error + snapshot" where
  "sn_read_from_path path fs =
     (case fs path of
        None \<Rightarrow> Inl SnIo
      | Some bs \<Rightarrow> (case sn_from_bytes bs of Inl e \<Rightarrow> Inl (SnDecode e) | Inr s \<Rightarrow> Inr s))"

section \<open>Properties\<close>

lemma sn_layout:
  "slice 0 4 (sn_to_bytes s) = sn_magic" "from_le (slice 4 8 (sn_to_bytes s)) = sn_version"
  "from_le (slice 8 16 (sn_to_bytes s)) = sn_seq s" "from_le (slice 16 24 (sn_to_bytes s)) = sn_state_hash s"
  "unat (from_le (slice 24 28 (sn_to_bytes s)) :: u32) = min (length (sn_book_data s)) (2 ^ 32 - 1)"
  "drop sn_header_len (sn_to_bytes s) = sn_book_data s" "length (sn_to_bytes s) = sn_header_len + length (sn_book_data s)"
  by (simp_all add: sn_to_bytes_def sn_magic_def sn_header_len_def slice_def unat_of_nat_small)

lemma sn_from_to: "sn_from_bytes (sn_to_bytes s) = Inr (s\<lparr>sn_book_data := take (2 ^ 32 - 1) (sn_book_data s)\<rparr>)"
  by (simp add: sn_from_bytes_def sn_layout Let_def min_def)

lemma sn_from_extend:
  assumes "sn_from_bytes buf = Inr s"
  shows "sn_from_bytes (buf @ z) = Inr s \<and> sn_header_len + length (sn_book_data s) \<le> length buf"
  using assms
  by (auto simp: sn_from_bytes_def Let_def slice_append_left sn_header_len_def split: if_splits)

text \<open>
  Reading back a snapshot frame gives the same snapshot with its payload cut at \<open>u32::MAX\<close>
  bytes: an exact round trip for every payload that fits, and a silent truncation, not a refusal, for a
  larger one.
\<close>

theorem snapshot_frame_roundtrip:
  "sn_from_bytes (sn_to_bytes s) = Inr (s\<lparr>sn_book_data := take (2 ^ 32 - 1) (sn_book_data s)\<rparr>)"
  by (rule sn_from_to)

text \<open>
  No strict prefix of a snapshot frame decodes, so a frame cut by a crash is always refused.
\<close>

theorem snapshot_frame_prefix_refused:
  assumes "length (sn_book_data s) < 2 ^ 32" and "k < length (sn_to_bytes s)"
  shows "\<exists>err. sn_from_bytes (take k (sn_to_bytes s)) = Inl err"
proof (cases "sn_from_bytes (take k (sn_to_bytes s))")
  case (Inr s')
  note ext = sn_from_extend [OF Inr, of "drop k (sn_to_bytes s)"]
  have "take (2 ^ 32 - 1) (sn_book_data s) = sn_book_data s" using assms(1) by simp
  then have "s' = s" using ext sn_from_to [of s] by simp
  with ext assms(2) sn_layout(7) [of s] show ?thesis by simp
qed simp

theorem snapshot_frame_prefix_refused_witness:
  "\<exists>err. sn_from_bytes (take 29 (sn_to_bytes \<lparr>sn_seq = 9, sn_state_hash = 5, sn_book_data = [1, 2, 3]\<rparr>)) = Inl err"
  by (rule snapshot_frame_prefix_refused) (simp_all add: sn_layout sn_header_len_def)

text \<open>
  Property C9. Writing a snapshot is atomic: whatever the operating system does, the target path holds
  either its old contents or the complete new frame, and it holds the new frame exactly when the write
  reports success; a later read then returns the snapshot.
\<close>

theorem snapshot_write_atomic:
  assumes "tmp \<noteq> path" and "length (sn_book_data s) < 2 ^ 32"
  shows "let (fs', ok) = sn_write_to_path dir_ok wr ren_ok s tmp path fs in
    (if ok then fs' path = Some (sn_to_bytes s) \<and> sn_read_from_path path fs' = Inr s \<and>
                (\<forall>p. p \<noteq> path \<longrightarrow> p \<noteq> tmp \<longrightarrow> fs' p = fs p)
     else fs' path = fs path)"
  using assms
  by (auto simp: sn_write_to_path_def sn_read_from_path_def sn_from_to Let_def split: option.split)

theorem snapshot_write_atomic_witness:
  "fst (sn_write_to_path True (Some 12) True \<lparr>sn_seq = 9, sn_state_hash = 5, sn_book_data = [1, 2, 3]\<rparr>
     ''book.flsn.tmp'' ''book.flsn'' [''book.flsn'' \<mapsto> [7]]) ''book.flsn'' = Some [7]"
proof -
  have "\<not> snd (sn_write_to_path True (Some 12) True \<lparr>sn_seq = 9, sn_state_hash = 5, sn_book_data = [1, 2, 3]\<rparr>
     ''book.flsn.tmp'' ''book.flsn'' [''book.flsn'' \<mapsto> [7]])" by (simp add: sn_write_to_path_def)
  then show ?thesis
    using snapshot_write_atomic [of "''book.flsn.tmp''" "''book.flsn''"
        "\<lparr>sn_seq = 9, sn_state_hash = 5, sn_book_data = [1, 2, 3]\<rparr>" True "Some 12" True "[''book.flsn'' \<mapsto> [7]]"]
    by (simp add: case_prod_unfold Let_def)
qed

end
