(* ===== verification/FL_Engine.thy ===== *)
theory FL_Engine
  imports FL_Wire FL_Chain FL_FlowMetrics FL_Regime FL_CircuitBreaker FL_BookSnapshot FL_SnapshotFile
    "HOL-Library.Signed_Division"
begin

text \<open>
  The live engine of \<open>engine/src/engine.rs\<close>: the symbol filter with its auto-lock, the per-event pipeline (book,
  detector chain, analytics, trade print), the one-second window, periodic snapshots and the telemetry frames. What
  one round of the loop reads from the outside (the event, the clocks and cycle counters, the symbol directory of the
  source, the channel's drop counter, the outcome of a file write) is the record \<open>engine_input\<close>; a round returns
  the frames it sends. Instants and durations are nanoseconds. Log lines are left out, except that the
  regime label of the log is kept because the published label is meant to match it.
\<close>

section \<open>State\<close>

record platform =
  pf_rnd :: "rat \<Rightarrow> f64"
  pf_sqrt :: "f64 \<Rightarrow> f64"
  pf_xxh :: "bytes \<Rightarrow> u64"
  pf_xxs :: "bytes \<Rightarrow> u64 \<Rightarrow> u64"

record engine_config =
  ec_instrument_id :: u32
  ec_track_instrument :: "u32 option"
  ec_auto_lock_threshold :: u32
  ec_tick_publish_hz :: u32
  ec_book_publish_hz :: u32
  ec_depth_levels :: nat
  ec_vpin_bucket :: u64
  ec_vpin_buckets :: nat
  ec_spread_window :: nat
  ec_snapshot_every :: "int option"
  ec_snapshot_out :: "string option"

definition engine_config_default :: engine_config where
  "engine_config_default = \<lparr>ec_instrument_id = 1, ec_track_instrument = None, ec_auto_lock_threshold = 5,
     ec_tick_publish_hz = 50, ec_book_publish_hz = 10, ec_depth_levels = 10, ec_vpin_bucket = 10000, ec_vpin_buckets = 50,
     ec_spread_window = 256, ec_snapshot_every = None, ec_snapshot_out = None\<rparr>"

record engine =
  en_cfg :: engine_config
  en_book :: hot_book
  en_spread :: spread_tracker
  en_vpin :: vpin_calculator
  en_breaker :: circuit_breaker
  en_regime :: regime_classifier
  en_started :: int
  en_apply_stats :: stage_stats
  en_analytics_stats :: stage_stats
  en_risk_stats :: stage_stats
  en_wire_stats :: stage_stats
  en_histo :: apply_histo
  en_tsc :: tsc_clock
  en_last_vpin :: f64
  en_last_imbalance :: f64
  en_last_blowout_ratio :: f64
  en_prev_mid_ticks :: i64
  en_last_mid_drift_bps :: f64
  en_trade_velocity_baseline :: f64
  en_seq :: u64
  en_tracked :: "u32 option"
  en_instrument_counts :: "(u32, u32) omap"
  en_last_locked_trade_at :: "int option"
  en_events_in_window :: u64
  en_trades_in_window :: u64
  en_window_started :: int
  en_last_eps :: u64
  en_last_trade_vel :: f64
  en_chaos_chain :: chaos_chain

text \<open>The engine's book is \<open>HotOrderBook<256>\<close>.\<close>

definition book_levels :: nat where
  "book_levels = 256"

definition halt_reason_name :: "halt_reason \<Rightarrow> string" where
  "halt_reason_name r =
     (case r of RateLimit \<Rightarrow> ''rate_limit'' | PositionCap \<Rightarrow> ''position_cap'' | DailyLossFloor \<Rightarrow> ''daily_loss_floor''
      | OrderToTradeRatio \<Rightarrow> ''order_to_trade_ratio'' | FeedGap \<Rightarrow> ''feed_gap'' | Manual \<Rightarrow> ''manual'')"

definition chaos_kind_name :: "chaos_kind \<Rightarrow> string" where
  "chaos_kind_name k =
     (case k of QuoteStuff \<Rightarrow> ''QuoteStuff'' | PhantomLiquidity \<Rightarrow> ''PhantomLiquidity'' | Spoof \<Rightarrow> ''Spoof''
      | CancellationStorm \<Rightarrow> ''CancellationStorm'' | MomentumIgnition \<Rightarrow> ''MomentumIgnition'' | FlashCrash \<Rightarrow> ''FlashCrash''
      | LatencyArbitrage \<Rightarrow> ''LatencyArbitrage'')"

text \<open>The clock readings of \<open>new\<close>: the breaker's, \<open>started\<close> and \<open>window_started\<close>, and the calibrated cycle clock.\<close>

definition en_new :: "platform \<Rightarrow> int \<Rightarrow> int \<Rightarrow> int \<Rightarrow> tsc_clock \<Rightarrow> engine_config \<Rightarrow> engine" where
  "en_new pf breaker_at started window_started tsc cfg =
     \<lparr>en_cfg = cfg, en_book = hb_new book_levels (ec_instrument_id cfg), en_spread = st_new (ec_spread_window cfg),
      en_vpin = vp_new (ec_vpin_bucket cfg) (ec_vpin_buckets cfg), en_breaker = cb_new breaker_at breaker_config_default,
      en_regime = regime_classifier_default (pf_rnd pf), en_started = started,
      en_apply_stats = ss_new 256, en_analytics_stats = ss_new 256, en_risk_stats = ss_new 256, en_wire_stats = ss_new 256,
      en_histo = ah_new, en_tsc = tsc, en_last_vpin = Fin 0, en_last_imbalance = Fin 0, en_last_blowout_ratio = Fin 0,
      en_prev_mid_ticks = 0, en_last_mid_drift_bps = Fin 0, en_trade_velocity_baseline = Fin 0, en_seq = 0,
      en_tracked = ec_track_instrument cfg, en_instrument_counts = om_empty, en_last_locked_trade_at = None,
      en_events_in_window = 0, en_trades_in_window = 0, en_window_started = window_started, en_last_eps = 0,
      en_last_trade_vel = Fin 0, en_chaos_chain = cc_default_itch (pf_rnd pf)\<rparr>"

definition en_with_snapshot :: "platform \<Rightarrow> int \<Rightarrow> int \<Rightarrow> int \<Rightarrow> tsc_clock \<Rightarrow> engine_config \<Rightarrow> snapshot \<Rightarrow>
    book_snapshot_error + engine" where
  "en_with_snapshot pf breaker_at started window_started tsc cfg sn =
     (let engine = en_new pf breaker_at started window_started tsc cfg
      in case from_snapshot_bytes book_levels (sn_book_data sn) of
           Inl err \<Rightarrow> Inl err
         | Inr book \<Rightarrow> Inr (engine\<lparr>en_book := book, en_seq := sn_seq sn, en_tracked := Some (hb_instrument_id book)\<rparr>))"

section \<open>One round of the loop\<close>

record engine_input =
  ei_event :: event
  ei_stale_at :: int
  ei_lock_at :: int
  ei_symbol_of :: "u32 \<Rightarrow> bytes option"
  ei_apply_tsc :: "u64 \<times> u64"
  ei_analytics_tsc :: "u64 \<times> u64"
  ei_risk_tsc :: "u64 \<times> u64"
  ei_wire_tsc :: "u64 \<times> u64"
  ei_now :: int
  ei_tick_at :: int
  ei_breaker_at :: int
  ei_dropped :: u64
  ei_snapshot_io :: "bool \<times> nat option \<times> bool"

text \<open>Dropping a lock that has been quiet for five seconds, unless the symbol was pinned.\<close>

definition en_rearm :: "int \<Rightarrow> engine \<Rightarrow> engine" where
  "en_rearm t e =
     (case (en_tracked e, en_last_locked_trade_at e) of
        (Some _, Some last_at) \<Rightarrow>
          if ec_track_instrument (en_cfg e) = None \<and> 5 * 10 ^ 9 < t - last_at
          then e\<lparr>en_tracked := None, en_last_locked_trade_at := None, en_instrument_counts := om_empty\<rparr>
          else e
      | _ \<Rightarrow> e)"

definition is_trade :: "event \<Rightarrow> bool" where
  "is_trade ev \<longleftrightarrow> ev_event_type ev = event_type_code Trade"

text \<open>The symbol filter; the flag says whether the event goes on to the pipeline.\<close>

definition en_filter :: "string \<Rightarrow> bool \<Rightarrow> engine_input \<Rightarrow> engine \<Rightarrow> engine \<times> telemetry_frame list \<times> bool" where
  "en_filter src_name src_live i e =
     (let ev = ei_event i
      in case en_tracked e of
           Some iid \<Rightarrow>
             if ev_instrument_id ev \<noteq> iid then (e, [], False)
             else (if is_trade ev then e\<lparr>en_last_locked_trade_at := Some (ei_lock_at i)\<rparr> else e, [], True)
         | None \<Rightarrow>
             if is_trade ev then
               let trades_seen = (case om_lookup (en_instrument_counts e) (ev_instrument_id ev) of None \<Rightarrow> 0 | Some c \<Rightarrow> c) + 1;
                   e1 = e\<lparr>en_instrument_counts := om_insert (ev_instrument_id ev) trades_seen (en_instrument_counts e)\<rparr>
               in if ec_auto_lock_threshold (en_cfg e) \<le> trades_seen then
                    (e1\<lparr>en_tracked := Some (ev_instrument_id ev), en_book := hb_new book_levels (ev_instrument_id ev),
                        en_instrument_counts := om_empty, en_last_locked_trade_at := Some (ei_lock_at i)\<rparr>,
                     [FHeader \<lparr>hd_source = src_name, hd_is_live = src_live, hd_started_at_ns = 0,
                               hd_symbol = ei_symbol_of i (ev_instrument_id ev), hd_instrument_id = Some (ev_instrument_id ev)\<rparr>],
                     True)
                  else (e1, [], False)
             else (e, [], False))"

text \<open>Print price, quantity, time and aggressor of a trade against the book before the event.\<close>

definition or_zero :: "u64 option \<Rightarrow> u64" where
  "or_zero x = (case x of None \<Rightarrow> 0 | Some p \<Rightarrow> p)"

definition print_price :: "hot_book \<Rightarrow> event \<Rightarrow> u64" where
  "print_price book ev =
     (if 0 < ev_price ev then ev_price ev
      else if ev_side ev = 1 then or_zero (hb_best_ask book)
      else or_zero (hb_best_bid book))"

definition aggressor_of :: "u64 \<Rightarrow> u64 \<Rightarrow> u64 \<Rightarrow> int" where
  "aggressor_of bb ba price =
     (let crossed = 0 < bb \<and> 0 < ba \<and> ba \<le> bb
      in if crossed then 0
         else if 0 < ba \<and> ba \<le> price then 1
         else if 0 < bb \<and> price \<le> bb then - 1
         else 0)"

definition trade_info :: "hot_book \<Rightarrow> event \<Rightarrow> (u64 \<times> u64 \<times> u64 \<times> int) option" where
  "trade_info book ev =
     (if is_trade ev then
        let price = print_price book ev
        in if price = 0 then None
           else Some (price, ev_qty ev, ev_ts ev, aggressor_of (or_zero (hb_best_bid book)) (or_zero (hb_best_ask book)) price)
      else None)"

definition en_delta :: "platform \<Rightarrow> engine \<Rightarrow> u64 \<times> u64 \<Rightarrow> u64" where
  "en_delta pf e t = tsc_delta_ns (pf_rnd pf) (en_tsc e) (fst t) (snd t)"

definition en_apply :: "platform \<Rightarrow> engine_input \<Rightarrow> engine \<Rightarrow> engine" where
  "en_apply pf i e =
     (let apply_ns = en_delta pf e (ei_apply_tsc i)
      in e\<lparr>en_book := fst (hb_apply book_levels (en_book e) (ei_event i)),
           en_apply_stats := ss_push apply_ns (en_apply_stats e), en_histo := ah_record apply_ns (en_histo e)\<rparr>)"

definition chaos_frame_of :: "u64 \<Rightarrow> chaos_event \<Rightarrow> chaos_frame" where
  "chaos_frame_of sq ce =
     \<lparr>xf_seq = sq, xf_kind = chaos_kind_name (ce_kind ce), xf_severity = ce_severity ce, xf_start_seq = ce_start_seq ce,
      xf_end_seq = ce_end_seq ce, xf_initiator = ce_initiator ce\<rparr>"

definition en_chaos :: "platform \<Rightarrow> engine_input \<Rightarrow> engine \<Rightarrow> engine \<times> telemetry_frame list" where
  "en_chaos pf i e =
     (let seq_ev = \<lparr>se_seq = en_seq e, se_channel_id = 0, se_event = ei_event i\<rparr>;
          (chain, buf) = cc_process_into (pf_rnd pf) (pf_sqrt pf) seq_ev (en_chaos_chain e, [])
      in (e\<lparr>en_chaos_chain := chain\<rparr>, map (\<lambda>ce. FChaos (chaos_frame_of (en_seq e) ce)) buf))"

definition en_vpin_update :: "platform \<Rightarrow> event \<Rightarrow> (u64 \<times> u64 \<times> u64 \<times> int) option \<Rightarrow> engine \<Rightarrow> engine" where
  "en_vpin_update pf ev info e =
     (let (vpin, v) =
            (case info of
               Some (_, qty, _, aggr) \<Rightarrow> vp_process_trade_signed (pf_rnd pf) qty aggr (en_vpin e)
             | None \<Rightarrow> vp_process_trade (pf_rnd pf) ev (en_vpin e))
      in e\<lparr>en_vpin := vpin, en_last_vpin := (case v of Some x \<Rightarrow> x | None \<Rightarrow> en_last_vpin e)\<rparr>)"

definition en_analytics :: "platform \<Rightarrow> engine_input \<Rightarrow> (u64 \<times> u64 \<times> u64 \<times> int) option \<Rightarrow> engine \<Rightarrow> engine" where
  "en_analytics pf i info e =
     (let ev = ei_event i;
          e1 = (if is_trade ev then en_vpin_update pf ev info (e\<lparr>en_trades_in_window := en_trades_in_window e + 1\<rparr>) else e);
          e2 = e1\<lparr>en_last_imbalance := book_imbalance (pf_rnd pf) (en_book e1) (ec_depth_levels (en_cfg e1))\<rparr>;
          (spread, sm) = st_record (pf_rnd pf) (en_book e2) (en_spread e2);
          e3 = e2\<lparr>en_spread := spread,
                   en_last_blowout_ratio := (case sm of Some m \<Rightarrow> sm_blowout_ratio m | None \<Rightarrow> en_last_blowout_ratio e2)\<rparr>
      in e3\<lparr>en_analytics_stats := ss_push (en_delta pf e3 (ei_analytics_tsc i)) (en_analytics_stats e3)\<rparr>)"

text \<open>The pipeline of an event that passed the filter.\<close>

definition en_process :: "platform \<Rightarrow> engine_input \<Rightarrow> engine \<Rightarrow> engine \<times> telemetry_frame list" where
  "en_process pf i e =
     (let e1 = e\<lparr>en_seq := en_seq e + 1, en_events_in_window := en_events_in_window e + 1\<rparr>;
          info = trade_info (en_book e1) (ei_event i);
          e2 = en_apply pf i e1;
          (e3, chaos) = en_chaos pf i e2;
          e4 = en_analytics pf i info e3;
          e5 = e4\<lparr>en_risk_stats := ss_push (en_delta pf e4 (ei_risk_tsc i)) (en_risk_stats e4)\<rparr>;
          print = (case info of
                     Some (px, qty, ts, aggr) \<Rightarrow>
                       [FTrade \<lparr>tf_seq = en_seq e5, tf_ts_ns = ts, tf_price_ticks = px, tf_qty = qty, tf_aggressor = aggr\<rparr>]
                   | None \<Rightarrow> [])
      in (e5, chaos @ print))"

section \<open>The one-second window\<close>

definition i64_as_f64 :: "(rat \<Rightarrow> f64) \<Rightarrow> i64 \<Rightarrow> f64" where
  "i64_as_f64 rnd w = rnd (of_int (sint w))"

text \<open>\<open>Duration::as_secs_f64\<close> of a duration that saturates at zero.\<close>

definition secs_f64 :: "(rat \<Rightarrow> f64) \<Rightarrow> int \<Rightarrow> f64" where
  "secs_f64 rnd d =
     (let d = max 0 d
      in f64_add rnd (f64_of_nat rnd (nat (d div 10 ^ 9))) (f64_div rnd (f64_of_nat rnd (nat (d mod 10 ^ 9))) (rnd (10 ^ 9))))"

definition window_mid :: "hot_book \<Rightarrow> i64" where
  "window_mid book =
     (let bb = or_zero (hb_best_bid book); ba = or_zero (hb_best_ask book)
      in if 0 < bb \<and> 0 < ba then (bb + ba) div 2 else 0)"

definition velocity_baseline :: "(rat \<Rightarrow> f64) \<Rightarrow> f64 \<Rightarrow> f64 \<Rightarrow> f64" where
  "velocity_baseline rnd vel base =
     (if f64_lt (Fin 0) vel then
        if base = Fin 0 then vel
        else f64_add rnd (f64_mul rnd (rnd (875 / 1000)) base) (f64_mul rnd (rnd (125 / 1000)) vel)
      else base)"

definition en_window_rates :: "platform \<Rightarrow> int \<Rightarrow> engine \<Rightarrow> engine" where
  "en_window_rates pf now e =
     (let rnd = pf_rnd pf;
          elapsed = f64_max (secs_f64 rnd (now - en_window_started e)) (rnd (1 / 1000));
          eps = f64_as_u64 (f64_div rnd (u64_as_f64 rnd (en_events_in_window e)) elapsed);
          vel = f64_div rnd (u64_as_f64 rnd (en_trades_in_window e)) elapsed;
          cur_mid = window_mid (en_book e);
          drift = (if 0 < sint cur_mid \<and> 0 < sint (en_prev_mid_ticks e)
                   then f64_mul rnd (f64_div rnd (i64_as_f64 rnd (abs_i64 (cur_mid - en_prev_mid_ticks e))) (i64_as_f64 rnd cur_mid)) (rnd 10000)
                   else Fin 0)
      in e\<lparr>en_last_eps := eps, en_last_trade_vel := vel,
           en_trade_velocity_baseline := velocity_baseline rnd vel (en_trade_velocity_baseline e),
           en_last_mid_drift_bps := drift,
           en_prev_mid_ticks := (if 0 < sint cur_mid then cur_mid else en_prev_mid_ticks e)\<rparr>)"

definition en_window_reset :: "int \<Rightarrow> engine \<Rightarrow> engine" where
  "en_window_reset now e = e\<lparr>en_events_in_window := 0, en_trades_in_window := 0, en_window_started := now\<rparr>"

definition velocity_ratio :: "(rat \<Rightarrow> f64) \<Rightarrow> engine \<Rightarrow> f64" where
  "velocity_ratio rnd e =
     (if f64_lt (Fin 0) (en_trade_velocity_baseline e)
      then f64_div rnd (en_last_trade_vel e) (en_trade_velocity_baseline e)
      else rnd 1)"

text \<open>The score and the label of the diagnostic log line.\<close>

definition log_score :: "platform \<Rightarrow> engine \<Rightarrow> f64" where
  "log_score pf e =
     (let rnd = pf_rnd pf;
          bb = or_zero (hb_best_bid (en_book e)); ba = or_zero (hb_best_ask (en_book e));
          s_spread = f64_max (f64_sub rnd (en_last_blowout_ratio e) (rnd 1)) (Fin 0);
          s_imb_raw = f64_mul rnd (f64_abs (en_last_imbalance e)) (rnd 3);
          s_vpin = f64_mul rnd (en_last_vpin e) (rnd 5);
          s_vel = f64_mul rnd (f64_abs (f64_sub rnd (velocity_ratio rnd e) (rnd 1))) (rnd (6 / 10));
          s_drift = f64_mul rnd (en_last_mid_drift_bps e) (rnd (30 / 100));
          crossed_top = 0 < bb \<and> 0 < ba \<and> ba \<le> bb;
          (s_imb, s_spread_eff) = (if crossed_top then (Fin 0, Fin 0) else (s_imb_raw, s_spread));
          raw_score = f64_add rnd (f64_add rnd (f64_add rnd (f64_add rnd s_spread_eff s_imb) s_vpin) s_vel) s_drift;
          freshness = f64_min (f64_div rnd (u64_as_f64 rnd (en_last_eps e)) (rnd 30)) (rnd 1)
      in f64_mul rnd raw_score freshness)"

definition log_label :: "platform \<Rightarrow> engine \<Rightarrow> string" where
  "log_label pf e =
     (let score = log_score pf e; rnd = pf_rnd pf
      in if f64_le (rnd 3) score then ''CRISIS''
         else if f64_le (rnd (15 / 10)) score then ''AGGRESSIVE''
         else if f64_le (rnd (6 / 10)) score then ''VOLATILE''
         else ''CALM'')"

section \<open>Telemetry frames\<close>

definition en_regime_input :: "platform \<Rightarrow> engine \<Rightarrow> regime_input" where
  "en_regime_input pf e =
     (let bb = or_zero (hb_best_bid (en_book e)); ba = or_zero (hb_best_ask (en_book e))
      in \<lparr>ri_spread_blowout_ratio = en_last_blowout_ratio e, ri_book_imbalance = en_last_imbalance e, ri_vpin = en_last_vpin e,
          ri_trade_velocity_ratio = velocity_ratio (pf_rnd pf) e, ri_depth_depletion = Fin 0,
          ri_mid_drift_bps = en_last_mid_drift_bps e, ri_events_per_sec = en_last_eps e,
          ri_book_crossed = (0 < sint bb \<and> 0 < sint ba \<and> sint ba \<le> sint bb)\<rparr>)"

text \<open>\<open>i128\<close> addition wraps; the two products fit because prices are below \<open>2^63\<close> there.\<close>

definition add_i128 :: "int \<Rightarrow> int \<Rightarrow> int" where
  "add_i128 a b = sint (word_of_int (a + b) :: 128 word)"

definition microprice :: "i64 \<Rightarrow> i64 \<Rightarrow> u64 \<Rightarrow> u64 \<Rightarrow> i64" where
  "microprice best_bid best_ask bsz asz =
     word_of_int (add_i128 (sint best_bid * uint asz) (sint best_ask * uint bsz) sdiv (uint bsz + uint asz))"

definition en_build_tick :: "platform \<Rightarrow> engine_input \<Rightarrow> engine \<Rightarrow> tick_frame" where
  "en_build_tick pf i e =
     (let rnd = pf_rnd pf;
          best_bid = or_zero (hb_best_bid (en_book e)) :: i64; best_ask = or_zero (hb_best_ask (en_book e)) :: i64;
          two_sided = (0 < sint best_bid \<and> 0 < sint best_ask \<and> sint best_bid < sint best_ask);
          mid = (if two_sided then word_of_int (sint (best_bid + best_ask) sdiv 2) else 0 :: i64);
          spread = (if two_sided then best_ask - best_bid else 0 :: i64);
          bsz = hb_best_bid_size (en_book e); asz = hb_best_ask_size (en_book e);
          micro = (if two_sided \<and> 0 < uint bsz + uint asz then microprice best_bid best_ask bsz asz else mid);
          spread_bps = (if two_sided \<and> 0 < sint mid
                        then f64_mul rnd (f64_div rnd (i64_as_f64 rnd spread) (i64_as_f64 rnd mid)) (rnd 10000) else Fin 0)
      in \<lparr>tk_seq = en_seq e, tk_event_time_ns = ev_ts (ei_event i),
          tk_process_time_ns = word_of_int (max 0 (ei_tick_at i - en_started e)),
          tk_mid_ticks = mid, tk_spread_ticks = spread, tk_microprice_ticks = micro, tk_spread_bps = spread_bps,
          tk_bid_depth = hb_bid_depth (en_book e) (ec_depth_levels (en_cfg e)),
          tk_ask_depth = hb_ask_depth (en_book e) (ec_depth_levels (en_cfg e)),
          tk_imbalance = en_last_imbalance e, tk_vpin = en_last_vpin e, tk_trade_velocity = en_last_trade_vel e,
          tk_regime = of_nat (regime_code (classify rnd (en_regime e) (en_regime_input pf e))),
          tk_events_per_sec = en_last_eps e, tk_dropped_total = ei_dropped i\<rparr>)"

text \<open>Sampling the breaker prunes its gap log, so the engine is returned too.\<close>

definition en_build_risk :: "platform \<Rightarrow> engine_input \<Rightarrow> engine \<Rightarrow> engine \<times> risk_frame" where
  "en_build_risk pf i e =
     (let rnd = pf_rnd pf;
          (breaker, s) = cb_snapshot (ei_breaker_at i) (en_breaker e);
          otr_ratio = (if bs_trades_done s = 0 then u64_as_f64 rnd (bs_orders_sent s)
                       else f64_div rnd (u64_as_f64 rnd (bs_orders_sent s)) (u64_as_f64 rnd (bs_trades_done s)));
          cfg = breaker_config_default
      in (e\<lparr>en_breaker := breaker\<rparr>,
          \<lparr>rf_halted = bs_halted s, rf_reason = map_option halt_reason_name (bs_reason s), rf_orders_sent = bs_orders_sent s,
           rf_trades_done = bs_trades_done s, rf_otr_ratio = otr_ratio,
           rf_otr_limit = (case bc_max_order_to_trade_ratio cfg of Some r \<Rightarrow> rnd r | None \<Rightarrow> Fin 0),
           rf_net_position = bs_net_position s,
           rf_position_limit = (case bc_max_position cfg of Some p \<Rightarrow> p | None \<Rightarrow> 0),
           rf_cash_flow_ticks = bs_cash_flow_ticks s,
           rf_daily_loss_floor_ticks = (case bc_max_daily_loss_ticks cfg of Some p \<Rightarrow> p | None \<Rightarrow> 0),
           rf_gaps_in_window = bs_gaps_in_window s,
           rf_gap_threshold = (case bc_gap_threshold cfg of Some g \<Rightarrow> g | None \<Rightarrow> 0)\<rparr>))"

definition en_build_lat :: "platform \<Rightarrow> engine \<Rightarrow> lat_frame" where
  "en_build_lat pf e =
     \<lparr>lf_parse = stage_lat_default, lf_apply = ss_snapshot (pf_rnd pf) (en_apply_stats e),
      lf_analytics = ss_snapshot (pf_rnd pf) (en_analytics_stats e), lf_risk = ss_snapshot (pf_rnd pf) (en_risk_stats e),
      lf_wire_out = ss_snapshot (pf_rnd pf) (en_wire_stats e), lf_histo_apply = ah_bins (en_histo e)\<rparr>"

definition level_frame :: "level \<Rightarrow> wire_level" where
  "level_frame l = \<lparr>wl_price_ticks = lv_price l, wl_qty = lv_total_qty l, wl_order_count = lv_order_count l\<rparr>"

definition en_build_book :: "engine \<Rightarrow> book_frame" where
  "en_build_book e =
     (let n = ec_depth_levels (en_cfg e)
      in \<lparr>bf_seq = en_seq e, bf_bids = map level_frame (take n (hb_bid_levels (en_book e))),
          bf_asks = map level_frame (take n (hb_ask_levels (en_book e)))\<rparr>)"

section \<open>The loop\<close>

record loop_state =
  lp_engine :: engine
  lp_tick_period :: int
  lp_book_period :: int
  lp_next_tick :: int
  lp_next_book :: int
  lp_next_eps :: int
  lp_next_snapshot :: "int option"
  lp_files :: "string file_system"

text \<open>The path of the temporary file of a snapshot, \<open>Path::with_extension\<close>, is the parameter \<open>tmp_of\<close>.\<close>

definition lp_snapshot :: "platform \<Rightarrow> (string \<Rightarrow> string) \<Rightarrow> engine_input \<Rightarrow> loop_state \<Rightarrow> loop_state" where
  "lp_snapshot pf tmp_of i s =
     (let e = lp_engine s; now = ei_now i
      in case (ec_snapshot_every (en_cfg e), ec_snapshot_out (en_cfg e)) of
           (Some period, Some path) \<Rightarrow>
             if (case lp_next_snapshot s of Some t \<Rightarrow> t | None \<Rightarrow> now) \<le> now then
               let sn = \<lparr>sn_seq = en_seq e, sn_state_hash = hb_canonical_l2_hash (pf_xxh pf) (pf_xxs pf) (en_book e),
                         sn_book_data = to_snapshot_bytes book_levels (en_book e)\<rparr>;
                   (dir_ok, wr, ren_ok) = ei_snapshot_io i;
                   (files, _) = sn_write_to_path dir_ok wr ren_ok sn (tmp_of path) path (lp_files s)
               in s\<lparr>lp_files := files, lp_next_snapshot := Some (now + period)\<rparr>
             else s
         | _ \<Rightarrow> s)"

definition lp_window :: "platform \<Rightarrow> engine_input \<Rightarrow> loop_state \<Rightarrow> loop_state" where
  "lp_window pf i s =
     (if lp_next_eps s \<le> ei_now i
      then s\<lparr>lp_engine := en_window_reset (ei_now i) (en_window_rates pf (ei_now i) (lp_engine s)), lp_next_eps := ei_now i + 10 ^ 9\<rparr>
      else s)"

definition lp_tick :: "platform \<Rightarrow> engine_input \<Rightarrow> loop_state \<Rightarrow> loop_state \<times> telemetry_frame list" where
  "lp_tick pf i s =
     (if lp_next_tick s \<le> ei_now i then
        let e = lp_engine s;
            frame = en_build_tick pf i e;
            tick = (if 0 < sint (tk_mid_ticks frame) then [FTick frame] else []);
            e1 = e\<lparr>en_wire_stats := ss_push (en_delta pf e (ei_wire_tsc i)) (en_wire_stats e)\<rparr>;
            (e2, risk) = en_build_risk pf i e1
        in (s\<lparr>lp_engine := e2, lp_next_tick := ei_now i + lp_tick_period s\<rparr>, tick @ [FRisk risk, FLat (en_build_lat pf e2)])
      else (s, []))"

definition lp_book :: "engine_input \<Rightarrow> loop_state \<Rightarrow> loop_state \<times> telemetry_frame list" where
  "lp_book i s =
     (if lp_next_book s \<le> ei_now i
      then (s\<lparr>lp_next_book := ei_now i + lp_book_period s\<rparr>, [FBook (en_build_book (lp_engine s))])
      else (s, []))"

definition lp_step :: "platform \<Rightarrow> (string \<Rightarrow> string) \<Rightarrow> string \<Rightarrow> bool \<Rightarrow> engine_input \<Rightarrow> loop_state \<Rightarrow> loop_state \<times> telemetry_frame list" where
  "lp_step pf tmp_of src_name src_live i s =
     (let (e1, lock, passed) = en_filter src_name src_live i (en_rearm (ei_stale_at i) (lp_engine s))
      in if \<not> passed then (s\<lparr>lp_engine := e1\<rparr>, lock)
         else let (e2, out) = en_process pf i e1;
                  s3 = lp_window pf i (lp_snapshot pf tmp_of i (s\<lparr>lp_engine := e2\<rparr>));
                  (s4, tick) = lp_tick pf i s3;
                  (s5, ladder) = lp_book i s4
              in (s5, lock @ out @ tick @ ladder))"

text \<open>
  What \<open>source.next()\<close> answers: an event, nothing yet (the loop spins and asks again), or the end of a source
  that is not live. A finite list of answers is a run observed up to some point.
\<close>

datatype pull = Pulled engine_input | NotYet | Exhausted

fun lp_run :: "platform \<Rightarrow> (string \<Rightarrow> string) \<Rightarrow> string \<Rightarrow> bool \<Rightarrow> pull list \<Rightarrow> loop_state \<Rightarrow> loop_state \<times> telemetry_frame list" where
  "lp_run pf tmp_of nm lv [] s = (s, [])"
| "lp_run pf tmp_of nm lv (Exhausted # ps) s = (s, [])"
| "lp_run pf tmp_of nm lv (NotYet # ps) s = lp_run pf tmp_of nm lv ps s"
| "lp_run pf tmp_of nm lv (Pulled i # ps) s =
     (case lp_step pf tmp_of nm lv i s of (s1, out) \<Rightarrow>
        (case lp_run pf tmp_of nm lv ps s1 of (s2, out') \<Rightarrow> (s2, out @ out')))"

text \<open>\<open>Duration::from_secs_f64\<close> rounds to the nearest nanosecond, ties to even, and panics on an infinity.\<close>

definition round_half_even :: "rat \<Rightarrow> int" where
  "round_half_even q =
     (let f = \<lfloor>q\<rfloor>; d = q - of_int f in if d < 1 / 2 then f else if 1 / 2 < d then f + 1 else if even f then f else f + 1)"

definition period_ns :: "(rat \<Rightarrow> f64) \<Rightarrow> u32 \<Rightarrow> int option" where
  "period_ns rnd hz =
     (case f64_div rnd (rnd 1) (rnd (of_nat (unat hz))) of
        Fin q \<Rightarrow> if q < 0 then None else Some (round_half_even (q * 10 ^ 9))
      | _ \<Rightarrow> None)"

text \<open>
  \<open>run\<close>: the header frame, the timers, then the loop. The four start times are the readings of the clock for the
  timers; \<open>None\<close> is the panic on a publish rate of zero.
\<close>

definition lp_init :: "int \<times> int \<times> int \<times> int \<Rightarrow> int \<Rightarrow> int \<Rightarrow> string file_system \<Rightarrow> engine \<Rightarrow> loop_state" where
  "lp_init starts tick_period book_period files e =
     (case starts of (t0, t1, t2, t3) \<Rightarrow>
        \<lparr>lp_engine = e, lp_tick_period = tick_period, lp_book_period = book_period, lp_next_tick = t0 + tick_period,
         lp_next_book = t1 + book_period, lp_next_eps = t2 + 10 ^ 9,
         lp_next_snapshot = map_option (\<lambda>d. t3 + d) (ec_snapshot_every (en_cfg e)), lp_files = files\<rparr>)"

definition en_run :: "platform \<Rightarrow> (string \<Rightarrow> string) \<Rightarrow> string \<Rightarrow> bool \<Rightarrow> (u32 \<Rightarrow> bytes option) \<Rightarrow> int \<times> int \<times> int \<times> int \<Rightarrow>
    pull list \<Rightarrow> string file_system \<Rightarrow> engine \<Rightarrow> (loop_state \<times> telemetry_frame list) option" where
  "en_run pf tmp_of src_name src_live symbol_of starts pulls files e =
     (let hdr = FHeader \<lparr>hd_source = src_name, hd_is_live = src_live, hd_started_at_ns = 0,
                hd_symbol = (case en_tracked e of None \<Rightarrow> None | Some iid \<Rightarrow> symbol_of iid), hd_instrument_id = en_tracked e\<rparr>
      in case (period_ns (pf_rnd pf) (ec_tick_publish_hz (en_cfg e)), period_ns (pf_rnd pf) (ec_book_publish_hz (en_cfg e))) of
           (Some tick_period, Some book_period) \<Rightarrow>
             (case lp_run pf tmp_of src_name src_live pulls (lp_init starts tick_period book_period files e) of
                (s, out) \<Rightarrow> Some (s, hdr # out))
         | _ \<Rightarrow> None)"

end
