(* ===== verification/FL_SyntheticProperties.thy ===== *)
theory FL_SyntheticProperties
  imports FL_Synthetic FL_Engine
begin

text \<open>
  The synthetic source never panics and its stream is safe for both books: every event names an order, every bid
  lies 5 to 50 ticks below the fixed mid and every ask as far above it, ids are never re-used. Hence the two
  books agree on it, their levels are exact and the book is never crossed.
\<close>

section \<open>Draws\<close>

lemma draw_in: "rng_ok R \<Longrightarrow> in_span s x \<Longrightarrow> in_span s (snd (gen_range R ty s g))"
  by (auto simp: rng_ok_def)

lemma draw_Incl: "rng_ok R \<Longrightarrow> lo \<le> hi \<Longrightarrow> gen_range R ty (Incl lo hi) g = (g', x) \<Longrightarrow> lo \<le> x \<and> x \<le> hi"
  using draw_in [of R "Incl lo hi" lo ty g] by simp

lemma draw_Excl: "rng_ok R \<Longrightarrow> lo < hi \<Longrightarrow> gen_range R ty (Excl lo hi) g = (g', x) \<Longrightarrow> lo \<le> x \<and> x < hi"
  using draw_in [of R "Excl lo hi" lo ty g] by simp

lemma any_index_bound:
  assumes "rng_ok R" "pool \<noteq> []"
  shows "snd (any_index R pool g) < length pool"
proof -
  obtain g' i where d: "gen_range R TyUsize (Excl 0 (int (length pool))) g = (g', i)" by fastforce
  have "0 \<le> i \<and> i < int (length pool)" using draw_Excl [OF assms(1) _ d] assms(2) by simp
  then show ?thesis using assms(2) by (simp add: any_index_def d nat_less_iff)
qed

lemma first_on_side_bound: "first_on_side sd i pool = Some j \<Longrightarrow> i \<le> j \<and> j < i + length pool"
  by (induction sd i pool rule: first_on_side.induct) (auto split: if_splits)

lemma best_on_side_bound:
  "best_on_side sd i pool acc = Some (j, k) \<Longrightarrow> (\<forall>p. acc = Some p \<longrightarrow> fst p < i) \<Longrightarrow> j < i + length pool"
proof (induction sd i pool acc rule: best_on_side.induct)
  case (2 sd i x xs acc)
  then show ?case by (fastforce split: if_splits option.splits prod.splits)
qed auto

lemma pick_index_bound:
  assumes "rng_ok R" "pool \<noteq> []"
  shows "snd (pick_index R flash target pool g) < length pool"
  using any_index_bound [OF assms] first_on_side_bound [of _ 0 pool] best_on_side_bound [of _ 0 pool None]
  by (fastforce simp: pick_index_def split: option.splits)

section \<open>The invariant of the source\<close>

definition sy_band :: "side \<Rightarrow> u64 set" where
  "sy_band sd = (case sd of Bid \<Rightarrow> {99999950..99999995} | Ask \<Rightarrow> {100000005..100000050})"

fun phase_ok :: "phase \<Rightarrow> bool" where
  "phase_ok PhCalm = True"
| "phase_ok (PhImbalanceBurst sd) = (sd \<le> 1)"
| "phase_ok (PhTradeBurst sd) = (sd \<le> 1)"
| "phase_ok (PhFlash sd) = (sd \<le> 1)"

definition live_ok :: "live_order \<Rightarrow> bool" where
  "live_ok x = (case x of (oid, price, side) \<Rightarrow> oid \<noteq> 0 \<and> side \<le> 1)"

definition sy_inv :: "'r synthetic \<Rightarrow> bool" where
  "sy_inv s \<longleftrightarrow> sy_mid_ticks s = 100000000 \<and> phase_ok (sy_phase s) \<and> (\<forall>x \<in> set (sy_live_orders s). live_ok x)"

lemma sy_new_inv: "sy_inv (sy_new R seed)"
  by (simp add: sy_inv_def sy_new_def)

lemma coin_side: "0 \<le> x \<Longrightarrow> x < 2 \<Longrightarrow> (word_of_int x :: u8) \<le> 1"
  by (cases "x = 0"; cases "x = 1") auto

lemma pick_next_phase_ok:
  assumes "rng_ok R"
  shows "phase_ok (fst (snd (pick_next_phase R g)))"
proof -
  obtain g1 r where 1: "gen_range R TyU8 (Excl 0 100) g = (g1, r)" by fastforce
  obtain g2 sd where 2: "gen_range R TyI32 (Excl 0 2) g1 = (g2, sd)" by fastforce
  have "(word_of_int sd :: u8) \<le> 1" using draw_Excl [OF assms _ 2] coin_side by simp
  then show ?thesis by (simp add: pick_next_phase_def 1 2 Let_def case_prod_unfold)
qed

lemma sy_schedule_inv:
  assumes "rng_ok R" "sy_inv s"
  shows "sy_inv (sy_schedule R s)" and "sy_next_oid (sy_schedule R s) = sy_next_oid s"
  using assms(2) pick_next_phase_ok [OF assms(1), of "sy_rng s"]
  by (auto simp: sy_schedule_def sy_inv_def Let_def case_prod_unfold)

lemma set_swap_remove: "i < length xs \<Longrightarrow> set (swap_remove i xs) \<subseteq> set xs"
proof -
  assume "i < length xs"
  then have "last xs \<in> set xs" by (intro last_in_set) auto
  then have "set (xs[i := last xs]) \<subseteq> set xs" using set_update_subset_insert [of xs i "last xs"] by blast
  then show ?thesis unfolding swap_remove_def using in_set_butlastD by fastforce
qed

lemma small_word:
  assumes "0 \<le> x" "x < 2 ^ 63"
  shows "uint (word_of_int x :: u64) = x" and "sint (word_of_int x :: u64) = x"
  using assms by (simp_all add: uint_word_of_int_eq take_bit_int_eq_self sint_sbintrunc' signed_take_bit_int_eq_self)

lemma sy_price_band:
  assumes "5 \<le> off" "off \<le> 50"
  shows "sy_price 100000000 0 off \<in> sy_band Bid" and "sy_price 100000000 1 off \<in> sy_band Ask"
proof -
  have b: "(100000000 :: u64) - word_of_int off = word_of_int (100000000 - off)"
    and a: "(100000000 :: u64) + word_of_int off = word_of_int (100000000 + off)" by simp_all
  have "uint (word_of_int (100000000 - off) :: u64) = 100000000 - off"
    by (rule small_word) (use assms in simp_all)
  moreover have "sint (word_of_int (100000000 - off) :: u64) = 100000000 - off"
    by (rule small_word) (use assms in simp_all)
  moreover have "uint (word_of_int (100000000 + off) :: u64) = 100000000 + off"
    by (rule small_word) (use assms in simp_all)
  ultimately show "sy_price 100000000 0 off \<in> sy_band Bid" "sy_price 100000000 1 off \<in> sy_band Ask"
    using assms unfolding sy_price_def a b by (simp_all add: sy_band_def word_le_def Let_def del: of_int_diff of_int_add)
qed

section \<open>One event\<close>

definition draft_ok :: "'r synthetic \<Rightarrow> 'r synthetic \<Rightarrow> draft \<Rightarrow> bool" where
  "draft_ok s s' d =
     (case d of (t, oid, price, qty, side) \<Rightarrow> t \<in> {OrderAdd, OrderCancel, Trade} \<and> oid \<noteq> 0 \<and> side \<le> 1 \<and>
        (if t = OrderAdd then oid = sy_next_oid s \<and> sy_next_oid s' = sy_next_oid s + 1 \<and>
           price \<in> sy_band (if side = 0 then Bid else Ask) \<and> unat qty \<le> 500
         else sy_next_oid s' = sy_next_oid s))"

definition forced_ok :: "u8 option \<Rightarrow> bool" where
  "forced_ok forced \<longleftrightarrow> (\<forall>sd. forced = Some sd \<longrightarrow> sd \<le> 1)"

lemma sy_add_ok:
  assumes R: "rng_ok R" and inv: "sy_inv s" and f: "forced_ok forced" and n: "sy_next_oid s \<noteq> 0"
    and a: "sy_add R forced s = (s', d)"
  shows "sy_inv s' \<and> draft_ok s s' d"
proof -
  obtain g1 side where 1: "sy_side R forced (sy_rng s) = (g1, side)" by fastforce
  have sd: "side \<le> 1"
    using 1 f by (auto simp: sy_side_def forced_ok_def Let_def case_prod_unfold split: option.splits if_splits)
  obtain g2 off where 2: "sy_offset R (forced \<noteq> None) g1 = (g2, off)" by fastforce
  have off: "5 \<le> off \<and> off \<le> 50"
    using 2 draw_Incl [OF R, of 5 7] draw_Incl [OF R, of 5 50] by (fastforce simp: sy_offset_def split: if_splits)
  obtain g3 q where 3: "gen_range R TyU64 (Incl 10 500) g2 = (g3, q)" by fastforce
  have q: "unat (word_of_int q :: u64) \<le> 500"
    using draw_Incl [OF R _ 3] small_word(1) [of q] by (simp add: unat_eq_nat_uint nat_le_iff)
  let ?price = "sy_price (sy_mid_ticks s) side off"
  let ?pool = "sy_live_orders s @ [(sy_next_oid s, ?price, side)]"
  have "\<forall>x \<in> set ?pool. live_ok x" using inv n sd by (auto simp: sy_inv_def live_ok_def)
  then have "\<forall>x \<in> set (if 8192 < length ?pool then swap_remove 0 ?pool else ?pool). live_ok x"
    using set_swap_remove [of 0 ?pool] by (auto split: if_splits)
  moreover have "?price \<in> sy_band (if side = 0 then Bid else Ask)"
    using sd off sy_price_band [of off] inv by (auto simp: u8_le_1 sy_inv_def)
  moreover have "s' = s\<lparr>sy_rng := g3, sy_next_oid := sy_next_oid s + 1,
      sy_live_orders := (if 8192 < length ?pool then swap_remove 0 ?pool else ?pool)\<rparr>"
    "d = (OrderAdd, sy_next_oid s, ?price, word_of_int q, side)"
    using a unfolding sy_add_def Let_def 1 2 3 prod.case by simp_all
  ultimately show ?thesis using inv n sd q by (simp add: sy_inv_def draft_ok_def)
qed

lemma pool_member:
  assumes "sy_inv s" "i < length (sy_live_orders s)" "sy_live_orders s ! i = (oid, price, side)"
  shows "oid \<noteq> 0" "side \<le> 1"
  using assms nth_mem [OF assms(2)] by (auto simp: sy_inv_def live_ok_def)

lemma sy_cancel_ok:
  assumes "rng_ok R" "sy_inv s" "sy_live_orders s \<noteq> []"
  shows "\<exists>s' d. sy_cancel R flash forced s = Some (s', d) \<and> sy_inv s' \<and> draft_ok s s' d"
proof -
  obtain g i where p: "pick_index R flash forced (sy_live_orders s) (sy_rng s) = (g, i)" by fastforce
  have i: "i < length (sy_live_orders s)" using pick_index_bound [OF assms(1,3)] p by (metis snd_conv)
  obtain oid price side where o': "sy_live_orders s ! i = (oid, price, side)" by (cases "sy_live_orders s ! i")
  have "\<forall>x \<in> set (swap_remove i (sy_live_orders s)). live_ok x"
    using assms(2) set_swap_remove [OF i] by (auto simp: sy_inv_def)
  then show ?thesis
    using assms(2) pool_member [OF assms(2) i o'] i
    by (simp add: sy_cancel_def p o' sy_inv_def draft_ok_def Let_def)
qed

lemma sy_trade_ok:
  assumes "rng_ok R" "sy_inv s" "sy_live_orders s \<noteq> []"
  shows "\<exists>s' d. sy_trade R flash forced s = Some (s', d) \<and> sy_inv s' \<and> draft_ok s s' d"
proof -
  obtain g i where p: "pick_index R flash (map_option (\<lambda>t. 1 - t) forced) (sy_live_orders s) (sy_rng s) = (g, i)"
    by fastforce
  have i: "i < length (sy_live_orders s)" using pick_index_bound [OF assms(1,3)] p by (metis snd_conv)
  obtain oid price side where o': "sy_live_orders s ! i = (oid, price, side)" by (cases "sy_live_orders s ! i")
  show ?thesis
    using assms(2) pool_member [OF assms(2) i o'] i
    by (simp add: sy_trade_def p o' sy_inv_def draft_ok_def Let_def case_prod_unfold)
qed

lemma phase_forced_ok: "phase_ok ph \<Longrightarrow> forced_ok (snd (snd (phase_mix ph)))"
  by (cases ph) (simp_all add: forced_ok_def)

lemma sy_draw_ok:
  assumes R: "rng_ok R" and inv: "sy_inv s" and n: "sy_next_oid s \<noteq> 0"
  shows "\<exists>s' d. sy_draw R s = Some (s', d) \<and> sy_inv s' \<and> draft_ok s s' d"
proof -
  obtain a c f where m: "phase_mix (sy_phase s) = (a, c, f)" by (cases "phase_mix (sy_phase s)")
  have f: "forced_ok f" using inv phase_forced_ok [of "sy_phase s"] m by (simp add: sy_inv_def)
  obtain g r where g: "gen_range R TyU8 (Excl 0 100) (sy_rng s) = (g, r)" by fastforce
  let ?s = "s\<lparr>sy_rng := g\<rparr>"
  have inv': "sy_inv ?s" "sy_next_oid ?s \<noteq> 0" using inv n by (simp_all add: sy_inv_def)
  have up: "draft_ok ?s s' d = draft_ok s s' d" for s' d by (simp add: draft_ok_def)
  show ?thesis
    using sy_add_ok [OF R inv'(1) f inv'(2)] sy_cancel_ok [OF R inv'(1)] sy_trade_ok [OF R inv'(1)]
    by (cases "sy_add R f ?s"; cases "r < a \<or> sy_live_orders s = []") (auto simp: sy_draw_def m g up Let_def)
qed

lemma sy_next_ok:
  assumes R: "rng_ok R" and inv: "sy_inv s" and n: "sy_next_oid s \<noteq> 0"
  shows "\<exists>s' d. sy_next R now s = Some (s', sy_event now d) \<and> sy_inv s' \<and> draft_ok s s' d"
proof -
  let ?s = "sy_schedule R (s\<lparr>sy_seq := sy_seq s + 1\<rparr>)"
  have 1: "sy_inv ?s" "sy_next_oid ?s = sy_next_oid s"
    using sy_schedule_inv [OF R, of "s\<lparr>sy_seq := sy_seq s + 1\<rparr>"] inv by (simp_all add: sy_inv_def)
  have up: "draft_ok ?s s' d = draft_ok s s' d" for s' d by (simp add: draft_ok_def 1(2))
  obtain s' d where "sy_draw R ?s = Some (s', d)" "sy_inv s'" "draft_ok s s' d"
    using sy_draw_ok [OF R 1(1)] n up 1(2) by auto
  then show ?thesis by (intro exI [of _ s'] exI [of _ d]) (simp add: sy_next_def)
qed

section \<open>Runs\<close>

definition sy_event_ok :: "event \<Rightarrow> bool" where
  "sy_event_ok e \<longleftrightarrow> banded sy_band e \<and> event_type_from_u8 (ev_event_type e) \<noteq> Some OrderModify \<and>
     (is_add e \<longrightarrow> side_from_u8 (ev_side e) \<noteq> None \<and> unat (ev_qty e) \<le> 500)"

lemma sy_event_sound:
  assumes "draft_ok s s' d"
  shows "sy_event_ok (sy_event now d)"
    and "is_add (sy_event now d) \<Longrightarrow> ev_order_id (sy_event now d) = sy_next_oid s \<and> sy_next_oid s' = sy_next_oid s + 1"
    and "\<not> is_add (sy_event now d) \<Longrightarrow> sy_next_oid s' = sy_next_oid s"
  using assms by (cases d; auto simp: draft_ok_def sy_event_ok_def sy_event_def banded_def is_add_def u8_le_1 side_from_u8_def)+

lemma sy_event_ts [simp]: "ev_ts (sy_event now d) = now"
  by (simp add: sy_event_def split: prod.split)

lemma sy_run_ok:
  "rng_ok R \<Longrightarrow> sy_inv s \<Longrightarrow> sy_next_oid s \<noteq> 0 \<Longrightarrow> unat (sy_next_oid s) + length nows < 2 ^ 64 \<Longrightarrow>
   \<exists>s' es. sy_run R nows s = Some (s', es) \<and> map ev_ts es = nows \<and> (\<forall>e \<in> set es. sy_event_ok e) \<and>
     distinct (map ev_order_id (filter is_add es)) \<and>
     (\<forall>e \<in> set (filter is_add es). unat (sy_next_oid s) \<le> unat (ev_order_id e))"
proof (induction nows arbitrary: s)
  case (Cons now nows)
  obtain s1 d where 1: "sy_next R now s = Some (s1, sy_event now d)" "sy_inv s1" "draft_ok s s1 d"
    using sy_next_ok [OF Cons.prems(1,2,3)] by blast
  let ?e = "sy_event now d"
  note e = sy_event_sound [OF 1(3), of now]
  have suc: "unat (sy_next_oid s + 1) = Suc (unat (sy_next_oid s))"
    using Cons.prems(4) by (simp add: unat_word_ariths)
  have n1: "unat (sy_next_oid s1) = unat (sy_next_oid s) + (if is_add ?e then 1 else 0)"
    using e(2,3) suc by auto
  then have "sy_next_oid s1 \<noteq> 0" "unat (sy_next_oid s1) + length nows < 2 ^ 64"
    using Cons.prems(3,4) by (auto simp: unat_eq_0 split: if_splits)
  with Cons.IH [OF Cons.prems(1) 1(2)] obtain s' es where 2: "sy_run R nows s1 = Some (s', es)"
      "map ev_ts es = nows" "\<forall>e \<in> set es. sy_event_ok e" "distinct (map ev_order_id (filter is_add es))"
      "\<forall>e \<in> set (filter is_add es). unat (sy_next_oid s1) \<le> unat (ev_order_id e)"
    by blast
  have "ev_order_id ?e \<notin> ev_order_id ` set (filter is_add es)" if "is_add ?e"
    using that 2(5) n1 e(2) by fastforce
  moreover have "\<forall>x \<in> set (filter is_add (?e # es)). unat (sy_next_oid s) \<le> unat (ev_order_id x)"
    using 2(5) n1 e(2) by (auto split: if_splits)
  ultimately show ?case
    using 1(1) 2(1-4) e(1) by (intro exI [of _ s'] exI [of _ "?e # es"]) auto
qed simp

lemma sy_stream_fresh:
  assumes "\<forall>e \<in> set es. sy_event_ok e" "distinct (map ev_order_id (filter is_add es))" "length es < 2 ^ 32"
  shows "fresh_stream es"
proof -
  have "(\<Sum>e\<leftarrow>filter is_add es. unat (ev_qty e)) \<le> 500 * length (filter is_add es)"
    using assms(1) by (intro sum_list_bounded) (auto simp: sy_event_ok_def)
  also have "\<dots> \<le> 500 * length es" by simp
  finally show ?thesis using assms by (auto simp: fresh_stream_def sy_event_ok_def)
qed

lemma word_interval_card: "card {a..b :: u64} \<le> Suc (unat b) - unat a"
proof -
  have "card {a..b} = card (unat ` {a..b})" by (rule card_image [symmetric]) (simp add: inj_on_def word_unat_eq_iff)
  also have "\<dots> \<le> card {unat a..unat b}" by (rule card_mono) (auto simp: word_le_nat_alt)
  finally show ?thesis by simp
qed

interpretation synthetic: price_band sy_band book_levels
proof
  fix sd
  show "finite (sy_band sd)" by simp
  show "card (sy_band sd) \<le> book_levels"
    using word_interval_card [of 99999950 99999995] word_interval_card [of 100000005 100000050]
    by (simp add: sy_band_def book_levels_def split: side.split)
  show "book_levels < 2 ^ 32" by (simp add: book_levels_def)
qed

lemma sy_band_uncrossed: "in_band sy_band b \<Longrightarrow> uncrossed b"
  by (rule synthetic.in_band_uncrossed) (auto simp: sy_band_def word_le_nat_alt word_less_nat_alt)

text \<open>
  Property C32. The synthetic source feeds the engine soundly. Whatever the seed, the clock and the draws of the
  generator (as long as draws stay in their ranges), pulling events never panics and stamps one event per
  reading; the engine's hot book agrees with the reference book on the stream, the levels are exactly the sums of the
  resting orders, and the book is never crossed, as the comments in \<open>next\<close> claim.
\<close>

theorem synthetic_feed_sound:
  assumes "rng_ok R" and "length nows < 2 ^ 32"
  shows "\<exists>s es. sy_run R nows (sy_new R seed) = Some (s, es) \<and> map ev_ts es = nows \<and>
    hb_canonical_l2_hash xxh xxs (hb_run book_levels (hb_new book_levels iid) es) =
      ob_canonical_l2_hash xxh xxs (ob_run (ob_new iid) es) \<and>
    consistent (ob_run (ob_new iid) es) \<and> uncrossed (ob_run (ob_new iid) es)"
proof -
  have "sy_next_oid (sy_new R seed) = 1" by (simp add: sy_new_def)
  then obtain s es where es: "sy_run R nows (sy_new R seed) = Some (s, es)" "map ev_ts es = nows"
      "\<forall>e \<in> set es. sy_event_ok e" "distinct (map ev_order_id (filter is_add es))"
    using sy_run_ok [OF assms(1) sy_new_inv [of R seed], of nows] assms(2) by auto
  have len: "length es < 2 ^ 32" using es(2) assms(2) by (metis length_map)
  have band: "\<forall>e \<in> set es. banded sy_band e" using es(3) by (simp add: sy_event_ok_def)
  show ?thesis
    using es(1,2) rel_hash [OF synthetic.band_run(2) [OF band]] fresh_run [OF sy_stream_fresh [OF es(3,4) len]]
      sy_band_uncrossed [OF synthetic.band_run(3) [OF band]] len
    by (intro exI [of _ s] exI [of _ es]) (simp add: less_imp_le)
qed

text \<open>A generator that always draws the lowest value.\<close>

definition low_rng :: "unit std_rng" where
  "low_rng = \<lparr>seed_from_u64 = \<lambda>_. (), gen_range = \<lambda>_ s _. ((), case s of Excl lo _ \<Rightarrow> lo | Incl lo _ \<Rightarrow> lo),
     gen_bool = \<lambda>_ _. ((), True)\<rparr>"

lemma low_rng_ok: "rng_ok low_rng"
  unfolding rng_ok_def
proof (intro allI impI)
  fix ty s r x
  assume "in_span s x"
  then show "in_span s (snd (gen_range low_rng ty s r))" by (cases s) (auto simp: low_rng_def)
qed

theorem synthetic_feed_sound_witness:
  "\<exists>s es. sy_run low_rng [5, 6, 7] (sy_new low_rng 42) = Some (s, es) \<and> map ev_ts es = [5, 6, 7] \<and>
    hb_canonical_l2_hash (\<lambda>_. 11) (\<lambda>bs s. s + 1) (hb_run book_levels (hb_new book_levels 1) es) =
      ob_canonical_l2_hash (\<lambda>_. 11) (\<lambda>bs s. s + 1) (ob_run (ob_new 1) es) \<and>
    consistent (ob_run (ob_new 1) es) \<and> uncrossed (ob_run (ob_new 1) es)"
  by (rule synthetic_feed_sound [OF low_rng_ok]) simp

end
