(* ===== verification/FL_BenchGen.thy ===== *)
theory FL_BenchGen
  imports FL_BookBand FL_FreshStream FL_Itch
begin

text \<open>
  The market-data generators of the benchmarks: \<open>bench/src/lib.rs\<close> (realistic, bursty and crashy streams, the
  warm-up) and the workloads of \<open>bench/src/bin/latency_apply.rs\<close> (cancel-heavy, fat warm-up, isolated trades).
  A generator step that would index its pool out of range, or take a remainder by zero, is \<open>None\<close>.
\<close>

unbundle bit_operations_syntax

section \<open>Random numbers\<close>

text \<open>The state of \<open>XorShift64\<close> is also its output.\<close>

definition xs_next_u64 :: "u64 \<Rightarrow> u64" where
  "xs_next_u64 x0 =
     (let x1 = x0 XOR push_bit 13 x0;
          x2 = x1 XOR drop_bit 7 x1
      in x2 XOR push_bit 17 x2)"

definition xs_bounded :: "u64 \<Rightarrow> u64 \<Rightarrow> u64 \<times> u64" where
  "xs_bounded n x = (let x = xs_next_u64 x in (x, x mod n))"

function geometric_from :: "u64 \<Rightarrow> u64 \<Rightarrow> nat \<Rightarrow> u64 \<Rightarrow> u64 \<times> nat" where
  "geometric_from p_num p_den k x =
     (if k < 64 then
        let (x, v) = xs_bounded p_den x
        in if p_num \<le> v then geometric_from p_num p_den (k + 1) x else (x, k)
      else (x, k))"
  by auto
termination by (relation "measure (\<lambda>(_, _, k, _). 64 - k)") auto

declare geometric_from.simps [simp del]

definition geometric :: "u64 \<Rightarrow> u64 \<Rightarrow> u64 \<Rightarrow> u64 \<times> u64" where
  "geometric p_num p_den x = (let (x, k) = geometric_from p_num p_den 0 x in (x, of_nat k))"

section \<open>Configuration and state\<close>

record market_config =
  mc_mid_price :: u64
  mc_tick_size :: u64
  mc_max_levels :: u64
  mc_top_concentration :: u64
  mc_seed :: u64

definition market_config_default :: market_config where
  "market_config_default = \<lparr>mc_mid_price = 10000, mc_tick_size = 1, mc_max_levels = 50,
     mc_top_concentration = 40, mc_seed = 0xDEADBEEFCAFEBABE\<rparr>"

type_synonym pooled = "u64 \<times> u64 \<times> u64 \<times> u8"

record bench_gen =
  bg_rng :: u64
  bg_live :: "pooled list"
  bg_next_order_id :: u64

definition bg_init :: "u64 \<Rightarrow> bench_gen" where
  "bg_init seed = \<lparr>bg_rng = seed, bg_live = [], bg_next_order_id = 1\<rparr>"

definition bench_event :: "nat \<Rightarrow> event_type \<Rightarrow> u8 \<Rightarrow> u64 \<Rightarrow> u64 \<Rightarrow> u64 \<Rightarrow> event" where
  "bench_event i t side price qty oid =
     \<lparr>ev_ts = of_nat i * 1000, ev_price = price, ev_qty = qty, ev_order_id = oid, ev_instrument_id = 1,
      ev_event_type = event_type_code t, ev_side = side, ev_pad = (0, 0)\<rparr>"

definition sequenced :: "u64 \<Rightarrow> event \<Rightarrow> sequenced_event" where
  "sequenced s e = \<lparr>se_seq = s, se_channel_id = 0, se_event = e\<rparr>"

section \<open>One step\<close>

definition level_price :: "market_config \<Rightarrow> u64 \<Rightarrow> u8 \<Rightarrow> u64" where
  "level_price cfg off side =
     (if side = 0 then max (sat_sub (mc_mid_price cfg) (off * mc_tick_size cfg)) 1
      else mc_mid_price cfg + (off + 1) * mc_tick_size cfg)"

text \<open>The draw of a level and a side that all four streams of \<open>lib.rs\<close> start an add with.\<close>

definition bg_place :: "market_config \<Rightarrow> u64 \<Rightarrow> u64 \<times> u8 \<times> u64" where
  "bg_place cfg x =
     (let (x, g) = geometric (mc_top_concentration cfg) 100 x;
          level_offset = min g (mc_max_levels cfg - 1);
          x = xs_next_u64 x;
          side_bit = ucast (x AND 1) :: u8
      in (x, side_bit, level_price cfg level_offset side_bit))"

definition bg_add :: "nat \<Rightarrow> u8 \<Rightarrow> u64 \<Rightarrow> u64 \<Rightarrow> bench_gen \<Rightarrow> bench_gen \<times> event" where
  "bg_add i side price qty s =
     (let oid = bg_next_order_id s
      in (s\<lparr>bg_next_order_id := oid + 1, bg_live := bg_live s @ [(oid, price, qty, side)]\<rparr>,
          bench_event i OrderAdd side price qty oid))"

definition bg_cancel :: "nat \<Rightarrow> nat \<Rightarrow> bench_gen \<Rightarrow> (bench_gen \<times> event) option" where
  "bg_cancel i idx s =
     (if idx < length (bg_live s) then
        let (oid, price, qty, side) = bg_live s ! idx
        in Some (s\<lparr>bg_live := swap_remove idx (bg_live s)\<rparr>, bench_event i OrderCancel side price qty oid)
      else None)"

definition bg_trade :: "nat \<Rightarrow> nat \<Rightarrow> (u64 \<Rightarrow> u64) \<Rightarrow> bench_gen \<Rightarrow> (bench_gen \<times> event) option" where
  "bg_trade i idx fill_of s =
     (if idx < length (bg_live s) then
        let (oid, price, qty, side) = bg_live s ! idx;
            fill = fill_of qty;
            pool = (if qty \<le> fill then swap_remove idx (bg_live s)
                    else (bg_live s)[idx := (oid, price, qty - fill, side)])
        in Some (s\<lparr>bg_live := pool\<rparr>, bench_event i Trade side price fill oid)
      else None)"

definition pool_index :: "bench_gen \<Rightarrow> u64 \<Rightarrow> u64 \<times> nat" where
  "pool_index s x = (let (x, v) = xs_bounded (of_nat (length (bg_live s))) x in (x, unat v))"

section \<open>The realistic stream\<close>

definition realistic_qty :: "u64 \<Rightarrow> u64 \<times> u64" where
  "realistic_qty x =
     (let (x, q) = xs_bounded 90 x;
          qty_base = 10 + q;
          (x, r) = xs_bounded 100 x
      in if r < 5 then let (x, m) = xs_bounded 50 x in (x, qty_base * (10 + m)) else (x, qty_base))"

definition realistic_cancel_index :: "bench_gen \<Rightarrow> u64 \<Rightarrow> u64 \<times> nat" where
  "realistic_cancel_index s x =
     (let (x, b) = xs_bounded 100 x
      in if b < 70 \<and> 4 < length (bg_live s)
         then let (x, v) = xs_bounded 4 x in (x, length (bg_live s) - 1 - unat v)
         else pool_index s x)"

definition realistic_step :: "market_config \<Rightarrow> nat \<Rightarrow> bench_gen \<Rightarrow> (bench_gen \<times> event) option" where
  "realistic_step cfg i s =
     (let (x, roll) = xs_bounded 100 (bg_rng s)
      in if roll < 60 \<or> bg_live s = [] then
           let (x, side, price) = bg_place cfg x;
               (x, qty) = realistic_qty x
           in Some (bg_add i side price qty (s\<lparr>bg_rng := x\<rparr>))
         else if roll < 85 then
           let (x, idx) = realistic_cancel_index s x
           in bg_cancel i idx (s\<lparr>bg_rng := x\<rparr>)
         else
           let (x, idx) = pool_index s x;
               (x, r) = xs_bounded 100 x
           in bg_trade i idx (\<lambda>qty. if r < 30 then qty else max (qty div 2) 1) (s\<lparr>bg_rng := x\<rparr>))"

fun bg_loop :: "(nat \<Rightarrow> bench_gen \<Rightarrow> (bench_gen \<times> event) option) \<Rightarrow> nat list \<Rightarrow> bench_gen \<Rightarrow>
    (bench_gen \<times> sequenced_event list) option" where
  "bg_loop f [] s = Some (s, [])"
| "bg_loop f (i # is) s =
     (case f i s of
        None \<Rightarrow> None
      | Some (s, e) \<Rightarrow> map_option (\<lambda>(s, es). (s, sequenced (of_nat i + 1) e # es)) (bg_loop f is s))"

definition realistic_events :: "nat \<Rightarrow> market_config \<Rightarrow> sequenced_event list option" where
  "realistic_events n cfg = map_option snd (bg_loop (realistic_step cfg) [0..<n] (bg_init (mc_seed cfg)))"

section \<open>The bursty stream\<close>

definition bursty_step :: "market_config \<Rightarrow> nat \<Rightarrow> bench_gen \<Rightarrow> (bench_gen \<times> event) option" where
  "bursty_step cfg i s =
     (let (x, roll) = xs_bounded 100 (bg_rng s)
      in if roll < 35 \<or> bg_live s = [] then
           let (x, side, price) = bg_place cfg x;
               (x, q) = xs_bounded 90 x
           in Some (bg_add i side price (10 + q) (s\<lparr>bg_rng := x\<rparr>))
         else if roll < 90 then
           let (x, idx) = pool_index s x
           in bg_cancel i idx (s\<lparr>bg_rng := x\<rparr>)
         else
           let (x, idx) = pool_index s x
           in bg_trade i idx (\<lambda>qty. max (qty div 2) 1) (s\<lparr>bg_rng := x\<rparr>))"

definition bursty_events :: "nat \<Rightarrow> market_config \<Rightarrow> sequenced_event list option" where
  "bursty_events n cfg = map_option snd (bg_loop (bursty_step cfg) [0..<n] (bg_init (mc_seed cfg + 0x42)))"

section \<open>The crashy stream\<close>

record crash_gen =
  cg_rng :: u64
  cg_seq :: u64
  cg_ts :: u64
  cg_next_order_id :: u64

definition crash_price :: "u64 \<Rightarrow> u8 \<Rightarrow> u64 \<Rightarrow> u64" where
  "crash_price mid side off = (if side = 0 then sat_sub mid off else sat_add mid off)"

definition crash_event :: "u64 \<Rightarrow> event_type \<Rightarrow> u8 \<Rightarrow> u64 \<Rightarrow> u64 \<Rightarrow> u64 \<Rightarrow> event" where
  "crash_event ts t side price qty oid = (bench_event 0 t side price qty oid)\<lparr>ev_ts := ts\<rparr>"

fun crash_sweep :: "u64 \<Rightarrow> u8 \<Rightarrow> nat list \<Rightarrow> crash_gen \<Rightarrow> crash_gen \<times> sequenced_event list" where
  "crash_sweep mid side [] g = (g, [])"
| "crash_sweep mid side (k # ks) g =
     (let ts = cg_ts g + 1000;
          oid = cg_next_order_id g;
          e = sequenced (cg_seq g) (crash_event ts OrderCancel side (crash_price mid side (of_nat k + 1)) 100 oid);
          (g, es) = crash_sweep mid side ks (g\<lparr>cg_seq := cg_seq g + 1, cg_ts := ts, cg_next_order_id := oid + 1\<rparr>)
      in (g, e # es))"

fun crash_prints :: "u64 \<Rightarrow> u8 \<Rightarrow> nat \<Rightarrow> crash_gen \<Rightarrow> crash_gen \<times> sequenced_event list" where
  "crash_prints mid side 0 g = (g, [])"
| "crash_prints mid side (Suc n) g =
     (let ts = cg_ts g + 1000;
          e = sequenced (cg_seq g) (crash_event ts Trade side (crash_price mid side (50 + 1)) 50 0);
          (g, es) = crash_prints mid side n (g\<lparr>cg_seq := cg_seq g + 1, cg_ts := ts\<rparr>)
      in (g, e # es))"

definition crash_burst :: "u64 \<Rightarrow> crash_gen \<Rightarrow> crash_gen \<times> sequenced_event list" where
  "crash_burst mid g =
     (let x = xs_next_u64 (cg_rng g);
          side = (if x AND 1 = 0 then 0 else 1 :: u8);
          (g, cs) = crash_sweep mid side [0..<50] (g\<lparr>cg_rng := x\<rparr>);
          (g, ps) = crash_prints mid side 8 g
      in (g, cs @ ps))"

fun crashy_loop :: "u64 \<Rightarrow> nat \<Rightarrow> sequenced_event list \<Rightarrow> crash_gen \<Rightarrow> sequenced_event list" where
  "crashy_loop mid i [] g = []"
| "crashy_loop mid i (src # rest) g =
     (let e = sequenced (cg_seq g) ((se_event src)\<lparr>ev_ts := cg_ts g\<rparr>);
          g = g\<lparr>cg_seq := cg_seq g + 1, cg_ts := cg_ts g + 1000\<rparr>;
          (g, es) = (if 0 < i \<and> i mod 5000 = 0 then crash_burst mid g else (g, []))
      in e # es @ crashy_loop mid (Suc i) rest g)"

definition crashy_events :: "nat \<Rightarrow> market_config \<Rightarrow> sequenced_event list option" where
  "crashy_events n cfg =
     map_option (\<lambda>base. crashy_loop (mc_mid_price cfg) 0 base
         \<lparr>cg_rng = mc_seed cfg + 0xC0DE, cg_seq = 1, cg_ts = 0, cg_next_order_id = 10000000\<rparr>)
       (realistic_events n cfg)"

section \<open>Warm-up and isolated workloads\<close>

fun warmup_from :: "market_config \<Rightarrow> nat list \<Rightarrow> u64 \<Rightarrow> sequenced_event list" where
  "warmup_from cfg [] x = []"
| "warmup_from cfg (i # is) x =
     (let (x, side, price) = bg_place cfg x;
          (x, q) = xs_bounded 90 x
      in sequenced (of_nat i + 1) (bench_event i OrderAdd side price (10 + q) (of_nat i + 1)) # warmup_from cfg is x)"

definition warmup_events :: "nat \<Rightarrow> market_config \<Rightarrow> sequenced_event list" where
  "warmup_events n cfg = warmup_from cfg [0..<n] (mc_seed cfg + 1)"

text \<open>\<open>cancel_heavy_events\<close> keeps only the ids of its live orders; its cancels carry nothing but the id.\<close>

fun cancel_heavy_from :: "nat list \<Rightarrow> u64 \<Rightarrow> u64 list \<Rightarrow> u64 \<Rightarrow> sequenced_event list option" where
  "cancel_heavy_from [] x ids next_oid = Some []"
| "cancel_heavy_from (i # is) x ids next_oid =
     (let (x, pick) = xs_bounded 100 x
      in if pick < 70 \<and> ids \<noteq> [] then
           let (x, v) = xs_bounded (of_nat (length ids)) x
           in if unat v < length ids then
                map_option (\<lambda>es. sequenced (of_nat i + 1) (bench_event i OrderCancel 0 0 0 (ids ! unat v)) # es)
                  (cancel_heavy_from is x (swap_remove (unat v) ids) next_oid)
              else None
         else
           let x = xs_next_u64 x;
               side = ucast (x AND 1) :: u8;
               (x, p) = xs_bounded 200 x;
               (x, q) = xs_bounded 100 x
           in map_option (\<lambda>es. sequenced (of_nat i + 1) (bench_event i OrderAdd side (10000 + p) (1 + q) next_oid) # es)
                (cancel_heavy_from is x (ids @ [next_oid]) (next_oid + 1)))"

definition cancel_heavy_events :: "nat \<Rightarrow> u64 \<Rightarrow> sequenced_event list option" where
  "cancel_heavy_events n seed = cancel_heavy_from [0..<n] seed [] 1"

fun fat_warmup_from :: "nat list \<Rightarrow> u64 \<Rightarrow> sequenced_event list" where
  "fat_warmup_from [] x = []"
| "fat_warmup_from (i # is) x =
     (let x = xs_next_u64 x;
          side = ucast (x AND 1) :: u8;
          (x, g) = geometric 40 100 x;
          lvl = min g 49;
          price = (if side = 0 then 10000 - lvl else 10001 + lvl)
      in sequenced (of_nat i + 1) (bench_event i OrderAdd side price 1000000000 (of_nat i + 1)) # fat_warmup_from is x)"

definition fat_warmup :: "nat \<Rightarrow> u64 \<Rightarrow> sequenced_event list" where
  "fat_warmup n seed = fat_warmup_from [0..<n] seed"

fun trade_isolated_from :: "u64 \<Rightarrow> nat list \<Rightarrow> u64 \<Rightarrow> sequenced_event list" where
  "trade_isolated_from live_orders [] x = []"
| "trade_isolated_from live_orders (i # is) x =
     (let (x, v) = xs_bounded live_orders x
      in sequenced (of_nat i + 1) (bench_event i Trade 0 0 1 (1 + v)) # trade_isolated_from live_orders is x)"

text \<open>The remainder by \<open>live_orders\<close> panics when it is zero and there is something to generate.\<close>

definition trade_isolated_events :: "nat \<Rightarrow> u64 \<Rightarrow> u64 \<Rightarrow> sequenced_event list option" where
  "trade_isolated_events n live_orders seed =
     (if live_orders = 0 \<and> 0 < n then None else Some (trade_isolated_from live_orders [0..<n] seed))"

end
