(* ===== verification/FL_BenchGenProperties.thy ===== *)
theory FL_BenchGenProperties
  imports FL_BenchGen "HOL-Library.Multiset"
begin

text \<open>
  The benchmark generators against the books they drive. The locale \<open>pool_generator\<close> is the contract of a step
  that adds a fresh order inside a price band, cancels a pooled order in full or fills part of one; a stream
  generated that way never panics, both books agree on it, and the pool is exactly the set of resting orders.
\<close>

section \<open>Draws\<close>

lemma xs_bounded_less: "0 < n \<Longrightarrow> snd (xs_bounded n x) < n"
  by (simp add: xs_bounded_def Let_def word_mod_less_divisor)

lemma geometric_from_le: "k \<le> 64 \<Longrightarrow> snd (geometric_from p q k x) \<le> 64"
proof (induction p q k x rule: geometric_from.induct)
  case (1 p q k x)
  then show ?case
    by (subst geometric_from.simps) (cases "xs_bounded q x", auto simp: Let_def)
qed

lemma geometric_le: "unat (snd (geometric p q x)) \<le> 64"
  using geometric_from_le [of 0 p q x]
  by (simp add: geometric_def case_prod_unfold Let_def unat_of_nat_small)

lemma side_bit: "(ucast (x AND 1 :: u64) :: u8) = 0 \<or> (ucast (x AND 1) :: u8) = 1"
  by (cases "odd x") (simp_all add: and_one_eq mod_2_eq_odd)

section \<open>Removal by swapping\<close>

lemma swap_remove_mset:
  assumes "i < length xs"
  shows "mset xs = add_mset (xs ! i) (mset (swap_remove i xs))"
proof -
  obtain ys z where xs: "xs = ys @ [z]" using assms by (cases xs rule: rev_cases) auto
  show ?thesis
  proof (cases "i = length ys")
    case True
    then show ?thesis by (simp add: swap_remove_def xs)
  next
    case False
    then have i: "i < length ys" using assms xs by simp
    then have "swap_remove i xs = ys[i := z]" by (simp add: swap_remove_def xs list_update_append)
    moreover have "add_mset (ys ! i) (mset (ys[i := z])) = add_mset z (mset ys)"
      using i by (simp add: mset_update add_mset_commute)
    ultimately show ?thesis using i by (simp add: xs nth_append)
  qed
qed

lemma swap_remove_distinct:
  assumes "i < length xs" "distinct (map f xs)"
  shows "distinct (map f (swap_remove i xs))"
    and "set (swap_remove i xs) = {x \<in> set xs. f x \<noteq> f (xs ! i)}"
proof -
  have "mset (map f xs) = add_mset (f (xs ! i)) (mset (map f (swap_remove i xs)))"
    using arg_cong [OF swap_remove_mset [OF assms(1)], of "image_mset f"] by simp
  with assms(2) have "distinct (f (xs ! i) # map f (swap_remove i xs))"
    by (metis mset.simps(2) mset_eq_imp_distinct_iff)
  moreover have "set xs = insert (xs ! i) (set (swap_remove i xs))"
    using arg_cong [OF swap_remove_mset [OF assms(1)], of set_mset] by simp
  ultimately show "distinct (map f (swap_remove i xs))"
    "set (swap_remove i xs) = {x \<in> set xs. f x \<noteq> f (xs ! i)}" by (auto simp: image_iff)
qed

section \<open>The pool mirrors the book\<close>

definition pooled_order :: "pooled \<Rightarrow> order" where
  "pooled_order x = (case x of (oid, price, qty, side) \<Rightarrow>
     \<lparr>or_order_id = oid, or_price = price, or_qty = qty, or_side = (if side = 0 then Bid else Ask)\<rparr>)"

definition pooled_ok :: "pooled \<Rightarrow> bool" where
  "pooled_ok x = (case x of (oid, price, qty, side) \<Rightarrow> oid \<noteq> 0 \<and> qty \<noteq> 0 \<and> (side = 0 \<or> side = 1))"

definition mirrors :: "pooled list \<Rightarrow> order_book \<Rightarrow> bool" where
  "mirrors pool b \<longleftrightarrow> distinct (map fst pool) \<and> (\<forall>x \<in> set pool. pooled_ok x) \<and>
     (\<forall>oid. om_lookup (ob_orders b) oid = map_of (map (\<lambda>x. (fst x, pooled_order x)) pool) oid)"

lemma option_eqI: "(\<And>x. a = Some x \<longleftrightarrow> b = Some x) \<Longrightarrow> a = b"
  by (cases a; cases b) auto

lemma pool_map_Some:
  "distinct (map fst pool) \<Longrightarrow>
   map_of (map (\<lambda>x. (fst x, pooled_order x)) pool) oid = Some ord \<longleftrightarrow> (\<exists>x \<in> set pool. fst x = oid \<and> pooled_order x = ord)"
  by (subst map_of_eq_Some_iff) (auto simp: comp_def)

lemma mirrorsI:
  assumes "distinct (map fst pool)" "\<forall>x \<in> set pool. pooled_ok x"
    "\<And>oid ord. om_lookup (ob_orders b) oid = Some ord \<longleftrightarrow> (\<exists>x \<in> set pool. fst x = oid \<and> pooled_order x = ord)"
  shows "mirrors pool b"
proof -
  have "om_lookup (ob_orders b) oid = Some ord \<longleftrightarrow> map_of (map (\<lambda>x. (fst x, pooled_order x)) pool) oid = Some ord" for oid ord
    by (simp only: assms(3) pool_map_Some [OF assms(1)])
  then have "om_lookup (ob_orders b) oid = map_of (map (\<lambda>x. (fst x, pooled_order x)) pool) oid" for oid
    by (rule option_eqI)
  with assms show ?thesis by (simp add: mirrors_def)
qed

lemma mirrorsD:
  assumes "mirrors pool b"
  shows "distinct (map fst pool)" "\<forall>x \<in> set pool. pooled_ok x"
    "om_lookup (ob_orders b) oid = Some ord \<longleftrightarrow> (\<exists>x \<in> set pool. fst x = oid \<and> pooled_order x = ord)"
  using assms pool_map_Some [of pool oid ord] by (simp_all add: mirrors_def)

lemma mirrors_new: "mirrors [] (ob_new iid)"
  by (simp add: mirrors_def ob_new_def)

lemma mirrors_add:
  assumes m: "mirrors pool b" and e: "ev_order_id e = oid" "ev_price e = price" "ev_qty e = qty" "ev_side e = side"
    and ok: "pooled_ok (oid, price, qty, side)" and fresh: "oid \<notin> fst ` set pool"
  shows "mirrors (pool @ [(oid, price, qty, side)]) (fst (ob_add_order b e))"
proof (rule mirrorsI)
  let ?x = "(oid, price, qty, side)"
  have "side_from_u8 side = Some (if side = 0 then Bid else Ask)"
    using ok by (auto simp: pooled_ok_def side_from_u8_def)
  then have "ob_orders (fst (ob_add_order b e)) = om_insert oid (pooled_order ?x) (ob_orders b)"
    by (simp add: ob_add_order_def e Let_def pooled_order_def)
  then show "om_lookup (ob_orders (fst (ob_add_order b e))) k = Some ord \<longleftrightarrow>
      (\<exists>x \<in> set (pool @ [?x]). fst x = k \<and> pooled_order x = ord)" for k ord
    using mirrorsD(3) [OF m, of k ord] fresh by (auto simp: om_lookup_insert)
qed (use mirrorsD [OF m] ok fresh in auto)

lemma mirrors_remove:
  assumes m: "mirrors pool b" and i: "i < length pool" and b': "ob_orders b' = om_remove (fst (pool ! i)) (ob_orders b)"
  shows "mirrors (swap_remove i pool) b'"
proof (rule mirrorsI)
  note sr = swap_remove_distinct [OF i mirrorsD(1) [OF m]]
  show "distinct (map fst (swap_remove i pool))" by (rule sr(1))
  show "\<forall>x \<in> set (swap_remove i pool). pooled_ok x" using mirrorsD(2) [OF m] sr(2) by auto
  show "om_lookup (ob_orders b') k = Some ord \<longleftrightarrow> (\<exists>x \<in> set (swap_remove i pool). fst x = k \<and> pooled_order x = ord)" for k ord
    using mirrorsD(3) [OF m, of k ord]
    by (cases "k = fst (pool ! i)") (simp_all add: b' om_lookup_remove sr(2) del: split_paired_Ex, blast+)
qed

lemma mirrors_lookup:
  assumes "mirrors pool b" "i < length pool" "pool ! i = (oid, price, qty, side)"
  shows "om_lookup (ob_orders b) oid = Some (pooled_order (oid, price, qty, side))"
    and "pooled_ok (oid, price, qty, side)"
  using mirrorsD(2,3) [OF assms(1)] nth_mem [OF assms(2)] assms(3) by force+

lemma mirrors_fill:
  assumes m: "mirrors pool b" and i: "i < length pool" and x: "pool ! i = (oid, price, qty, side)" and q: "q \<noteq> 0"
    and b': "ob_orders b' = om_insert oid (pooled_order (oid, price, q, side)) (ob_orders b)"
  shows "mirrors (pool[i := (oid, price, q, side)]) b'"
proof (rule mirrorsI)
  let ?y = "(oid, price, q, side)"
  have "map fst (pool[i := ?y]) = map fst pool" using x i by (simp add: map_update list_update_same_conv)
  then show d: "distinct (map fst (pool[i := ?y]))" using mirrorsD(1) [OF m] by simp
  have s: "set (pool[i := ?y]) = insert ?y {z \<in> set pool. fst z \<noteq> oid}"
  proof -
    have "mset (pool[i := ?y]) = add_mset ?y (mset (swap_remove i pool))"
      using swap_remove_mset [OF i] i by (simp add: mset_update)
    then have "set (pool[i := ?y]) = insert ?y (set (swap_remove i pool))"
      by (metis set_mset_add_mset_insert set_mset_mset)
    then show ?thesis using swap_remove_distinct(2) [OF i mirrorsD(1) [OF m]] x by simp
  qed
  show "\<forall>x \<in> set (pool[i := ?y]). pooled_ok x"
    using mirrorsD(2) [OF m] mirrors_lookup(2) [OF m i x] q by (auto simp: s pooled_ok_def)
  show "om_lookup (ob_orders b') k = Some ord \<longleftrightarrow> (\<exists>z \<in> set (pool[i := ?y]). fst z = k \<and> pooled_order z = ord)" for k ord
    using mirrorsD(3) [OF m, of k ord]
    by (cases "k = oid") (simp_all add: s b' om_lookup_insert del: split_paired_Ex, blast+)
qed

section \<open>The contract of a generator step\<close>

lemma bench_event_sel [simp]:
  "ev_ts (bench_event i t side price qty oid) = of_nat i * 1000"
  "ev_price (bench_event i t side price qty oid) = price" "ev_qty (bench_event i t side price qty oid) = qty"
  "ev_order_id (bench_event i t side price qty oid) = oid" "ev_side (bench_event i t side price qty oid) = side"
  "ev_event_type (bench_event i t side price qty oid) = event_type_code t"
  by (simp_all add: bench_event_def)

lemma sequenced_sel [simp]: "se_seq (sequenced n e) = n" "se_event (sequenced n e) = e"
  by (simp_all add: sequenced_def)

lemma is_add_bench [simp]: "is_add (bench_event i t side price qty oid) \<longleftrightarrow> t = OrderAdd"
  by (simp add: is_add_def)

lemma ob_apply_bench [simp]:
  "ob_apply b (bench_event i OrderAdd side price qty oid) = ob_add_order b (bench_event i OrderAdd side price qty oid)"
  "ob_apply b (bench_event i OrderCancel side price qty oid) = ob_cancel_order b (bench_event i OrderCancel side price qty oid)"
  "ob_apply b (bench_event i Trade side price qty oid) = ob_execute_trade b (bench_event i Trade side price qty oid)"
  by (simp_all add: ob_apply_def event_type_from_u8_def)

lemma mirrors_cancel_event:
  assumes m: "mirrors pool b" and i: "i < length pool" and x: "pool ! i = (oid, price, qty, side)"
  shows "mirrors (swap_remove i pool) (fst (ob_apply b (bench_event k OrderCancel side price qty oid)))"
proof (rule mirrors_remove [OF m i])
  show "ob_orders (fst (ob_apply b (bench_event k OrderCancel side price qty oid))) = om_remove (fst (pool ! i)) (ob_orders b)"
    using cancel_full [of b "bench_event k OrderCancel side price qty oid"] mirrors_lookup(1) [OF m i x] x
    by (simp add: pooled_order_def)
qed

lemma trade_orders:
  assumes "om_lookup (ob_orders b) (ev_order_id e) = Some ord"
  shows "ob_orders (fst (ob_execute_trade b e)) =
    (if sat_sub (or_qty ord) (ev_qty e) = 0 then om_remove (ev_order_id e) (ob_orders b)
     else om_insert (ev_order_id e) (ord\<lparr>or_qty := sat_sub (or_qty ord) (ev_qty e)\<rparr>) (ob_orders b))"
  using assms by (simp add: ob_execute_trade_def Let_def)

lemma mirrors_trade_event:
  assumes m: "mirrors pool b" and i: "i < length pool" and x: "pool ! i = (oid, price, qty, side)" and f: "fill \<le> qty"
  shows "mirrors (if qty \<le> fill then swap_remove i pool else pool[i := (oid, price, qty - fill, side)])
    (fst (ob_apply b (bench_event k Trade side price fill oid)))"
proof -
  let ?b' = "fst (ob_apply b (bench_event k Trade side price fill oid))"
  note t = trade_orders [of b "bench_event k Trade side price fill oid", simplified, OF mirrors_lookup(1) [OF m i x]]
  have o': "ob_orders ?b' = (if qty = fill then om_remove oid (ob_orders b)
      else om_insert oid (pooled_order (oid, price, qty - fill, side)) (ob_orders b))"
    using t f by (auto simp: pooled_order_def sat_sub_def)
  show ?thesis
  proof (cases "qty = fill")
    case True
    then show ?thesis using mirrors_remove [OF m i, of ?b'] o' x by simp
  next
    case False
    then have "\<not> qty \<le> fill" "qty - fill \<noteq> 0" using f by auto
    then show ?thesis using mirrors_fill [OF m i x, of "qty - fill" ?b'] o' False by simp
  qed
qed

locale pool_generator = price_band P N for P N +
  fixes step :: "nat \<Rightarrow> bench_gen \<Rightarrow> (bench_gen \<times> event) option" and qmax :: nat
  assumes step_cases: "length (bg_live s) < 2 ^ 64 \<Longrightarrow>
     (\<exists>x side price qty. step i s = Some (bg_add i side price qty (s\<lparr>bg_rng := x\<rparr>)) \<and> side \<le> 1 \<and>
        price \<in> P (if side = 0 then Bid else Ask) \<and> qty \<noteq> 0 \<and> unat qty \<le> qmax) \<or>
     (\<exists>x idx. step i s = bg_cancel i idx (s\<lparr>bg_rng := x\<rparr>) \<and> idx < length (bg_live s)) \<or>
     (\<exists>x idx fill. step i s = bg_trade i idx fill (s\<lparr>bg_rng := x\<rparr>) \<and> idx < length (bg_live s) \<and>
        (\<forall>q. q \<noteq> 0 \<longrightarrow> fill q \<le> q))"
    and qmax_small: "qmax < 2 ^ 32"
begin

definition event_ok :: "event \<Rightarrow> bool" where
  "event_ok e \<longleftrightarrow> banded P e \<and> event_type_from_u8 (ev_event_type e) \<noteq> Some OrderModify \<and>
     (is_add e \<longrightarrow> side_from_u8 (ev_side e) \<noteq> None \<and> unat (ev_qty e) \<le> qmax)"

definition gen_inv :: "bench_gen \<Rightarrow> order_book \<Rightarrow> bool" where
  "gen_inv s b \<longleftrightarrow> mirrors (bg_live s) b \<and> bg_next_order_id s \<noteq> 0 \<and>
     (\<forall>x \<in> set (bg_live s). unat (fst x) < unat (bg_next_order_id s))"

lemma pool_next:
  assumes inv: "gen_inv s b" and idx: "idx < length (bg_live s)" and x: "bg_live s ! idx = (oid, price, qty, side)"
  shows "oid \<noteq> 0" "qty \<noteq> 0" "side = 0 \<or> side = 1" "unat oid < unat (bg_next_order_id s)"
  using mirrors_lookup(2) [of "bg_live s" b idx, OF _ idx x] inv nth_mem [OF idx] x
  by (auto simp: gen_inv_def pooled_ok_def)

lemma step_add:
  assumes inv: "gen_inv s b" and n: "Suc (unat (bg_next_order_id s)) < 2 ^ 64"
    and ok: "side \<le> 1" "price \<in> P (if side = 0 then Bid else Ask)" "qty \<noteq> 0" "unat qty \<le> qmax"
    and r: "bg_add i side price qty s = (s', e)"
  shows "gen_inv s' (fst (ob_apply b e)) \<and> event_ok e \<and> is_add e \<and> ev_order_id e = bg_next_order_id s \<and>
    unat (bg_next_order_id s') = Suc (unat (bg_next_order_id s)) \<and> length (bg_live s') = Suc (length (bg_live s))"
proof -
  have e: "e = bench_event i OrderAdd side price qty (bg_next_order_id s)"
    and s': "s' = s\<lparr>bg_next_order_id := bg_next_order_id s + 1, bg_live := bg_live s @ [(bg_next_order_id s, price, qty, side)]\<rparr>"
    using r by (auto simp: bg_add_def Let_def)
  have suc: "unat (bg_next_order_id s + 1) = Suc (unat (bg_next_order_id s))" using n by (simp add: unat_word_ariths)
  have "mirrors (bg_live s') (fst (ob_add_order b e))"
    unfolding s' using inv ok by (auto simp: e gen_inv_def pooled_ok_def u8_le_1 intro!: mirrors_add)
  moreover have "fst (ob_apply b e) = fst (ob_add_order b e)" by (simp add: e)
  moreover have "bg_next_order_id s' \<noteq> 0" using suc by (auto simp: s')
  ultimately show ?thesis
    using inv ok suc by (auto simp: gen_inv_def s' e event_ok_def banded_def side_from_u8_def event_type_from_u8_def u8_le_1)
qed

lemma step_cancel:
  assumes inv: "gen_inv s b" and idx: "idx < length (bg_live s)"
  shows "\<exists>s' e. bg_cancel i idx s = Some (s', e) \<and> gen_inv s' (fst (ob_apply b e)) \<and> event_ok e \<and> \<not> is_add e \<and>
    bg_next_order_id s' = bg_next_order_id s \<and> length (bg_live s') \<le> length (bg_live s)"
proof -
  obtain oid price qty side where x: "bg_live s ! idx = (oid, price, qty, side)" by (cases "bg_live s ! idx")
  have m: "mirrors (bg_live s) b" using inv by (simp add: gen_inv_def)
  let ?e = "bench_event i OrderCancel side price qty oid" and ?s = "s\<lparr>bg_live := swap_remove idx (bg_live s)\<rparr>"
  have "gen_inv ?s (fst (ob_apply b ?e))"
    using inv mirrors_cancel_event [OF m idx x] swap_remove_distinct(2) [OF idx mirrorsD(1) [OF m]]
    by (auto simp: gen_inv_def)
  moreover have "event_ok ?e" using pool_next [OF inv idx x] by (simp add: event_ok_def banded_def event_type_from_u8_def)
  ultimately show ?thesis
    using idx by (intro exI [of _ ?s] exI [of _ ?e]) (simp add: bg_cancel_def x swap_remove_def)
qed

lemma step_trade:
  assumes inv: "gen_inv s b" and idx: "idx < length (bg_live s)" and f: "\<And>q. q \<noteq> 0 \<Longrightarrow> fill q \<le> q"
  shows "\<exists>s' e. bg_trade i idx fill s = Some (s', e) \<and> gen_inv s' (fst (ob_apply b e)) \<and> event_ok e \<and> \<not> is_add e \<and>
    bg_next_order_id s' = bg_next_order_id s \<and> length (bg_live s') \<le> length (bg_live s)"
proof -
  obtain oid price qty side where x: "bg_live s ! idx = (oid, price, qty, side)" by (cases "bg_live s ! idx")
  have m: "mirrors (bg_live s) b" using inv by (simp add: gen_inv_def)
  note p = pool_next [OF inv idx x]
  let ?pool = "if qty \<le> fill qty then swap_remove idx (bg_live s) else (bg_live s)[idx := (oid, price, qty - fill qty, side)]"
  let ?e = "bench_event i Trade side price (fill qty) oid" and ?s = "s\<lparr>bg_live := ?pool\<rparr>"
  have "set ?pool \<subseteq> set (bg_live s) \<union> {(oid, price, qty - fill qty, side)}"
    using swap_remove_distinct(2) [OF idx mirrorsD(1) [OF m]] set_update_subset_insert [of "bg_live s" idx] by auto
  then have "\<forall>x \<in> set ?pool. unat (fst x) < unat (bg_next_order_id s)"
    using inv p(4) by (fastforce simp: gen_inv_def)
  then have "gen_inv ?s (fst (ob_apply b ?e))"
    using inv mirrors_trade_event [OF m idx x f [OF p(2)], of i] by (simp add: gen_inv_def)
  moreover have "event_ok ?e" using p by (simp add: event_ok_def banded_def event_type_from_u8_def)
  ultimately show ?thesis
    using idx by (intro exI [of _ ?s] exI [of _ ?e]) (simp add: bg_trade_def x swap_remove_def Let_def)
qed

lemma gen_inv_rng [simp]: "gen_inv (s\<lparr>bg_rng := x\<rparr>) b = gen_inv s b"
  by (simp add: gen_inv_def)

lemma step_ok:
  assumes inv: "gen_inv s b" and n: "Suc (unat (bg_next_order_id s)) < 2 ^ 64" and l: "length (bg_live s) < 2 ^ 64"
  shows "\<exists>s' e. step i s = Some (s', e) \<and> gen_inv s' (fst (ob_apply b e)) \<and> event_ok e \<and>
    (is_add e \<longrightarrow> ev_order_id e = bg_next_order_id s) \<and>
    unat (bg_next_order_id s') = unat (bg_next_order_id s) + (if is_add e then 1 else 0) \<and>
    length (bg_live s') \<le> Suc (length (bg_live s))"
  using step_cases [OF l, of i]
proof (elim disjE exE conjE)
  fix x side price qty
  assume "step i s = Some (bg_add i side price qty (s\<lparr>bg_rng := x\<rparr>))" "side \<le> 1"
    "price \<in> P (if side = 0 then Bid else Ask)" "qty \<noteq> 0" "unat qty \<le> qmax"
  then show ?thesis
    using step_add [of "s\<lparr>bg_rng := x\<rparr>" b side price qty i] inv n
    by (cases "bg_add i side price qty (s\<lparr>bg_rng := x\<rparr>)") auto
next
  fix x idx
  assume "step i s = bg_cancel i idx (s\<lparr>bg_rng := x\<rparr>)" "idx < length (bg_live s)"
  then show ?thesis
    using step_cancel [of "s\<lparr>bg_rng := x\<rparr>" b idx i] inv by fastforce
next
  fix x idx fill
  assume "step i s = bg_trade i idx fill (s\<lparr>bg_rng := x\<rparr>)" "idx < length (bg_live s)" "\<forall>q. q \<noteq> 0 \<longrightarrow> fill q \<le> q"
  then show ?thesis
    using step_trade [of "s\<lparr>bg_rng := x\<rparr>" b idx fill i] inv by fastforce
qed

lemma loop_ok:
  "gen_inv s b \<Longrightarrow> unat (bg_next_order_id s) + length is < 2 ^ 64 \<Longrightarrow> length (bg_live s) + length is < 2 ^ 64 \<Longrightarrow>
   \<exists>s' es. bg_loop step is s = Some (s', es) \<and> map se_seq es = map (\<lambda>i. of_nat i + 1) is \<and>
     (\<forall>e \<in> set (map se_event es). event_ok e) \<and> gen_inv s' (ob_run b (map se_event es)) \<and>
     distinct (map ev_order_id (filter is_add (map se_event es))) \<and>
     (\<forall>e \<in> set (filter is_add (map se_event es)).
        unat (bg_next_order_id s) \<le> unat (ev_order_id e) \<and> unat (ev_order_id e) < unat (bg_next_order_id s')) \<and>
     unat (bg_next_order_id s) \<le> unat (bg_next_order_id s') \<and>
     unat (bg_next_order_id s') \<le> unat (bg_next_order_id s) + length is"
proof (induction "is" arbitrary: s b)
  case Nil
  then show ?case by (simp add: ob_run_def)
next
  case (Cons i "is")
  obtain s1 e where 1: "step i s = Some (s1, e)" "gen_inv s1 (fst (ob_apply b e))" "event_ok e"
      "is_add e \<longrightarrow> ev_order_id e = bg_next_order_id s"
      "unat (bg_next_order_id s1) = unat (bg_next_order_id s) + (if is_add e then 1 else 0)"
      "length (bg_live s1) \<le> Suc (length (bg_live s))"
    using step_ok [OF Cons.prems(1), of i] Cons.prems(2,3) by auto
  have "unat (bg_next_order_id s1) + length is < 2 ^ 64" "length (bg_live s1) + length is < 2 ^ 64"
    using 1(5,6) Cons.prems(2,3) by (auto split: if_splits)
  with Cons.IH [OF 1(2)] obtain s' es where 2: "bg_loop step is s1 = Some (s', es)"
      "map se_seq es = map (\<lambda>i. of_nat i + 1) is" "\<forall>e \<in> set (map se_event es). event_ok e"
      "gen_inv s' (ob_run (fst (ob_apply b e)) (map se_event es))"
      "distinct (map ev_order_id (filter is_add (map se_event es)))"
      "\<forall>e \<in> set (filter is_add (map se_event es)).
        unat (bg_next_order_id s1) \<le> unat (ev_order_id e) \<and> unat (ev_order_id e) < unat (bg_next_order_id s')"
      "unat (bg_next_order_id s1) \<le> unat (bg_next_order_id s')"
      "unat (bg_next_order_id s') \<le> unat (bg_next_order_id s1) + length is"
    by blast
  let ?es = "sequenced (of_nat i + 1) e # es"
  have "ev_order_id e \<notin> ev_order_id ` set (filter is_add (map se_event es))" if "is_add e"
    using that 2(6) 1(4,5) by fastforce
  then have "distinct (map ev_order_id (filter is_add (map se_event ?es)))" using 2(5) by simp
  moreover have "\<forall>x \<in> set (filter is_add (map se_event ?es)).
      unat (bg_next_order_id s) \<le> unat (ev_order_id x) \<and> unat (ev_order_id x) < unat (bg_next_order_id s')"
    using 2(6,7) 1(4,5) by (auto split: if_splits)
  moreover have "bg_loop step (i # is) s = Some (s', ?es)" using 1(1) 2(1) by simp
  moreover have "\<forall>e \<in> set (map se_event ?es). event_ok e" using 1(3) 2(3) by simp
  moreover have "gen_inv s' (ob_run b (map se_event ?es))" using 2(4) by (simp add: ob_run_def)
  moreover have "unat (bg_next_order_id s') \<le> unat (bg_next_order_id s) + length (i # is)"
    using 2(8) 1(5) by (simp split: if_splits)
  moreover have "unat (bg_next_order_id s) \<le> unat (bg_next_order_id s')" using 2(7) 1(5) by (simp split: if_splits)
  ultimately show ?case using 2(2) by (intro exI [of _ s'] exI [of _ ?es]) simp
qed

lemma events_fresh:
  assumes "\<forall>e \<in> set es. event_ok e" "distinct (map ev_order_id (filter is_add es))" "length es < 2 ^ 32"
  shows "fresh_stream es"
proof -
  have "(\<Sum>e\<leftarrow>filter is_add es. unat (ev_qty e)) \<le> (\<Sum>e\<leftarrow>filter is_add es. qmax)"
    using assms(1) by (intro sum_list_mono) (auto simp: event_ok_def)
  also have "\<dots> = length (filter is_add es) * qmax" by (simp add: sum_list_triv)
  also have "\<dots> \<le> length es * qmax" by simp
  also have "\<dots> < 2 ^ 32 * 2 ^ 32" using assms(3) qmax_small by (intro mult_strict_mono) simp_all
  finally show ?thesis using assms by (auto simp: fresh_stream_def event_ok_def)
qed

text \<open>The whole run: no panic, a gapless sequence, agreement of the books, and the pool as the set of resting orders.\<close>

lemma stream_events:
  assumes n: "n < 2 ^ 32"
  shows "\<exists>s es. bg_loop step [0..<n] (bg_init seed) = Some (s, es) \<and> map se_seq es = map (\<lambda>i. of_nat i + 1) [0..<n] \<and>
    (\<forall>e \<in> set (map se_event es). banded P e \<and> (is_add e \<longrightarrow> unat (ev_order_id e) \<le> n)) \<and>
    fresh_stream (map se_event es) \<and> mirrors (bg_live s) (ob_run (ob_new iid) (map se_event es))"
proof -
  have "gen_inv (bg_init seed) (ob_new iid)" by (simp add: gen_inv_def bg_init_def mirrors_new)
  from loop_ok [OF this, of "[0..<n]"] n obtain s es where es: "bg_loop step [0..<n] (bg_init seed) = Some (s, es)"
      "map se_seq es = map (\<lambda>i. of_nat i + 1) [0..<n]" "\<forall>e \<in> set (map se_event es). event_ok e"
      "gen_inv s (ob_run (ob_new iid) (map se_event es))"
      "distinct (map ev_order_id (filter is_add (map se_event es)))"
      "\<forall>e \<in> set (filter is_add (map se_event es)). unat (ev_order_id e) < unat (bg_next_order_id s)"
      "unat (bg_next_order_id s) \<le> Suc n"
    by (auto simp: bg_init_def)
  have len: "length (map se_event es) = n" using arg_cong [OF es(2), of length] by simp
  then have "fresh_stream (map se_event es)" using events_fresh [OF es(3,5)] n by simp
  moreover have "\<forall>e \<in> set (map se_event es). banded P e \<and> (is_add e \<longrightarrow> unat (ev_order_id e) \<le> n)"
    using es(3,6,7) by (fastforce simp: event_ok_def)
  ultimately show ?thesis using es(1,2,4) by (auto simp: gen_inv_def)
qed

lemma stream_sound:
  assumes n: "n < 2 ^ 32"
  shows "\<exists>s es. bg_loop step [0..<n] (bg_init seed) = Some (s, es) \<and> map se_seq es = map (\<lambda>i. of_nat i + 1) [0..<n] \<and>
    book_rel N (hb_run N (hb_new N iid) (map se_event es)) (ob_run (ob_new iid) (map se_event es)) \<and>
    consistent (ob_run (ob_new iid) (map se_event es)) \<and> in_band P (ob_run (ob_new iid) (map se_event es)) \<and>
    mirrors (bg_live s) (ob_run (ob_new iid) (map se_event es))"
proof -
  obtain s es where es: "bg_loop step [0..<n] (bg_init seed) = Some (s, es)"
      "map se_seq es = map (\<lambda>i. of_nat i + 1) [0..<n]" "\<forall>e \<in> set (map se_event es). banded P e"
      "fresh_stream (map se_event es)" "mirrors (bg_live s) (ob_run (ob_new iid) (map se_event es))"
    using stream_events [OF n, of seed iid] by blast
  have l: "length (map se_event es) \<le> 2 ^ 32" using es(4) by (simp add: fresh_stream_def)
  show ?thesis
    using es(1,2,5) band_run(2,3) [OF es(3) l, of iid] fresh_run [OF es(4), of iid] by blast
qed

end

section \<open>The realistic and the bursty stream\<close>

definition market_ok :: "market_config \<Rightarrow> bool" where
  "market_ok cfg \<longleftrightarrow> 0 < mc_mid_price cfg \<and> 0 < mc_tick_size cfg \<and>
     unat (mc_mid_price cfg) + 65 * unat (mc_tick_size cfg) < 2 ^ 64"

definition market_band :: "market_config \<Rightarrow> side \<Rightarrow> u64 set" where
  "market_band cfg sd =
     (\<lambda>k. level_price cfg (of_nat k) (side_code sd)) ` {k. k \<le> 64 \<and> k \<le> unat (mc_max_levels cfg - 1)}"

lemma bg_place_ok:
  assumes "bg_place cfg x = (x', side, price)"
  shows "side \<le> 1 \<and> price \<in> market_band cfg (if side = 0 then Bid else Ask)"
proof -
  obtain y g where g: "geometric (mc_top_concentration cfg) 100 x = (y, g)" by fastforce
  let ?off = "min g (mc_max_levels cfg - 1)"
  have off: "unat ?off \<le> 64" "unat ?off \<le> unat (mc_max_levels cfg - 1)" using geometric_le [of "mc_top_concentration cfg" 100 x] g
    by (auto simp: min_def word_le_nat_alt)
  have s: "side = ucast (xs_next_u64 y AND 1)" and p: "price = level_price cfg ?off side"
    using assms by (auto simp: bg_place_def g Let_def)
  have side: "side = 0 \<or> side = 1" using side_bit s by blast
  then have "side = side_code (if side = 0 then Bid else Ask)" by auto
  with off p have "price \<in> market_band cfg (if side = 0 then Bid else Ask)"
    unfolding market_band_def by (intro image_eqI [of _ _ "unat ?off"]) auto
  with side show ?thesis by (simp add: u8_le_1)
qed

lemma pool_index_bound:
  assumes "pool_index s x = (x', idx)" "bg_live s \<noteq> []" "length (bg_live s) < 2 ^ 64"
  shows "idx < length (bg_live s)"
proof -
  have n: "unat (of_nat (length (bg_live s)) :: u64) = length (bg_live s)" using assms(3) by (simp add: unat_of_nat_small)
  then have "0 < (of_nat (length (bg_live s)) :: u64)" using assms(2) by (simp add: word_less_nat_alt)
  from xs_bounded_less [OF this, of x] show ?thesis
    using assms(1) n by (auto simp: pool_index_def case_prod_unfold Let_def word_less_nat_alt)
qed

lemma realistic_cancel_index_bound:
  assumes "realistic_cancel_index s x = (x', idx)" "bg_live s \<noteq> []" "length (bg_live s) < 2 ^ 64"
  shows "idx < length (bg_live s)"
  using assms pool_index_bound [OF _ assms(2,3)]
  by (auto simp: realistic_cancel_index_def case_prod_unfold Let_def split: if_splits)

lemma bounded_qty:
  assumes "xs_bounded n x = (y, v)" "0 < n"
  shows "unat v < unat n"
  using assms xs_bounded_less [OF assms(2), of x] by (simp add: word_less_nat_alt)

lemma realistic_qty_ok:
  assumes "realistic_qty x = (y, qty)"
  shows "qty \<noteq> 0 \<and> unat qty \<le> 5841"
proof -
  obtain x1 q where 1: "xs_bounded 90 x = (x1, q)" by fastforce
  obtain x2 r where 2: "xs_bounded 100 x1 = (x2, r)" by fastforce
  obtain x3 m where 3: "xs_bounded 50 x2 = (x3, m)" by fastforce
  have q: "unat q < 90" using bounded_qty [OF 1] by simp
  have m: "unat m < 50" using bounded_qty [OF 3] by simp
  have base: "unat (10 + q) = 10 + unat q" using q by (simp add: unat_word_ariths)
  have mult: "unat (10 + m) = 10 + unat m" using m by (simp add: unat_word_ariths)
  have le: "(10 + unat q) * (10 + unat m) \<le> 99 * 59" using q m by (intro mult_le_mono) simp_all
  then have prod: "unat ((10 + q) * (10 + m)) = (10 + unat q) * (10 + unat m)"
    by (simp add: unat_word_ariths(2) base mult)
  have "unat qty = 10 + unat q \<or> unat qty = (10 + unat q) * (10 + unat m)"
    using assms base prod by (auto simp: realistic_qty_def 1 2 3 Let_def split: if_splits)
  then have "0 < unat qty \<and> unat qty \<le> 5841" using le q by auto
  then show ?thesis by (auto simp: unat_gt_0)
qed

lemma fill_le: "q \<noteq> 0 \<Longrightarrow> max (q div 2) 1 \<le> (q :: u64)"
  by (auto simp: word_le_nat_alt unat_div max_def unat_eq_0 Suc_leI unat_gt_0)

lemma market_price_band: "price_band (market_band cfg) 256"
proof
  fix sd
  have sub: "market_band cfg sd \<subseteq> (\<lambda>k. level_price cfg (of_nat k) (side_code sd)) ` {..64}"
    by (auto simp: market_band_def)
  then show "finite (market_band cfg sd)" by (rule finite_subset) simp
  have "card (market_band cfg sd) \<le> card ((\<lambda>k. level_price cfg (of_nat k) (side_code sd)) ` {..64})"
    using sub by (rule card_mono [rotated]) simp
  also have "\<dots> \<le> card {..64 :: nat}" by (rule card_image_le) simp
  finally show "card (market_band cfg sd) \<le> 256" by simp
qed simp

interpretation realistic: pool_generator "market_band cfg" 256 "realistic_step cfg" 5841 for cfg
proof (intro pool_generator.intro market_price_band pool_generator_axioms.intro)
  fix s :: bench_gen and i
  assume l: "length (bg_live s) < 2 ^ 64"
  obtain x roll where 0: "xs_bounded 100 (bg_rng s) = (x, roll)" by fastforce
  obtain x1 side price where 1: "bg_place cfg x = (x1, side, price)" by (cases "bg_place cfg x")
  obtain x2 qty where 2: "realistic_qty x1 = (x2, qty)" by fastforce
  obtain x3 ci where 3: "realistic_cancel_index s x = (x3, ci)" by fastforce
  obtain x4 ti where 4: "pool_index s x = (x4, ti)" by fastforce
  obtain x5 r where 5: "xs_bounded 100 x4 = (x5, r)" by fastforce
  let ?fill = "\<lambda>qty :: u64. if r < 30 then qty else max (qty div 2) 1"
  consider (add) "roll < 60 \<or> bg_live s = []"
    | (cancel) "\<not> roll < 60" "bg_live s \<noteq> []" "roll < 85"
    | (trade) "\<not> roll < 60" "bg_live s \<noteq> []" "\<not> roll < 85" by blast
  then show "(\<exists>x side price qty. realistic_step cfg i s = Some (bg_add i side price qty (s\<lparr>bg_rng := x\<rparr>)) \<and> side \<le> 1 \<and>
        price \<in> market_band cfg (if side = 0 then Bid else Ask) \<and> qty \<noteq> 0 \<and> unat qty \<le> 5841) \<or>
     (\<exists>x idx. realistic_step cfg i s = bg_cancel i idx (s\<lparr>bg_rng := x\<rparr>) \<and> idx < length (bg_live s)) \<or>
     (\<exists>x idx fill. realistic_step cfg i s = bg_trade i idx fill (s\<lparr>bg_rng := x\<rparr>) \<and> idx < length (bg_live s) \<and>
        (\<forall>q. q \<noteq> 0 \<longrightarrow> fill q \<le> q))"
  proof cases
    case add
    then have "realistic_step cfg i s = Some (bg_add i side price qty (s\<lparr>bg_rng := x2\<rparr>))"
      by (simp add: realistic_step_def 0 1 2)
    with bg_place_ok [OF 1] realistic_qty_ok [OF 2] show ?thesis by blast
  next
    case cancel
    then have "realistic_step cfg i s = bg_cancel i ci (s\<lparr>bg_rng := x3\<rparr>)"
      by (simp add: realistic_step_def 0 3)
    with realistic_cancel_index_bound [OF 3 cancel(2) l] show ?thesis by blast
  next
    case trade
    then have "realistic_step cfg i s = bg_trade i ti ?fill (s\<lparr>bg_rng := x5\<rparr>)"
      by (simp add: realistic_step_def 0 4 5)
    moreover have "\<forall>q. q \<noteq> 0 \<longrightarrow> ?fill q \<le> q" using fill_le by simp
    ultimately show ?thesis using pool_index_bound [OF 4 trade(2) l] by blast
  qed
qed simp

interpretation bursty: pool_generator "market_band cfg" 256 "bursty_step cfg" 99 for cfg
proof (intro pool_generator.intro market_price_band pool_generator_axioms.intro)
  fix s :: bench_gen and i
  assume l: "length (bg_live s) < 2 ^ 64"
  obtain x roll where 0: "xs_bounded 100 (bg_rng s) = (x, roll)" by fastforce
  obtain x1 side price where 1: "bg_place cfg x = (x1, side, price)" by (cases "bg_place cfg x")
  obtain x2 q where 2: "xs_bounded 90 x1 = (x2, q)" by fastforce
  obtain x4 ti where 4: "pool_index s x = (x4, ti)" by fastforce
  have "unat q < 90" using bounded_qty [OF 2] by simp
  then have q: "unat (10 + q) = 10 + unat q" "10 + unat q \<le> 99" by (simp_all add: unat_word_ariths)
  then have qty: "10 + q \<noteq> 0" "unat (10 + q) \<le> 99" by (auto simp: unat_eq_0 [symmetric] simp del: unat_eq_0)
  consider (add) "roll < 35 \<or> bg_live s = []"
    | (cancel) "\<not> roll < 35" "bg_live s \<noteq> []" "roll < 90"
    | (trade) "\<not> roll < 35" "bg_live s \<noteq> []" "\<not> roll < 90" by blast
  then show "(\<exists>x side price qty. bursty_step cfg i s = Some (bg_add i side price qty (s\<lparr>bg_rng := x\<rparr>)) \<and> side \<le> 1 \<and>
        price \<in> market_band cfg (if side = 0 then Bid else Ask) \<and> qty \<noteq> 0 \<and> unat qty \<le> 99) \<or>
     (\<exists>x idx. bursty_step cfg i s = bg_cancel i idx (s\<lparr>bg_rng := x\<rparr>) \<and> idx < length (bg_live s)) \<or>
     (\<exists>x idx fill. bursty_step cfg i s = bg_trade i idx fill (s\<lparr>bg_rng := x\<rparr>) \<and> idx < length (bg_live s) \<and>
        (\<forall>q. q \<noteq> 0 \<longrightarrow> fill q \<le> q))"
  proof cases
    case add
    then have "bursty_step cfg i s = Some (bg_add i side price (10 + q) (s\<lparr>bg_rng := x2\<rparr>))"
      by (simp add: bursty_step_def 0 1 2)
    with bg_place_ok [OF 1] qty show ?thesis by blast
  next
    case cancel
    then have "bursty_step cfg i s = bg_cancel i ti (s\<lparr>bg_rng := x4\<rparr>)" by (simp add: bursty_step_def 0 4)
    with pool_index_bound [OF 4 cancel(2) l] show ?thesis by blast
  next
    case trade
    then have "bursty_step cfg i s = bg_trade i ti (\<lambda>qty. max (qty div 2) 1) (s\<lparr>bg_rng := x4\<rparr>)"
      by (simp add: bursty_step_def 0 4)
    with pool_index_bound [OF 4 trade(2) l] fill_le show ?thesis by blast
  qed
qed simp

lemma market_band_separated:
  assumes "market_ok cfg" "p \<in> market_band cfg Bid" "q \<in> market_band cfg Ask"
  shows "p < q"
proof -
  obtain k j where k: "p = level_price cfg (of_nat k) 0" and j: "j \<le> 64" "q = level_price cfg (of_nat j) 1"
    using assms(2,3) by (auto simp: market_band_def)
  have m: "0 < mc_mid_price cfg" and t: "0 < mc_tick_size cfg"
    and w: "unat (mc_mid_price cfg) + 65 * unat (mc_tick_size cfg) < 2 ^ 64"
    using assms(1) by (simp_all add: market_ok_def)
  have "p \<le> mc_mid_price cfg"
    using m sat_sub_le [of "mc_mid_price cfg"] by (auto simp: k level_price_def max_def word_le_nat_alt word_less_nat_alt)
  moreover have "mc_mid_price cfg < q"
  proof -
    let ?d = "(of_nat j + 1) * mc_tick_size cfg"
    have j1: "unat (of_nat j + 1 :: u64) = j + 1" using j(1) by (simp add: unat_word_ariths unat_of_nat)
    have le: "(j + 1) * unat (mc_tick_size cfg) \<le> 65 * unat (mc_tick_size cfg)" using j(1) by (intro mult_le_mono1) simp
    then have "(j + 1) * unat (mc_tick_size cfg) < 2 ^ 64" using w by linarith
    then have d: "unat ?d = (j + 1) * unat (mc_tick_size cfg)" by (simp add: unat_word_ariths(2) j1)
    have "unat (mc_mid_price cfg) + unat ?d < 2 ^ 64" using le w d by linarith
    then have "unat (mc_mid_price cfg + ?d) = unat (mc_mid_price cfg) + unat ?d" by (simp add: unat_word_ariths(1))
    moreover have "0 < unat ?d" using t d by (simp add: word_less_nat_alt)
    ultimately show ?thesis by (simp add: j(2) level_price_def word_less_nat_alt)
  qed
  ultimately show ?thesis by (rule le_less_trans)
qed

lemma market_uncrossed:
  assumes "market_ok cfg" "in_band (market_band cfg) b"
  shows "uncrossed b"
  using price_band.in_band_uncrossed [OF market_price_band assms(2)] market_band_separated [OF assms(1)] by blast

text \<open>What a stream of the benchmarks guarantees of the books that replay it.\<close>

definition replays_soundly :: "(bytes \<Rightarrow> u64) \<Rightarrow> (bytes \<Rightarrow> u64 \<Rightarrow> u64) \<Rightarrow> u32 \<Rightarrow> event list \<Rightarrow> bool" where
  "replays_soundly xxh xxs iid es \<longleftrightarrow>
     hb_canonical_l2_hash xxh xxs (hb_run 256 (hb_new 256 iid) es) = ob_canonical_l2_hash xxh xxs (ob_run (ob_new iid) es) \<and>
     consistent (ob_run (ob_new iid) es) \<and> uncrossed (ob_run (ob_new iid) es)"

text \<open>
  Property C33. The realistic benchmark stream, for every market whose prices do not overflow and every length:
  generating it never panics, its sequence numbers are 1 to n, \<open>HotOrderBook<256>\<close> and the reference book agree on it,
  the levels are the sums of the resting orders, the book never crosses, and at the end the generator's pool of live
  orders is exactly the set of resting orders of the book, with their remaining quantities.
\<close>

theorem realistic_stream_sound:
  assumes "market_ok cfg" and "n < 2 ^ 32"
  shows "\<exists>s es. bg_loop (realistic_step cfg) [0..<n] (bg_init (mc_seed cfg)) = Some (s, es) \<and>
    realistic_events n cfg = Some es \<and> map se_seq es = map (\<lambda>i. of_nat i + 1) [0..<n] \<and>
    replays_soundly xxh xxs iid (map se_event es) \<and> mirrors (bg_live s) (ob_run (ob_new iid) (map se_event es))"
proof -
  obtain s es where r: "bg_loop (realistic_step cfg) [0..<n] (bg_init (mc_seed cfg)) = Some (s, es)"
      "map se_seq es = map (\<lambda>i. of_nat i + 1) [0..<n]"
      "book_rel 256 (hb_run 256 (hb_new 256 iid) (map se_event es)) (ob_run (ob_new iid) (map se_event es))"
      "consistent (ob_run (ob_new iid) (map se_event es))" "in_band (market_band cfg) (ob_run (ob_new iid) (map se_event es))"
      "mirrors (bg_live s) (ob_run (ob_new iid) (map se_event es))"
    using realistic.stream_sound [OF assms(2), of cfg "mc_seed cfg" iid] by blast
  have "uncrossed (ob_run (ob_new iid) (map se_event es))"
    by (rule market_uncrossed [OF assms(1) r(5)])
  with r rel_hash [OF r(3), of xxh xxs] show ?thesis
    by (intro exI [of _ s] exI [of _ es]) (simp add: realistic_events_def replays_soundly_def)
qed

lemma market_config_default_ok: "market_ok market_config_default"
  by (simp add: market_ok_def market_config_default_def)

theorem realistic_stream_sound_witness:
  "\<exists>s es. bg_loop (realistic_step market_config_default) [0..<1000] (bg_init (mc_seed market_config_default)) = Some (s, es) \<and>
    realistic_events 1000 market_config_default = Some es \<and> map se_seq es = map (\<lambda>i. of_nat i + 1) [0..<1000] \<and>
    replays_soundly (\<lambda>_. 11) (\<lambda>bs s. s + 1) 1 (map se_event es) \<and>
    mirrors (bg_live s) (ob_run (ob_new 1) (map se_event es))"
  by (rule realistic_stream_sound [OF market_config_default_ok]) simp

text \<open>The bursty stream makes the same promises.\<close>

theorem bursty_stream_sound:
  assumes "market_ok cfg" and "n < 2 ^ 32"
  shows "\<exists>s es. bg_loop (bursty_step cfg) [0..<n] (bg_init (mc_seed cfg + 0x42)) = Some (s, es) \<and>
    bursty_events n cfg = Some es \<and> map se_seq es = map (\<lambda>i. of_nat i + 1) [0..<n] \<and>
    replays_soundly xxh xxs iid (map se_event es) \<and> mirrors (bg_live s) (ob_run (ob_new iid) (map se_event es))"
proof -
  obtain s es where r: "bg_loop (bursty_step cfg) [0..<n] (bg_init (mc_seed cfg + 0x42)) = Some (s, es)"
      "map se_seq es = map (\<lambda>i. of_nat i + 1) [0..<n]"
      "book_rel 256 (hb_run 256 (hb_new 256 iid) (map se_event es)) (ob_run (ob_new iid) (map se_event es))"
      "consistent (ob_run (ob_new iid) (map se_event es))" "in_band (market_band cfg) (ob_run (ob_new iid) (map se_event es))"
      "mirrors (bg_live s) (ob_run (ob_new iid) (map se_event es))"
    using bursty.stream_sound [OF assms(2), of cfg "mc_seed cfg + 0x42" iid] by blast
  have "uncrossed (ob_run (ob_new iid) (map se_event es))"
    by (rule market_uncrossed [OF assms(1) r(5)])
  with r rel_hash [OF r(3), of xxh xxs] show ?thesis
    by (intro exI [of _ s] exI [of _ es]) (simp add: bursty_events_def replays_soundly_def)
qed

end
