(* ===== verification/FL_BenchCrash.thy ===== *)
theory FL_BenchCrash
  imports FL_BenchGenProperties
begin

text \<open>
  The crashy stream and the isolated workloads. The injected crash of \<open>crashy_events\<close> keeps the sequence gapless,
  but it cancels orders that were never added and prints outside the live levels, so that a book which replays the
  stream ends as if the crash had not happened.
\<close>

section \<open>Events the hot book ignores\<close>

lemma hb_apply_ts [simp]: "hb_apply N h (e\<lparr>ev_ts := t\<rparr>) = hb_apply N h e"
proof -
  have "hb_add_order N h (e\<lparr>ev_ts := t\<rparr>) = hb_add_order N h e" for h by (simp add: hb_add_order_def Let_def)
  moreover have "hb_cancel_order h (e\<lparr>ev_ts := t\<rparr>) = hb_cancel_order h e"
    by (simp add: hb_cancel_order_def Let_def split: option.split)
  moreover have "hb_trade h (e\<lparr>ev_ts := t\<rparr>) = hb_trade h e"
    by (simp add: hb_trade_def Let_def split: option.split)
  ultimately show ?thesis by (simp add: hb_apply_def split: option.split event_type.split)
qed

definition crash_inert :: "u64 \<Rightarrow> hot_book \<Rightarrow> bool" where
  "crash_inert mid h \<longleftrightarrow> (\<forall>d. grid_inv 256 d (hb_grid d h)) \<and>
     (\<forall>oid. 10000000 \<le> unat oid \<longrightarrow> slab_get (hb_orders h) oid = None) \<and>
     (\<forall>d. glook (hb_grid d h) (crash_price mid (if d then 0 else 1) 51) = None)"

lemma hb_cancel_unknown: "slab_get (hb_orders h) (ev_order_id e) = None \<Longrightarrow> ev_order_id e \<noteq> 0 \<Longrightarrow> fst (hb_cancel_order h e) = h"
  by (simp add: hb_cancel_order_def Let_def)

lemma hb_trade_absent:
  assumes "grid_inv N (ev_side e = 0) (hb_grid (ev_side e = 0) h)" "ev_order_id e = 0"
    "glook (hb_grid (ev_side e = 0) h) (ev_price e) = None"
  shows "fst (hb_trade h e) = h"
  using assms find_level_correct [OF assms(1), of "ev_price e"]
  by (auto simp: hb_trade_def hb_trade_anon_def Let_def split: option.splits)

lemma hb_apply_bench:
  "hb_apply N h (crash_event ts OrderCancel side price qty oid) = hb_cancel_order h (bench_event 0 OrderCancel side price qty oid)"
  "hb_apply N h (crash_event ts Trade side price qty oid) = hb_trade h (bench_event 0 Trade side price qty oid)"
  by (simp_all only: crash_event_def hb_apply_ts) (simp_all add: hb_apply_def event_type_from_u8_def)

lemma sweep_inert:
  "crash_inert mid h \<Longrightarrow> 10000000 \<le> unat (cg_next_order_id g) \<Longrightarrow> unat (cg_next_order_id g) + length ks < 2 ^ 64 \<Longrightarrow>
   hb_run N h (map se_event (snd (crash_sweep mid side ks g))) = h \<and>
   unat (cg_next_order_id (fst (crash_sweep mid side ks g))) = unat (cg_next_order_id g) + length ks"
proof (induction ks arbitrary: g)
  case (Cons k ks)
  let ?g = "g\<lparr>cg_seq := cg_seq g + 1, cg_ts := cg_ts g + 1000, cg_next_order_id := cg_next_order_id g + 1\<rparr>"
  have n: "unat (cg_next_order_id g + 1) = Suc (unat (cg_next_order_id g))"
    using Cons.prems(3) by (simp add: unat_word_ariths)
  have "slab_get (hb_orders h) (cg_next_order_id g) = None" using Cons.prems(1,2) by (simp add: crash_inert_def)
  then have "fst (hb_cancel_order h (bench_event 0 OrderCancel side price 100 (cg_next_order_id g))) = h" for price
    using Cons.prems(2) by (intro hb_cancel_unknown) (auto simp: unat_0)
  with Cons.IH [of ?g] Cons.prems n show ?case
    by (simp add: hb_run_def hb_apply_bench case_prod_unfold Let_def)
qed (simp add: hb_run_def)

lemma prints_inert:
  assumes "crash_inert mid h" "side \<le> 1"
  shows "hb_run N h (map se_event (snd (crash_prints mid side n g))) = h \<and>
    cg_next_order_id (fst (crash_prints mid side n g)) = cg_next_order_id g"
proof (induction n arbitrary: g)
  case (Suc n)
  have "glook (hb_grid (side = 0) h) (crash_price mid side 51) = None"
    using assms by (auto simp: crash_inert_def u8_le_1 dest: spec [of _ "side = 0"])
  then have "fst (hb_trade h (bench_event 0 Trade side (crash_price mid side 51) 50 0)) = h"
    using assms(1) by (intro hb_trade_absent [of 256]) (simp_all add: crash_inert_def)
  with Suc.IH show ?case by (simp add: hb_run_def hb_apply_bench case_prod_unfold Let_def)
qed (simp add: hb_run_def)

lemma burst_inert:
  assumes i: "crash_inert mid h" and n: "10000000 \<le> unat (cg_next_order_id g)" "unat (cg_next_order_id g) + 50 < 2 ^ 64"
  shows "hb_run N h (map se_event (snd (crash_burst mid g))) = h \<and>
    unat (cg_next_order_id (fst (crash_burst mid g))) = unat (cg_next_order_id g) + 50"
proof -
  let ?x = "xs_next_u64 (cg_rng g)" and ?g = "g\<lparr>cg_rng := xs_next_u64 (cg_rng g)\<rparr>"
  let ?side = "if ?x AND 1 = 0 then 0 else 1 :: u8"
  have s: "?side \<le> 1" by simp
  note sw = sweep_inert [OF i, of ?g "[0..<50]" N ?side]
  obtain g1 cs where 1: "crash_sweep mid ?side [0..<50] ?g = (g1, cs)" by fastforce
  obtain g2 ps where 2: "crash_prints mid ?side 8 g1 = (g2, ps)" by fastforce
  have "crash_burst mid g = (g2, cs @ ps)" unfolding crash_burst_def Let_def 1 prod.case 2 by simp
  moreover have "hb_run N h (map se_event cs) = h" "unat (cg_next_order_id g1) = unat (cg_next_order_id g) + 50"
    using sw n unfolding 1 by simp_all
  moreover have "hb_run N h (map se_event ps) = h" "cg_next_order_id g2 = cg_next_order_id g1"
    using prints_inert [OF i s, of N 8 g1] unfolding 2 by simp_all
  ultimately show ?thesis by (simp add: hb_run_def)
qed

lemma crashy_loop_inert:
  "(\<And>pre post. map se_event base = pre @ post \<Longrightarrow> crash_inert mid (hb_run N h pre)) \<Longrightarrow>
   10000000 \<le> unat (cg_next_order_id g) \<Longrightarrow> unat (cg_next_order_id g) + 50 * length base < 2 ^ 64 \<Longrightarrow>
   hb_run N h (map se_event (crashy_loop mid i base g)) = hb_run N h (map se_event base)"
proof (induction base arbitrary: i g h)
  case (Cons src rest)
  let ?g = "g\<lparr>cg_seq := cg_seq g + 1, cg_ts := cg_ts g + 1000\<rparr>" and ?h = "fst (hb_apply N h (se_event src))"
  obtain g2 es where 2: "(if 0 < i \<and> i mod 5000 = 0 then crash_burst mid ?g else (?g, [])) = (g2, es)" by fastforce
  have h: "hb_run N h (se_event src # xs) = hb_run N ?h xs" for xs by (simp add: hb_run_def)
  have "crash_inert mid ?h" using Cons.prems(1) [of "[se_event src]" "map se_event rest"] by (simp add: hb_run_def)
  then have es: "hb_run N ?h (map se_event es) = ?h" "10000000 \<le> unat (cg_next_order_id g2)"
    "unat (cg_next_order_id g2) \<le> unat (cg_next_order_id g) + 50"
    using 2 burst_inert [of mid ?h ?g N] Cons.prems(2,3) by (auto simp: hb_run_def split: if_splits)
  have "hb_run N ?h (map se_event (crashy_loop mid (Suc i) rest g2)) = hb_run N ?h (map se_event rest)"
  proof (rule Cons.IH)
    show "crash_inert mid (hb_run N ?h pre)" if "map se_event rest = pre @ post" for pre post
      using Cons.prems(1) [of "se_event src # pre" post] that h by simp
    show "unat (cg_next_order_id g2) + 50 * length rest < 2 ^ 64" using es(3) Cons.prems(3) by simp
  qed (rule es(2))
  then show ?case
    using es(1) by (simp add: 2 [simplified] hb_run_def)
qed simp

section \<open>The crash leaves the book alone\<close>

lemma crash_price_outside:
  assumes ok: "market_ok cfg" and t: "mc_tick_size cfg = 1" and l: "0 < mc_max_levels cfg" "mc_max_levels cfg \<le> 50"
  shows "crash_price (mc_mid_price cfg) (side_code sd) 51 \<notin> market_band cfg sd"
proof
  let ?m = "mc_mid_price cfg"
  assume "crash_price ?m (side_code sd) 51 \<in> market_band cfg sd"
  then obtain k where k: "k \<le> unat (mc_max_levels cfg - 1)" "crash_price ?m (side_code sd) 51 = level_price cfg (of_nat k) (side_code sd)"
    by (auto simp: market_band_def)
  have "unat (mc_max_levels cfg - 1) \<le> 49"
    using l by (simp add: unat_sub word_le_nat_alt word_less_nat_alt)
  then have k49: "k \<le> 49" using k(1) by simp
  then have ku: "unat (of_nat k :: u64) = k" by (simp add: unat_of_nat_small)
  have w: "unat ?m + 65 < 2 ^ 64" using ok t by (simp add: market_ok_def)
  show False
  proof (cases sd)
    case Bid
    have "unat (sat_sub ?m 51) = unat (max (sat_sub ?m (of_nat k)) 1)"
      using k(2) by (simp add: crash_price_def level_price_def Bid t)
    then show False using k49 by (auto simp: max_def word_le_nat_alt unat_sat_sub ku split: if_splits)
  next
    case Ask
    have "unat (sat_add ?m 51) = unat (?m + (of_nat k + 1))"
      using k(2) by (simp add: crash_price_def level_price_def Ask t)
    moreover have "unat (of_nat k + 1 :: u64) = k + 1" using k49 ku by (simp add: unat_word_ariths)
    then have "unat (?m + (of_nat k + 1)) = unat ?m + (k + 1)" using w k49 by (simp add: unat_word_ariths(1))
    ultimately show False using w k49 by (simp add: unat_sat_add)
  qed
qed

lemma crash_inert_prefix:
  assumes ok: "market_ok cfg" "mc_tick_size cfg = 1" "0 < mc_max_levels cfg" "mc_max_levels cfg \<le> 50"
    and n: "n < 10000000" and es: "\<forall>e \<in> set es. banded (market_band cfg) e \<and> (is_add e \<longrightarrow> unat (ev_order_id e) \<le> n)"
    and fresh: "fresh_stream es"
  shows "crash_inert (mc_mid_price cfg) (hb_run 256 (hb_new 256 iid) es)"
proof -
  let ?h = "hb_run 256 (hb_new 256 iid) es" and ?b = "ob_run (ob_new iid) es"
  have band: "\<forall>e \<in> set es. banded (market_band cfg) e" using es by blast
  have len: "length es \<le> 2 ^ 32" using fresh by (simp add: fresh_stream_def)
  note r = realistic.band_run(2) [OF band len, of iid] realistic.band_run(3) [OF band len, of iid]
  have "slab_get (hb_orders ?h) oid = None" if "10000000 \<le> unat oid" for oid
  proof -
    have "om_lookup (ob_orders ?b) oid = None"
      using fresh_run [OF fresh, of iid] that n es by (fastforce simp: rest_bounded_def)
    then show ?thesis using book_relD(3) [OF r(1), of oid] by simp
  qed
  moreover have "glook (hb_grid d ?h) (crash_price (mc_mid_price cfg) (if d then 0 else 1) 51) = None" for d
  proof -
    define sd where "sd = (if d then Bid else Ask)"
    have "om_lookup (ob_levels sd ?b) (crash_price (mc_mid_price cfg) (side_code sd) 51) = None"
      using r(2) crash_price_outside [OF ok, of sd] by (fastforce simp: in_band_def)
    then show ?thesis using book_relD(2) [OF r(1), of sd] by (auto simp: sd_def split: if_splits)
  qed
  ultimately show ?thesis using hb_inv_grid [OF book_relD(1) [OF r(1)]] by (simp add: crash_inert_def)
qed

lemma fresh_stream_prefix: "fresh_stream (pre @ post) \<Longrightarrow> fresh_stream pre"
  by (auto simp: fresh_stream_def)

text \<open>
  The crashes that \<open>crashy_events\<close> injects (50 cancels of fresh ids and 8 anonymous prints just outside
  the market's levels) do not reach the book: for markets like the default one, a hot book that replays the
  crashy stream ends in exactly the state that the realistic stream alone leaves, whatever the seed.
\<close>

theorem crash_leaves_book:
  assumes "market_ok cfg" and "mc_tick_size cfg = 1" and "0 < mc_max_levels cfg" and "mc_max_levels cfg \<le> 50"
    and "n < 10000000"
  shows "\<exists>es cs. realistic_events n cfg = Some es \<and> crashy_events n cfg = Some cs \<and>
    hb_run 256 (hb_new 256 iid) (map se_event cs) = hb_run 256 (hb_new 256 iid) (map se_event es)"
proof -
  obtain s es where es: "bg_loop (realistic_step cfg) [0..<n] (bg_init (mc_seed cfg)) = Some (s, es)"
      "map se_seq es = map (\<lambda>i. of_nat i + 1) [0..<n]"
      "\<forall>e \<in> set (map se_event es). banded (market_band cfg) e \<and> (is_add e \<longrightarrow> unat (ev_order_id e) \<le> n)"
      "fresh_stream (map se_event es)"
    using realistic.stream_events [of n cfg "mc_seed cfg" iid] assms(5) by auto
  have len: "length es = n" using arg_cong [OF es(2), of length] by simp
  have "crash_inert (mc_mid_price cfg) (hb_run 256 (hb_new 256 iid) pre)" if p: "map se_event es = pre @ post" for pre post
    using crash_inert_prefix [OF assms(1-5), of pre iid] es(3) fresh_stream_prefix [of pre post] es(4) unfolding p by simp
  then have "hb_run 256 (hb_new 256 iid) (map se_event (crashy_loop (mc_mid_price cfg) 0 es
      \<lparr>cg_rng = mc_seed cfg + 0xC0DE, cg_seq = 1, cg_ts = 0, cg_next_order_id = 10000000\<rparr>)) =
      hb_run 256 (hb_new 256 iid) (map se_event es)"
    using len assms(5) by (intro crashy_loop_inert) simp_all
  then show ?thesis using es(1) by (simp add: realistic_events_def crashy_events_def)
qed

theorem crash_leaves_book_witness:
  "\<exists>es cs. realistic_events 12000 market_config_default = Some es \<and> crashy_events 12000 market_config_default = Some cs \<and>
    hb_run 256 (hb_new 256 1) (map se_event cs) = hb_run 256 (hb_new 256 1) (map se_event es)"
  by (rule crash_leaves_book [OF market_config_default_ok]) (simp_all add: market_config_default_def)

section \<open>Re-used order ids\<close>

lemma readd_inconsistent:
  assumes con: "consistent b" and k: "om_lookup (ob_orders b) (ev_order_id e) = Some ord"
    and sd: "side_from_u8 (ev_side e) = Some sd" and room: "Suc (rest_count sd (ev_price e) (ob_orders b)) < 2 ^ 32"
  shows "\<not> consistent (fst (ob_add_order b e))"
proof
  let ?b = "fst (ob_add_order b e)" and ?s = "or_side ord" and ?p = "or_price ord"
  assume con': "consistent ?b"
  have lv: "om_lookup (ob_levels ?s ?b) ?p =
      (if ?s = sd \<and> ?p = ev_price e then Some (grown ?p (ev_qty e) (om_lookup (ob_levels ?s b) ?p))
       else om_lookup (ob_levels ?s b) ?p)"
    by (auto simp: ob_add_order_def sd Let_def ob_grow_level_lookup)
  have "rest_count ?s ?p (ob_orders ?b) =
      (if ?s = sd \<and> ?p = ev_price e then 1 else 0) + rest_count ?s ?p (om_remove (ev_order_id e) (ob_orders b))"
    by (auto simp: ob_add_order_def sd Let_def rest_sums_insert at_level_def)
  moreover have "rest_count ?s ?p (ob_orders b) = Suc (rest_count ?s ?p (om_remove (ev_order_id e) (ob_orders b)))"
    using rest_sums_split(1) [OF k, of ?s ?p] by (simp add: at_level_def)
  ultimately have less: "rest_count ?s ?p (ob_orders ?b) =
      (if ?s = sd \<and> ?p = ev_price e then rest_count ?s ?p (ob_orders b) else rest_count ?s ?p (ob_orders b) - 1)"
      "0 < rest_count ?s ?p (ob_orders b)" by auto
  obtain l where l: "om_lookup (ob_levels ?s b) ?p = Some l" by (rule consistent_level_exists [OF con k])
  have c: "unat (lv_order_count l) = rest_count ?s ?p (ob_orders b)"
    using consistentD [OF con, of ?p ?s] l by (simp add: level_ok_def)
  have suc: "unat (lv_order_count l + 1) = Suc (unat (lv_order_count l))" if "?s = sd" "?p = ev_price e"
    using room that c by (simp add: unat_word_ariths)
  note ok = consistentD [OF con', of ?p ?s]
  show False
  proof (cases "?s = sd \<and> ?p = ev_price e")
    case True
    then have "unat (lv_order_count l + 1) = rest_count ?s ?p (ob_orders b)"
      using ok unfolding lv l if_P [OF True] less(1) by (simp add: level_ok_def grown_def)
    then show False using c suc True by simp
  next
    case False
    then have "unat (lv_order_count l) = rest_count ?s ?p (ob_orders b) - 1"
      using ok unfolding lv l if_not_P [OF False] less(1) by (simp add: level_ok_def)
    then show False using c less(2) by simp
  qed
qed

lemma adds_rest:
  "(\<forall>e \<in> set es. is_add e \<and> side_from_u8 (ev_side e) \<noteq> None) \<Longrightarrow> e \<in> set es \<Longrightarrow>
   om_lookup (ob_orders (ob_run b es)) (ev_order_id e) \<noteq> None"
proof (induction es arbitrary: e rule: rev_induct)
  case (snoc x es)
  have "ob_run b (es @ [x]) = fst (ob_add_order (ob_run b es) x)"
    using snoc.prems(1) by (simp add: ob_run_def ob_apply_def is_add_def)
  then show ?case using snoc by (auto simp: ob_add_order_def Let_def om_lookup_insert split: option.splits)
qed simp

lemma warmup_from_events:
  "(\<forall>e \<in> set (map se_event (warmup_from cfg is x)). is_add e \<and> side_from_u8 (ev_side e) \<noteq> None \<and> unat (ev_qty e) \<le> 99) \<and>
   map (\<lambda>e. ev_order_id (se_event e)) (warmup_from cfg is x) = map (\<lambda>i. of_nat i + 1) is"
proof (induction "is" arbitrary: x)
  case (Cons i "is")
  obtain x1 side price where 1: "bg_place cfg x = (x1, side, price)" by (cases "bg_place cfg x")
  obtain x2 q where 2: "xs_bounded 90 x1 = (x2, q)" by fastforce
  have "unat q < 90" using bounded_qty [OF 2] by simp
  then have "unat (10 + q) \<le> 99" by (simp add: unat_word_ariths)
  moreover have "side_from_u8 side \<noteq> None" using bg_place_ok [OF 1] by (auto simp: u8_le_1 side_from_u8_def)
  ultimately show ?case using Cons.IH [of x2] by (simp add: 1 2)
qed simp

lemma warmup_fresh:
  assumes "n < 2 ^ 32"
  shows "fresh_stream (map se_event (warmup_events n cfg))"
proof -
  let ?es = "map se_event (warmup_events n cfg)"
  note w = conjunct1 [OF warmup_from_events [of cfg "[0..<n]" "mc_seed cfg + 1", folded warmup_events_def]]
    conjunct2 [OF warmup_from_events [of cfg "[0..<n]" "mc_seed cfg + 1", folded warmup_events_def]]
  have all: "filter is_add ?es = ?es" using w(1) by (simp add: filter_id_conv)
  have ids: "map ev_order_id ?es = map (\<lambda>i. of_nat i + 1) [0..<n]" using w(2) by (simp add: comp_def)
  have "inj_on (\<lambda>i. of_nat i + 1 :: u64) {0..<n}"
  proof (rule inj_onI)
    fix i j
    assume "i \<in> {0..<n}" "j \<in> {0..<n}" "of_nat i + 1 = (of_nat j + 1 :: u64)"
    then have "unat (of_nat i :: u64) = unat (of_nat j :: u64)" "i < 2 ^ 64" "j < 2 ^ 64" using assms by simp_all
    then show "i = j" by (simp add: unat_of_nat_small)
  qed
  then have d: "distinct (map ev_order_id ?es)" by (simp only: ids distinct_map) simp
  have len: "length ?es = n" using arg_cong [OF ids, of length] by simp
  have "(\<Sum>e\<leftarrow>?es. unat (ev_qty e)) \<le> 99 * length ?es" using w(1) by (intro sum_list_bounded) auto
  then show ?thesis unfolding fresh_stream_def all using d len assms w(1) by (auto simp: is_add_def)
qed

text \<open>
  The warm-up numbers its orders from 1, and so does every stream that the harness then applies to the same book.
  The first event of the realistic stream therefore replaces a resting order without taking it out of its level, and
  the book of every warmed-up benchmark is inconsistent from its first event on.
\<close>

theorem warmed_book_inconsistent:
  assumes "0 < n" and "Suc n < 2 ^ 32"
  shows "\<exists>e. realistic_events 1 cfg = Some [e] \<and>
    consistent (ob_run (ob_new iid) (map se_event (warmup_events n cfg))) \<and>
    \<not> consistent (ob_run (ob_new iid) (map se_event (warmup_events n cfg @ [e])))"
proof -
  let ?w = "map se_event (warmup_events n cfg)" and ?b = "ob_run (ob_new iid) (map se_event (warmup_events n cfg))"
  have n: "n < 2 ^ 32" using assms(2) by simp
  note fr = fresh_run [OF warmup_fresh [OF n, of cfg], of iid]
  note w = conjunct1 [OF warmup_from_events [of cfg "[0..<n]" "mc_seed cfg + 1", folded warmup_events_def]]
    conjunct2 [OF warmup_from_events [of cfg "[0..<n]" "mc_seed cfg + 1", folded warmup_events_def]]
  have "1 \<in> set (map ev_order_id ?w)"
    using w(2) assms(1) by (simp add: comp_def) force
  then obtain a where "a \<in> set ?w" "ev_order_id a = 1" by (auto simp: image_iff)
  then obtain ord where k: "om_lookup (ob_orders ?b) 1 = Some ord" using adds_rest [of ?w a] w(1) by fastforce
  obtain x roll where 0: "xs_bounded 100 (mc_seed cfg) = (x, roll)" by fastforce
  obtain x1 side price where 1: "bg_place cfg x = (x1, side, price)" by (cases "bg_place cfg x")
  obtain x2 qty where 2: "realistic_qty x1 = (x2, qty)" by fastforce
  let ?e = "bench_event 0 OrderAdd side price qty 1"
  have r: "realistic_events 1 cfg = Some [sequenced 1 ?e]"
    by (simp add: realistic_events_def bg_init_def realistic_step_def 0 1 2 bg_add_def)
  obtain sd where sd: "side_from_u8 side = Some sd" using bg_place_ok [OF 1] by (auto simp: u8_le_1 side_from_u8_def)
  have "length (filter is_add ?w) \<le> n"
    using le_trans [OF length_filter_le, of ?w n is_add] arg_cong [OF w(2), of length] by simp
  moreover have "rest_count sd price (ob_orders ?b) \<le> length (filter is_add ?w)" using fr by (simp add: rest_bounded_def)
  ultimately have "Suc (rest_count sd price (ob_orders ?b)) < 2 ^ 32" using assms(2) by linarith
  then have "\<not> consistent (fst (ob_add_order ?b ?e))" using fr k sd by (intro readd_inconsistent) auto
  with r fr show ?thesis by (simp add: ob_run_def)
qed

theorem warmed_book_inconsistent_witness:
  "\<exists>e. realistic_events 1 market_config_default = Some [e] \<and>
    consistent (ob_run (ob_new 1) (map se_event (warmup_events 2000 market_config_default))) \<and>
    \<not> consistent (ob_run (ob_new 1) (map se_event (warmup_events 2000 market_config_default @ [e])))"
  by (rule warmed_book_inconsistent) simp_all

end
