(* ===== verification/FL_BenchWorkloads.thy ===== *)
theory FL_BenchWorkloads
  imports FL_BenchCrash
begin

text \<open>
  The isolated workloads of \<open>bench/src/bin/latency_apply.rs\<close>: trades against the fat warm-up never change the shape of
  the book, and the cancel-heavy stream is replayed alike by both books.
\<close>

section \<open>Isolated trades\<close>

definition fat_orders :: "nat \<Rightarrow> order_book \<Rightarrow> bool" where
  "fat_orders k b \<longleftrightarrow> (\<forall>oid ord. om_lookup (ob_orders b) oid = Some ord \<longrightarrow> k \<le> unat (or_qty ord))"

definition same_shape :: "order_book \<Rightarrow> order_book \<Rightarrow> bool" where
  "same_shape b b' \<longleftrightarrow> dom (om_lookup (ob_orders b)) = dom (om_lookup (ob_orders b')) \<and>
     (\<forall>sd. dom (om_lookup (ob_levels sd b)) = dom (om_lookup (ob_levels sd b')))"

lemma dom_shrink_kept: "dom (om_lookup (ob_shrink_level p q False ls)) = dom (om_lookup ls)"
  by (cases "om_lookup ls p") (auto simp: ob_shrink_level_lookup shrunk_def split: if_splits)

lemma trade_one:
  assumes fat: "fat_orders (Suc k) b" and k: "0 < k" and q: "ev_qty e = 1"
  shows "fat_orders k (fst (ob_execute_trade b e)) \<and> same_shape b (fst (ob_execute_trade b e))"
proof (cases "om_lookup (ob_orders b) (ev_order_id e)")
  case None
  then show ?thesis using fat by (auto simp: ob_execute_trade_def fat_orders_def same_shape_def intro: Suc_leD)
next
  case (Some ord)
  have u: "unat (sat_sub (or_qty ord) 1) = unat (or_qty ord) - 1" by (simp add: unat_sat_sub)
  have ge: "Suc k \<le> unat (or_qty ord)" using fat Some by (simp add: fat_orders_def)
  then have nz: "sat_sub (or_qty ord) 1 \<noteq> 0" using u k by auto
  have o': "ob_orders (fst (ob_execute_trade b e)) =
      om_insert (ev_order_id e) (ord\<lparr>or_qty := sat_sub (or_qty ord) 1\<rparr>) (ob_orders b)"
    using trade_orders [OF Some] nz q by simp
  have "dom (om_lookup (ob_levels sd (fst (ob_execute_trade b e)))) = dom (om_lookup (ob_levels sd b))" for sd
    using Some nz q by (simp add: ob_execute_trade_def Let_def dom_shrink_kept)
  moreover have "fat_orders k (fst (ob_execute_trade b e))"
    using fat ge u by (auto simp: fat_orders_def o' om_lookup_insert intro: Suc_leD)
  ultimately show ?thesis using Some by (auto simp: same_shape_def o' om_lookup_insert)
qed

lemma same_shape_trans: "same_shape a b \<Longrightarrow> same_shape b c \<Longrightarrow> same_shape a c"
  by (simp add: same_shape_def)

lemma trades_keep_shape:
  "fat_orders (length is + k) b \<Longrightarrow> 0 < k \<Longrightarrow> same_shape b (ob_run b (map se_event (trade_isolated_from n is x)))"
proof (induction "is" arbitrary: b x)
  case (Cons i "is")
  obtain y v where v: "xs_bounded n x = (y, v)" by fastforce
  let ?e = "bench_event i Trade 0 0 1 (1 + v)"
  have 1: "fat_orders (length is + k) (fst (ob_execute_trade b ?e)) \<and> same_shape b (fst (ob_execute_trade b ?e))"
    using Cons.prems by (intro trade_one) simp_all
  from Cons.IH [OF conjunct1 [OF 1] Cons.prems(2), of y] 1 show ?case
    by (auto simp: v ob_run_def intro: same_shape_trans)
qed (simp add: ob_run_def same_shape_def)

lemma fat_orders_run:
  "fat_orders k b \<Longrightarrow> \<forall>e \<in> set es. is_add e \<and> k \<le> unat (ev_qty e) \<Longrightarrow> fat_orders k (ob_run b es)"
proof (induction es arbitrary: b)
  case (Cons e es)
  have "fat_orders k (fst (ob_add_order b e))"
    using Cons.prems by (auto simp: fat_orders_def ob_add_order_def Let_def om_lookup_insert split: option.splits)
  with Cons show ?case by (simp add: ob_run_def ob_apply_def is_add_def)
qed (simp add: ob_run_def)

lemma fat_warmup_adds: "\<forall>e \<in> set (map se_event (fat_warmup_from is x)). is_add e \<and> ev_qty e = 1000000000"
  by (induction "is" arbitrary: x) (auto simp: Let_def case_prod_unfold)

text \<open>
  The claim of the benchmark's comment: as long as there are fewer trades than units in one fat order, a trade-only
  workload never removes an order or a level, whatever it draws.
\<close>

theorem isolated_trades_keep_levels:
  assumes "m < 1000000000" and "live_orders \<noteq> 0"
  shows "\<exists>ts. trade_isolated_events m live_orders seed' = Some ts \<and>
    same_shape (ob_run (ob_new iid) (map se_event (fat_warmup n seed)))
      (ob_run (ob_run (ob_new iid) (map se_event (fat_warmup n seed))) (map se_event ts))"
proof -
  have "fat_orders 1000000000 (ob_new iid)" by (simp add: fat_orders_def ob_new_def)
  then have "fat_orders 1000000000 (ob_run (ob_new iid) (map se_event (fat_warmup n seed)))"
    using fat_warmup_adds [of "[0..<n]" seed] by (intro fat_orders_run) (auto simp: fat_warmup_def)
  then have "fat_orders (length [0..<m] + (1000000000 - m)) (ob_run (ob_new iid) (map se_event (fat_warmup n seed)))"
    using assms(1) by simp
  from trades_keep_shape [OF this] assms show ?thesis by (simp add: trade_isolated_events_def)
qed

theorem isolated_trades_keep_levels_witness:
  "\<exists>ts. trade_isolated_events 500000 50000 7 = Some ts \<and>
    same_shape (ob_run (ob_new 1) (map se_event (fat_warmup 50000 9)))
      (ob_run (ob_run (ob_new 1) (map se_event (fat_warmup 50000 9))) (map se_event ts))"
  by (rule isolated_trades_keep_levels) simp_all

section \<open>Cancel-heavy stream\<close>

definition heavy_band :: "side \<Rightarrow> u64 set" where
  "heavy_band sd = (\<lambda>k. 10000 + of_nat k) ` {..<200 :: nat}"

interpretation heavy: price_band heavy_band 256
proof
  fix sd
  show "finite (heavy_band sd)" by (simp add: heavy_band_def)
  have "card (heavy_band sd) \<le> card {..<200 :: nat}" unfolding heavy_band_def by (rule card_image_le) simp
  then show "card (heavy_band sd) \<le> 256" by simp
qed simp

lemma cancel_heavy_ok:
  "\<forall>oid \<in> set ids. oid \<noteq> 0 \<Longrightarrow> next_oid \<noteq> 0 \<Longrightarrow> unat next_oid + length is < 2 ^ 64 \<Longrightarrow> length ids + length is < 2 ^ 64 \<Longrightarrow>
   \<exists>es. cancel_heavy_from is x ids next_oid = Some es \<and> length es = length is \<and>
     (\<forall>e \<in> set (map se_event es). banded heavy_band e)"
proof (induction "is" arbitrary: x ids next_oid)
  case (Cons i "is")
  obtain x1 pick where 1: "xs_bounded 100 x = (x1, pick)" by fastforce
  show ?case
  proof (cases "pick < 70 \<and> ids \<noteq> []")
    case True
    obtain x2 v where 2: "xs_bounded (of_nat (length ids)) x1 = (x2, v)" by fastforce
    have n: "unat (of_nat (length ids) :: u64) = length ids" using Cons.prems(4) by (simp add: unat_of_nat_small)
    then have "0 < (of_nat (length ids) :: u64)" using True by (simp add: word_less_nat_alt)
    then have v: "unat v < length ids" using bounded_qty [OF 2] n by simp
    have sub: "set (swap_remove (unat v) ids) \<subseteq> set ids"
      using arg_cong [OF swap_remove_mset [OF v], of set_mset] by auto
    have "length (swap_remove (unat v) ids) \<le> length ids" by (simp add: swap_remove_def)
    then obtain es where es: "cancel_heavy_from is x2 (swap_remove (unat v) ids) next_oid = Some es" "length es = length is"
        "\<forall>e \<in> set (map se_event es). banded heavy_band e"
      using Cons.IH [of "swap_remove (unat v) ids" next_oid x2] Cons.prems sub by auto
    have "ids ! unat v \<noteq> 0" using Cons.prems(1) v by simp
    then have "banded heavy_band (bench_event i OrderCancel 0 0 0 (ids ! unat v))"
      by (simp add: banded_def event_type_from_u8_def)
    with es v True show ?thesis by (simp add: 1 2)
  next
    case False
    obtain x2 p where 2: "xs_bounded 200 (xs_next_u64 x1) = (x2, p)" by fastforce
    obtain x3 q where 3: "xs_bounded 100 x2 = (x3, q)" by fastforce
    have suc: "unat (next_oid + 1) = Suc (unat next_oid)" using Cons.prems(3) by (simp add: unat_word_ariths)
    then have nz: "next_oid + 1 \<noteq> 0" by auto
    obtain es where es: "cancel_heavy_from is x3 (ids @ [next_oid]) (next_oid + 1) = Some es" "length es = length is"
        "\<forall>e \<in> set (map se_event es). banded heavy_band e"
      using Cons.IH [of "ids @ [next_oid]" "next_oid + 1" x3] Cons.prems suc nz by auto
    have "unat p < 200" using bounded_qty [OF 2] by simp
    then have "10000 + p \<in> heavy_band sd" for sd
      unfolding heavy_band_def by (intro image_eqI [of _ _ "unat p"]) simp_all
    then have "banded heavy_band (bench_event i OrderAdd (ucast (xs_next_u64 x1 AND 1)) (10000 + p) (1 + q) next_oid)"
      using Cons.prems(2) side_bit [of "xs_next_u64 x1"]
      by (auto simp: banded_def event_type_from_u8_def side_from_u8_def)
    with es False show ?thesis by (auto simp: 1 2 3 Let_def)
  qed
qed simp

theorem cancel_heavy_agreement:
  assumes "n < 2 ^ 32"
  shows "\<exists>es. cancel_heavy_events n seed = Some es \<and> length es = n \<and>
    hb_canonical_l2_hash xxh xxs (hb_run 256 (hb_new 256 iid) (map se_event es)) =
      ob_canonical_l2_hash xxh xxs (ob_run (ob_new iid) (map se_event es))"
proof -
  obtain es where es: "cancel_heavy_events n seed = Some es" "length es = n"
      "\<forall>e \<in> set (map se_event es). banded heavy_band e"
    using cancel_heavy_ok [of "[]" 1 "[0..<n]" seed] assms by (auto simp: cancel_heavy_events_def)
  have "length (map se_event es) \<le> 2 ^ 32" using es(2) assms by simp
  from rel_hash [OF heavy.band_run(2) [OF es(3) this]] es(1,2) show ?thesis by blast
qed

end
