(* ===== verification/FL_Generators.thy ===== *)
theory FL_Generators
  imports FL_Chaos FL_Itch
begin

text \<open>
  The adversarial event generators of \<open>chaos/src/generators.rs\<close>, the duals of the detectors: the deterministic
  \<open>xorshift64*\<close> generator, and for each pattern its state, its constructor and its \<open>step\<close>. A \<open>step\<close> takes the
  time and the next free sequence number and returns the new state with the batch of events. The severity is an
  \<open>f32\<close>, which is widened exactly; \<open>rnd\<close> is the rounding of \<open>f64\<close> arithmetic, also of decimal literals.
\<close>

unbundle bit_operations_syntax

section \<open>Random numbers\<close>

definition det_new :: "u64 \<Rightarrow> u64" where
  "det_new seed = (if seed = 0 then 0x9E3779B97F4A7C15 else seed)"

definition det_next :: "u64 \<Rightarrow> u64 \<times> u64" where
  "det_next state =
     (let x = state XOR drop_bit 12 state;
          x = x XOR push_bit 25 x;
          x = x XOR drop_bit 27 x
      in (x, x * 0x2545F4914F6CDD1D))"

definition next_below :: "u64 \<Rightarrow> u64 \<Rightarrow> u64 \<times> u64" where
  "next_below n state = (if n = 0 then (state, 0) else let (state, v) = det_next state in (state, v mod n))"

definition bool_p :: "(rat \<Rightarrow> f64) \<Rightarrow> f64 \<Rightarrow> u64 \<Rightarrow> u64 \<times> bool" where
  "bool_p rnd p state =
     (let p = f64_clamp (Fin 0) (Fin 1) p;
          cutoff = f64_as_u64 (f64_mul rnd p (u64_as_f64 rnd 0xFFFFFFFFFFFFFFFF));
          (state, v) = det_next state
      in (state, v < cutoff))"

section \<open>Helpers\<close>

definition mk :: "u64 \<Rightarrow> u64 \<Rightarrow> event_type \<Rightarrow> side \<Rightarrow> u64 \<Rightarrow> u64 \<Rightarrow> u64 \<Rightarrow> sequenced_event" where
  "mk seq ts et side price qty oid =
     \<lparr>se_seq = seq, se_channel_id = 0,
      se_event = \<lparr>ev_ts = ts, ev_price = price, ev_qty = qty, ev_order_id = oid, ev_instrument_id = 1,
        ev_event_type = event_type_code et, ev_side = side_code side, ev_pad = (0, 0)\<rparr>\<rparr>"

definition lerp :: "(rat \<Rightarrow> f64) \<Rightarrow> f64 \<Rightarrow> f64 \<Rightarrow> f64 \<Rightarrow> f64" where
  "lerp rnd severity lo hi =
     (let s = f64_clamp (Fin 0) (Fin 1) severity
      in f64_add rnd lo (f64_mul rnd (f64_sub rnd hi lo) s))"

definition f64_as_u32 :: "f64 \<Rightarrow> u32" where
  "f64_as_u32 x = of_nat (min (f64_as_nat x) (2 ^ 32 - 1))"

definition lerp_u64 :: "(rat \<Rightarrow> f64) \<Rightarrow> f64 \<Rightarrow> rat \<Rightarrow> rat \<Rightarrow> u64" where
  "lerp_u64 rnd severity lo hi = f64_as_u64 (lerp rnd severity (Fin lo) (Fin hi))"

definition lerp_round :: "(rat \<Rightarrow> f64) \<Rightarrow> f64 \<Rightarrow> rat \<Rightarrow> rat \<Rightarrow> u32" where
  "lerp_round rnd severity lo hi = f64_as_u32 (f64_round (lerp rnd severity (Fin lo) (Fin hi)))"

definition coin_side :: "(rat \<Rightarrow> f64) \<Rightarrow> u64 \<Rightarrow> u64 \<times> side" where
  "coin_side rnd state = (let (state, b) = bool_p rnd (Fin (1 / 2)) state in (state, if b then Bid else Ask))"

definition away :: "side \<Rightarrow> u64 \<Rightarrow> u64 \<Rightarrow> u64" where
  "away side base off = (case side of Bid \<Rightarrow> sat_sub base off | Ask \<Rightarrow> sat_add base off)"

section \<open>Phantom liquidity\<close>

record phantom_gen =
  pg_rng :: u64
  pg_base_price :: u64
  pg_band_ticks :: u64
  pg_next_oid :: u64
  pg_cycles_per_step :: u32
  pg_step_period_ns :: u64
  pg_next_due :: u64
  pg_cycles_remaining :: u32
  pg_add_cancel_gap_ns :: u64

definition pg_new :: "(rat \<Rightarrow> f64) \<Rightarrow> u64 \<Rightarrow> f64 \<Rightarrow> u64 \<Rightarrow> u32 \<Rightarrow> phantom_gen" where
  "pg_new rnd seed severity base_price total_cycles =
     \<lparr>pg_rng = det_new (seed XOR 0xA1A1A1A1A1A1A1A1), pg_base_price = base_price, pg_band_ticks = 32,
      pg_next_oid = 1000000, pg_cycles_per_step = lerp_round rnd severity 1 8,
      pg_step_period_ns = lerp_u64 rnd severity 50000000 5000000, pg_next_due = 0,
      pg_cycles_remaining = total_cycles, pg_add_cancel_gap_ns = lerp_u64 rnd severity 2000000 50000\<rparr>"

fun pg_cycles :: "(rat \<Rightarrow> f64) \<Rightarrow> nat \<Rightarrow> u64 \<Rightarrow> u64 \<Rightarrow> phantom_gen \<Rightarrow> phantom_gen \<times> sequenced_event list" where
  "pg_cycles rnd 0 seq ts g = (g, [])"
| "pg_cycles rnd (Suc n) seq ts g =
     (let (r, side) = coin_side rnd (pg_rng g);
          (r, v) = next_below (pg_band_ticks g) r;
          price = away side (pg_base_price g) (2 + v);
          (r, q) = next_below 800 r;
          qty = 200 + q;
          oid = pg_next_oid g;
          half = pg_add_cancel_gap_ns g div 2;
          ts1 = sat_add ts half;
          (g, es) = pg_cycles rnd n (seq + 2) (sat_add ts1 half) (g\<lparr>pg_rng := r, pg_next_oid := oid + 1\<rparr>)
      in (g, mk seq ts OrderAdd side price qty oid # mk (seq + 1) ts1 OrderCancel side price qty oid # es))"

definition pg_step :: "(rat \<Rightarrow> f64) \<Rightarrow> u64 \<Rightarrow> u64 \<Rightarrow> phantom_gen \<Rightarrow> phantom_gen \<times> sequenced_event list" where
  "pg_step rnd now base_seq g =
     (let cycles = min (pg_cycles_per_step g) (pg_cycles_remaining g);
          (g, es) = pg_cycles rnd (unat cycles) base_seq now g
      in (g\<lparr>pg_cycles_remaining := sat_sub (pg_cycles_remaining g) cycles,
            pg_next_due := sat_add now (pg_step_period_ns g)\<rparr>, es))"

section \<open>Quote stuffing\<close>

record quote_gen =
  qg_rng :: u64
  qg_base_price :: u64
  qg_next_oid :: u64
  qg_bursts_remaining :: u32
  qg_trades_per_step :: u32
  qg_cancels_per_trade :: u32
  qg_step_period_ns :: u64
  qg_next_due :: u64

definition qg_new :: "(rat \<Rightarrow> f64) \<Rightarrow> u64 \<Rightarrow> f64 \<Rightarrow> u64 \<Rightarrow> u32 \<Rightarrow> quote_gen" where
  "qg_new rnd seed severity base_price bursts =
     \<lparr>qg_rng = det_new (seed XOR 0xB1B1B1B1B1B1B1B1), qg_base_price = base_price, qg_next_oid = 1500000,
      qg_bursts_remaining = bursts, qg_trades_per_step = lerp_round rnd severity 4 6,
      qg_cancels_per_trade = lerp_round rnd severity 8 16,
      qg_step_period_ns = lerp_u64 rnd severity 20000000 5000000, qg_next_due = 0\<rparr>"

fun qg_cancels :: "nat \<Rightarrow> side \<Rightarrow> u64 \<Rightarrow> u64 \<Rightarrow> u64 \<Rightarrow> quote_gen \<Rightarrow> quote_gen \<times> sequenced_event list" where
  "qg_cancels 0 side dt seq ts g = (g, [])"
| "qg_cancels (Suc n) side dt seq ts g =
     (let (r, v) = next_below 4 (qg_rng g);
          price = away side (qg_base_price g) (1 + v);
          oid = qg_next_oid g;
          (g, es) = qg_cancels n side dt (seq + 1) (sat_add ts dt) (g\<lparr>qg_rng := r, qg_next_oid := oid + 1\<rparr>)
      in (g, mk seq ts OrderCancel side price 100 oid # es))"

fun other_side :: "side \<Rightarrow> side" where
  "other_side Bid = Ask"
| "other_side Ask = Bid"

text \<open>The running time is the start plus one \<open>dt\<close> per event so far, added one at a time.\<close>

fun advance :: "nat \<Rightarrow> u64 \<Rightarrow> u64 \<Rightarrow> u64" where
  "advance 0 dt ts = ts"
| "advance (Suc n) dt ts = advance n dt (sat_add ts dt)"

fun qg_trades :: "nat \<Rightarrow> nat \<Rightarrow> u64 \<Rightarrow> u64 \<Rightarrow> u64 \<Rightarrow> quote_gen \<Rightarrow> quote_gen \<times> sequenced_event list" where
  "qg_trades i 0 dt seq ts g = (g, [])"
| "qg_trades i (Suc n) dt seq ts g =
     (let side = (if i mod 2 = 0 then Ask else Bid);
          oid = qg_next_oid g;
          print = mk seq ts Trade side (away side (qg_base_price g) 1) 100 oid;
          k = unat (qg_cancels_per_trade g);
          ts = sat_add ts dt;
          (g, cs) = qg_cancels k (other_side side) dt (seq + 1) ts (g\<lparr>qg_next_oid := oid + 1\<rparr>);
          (g, es) = qg_trades (Suc i) n dt (seq + 1 + of_nat k) (advance k dt ts) g
      in (g, print # cs @ es))"

definition sat_mul_u32 :: "u32 \<Rightarrow> u32 \<Rightarrow> u32" where
  "sat_mul_u32 a b = of_nat (min (unat a * unat b) (2 ^ 32 - 1))"

definition qg_step :: "u64 \<Rightarrow> u64 \<Rightarrow> quote_gen \<Rightarrow> quote_gen \<times> sequenced_event list" where
  "qg_step now base_seq g =
     (let total = sat_mul_u32 (qg_trades_per_step g) (qg_cancels_per_trade g + 1);
          dt = qg_step_period_ns g div ucast (max total 1);
          (g, es) = qg_trades 0 (unat (qg_trades_per_step g)) dt base_seq now g
      in (g\<lparr>qg_bursts_remaining := sat_sub (qg_bursts_remaining g) 1,
            qg_next_due := sat_add now (qg_step_period_ns g)\<rparr>, es))"

section \<open>Spoofing\<close>

record spoof_gen =
  sg_rng :: u64
  sg_base_price :: u64
  sg_next_oid :: u64
  sg_cycles_per_step :: u32
  sg_step_period_ns :: u64
  sg_next_due :: u64
  sg_cycles_remaining :: u32
  sg_add_cancel_gap_ns :: u64
  sg_qty :: u64

definition sg_new :: "(rat \<Rightarrow> f64) \<Rightarrow> u64 \<Rightarrow> f64 \<Rightarrow> u64 \<Rightarrow> u32 \<Rightarrow> spoof_gen" where
  "sg_new rnd seed severity base_price total_cycles =
     \<lparr>sg_rng = det_new (seed XOR 0xD1D1D1D1D1D1D1D1), sg_base_price = base_price, sg_next_oid = 1750000,
      sg_cycles_per_step = lerp_round rnd severity 1 6,
      sg_step_period_ns = lerp_u64 rnd severity 25000000 5000000, sg_next_due = 0,
      sg_cycles_remaining = total_cycles, sg_add_cancel_gap_ns = lerp_u64 rnd severity 1000000 50000,
      sg_qty = lerp_u64 rnd severity 2000 20000\<rparr>"

fun sg_cycles :: "(rat \<Rightarrow> f64) \<Rightarrow> nat \<Rightarrow> u64 \<Rightarrow> u64 \<Rightarrow> spoof_gen \<Rightarrow> spoof_gen \<times> sequenced_event list" where
  "sg_cycles rnd 0 seq ts g = (g, [])"
| "sg_cycles rnd (Suc n) seq ts g =
     (let (r, side) = coin_side rnd (sg_rng g);
          (r, v) = next_below 4 r;
          price = away side (sg_base_price g) (1 + v);
          oid = sg_next_oid g;
          half = sg_add_cancel_gap_ns g div 2;
          ts1 = sat_add ts half;
          (g', es) = sg_cycles rnd n (seq + 2) (sat_add ts1 half) (g\<lparr>sg_rng := r, sg_next_oid := oid + 1\<rparr>)
      in (g', mk seq ts OrderAdd side price (sg_qty g) oid # mk (seq + 1) ts1 OrderCancel side price (sg_qty g) oid # es))"

definition sg_step :: "(rat \<Rightarrow> f64) \<Rightarrow> u64 \<Rightarrow> u64 \<Rightarrow> spoof_gen \<Rightarrow> spoof_gen \<times> sequenced_event list" where
  "sg_step rnd now base_seq g =
     (let cycles = min (sg_cycles_per_step g) (sg_cycles_remaining g);
          (g, es) = sg_cycles rnd (unat cycles) base_seq now g
      in (g\<lparr>sg_cycles_remaining := sat_sub (sg_cycles_remaining g) cycles,
            sg_next_due := sat_add now (sg_step_period_ns g)\<rparr>, es))"

section \<open>Cancellation storm\<close>

record storm_gen =
  tg_rng :: u64
  tg_base_price :: u64
  tg_next_oid :: u64
  tg_batch :: u32
  tg_step_period_ns :: u64
  tg_current_cancel_p :: f64
  tg_storm_cancel_p :: f64
  tg_warmup_cancel_p :: f64
  tg_warmup_batches_remaining :: u32
  tg_storm_batches_remaining :: u32
  tg_next_due :: u64
  tg_storm_started :: bool

definition tg_new :: "(rat \<Rightarrow> f64) \<Rightarrow> u64 \<Rightarrow> f64 \<Rightarrow> u64 \<Rightarrow> storm_gen" where
  "tg_new rnd seed severity base_price =
     \<lparr>tg_rng = det_new (seed XOR 0xC1C1C1C1C1C1C1C1), tg_base_price = base_price, tg_next_oid = 2000000,
      tg_batch = 128, tg_step_period_ns = 1000000, tg_current_cancel_p = rnd (3 / 10),
      tg_storm_cancel_p = lerp rnd severity (rnd (92 / 100)) (rnd (99 / 100)), tg_warmup_cancel_p = rnd (3 / 10),
      tg_warmup_batches_remaining = 16, tg_storm_batches_remaining = lerp_round rnd severity 40 120,
      tg_next_due = 0, tg_storm_started = False\<rparr>"

definition storm_type :: "(rat \<Rightarrow> f64) \<Rightarrow> f64 \<Rightarrow> u64 \<Rightarrow> event_type" where
  "storm_type rnd p v =
     (let r = f64_div rnd (u64_as_f64 rnd v) (u64_as_f64 rnd 0xFFFFFFFFFFFFFFFF);
          lit = rnd (5 / 100)
      in if f64_lt r lit then Trade
         else if f64_lt r (f64_add rnd lit (f64_mul rnd (f64_sub rnd (Fin 1) lit) p)) then OrderCancel
         else OrderAdd)"

fun tg_events :: "(rat \<Rightarrow> f64) \<Rightarrow> nat \<Rightarrow> u64 \<Rightarrow> u64 \<Rightarrow> u64 \<Rightarrow> storm_gen \<Rightarrow> storm_gen \<times> sequenced_event list" where
  "tg_events rnd 0 dt seq ts g = (g, [])"
| "tg_events rnd (Suc n) dt seq ts g =
     (let (r, side) = coin_side rnd (tg_rng g);
          (r, v) = det_next r;
          etype = storm_type rnd (tg_current_cancel_p g) v;
          (r, off) = next_below 8 r;
          price = away side (tg_base_price g) (off + 1);
          (r, q) = next_below 400 r;
          oid = tg_next_oid g;
          (g, es) = tg_events rnd n dt (seq + 1) (sat_add ts dt) (g\<lparr>tg_rng := r, tg_next_oid := oid + 1\<rparr>)
      in (g, mk seq ts etype side price (100 + q) oid # es))"

definition tg_phase :: "storm_gen \<Rightarrow> storm_gen \<times> bool" where
  "tg_phase g =
     (if 0 < tg_warmup_batches_remaining g then
        (g\<lparr>tg_current_cancel_p := tg_warmup_cancel_p g,
           tg_warmup_batches_remaining := tg_warmup_batches_remaining g - 1\<rparr>, False)
      else if 0 < tg_storm_batches_remaining g then
        (g\<lparr>tg_current_cancel_p := tg_storm_cancel_p g,
           tg_storm_batches_remaining := tg_storm_batches_remaining g - 1, tg_storm_started := True\<rparr>,
         \<not> tg_storm_started g)
      else (g, False))"

definition tg_step :: "(rat \<Rightarrow> f64) \<Rightarrow> u64 \<Rightarrow> u64 \<Rightarrow> storm_gen \<Rightarrow> storm_gen \<times> sequenced_event list" where
  "tg_step rnd now base_seq g =
     (let (g, just_starting_storm) = tg_phase g;
          seq = (if just_starting_storm then sat_add base_seq 4096 else base_seq);
          dt = tg_step_period_ns g div ucast (max (tg_batch g) 1);
          (g, es) = tg_events rnd (unat (tg_batch g)) dt seq now g
      in (g\<lparr>tg_next_due := sat_add now (tg_step_period_ns g)\<rparr>, es))"

section \<open>Momentum ignition\<close>

record momentum_gen =
  mg_rng :: u64
  mg_next_oid :: u64
  mg_direction :: int
  mg_cur_best_bid :: u64
  mg_cur_best_ask :: u64
  mg_initial_mid :: u64
  mg_target_bps :: u32
  mg_cycles_per_step :: u32
  mg_step_period_ns :: u64
  mg_next_due :: u64
  mg_cycles_remaining :: u32
  mg_seeded :: bool

definition mg_new :: "(rat \<Rightarrow> f64) \<Rightarrow> u64 \<Rightarrow> f64 \<Rightarrow> u64 \<Rightarrow> bool \<Rightarrow> momentum_gen" where
  "mg_new rnd seed severity base_price direction_up =
     (let target_bps = lerp_round rnd severity 8 40
      in \<lparr>mg_rng = det_new (seed XOR 0xE2E2E2E2E2E2E2E2), mg_next_oid = 3000000,
          mg_direction = (if direction_up then 1 else -1), mg_cur_best_bid = sat_sub base_price 1,
          mg_cur_best_ask = sat_add base_price 1, mg_initial_mid = base_price, mg_target_bps = target_bps,
          mg_cycles_per_step = lerp_round rnd severity 1 6,
          mg_step_period_ns = lerp_u64 rnd severity 5000000 1000000, mg_next_due = 0,
          mg_cycles_remaining = max (target_bps * 4) 40, mg_seeded = False\<rparr>)"

definition mg_seed :: "u64 \<Rightarrow> u64 \<Rightarrow> momentum_gen \<Rightarrow> momentum_gen \<times> sequenced_event list" where
  "mg_seed base_seq ts g =
     (let oid = mg_next_oid g
      in (g\<lparr>mg_next_oid := oid + 2, mg_seeded := True\<rparr>,
          [mk base_seq ts OrderAdd Bid (mg_cur_best_bid g) 500 oid,
           mk (base_seq + 1) ts OrderAdd Ask (mg_cur_best_ask g) 500 (oid + 1)]))"

definition mg_bps_now :: "momentum_gen \<Rightarrow> u32" where
  "mg_bps_now g =
     (let cur_mid = (mg_cur_best_bid g + mg_cur_best_ask g) div 2;
          moved = (if 0 < mg_direction g then sat_sub cur_mid (mg_initial_mid g) else sat_sub (mg_initial_mid g) cur_mid)
      in of_nat (unat moved * 10000 div unat (max (mg_initial_mid g) 1)))"

text \<open>One walk of both quotes by \<open>jump\<close> ticks: the far quote first, the print that takes the old one, the near quote.\<close>

definition mg_walk :: "u64 \<Rightarrow> u64 \<Rightarrow> u64 \<Rightarrow> momentum_gen \<Rightarrow> momentum_gen \<times> sequenced_event list" where
  "mg_walk jump seq ts g =
     (let oid = mg_next_oid g;
          up = (0 < mg_direction g);
          new_ask = (if up then sat_add (mg_cur_best_ask g) jump else sat_sub (mg_cur_best_ask g) jump);
          new_bid = (if up then sat_add (mg_cur_best_bid g) jump else sat_sub (mg_cur_best_bid g) jump);
          ts1 = sat_add ts 20000;
          ts2 = sat_add ts1 20000;
          (far, near) = (if up then (Ask, Bid) else (Bid, Ask));
          (far_price, near_price, hit) = (if up then (new_ask, new_bid, mg_cur_best_ask g)
                                          else (new_bid, new_ask, mg_cur_best_bid g))
      in (g\<lparr>mg_next_oid := oid + 3, mg_cur_best_ask := new_ask, mg_cur_best_bid := new_bid\<rparr>,
          [mk seq ts OrderAdd far far_price 500 oid, mk (seq + 1) ts1 Trade far hit 500 (oid + 1),
           mk (seq + 2) ts2 OrderAdd near near_price 500 (oid + 2)]))"

fun mg_cycles :: "nat \<Rightarrow> u64 \<Rightarrow> u64 \<Rightarrow> u64 \<Rightarrow> momentum_gen \<Rightarrow> momentum_gen \<times> sequenced_event list" where
  "mg_cycles 0 jump seq ts g = (g, [])"
| "mg_cycles (Suc n) jump seq ts g =
     (if mg_target_bps g \<le> mg_bps_now g then (g\<lparr>mg_cycles_remaining := 0\<rparr>, [])
      else
        let (g, es) = mg_walk jump seq ts g;
            (g, fs) = mg_cycles n jump (seq + 3) (sat_add (sat_add (sat_add ts 20000) 20000) 50000)
                        (g\<lparr>mg_cycles_remaining := sat_sub (mg_cycles_remaining g) 1\<rparr>)
        in (g, es @ fs))"

definition mg_step :: "u64 \<Rightarrow> u64 \<Rightarrow> momentum_gen \<Rightarrow> momentum_gen \<times> sequenced_event list" where
  "mg_step now base_seq g =
     (let (g, ss) = (if mg_seeded g then (g, []) else mg_seed base_seq now g);
          seq = base_seq + of_nat (length ss);
          jump = max (mg_initial_mid g div 10000) 1;
          (g, es) = mg_cycles (unat (min (mg_cycles_per_step g) (mg_cycles_remaining g))) jump seq now g
      in (g\<lparr>mg_next_due := sat_add now (mg_step_period_ns g)\<rparr>, ss @ es))"

section \<open>Flash crash\<close>

record flash_gen =
  fg_rng :: u64
  fg_base_price :: u64
  fg_crash_down :: bool
  fg_target_jump_bps :: u32
  fg_target_vacuum_pct :: f64
  fg_bursts_remaining :: u32
  fg_step_period_ns :: u64
  fg_next_due :: u64
  fg_next_oid :: u64
  fg_seeded :: bool
  fg_resting :: "(u8 \<times> u64 \<times> u64 \<times> u64) list"

definition fg_new :: "(rat \<Rightarrow> f64) \<Rightarrow> u64 \<Rightarrow> f64 \<Rightarrow> u64 \<Rightarrow> bool \<Rightarrow> u32 \<Rightarrow> flash_gen" where
  "fg_new rnd seed severity base_price crash_down bursts =
     \<lparr>fg_rng = det_new (seed XOR 0xF3F3F3F3F3F3F3F3), fg_base_price = base_price, fg_crash_down = crash_down,
      fg_target_jump_bps = lerp_round rnd severity 12 80,
      fg_target_vacuum_pct = lerp rnd severity (rnd (65 / 100)) (rnd (95 / 100)), fg_bursts_remaining = bursts,
      fg_step_period_ns = lerp_u64 rnd severity 200000000 80000000, fg_next_due = 0, fg_next_oid = 4000000,
      fg_seeded = False, fg_resting = []\<rparr>"

definition fg_seed_depth :: "u64 \<Rightarrow> u64 \<Rightarrow> flash_gen \<Rightarrow> flash_gen \<times> sequenced_event list" where
  "fg_seed_depth base_seq ts g =
     (let base = fg_base_price g;
          oid = fg_next_oid g;
          top_bid_p = sat_sub base 1;
          top_ask_p = sat_add base 1
      in (g\<lparr>fg_next_oid := oid + 4, fg_seeded := True,
            fg_resting := fg_resting g @ [(0, top_bid_p, 5000, oid), (1, top_ask_p, 3000, oid + 1)]\<rparr>,
          [mk base_seq ts OrderAdd Bid top_bid_p 5000 oid,
           mk (base_seq + 1) ts OrderAdd Ask top_ask_p 3000 (oid + 1),
           mk (base_seq + 2) ts OrderAdd Bid (sat_sub base 200) 200 (oid + 2),
           mk (base_seq + 3) ts OrderAdd Ask (sat_add base 200) 200 (oid + 3)]))"

fun position_side :: "u8 \<Rightarrow> (u8 \<times> u64 \<times> u64 \<times> u64) list \<Rightarrow> nat option" where
  "position_side sd [] = None"
| "position_side sd (x # xs) = (if fst x = sd then Some 0 else map_option Suc (position_side sd xs))"

fun fg_prints :: "nat \<Rightarrow> side \<Rightarrow> u64 \<Rightarrow> u64 \<Rightarrow> u64 \<Rightarrow> flash_gen \<Rightarrow> flash_gen \<times> sequenced_event list" where
  "fg_prints 0 side price seq ts g = (g, [])"
| "fg_prints (Suc n) side price seq ts g =
     (let oid = fg_next_oid g;
          (g, es) = fg_prints n side price (seq + 1) (sat_add ts 20000) (g\<lparr>fg_next_oid := oid + 1\<rparr>)
      in (g, mk seq ts Trade side price 50 oid # es))"

definition fg_cancel_top :: "u64 \<Rightarrow> u64 \<Rightarrow> flash_gen \<Rightarrow> flash_gen \<times> u64 \<times> sequenced_event list" where
  "fg_cancel_top seq ts g =
     (case position_side 0 (fg_resting g) of
        None \<Rightarrow> (g, 0, [])
      | Some i \<Rightarrow>
          let (_, p, q, oid) = fg_resting g ! i
          in (g\<lparr>fg_resting := swap_remove i (fg_resting g)\<rparr>, q, [mk seq ts OrderCancel Bid p q oid]))"

definition fg_cut_ask :: "u64 \<Rightarrow> u64 \<Rightarrow> u64 \<Rightarrow> flash_gen \<Rightarrow> flash_gen \<times> sequenced_event list" where
  "fg_cut_ask needed seq ts g =
     (case position_side 1 (fg_resting g) of
        None \<Rightarrow> (g, [])
      | Some i \<Rightarrow>
          let (_, p, q, oid) = fg_resting g ! i;
              cut = min needed (sat_sub q 100)
          in if 0 < cut
             then (g\<lparr>fg_resting := (fg_resting g)[i := (1, p, q - cut, oid)]\<rparr>, [mk seq ts OrderCancel Ask p cut oid])
             else (g, []))"

definition fg_one_burst :: "(rat \<Rightarrow> f64) \<Rightarrow> u64 \<Rightarrow> u64 \<Rightarrow> flash_gen \<Rightarrow> flash_gen \<times> sequenced_event list" where
  "fg_one_burst rnd base_seq ts g =
     (let band_total = sum_list (map (\<lambda>(_, _, q, _). q) (fg_resting g));
          want_drop = f64_as_u64 (f64_mul rnd (u64_as_f64 rnd band_total) (fg_target_vacuum_pct g));
          (g, cancelled, c1) = fg_cancel_top base_seq ts g;
          n1 = length c1;
          (g, c2) = (if cancelled < want_drop
                     then fg_cut_ask (want_drop - cancelled) (base_seq + of_nat n1) (advance n1 20000 ts) g
                     else (g, []));
          n2 = n1 + length c2;
          (side, price) = (if fg_crash_down g then (Bid, sat_sub (fg_base_price g) 200)
                           else (Ask, sat_add (fg_base_price g) 200));
          (g, ps) = fg_prints 4 side price (base_seq + of_nat n2) (advance n2 20000 ts) g
      in (g, c1 @ c2 @ ps))"

definition fg_step :: "(rat \<Rightarrow> f64) \<Rightarrow> u64 \<Rightarrow> u64 \<Rightarrow> flash_gen \<Rightarrow> flash_gen \<times> sequenced_event list" where
  "fg_step rnd now base_seq g =
     (let (g, ss) = (if fg_seeded g then (g, []) else fg_seed_depth base_seq now g);
          seq = base_seq + of_nat (length ss);
          (g, bs) = (if 0 < fg_bursts_remaining g
                     then let (g, bs) = fg_one_burst rnd seq (sat_add now 1000) g
                          in (g\<lparr>fg_bursts_remaining := fg_bursts_remaining g - 1\<rparr>, bs)
                     else (g, []));
          g = (if 0 < fg_bursts_remaining g then g\<lparr>fg_resting := [], fg_seeded := False\<rparr> else g)
      in (g\<lparr>fg_next_due := sat_add now (fg_step_period_ns g)\<rparr>, ss @ bs))"

section \<open>Latency arbitrage\<close>

record arb_gen =
  ag_rng :: u64
  ag_base_price :: u64
  ag_next_oid :: u64
  ag_bursts_remaining :: u32
  ag_burst_size :: u32
  ag_step_period_ns :: u64
  ag_next_due :: u64
  ag_seeded :: bool

definition ag_new :: "(rat \<Rightarrow> f64) \<Rightarrow> u64 \<Rightarrow> f64 \<Rightarrow> u64 \<Rightarrow> u32 \<Rightarrow> arb_gen" where
  "ag_new rnd seed severity base_price bursts =
     \<lparr>ag_rng = det_new (seed XOR 0xB4B4B4B4B4B4B4B4), ag_base_price = base_price, ag_next_oid = 5000000,
      ag_bursts_remaining = bursts, ag_burst_size = lerp_round rnd severity 4 16,
      ag_step_period_ns = lerp_u64 rnd severity 50000000 10000000, ag_next_due = 0, ag_seeded = False\<rparr>"

fun ag_seed_levels :: "nat list \<Rightarrow> u64 \<Rightarrow> u64 \<Rightarrow> arb_gen \<Rightarrow> arb_gen \<times> sequenced_event list" where
  "ag_seed_levels [] seq ts g = (g, [])"
| "ag_seed_levels (i # is) seq ts g =
     (let oid = ag_next_oid g;
          (g', es) = ag_seed_levels is (seq + 2) ts (g\<lparr>ag_next_oid := oid + 2\<rparr>)
      in (g', mk seq ts OrderAdd Bid (sat_sub (ag_base_price g) (of_nat i + 1)) 500 oid #
             mk (seq + 1) ts OrderAdd Ask (sat_add (ag_base_price g) (of_nat i + 1)) 500 (oid + 1) # es))"

definition ag_seed :: "u64 \<Rightarrow> u64 \<Rightarrow> arb_gen \<Rightarrow> arb_gen \<times> sequenced_event list" where
  "ag_seed base_seq ts g = (let (g, es) = ag_seed_levels [0..<10] base_seq ts g in (g\<lparr>ag_seeded := True\<rparr>, es))"

fun ag_reactions :: "nat list \<Rightarrow> side \<Rightarrow> u64 \<Rightarrow> u64 \<Rightarrow> u64 \<Rightarrow> arb_gen \<Rightarrow> arb_gen \<times> sequenced_event list" where
  "ag_reactions [] side price seq ts g = (g, [])"
| "ag_reactions (k # ks) side price seq ts g =
     (let px = away side price (of_nat (k mod 4) + 1);
          etype = (if k mod 2 = 0 then OrderAdd else OrderCancel);
          oid = ag_next_oid g;
          (g, es) = ag_reactions ks side price (seq + 1) (sat_add ts 50000) (g\<lparr>ag_next_oid := oid + 1\<rparr>)
      in (g, mk seq ts etype side px 200 oid # es))"

definition ag_step :: "(rat \<Rightarrow> f64) \<Rightarrow> u64 \<Rightarrow> u64 \<Rightarrow> arb_gen \<Rightarrow> arb_gen \<times> sequenced_event list" where
  "ag_step rnd now base_seq g =
     (let (g, ss) = (if ag_seeded g then (g, []) else ag_seed base_seq now g);
          seq = base_seq + of_nat (length ss)
      in if ag_bursts_remaining g = 0 then (g, ss)
         else
           let (r, buy_print) = bool_p rnd (Fin (1 / 2)) (ag_rng g);
               print_side = (if buy_print then Ask else Bid);
               print_price = away print_side (ag_base_price g) 1;
               oid = ag_next_oid g;
               p = mk seq now Trade print_side print_price 400 oid;
               (g, es) = ag_reactions [0..<unat (ag_burst_size g)] (other_side print_side) print_price (seq + 1)
                           (sat_add now 100000) (g\<lparr>ag_rng := r, ag_next_oid := oid + 1\<rparr>)
           in (g\<lparr>ag_bursts_remaining := ag_bursts_remaining g - 1,
                 ag_next_due := sat_add now (ag_step_period_ns g)\<rparr>, ss @ p # es))"

section \<open>The trait object\<close>

datatype generator = GPhantom phantom_gen | GQuote quote_gen | GSpoof spoof_gen | GStorm storm_gen
  | GMomentum momentum_gen | GFlash flash_gen | GArb arb_gen

fun gen_step :: "(rat \<Rightarrow> f64) \<Rightarrow> u64 \<Rightarrow> u64 \<Rightarrow> generator \<Rightarrow> generator \<times> sequenced_event list" where
  "gen_step rnd now seq (GPhantom g) = (let (g, es) = pg_step rnd now seq g in (GPhantom g, es))"
| "gen_step rnd now seq (GQuote g) = (let (g, es) = qg_step now seq g in (GQuote g, es))"
| "gen_step rnd now seq (GSpoof g) = (let (g, es) = sg_step rnd now seq g in (GSpoof g, es))"
| "gen_step rnd now seq (GStorm g) = (let (g, es) = tg_step rnd now seq g in (GStorm g, es))"
| "gen_step rnd now seq (GMomentum g) = (let (g, es) = mg_step now seq g in (GMomentum g, es))"
| "gen_step rnd now seq (GFlash g) = (let (g, es) = fg_step rnd now seq g in (GFlash g, es))"
| "gen_step rnd now seq (GArb g) = (let (g, es) = ag_step rnd now seq g in (GArb g, es))"

fun gen_next_due_ns :: "generator \<Rightarrow> u64" where
  "gen_next_due_ns (GPhantom g) = pg_next_due g"
| "gen_next_due_ns (GQuote g) = qg_next_due g"
| "gen_next_due_ns (GSpoof g) = sg_next_due g"
| "gen_next_due_ns (GStorm g) = tg_next_due g"
| "gen_next_due_ns (GMomentum g) = mg_next_due g"
| "gen_next_due_ns (GFlash g) = fg_next_due g"
| "gen_next_due_ns (GArb g) = ag_next_due g"

fun gen_finished :: "generator \<Rightarrow> bool" where
  "gen_finished (GPhantom g) = (pg_cycles_remaining g = 0)"
| "gen_finished (GQuote g) = (qg_bursts_remaining g = 0)"
| "gen_finished (GSpoof g) = (sg_cycles_remaining g = 0)"
| "gen_finished (GStorm g) = (tg_warmup_batches_remaining g = 0 \<and> tg_storm_batches_remaining g = 0)"
| "gen_finished (GMomentum g) = (mg_cycles_remaining g = 0)"
| "gen_finished (GFlash g) = (fg_bursts_remaining g = 0)"
| "gen_finished (GArb g) = (ag_bursts_remaining g = 0)"

fun gen_kind_label :: "generator \<Rightarrow> string" where
  "gen_kind_label (GPhantom _) = ''phantom_liquidity''"
| "gen_kind_label (GQuote _) = ''quote_stuff''"
| "gen_kind_label (GSpoof _) = ''spoof''"
| "gen_kind_label (GStorm _) = ''cancellation_storm''"
| "gen_kind_label (GMomentum _) = ''momentum_ignition''"
| "gen_kind_label (GFlash _) = ''flash_crash''"
| "gen_kind_label (GArb _) = ''latency_arb_proxy''"

end
