(* ===== verification/FL_Storm.thy ===== *)
theory FL_Storm
  imports FL_Generators
begin

text \<open>
  The storm orchestrator of \<open>chaos/src/storm.rs\<close>: it keeps at most one active storm, drives its generator when polled,
  restarts a generator that has finished its programme and stops the storm when its time is over. The loop of \<open>poll\<close>
  ends because a fresh generator is never finished and a poll makes at most 32 steps.
\<close>

record storm_spec =
  ss_kind :: chaos_kind
  ss_severity :: f64
  ss_duration_ns :: u64
  ss_seed :: u64

datatype storm_mode = StormIdle | StormActive

record storm_snapshot =
  sn_mode :: storm_mode
  sn_kind :: "chaos_kind option"
  sn_severity :: f64
  sn_seed :: u64
  sn_started_at_ns :: u64
  sn_expires_at_ns :: u64
  sn_restarts :: u32

definition snapshot_idle :: storm_snapshot where
  "snapshot_idle = \<lparr>sn_mode = StormIdle, sn_kind = None, sn_severity = Fin 0, sn_seed = 0, sn_started_at_ns = 0,
     sn_expires_at_ns = 0, sn_restarts = 0\<rparr>"

definition sn_is_active :: "storm_snapshot \<Rightarrow> bool" where
  "sn_is_active s \<longleftrightarrow> sn_mode s = StormActive"

record active_storm =
  as_spec :: storm_spec
  as_started_at_ns :: u64
  as_expires_at_ns :: u64
  as_restarts :: u32
  as_generator :: generator

record orchestrator =
  so_base_price :: u64
  so_active :: "active_storm option"

definition so_new :: "u64 \<Rightarrow> orchestrator" where
  "so_new base_price = \<lparr>so_base_price = base_price, so_active = None\<rparr>"

definition cycles_from_duration :: "u64 \<Rightarrow> u64 \<Rightarrow> u32 \<Rightarrow> u32" where
  "cycles_from_duration duration_ns period_ns minimum =
     (let cycles = sat_add duration_ns (sat_sub period_ns 1) div max period_ns 1
      in max minimum (ucast (min cycles 0xFFFFFFFF)))"

definition spawn_generator :: "(rat \<Rightarrow> f64) \<Rightarrow> storm_spec \<Rightarrow> u64 \<Rightarrow> u32 \<Rightarrow> generator" where
  "spawn_generator rnd spec base_price restart =
     (let seed = ss_seed spec + ucast restart;
          sev = ss_severity spec;
          cycles = cycles_from_duration (ss_duration_ns spec)
      in case ss_kind spec of
           PhantomLiquidity \<Rightarrow> GPhantom (pg_new rnd seed sev base_price (cycles 5000000 4))
         | CancellationStorm \<Rightarrow> GStorm (tg_new rnd seed sev base_price)
         | MomentumIgnition \<Rightarrow> GMomentum (mg_new rnd seed sev base_price True)
         | FlashCrash \<Rightarrow> GFlash (fg_new rnd seed sev base_price True (cycles 80000000 1))
         | LatencyArbitrage \<Rightarrow> GArb (ag_new rnd seed sev base_price (cycles 40000000 1))
         | QuoteStuff \<Rightarrow> GQuote (qg_new rnd seed sev base_price (cycles 10000000 1))
         | Spoof \<Rightarrow> GSpoof (sg_new rnd seed sev base_price (cycles 5000000 4)))"

definition so_snapshot :: "orchestrator \<Rightarrow> storm_snapshot" where
  "so_snapshot orch =
     (case so_active orch of
        Some a \<Rightarrow> \<lparr>sn_mode = StormActive, sn_kind = Some (ss_kind (as_spec a)), sn_severity = ss_severity (as_spec a),
          sn_seed = ss_seed (as_spec a), sn_started_at_ns = as_started_at_ns a, sn_expires_at_ns = as_expires_at_ns a,
          sn_restarts = as_restarts a\<rparr>
      | None \<Rightarrow> snapshot_idle)"

definition so_start :: "(rat \<Rightarrow> f64) \<Rightarrow> storm_spec \<Rightarrow> u64 \<Rightarrow> orchestrator \<Rightarrow> orchestrator \<times> storm_snapshot" where
  "so_start rnd spec now orch =
     (let spec = spec\<lparr>ss_severity := f64_clamp (Fin 0) (Fin 1) (ss_severity spec),
                      ss_duration_ns := max (ss_duration_ns spec) 1\<rparr>;
          orch = orch\<lparr>so_active := Some
            \<lparr>as_spec = spec, as_started_at_ns = now, as_expires_at_ns = sat_add now (ss_duration_ns spec),
             as_restarts = 0, as_generator = spawn_generator rnd spec (so_base_price orch) 0\<rparr>\<rparr>
      in (orch, so_snapshot orch))"

definition so_stop :: "orchestrator \<Rightarrow> orchestrator" where
  "so_stop orch = orch\<lparr>so_active := None\<rparr>"

definition so_is_active :: "orchestrator \<Rightarrow> bool" where
  "so_is_active orch \<longleftrightarrow> so_active orch \<noteq> None"

definition so_next_due_ns :: "orchestrator \<Rightarrow> u64 option" where
  "so_next_due_ns orch = map_option (\<lambda>a. gen_next_due_ns (as_generator a)) (so_active orch)"

definition has_expired :: "u64 \<Rightarrow> orchestrator \<Rightarrow> bool" where
  "has_expired now orch = (case so_active orch of Some a \<Rightarrow> as_expires_at_ns a \<le> now | None \<Rightarrow> False)"

text \<open>\<open>batch.iter().map(|ev| ev.seq).max()\<close>, then one past it; an empty batch leaves the number alone.\<close>

definition seq_after :: "u64 \<Rightarrow> sequenced_event list \<Rightarrow> u64" where
  "seq_after next_seq batch =
     (case map se_seq batch of [] \<Rightarrow> next_seq | s # ss \<Rightarrow> sat_add (fold max ss s) 1)"

lemma cycles_from_duration_pos: "0 < m \<Longrightarrow> cycles_from_duration d p m \<noteq> 0"
  by (auto simp: cycles_from_duration_def Let_def max_def word_gt_0 split: if_splits)

lemma spawn_not_finished: "\<not> gen_finished (spawn_generator rnd spec base_price restart)"
proof -
  have "max (x :: u32) 40 \<noteq> 0" for x by (auto simp: max_def split: if_splits)
  then show ?thesis
    by (auto simp: spawn_generator_def Let_def pg_new_def tg_new_def mg_new_def fg_new_def ag_new_def qg_new_def sg_new_def
        cycles_from_duration_pos split: chaos_kind.split)
qed

function poll_loop :: "(rat \<Rightarrow> f64) \<Rightarrow> u64 \<Rightarrow> u64 \<Rightarrow> nat \<Rightarrow> u64 \<Rightarrow> active_storm \<Rightarrow> active_storm \<times> sequenced_event list" where
  "poll_loop rnd base_price now steps next_seq a =
     (if gen_finished (as_generator a) then
        let restarts = sat_add (as_restarts a) 1
        in poll_loop rnd base_price now steps next_seq
             (a\<lparr>as_restarts := restarts, as_generator := spawn_generator rnd (as_spec a) base_price restarts\<rparr>)
      else if now < gen_next_due_ns (as_generator a) then (a, [])
      else
        let (g, batch) = gen_step rnd now next_seq (as_generator a);
            a = a\<lparr>as_generator := g\<rparr>
        in if 32 \<le> steps + 1 then (a, batch)
           else let (a, rest) = poll_loop rnd base_price now (steps + 1) (seq_after next_seq batch) a
                in (a, batch @ rest))"
  by auto
termination
  by (relation "measures [\<lambda>(_, _, _, steps, _, _). 32 - steps, \<lambda>(_, _, _, _, _, a). if gen_finished (as_generator a) then 1 else 0]")
    (auto simp: spawn_not_finished)

declare poll_loop.simps [simp del]

definition so_poll :: "(rat \<Rightarrow> f64) \<Rightarrow> u64 \<Rightarrow> u64 \<Rightarrow> orchestrator \<Rightarrow> orchestrator \<times> sequenced_event list" where
  "so_poll rnd now base_seq orch =
     (case so_active orch of
        None \<Rightarrow> (orch, [])
      | Some a \<Rightarrow>
          if has_expired now orch then (so_stop orch, [])
          else
            let (a, out) = poll_loop rnd (so_base_price orch) now 0 base_seq a;
                orch = orch\<lparr>so_active := Some a\<rparr>
            in (if has_expired now orch then so_stop orch else orch, out))"

end
