(* ===== verification/FL_GeneratorContract.thy ===== *)
theory FL_GeneratorContract
  imports FL_Storm
begin

text \<open>
  What every generator promises. The parameters derived from the severity lie between their two ends, a batch carries
  consecutive sequence numbers from the one it was given (the storm generator may skip 4096 once), and a batch
  has at most 128 events. The locale \<open>storm_source\<close> is this contract, with what follows from it for a run of
  steps; it is interpreted for the trait object, whose cases are the seven generators.
\<close>

section \<open>Interpolation\<close>

text \<open>Integers up to \<open>2 ^ 53\<close> are exact in \<open>f64\<close>.\<close>

definition exact_ints :: "(rat \<Rightarrow> f64) \<Rightarrow> bool" where
  "exact_ints rnd \<longleftrightarrow> (\<forall>i :: int. \<bar>i\<bar> \<le> 2 ^ 53 \<longrightarrow> rnd (of_int i) = Fin (of_int i))"

lemma exact_intsD: "exact_ints rnd \<Longrightarrow> \<bar>i\<bar> \<le> 2 ^ 53 \<Longrightarrow> rnd (of_int i) = Fin (of_int i)"
  by (simp add: exact_ints_def)

lemma exact_ints_Fin: "exact_ints Fin"
  by (simp add: exact_ints_def)

lemma clamp_unit: "x \<noteq> NaN \<Longrightarrow> \<exists>t. f64_clamp (Fin 0) (Fin 1) x = Fin t \<and> 0 \<le> t \<and> t \<le> 1"
  by (cases x) (auto simp: f64_clamp_def f64_lt_def)

lemma rnd_between:
  assumes r: "rounding rnd" and ex: "exact_ints rnd" and i: "\<bar>i\<bar> \<le> 2 ^ 53" "\<bar>j\<bar> \<le> 2 ^ 53"
    and x: "of_int i \<le> x" "x \<le> of_int j"
  shows "\<exists>a. rnd x = Fin a \<and> of_int i \<le> a \<and> a \<le> of_int j"
proof -
  have m: "f64_le (rnd y) (rnd z)" if "y \<le> z" for y z using r that by (simp add: rounding_def)
  have "rnd (of_int i) = Fin (of_int i)" "rnd (of_int j) = Fin (of_int j)" using ex i by (simp_all add: exact_ints_def)
  then have "f64_le (Fin (of_int i)) (rnd x)" "f64_le (rnd x) (Fin (of_int j))" using m [OF x(1)] m [OF x(2)] by simp_all
  then show ?thesis by (cases "rnd x") auto
qed

lemma lerp_between:
  assumes r: "rounding rnd" and ex: "exact_ints rnd" and sev: "sev \<noteq> NaN"
    and b: "0 \<le> lo" "0 \<le> hi" "lo \<le> 2 ^ 53" "hi \<le> 2 ^ 53"
  shows "\<exists>a. lerp rnd sev (Fin (of_int lo)) (Fin (of_int hi)) = Fin a \<and> of_int (min lo hi) \<le> a \<and> a \<le> of_int (max lo hi)"
proof -
  obtain t where t: "f64_clamp (Fin 0) (Fin 1) sev = Fin t" "0 \<le> t" "t \<le> 1" using clamp_unit [OF sev] by blast
  let ?d = "of_int hi - of_int lo :: rat"
  have "rnd (of_int (hi - lo)) = Fin (of_int (hi - lo))" by (rule exact_intsD [OF ex]) (use b in linarith)
  then have d: "f64_sub rnd (Fin (of_int hi)) (Fin (of_int lo)) = Fin ?d" by (simp add: f64_sub_def)
  have "of_int (min 0 (hi - lo)) \<le> ?d * t \<and> ?d * t \<le> of_int (max 0 (hi - lo))"
  proof (cases "lo \<le> hi")
    case True
    then have "0 \<le> ?d" by simp
    then show ?thesis using True t mult_left_mono [of t 1 ?d] by (simp add: min_def max_def)
  next
    case False
    then have "?d \<le> 0" by simp
    then show ?thesis using False t mult_left_mono_neg [of t 1 ?d] by (simp add: min_def max_def mult_nonpos_nonneg)
  qed
  moreover have "\<bar>min 0 (hi - lo)\<bar> \<le> 2 ^ 53" "\<bar>max 0 (hi - lo)\<bar> \<le> 2 ^ 53" using b by (auto simp: min_def max_def abs_if)
  ultimately obtain c where c: "rnd (?d * t) = Fin c" "of_int (min 0 (hi - lo)) \<le> c" "c \<le> of_int (max 0 (hi - lo))"
    using rnd_between [OF r ex, of "min 0 (hi - lo)" "max 0 (hi - lo)" "?d * t"] by blast
  have "of_int (min lo hi) \<le> of_int lo + c \<and> of_int lo + c \<le> of_int (max lo hi)"
    using c(2,3) by (auto simp: min_def max_def split: if_splits)
  moreover have "\<bar>min lo hi\<bar> \<le> 2 ^ 53" "\<bar>max lo hi\<bar> \<le> 2 ^ 53" using b by (auto simp: min_def max_def abs_if)
  ultimately obtain a where "rnd (of_int lo + c) = Fin a" "of_int (min lo hi) \<le> a" "a \<le> of_int (max lo hi)"
    using rnd_between [OF r ex, of "min lo hi" "max lo hi" "of_int lo + c"] by blast
  then show ?thesis by (auto simp: lerp_def t d c f64_mul_def)
qed

lemma f64_as_nat_between:
  assumes "of_int i \<le> a" "a \<le> of_int j" "0 \<le> i" "j < 2 ^ 64"
  shows "nat i \<le> f64_as_nat (Fin a)" and "f64_as_nat (Fin a) \<le> nat j"
proof -
  have a: "i \<le> \<lfloor>a\<rfloor>" "\<lfloor>a\<rfloor> \<le> j" using assms(1,2) by (simp_all add: le_floor_iff) (metis floor_mono floor_of_int)
  have "0 \<le> a" using assms(1,3) by (meson of_int_0_le_iff order_trans)
  then have "f64_as_nat (Fin a) = nat (min \<lfloor>a\<rfloor> (2 ^ 64 - 1))" by (simp add: f64_as_nat_def)
  also have "\<dots> = nat \<lfloor>a\<rfloor>" using a(2) assms(4) by simp
  finally show "nat i \<le> f64_as_nat (Fin a)" "f64_as_nat (Fin a) \<le> nat j" using a by (simp_all add: nat_mono)
qed

lemma lerp_u64_between:
  assumes "rounding rnd" "exact_ints rnd" "sev \<noteq> NaN" "0 \<le> lo" "0 \<le> hi" "lo \<le> 2 ^ 53" "hi \<le> 2 ^ 53"
  shows "nat (min lo hi) \<le> unat (lerp_u64 rnd sev (of_int lo) (of_int hi))"
    and "unat (lerp_u64 rnd sev (of_int lo) (of_int hi)) \<le> nat (max lo hi)"
proof -
  obtain a where a: "lerp rnd sev (Fin (of_int lo)) (Fin (of_int hi)) = Fin a" "of_int (min lo hi) \<le> a" "a \<le> of_int (max lo hi)"
    using lerp_between [OF assms] by blast
  have "0 \<le> min lo hi" "max lo hi < 2 ^ 64" using assms by (auto simp: min_def max_def)
  note n = f64_as_nat_between [OF a(2,3) this]
  then have "unat (lerp_u64 rnd sev (of_int lo) (of_int hi)) = f64_as_nat (Fin a)"
    using f64_as_nat_bound [of "Fin a"] by (simp add: lerp_u64_def f64_as_u64_def a(1) unat_of_nat_small)
  with n show "nat (min lo hi) \<le> unat (lerp_u64 rnd sev (of_int lo) (of_int hi))"
    "unat (lerp_u64 rnd sev (of_int lo) (of_int hi)) \<le> nat (max lo hi)" by simp_all
qed

lemma lerp_round_between:
  assumes "rounding rnd" "exact_ints rnd" "sev \<noteq> NaN" "0 \<le> lo" "0 \<le> hi" "lo < 2 ^ 32" "hi < 2 ^ 32"
  shows "nat (min lo hi) \<le> unat (lerp_round rnd sev (of_int lo) (of_int hi))"
    and "unat (lerp_round rnd sev (of_int lo) (of_int hi)) \<le> nat (max lo hi)"
proof -
  have "lo \<le> 2 ^ 53" "hi \<le> 2 ^ 53" using assms(6,7) by simp_all
  then obtain a where a: "lerp rnd sev (Fin (of_int lo)) (Fin (of_int hi)) = Fin a" "of_int (min lo hi) \<le> a" "a \<le> of_int (max lo hi)"
    using lerp_between [OF assms(1-5)] by blast
  have "0 \<le> min lo hi" using assms(4,5) by simp
  then have a0: "0 \<le> a" using a(2) by (meson of_int_0_le_iff order_trans)
  have "min lo hi \<le> \<lfloor>a + 1 / 2\<rfloor>" using a(2) by (simp add: le_floor_iff)
  moreover have "\<lfloor>a + 1 / 2\<rfloor> \<le> max lo hi"
  proof -
    have "a + 1 / 2 < of_int (max lo hi + 1)" using a(3) by simp
    then have "\<lfloor>a + 1 / 2\<rfloor> < max lo hi + 1" by (simp only: floor_less_iff)
    then show ?thesis by simp
  qed
  ultimately have "of_int (min lo hi) \<le> (of_int \<lfloor>a + 1 / 2\<rfloor> :: rat)" "of_int \<lfloor>a + 1 / 2\<rfloor> \<le> (of_int (max lo hi) :: rat)"
    by (simp_all only: of_int_le_iff)
  moreover have "0 \<le> min lo hi" "max lo hi < 2 ^ 64" using assms by (auto simp: min_def max_def)
  ultimately have n: "nat (min lo hi) \<le> f64_as_nat (f64_round (Fin a))" "f64_as_nat (f64_round (Fin a)) \<le> nat (max lo hi)"
    using f64_as_nat_between [of "min lo hi" "of_int \<lfloor>a + 1 / 2\<rfloor>" "max lo hi"] a0 by simp_all
  have "nat (max lo hi) < 2 ^ 32" using assms by (auto simp: max_def nat_less_iff)
  then have "unat (lerp_round rnd sev (of_int lo) (of_int hi)) = f64_as_nat (f64_round (Fin a))"
    using n(2) by (simp add: lerp_round_def f64_as_u32_def a(1) unat_of_nat_small)
  with n show "nat (min lo hi) \<le> unat (lerp_round rnd sev (of_int lo) (of_int hi))"
    "unat (lerp_round rnd sev (of_int lo) (of_int hi)) \<le> nat (max lo hi)" by simp_all
qed

lemma lerp_NaN: "lerp_u64 rnd NaN lo hi = 0" "lerp_round rnd NaN lo hi = 0"
proof -
  have "lerp rnd NaN (Fin lo) (Fin hi) = NaN"
  proof -
    have "f64_clamp (Fin 0) (Fin 1) NaN = NaN" by (simp add: f64_clamp_def f64_lt_def)
    moreover have "f64_mul rnd x NaN = NaN" for x by (cases x) (simp_all add: f64_mul_def)
    ultimately show ?thesis by (simp add: lerp_def)
  qed
  then show "lerp_u64 rnd NaN lo hi = 0" "lerp_round rnd NaN lo hi = 0"
    by (simp_all add: lerp_u64_def lerp_round_def f64_as_u64_def f64_as_u32_def f64_as_nat_def)
qed

section \<open>Numbering\<close>

fun numbered :: "u64 \<Rightarrow> sequenced_event list \<Rightarrow> bool" where
  "numbered s [] = True"
| "numbered s (e # es) \<longleftrightarrow> se_seq e = s \<and> numbered (s + 1) es"

lemma numbered_append: "numbered s (xs @ ys) \<longleftrightarrow> numbered s xs \<and> numbered (s + of_nat (length xs)) ys"
  by (induction xs arbitrary: s) (auto simp: algebra_simps)

lemma se_seq_mk [simp]: "se_seq (mk s ts et sd p q oid) = s"
  by (simp add: mk_def)

lemma numbered_unat:
  "numbered s es \<Longrightarrow> unat s + length es < 2 ^ 64 \<Longrightarrow> map (\<lambda>e. unat (se_seq e)) es = [unat s..<unat s + length es]"
proof (induction es arbitrary: s)
  case (Cons e es)
  have "unat (s + 1) = Suc (unat s)" using Cons.prems(2) by (simp add: unat_word_ariths)
  moreover have "[unat s..<unat s + length (e # es)] = unat s # [Suc (unat s)..<Suc (unat s) + length es]"
    by (subst upt_conv_Cons) simp_all
  ultimately show ?case using Cons.IH [of "s + 1"] Cons.prems by (simp del: upt_Suc)
qed simp

lemma fold_max_numbered:
  "numbered (s + 1) es \<Longrightarrow> unat s + length es < 2 ^ 64 \<Longrightarrow> fold max (map se_seq es) s = s + of_nat (length es)"
proof (induction es arbitrary: s)
  case (Cons e es)
  have "unat (s + 1) = Suc (unat s)" using Cons.prems(2) by (simp add: unat_word_ariths)
  then have "max (s + 1) s = s + 1" by (simp add: max_def word_le_nat_alt)
  moreover have "unat (s + 1) + length es < 2 ^ 64" using \<open>unat (s + 1) = _\<close> Cons.prems(2) by simp
  ultimately show ?case using Cons.IH [of "s + 1"] Cons.prems(1) by (simp add: algebra_simps)
qed simp

lemma seq_after_numbered:
  assumes "numbered s es" "es \<noteq> []" "unat s + length es < 2 ^ 64"
  shows "unat (seq_after n es) = unat s + length es"
proof -
  obtain e fs where es: "es = e # fs" using assms(2) by (cases es) auto
  have "fold max (map se_seq fs) s = s + of_nat (length fs)"
    using assms by (intro fold_max_numbered) (simp_all add: es)
  moreover have "se_seq e = s" using assms(1) es by simp
  moreover have "unat (s + of_nat (length fs)) = unat s + length fs"
    using assms(3) by (simp add: es unat_word_ariths unat_of_nat)
  ultimately show ?thesis using assms(3) by (simp add: seq_after_def es unat_sat_add)
qed

section \<open>Batches of the seven generators\<close>

lemma succ_succ: "s + 1 + 1 = s + (2 :: u64)"
  by simp

lemma pg_cycles_batch:
  "numbered s (snd (pg_cycles rnd n s ts g)) \<and> length (snd (pg_cycles rnd n s ts g)) = 2 * n"
  by (induction n arbitrary: s ts g) (simp_all add: Let_def case_prod_unfold succ_succ)

lemma pg_cycles_fields [simp]:
  "pg_cycles_per_step (fst (pg_cycles rnd n s ts g)) = pg_cycles_per_step g"
  "pg_cycles_remaining (fst (pg_cycles rnd n s ts g)) = pg_cycles_remaining g"
  "pg_step_period_ns (fst (pg_cycles rnd n s ts g)) = pg_step_period_ns g"
  "pg_add_cancel_gap_ns (fst (pg_cycles rnd n s ts g)) = pg_add_cancel_gap_ns g"
  "pg_base_price (fst (pg_cycles rnd n s ts g)) = pg_base_price g"
  by (induction n arbitrary: s ts g; simp add: Let_def case_prod_unfold)+

lemma sg_cycles_batch:
  "numbered s (snd (sg_cycles rnd n s ts g)) \<and> length (snd (sg_cycles rnd n s ts g)) = 2 * n"
  by (induction n arbitrary: s ts g) (simp_all add: Let_def case_prod_unfold succ_succ)

lemma sg_cycles_fields [simp]:
  "sg_cycles_per_step (fst (sg_cycles rnd n s ts g)) = sg_cycles_per_step g"
  "sg_cycles_remaining (fst (sg_cycles rnd n s ts g)) = sg_cycles_remaining g"
  "sg_step_period_ns (fst (sg_cycles rnd n s ts g)) = sg_step_period_ns g"
  by (induction n arbitrary: s ts g; simp add: Let_def case_prod_unfold)+

lemma qg_cancels_batch:
  "numbered s (snd (qg_cancels n sd dt s ts g)) \<and> length (snd (qg_cancels n sd dt s ts g)) = n"
  by (induction n arbitrary: s ts g) (simp_all add: Let_def case_prod_unfold)

lemma qg_cancels_fields [simp]:
  "qg_cancels_per_trade (fst (qg_cancels n sd dt s ts g)) = qg_cancels_per_trade g"
  "qg_trades_per_step (fst (qg_cancels n sd dt s ts g)) = qg_trades_per_step g"
  "qg_bursts_remaining (fst (qg_cancels n sd dt s ts g)) = qg_bursts_remaining g"
  "qg_step_period_ns (fst (qg_cancels n sd dt s ts g)) = qg_step_period_ns g"
  by (induction n arbitrary: s ts g; simp add: Let_def case_prod_unfold)+

lemma qg_trades_fields [simp]:
  "qg_cancels_per_trade (fst (qg_trades i n dt s ts g)) = qg_cancels_per_trade g"
  "qg_trades_per_step (fst (qg_trades i n dt s ts g)) = qg_trades_per_step g"
  "qg_bursts_remaining (fst (qg_trades i n dt s ts g)) = qg_bursts_remaining g"
  "qg_step_period_ns (fst (qg_trades i n dt s ts g)) = qg_step_period_ns g"
  by (induction n arbitrary: i s ts g; simp add: Let_def case_prod_unfold)+

lemma qg_trades_batch:
  "numbered s (snd (qg_trades i n dt s ts g)) \<and>
   length (snd (qg_trades i n dt s ts g)) = n * Suc (unat (qg_cancels_per_trade g))"
proof (induction n arbitrary: i s ts g)
  case (Suc n)
  let ?k = "unat (qg_cancels_per_trade g)" and ?sd = "if i mod 2 = 0 then Ask else Bid"
  let ?g = "fst (qg_cancels ?k (other_side ?sd) dt (s + 1) (sat_add ts dt) (g\<lparr>qg_next_oid := qg_next_oid g + 1\<rparr>))"
  show ?case
    using Suc.IH [of "s + 1 + of_nat ?k" "Suc i" "advance ?k dt (sat_add ts dt)" ?g]
      qg_cancels_batch [of "s + 1" ?k "other_side ?sd" dt "sat_add ts dt" "g\<lparr>qg_next_oid := qg_next_oid g + 1\<rparr>"]
    by (simp add: Let_def case_prod_unfold numbered_append)
qed simp

lemma tg_events_batch:
  "numbered s (snd (tg_events rnd n dt s ts g)) \<and> length (snd (tg_events rnd n dt s ts g)) = n"
  by (induction n arbitrary: s ts g) (simp_all add: Let_def case_prod_unfold)

lemma tg_events_fields [simp]:
  "tg_batch (fst (tg_events rnd n dt s ts g)) = tg_batch g"
  "tg_warmup_batches_remaining (fst (tg_events rnd n dt s ts g)) = tg_warmup_batches_remaining g"
  "tg_storm_batches_remaining (fst (tg_events rnd n dt s ts g)) = tg_storm_batches_remaining g"
  "tg_step_period_ns (fst (tg_events rnd n dt s ts g)) = tg_step_period_ns g"
  by (induction n arbitrary: s ts g; simp add: Let_def case_prod_unfold)+

lemma mg_walk_batch:
  "numbered s (snd (mg_walk j s ts g)) \<and> length (snd (mg_walk j s ts g)) = 3"
  by (simp add: mg_walk_def Let_def case_prod_unfold)

lemma mg_walk_fields [simp]:
  "mg_cycles_per_step (fst (mg_walk j s ts g)) = mg_cycles_per_step g"
  "mg_cycles_remaining (fst (mg_walk j s ts g)) = mg_cycles_remaining g"
  "mg_step_period_ns (fst (mg_walk j s ts g)) = mg_step_period_ns g"
  by (simp_all add: mg_walk_def Let_def case_prod_unfold)

lemma mg_cycles_batch:
  "numbered s (snd (mg_cycles n j s ts g)) \<and> length (snd (mg_cycles n j s ts g)) \<le> 3 * n"
proof (induction n arbitrary: s ts g)
  case (Suc n)
  show ?case using mg_walk_batch [of s j ts g]
    by (cases "mg_target_bps g \<le> mg_bps_now g")
       (simp_all add: Let_def case_prod_unfold numbered_append Suc.IH [THEN conjunct1] Suc.IH [THEN conjunct2])
qed simp

lemma mg_cycles_fields [simp]:
  "mg_cycles_per_step (fst (mg_cycles n j s ts g)) = mg_cycles_per_step g"
  "mg_step_period_ns (fst (mg_cycles n j s ts g)) = mg_step_period_ns g"
  by (induction n arbitrary: s ts g; simp add: Let_def case_prod_unfold)+

lemma fg_prints_batch:
  "numbered s (snd (fg_prints n sd p s ts g)) \<and> length (snd (fg_prints n sd p s ts g)) = n"
  by (induction n arbitrary: s ts g) (simp_all add: Let_def case_prod_unfold)

lemma fg_prints_fields [simp]: "fg_bursts_remaining (fst (fg_prints n sd p s ts g)) = fg_bursts_remaining g"
  "fg_step_period_ns (fst (fg_prints n sd p s ts g)) = fg_step_period_ns g"
  by (induction n arbitrary: s ts g; simp add: Let_def case_prod_unfold)+

lemma fg_cancel_top_batch:
  "numbered s (snd (snd (fg_cancel_top s ts g))) \<and> length (snd (snd (fg_cancel_top s ts g))) \<le> 1 \<and>
   fg_bursts_remaining (fst (fg_cancel_top s ts g)) = fg_bursts_remaining g \<and>
   fg_step_period_ns (fst (fg_cancel_top s ts g)) = fg_step_period_ns g"
  by (simp add: fg_cancel_top_def Let_def case_prod_unfold split: option.split)

lemma fg_cut_ask_batch:
  "numbered s (snd (fg_cut_ask need s ts g)) \<and> length (snd (fg_cut_ask need s ts g)) \<le> 1 \<and>
   fg_bursts_remaining (fst (fg_cut_ask need s ts g)) = fg_bursts_remaining g \<and>
   fg_step_period_ns (fst (fg_cut_ask need s ts g)) = fg_step_period_ns g"
  by (simp add: fg_cut_ask_def Let_def case_prod_unfold split: option.split)

lemma ag_seed_levels_batch:
  "numbered s (snd (ag_seed_levels is s ts g)) \<and> length (snd (ag_seed_levels is s ts g)) = 2 * length is"
  by (induction "is" arbitrary: s g) (simp_all add: Let_def case_prod_unfold succ_succ)

lemma ag_seed_levels_fields [simp]:
  "ag_bursts_remaining (fst (ag_seed_levels is s ts g)) = ag_bursts_remaining g"
  "ag_burst_size (fst (ag_seed_levels is s ts g)) = ag_burst_size g"
  "ag_step_period_ns (fst (ag_seed_levels is s ts g)) = ag_step_period_ns g"
  by (induction "is" arbitrary: s g; simp add: Let_def case_prod_unfold)+

lemma ag_reactions_batch:
  "numbered s (snd (ag_reactions ks sd p s ts g)) \<and> length (snd (ag_reactions ks sd p s ts g)) = length ks"
  by (induction ks arbitrary: s ts g) (simp_all add: Let_def case_prod_unfold)

lemma ag_reactions_fields [simp]:
  "ag_bursts_remaining (fst (ag_reactions ks sd p s ts g)) = ag_bursts_remaining g"
  "ag_burst_size (fst (ag_reactions ks sd p s ts g)) = ag_burst_size g"
  "ag_step_period_ns (fst (ag_reactions ks sd p s ts g)) = ag_step_period_ns g"
  by (induction ks arbitrary: s ts g; simp add: Let_def case_prod_unfold)+

end
