(* ===== verification/FL_StormProperties.thy ===== *)
theory FL_StormProperties
  imports FL_GeneratorContract
begin

text \<open>
  The orchestrator as a client of the generators' contract: a poll returns strictly ascending sequence numbers from the
  one it was given, at most 32 batches of at most 128 events, keeps the storm's specification and stops it exactly at
  its expiry.
\<close>

locale storm_source =
  fixes step :: "u64 \<Rightarrow> u64 \<Rightarrow> 'g \<Rightarrow> 'g \<times> sequenced_event list" and ok :: "'g \<Rightarrow> bool"
  assumes step_keeps: "ok g \<Longrightarrow> ok (fst (step now s g))"
    and step_numbered: "\<exists>s'. (s' = s \<or> s' = sat_add s 4096) \<and> numbered s' (snd (step now s g))"
    and step_short: "ok g \<Longrightarrow> length (snd (step now s g)) \<le> 128"
begin

text \<open>One step stays inside a window of 4096 + 128 numbers, and the next number to use is past all of them.\<close>

lemma step_window:
  assumes "ok g" "unat s + 4224 < 2 ^ 64"
  shows "sorted_wrt (<) (map (\<lambda>e. unat (se_seq e)) (snd (step now s g))) \<and>
    (\<forall>e \<in> set (snd (step now s g)). unat s \<le> unat (se_seq e) \<and> unat (se_seq e) < unat (seq_after s (snd (step now s g)))) \<and>
    unat s \<le> unat (seq_after s (snd (step now s g))) \<and> unat (seq_after s (snd (step now s g))) \<le> unat s + 4224"
proof (cases "snd (step now s g) = []")
  case True
  then show ?thesis by (simp add: seq_after_def)
next
  case False
  let ?es = "snd (step now s g)"
  obtain s' where s': "s' = s \<or> s' = sat_add s 4096" "numbered s' ?es" using step_numbered by blast
  have len: "length ?es \<le> 128" by (rule step_short [OF assms(1)])
  have u: "unat s \<le> unat s'" "unat s' \<le> unat s + 4096" using s'(1) assms(2) by (auto simp: unat_sat_add)
  then have room: "unat s' + length ?es < 2 ^ 64" using len assms(2) by linarith
  have m: "map (\<lambda>e. unat (se_seq e)) ?es = [unat s'..<unat s' + length ?es]" by (rule numbered_unat [OF s'(2) room])
  have "set (map (\<lambda>e. unat (se_seq e)) ?es) = {unat s'..<unat s' + length ?es}" by (simp only: m set_upt)
  then have "\<forall>e \<in> set ?es. unat s' \<le> unat (se_seq e) \<and> unat (se_seq e) < unat s' + length ?es" by auto
  moreover have "unat (seq_after s ?es) = unat s' + length ?es" by (rule seq_after_numbered [OF s'(2) False room])
  ultimately show ?thesis using m u len by (auto simp: strict_sorted_iff [symmetric] sorted_wrt_upt)
qed

end

section \<open>The trait object keeps the contract\<close>

fun gen_small :: "generator \<Rightarrow> bool" where
  "gen_small (GPhantom g) = (pg_cycles_per_step g \<le> 8)"
| "gen_small (GQuote g) = (qg_trades_per_step g \<le> 6 \<and> qg_cancels_per_trade g \<le> 16)"
| "gen_small (GSpoof g) = (sg_cycles_per_step g \<le> 6)"
| "gen_small (GStorm g) = (tg_batch g = 128)"
| "gen_small (GMomentum g) = (mg_cycles_per_step g \<le> 6)"
| "gen_small (GFlash g) = True"
| "gen_small (GArb g) = (ag_burst_size g \<le> 16)"

lemma tg_phase_fields [simp]: "tg_batch (fst (tg_phase g)) = tg_batch g" "tg_step_period_ns (fst (tg_phase g)) = tg_step_period_ns g"
  by (simp_all add: tg_phase_def)

lemma mg_seed_batch:
  "numbered s (snd (mg_seed s ts g)) \<and> length (snd (mg_seed s ts g)) = 2 \<and>
   mg_cycles_per_step (fst (mg_seed s ts g)) = mg_cycles_per_step g"
  by (simp add: mg_seed_def Let_def)

lemma fg_seed_depth_batch:
  "numbered s (snd (fg_seed_depth s ts g)) \<and> length (snd (fg_seed_depth s ts g)) = 4"
  by (simp add: fg_seed_depth_def Let_def)

lemma ag_seed_batch:
  "numbered s (snd (ag_seed s ts g)) \<and> length (snd (ag_seed s ts g)) = 20 \<and>
   ag_burst_size (fst (ag_seed s ts g)) = ag_burst_size g"
  using ag_seed_levels_batch [of s "[0..<10]" ts g] by (simp add: ag_seed_def Let_def case_prod_unfold del: upt_rec_numeral)

lemma fg_one_burst_batch:
  "numbered s (snd (fg_one_burst rnd s ts g)) \<and> length (snd (fg_one_burst rnd s ts g)) \<le> 6"
proof -
  define want where "want = f64_as_u64 (f64_mul rnd (u64_as_f64 rnd (sum_list (map (\<lambda>(_, _, q, _). q) (fg_resting g))))
    (fg_target_vacuum_pct g))"
  obtain g1 q c1 where 1: "fg_cancel_top s ts g = (g1, q, c1)" by (cases "fg_cancel_top s ts g")
  obtain g2 c2 where 2: "(if q < want then fg_cut_ask (want - q) (s + of_nat (length c1)) (advance (length c1) 20000 ts) g1
      else (g1, [])) = (g2, c2)" by fastforce
  obtain sd p where 3: "(if fg_crash_down g2 then (Bid, sat_sub (fg_base_price g2) 200)
      else (Ask, sat_add (fg_base_price g2) 200)) = (sd, p)" by fastforce
  obtain g3 ps where 4: "fg_prints 4 sd p (s + of_nat (length c1 + length c2)) (advance (length c1 + length c2) 20000 ts) g2 = (g3, ps)"
    by fastforce
  have "fg_one_burst rnd s ts g = (g3, c1 @ c2 @ ps)"
    unfolding fg_one_burst_def Let_def want_def [symmetric] 1 prod.case 2 3 4 by simp
  moreover have "numbered s c1 \<and> length c1 \<le> 1" using fg_cancel_top_batch [of s ts g] by (simp add: 1)
  moreover have "numbered (s + of_nat (length c1)) c2 \<and> length c2 \<le> 1"
    using 2 fg_cut_ask_batch [of "s + of_nat (length c1)" "want - q" "advance (length c1) 20000 ts" g1]
    by (auto split: if_splits)
  moreover have "numbered (s + of_nat (length c1 + length c2)) ps \<and> length ps = 4"
    using fg_prints_batch [of "s + of_nat (length c1 + length c2)" 4 sd p "advance (length c1 + length c2) 20000 ts" g2]
    by (simp only: 4 snd_conv)
  ultimately show ?thesis by (simp add: numbered_append algebra_simps)
qed

lemma fg_step_batch: "numbered s (snd (fg_step rnd now s g)) \<and> length (snd (fg_step rnd now s g)) \<le> 10"
proof -
  obtain g1 ss where 1: "(if fg_seeded g then (g, []) else fg_seed_depth s now g) = (g1, ss)" by fastforce
  have ss: "numbered s ss \<and> length ss \<le> 4" using 1 fg_seed_depth_batch [of s now g] by (auto split: if_splits)
  show ?thesis
    using ss fg_one_burst_batch [of "s + of_nat (length ss)" rnd "sat_add now 1000" g1]
    unfolding fg_step_def Let_def 1 prod.case by (auto simp: case_prod_unfold numbered_append)
qed

lemma mg_step_batch:
  "numbered s (snd (mg_step now s g)) \<and> length (snd (mg_step now s g)) \<le> 2 + 3 * unat (mg_cycles_per_step g) \<and>
   mg_cycles_per_step (fst (mg_step now s g)) = mg_cycles_per_step g"
proof -
  obtain g1 ss where 1: "(if mg_seeded g then (g, []) else mg_seed s now g) = (g1, ss)" by fastforce
  have ss: "numbered s ss \<and> length ss \<le> 2 \<and> mg_cycles_per_step g1 = mg_cycles_per_step g"
    using 1 mg_seed_batch [of s now g] by (auto split: if_splits)
  let ?n = "unat (min (mg_cycles_per_step g1) (mg_cycles_remaining g1))"
  have n: "?n \<le> unat (mg_cycles_per_step g)" using ss by (auto simp: min_def word_le_nat_alt)
  show ?thesis
    using ss n mg_cycles_batch [of "s + of_nat (length ss)" ?n "max (mg_initial_mid g1 div 10000) 1" now g1]
    unfolding mg_step_def Let_def 1 prod.case by (auto simp: case_prod_unfold numbered_append)
qed

lemma ag_step_batch:
  "numbered s (snd (ag_step rnd now s g)) \<and> length (snd (ag_step rnd now s g)) \<le> 21 + unat (ag_burst_size g) \<and>
   ag_burst_size (fst (ag_step rnd now s g)) = ag_burst_size g"
proof -
  obtain g1 ss where 1: "(if ag_seeded g then (g, []) else ag_seed s now g) = (g1, ss)" by fastforce
  have ss: "numbered s ss \<and> length ss \<le> 20 \<and> ag_burst_size g1 = ag_burst_size g"
    using 1 ag_seed_batch [of s now g] by (auto split: if_splits)
  show ?thesis
    using ss ag_reactions_batch [of "s + of_nat (length ss) + 1"]
    unfolding ag_step_def Let_def 1 prod.case by (auto simp: case_prod_unfold numbered_append)
qed

lemma pg_step_batch:
  "numbered s (snd (pg_step rnd now s g)) \<and> length (snd (pg_step rnd now s g)) \<le> 2 * unat (pg_cycles_per_step g) \<and>
   pg_cycles_per_step (fst (pg_step rnd now s g)) = pg_cycles_per_step g"
  using pg_cycles_batch [of s rnd "unat (min (pg_cycles_per_step g) (pg_cycles_remaining g))" now g]
  by (auto simp: pg_step_def Let_def case_prod_unfold min_def word_le_nat_alt)

lemma sg_step_batch:
  "numbered s (snd (sg_step rnd now s g)) \<and> length (snd (sg_step rnd now s g)) \<le> 2 * unat (sg_cycles_per_step g) \<and>
   sg_cycles_per_step (fst (sg_step rnd now s g)) = sg_cycles_per_step g"
  using sg_cycles_batch [of s rnd "unat (min (sg_cycles_per_step g) (sg_cycles_remaining g))" now g]
  by (auto simp: sg_step_def Let_def case_prod_unfold min_def word_le_nat_alt)

lemma qg_step_batch:
  "numbered s (snd (qg_step now s g)) \<and>
   length (snd (qg_step now s g)) = unat (qg_trades_per_step g) * Suc (unat (qg_cancels_per_trade g)) \<and>
   qg_cancels_per_trade (fst (qg_step now s g)) = qg_cancels_per_trade g \<and>
   qg_trades_per_step (fst (qg_step now s g)) = qg_trades_per_step g"
  using qg_trades_batch [of s 0 "unat (qg_trades_per_step g)"]
  by (simp add: qg_step_def Let_def case_prod_unfold)

lemma tg_step_batch:
  "numbered (if snd (tg_phase g) then sat_add s 4096 else s) (snd (tg_step rnd now s g)) \<and>
   length (snd (tg_step rnd now s g)) = unat (tg_batch g) \<and> tg_batch (fst (tg_step rnd now s g)) = tg_batch g"
  using tg_events_batch [of "if snd (tg_phase g) then sat_add s 4096 else s" rnd "unat (tg_batch g)"]
  by (simp add: tg_step_def Let_def case_prod_unfold)

interpretation gens: storm_source "gen_step rnd" gen_small for rnd
proof
  fix g :: generator and now s :: u64
  show "\<exists>s'. (s' = s \<or> s' = sat_add s 4096) \<and> numbered s' (snd (gen_step rnd now s g))"
  proof (cases g)
    case (GStorm p)
    then show ?thesis using tg_step_batch [of p s rnd now]
      by (intro exI [of _ "if snd (tg_phase p) then sat_add s 4096 else s"]) (simp add: Let_def case_prod_unfold)
  qed (use pg_step_batch [of s rnd now] sg_step_batch [of s rnd now] qg_step_batch [of s now]
      mg_step_batch [of s now] fg_step_batch [of s rnd now] ag_step_batch [of s rnd now]
    in \<open>auto simp: Let_def case_prod_unfold\<close>)
  assume ok: "gen_small g"
  then show "gen_small (fst (gen_step rnd now s g))"
    using pg_step_batch [of s rnd now] sg_step_batch [of s rnd now] qg_step_batch [of s now] tg_step_batch [of _ s rnd now]
      mg_step_batch [of s now] ag_step_batch [of s rnd now]
    by (cases g) (auto simp: Let_def case_prod_unfold)
  show "length (snd (gen_step rnd now s g)) \<le> 128"
  proof (cases g)
    case (GQuote q)
    have "unat (qg_trades_per_step q) * Suc (unat (qg_cancels_per_trade q)) \<le> 6 * 17"
      using ok GQuote by (intro mult_le_mono) (simp_all add: word_le_nat_alt)
    then show ?thesis using qg_step_batch [of s now q] by (simp add: GQuote Let_def case_prod_unfold)
  next
    case (GPhantom p)
    then show ?thesis using ok pg_step_batch [of s rnd now p] by (simp add: Let_def case_prod_unfold word_le_nat_alt)
  next
    case (GSpoof p)
    then show ?thesis using ok sg_step_batch [of s rnd now p] by (simp add: Let_def case_prod_unfold word_le_nat_alt)
  next
    case (GStorm p)
    then show ?thesis using ok tg_step_batch [of p s rnd now] by (simp add: Let_def case_prod_unfold)
  next
    case (GMomentum p)
    then show ?thesis using ok mg_step_batch [of s now p] by (simp add: Let_def case_prod_unfold word_le_nat_alt)
  next
    case (GFlash p)
    then show ?thesis using fg_step_batch [of s rnd now p] by (simp add: Let_def case_prod_unfold)
  next
    case (GArb p)
    then show ?thesis using ok ag_step_batch [of s rnd now p] by (simp add: Let_def case_prod_unfold word_le_nat_alt)
  qed
qed

lemma lerp_round_le:
  assumes "rounding rnd" "exact_ints rnd" "0 \<le> lo" "lo \<le> hi" "hi < 2 ^ 32"
  shows "unat (lerp_round rnd sev (of_int lo) (of_int hi)) \<le> nat hi"
proof (cases "sev = NaN")
  case True
  then show ?thesis by (simp add: lerp_NaN)
next
  case False
  then show ?thesis using lerp_round_between(2) [OF assms(1,2) False, of lo hi] assms(3-5) by (simp add: max_def)
qed

lemma spawn_small:
  assumes "rounding rnd" "exact_ints rnd"
  shows "gen_small (spawn_generator rnd spec base_price restart)"
  using lerp_round_le [OF assms, of 1 8] lerp_round_le [OF assms, of 4 6] lerp_round_le [OF assms, of 8 16]
    lerp_round_le [OF assms, of 1 6] lerp_round_le [OF assms, of 4 16]
  by (simp add: spawn_generator_def Let_def pg_new_def tg_new_def mg_new_def fg_new_def ag_new_def qg_new_def sg_new_def
      word_le_nat_alt split: chaos_kind.split)

section \<open>The poll loop\<close>

definition ascending :: "nat \<Rightarrow> nat \<Rightarrow> sequenced_event list \<Rightarrow> bool" where
  "ascending lo hi es \<longleftrightarrow> sorted_wrt (<) (map (\<lambda>e. unat (se_seq e)) es) \<and>
     (\<forall>e \<in> set es. lo \<le> unat (se_seq e) \<and> unat (se_seq e) < hi)"

lemma ascending_mono: "ascending lo hi es \<Longrightarrow> hi \<le> hi' \<Longrightarrow> ascending lo hi' es"
  unfolding ascending_def by (meson less_le_trans)

lemma ascending_append:
  "ascending lo mid xs \<Longrightarrow> ascending mid hi ys \<Longrightarrow> lo \<le> mid \<Longrightarrow> mid \<le> hi \<Longrightarrow> ascending lo hi (xs @ ys)"
  by (fastforce simp: ascending_def sorted_wrt_append)

definition polled :: "nat \<Rightarrow> u64 \<Rightarrow> active_storm \<Rightarrow> active_storm \<times> sequenced_event list \<Rightarrow> bool" where
  "polled steps s a r = (case r of (a', out) \<Rightarrow>
     gen_small (as_generator a') \<and> as_spec a' = as_spec a \<and> as_started_at_ns a' = as_started_at_ns a \<and>
     as_expires_at_ns a' = as_expires_at_ns a \<and> as_restarts a \<le> as_restarts a' \<and> length out \<le> 128 * (32 - steps) \<and>
     ascending (unat s) (unat s + 4224 * (32 - steps)) out)"

lemma polled_restart:
  "polled steps s (a\<lparr>as_restarts := sat_add (as_restarts a) 1, as_generator := g\<rparr>) r \<Longrightarrow> polled steps s a r"
  using sat_add_ge [of "as_restarts a" 1] by (auto simp: polled_def intro: order_trans)

lemma polled_none: "gen_small (as_generator a) \<Longrightarrow> polled steps s a (a, [])"
  by (simp add: polled_def ascending_def)

lemma poll_loop_ok:
  "rounding rnd \<Longrightarrow> exact_ints rnd \<Longrightarrow> gen_small (as_generator a) \<Longrightarrow> steps < 32 \<Longrightarrow> unat s + 4224 * (32 - steps) < 2 ^ 64 \<Longrightarrow>
   polled steps s a (poll_loop rnd base_price now steps s a)"
proof (induction rnd base_price now steps s a rule: poll_loop.induct)
  case (1 rnd base_price now steps s a)
  note prems = 1(3-7)
  let ?g = "as_generator a"
  consider (restart) "gen_finished ?g" | (early) "\<not> gen_finished ?g" "now < gen_next_due_ns ?g"
    | (due) "\<not> gen_finished ?g" "\<not> now < gen_next_due_ns ?g" by blast
  then show ?case
  proof cases
    case restart
    have "polled steps s (a\<lparr>as_restarts := sat_add (as_restarts a) 1,
        as_generator := spawn_generator rnd (as_spec a) base_price (sat_add (as_restarts a) 1)\<rparr>)
      (poll_loop rnd base_price now steps s (a\<lparr>as_restarts := sat_add (as_restarts a) 1,
        as_generator := spawn_generator rnd (as_spec a) base_price (sat_add (as_restarts a) 1)\<rparr>))"
      using prems spawn_small by (intro 1(1) [OF restart refl]) simp_all
    then show ?thesis using restart polled_restart by (subst poll_loop.simps) (simp add: Let_def)
  next
    case early
    then show ?thesis using prems polled_none by (subst poll_loop.simps) simp
  next
    case due
    obtain g batch where st: "gen_step rnd now s ?g = (g, batch)" by fastforce
    let ?a = "a\<lparr>as_generator := g\<rparr>" and ?s = "seq_after s batch"
    have small: "gen_small g" using gens.step_keeps [OF prems(3), of rnd now s] st by simp
    have "unat s + 4224 < 2 ^ 64" using prems(4,5) by simp
    note w = gens.step_window [OF prems(3) this, of rnd now, unfolded st snd_conv]
    have len: "length batch \<le> 128" using gens.step_short [OF prems(3), of rnd now s] st by simp
    have asc: "ascending (unat s) (unat ?s) batch" using w by (simp add: ascending_def)
    show ?thesis
    proof (cases "32 \<le> steps + 1")
      case True
      have "ascending (unat s) (unat s + 4224 * (32 - steps)) batch"
        using w True prems(4) by (fastforce simp: ascending_def)
      then have "polled steps s a (?a, batch)" using small len True prems(4) by (simp add: polled_def)
      then show ?thesis using due True by (subst poll_loop.simps) (simp add: st)
    next
      case False
      have "32 - steps = Suc (31 - steps)" using False by simp
      then have room: "unat ?s + 4224 * (32 - (steps + 1)) \<le> unat s + 4224 * (32 - steps)" using w by simp
      have p: "polled (steps + 1) ?s ?a (poll_loop rnd base_price now (steps + 1) ?s ?a)"
        using prems small False room by (intro 1(2) [OF due st [symmetric] refl refl]) simp_all
      obtain a' rest where r: "poll_loop rnd base_price now (steps + 1) ?s ?a = (a', rest)" by fastforce
      have rest: "ascending (unat ?s) (unat ?s + 4224 * (32 - (steps + 1))) rest" "length rest \<le> 128 * (32 - (steps + 1))"
        using p unfolding r polled_def prod.case by simp_all
      have "ascending (unat s) (unat ?s + 4224 * (32 - (steps + 1))) (batch @ rest)"
        by (rule ascending_append [OF asc rest(1)]) (use w in auto)
      then have "ascending (unat s) (unat s + 4224 * (32 - steps)) (batch @ rest)"
        using room by (rule ascending_mono)
      moreover have "length (batch @ rest) \<le> 128 * (32 - steps)" using len rest(2) False by simp
      ultimately have "polled steps s a (a', batch @ rest)" using p unfolding r polled_def prod.case by simp
      then show ?thesis using due False r by (subst poll_loop.simps) (simp add: st)
    qed
  qed
qed

section \<open>The orchestrator as a state machine\<close>

text \<open>The states an orchestrator can reach: any sequence of starts, stops and polls, at any times.\<close>

inductive orch_reach :: "(rat \<Rightarrow> f64) \<Rightarrow> orchestrator \<Rightarrow> bool" for rnd where
  new: "orch_reach rnd (so_new base_price)"
| start: "orch_reach rnd orch \<Longrightarrow> orch_reach rnd (fst (so_start rnd spec now orch))"
| stop: "orch_reach rnd orch \<Longrightarrow> orch_reach rnd (so_stop orch)"
| poll: "orch_reach rnd orch \<Longrightarrow> unat base_seq + 4224 * 32 < 2 ^ 64 \<Longrightarrow> orch_reach rnd (fst (so_poll rnd now base_seq orch))"

definition storm_inv :: "orchestrator \<Rightarrow> bool" where
  "storm_inv orch \<longleftrightarrow> (\<forall>a. so_active orch = Some a \<longrightarrow> gen_small (as_generator a) \<and> 0 < ss_duration_ns (as_spec a) \<and>
     as_expires_at_ns a = sat_add (as_started_at_ns a) (ss_duration_ns (as_spec a)) \<and>
     (ss_severity (as_spec a) = NaN \<or> unit_score (ss_severity (as_spec a))))"

lemma so_poll_cases:
  assumes "rounding rnd" "exact_ints rnd" "storm_inv orch" "unat base_seq + 4224 * 32 < 2 ^ 64"
  shows "(case so_active orch of
      None \<Rightarrow> so_poll rnd now base_seq orch = (orch, [])
    | Some a \<Rightarrow>
        if as_expires_at_ns a \<le> now then so_poll rnd now base_seq orch = (so_stop orch, [])
        else \<exists>a' out. so_poll rnd now base_seq orch = (orch\<lparr>so_active := Some a'\<rparr>, out) \<and> polled 0 base_seq a (a', out))"
proof (cases "so_active orch")
  case None
  then show ?thesis by (simp add: so_poll_def)
next
  case (Some a)
  obtain a' out where p: "poll_loop rnd (so_base_price orch) now 0 base_seq a = (a', out)" by fastforce
  have "gen_small (as_generator a)" using assms(3) Some by (simp add: storm_inv_def)
  then have "polled 0 base_seq a (a', out)"
    using poll_loop_ok [OF assms(1,2), of a 0 base_seq "so_base_price orch" now] assms(4) p by simp
  then show ?thesis using Some p by (auto simp: so_poll_def has_expired_def polled_def)
qed

lemma start_inv:
  assumes "rounding rnd" "exact_ints rnd"
  shows "storm_inv (fst (so_start rnd spec now orch))"
proof -
  have "f64_clamp (Fin 0) (Fin 1) x = NaN \<or> unit_score (f64_clamp (Fin 0) (Fin 1) x)" for x
    using unit_score_clamp [of x] by (cases "x = NaN") (simp_all add: f64_clamp_def f64_lt_def)
  then show ?thesis
    using spawn_small [OF assms] by (auto simp: so_start_def Let_def storm_inv_def max_def word_gt_0 split: if_splits)
qed

lemma reach_inv:
  assumes rnd: "rounding rnd" "exact_ints rnd"
  shows "orch_reach rnd orch \<Longrightarrow> storm_inv orch"
proof (induction rule: orch_reach.induct)
  case (new base_price)
  show ?case by (simp add: storm_inv_def so_new_def)
next
  case (start orch spec now)
  show ?case by (rule start_inv [OF rnd])
next
  case (stop orch)
  show ?case by (simp add: storm_inv_def so_stop_def)
next
  case (poll orch base_seq now)
  then show ?case
    using so_poll_cases [OF rnd poll.IH poll.hyps(2), of now]
    by (auto simp: storm_inv_def so_stop_def polled_def split: option.splits if_splits)
qed

text \<open>
  Property C34. The orchestrator, after any history of starts, stops and polls: a poll without a storm emits nothing and
  changes nothing; a poll at or after the expiry ends the storm and emits nothing; any other poll returns (it never
  loops), keeps the storm with its kind, severity, seed and times, never lowers the number of restarts, and emits at
  most 32 batches of at most 128 events whose sequence numbers strictly ascend from the number it was given.
\<close>

theorem storm_poll_sound:
  assumes "rounding rnd" and "exact_ints rnd" and "orch_reach rnd orch" and "unat base_seq + 4224 * 32 < 2 ^ 64"
  shows "(case so_active orch of
      None \<Rightarrow> so_poll rnd now base_seq orch = (orch, [])
    | Some a \<Rightarrow>
        if sat_add (as_started_at_ns a) (ss_duration_ns (as_spec a)) \<le> now
        then so_poll rnd now base_seq orch = (so_stop orch, [])
        else \<exists>a' out. so_poll rnd now base_seq orch = (orch\<lparr>so_active := Some a'\<rparr>, out) \<and>
          as_spec a' = as_spec a \<and> as_started_at_ns a' = as_started_at_ns a \<and> as_expires_at_ns a' = as_expires_at_ns a \<and>
          as_restarts a \<le> as_restarts a' \<and> length out \<le> 128 * 32 \<and>
          ascending (unat base_seq) (unat base_seq + 4224 * 32) out)"
proof -
  have inv: "storm_inv orch" by (rule reach_inv [OF assms(1-3)])
  note c = so_poll_cases [OF assms(1,2) inv assms(4), of now]
  show ?thesis
  proof (cases "so_active orch")
    case None
    then show ?thesis using c by simp
  next
    case (Some a)
    have x: "as_expires_at_ns a = sat_add (as_started_at_ns a) (ss_duration_ns (as_spec a))"
      using inv Some by (simp add: storm_inv_def)
    show ?thesis
    proof (cases "as_expires_at_ns a \<le> now")
      case True
      then show ?thesis using c Some x by simp
    next
      case False
      then obtain a' out where "so_poll rnd now base_seq orch = (orch\<lparr>so_active := Some a'\<rparr>, out)" "polled 0 base_seq a (a', out)"
        using c Some by auto
      then have "so_poll rnd now base_seq orch = (orch\<lparr>so_active := Some a'\<rparr>, out) \<and>
          as_spec a' = as_spec a \<and> as_started_at_ns a' = as_started_at_ns a \<and> as_expires_at_ns a' = as_expires_at_ns a \<and>
          as_restarts a \<le> as_restarts a' \<and> length out \<le> 128 * 32 \<and>
          ascending (unat base_seq) (unat base_seq + 4224 * 32) out"
        by (simp add: polled_def)
      then show ?thesis using False Some x by auto
    qed
  qed
qed

definition sample_spec :: storm_spec where
  "sample_spec = \<lparr>ss_kind = Spoof, ss_severity = Fin (1 / 2), ss_duration_ns = 50000000, ss_seed = 7\<rparr>"

theorem storm_poll_sound_witness:
  "\<exists>a' out. so_poll Fin 1000000 100 (fst (so_start Fin sample_spec 1000000 (so_new 100000))) =
      ((fst (so_start Fin sample_spec 1000000 (so_new 100000)))\<lparr>so_active := Some a'\<rparr>, out) \<and>
    length out \<le> 128 * 32 \<and> ascending 100 (100 + 4224 * 32) out"
proof -
  let ?o = "fst (so_start Fin sample_spec 1000000 (so_new 100000))"
  have "orch_reach Fin ?o" by (intro orch_reach.start orch_reach.new)
  moreover have "unat (100 :: u64) + 4224 * 32 < 2 ^ 64" by simp
  moreover obtain a where "so_active ?o = Some a" "as_started_at_ns a = 1000000" "ss_duration_ns (as_spec a) = 50000000"
    by (simp add: so_start_def Let_def sample_spec_def)
  moreover have "\<not> sat_add (1000000 :: u64) 50000000 \<le> 1000000" by (simp add: sat_add_def)
  ultimately show ?thesis
    using storm_poll_sound [OF rounding_Fin exact_ints_Fin, of ?o 100 1000000] by auto
qed

end
