(* ===== verification/FL_ClosedLoop.thy ===== *)
theory FL_ClosedLoop
  imports FL_StormProperties FL_DetectionProperties FL_PhantomProperties
begin

text \<open>
  Generators against detectors, in a closed loop: the claim of \<open>chaos/src/generators.rs\<close> that each generator makes its
  detector fire. For spoofing and phantom liquidity every cycle of every batch is flagged, whatever the seed, the
  severity and the time, through any number of polls of the orchestrator; for quote stuffing one step is enough.
\<close>

section \<open>Feeding a detector\<close>

fun detect :: "(sequenced_event \<Rightarrow> 'd \<Rightarrow> 'd \<times> chaos_event option) \<Rightarrow> sequenced_event list \<Rightarrow> 'd \<Rightarrow> 'd \<times> chaos_event list" where
  "detect proc [] d = (d, [])"
| "detect proc (e # es) d =
     (let (d, flag) = proc e d;
          (d, flags) = detect proc es d
      in (d, case flag of None \<Rightarrow> flags | Some ce \<Rightarrow> ce # flags))"

lemma detect_append:
  "detect proc (xs @ ys) d =
     (fst (detect proc ys (fst (detect proc xs d))), snd (detect proc xs d) @ snd (detect proc ys (fst (detect proc xs d))))"
  by (induction xs arbitrary: d) (auto simp: Let_def case_prod_unfold split: option.split)

lemma mk_sel [simp]:
  "se_event (mk s ts et sd p q oid) = \<lparr>ev_ts = ts, ev_price = p, ev_qty = q, ev_order_id = oid, ev_instrument_id = 1,
     ev_event_type = event_type_code et, ev_side = side_code sd, ev_pad = (0, 0)\<rparr>"
  by (simp add: mk_def)

text \<open>A stream is caught if a detector at rest flags one event in two and is at rest again.\<close>

definition caught :: "(sequenced_event \<Rightarrow> 'd \<Rightarrow> 'd \<times> chaos_event option) \<Rightarrow> 'd \<Rightarrow> sequenced_event list \<Rightarrow> bool" where
  "caught proc d es \<longleftrightarrow> fst (detect proc es d) = d \<and> 2 * length (snd (detect proc es d)) = length es"

lemma caught_Nil: "caught proc d []"
  by (simp add: caught_def)

lemma caught_append: "caught proc d xs \<Longrightarrow> caught proc d ys \<Longrightarrow> caught proc d (xs @ ys)"
  by (simp add: caught_def detect_append)

lemma caught_pair:
  assumes "proc a d = (d1, None)" "proc c d1 = (d, Some ce)" "caught proc d es"
  shows "caught proc d (a # c # es)"
  using assms by (simp add: caught_def case_prod_unfold)

section \<open>Storms as streams\<close>

text \<open>
  The interface of a storm against a detector: a property of event streams that is closed under concatenation holds of
  every batch of a generator in a good state, and the orchestrator only spawns such generators, due at
  once and with a first batch of some length. The locale carries the property through the poll loop, its restarts and any
  sequence of polls.
\<close>

fun poll_all :: "(rat \<Rightarrow> f64) \<Rightarrow> (u64 \<times> u64) list \<Rightarrow> orchestrator \<Rightarrow> orchestrator \<times> sequenced_event list" where
  "poll_all rnd [] orch = (orch, [])"
| "poll_all rnd ((now, base_seq) # ps) orch =
     (let (orch, es) = so_poll rnd now base_seq orch;
          (orch, es') = poll_all rnd ps orch
      in (orch, es @ es'))"

text \<open>What a storm emits over a list of polls, each with its time and its first free sequence number.\<close>

definition storm_feed :: "(rat \<Rightarrow> f64) \<Rightarrow> u64 \<Rightarrow> storm_spec \<Rightarrow> u64 \<Rightarrow> (u64 \<times> u64) list \<Rightarrow> sequenced_event list" where
  "storm_feed rnd base spec start polls = snd (poll_all rnd polls (fst (so_start rnd spec start (so_new base))))"

lemma storm_feed_Cons:
  "m \<le> length (snd (so_poll rnd now s (fst (so_start rnd spec start (so_new base))))) \<Longrightarrow> m \<le> length (storm_feed rnd base spec start ((now, s) # ps))"
  by (simp add: storm_feed_def Let_def case_prod_unfold)

locale storm_stream =
  fixes shaped :: "(rat \<Rightarrow> f64) \<Rightarrow> sequenced_event list \<Rightarrow> bool"
    and kind :: chaos_kind and ok :: "generator \<Rightarrow> bool" and least :: nat and base :: u64
  assumes shaped_Nil: "shaped rnd []"
    and shaped_append: "shaped rnd xs \<Longrightarrow> shaped rnd ys \<Longrightarrow> shaped rnd (xs @ ys)"
    and step_keeps: "ok g \<Longrightarrow> ok (fst (gen_step rnd now s g))"
    and step_shaped: "ok g \<Longrightarrow> shaped rnd (snd (gen_step rnd now s g))"
    and spawn_ok: "rounding rnd \<Longrightarrow> exact_ints rnd \<Longrightarrow> ss_kind spec = kind \<Longrightarrow> ss_severity spec \<noteq> NaN \<Longrightarrow>
      ok (spawn_generator rnd spec base r)"
    and spawn_emits: "rounding rnd \<Longrightarrow> exact_ints rnd \<Longrightarrow> ss_kind spec = kind \<Longrightarrow> ss_severity spec \<noteq> NaN \<Longrightarrow>
      gen_next_due_ns (spawn_generator rnd spec base r) = 0 \<and>
      least \<le> length (snd (gen_step rnd now s (spawn_generator rnd spec base r)))"
begin

definition hunted :: "active_storm \<Rightarrow> bool" where
  "hunted a \<longleftrightarrow> ss_kind (as_spec a) = kind \<and> ss_severity (as_spec a) \<noteq> NaN \<and> ok (as_generator a)"

lemma poll_loop_shaped:
  "rounding rnd \<Longrightarrow> exact_ints rnd \<Longrightarrow> bp = base \<Longrightarrow> hunted a \<Longrightarrow> hunted (fst (poll_loop rnd bp now k s a)) \<and> shaped rnd (snd (poll_loop rnd bp now k s a))"
proof (induction rnd bp now k s a rule: poll_loop.induct [case_names loop])
  case (loop rnd bp now k s a)
  let ?g = "as_generator a"
  consider (finished) "gen_finished ?g" | (early) "\<not> gen_finished ?g" "now < gen_next_due_ns ?g"
    | (step) "\<not> gen_finished ?g" "\<not> now < gen_next_due_ns ?g" by blast
  then show ?case
  proof cases
    case finished
    let ?r = "sat_add (as_restarts a) 1"
    have "hunted (a\<lparr>as_restarts := ?r, as_generator := spawn_generator rnd (as_spec a) bp ?r\<rparr>)"
      using loop.prems spawn_ok by (simp add: hunted_def)
    then show ?thesis using loop.IH(1) [OF finished refl] loop.prems finished by (simp add: poll_loop.simps [of _ _ _ _ _ a] Let_def)
  next
    case early
    then show ?thesis using loop.prems by (simp add: poll_loop.simps shaped_Nil)
  next
    case step
    obtain g' b where b: "gen_step rnd now s ?g = (g', b)" by fastforce
    let ?a = "a\<lparr>as_generator := g'\<rparr>"
    have h: "hunted ?a" "shaped rnd b"
      using loop.prems b step_keeps [of ?g rnd now s] step_shaped [of ?g rnd now s] by (simp_all add: hunted_def)
    show ?thesis
    proof (cases "32 \<le> k + 1")
      case True
      then show ?thesis using h step b by (simp add: poll_loop.simps [of _ _ _ _ _ a] Let_def)
    next
      case False
      obtain a' r where r: "poll_loop rnd bp now (k + 1) (seq_after s b) ?a = (a', r)" by fastforce
      have "hunted a' \<and> shaped rnd r"
        using loop.IH(2) [OF step b [symmetric] refl refl False] loop.prems h r by simp
      then show ?thesis
        using h step b False r by (simp add: poll_loop.simps [of _ _ _ _ _ a] Let_def shaped_append)
    qed
  qed
qed

definition hunting :: "orchestrator \<Rightarrow> bool" where
  "hunting orch \<longleftrightarrow> so_base_price orch = base \<and> (case so_active orch of None \<Rightarrow> True | Some a \<Rightarrow> hunted a)"

lemma so_poll_shaped:
  assumes "rounding rnd" "exact_ints rnd" "hunting orch"
  shows "hunting (fst (so_poll rnd now s orch)) \<and> shaped rnd (snd (so_poll rnd now s orch))"
proof (cases "so_active orch")
  case (Some a)
  then have "hunted a" "so_base_price orch = base" using assms(3) by (simp_all add: hunting_def)
  with poll_loop_shaped [OF assms(1,2) refl this(1), of now 0 s]
  show ?thesis using Some by (simp add: so_poll_def so_stop_def hunting_def shaped_Nil Let_def case_prod_unfold)
qed (use assms(3) in \<open>simp add: so_poll_def shaped_Nil\<close>)

lemma poll_all_shaped:
  assumes "rounding rnd" "exact_ints rnd"
  shows "hunting orch \<Longrightarrow> shaped rnd (snd (poll_all rnd ps orch))"
proof (induction ps arbitrary: orch)
  case (Cons p ps)
  obtain now s where p: "p = (now, s)" by (cases p)
  show ?case
    using so_poll_shaped [OF assms Cons.prems, of now s] Cons.IH [of "fst (so_poll rnd now s orch)"]
    by (simp add: p Let_def case_prod_unfold shaped_append)
qed (simp add: shaped_Nil)

lemma clamp_no_NaN: "x \<noteq> NaN \<Longrightarrow> f64_clamp (Fin 0) (Fin 1) x \<noteq> NaN"
  using clamp_unit [of x] by auto

lemma start_hunting:
  assumes "rounding rnd" "exact_ints rnd" "ss_kind spec = kind" "ss_severity spec \<noteq> NaN" "so_base_price orch = base"
  shows "hunting (fst (so_start rnd spec now orch))"
  using assms clamp_no_NaN spawn_ok by (simp add: so_start_def hunting_def hunted_def Let_def)

text \<open>The first poll of a storm, if it comes before the expiry, emits a batch.\<close>

lemma first_poll_emits:
  assumes "rounding rnd" "exact_ints rnd" "ss_kind spec = kind" "ss_severity spec \<noteq> NaN" "so_base_price orch = base"
    and "now < sat_add start (max (ss_duration_ns spec) 1)"
  shows "least \<le> length (snd (so_poll rnd now s (fst (so_start rnd spec start orch))))"
proof -
  let ?spec = "spec\<lparr>ss_severity := f64_clamp (Fin 0) (Fin 1) (ss_severity spec), ss_duration_ns := max (ss_duration_ns spec) 1\<rparr>"
  let ?g = "spawn_generator rnd ?spec base 0"
  have g: "gen_next_due_ns ?g = 0" "least \<le> length (snd (gen_step rnd now s ?g))"
    using spawn_emits [of rnd ?spec] assms clamp_no_NaN by simp_all
  show ?thesis
    using assms(5,6) g by (auto simp: so_start_def so_poll_def has_expired_def Let_def case_prod_unfold
        poll_loop.simps [of _ _ _ 0] spawn_not_finished not_le)
qed

text \<open>What follows for the whole storm.\<close>

lemma feed_shaped:
  assumes "rounding rnd" "exact_ints rnd" "ss_kind spec = kind" "ss_severity spec \<noteq> NaN"
  shows "shaped rnd (storm_feed rnd base spec start polls)"
  unfolding storm_feed_def by (intro poll_all_shaped start_hunting assms) (simp add: so_new_def)

lemma feed_long:
  assumes "rounding rnd" "exact_ints rnd" "ss_kind spec = kind" "ss_severity spec \<noteq> NaN"
    and "polls \<noteq> []" "fst (hd polls) < sat_add start (max (ss_duration_ns spec) 1)"
  shows "least \<le> length (storm_feed rnd base spec start polls)"
proof -
  obtain now s ps where p: "polls = (now, s) # ps" using assms(5) by (cases polls) auto
  show ?thesis
    unfolding p by (intro storm_feed_Cons first_poll_emits assms(1-4)) (use assms(6) p in \<open>simp_all add: so_new_def\<close>)
qed

end

section \<open>Spoofing\<close>

lemma spoof_pair:
  assumes "thr \<le> q" "w * 2 \<noteq> 0" "1 \<le> w"
  shows "\<exists>d1 ce. sp_process rnd (mk s ts OrderAdd sd p q oid) (sp_new thr w) = (d1, None) \<and>
    sp_process rnd (mk (s + 1) ts1 OrderCancel sd p q oid) d1 = (sp_new thr w, Some ce)"
proof -
  let ?d1 = "(sp_new thr w)\<lparr>sp_large_orders := [(s, ts, oid, q)]\<rparr>"
  have "0 < w * 2" using assms(2) by (simp add: word_gt_0)
  then have "sp_process rnd (mk s ts OrderAdd sd p q oid) (sp_new thr w) = (?d1, None)"
    using assms(1) by (simp add: sp_process_def sp_new_def event_type_from_u8_def)
  moreover have "sp_process rnd (mk (s + 1) ts1 OrderCancel sd p q oid) ?d1 =
      (sp_new thr w, Some (sp_flag rnd thr (s, ts, oid, q) (mk (s + 1) ts1 OrderCancel sd p q oid)))"
    using assms(3) by (simp add: sp_process_def sp_new_def event_type_from_u8_def)
  ultimately show ?thesis by blast
qed

lemma sg_cycles_qty [simp]: "sg_qty (fst (sg_cycles rnd n s ts g)) = sg_qty g"
  by (induction n arbitrary: s ts g) (simp_all add: Let_def case_prod_unfold)

lemma sg_cycles_caught:
  assumes "w * 2 \<noteq> 0" "1 \<le> w"
  shows "thr \<le> sg_qty g \<Longrightarrow> caught (sp_process rnd) (sp_new thr w) (snd (sg_cycles rnd n s ts g))"
proof (induction n arbitrary: s ts g)
  case (Suc n)
  obtain r sd where 1: "coin_side rnd (sg_rng g) = (r, sd)" by fastforce
  obtain r' v where 2: "next_below 4 r = (r', v)" by fastforce
  let ?p = "away sd (sg_base_price g) (1 + v)" and ?h = "sg_add_cancel_gap_ns g div 2"
  have "caught (sp_process rnd) (sp_new thr w)
      (snd (sg_cycles rnd n (s + 2) (sat_add (sat_add ts ?h) ?h) (g\<lparr>sg_rng := r', sg_next_oid := sg_next_oid g + 1\<rparr>)))"
    using Suc.prems by (intro Suc.IH) simp
  then show ?case
    using spoof_pair [OF Suc.prems assms, of rnd s ts sd ?p "sg_next_oid g" "sat_add ts ?h"]
    by (auto simp: 1 2 Let_def case_prod_unfold intro: caught_pair)
qed (simp add: caught_Nil)

lemma cycles_pos: "1 \<le> (a :: u32) \<Longrightarrow> b \<noteq> 0 \<Longrightarrow> 0 < unat (min a b)"
  by (cases "a \<le> b") (auto simp: min_def unat_gt_0)

definition sp_rest :: "spoof_detector \<Rightarrow> bool" where
  "sp_rest d \<longleftrightarrow> (\<exists>thr w. d = sp_new thr w \<and> thr \<le> 2000 \<and> 1 \<le> w \<and> w < 2 ^ 63)"

fun sg_big :: "generator \<Rightarrow> bool" where
  "sg_big (GSpoof g) \<longleftrightarrow> 2000 \<le> sg_qty g"
| "sg_big _ \<longleftrightarrow> False"

lemma sg_big_cases: "sg_big g \<Longrightarrow> (\<And>h. g = GSpoof h \<Longrightarrow> 2000 \<le> sg_qty h \<Longrightarrow> P) \<Longrightarrow> P"
  by (cases g) simp_all

lemma sg_new_qty:
  assumes "rounding rnd" "exact_ints rnd" "sev \<noteq> NaN"
  shows "2000 \<le> sg_qty (sg_new rnd seed sev bp n)" and "1 \<le> sg_cycles_per_step (sg_new rnd seed sev bp n)"
  using lerp_u64_between(1) [OF assms, of 2000 20000] lerp_round_between(1) [OF assms, of 1 6]
  by (simp_all add: sg_new_def word_le_nat_alt)

lemma sg_cycles_emits: "0 < n \<Longrightarrow> 2 \<le> length (snd (sg_cycles rnd n s ts g))"
  by (cases n) (simp_all add: Let_def case_prod_unfold)

text \<open>Against any detector at rest with these thresholds, a stream of cycles is caught.\<close>

definition spoof_caught :: "(rat \<Rightarrow> f64) \<Rightarrow> sequenced_event list \<Rightarrow> bool" where
  "spoof_caught rnd es \<longleftrightarrow> (\<forall>d. sp_rest d \<longrightarrow> caught (sp_process rnd) d es)"

interpretation spoofing: storm_stream spoof_caught Spoof sg_big 2 bp for bp
proof
  show "spoof_caught rnd []" "spoof_caught rnd xs \<Longrightarrow> spoof_caught rnd ys \<Longrightarrow> spoof_caught rnd (xs @ ys)" for rnd xs ys
    by (simp_all add: spoof_caught_def caught_Nil caught_append)
  show "sg_big (fst (gen_step rnd now s g))" if "sg_big g" for g rnd now s
    using that by (auto elim!: sg_big_cases simp: sg_step_def Let_def case_prod_unfold)
  show "spoof_caught rnd (snd (gen_step rnd now s g))" if "sg_big g" for g rnd now s
    unfolding spoof_caught_def
  proof (intro allI impI)
    fix d assume "sp_rest d"
    obtain h where h: "g = GSpoof h" "2000 \<le> sg_qty h" using \<open>sg_big g\<close> by (rule sg_big_cases)
    obtain thr w where w: "d = sp_new thr w" "thr \<le> 2000" "1 \<le> w" "w < 2 ^ 63"
      using \<open>sp_rest d\<close> by (auto simp: sp_rest_def)
    have "unat (w * 2) \<noteq> 0" using w(3) unat_double [OF w(4)] by (simp add: word_le_nat_alt)
    then have "w * 2 \<noteq> 0" by auto
    then show "caught (sp_process rnd) d (snd (gen_step rnd now s g))"
      using sg_cycles_caught [OF _ w(3), of thr h rnd "unat (min (sg_cycles_per_step h) (sg_cycles_remaining h))" s now] h w
      by (simp add: sg_step_def Let_def case_prod_unfold)
  qed
  fix rnd r now s and spec :: storm_spec
  assume a: "rounding rnd" "exact_ints rnd" "ss_kind spec = Spoof" "ss_severity spec \<noteq> NaN"
  show "sg_big (spawn_generator rnd spec bp r)"
    using a sg_new_qty by (simp add: spawn_generator_def Let_def)
  let ?g = "sg_new rnd (ss_seed spec + ucast r) (ss_severity spec) bp (cycles_from_duration (ss_duration_ns spec) 5000000 4)"
  have "sg_cycles_remaining ?g \<noteq> 0" by (simp add: sg_new_def cycles_from_duration_pos)
  then have "0 < unat (min (sg_cycles_per_step ?g) (sg_cycles_remaining ?g))"
    by (rule cycles_pos [OF sg_new_qty(2) [OF a(1,2,4)]])
  from sg_cycles_emits [OF this] show "gen_next_due_ns (spawn_generator rnd spec bp r) = 0 \<and>
      2 \<le> length (snd (gen_step rnd now s (spawn_generator rnd spec bp r)))"
    using a(3) by (simp add: spawn_generator_def Let_def sg_step_def case_prod_unfold) (simp add: sg_new_def)
qed

section \<open>Phantom liquidity\<close>

definition pd_rest :: "phantom_detector \<Rightarrow> bool" where
  "pd_rest d \<longleftrightarrow> (\<exists>gap tgap n q. d = pd_new gap tgap n q \<and> 1 \<le> gap \<and> q \<le> 200)"

lemma phantom_pair:
  assumes "pd_rest d" "200 \<le> q"
  shows "\<exists>d1 ce. pd_process rnd (mk s ts OrderAdd sd p q oid) d = (d1, None) \<and>
    pd_process rnd (mk (s + 1) ts1 OrderCancel sd p q oid) d1 = (d, Some ce)"
proof -
  obtain gap tgap n m where d: "d = pd_new gap tgap n m" "1 \<le> gap" "m \<le> 200" using assms(1) by (auto simp: pd_rest_def)
  let ?k = "(side_code sd, p)"
  let ?t = "\<lparr>lt_created_seq = s, lt_created_ts = ts, lt_added_qty = q, lt_cancelled_qty = 0, lt_order_count = 1, lt_cancel_count = 0\<rparr>"
  let ?d1 = "d\<lparr>pd_levels := om_insert ?k ?t om_empty, pd_orders := if oid = 0 then om_empty else om_insert oid ?k om_empty\<rparr>"
  have e: "evict_oldest d = d" by (simp add: evict_oldest_def d(1) pd_new_def)
  have "pd_process rnd (mk s ts OrderAdd sd p q oid) d = (?d1, None)"
    by (simp add: pd_process_def pd_on_add_def e event_type_from_u8_def Let_def) (simp add: d(1) pd_new_def)
  moreover have "\<exists>ce. pd_process rnd (mk (s + 1) ts1 OrderCancel sd p q oid) ?d1 = (d, Some ce)"
  proof -
    have r: "om_remove k (om_insert k v om_empty) = om_empty" for k :: "'x :: linorder" and v :: 'y
      by (rule omap_eqI) (simp add: om_lookup_remove om_lookup_insert)
    have "sat_sub (s + 1) s \<le> 1"
      by (cases "s = - 1") (simp_all add: sat_sub_def)
    then have g: "sat_sub (s + 1) s \<le> gap" using d(2) by simp
    have "\<not> q < m" using assms(2) d(3) by simp
    moreover have "pd_resolve (se_event (mk (s + 1) ts1 OrderCancel sd p q oid)) ?d1 = (d\<lparr>pd_levels := om_insert ?k ?t om_empty\<rparr>, Some ?k)"
      using r [of oid ?k] by (simp add: pd_resolve_def om_lookup_insert d(1) pd_new_def)
    moreover have "note_cancel (se_event (mk (s + 1) ts1 OrderCancel sd p q oid)) ?t = ?t\<lparr>lt_cancelled_qty := q, lt_cancel_count := 1\<rparr>"
      using assms(2) by (auto simp: note_cancel_def removed_qty_def sat_add_def)
    moreover have "d\<lparr>pd_levels := om_empty\<rparr> = d" by (simp add: d(1) pd_new_def)
    moreover have "0 < gap" using d(2) by (auto simp: word_gt_0)
    ultimately show ?thesis using g r [of ?k ?t]
      by (simp add: pd_process_def pd_on_cancel_def event_type_from_u8_def om_lookup_insert
          fully_cancelled_def pd_judge_def Let_def) (simp add: d(1) pd_new_def)
  qed
  ultimately show ?thesis by blast
qed

lemma pg_cycles_caught: "pd_rest d \<Longrightarrow> caught (pd_process rnd) d (snd (pg_cycles rnd n s ts g))"
proof (induction n arbitrary: s ts g)
  case (Suc n)
  obtain r sd where 1: "coin_side rnd (pg_rng g) = (r, sd)" by fastforce
  obtain r' v where 2: "next_below (pg_band_ticks g) r = (r', v)" by fastforce
  obtain r'' q where 3: "next_below 800 r' = (r'', q)" by fastforce
  let ?p = "away sd (pg_base_price g) (2 + v)" and ?h = "pg_add_cancel_gap_ns g div 2"
  have "q < 800" using 3 by (auto simp: next_below_def Let_def case_prod_unfold word_less_nat_alt unat_mod)
  then have "200 \<le> 200 + q" by (simp add: word_le_nat_alt word_less_nat_alt unat_word_ariths)
  from phantom_pair [OF Suc.prems this, of rnd s ts sd ?p "pg_next_oid g" "sat_add ts ?h"] show ?case
    using Suc.IH [OF Suc.prems, of "s + 2" "sat_add (sat_add ts ?h) ?h" "g\<lparr>pg_rng := r'', pg_next_oid := pg_next_oid g + 1\<rparr>"]
    by (auto simp: 1 2 3 Let_def case_prod_unfold intro: caught_pair)
qed (simp add: caught_Nil)

lemma pg_cycles_emits: "0 < n \<Longrightarrow> 2 \<le> length (snd (pg_cycles rnd n s ts g))"
  by (cases n) (simp_all add: Let_def case_prod_unfold)

fun pg_any :: "generator \<Rightarrow> bool" where
  "pg_any (GPhantom g) \<longleftrightarrow> True"
| "pg_any _ \<longleftrightarrow> False"

lemma pg_any_cases: "pg_any g \<Longrightarrow> (\<And>h. g = GPhantom h \<Longrightarrow> P) \<Longrightarrow> P"
  by (cases g) simp_all

definition phantom_caught :: "(rat \<Rightarrow> f64) \<Rightarrow> sequenced_event list \<Rightarrow> bool" where
  "phantom_caught rnd es \<longleftrightarrow> (\<forall>d. pd_rest d \<longrightarrow> caught (pd_process rnd) d es)"

interpretation phantom_storm: storm_stream phantom_caught PhantomLiquidity pg_any 2 bp for bp
proof
  show "phantom_caught rnd []" "phantom_caught rnd xs \<Longrightarrow> phantom_caught rnd ys \<Longrightarrow> phantom_caught rnd (xs @ ys)" for rnd xs ys
    by (simp_all add: phantom_caught_def caught_Nil caught_append)
  show "pg_any (fst (gen_step rnd now s g))" if "pg_any g" for g rnd now s
    using that by (auto elim!: pg_any_cases simp: Let_def case_prod_unfold)
  show "phantom_caught rnd (snd (gen_step rnd now s g))" if "pg_any g" for g rnd now s
    using that by (auto elim!: pg_any_cases simp: phantom_caught_def pg_step_def Let_def case_prod_unfold pg_cycles_caught)
  fix rnd r now s and spec :: storm_spec
  assume a: "rounding rnd" "exact_ints rnd" "ss_kind spec = PhantomLiquidity" "ss_severity spec \<noteq> NaN"
  show "pg_any (spawn_generator rnd spec bp r)" using a(3) by (simp add: spawn_generator_def Let_def)
  let ?g = "pg_new rnd (ss_seed spec + ucast r) (ss_severity spec) bp (cycles_from_duration (ss_duration_ns spec) 5000000 4)"
  have "1 \<le> pg_cycles_per_step ?g"
    using lerp_round_between(1) [OF a(1,2,4), of 1 8] by (simp add: pg_new_def word_le_nat_alt)
  moreover have "pg_cycles_remaining ?g \<noteq> 0" by (simp add: pg_new_def cycles_from_duration_pos)
  ultimately have "0 < unat (min (pg_cycles_per_step ?g) (pg_cycles_remaining ?g))" by (rule cycles_pos)
  from pg_cycles_emits [OF this] show "gen_next_due_ns (spawn_generator rnd spec bp r) = 0 \<and>
      2 \<le> length (snd (gen_step rnd now s (spawn_generator rnd spec bp r)))"
    using a(3) by (simp add: spawn_generator_def Let_def pg_step_def case_prod_unfold) (simp add: pg_new_def)
qed

section \<open>Every cycle is flagged\<close>

text \<open>
  Property C35. A spoofing storm and a phantom-liquidity storm are caught by their detectors completely: whatever the seed,
  the severity (a number), the duration, the base price and the times and sequence numbers of the polls, a detector
  at rest that reads everything the storm emits raises one flag for every add and cancel pair and is at rest
  again; and a storm whose first poll comes before the expiry emits something. The thresholds are any that the
  generators aim at: a large order of at most 2000 and a window of at least one event, a level of at most 200 and a
  sequence gap of at least one.
\<close>

theorem cycle_storms_caught:
  assumes "rounding rnd" and "exact_ints rnd" and "ss_severity spec \<noteq> NaN"
    and "thr \<le> 2000" and "1 \<le> w" and "w < 2 ^ 63" and "1 \<le> gap" and "qty \<le> 200"
  shows "(ss_kind spec = Spoof \<longrightarrow> caught (sp_process rnd) (sp_new thr w) (storm_feed rnd base spec start polls)) \<and>
    (ss_kind spec = PhantomLiquidity \<longrightarrow>
      caught (pd_process rnd) (pd_new gap tgap n qty) (storm_feed rnd base spec start polls)) \<and>
    (ss_kind spec \<in> {Spoof, PhantomLiquidity} \<and> polls \<noteq> [] \<and> fst (hd polls) < sat_add start (max (ss_duration_ns spec) 1) \<longrightarrow>
      2 \<le> length (storm_feed rnd base spec start polls))"
proof (intro conjI impI)
  have r: "sp_rest (sp_new thr w)" "pd_rest (pd_new gap tgap n qty)" using assms(4-8) by (auto simp: sp_rest_def pd_rest_def)
  show "caught (sp_process rnd) (sp_new thr w) (storm_feed rnd base spec start polls)" if "ss_kind spec = Spoof"
    using r(1) spoofing.feed_shaped [OF assms(1,2) that assms(3)] by (simp add: spoof_caught_def)
  show "caught (pd_process rnd) (pd_new gap tgap n qty) (storm_feed rnd base spec start polls)" if "ss_kind spec = PhantomLiquidity"
    using r(2) phantom_storm.feed_shaped [OF assms(1,2) that assms(3)] by (simp add: phantom_caught_def)
  show "2 \<le> length (storm_feed rnd base spec start polls)"
    if "ss_kind spec \<in> {Spoof, PhantomLiquidity} \<and> polls \<noteq> [] \<and> fst (hd polls) < sat_add start (max (ss_duration_ns spec) 1)"
    using that spoofing.feed_long [OF assms(1,2) _ assms(3)] phantom_storm.feed_long [OF assms(1,2) _ assms(3)] by blast
qed

theorem cycle_storms_caught_witness:
  "let spec = \<lparr>ss_kind = Spoof, ss_severity = Fin (1 / 2), ss_duration_ns = 1000000000, ss_seed = 7\<rparr>;
       es = storm_feed Fin 10000 spec 0 [(0, 1), (20000000, 99)]
   in 2 \<le> length es \<and> caught (sp_process Fin) (sp_new 1000 100) es"
  using cycle_storms_caught [of Fin "\<lparr>ss_kind = Spoof, ss_severity = Fin (1 / 2), ss_duration_ns = 1000000000, ss_seed = 7\<rparr>"
      1000 100 256 100 10000 0 "[(0, 1), (20000000, 99)]" 5000000 4096]
  by (simp add: rounding_Fin exact_ints_Fin sat_add_def)

end
