(* ===== verification/FL_QuoteStorm.thy ===== *)
theory FL_QuoteStorm
  imports FL_ClosedLoop
begin

text \<open>
  The quote-stuffing storm against its detector. The generator emits blocks of one trade and at least eight
  cancels, so every suffix of its stream has at least eight cancels for a trade. The detector sees a suffix.
\<close>

section \<open>Streams heavy in cancels\<close>

definition stuffed :: "nat \<Rightarrow> sequenced_event list \<Rightarrow> bool" where
  "stuffed c es \<longleftrightarrow> (\<forall>e \<in> set es. ev_event_type (se_event e) \<in> {event_type_code Trade, event_type_code OrderCancel}) \<and>
     (\<forall>i. c * count_type Trade (map qs_entry (drop i es)) \<le> count_type OrderCancel (map qs_entry (drop i es)))"

lemma count_type_append [simp]: "count_type t (xs @ ys) = count_type t xs + count_type t ys"
  by (simp add: count_type_def)

lemma stuffed_Nil: "stuffed c []"
  by (simp add: stuffed_def count_type_def)

lemma stuffed_append: "stuffed c xs \<Longrightarrow> stuffed c ys \<Longrightarrow> stuffed c (xs @ ys)"
  by (auto simp: stuffed_def drop_map distrib_left intro!: add_mono)

definition only_cancels :: "sequenced_event list \<Rightarrow> bool" where
  "only_cancels es \<longleftrightarrow> (\<forall>e \<in> set es. ev_event_type (se_event e) = event_type_code OrderCancel)"

lemma count_only_cancels:
  assumes "only_cancels es"
  shows "count_type Trade (map qs_entry es) = 0" and "count_type OrderCancel (map qs_entry es) = length es"
  using assms by (induction es) (simp_all add: only_cancels_def count_type_def qs_entry_def)

lemma stuffed_block:
  assumes "only_cancels cs" "c \<le> length cs"
  shows "stuffed c (mk s ts Trade sd p q oid # cs)"
proof -
  have "only_cancels (drop i cs)" for i using assms(1) in_set_dropD unfolding only_cancels_def by fast
  note n = count_only_cancels [OF this]
  have "c * count_type Trade (map qs_entry (drop i (mk s ts Trade sd p q oid # cs))) \<le>
      count_type OrderCancel (map qs_entry (drop i (mk s ts Trade sd p q oid # cs)))" for i
  proof (cases i)
    case 0
    then show ?thesis using n [of 0] assms(2) by (simp add: count_type_def qs_entry_def)
  next
    case (Suc j)
    then show ?thesis using n [of j] by simp
  qed
  then show ?thesis using assms(1) by (simp add: stuffed_def only_cancels_def)
qed

section \<open>The generator\<close>

lemma qg_cancels_only: "only_cancels (snd (qg_cancels n sd dt s ts g))"
  by (induction n arbitrary: s ts g) (simp_all add: only_cancels_def Let_def case_prod_unfold)

lemma qg_trades_stuffed:
  "c \<le> unat (qg_cancels_per_trade g) \<Longrightarrow> stuffed c (snd (qg_trades i n dt s ts g))"
proof (induction n arbitrary: i s ts g)
  case (Suc n)
  let ?sd = "if i mod 2 = 0 then Ask else Bid" and ?k = "unat (qg_cancels_per_trade g)"
  obtain g' cs where cs: "qg_cancels ?k (other_side ?sd) dt (s + 1) (sat_add ts dt) (g\<lparr>qg_next_oid := qg_next_oid g + 1\<rparr>) = (g', cs)"
    by fastforce
  have g': "qg_cancels_per_trade g' = qg_cancels_per_trade g"
    using qg_cancels_fields [of ?k "other_side ?sd" dt "s + 1" "sat_add ts dt" "g\<lparr>qg_next_oid := qg_next_oid g + 1\<rparr>"] cs by simp
  have "only_cancels cs" "length cs = ?k"
    using qg_cancels_only [of ?k "other_side ?sd" dt "s + 1" "sat_add ts dt" "g\<lparr>qg_next_oid := qg_next_oid g + 1\<rparr>"]
      qg_cancels_batch [of "s + 1" ?k "other_side ?sd" dt "sat_add ts dt" "g\<lparr>qg_next_oid := qg_next_oid g + 1\<rparr>"] cs by simp_all
  from stuffed_append [OF stuffed_block [OF this(1)] Suc.IH] this(2) Suc.prems g' show ?case
    by (simp add: cs Let_def case_prod_unfold)
qed (simp add: stuffed_Nil)

fun qg_eight :: "generator \<Rightarrow> bool" where
  "qg_eight (GQuote g) \<longleftrightarrow> 8 \<le> unat (qg_cancels_per_trade g)"
| "qg_eight _ \<longleftrightarrow> False"

lemma qg_eight_cases: "qg_eight g \<Longrightarrow> (\<And>h. g = GQuote h \<Longrightarrow> 8 \<le> unat (qg_cancels_per_trade h) \<Longrightarrow> P) \<Longrightarrow> P"
  by (cases g) simp_all

lemma qg_new_counts:
  assumes "rounding rnd" "exact_ints rnd" "sev \<noteq> NaN"
  shows "8 \<le> unat (qg_cancels_per_trade (qg_new rnd seed sev bp n))" and "4 \<le> unat (qg_trades_per_step (qg_new rnd seed sev bp n))"
  using lerp_round_between(1) [OF assms, of 8 16] lerp_round_between(1) [OF assms, of 4 6] by (simp_all add: qg_new_def)

interpretation stuffing: storm_stream "\<lambda>_. stuffed 8" QuoteStuff qg_eight 36 bp for bp
proof
  show "stuffed 8 []" "stuffed 8 xs \<Longrightarrow> stuffed 8 ys \<Longrightarrow> stuffed 8 (xs @ ys)" for xs ys
    by (simp_all add: stuffed_Nil stuffed_append)
  show "qg_eight (fst (gen_step rnd now s g))" if "qg_eight g" for g rnd now s
    using that qg_step_batch by (auto elim!: qg_eight_cases simp: Let_def case_prod_unfold)
  show "stuffed 8 (snd (gen_step rnd now s g))" if "qg_eight g" for g rnd now s
    using that by (auto elim!: qg_eight_cases simp: qg_step_def Let_def case_prod_unfold intro: qg_trades_stuffed)
  fix rnd r now s and spec :: storm_spec
  assume a: "rounding rnd" "exact_ints rnd" "ss_kind spec = QuoteStuff" "ss_severity spec \<noteq> NaN"
  note n = qg_new_counts [OF a(1,2,4), of "ss_seed spec + ucast r" bp "cycles_from_duration (ss_duration_ns spec) 10000000 1"]
  show "qg_eight (spawn_generator rnd spec bp r)" using a(3) n(1) by (simp add: spawn_generator_def Let_def)
  show "gen_next_due_ns (spawn_generator rnd spec bp r) = 0 \<and>
      36 \<le> length (snd (gen_step rnd now s (spawn_generator rnd spec bp r)))"
    using a(3) mult_le_mono [OF n(2) Suc_le_mono [THEN iffD2, OF n(1)]]
    by (simp add: spawn_generator_def Let_def case_prod_unfold qg_step_batch) (simp add: qg_new_def)
qed

section \<open>The detector fires\<close>

lemma stuffed_tracked: "stuffed c es \<Longrightarrow> e \<in> set es \<Longrightarrow> qs_tracked e"
  by (auto simp: stuffed_def qs_tracked_def event_type_from_u8_def)

lemma count_trades_cancels:
  "\<forall>e \<in> set es. ev_event_type (se_event e) \<in> {event_type_code Trade, event_type_code OrderCancel} \<Longrightarrow>
   count_type Trade (map qs_entry es) + count_type OrderCancel (map qs_entry es) = length es"
  by (induction es) (auto simp: count_type_def qs_entry_def)

lemma ratio_ge:
  assumes "rounding rnd" "exact_ints rnd" "0 < t" "8 * t \<le> c" "t \<le> 2 ^ 53" "c \<le> 2 ^ 53"
  shows "f64_le (Fin 8) (f64_div rnd (f64_of_nat rnd c) (f64_of_nat rnd t))"
proof -
  have x: "rnd (of_nat k) = Fin (of_nat k)" if "k \<le> 2 ^ 53" for k
    using exact_intsD [OF assms(2), of "int k"] that by simp
  have "rnd 8 = Fin 8" using x [of 8] by simp
  moreover have "(8 :: rat) \<le> of_nat c / of_nat t"
    using assms(3) of_nat_mono [OF assms(4), where 'a = rat] by (simp add: le_divide_eq)
  then have "f64_le (rnd 8) (rnd (of_nat c / of_nat t))" using assms(1) by (simp add: rounding_def)
  ultimately show ?thesis using assms(3) by (simp add: f64_of_nat_def x [OF assms(5)] x [OF assms(6)])
qed

lemma stuffed_flag:
  assumes "rounding rnd" "exact_ints rnd" "stuffed 8 es" "f64_le thr (Fin 8)" "16 \<le> n" "n div 2 \<le> length es" "n \<le> 2 ^ 53"
  shows "\<exists>ce. qs_flag rnd n thr (last_n n (map qs_entry es)) se = Some ce \<and> ce_end_seq ce = se_seq se"
proof -
  let ?w = "last_n n (map qs_entry es)"
  let ?t = "count_type Trade ?w" and ?c = "count_type OrderCancel ?w"
  have w: "?w = map qs_entry (drop (length es - n) es)" by (simp add: last_n_def drop_map)
  have le: "8 * ?t \<le> ?c" using assms(3) unfolding w stuffed_def by blast
  have "?t + ?c = length (drop (length es - n) es)"
    unfolding w using assms(3) by (intro count_trades_cancels) (auto simp: stuffed_def dest: in_set_dropD)
  then have len: "?t + ?c = min n (length es)" by simp
  then have "8 \<le> ?t + ?c" using assms(5,6) by simp
  then have "8 * max ?t 1 \<le> ?c" using le by (simp add: max_def)
  moreover have "?c \<le> n" using len by simp
  ultimately have "f64_le (Fin 8) (f64_div rnd (f64_of_nat rnd ?c) (f64_of_nat rnd (max ?t 1)))"
    using assms(7) by (intro ratio_ge [OF assms(1,2)]) simp_all
  then have "f64_le thr (f64_div rnd (f64_of_nat rnd ?c) (f64_of_nat rnd (max ?t 1)))" by (rule f64_le_trans [OF assms(4)])
  moreover have "n div 2 \<le> length ?w" using assms(6) by (simp add: last_n_def)
  ultimately show ?thesis by (simp add: qs_flag_def Let_def case_prod_unfold)
qed

lemma detect_qs_run: "fst (detect (qs_process rnd) hs (qs_new n thr)) = qs_run rnd n thr hs"
proof -
  have "fst (detect (qs_process rnd) hs d) = fold (\<lambda>se d. fst (qs_process rnd se d)) hs d" for d
    by (induction hs arbitrary: d) (simp_all add: Let_def case_prod_unfold)
  then show ?thesis by (simp add: qs_run_def)
qed

lemma stuffed_detected:
  assumes "rounding rnd" "exact_ints rnd" "stuffed 8 es" "f64_le thr (Fin 8)" "16 \<le> n" "n div 2 \<le> length es" "n \<le> 2 ^ 53"
  shows "\<exists>ces ce. snd (detect (qs_process rnd) es (qs_new n thr)) = ces @ [ce] \<and> ce_end_seq ce = se_seq (last es)"
proof (cases es rule: rev_cases)
  case (snoc hs se)
  let ?d = "qs_run rnd n thr hs"
  have tr: "filter qs_tracked hs = hs" "qs_tracked se"
    using stuffed_tracked [OF assms(3)] snoc by (auto intro: filter_True)
  have "qs_push se ?d = last_n n (map qs_entry es)"
    using qs_push_last_n [of ?d n hs se] qs_run_window [of rnd n thr hs] qs_run_fields [of rnd n thr hs] assms(5)
    by (simp add: tr(1) snoc max_def)
  then have "\<exists>ce. snd (qs_process rnd se ?d) = Some ce \<and> ce_end_seq ce = se_seq se"
    using stuffed_flag [OF assms] qs_run_fields [of rnd n thr hs] tr(2) by (simp add: qs_process_def Let_def)
  then show ?thesis by (auto simp: snoc detect_append detect_qs_run Let_def case_prod_unfold)
qed (use assms(5,6) in simp)

text \<open>
  Property C36. A quote-stuffing storm is caught: whatever the seed, the severity (a number), the base price and the
  polls, a fresh detector whose window holds 16 events or more and whose threshold is at most 8 cancels per trade flags the
  last event of what the storm has emitted, as soon as that is half a window; the first poll before the expiry
  already emits 36 events, so with the window of 48 of the default chain it raises a flag.
\<close>

theorem quote_storm_caught:
  assumes "rounding rnd" and "exact_ints rnd" and "ss_kind spec = QuoteStuff" and "ss_severity spec \<noteq> NaN"
    and "f64_le thr (Fin 8)" and "16 \<le> n" and "n \<le> 2 ^ 53"
  shows "(n div 2 \<le> length (storm_feed rnd base spec start polls) \<longrightarrow>
      (\<exists>ces ce. snd (detect (qs_process rnd) (storm_feed rnd base spec start polls) (qs_new n thr)) = ces @ [ce] \<and>
        ce_end_seq ce = se_seq (last (storm_feed rnd base spec start polls)))) \<and>
    (polls \<noteq> [] \<and> fst (hd polls) < sat_add start (max (ss_duration_ns spec) 1) \<longrightarrow>
      36 \<le> length (storm_feed rnd base spec start polls))"
proof (intro conjI)
  from stuffed_detected [OF assms(1,2) stuffing.feed_shaped [OF assms(1-4)] assms(5,6) _ assms(7)]
  show "n div 2 \<le> length (storm_feed rnd base spec start polls) \<longrightarrow>
      (\<exists>ces ce. snd (detect (qs_process rnd) (storm_feed rnd base spec start polls) (qs_new n thr)) = ces @ [ce] \<and>
        ce_end_seq ce = se_seq (last (storm_feed rnd base spec start polls)))" by blast
  show "polls \<noteq> [] \<and> fst (hd polls) < sat_add start (max (ss_duration_ns spec) 1) \<longrightarrow>
      36 \<le> length (storm_feed rnd base spec start polls)"
    using stuffing.feed_long [OF assms(1-4)] by blast
qed

theorem quote_storm_caught_witness:
  "let spec = \<lparr>ss_kind = QuoteStuff, ss_severity = Fin (1 / 2), ss_duration_ns = 1000000000, ss_seed = 7\<rparr>
   in snd (detect (qs_process Fin) (storm_feed Fin 10000 spec 0 [(0, 1)]) (qs_new 48 (Fin 8))) \<noteq> []"
  using quote_storm_caught [of Fin "\<lparr>ss_kind = QuoteStuff, ss_severity = Fin (1 / 2), ss_duration_ns = 1000000000, ss_seed = 7\<rparr>"
      "Fin 8" 48 10000 0 "[(0, 1)]"]
  by (auto simp: rounding_Fin exact_ints_Fin sat_add_def)

end
