(* ===== verification/FL_FlashStorm.thy ===== *)
theory FL_FlashStorm
  imports FL_ClosedLoop FL_FlashCrashProperties
begin

text \<open>
  The flash-crash detector on a feed that only places orders in a band of prices, and what this means for the
  flash-crash storm, whose band has a fixed width of 400 ticks around the base price whatever the price is.
\<close>

section \<open>A detector in a band\<close>

definition placed :: "(side \<Rightarrow> u64 set) \<Rightarrow> event \<Rightarrow> bool" where
  "placed P e \<longleftrightarrow> (event_type_from_u8 (ev_event_type e) = Some OrderAdd \<longrightarrow>
     (\<forall>sd. ev_side e = side_code sd \<longrightarrow> ev_price e \<in> P sd))"

text \<open>The midprices that a two-sided book in the band can have.\<close>

definition mids :: "(side \<Rightarrow> u64 set) \<Rightarrow> u64 set" where
  "mids P = {(a + b) div 2 |a b. a \<in> P Ask \<and> b \<in> P Bid \<and> b \<le> a}"

definition prices :: "side_book \<Rightarrow> u64 set" where
  "prices m = dom (om_lookup m)"

definition fc_calm :: "(side \<Rightarrow> u64 set) \<Rightarrow> flash_crash_detector \<Rightarrow> bool" where
  "fc_calm P d \<longleftrightarrow> fc_ring d \<and> prices (fc_bids d) \<union> set_option (fc_cached_bb d) \<subseteq> P Bid \<and>
     prices (fc_asks d) \<union> set_option (fc_cached_ba d) \<subseteq> P Ask \<and> tp_mid ` set (fc_window d) \<subseteq> mids P"

lemma fc_calm_mono:
  assumes "fc_calm P d" "fc_rest d' = fc_rest d"
    and "prices (fc_bids d') \<union> set_option (fc_cached_bb d') \<subseteq> prices (fc_bids d) \<union> set_option (fc_cached_bb d) \<union> X"
    and "prices (fc_asks d') \<union> set_option (fc_cached_ba d') \<subseteq> prices (fc_asks d) \<union> set_option (fc_cached_ba d) \<union> Y"
    and "X \<subseteq> P Bid" "Y \<subseteq> P Ask"
  shows "fc_calm P d'"
proof -
  have w: "fc_window d' = fc_window d" "fc_ring d' = fc_ring d" using fc_rest_window [OF assms(2)] by simp_all
  have "prices (fc_bids d') \<union> set_option (fc_cached_bb d') \<subseteq> P Bid" "prices (fc_asks d') \<union> set_option (fc_cached_ba d') \<subseteq> P Ask"
    using assms(1,3-6) unfolding fc_calm_def by (meson order_trans Un_least)+
  then show ?thesis using assms(1) unfolding fc_calm_def w by simp
qed

lemma fc_calm_mid: "fc_calm P d \<Longrightarrow> fc_midprice d = Some m \<Longrightarrow> m \<in> mids P"
  by (auto simp: fc_calm_def fc_midprice_def mid_of_def mids_def split: option.splits if_splits)

lemma prices_prune: "prices (prune_levels sd n (om_insert p v m)) \<subseteq> insert p (prices m)"
proof
  fix x assume "x \<in> prices (prune_levels sd n (om_insert p v m))"
  then obtain y where "om_lookup (prune_levels sd n (om_insert p v m)) x = Some y" by (auto simp: prices_def)
  from prune_lookup [OF this] show "x \<in> insert p (prices m)" by (auto simp: prices_def om_lookup_insert split: if_splits)
qed

lemma prices_sub: "prices (mb_sub_qty p q m) \<subseteq> prices m"
  by (auto simp: prices_def mb_sub_qty_def Let_def om_lookup_insert om_lookup_remove split: option.splits if_splits)

lemma best_in_prices: "set_option (om_last_key m) \<subseteq> prices m" "set_option (om_first_key m) \<subseteq> prices m"
  by (auto simp: prices_def om_last_key_Some om_first_key_Some)

lemma fc_add_books:
  "fc_bids (fc_add_qty sd p q d) = (if sd = 0 then prune_levels sd (fc_max_book_levels d) (om_insert p (level_qty (fc_bids d) p + q) (fc_bids d)) else fc_bids d)"
  "fc_asks (fc_add_qty sd p q d) = (if sd = 0 then fc_asks d else prune_levels sd (fc_max_book_levels d) (om_insert p (level_qty (fc_asks d) p + q) (fc_asks d)))"
  "fc_cached_bb (fc_add_qty sd p q d) \<in> (if sd = 0 then {fc_cached_bb d, Some p} else {fc_cached_bb d})"
  "fc_cached_ba (fc_add_qty sd p q d) \<in> (if sd = 0 then {fc_cached_ba d} else {fc_cached_ba d, Some p})"
  by (simp_all add: fc_add_qty_def fc_book_def fc_set_book_def Let_def)

lemma fc_calm_add:
  assumes "fc_calm P d" "p \<in> P s"
  shows "fc_calm P (fc_add_qty (side_code s) p q d)"
proof (rule fc_calm_mono [OF assms(1) fc_rest_add])
  show "prices (fc_bids (fc_add_qty (side_code s) p q d)) \<union> set_option (fc_cached_bb (fc_add_qty (side_code s) p q d)) \<subseteq>
      prices (fc_bids d) \<union> set_option (fc_cached_bb d) \<union> (if s = Bid then {p} else {})"
    using fc_add_books(3) [of "side_code s" p q d] prices_prune [of 0 _ p _ "fc_bids d"]
    by (cases s) (auto simp: fc_add_books(1))
  show "prices (fc_asks (fc_add_qty (side_code s) p q d)) \<union> set_option (fc_cached_ba (fc_add_qty (side_code s) p q d)) \<subseteq>
      prices (fc_asks d) \<union> set_option (fc_cached_ba d) \<union> (if s = Ask then {p} else {})"
    using fc_add_books(4) [of "side_code s" p q d] prices_prune [of 1 _ p _ "fc_asks d"]
    by (cases s) (auto simp: fc_add_books(2))
qed (use assms(2) in auto)

lemma fc_sub_books:
  "fc_bids (fc_sub_qty sd p q d) = (if sd = 0 then mb_sub_qty p q (fc_bids d) else fc_bids d)"
  "fc_asks (fc_sub_qty sd p q d) = (if sd = 0 then fc_asks d else mb_sub_qty p q (fc_asks d))"
  "fc_cached_bb (fc_sub_qty sd p q d) \<in> {fc_cached_bb d, om_last_key (fc_bids (fc_sub_qty sd p q d))}"
  "fc_cached_ba (fc_sub_qty sd p q d) \<in> {fc_cached_ba d, om_first_key (fc_asks (fc_sub_qty sd p q d))}"
  by (simp_all add: fc_sub_qty_def fc_book_def fc_set_book_def Let_def case_prod_unfold)

lemma fc_calm_sub:
  assumes "fc_calm P d"
  shows "fc_calm P (fc_sub_qty sd p q d)"
proof (rule fc_calm_mono [OF assms fc_rest_sub, where X = "{}" and Y = "{}"])
  let ?d = "fc_sub_qty sd p q d"
  have b: "prices (fc_bids ?d) \<subseteq> prices (fc_bids d)" "prices (fc_asks ?d) \<subseteq> prices (fc_asks d)"
    using prices_sub by (simp_all add: fc_sub_books)
  moreover have "set_option (fc_cached_bb ?d) \<subseteq> prices (fc_bids ?d) \<union> set_option (fc_cached_bb d)"
    "set_option (fc_cached_ba ?d) \<subseteq> prices (fc_asks ?d) \<union> set_option (fc_cached_ba d)"
    using fc_sub_books(3,4) [of sd p q d] best_in_prices by (metis Un_iff insertE singletonD subsetD subsetI)+
  ultimately show "prices (fc_bids ?d) \<union> set_option (fc_cached_bb ?d) \<subseteq> prices (fc_bids d) \<union> set_option (fc_cached_bb d) \<union> {}"
    "prices (fc_asks ?d) \<union> set_option (fc_cached_ba ?d) \<subseteq> prices (fc_asks d) \<union> set_option (fc_cached_ba d) \<union> {}" by blast+
qed simp_all

lemma fc_calm_same:
  assumes "fc_calm P d" "fc_rest d' = fc_rest d" "fc_bids d' = fc_bids d" "fc_asks d' = fc_asks d"
    "fc_cached_bb d' = fc_cached_bb d" "fc_cached_ba d' = fc_cached_ba d"
  shows "fc_calm P d'"
  by (rule fc_calm_mono [OF assms(1,2), where X = "{}" and Y = "{}"]) (simp_all add: assms)

lemma fc_calm_apply:
  assumes c: "fc_calm P d" and p: "placed P e" "event_type_from_u8 (ev_event_type e) = Some ty"
  shows "fc_calm P (fc_apply ty e d)"
proof -
  have t: "fc_calm P (d\<lparr>fc_order_tracker := t\<rparr>)" "fc_calm P (d\<lparr>fc_order_tracker := t, fc_buy_aggr := x\<rparr>)"
    "fc_calm P (d\<lparr>fc_order_tracker := t, fc_sell_aggr := x\<rparr>)" for t x
    by (rule fc_calm_same [OF c]; simp add: fc_rest_def)+
  have add: "fc_calm P (fc_add_qty (ru_side u) (ru_price u) (ru_qty u) (d\<lparr>fc_order_tracker := t\<rparr>))"
    if a: "ty = OrderAdd" "ot_on_add e (fc_order_tracker d) = (t, Some u)" for t u
  proof -
    obtain s where "ru_side u = side_code s" "ev_side e = side_code s" "ru_price u = ev_price e"
      using a(2) by (auto simp: ot_on_add_def anonymous_update_def split: if_splits) (metis side_code.simps)+
    then show ?thesis using fc_calm_add [OF t(1)] p a(1) by (simp add: placed_def)
  qed
  show ?thesis
    using c t fc_calm_sub add
    by (cases ty) (auto simp: fc_apply_def Let_def split: prod.split option.split aggressor_side.split)
qed

lemma fc_calm_push:
  assumes "fc_calm P d" "tp_mid s \<in> mids P"
  shows "fc_calm P (fc_push_snap s d)"
proof -
  have r: "fc_ring d" using assms(1) by (simp add: fc_calm_def)
  have "set (fc_window (fc_push_snap s d)) \<subseteq> set (fc_window d @ [s])"
    using fc_push_snap_window [OF r, of s] by (simp only: lastn_def set_drop_subset)
  moreover have "tp_mid ` set (fc_window d @ [s]) \<subseteq> mids P" using assms by (simp add: fc_calm_def)
  ultimately have "tp_mid ` set (fc_window (fc_push_snap s d)) \<subseteq> mids P" by (meson image_mono order_trans)
  then show ?thesis
    using fc_push_snap_window [OF r, of s] assms(1) by (simp add: fc_calm_def) (simp add: fc_push_snap_def Let_def)
qed

lemma fc_calm_snapshot:
  assumes "fc_calm P d"
  shows "fc_calm P (fc_snapshot_top se d)"
proof (cases "fc_midprice d")
  case (Some m)
  have "fc_calm P (fst (fc_depth_in_band d))"
    by (rule fc_calm_same [OF assms]) (simp_all add: fc_rest_def fc_depth_in_band_def Let_def)
  then show ?thesis
    using fc_calm_push fc_calm_mid [OF assms Some] by (simp add: fc_snapshot_top_def Some Let_def case_prod_unfold)
qed (simp add: fc_snapshot_top_def assms)

text \<open>A band is narrow if no two of its midprices are a crash apart.\<close>

definition narrow :: "(side \<Rightarrow> u64 set) \<Rightarrow> u32 \<Rightarrow> bool" where
  "narrow P bps \<longleftrightarrow> (\<forall>m \<in> mids P. \<forall>m' \<in> mids P. bps_move m m' < bps)"

lemma fc_detect_calm:
  assumes "fc_calm P d" "narrow P (fc_min_gap_bps d)"
  shows "snd (fc_detect rnd se d) = None \<and> fc_calm P (fst (fc_detect rnd se d))"
proof (cases "fc_midprice d")
  case (Some m)
  have "\<not> fc_qualifies d (se_seq se) m s" if "s \<in> set (fc_window d)" for s
    using that assms fc_calm_mid [OF assms(1) Some] by (auto simp: fc_qualifies_def Let_def narrow_def fc_calm_def not_le)
  then have "find (fc_qualifies d (se_seq se) m) (fc_window d) = None" by (simp add: find_None_iff)
  moreover have "fc_calm P (d\<lparr>fc_buy_aggr := 0, fc_sell_aggr := 0\<rparr>)"
    by (rule fc_calm_same [OF assms(1)]) (simp_all add: fc_rest_def)
  ultimately show ?thesis using Some assms(1) by (simp add: fc_detect_def)
qed (simp add: fc_detect_def assms)

lemma fc_process_calm:
  assumes "fc_calm P d" "narrow P (fc_min_gap_bps d)" "placed P (se_event se)"
  shows "snd (fc_process rnd se d) = None \<and> fc_calm P (fst (fc_process rnd se d))"
proof (cases "event_type_from_u8 (ev_event_type (se_event se))")
  case (Some ty)
  let ?d = "fc_apply ty (se_event se) (fc_snapshot_top se d)"
  have c: "fc_calm P (fc_snapshot_top se d)" by (rule fc_calm_snapshot [OF assms(1)])
  have "fc_min_gap_bps ?d = fc_min_gap_bps d"
    using fc_rest_fields [OF fc_rest_apply, of ty "se_event se" "fc_snapshot_top se d"] fc_snapshot_keeps by simp
  then show ?thesis
    using fc_detect_calm [OF fc_calm_apply [OF c assms(3) Some], of rnd se] assms(2) c by (simp add: fc_process_def Some Let_def)
qed (simp add: fc_process_def assms(1))

lemma fc_calm_new: "w < 16 \<Longrightarrow> fc_calm P (fc_new gap w levels ticks pct aggr cd)"
  by (simp add: fc_calm_def fc_new_def fc_ring_def fc_window_def prices_def dom_def snap_cap_def word_less_nat_alt)

lemma band_silent:
  "fc_calm P d \<Longrightarrow> narrow P (fc_min_gap_bps d) \<Longrightarrow> \<forall>e \<in> set es. placed P (se_event e) \<Longrightarrow> snd (detect (fc_process rnd) es d) = []"
proof (induction es arbitrary: d)
  case (Cons e es)
  have "snd (fc_process rnd e d) = None \<and> fc_calm P (fst (fc_process rnd e d))"
    using Cons.prems by (intro fc_process_calm) simp_all
  then show ?case using Cons.IH [of "fst (fc_process rnd e d)"] Cons.prems by (simp add: case_prod_unfold fc_process_rest)
qed simp

section \<open>The flash-crash storm\<close>

definition fg_band :: "u64 \<Rightarrow> side \<Rightarrow> u64 set" where
  "fg_band base sd = (case sd of Bid \<Rightarrow> {sat_sub base 1, sat_sub base 200} | Ask \<Rightarrow> {sat_add base 1, sat_add base 200})"

definition in_fg_band :: "u64 \<Rightarrow> sequenced_event list \<Rightarrow> bool" where
  "in_fg_band base es \<longleftrightarrow> (\<forall>e \<in> set es. placed (fg_band base) (se_event e))"

fun fg_at :: "u64 \<Rightarrow> generator \<Rightarrow> bool" where
  "fg_at base (GFlash g) \<longleftrightarrow> fg_base_price g = base"
| "fg_at base _ \<longleftrightarrow> False"

lemma fg_at_cases: "fg_at base g \<Longrightarrow> (\<And>h. g = GFlash h \<Longrightarrow> fg_base_price h = base \<Longrightarrow> P) \<Longrightarrow> P"
  by (cases g) simp_all

lemma in_fg_band_simps:
  "in_fg_band base []" "in_fg_band base (xs @ ys) \<longleftrightarrow> in_fg_band base xs \<and> in_fg_band base ys"
  by (auto simp: in_fg_band_def)

lemma placed_mk: "placed P (se_event (mk s ts et sd p q oid)) \<longleftrightarrow> (et = OrderAdd \<longrightarrow> p \<in> P sd)"
proof -
  have "side_code sd = side_code sd' \<longleftrightarrow> sd = sd'" for sd' by (cases sd; cases sd') simp_all
  then show ?thesis by (cases et) (auto simp: placed_def event_type_from_u8_def)
qed

lemma fg_prints_in_band: "in_fg_band base (snd (fg_prints n sd p s ts g)) \<and> fg_base_price (fst (fg_prints n sd p s ts g)) = fg_base_price g"
  by (induction n arbitrary: s ts g) (simp_all add: in_fg_band_def placed_mk Let_def case_prod_unfold del: mk_sel)

lemma fg_cancel_top_in_band:
  "in_fg_band base (snd (snd (fg_cancel_top s ts g))) \<and> fg_base_price (fst (fg_cancel_top s ts g)) = fg_base_price g"
  by (simp add: fg_cancel_top_def in_fg_band_def placed_mk Let_def case_prod_unfold del: mk_sel split: option.split)

lemma fg_cut_ask_in_band:
  "in_fg_band base (snd (fg_cut_ask n s ts g)) \<and> fg_base_price (fst (fg_cut_ask n s ts g)) = fg_base_price g"
  by (simp add: fg_cut_ask_def in_fg_band_def placed_mk Let_def case_prod_unfold del: mk_sel split: option.split)

lemma fg_one_burst_in_band:
  "in_fg_band base (snd (fg_one_burst rnd s ts g)) \<and> fg_base_price (fst (fg_one_burst rnd s ts g)) = fg_base_price g"
  using fg_prints_in_band fg_cancel_top_in_band fg_cut_ask_in_band
  by (simp add: fg_one_burst_def in_fg_band_simps Let_def case_prod_unfold)

lemma fg_seed_depth_in_band:
  "in_fg_band (fg_base_price g) (snd (fg_seed_depth s ts g)) \<and> fg_base_price (fst (fg_seed_depth s ts g)) = fg_base_price g"
  by (simp add: fg_seed_depth_def in_fg_band_def placed_mk fg_band_def Let_def del: mk_sel)

lemma fg_step_in_band:
  "in_fg_band (fg_base_price g) (snd (fg_step rnd now s g)) \<and> fg_base_price (fst (fg_step rnd now s g)) = fg_base_price g"
  using fg_one_burst_in_band fg_seed_depth_in_band by (simp add: fg_step_def in_fg_band_simps Let_def case_prod_unfold)

interpretation crashing: storm_stream "\<lambda>_. in_fg_band bp" FlashCrash "fg_at bp" 4 bp for bp
proof
  show "in_fg_band bp []" "in_fg_band bp xs \<Longrightarrow> in_fg_band bp ys \<Longrightarrow> in_fg_band bp (xs @ ys)" for xs ys
    by (simp_all add: in_fg_band_simps)
  show "fg_at bp (fst (gen_step rnd now s g))" "in_fg_band bp (snd (gen_step rnd now s g))" if "fg_at bp g" for g rnd now s
    using that fg_step_in_band by (auto elim!: fg_at_cases simp: Let_def case_prod_unfold)
  fix rnd r now s and spec :: storm_spec
  assume a: "ss_kind spec = FlashCrash"
  then show "fg_at bp (spawn_generator rnd spec bp r)" by (simp add: spawn_generator_def fg_new_def Let_def)
  show "gen_next_due_ns (spawn_generator rnd spec bp r) = 0 \<and>
      4 \<le> length (snd (gen_step rnd now s (spawn_generator rnd spec bp r)))"
    using a by (simp add: spawn_generator_def fg_new_def fg_step_def fg_seed_depth_def Let_def case_prod_unfold)
qed

lemma fg_band_mids:
  assumes "200000 \<le> unat base" "unat base < 2 ^ 62" "m \<in> mids (fg_band base)"
  shows "unat base - 100 \<le> unat m" and "unat m \<le> unat base + 99"
proof -
  obtain a b where m: "m = (a + b) div 2" "a \<in> fg_band base Ask" "b \<in> fg_band base Bid" using assms(3) by (auto simp: mids_def)
  have a: "unat a \<in> {unat base + 1, unat base + 200}" using m(2) assms(2) by (auto simp: fg_band_def unat_sat_add)
  have b: "unat b \<in> {unat base - 1, unat base - 200}" using m(3) by (auto simp: fg_band_def unat_sat_sub)
  have "unat a + unat b < 2 ^ 64" using a b assms(2) by auto
  then have "unat m = (unat a + unat b) div 2" by (simp add: m(1) unat_div unat_word_ariths)
  then show "unat base - 100 \<le> unat m" "unat m \<le> unat base + 99" using a b assms(1) by auto
qed

lemma bps_move_less:
  assumes "lo \<le> unat m" "unat m \<le> lo + w" "lo \<le> unat m'" "unat m' \<le> lo + w" "w * 10000 < k * lo" "k < 2 ^ 32"
  shows "unat (bps_move m m') < k"
proof -
  let ?diff = "if m \<le> m' then m' - m else m - m'"
  have d: "unat ?diff \<le> w" using assms(1-4) by (auto simp: unat_sub word_le_nat_alt not_le)
  have "w * 10000 < k * unat m" using assms(1,5) by (meson less_le_trans mult_le_mono2)
  then have "unat ?diff * 10000 < k * unat m" using d by (meson le_less_trans mult_le_mono1)
  moreover have pos: "0 < unat m" using calculation by (cases "unat m") simp_all
  ultimately have q: "unat ?diff * 10000 div unat m < k" by (simp add: div_less_iff_less_mult)
  let ?x = "unat ?diff * 10000 div unat m"
  have x: "uint ?diff * 10000 div uint m = int ?x" by (simp add: zdiv_int)
  have "m \<noteq> 0" using pos by auto
  then have "bps_move m m' = word_of_int (min (int ?x) (2 ^ 32 - 1))" unfolding bps_move_def Let_def x by (simp only: if_False)
  also have "min (int ?x) (2 ^ 32 - 1) = int ?x" using q assms(6) by simp
  finally have "bps_move m m' = of_nat ?x" by simp
  then have "unat (bps_move m m') = ?x" using q assms(6) by (simp add: unat_of_nat_small)
  then show ?thesis using q by simp
qed

lemma fg_band_narrow:
  assumes "200000 \<le> unat base" "unat base < 2 ^ 62" "10 \<le> gap"
  shows "narrow (fg_band base) gap"
  unfolding narrow_def
proof (intro ballI)
  fix m m' assume m: "m \<in> mids (fg_band base)" "m' \<in> mids (fg_band base)"
  have "unat (bps_move m m') < 10"
  proof (rule bps_move_less [where lo = "unat base - 100" and w = 199])
    show "unat m \<le> unat base - 100 + 199" "unat m' \<le> unat base - 100 + 199"
      using fg_band_mids(2) [OF assms(1,2) m(1)] fg_band_mids(2) [OF assms(1,2) m(2)] assms(1) by linarith+
  qed (use fg_band_mids(1) [OF assms(1,2)] m assms(1) in auto)
  then show "bps_move m m' < gap" using assms(3) by (simp add: word_less_nat_alt word_le_nat_alt)
qed

text \<open>
  The flash-crash storm does not scale with the price: from a base price of 200000 ticks upwards (20 dollars in the
  ITCH price unit) no detector with a gap of at least 10 basis points, such as the default one, flags anything the storm
  emits, whatever its severity, duration, seed and polls, although it emits events from the first poll on.
\<close>

theorem flash_storm_silent:
  assumes "rounding rnd" and "exact_ints rnd" and "ss_kind spec = FlashCrash" and "ss_severity spec \<noteq> NaN"
    and "200000 \<le> unat base" and "unat base < 2 ^ 62" and "10 \<le> gap" and "w < 16"
  shows "snd (detect (fc_process rnd) (storm_feed rnd base spec start polls) (fc_new gap w levels ticks pct aggr cd)) = [] \<and>
    (polls \<noteq> [] \<and> fst (hd polls) < sat_add start (max (ss_duration_ns spec) 1) \<longrightarrow>
      4 \<le> length (storm_feed rnd base spec start polls))"
proof (intro conjI impI)
  have "in_fg_band base (storm_feed rnd base spec start polls)" by (rule crashing.feed_shaped [OF assms(1-4)])
  then show "snd (detect (fc_process rnd) (storm_feed rnd base spec start polls) (fc_new gap w levels ticks pct aggr cd)) = []"
    using band_silent [OF fc_calm_new [OF assms(8)], of "fg_band base" gap] fg_band_narrow [OF assms(5-7)]
    by (simp add: in_fg_band_def) (simp add: fc_new_def)
  show "4 \<le> length (storm_feed rnd base spec start polls)"
    if "polls \<noteq> [] \<and> fst (hd polls) < sat_add start (max (ss_duration_ns spec) 1)"
    using that crashing.feed_long [OF assms(1-4)] by blast
qed

theorem flash_storm_silent_witness:
  "snd (detect (fc_process Fin) (storm_feed Fin 100000000 \<lparr>ss_kind = FlashCrash, ss_severity = Fin 1, ss_duration_ns = 1000000000, ss_seed = 7\<rparr>
     0 [(0, 1), (80000000, 99)]) (fc_new 10 8 64 5 (Fin (6 / 10)) 3 2048)) = []"
  using flash_storm_silent [of Fin "\<lparr>ss_kind = FlashCrash, ss_severity = Fin 1, ss_duration_ns = 1000000000, ss_seed = 7\<rparr>" 100000000 10 8]
  by (simp add: rounding_Fin exact_ints_Fin)

end
