(* ===== verification/FL_Lanes.thy ===== *)
theory FL_Lanes
  imports FL_BookBand FL_FreshStream "HOL-Library.Multiset"
begin

text \<open>
  The lane-separated batch of the hot book (\<open>apply_lanes\<close> in \<open>core/src/hot_book.rs\<close>) against the serial loop. The
  lanes replay the batch with its adds first, then its trades, then its cancels. What rests of an order depends
  only on its own events, and cancels and trades of one order commute; so on a stream whose ids are added once
  and before they are used, the books agree after the batch.
\<close>

section \<open>Lanes as a reordering\<close>

definition of_type :: "event_type \<Rightarrow> event \<Rightarrow> bool" where
  "of_type t e \<longleftrightarrow> ev_event_type e = event_type_code t"

definition lane_order :: "event list \<Rightarrow> event list" where
  "lane_order es = filter (of_type OrderAdd) es @ filter (of_type Trade) es @ filter (of_type OrderCancel) es"

text \<open>The events the lanes are meant for: adds, trades and cancels.\<close>

definition laned :: "event \<Rightarrow> bool" where
  "laned e \<longleftrightarrow> of_type OrderAdd e \<or> of_type Trade e \<or> of_type OrderCancel e"

lemma laned_cases:
  assumes "laned e"
  obtains (add) "of_type OrderAdd e" "\<not> of_type Trade e" "\<not> of_type OrderCancel e" "event_type_from_u8 (ev_event_type e) = Some OrderAdd"
  | (trade) "of_type Trade e" "\<not> of_type OrderAdd e" "\<not> of_type OrderCancel e" "event_type_from_u8 (ev_event_type e) = Some Trade"
  | (cancel) "of_type OrderCancel e" "\<not> of_type OrderAdd e" "\<not> of_type Trade e" "event_type_from_u8 (ev_event_type e) = Some OrderCancel"
  using assms by (auto simp: laned_def of_type_def event_type_from_u8_def)

lemma mset_lane_order: "\<forall>e \<in> set es. laned e \<Longrightarrow> mset (lane_order es) = mset es"
proof (induction es)
  case (Cons e es)
  then have "laned e" by simp
  then show ?case using Cons by (cases rule: laned_cases) (simp_all add: lane_order_def)
qed (simp add: lane_order_def)

lemma lane_pass_run:
  assumes "\<And>b e. e \<in> set es \<Longrightarrow> sel e \<Longrightarrow> op b e = hb_apply N b e"
  shows "fst (lane_pass sel op es b) = hb_run N b (filter sel es)"
proof -
  have "fst (fold (\<lambda>e (b, k). if sel e then (let r = op b e in (fst r, if snd r then Suc k else k)) else (b, k)) es (b, k)) =
      hb_run N b (filter sel es)" for k
    using assms by (induction es arbitrary: b k) (auto simp: hb_run_def Let_def)
  then show ?thesis by (simp add: lane_pass_def)
qed

lemma hb_run_join: "hb_run N b (xs @ ys) = hb_run N (hb_run N b xs) ys"
  by (simp add: hb_run_def)

lemma apply_lanes_run:
  assumes "\<forall>e \<in> set es. laned e"
  shows "fst (apply_lanes N b es) = hb_run N b (lane_order es)"
proof -
  have add: "fst (apply_lane_adds N b es) = hb_run N b (filter (of_type OrderAdd) es)" for b
  proof -
    have "filter (\<lambda>e. ev_event_type e = event_type_code OrderAdd \<or> ev_event_type e = event_type_code OrderModify) es =
        filter (of_type OrderAdd) es"
      using assms by (intro filter_cong) (auto simp: of_type_def laned_def)
    moreover have "hb_add_order N b e = hb_apply N b e" if "e \<in> set es" "of_type OrderAdd e \<or> ev_event_type e = event_type_code OrderModify" for b e
      using that assms by (auto simp: hb_apply_def of_type_def laned_def event_type_from_u8_def)
    ultimately show ?thesis unfolding apply_lane_adds_def by (subst lane_pass_run [where N = N]) (auto simp: of_type_def)
  qed
  have trade: "fst (apply_lane_trades b es) = hb_run N b (filter (of_type Trade) es)" for b
    unfolding apply_lane_trades_def of_type_def
    by (rule lane_pass_run) (simp add: hb_apply_def event_type_from_u8_def)
  have cancel: "fst (apply_lane_cancels b es) = hb_run N b (filter (of_type OrderCancel) es)" for b
    unfolding apply_lane_cancels_def of_type_def
    by (rule lane_pass_run) (simp add: hb_apply_def event_type_from_u8_def)
  show ?thesis
    by (simp add: apply_lanes_def case_prod_unfold add trade cancel lane_order_def hb_run_join)
qed

section \<open>The life of one order\<close>

text \<open>What an event does to the resting order of its id.\<close>

definition drains :: "event \<Rightarrow> order \<Rightarrow> bool" where
  "drains e ord \<longleftrightarrow> of_type OrderCancel e \<and> ev_qty e = 0 \<or> or_qty ord \<le> ev_qty e"

definition order_step :: "event \<Rightarrow> order option \<Rightarrow> order option" where
  "order_step e ord =
     (if of_type OrderAdd e then
        (case side_from_u8 (ev_side e) of
           None \<Rightarrow> ord
         | Some sd \<Rightarrow> Some \<lparr>or_order_id = ev_order_id e, or_price = ev_price e, or_qty = ev_qty e, or_side = sd\<rparr>)
      else Option.bind ord (\<lambda>r. if drains e r then None else Some (r\<lparr>or_qty := or_qty r - ev_qty e\<rparr>)))"

lemma orders_set_levels [simp]: "ob_orders (ob_set_levels sd ls b) = ob_orders b"
  by (cases sd) simp_all

lemma ob_apply_order:
  assumes "laned e"
  shows "om_lookup (ob_orders (fst (ob_apply b e))) k =
    (if k = ev_order_id e then order_step e (om_lookup (ob_orders b) k) else om_lookup (ob_orders b) k)"
  using assms
proof (cases rule: laned_cases)
  case add
  then show ?thesis
    by (auto simp: ob_apply_def ob_add_order_def order_step_def om_lookup_insert Let_def split: option.split)
next
  case trade
  have "sat_sub q t = 0 \<longleftrightarrow> q \<le> t" "\<not> q \<le> t \<Longrightarrow> sat_sub q t = q - t" for q t :: u64
    by (auto simp: sat_sub_def)
  with trade show ?thesis
    by (auto simp: ob_apply_def ob_execute_trade_def order_step_def drains_def om_lookup_insert om_lookup_remove Let_def split: option.split)
next
  case cancel
  then show ?thesis
    by (auto simp: ob_apply_def ob_cancel_order_def order_step_def drains_def om_lookup_insert om_lookup_remove Let_def split: option.split)
qed

lemma ob_run_order:
  "\<forall>e \<in> set es. laned e \<Longrightarrow>
   om_lookup (ob_orders (ob_run b es)) k = fold order_step (filter (\<lambda>e. ev_order_id e = k) es) (om_lookup (ob_orders b) k)"
  by (induction es arbitrary: b) (auto simp: ob_run_def ob_apply_order)

lemma order_step_commute:
  assumes "\<not> of_type OrderAdd e" "\<not> of_type OrderAdd f"
  shows "order_step e \<circ> order_step f = order_step f \<circ> order_step e"
proof
  fix ord
  show "(order_step e \<circ> order_step f) ord = (order_step f \<circ> order_step e) ord"
  proof (cases ord)
    case (Some r)
    have "q - x \<le> y \<longleftrightarrow> q - y \<le> x" if "\<not> q \<le> x" "\<not> q \<le> y" for q x y :: u64
      using that by (simp add: word_le_nat_alt unat_sub not_le) linarith
    moreover have "q - x - y = q - y - x" for q x y :: u64 by simp
    moreover have "q - x \<le> y" if "q \<le> y" "\<not> q \<le> x" for q x y :: u64
      using that by (simp add: word_le_nat_alt unat_sub not_le)
    ultimately show ?thesis using assms Some by (auto simp: order_step_def drains_def)
  qed (use assms in \<open>simp add: order_step_def\<close>)
qed

section \<open>Streams that add before they use\<close>

fun adds_first :: "u64 set \<Rightarrow> event list \<Rightarrow> bool" where
  "adds_first seen [] = True"
| "adds_first seen (e # es) \<longleftrightarrow> (of_type OrderAdd e \<longrightarrow> ev_order_id e \<notin> seen) \<and> adds_first (insert (ev_order_id e) seen) es"

lemma adds_first_append:
  "adds_first seen (xs @ ys) \<longleftrightarrow> adds_first seen xs \<and> adds_first (seen \<union> ev_order_id ` set xs) ys"
  by (induction xs arbitrary: seen) auto

lemma adds_first_no_add: "\<forall>e \<in> set es. \<not> of_type OrderAdd e \<Longrightarrow> adds_first seen es"
  by (induction es arbitrary: seen) auto

lemma adds_first_distinct:
  "adds_first seen es \<Longrightarrow> distinct (map ev_order_id (filter (of_type OrderAdd) es)) \<and>
   (\<forall>e \<in> set es. of_type OrderAdd e \<longrightarrow> ev_order_id e \<notin> seen)"
proof (induction es arbitrary: seen)
  case (Cons e es)
  then show ?case using Cons.IH [of "insert (ev_order_id e) seen"] by auto
qed simp

lemma distinct_adds_first:
  "\<forall>e \<in> set es. of_type OrderAdd e \<Longrightarrow> distinct (map ev_order_id es) \<Longrightarrow> ev_order_id ` set es \<inter> seen = {} \<Longrightarrow> adds_first seen es"
  by (induction es arbitrary: seen) auto

lemma adds_first_lane_order:
  assumes "adds_first seen es"
  shows "adds_first seen (lane_order es)"
proof -
  have "adds_first seen (filter (of_type OrderAdd) es)"
    using adds_first_distinct [OF assms] by (intro distinct_adds_first) auto
  moreover have "adds_first S (filter (of_type t) es)" if "t = Trade \<or> t = OrderCancel" for S t
    using that by (intro adds_first_no_add) (auto simp: of_type_def)
  ultimately show ?thesis by (simp add: lane_order_def adds_first_append)
qed

text \<open>The events of one id: at most one add, in front.\<close>

lemma adds_first_one_id:
  assumes "adds_first seen es" "es' = filter (\<lambda>e. ev_order_id e = k) es"
  shows "(\<forall>e \<in> set es'. \<not> of_type OrderAdd e) \<or> (\<exists>a rest. es' = a # rest \<and> of_type OrderAdd a \<and> (\<forall>e \<in> set rest. \<not> of_type OrderAdd e))"
  unfolding assms(2) using assms(1)
proof (induction es arbitrary: seen)
  case (Cons e es)
  have "\<forall>f \<in> set (filter (\<lambda>e. ev_order_id e = k) es). \<not> of_type OrderAdd f" if "ev_order_id e = k"
    using that adds_first_distinct [of "insert (ev_order_id e) seen" es] Cons.prems by auto
  then show ?case using Cons.IH [of "insert (ev_order_id e) seen"] Cons.prems by (cases "ev_order_id e = k") auto
qed simp

lemma one_id_same:
  assumes "adds_first {} es" "adds_first {} fs" "mset es = mset fs"
  shows "fold order_step (filter (\<lambda>e. ev_order_id e = k) es) None = fold order_step (filter (\<lambda>e. ev_order_id e = k) fs) None"
proof -
  define xs ys where "xs = filter (\<lambda>e. ev_order_id e = k) es" and "ys = filter (\<lambda>e. ev_order_id e = k) fs"
  have m: "mset xs = mset ys" using assms(3) by (simp add: xs_def ys_def)
  then have set_eq: "set xs = set ys" by (metis set_mset_mset)
  note x = adds_first_one_id [OF assms(1) xs_def] and y = adds_first_one_id [OF assms(2) ys_def]
  show ?thesis
  proof (cases "\<exists>a \<in> set xs. of_type OrderAdd a")
    case False
    then show ?thesis
      unfolding xs_def [symmetric] ys_def [symmetric] using order_step_commute m by (intro fold_multiset_equiv [THEN fun_cong]) auto
  next
    case True
    then obtain a rest b rest' where r: "xs = a # rest" "of_type OrderAdd a" "\<forall>e \<in> set rest. \<not> of_type OrderAdd e"
        "ys = b # rest'" "of_type OrderAdd b" "\<forall>e \<in> set rest'. \<not> of_type OrderAdd e"
      using x y set_eq by blast
    have "a = b" using r set_eq by (metis insertE list.set(2) list.set_intros(1))
    then have "mset rest = mset rest'" using m r by simp
    then have "fold order_step rest = fold order_step rest'" using order_step_commute r(3) by (intro fold_multiset_equiv) auto
    then show ?thesis unfolding xs_def [symmetric] ys_def [symmetric] r \<open>a = b\<close> by simp
  qed
qed

section \<open>Agreement of the books\<close>

lemma consistent_levels:
  assumes "consistent b" "consistent b'" "ob_orders b = ob_orders b'"
  shows "ob_levels sd b = ob_levels sd b'"
proof (rule omap_eqI)
  fix p
  let ?l = "om_lookup (ob_levels sd b) p" and ?l' = "om_lookup (ob_levels sd b') p"
  have "level_ok p (rest_count sd p (ob_orders b)) (rest_qty sd p (ob_orders b)) ?l"
    "level_ok p (rest_count sd p (ob_orders b)) (rest_qty sd p (ob_orders b)) ?l'"
    using assms(1,2) unfolding consistent_def assms(3) by blast+
  then show "?l = ?l'" by (cases ?l; cases ?l') (auto simp: level_ok_def word_unat_eq_iff)
qed

lemma same_levels_hash:
  assumes "\<And>sd. ob_levels sd b = ob_levels sd b'"
  shows "ob_canonical_l2_hash xxh xxs b = ob_canonical_l2_hash xxh xxs b'"
  using assms [of Bid] assms [of Ask] by (simp add: ob_canonical_l2_hash_def)

text \<open>A stream in the scope of the lanes: adds, trades and cancels, every id added before it is used and only once, within the counters.\<close>

definition lane_stream :: "event list \<Rightarrow> bool" where
  "lane_stream es \<longleftrightarrow> (\<forall>e \<in> set es. laned e \<and> (of_type OrderAdd e \<longrightarrow> ev_side e \<le> 1)) \<and> adds_first {} es \<and>
     length es < 2 ^ 32 \<and> (\<Sum>e\<leftarrow>filter (of_type OrderAdd) es. unat (ev_qty e)) < 2 ^ 64"

lemma is_add_iff: "is_add e \<longleftrightarrow> of_type OrderAdd e"
  by (auto simp: is_add_def of_type_def event_type_from_u8_def split: if_splits)

lemma lane_stream_fresh:
  assumes "lane_stream es"
  shows "fresh_stream es"
proof -
  have i: "is_add = of_type OrderAdd" by (rule ext) (rule is_add_iff)
  have "event_type_from_u8 (ev_event_type e) \<noteq> Some OrderModify \<and> (of_type OrderAdd e \<longrightarrow> side_from_u8 (ev_side e) \<noteq> None)"
    if "e \<in> set es" for e
  proof -
    have l: "laned e" "of_type OrderAdd e \<longrightarrow> ev_side e \<le> 1" using that assms by (simp_all add: lane_stream_def)
    have "side_from_u8 (ev_side e) \<noteq> None" if "ev_side e \<le> 1"
      using that u8_le_1 [of "ev_side e"] side_from_code [of Bid] side_from_code [of Ask] by fastforce
    then show ?thesis using l by (auto elim: laned_cases)
  qed
  then show ?thesis
    using assms adds_first_distinct [of "{}" es] unfolding fresh_stream_def lane_stream_def i by blast
qed

lemma lane_stream_perm:
  assumes "lane_stream es" "mset fs = mset es" "adds_first {} fs"
  shows "lane_stream fs"
proof -
  have "set fs = set es" "length fs = length es" using mset_eq_setD [OF assms(2)] mset_eq_length [OF assms(2)] by simp_all
  moreover have "mset (map (\<lambda>e. unat (ev_qty e)) (filter (of_type OrderAdd) fs)) =
      mset (map (\<lambda>e. unat (ev_qty e)) (filter (of_type OrderAdd) es))"
    using assms(2) by simp
  then have "(\<Sum>e\<leftarrow>filter (of_type OrderAdd) fs. unat (ev_qty e)) = (\<Sum>e\<leftarrow>filter (of_type OrderAdd) es. unat (ev_qty e))"
    by (simp only: sum_mset_sum_list [symmetric])
  ultimately show ?thesis using assms(1,3) by (simp add: lane_stream_def)
qed

lemma lane_stream_levels:
  assumes "lane_stream es" "mset fs = mset es" "adds_first {} fs"
  shows "ob_levels sd (ob_run (ob_new iid) fs) = ob_levels sd (ob_run (ob_new iid) es)"
proof -
  have fs: "lane_stream fs" by (rule lane_stream_perm [OF assms])
  have l: "\<forall>e \<in> set es. laned e" "\<forall>e \<in> set fs. laned e" "adds_first {} es"
    using assms(1) fs by (simp_all add: lane_stream_def)
  have "ob_orders (ob_run (ob_new iid) fs) = ob_orders (ob_run (ob_new iid) es)"
    using one_id_same [OF assms(3) l(3) assms(2)]
    by (intro omap_eqI) (simp add: ob_run_order l(1,2), simp add: ob_new_def)
  then show ?thesis using fresh_run [OF lane_stream_fresh] assms(1) fs by (intro consistent_levels) blast+
qed

lemma adds_first_windows:
  "adds_first seen (concat ws) \<Longrightarrow> \<forall>w \<in> set ws. \<forall>e \<in> set w. laned e \<Longrightarrow> adds_first seen (concat (map lane_order ws))"
proof (induction ws arbitrary: seen)
  case (Cons w ws)
  have "set (lane_order w) = set w" using mset_lane_order [of w] Cons.prems by (metis list.set_intros(1) set_mset_mset)
  then show ?case
    using Cons.IH [of "seen \<union> ev_order_id ` set w"] Cons.prems adds_first_lane_order [of seen w]
    by (simp add: adds_first_append)
qed simp

lemma mset_windows: "\<forall>w \<in> set ws. \<forall>e \<in> set w. laned e \<Longrightarrow> mset (concat (map lane_order ws)) = mset (concat ws)"
  by (induction ws) (simp_all add: mset_lane_order)

definition lanes_run :: "nat \<Rightarrow> hot_book \<Rightarrow> event list list \<Rightarrow> hot_book" where
  "lanes_run N b ws = foldl (\<lambda>b w. fst (apply_lanes N b w)) b ws"

lemma lanes_run_eq:
  "\<forall>w \<in> set ws. \<forall>e \<in> set w. laned e \<Longrightarrow> lanes_run N b ws = hb_run N b (concat (map lane_order ws))"
  by (induction ws arbitrary: b) (simp_all add: lanes_run_def apply_lanes_run hb_run_join, simp add: hb_run_def)

context price_band
begin

lemma lanes_agree:
  assumes "lane_stream (pre @ concat ws)" "\<forall>e \<in> set (pre @ concat ws). banded P e"
  shows "hb_canonical_l2_hash xxh xxs (lanes_run N (hb_run N (hb_new N iid) pre) ws) =
    hb_canonical_l2_hash xxh xxs (hb_run N (hb_new N iid) (pre @ concat ws))"
proof -
  let ?es = "pre @ concat ws" and ?fs = "pre @ concat (map lane_order ws)"
  have l: "\<forall>w \<in> set ws. \<forall>e \<in> set w. laned e" using assms(1) by (auto simp: lane_stream_def)
  have m: "mset ?fs = mset ?es" using mset_windows [OF l] by simp
  have f: "adds_first {} ?fs" using assms(1) adds_first_windows [OF _ l] by (simp add: lane_stream_def adds_first_append)
  have len: "length ?es \<le> 2 ^ 32" "length ?fs \<le> 2 ^ 32" using assms(1) mset_eq_length [OF m] by (simp_all add: lane_stream_def)
  have b: "\<forall>e \<in> set ?fs. banded P e" using assms(2) mset_eq_setD [OF m] by blast
  have "hb_canonical_l2_hash xxh xxs (lanes_run N (hb_run N (hb_new N iid) pre) ws) =
      ob_canonical_l2_hash xxh xxs (ob_run (ob_new iid) ?fs)"
    using rel_hash [OF band_run(2) [OF b len(2), of iid], of xxh xxs] by (simp add: lanes_run_eq [OF l] hb_run_join)
  also have "\<dots> = ob_canonical_l2_hash xxh xxs (ob_run (ob_new iid) ?es)"
    by (rule same_levels_hash) (rule lane_stream_levels [OF assms(1) m f])
  also have "\<dots> = hb_canonical_l2_hash xxh xxs (hb_run N (hb_new N iid) ?es)"
    using rel_hash [OF band_run(2) [OF assms(2) len(1), of iid], of xxh xxs] by simp
  finally show ?thesis .
qed

end

section \<open>Books warmed up with other orders\<close>

text \<open>
  A stream that only uses the orders it has added itself does not depend on the orders that rest when it starts, but for the
  levels they form: an add of an id that already rests grows the levels like any other.
\<close>

fun uses_added :: "u64 set \<Rightarrow> event list \<Rightarrow> bool" where
  "uses_added A [] = True"
| "uses_added A (e # es) \<longleftrightarrow> (of_type OrderAdd e \<or> ev_order_id e \<in> A) \<and> uses_added (insert (ev_order_id e) A) es"

lemma uses_added_append: "uses_added A (xs @ ys) \<longleftrightarrow> uses_added A xs \<and> uses_added (A \<union> ev_order_id ` set xs) ys"
  by (induction xs arbitrary: A) simp_all

lemma uses_added_ids:
  "uses_added A es \<Longrightarrow> e \<in> set es \<Longrightarrow> ev_order_id e \<in> A \<union> ev_order_id ` {a \<in> set es. of_type OrderAdd a}"
proof (induction es arbitrary: A)
  case (Cons x es)
  then show ?case using Cons.IH [of "insert (ev_order_id x) A"] by auto
qed simp

lemma uses_added_known: "\<forall>e \<in> set es. of_type OrderAdd e \<or> ev_order_id e \<in> A \<Longrightarrow> uses_added A es"
proof (induction es arbitrary: A)
  case (Cons e es)
  have "uses_added (insert (ev_order_id e) A) es" using Cons.prems by (intro Cons.IH) auto
  then show ?case using Cons.prems by simp
qed simp

lemma uses_added_lane_order:
  assumes "uses_added A es"
  shows "uses_added A (lane_order es)"
proof -
  let ?B = "A \<union> ev_order_id ` set (filter (of_type OrderAdd) es)"
  have "ev_order_id e \<in> ?B" if "e \<in> set es" for e using uses_added_ids [OF assms that] by auto
  then have "uses_added ?B (filter (of_type Trade) es @ filter (of_type OrderCancel) es)" by (intro uses_added_known) auto
  moreover have "uses_added A (filter (of_type OrderAdd) es)" by (intro uses_added_known) auto
  ultimately show ?thesis by (simp add: lane_order_def uses_added_append)
qed

lemma uses_added_windows:
  "uses_added A (concat ws) \<Longrightarrow> \<forall>w \<in> set ws. \<forall>e \<in> set w. laned e \<Longrightarrow> uses_added A (concat (map lane_order ws))"
proof (induction ws arbitrary: A)
  case (Cons w ws)
  have "set (lane_order w) = set w" using mset_lane_order [of w] Cons.prems by (metis list.set_intros(1) set_mset_mset)
  then show ?case
    using Cons.IH [of "A \<union> ev_order_id ` set w"] Cons.prems uses_added_lane_order [of A w] by (simp add: uses_added_append)
qed simp

definition same_on :: "u64 set \<Rightarrow> order_book \<Rightarrow> order_book \<Rightarrow> bool" where
  "same_on A b b' \<longleftrightarrow> (\<forall>sd. ob_levels sd b = ob_levels sd b') \<and> (\<forall>k \<in> A. om_lookup (ob_orders b) k = om_lookup (ob_orders b') k)"

definition scoped :: "event \<Rightarrow> bool" where
  "scoped e \<longleftrightarrow> laned e \<and> (of_type OrderAdd e \<longrightarrow> side_from_u8 (ev_side e) \<noteq> None)"

lemma same_levels_apply:
  assumes "scoped e" "\<And>sd. ob_levels sd b = ob_levels sd b'"
    "of_type OrderAdd e \<or> om_lookup (ob_orders b) (ev_order_id e) = om_lookup (ob_orders b') (ev_order_id e)"
  shows "ob_levels sd (fst (ob_apply b e)) = ob_levels sd (fst (ob_apply b' e))"
proof -
  have "laned e" using assms(1) by (simp add: scoped_def)
  then show ?thesis
  proof (cases rule: laned_cases)
    case add
    then show ?thesis using assms(2) by (auto simp: ob_apply_def ob_add_order_def Let_def split: option.split)
  next
    case trade
    then show ?thesis using assms(2,3) by (auto simp: ob_apply_def ob_execute_trade_def Let_def split: option.split)
  next
    case cancel
    then show ?thesis using assms(2,3) by (auto simp: ob_apply_def ob_cancel_order_def Let_def split: option.split)
  qed
qed

lemma same_on_apply:
  assumes "scoped e" "of_type OrderAdd e \<or> ev_order_id e \<in> A" "same_on A b b'"
  shows "same_on (insert (ev_order_id e) A) (fst (ob_apply b e)) (fst (ob_apply b' e))"
proof -
  have l: "laned e" using assms(1) by (simp add: scoped_def)
  have "order_step e (om_lookup (ob_orders b) (ev_order_id e)) = order_step e (om_lookup (ob_orders b') (ev_order_id e))"
    using assms by (auto simp: scoped_def same_on_def order_step_def split: option.split)
  moreover have "ob_levels sd (fst (ob_apply b e)) = ob_levels sd (fst (ob_apply b' e))" for sd
    using assms by (intro same_levels_apply) (auto simp: same_on_def)
  ultimately show ?thesis using assms(3) unfolding same_on_def ob_apply_order [OF l] by simp
qed

lemma same_on_run:
  "\<forall>e \<in> set es. scoped e \<Longrightarrow> uses_added A es \<Longrightarrow> same_on A b b' \<Longrightarrow> ob_levels sd (ob_run b es) = ob_levels sd (ob_run b' es)"
proof (induction es arbitrary: A b b')
  case (Cons e es)
  then have "same_on (insert (ev_order_id e) A) (fst (ob_apply b e)) (fst (ob_apply b' e))" by (intro same_on_apply) auto
  from Cons.IH [OF _ _ this] Cons.prems show ?case by (simp add: ob_run_def)
qed (simp add: same_on_def ob_run_def)

text \<open>The warm-up orders under other names, out of the way of the stream.\<close>

definition shifted :: "event \<Rightarrow> event" where
  "shifted e = e\<lparr>ev_order_id := ev_order_id e + 2 ^ 40\<rparr>"

lemma shifted_simps [simp]:
  "of_type t (shifted e) = of_type t e" "ev_side (shifted e) = ev_side e" "ev_qty (shifted e) = ev_qty e" "ev_price (shifted e) = ev_price e"
  "ev_event_type (shifted e) = ev_event_type e" "ev_order_id (shifted e) = ev_order_id e + 2 ^ 40" "laned (shifted e) = laned e"
  by (simp_all add: shifted_def of_type_def laned_def)

lemma shifted_far: "unat k < 2 ^ 40 \<Longrightarrow> unat (k + 2 ^ 40 :: u64) = unat k + 2 ^ 40"
  by (simp add: unat_word_ariths)

lemma shifted_levels:
  "\<forall>e \<in> set w. of_type OrderAdd e \<Longrightarrow> (\<And>sd. ob_levels sd b = ob_levels sd b') \<Longrightarrow>
   ob_levels sd (ob_run b w) = ob_levels sd (ob_run b' (map shifted w))"
proof (induction w arbitrary: b b')
  case (Cons e w)
  have e: "of_type OrderAdd e" using Cons.prems(1) by simp
  have "ob_levels sd (fst (ob_apply b e)) = ob_levels sd (fst (ob_apply b' (shifted e)))" for sd
    using e Cons.prems(2) by (auto simp: ob_apply_def of_type_def event_type_from_u8_def ob_add_order_def Let_def split: option.split)
  from Cons.IH [OF _ this] Cons.prems(1) show ?case by (simp add: ob_run_def)
qed (simp add: ob_run_def)

lemma adds_first_Un:
  "adds_first S es \<Longrightarrow> \<forall>e \<in> set es. of_type OrderAdd e \<longrightarrow> ev_order_id e \<notin> T \<Longrightarrow> adds_first (S \<union> T) es"
proof (induction es arbitrary: S)
  case (Cons e es)
  then show ?case using Cons.IH [of "insert (ev_order_id e) S"] by simp
qed simp

lemma scopedI: "laned e \<Longrightarrow> (of_type OrderAdd e \<Longrightarrow> ev_side e \<le> 1) \<Longrightarrow> scoped e"
  using u8_le_1 [of "ev_side e"] side_from_code [of Bid] side_from_code [of Ask] by (fastforce simp: scoped_def)

text \<open>The warm-up as the harness has it: adds with ids of their own, possibly the same ones as the stream's.\<close>

definition warm_adds :: "event list \<Rightarrow> bool" where
  "warm_adds w \<longleftrightarrow> (\<forall>e \<in> set w. of_type OrderAdd e \<and> ev_side e \<le> 1 \<and> unat (ev_order_id e) < 2 ^ 40) \<and> distinct (map ev_order_id w)"

lemma shifted_warm_stream:
  assumes w: "warm_adds w" and es: "lane_stream es" "\<forall>e \<in> set es. unat (ev_order_id e) < 2 ^ 40"
    and room: "length (w @ es) < 2 ^ 32" "(\<Sum>e\<leftarrow>filter (of_type OrderAdd) (w @ es). unat (ev_qty e)) < 2 ^ 64"
  shows "lane_stream (map shifted w @ es)"
proof -
  have adds: "\<forall>e \<in> set w. of_type OrderAdd e" using w by (simp add: warm_adds_def)
  have "ev_order_id e \<notin> ev_order_id ` set (map shifted w)" if "e \<in> set es" for e
  proof
    assume "ev_order_id e \<in> ev_order_id ` set (map shifted w)"
    then obtain a where a: "a \<in> set w" "ev_order_id e = ev_order_id a + 2 ^ 40" by auto
    have "unat (ev_order_id a) < 2 ^ 40" using a(1) w by (simp add: warm_adds_def)
    then have "unat (ev_order_id e) = unat (ev_order_id a) + 2 ^ 40" unfolding a(2) by (rule shifted_far)
    then show False using es(2) that by fastforce
  qed
  then have "adds_first ({} \<union> ev_order_id ` set (map shifted w)) es" using es(1) by (intro adds_first_Un) (simp_all add: lane_stream_def)
  moreover have "adds_first {} (map shifted w)"
  proof (rule distinct_adds_first)
    have "map ev_order_id (map shifted w) = map (\<lambda>k. k + 2 ^ 40) (map ev_order_id w)" by simp
    then show "distinct (map ev_order_id (map shifted w))"
      using w by (simp only: distinct_map [of "\<lambda>k. k + 2 ^ 40"]) (simp add: warm_adds_def inj_on_def)
  qed (use adds in auto)
  moreover have "filter (of_type OrderAdd) (map shifted w @ es) = map shifted (filter (of_type OrderAdd) w) @ filter (of_type OrderAdd) es"
    by (simp add: filter_map comp_def)
  then have "(\<Sum>e\<leftarrow>filter (of_type OrderAdd) (map shifted w @ es). unat (ev_qty e)) = (\<Sum>e\<leftarrow>filter (of_type OrderAdd) (w @ es). unat (ev_qty e))"
    by (simp add: comp_def)
  moreover have "\<forall>e \<in> set (map shifted w @ es). laned e \<and> (of_type OrderAdd e \<longrightarrow> ev_side e \<le> 1)"
    using w es(1) by (auto simp: warm_adds_def lane_stream_def) (simp add: laned_def)
  ultimately show ?thesis using room unfolding lane_stream_def adds_first_append by simp
qed

lemma warmed_levels:
  assumes w: "warm_adds w" and l: "\<forall>x \<in> set ws. \<forall>e \<in> set x. laned e" and es: "lane_stream (concat ws)" "uses_added {} (concat ws)"
      "\<forall>e \<in> set (concat ws). unat (ev_order_id e) < 2 ^ 40"
    and room: "length (w @ concat ws) < 2 ^ 32" "(\<Sum>e\<leftarrow>filter (of_type OrderAdd) (w @ concat ws). unat (ev_qty e)) < 2 ^ 64"
  shows "ob_levels sd (ob_run (ob_new iid) (w @ concat (map lane_order ws))) = ob_levels sd (ob_run (ob_new iid) (w @ concat ws))"
proof -
  let ?v = "map shifted w" and ?fs = "concat (map lane_order ws)"
  have run: "ob_run b (xs @ ys) = ob_run (ob_run b xs) ys" for b xs ys by (simp add: ob_run_def)
  have adds: "\<forall>e \<in> set w. of_type OrderAdd e" using w by (simp add: warm_adds_def)
  have m: "mset ?fs = mset (concat ws)" by (rule mset_windows [OF l])
  have sc: "\<forall>e \<in> set (concat ws). scoped e" "\<forall>e \<in> set ?fs. scoped e"
    using es(1) mset_eq_setD [OF m] by (auto simp: lane_stream_def intro!: scopedI)
  have same: "same_on {} (ob_run (ob_new iid) w) (ob_run (ob_new iid) ?v)"
    using shifted_levels [OF adds, of "ob_new iid" "ob_new iid"] by (simp add: same_on_def)
  have out: "ob_levels sd (ob_run (ob_new iid) (w @ fs)) = ob_levels sd (ob_run (ob_new iid) (?v @ fs))"
    if "\<forall>e \<in> set fs. scoped e" "uses_added {} fs" for fs
    unfolding run by (rule same_on_run [OF that same])
  have "lane_stream (?v @ concat ws)" by (rule shifted_warm_stream [OF w es(1,3) room])
  moreover from this have "adds_first {} (?v @ ?fs)"
    using adds_first_windows [OF _ l] by (simp add: lane_stream_def adds_first_append)
  ultimately have "ob_levels sd (ob_run (ob_new iid) (?v @ ?fs)) = ob_levels sd (ob_run (ob_new iid) (?v @ concat ws))"
    using m by (intro lane_stream_levels) simp_all
  then show ?thesis using out [OF sc(1) es(2)] out [OF sc(2) uses_added_windows [OF es(2) l]] by simp
qed

context price_band
begin

lemma lanes_agree_warmed:
  assumes w: "warm_adds w" and es: "lane_stream (concat ws)" "uses_added {} (concat ws)" "\<forall>e \<in> set (concat ws). unat (ev_order_id e) < 2 ^ 40"
    and band: "\<forall>e \<in> set (w @ concat ws). banded P e"
    and room: "length (w @ concat ws) < 2 ^ 32" "(\<Sum>e\<leftarrow>filter (of_type OrderAdd) (w @ concat ws). unat (ev_qty e)) < 2 ^ 64"
  shows "hb_canonical_l2_hash xxh xxs (lanes_run N (hb_run N (hb_new N iid) w) ws) =
    hb_canonical_l2_hash xxh xxs (hb_run N (hb_new N iid) (w @ concat ws))"
proof -
  let ?es = "w @ concat ws" and ?fs = "w @ concat (map lane_order ws)"
  have l: "\<forall>w \<in> set ws. \<forall>e \<in> set w. laned e" using es(1) by (auto simp: lane_stream_def)
  have m: "mset ?fs = mset ?es" using mset_windows [OF l] by simp
  have len: "length ?es \<le> 2 ^ 32" "length ?fs \<le> 2 ^ 32" using room(1) mset_eq_length [OF m] by simp_all
  have b: "\<forall>e \<in> set ?fs. banded P e" using band mset_eq_setD [OF m] by blast
  have "hb_canonical_l2_hash xxh xxs (lanes_run N (hb_run N (hb_new N iid) w) ws) =
      ob_canonical_l2_hash xxh xxs (ob_run (ob_new iid) ?fs)"
    using rel_hash [OF band_run(2) [OF b len(2), of iid], of xxh xxs] by (simp add: lanes_run_eq [OF l] hb_run_join)
  also have "\<dots> = ob_canonical_l2_hash xxh xxs (ob_run (ob_new iid) ?es)"
    by (rule same_levels_hash) (rule warmed_levels [OF w l es room])
  also have "\<dots> = hb_canonical_l2_hash xxh xxs (hb_run N (hb_new N iid) ?es)"
    using rel_hash [OF band_run(2) [OF band len(1), of iid], of xxh xxs] by simp
  finally show ?thesis .
qed

end

text \<open>
  Property C37. The lane-separated batch apply is equivalent to the serial loop in the scope its documentation gives, modifies
  excepted: on a stream of adds, trades and cancels that adds every order id once and before it is used (each with
  its order id, at a valid side, within the counters), cut into any windows, and as long as on each side all prices at which
  the whole stream ever adds an order fit the book's \<open>N\<close> levels together (the lanes add before they free a level),
  running the three lanes window by window after any serially applied prefix gives a book with the same canonical hash
  as applying every event in order.
\<close>

theorem lanes_match_serial:
  assumes "lane_stream (pre @ concat ws)" and "\<forall>e \<in> set (pre @ concat ws). banded P e"
    and "\<forall>sd. finite (P sd) \<and> card (P sd) \<le> N" and "N < 2 ^ 32"
  shows "hb_canonical_l2_hash xxh xxs (lanes_run N (hb_run N (hb_new N iid) pre) ws) =
    hb_canonical_l2_hash xxh xxs (hb_run N (hb_new N iid) (pre @ concat ws))"
  using assms by (intro price_band.lanes_agree [OF price_band.intro]) simp_all

definition lane_sample :: "event_type \<Rightarrow> u64 \<Rightarrow> u64 \<Rightarrow> event" where
  "lane_sample t oid qty = \<lparr>ev_ts = 0, ev_price = 100, ev_qty = qty, ev_order_id = oid, ev_instrument_id = 1,
     ev_event_type = event_type_code t, ev_side = 0, ev_pad = (0, 0)\<rparr>"

theorem lanes_match_serial_witness:
  "hb_canonical_l2_hash (\<lambda>_. 11) (\<lambda>bs s. of_nat (le_dec bs) + 31 * s) (lanes_run 4 (hb_run 4 (hb_new 4 1) [lane_sample OrderAdd 1 50])
     [[lane_sample OrderCancel 1 20, lane_sample OrderAdd 2 7, lane_sample Trade 1 10], [lane_sample OrderCancel 2 0]]) =
   hb_canonical_l2_hash (\<lambda>_. 11) (\<lambda>bs s. of_nat (le_dec bs) + 31 * s) (hb_run 4 (hb_new 4 1) [lane_sample OrderAdd 1 50, lane_sample OrderCancel 1 20,
     lane_sample OrderAdd 2 7, lane_sample Trade 1 10, lane_sample OrderCancel 2 0])"
  using lanes_match_serial [of "[lane_sample OrderAdd 1 50]"
      "[[lane_sample OrderCancel 1 20, lane_sample OrderAdd 2 7, lane_sample Trade 1 10], [lane_sample OrderCancel 2 0]]"
      "\<lambda>_. {100}" 4 "\<lambda>_. 11" "\<lambda>bs s. of_nat (le_dec bs) + 31 * s" 1]
  by (simp add: lane_stream_def laned_def of_type_def banded_def lane_sample_def event_type_from_u8_def side_from_u8_def)

end
