(* ===== verification/FL_Measure.thy ===== *)
theory FL_Measure
  imports FL_Lanes FL_BenchCrash FL_Latency
begin

text \<open>
  The measurement loops of \<open>bench/src/bin/latency_apply.rs\<close>. The cycle counter is a parameter: \<open>clk k\<close> are the two
  readings around the \<open>k\<close>-th timed section. The spinning between bursts changes nothing that the program observes.
\<close>

section \<open>Serial loops\<close>

text \<open>
  \<open>calibrate\<close>, from the readings of its five windows (\<open>c0\<close>, \<open>c1\<close>, elapsed ns) and of its back-to-back pairs; comparing a
  NaN and a list that is too short panic.
\<close>

definition bench_calibrate :: "(rat \<Rightarrow> f64) \<Rightarrow> (u64 \<times> u64 \<times> nat) list \<Rightarrow> (u64 \<times> u64) list \<Rightarrow> (f64 \<times> u64) option" where
  "bench_calibrate rnd windows pairs =
     (let ratios = map (\<lambda>(c0, c1, elapsed). f64_div rnd (u64_as_f64 rnd (c1 - c0)) (f64_of_nat rnd elapsed)) windows;
          samples = sort (map (\<lambda>(a, b). b - a) pairs)
      in if NaN \<in> set ratios \<or> length ratios \<le> 2 \<or> length samples \<le> 50000 then None
         else Some (f64_sort ratios ! 2, samples ! 50000))"

definition cycles_to_ns :: "(rat \<Rightarrow> f64) \<Rightarrow> u64 \<Rightarrow> f64 \<Rightarrow> u64" where
  "cycles_to_ns rnd cycles cycles_per_ns = f64_as_u64 (f64_div rnd (u64_as_f64 rnd cycles) cycles_per_ns)"

definition net_cycles :: "u64 \<times> u64 \<Rightarrow> u64 \<Rightarrow> u64" where
  "net_cycles c overhead = sat_sub (snd c - fst c) overhead"

type_synonym u128 = "128 word"

text \<open>The state of a loop: the book, the histograms, the cycles so far and the number of timed sections.\<close>

record timing =
  tm_book :: hot_book
  tm_out :: per_type
  tm_total :: u128
  tm_clock :: nat

definition wall_ns :: "(rat \<Rightarrow> f64) \<Rightarrow> f64 \<Rightarrow> u128 \<Rightarrow> u64" where
  "wall_ns rnd cycles_per_ns cyc = f64_as_u64 (f64_div rnd (f64_of_nat rnd (unat cyc)) cycles_per_ns)"

definition time_event :: "(rat \<Rightarrow> f64) \<Rightarrow> nat \<Rightarrow> (nat \<Rightarrow> u64 \<times> u64) \<Rightarrow> f64 \<Rightarrow> u64 \<Rightarrow> sequenced_event \<Rightarrow> timing \<Rightarrow> timing" where
  "time_event rnd N clk cycles_per_ns overhead se t =
     (let book = fst (hb_apply N (tm_book t) (se_event se));
          net = net_cycles (clk (tm_clock t)) overhead
      in \<lparr>tm_book = book,
          tm_out = pt_record (ev_event_type (se_event se)) (cycles_to_ns rnd net cycles_per_ns) (tm_out t),
          tm_total = tm_total t + ucast net, tm_clock = tm_clock t + 1\<rparr>)"

definition timing_start :: "hot_book \<Rightarrow> per_type \<Rightarrow> timing" where
  "timing_start book out = \<lparr>tm_book = book, tm_out = out, tm_total = 0, tm_clock = 0\<rparr>"

definition measure_steady :: "(rat \<Rightarrow> f64) \<Rightarrow> nat \<Rightarrow> (nat \<Rightarrow> u64 \<times> u64) \<Rightarrow> hot_book \<Rightarrow> sequenced_event list \<Rightarrow> per_type \<Rightarrow>
    f64 \<Rightarrow> u64 \<Rightarrow> hot_book \<times> per_type \<times> u64" where
  "measure_steady rnd N clk book events out cycles_per_ns overhead =
     (let t = fold (time_event rnd N clk cycles_per_ns overhead) events (timing_start book out)
      in (tm_book t, tm_out t, wall_ns rnd cycles_per_ns (tm_total t)))"

text \<open>
  \<open>prefetch_event\<close> of \<open>core/src/hot_book.rs\<close>: the cache lines it hints, a slot of the slab and the tops of both grids. The
  book is borrowed immutably; the loop issues the hints for the next event before it times the current one.
\<close>

datatype hint = SlabSlot u32 | BidTop | AskTop

definition prefetch_event :: "hot_book \<Rightarrow> event \<Rightarrow> hint list" where
  "prefetch_event b e =
     (let t = ev_event_type e;
          needs_lookup = (t = event_type_code Trade \<or> t = event_type_code OrderCancel \<or> t = event_type_code OrderModify);
          touches_grid = (needs_lookup \<or> t = event_type_code OrderAdd)
      in (if needs_lookup \<and> ev_order_id e \<noteq> 0 then
            case om_lookup (sl_index (hb_orders b)) (ev_order_id e) of Some slot \<Rightarrow> [SlabSlot slot] | None \<Rightarrow> []
          else []) @
         (if touches_grid then [BidTop, AskTop] else []))"

definition prefetch_step :: "(rat \<Rightarrow> f64) \<Rightarrow> nat \<Rightarrow> (nat \<Rightarrow> u64 \<times> u64) \<Rightarrow> f64 \<Rightarrow> u64 \<Rightarrow> sequenced_event list \<Rightarrow> nat \<Rightarrow>
    hint list \<times> timing \<Rightarrow> hint list \<times> timing" where
  "prefetch_step rnd N clk cycles_per_ns overhead events i ht =
     (let (hs, t) = ht;
          hs = (if i + 1 < length events then hs @ prefetch_event (tm_book t) (se_event (events ! (i + 1))) else hs)
      in (hs, time_event rnd N clk cycles_per_ns overhead (events ! i) t))"

definition measure_steady_prefetch :: "(rat \<Rightarrow> f64) \<Rightarrow> nat \<Rightarrow> (nat \<Rightarrow> u64 \<times> u64) \<Rightarrow> hot_book \<Rightarrow> sequenced_event list \<Rightarrow> per_type \<Rightarrow>
    f64 \<Rightarrow> u64 \<Rightarrow> hot_book \<times> per_type \<times> u64" where
  "measure_steady_prefetch rnd N clk book events out cycles_per_ns overhead =
     (let (_, t) = fold (prefetch_step rnd N clk cycles_per_ns overhead events) [0..<length events] ([], timing_start book out)
      in (tm_book t, tm_out t, wall_ns rnd cycles_per_ns (tm_total t)))"

definition burst_size :: nat where
  "burst_size = 256"

function burst_from :: "(rat \<Rightarrow> f64) \<Rightarrow> nat \<Rightarrow> (nat \<Rightarrow> u64 \<times> u64) \<Rightarrow> f64 \<Rightarrow> u64 \<Rightarrow> sequenced_event list \<Rightarrow> nat \<Rightarrow> timing \<Rightarrow> timing" where
  "burst_from rnd N clk cycles_per_ns overhead events i t =
     (if i < length events then
        let end' = min (i + burst_size) (length events)
        in burst_from rnd N clk cycles_per_ns overhead events end'
             (fold (time_event rnd N clk cycles_per_ns overhead) (take (end' - i) (drop i events)) t)
      else t)"
  by auto
termination
  by (relation "measure (\<lambda>(_, _, _, _, _, events, i, _). length events - i)") (auto simp: burst_size_def)

declare burst_from.simps [simp del]

definition measure_burst :: "(rat \<Rightarrow> f64) \<Rightarrow> nat \<Rightarrow> (nat \<Rightarrow> u64 \<times> u64) \<Rightarrow> hot_book \<Rightarrow> sequenced_event list \<Rightarrow> per_type \<Rightarrow>
    f64 \<Rightarrow> u64 \<Rightarrow> hot_book \<times> per_type" where
  "measure_burst rnd N clk book events out cycles_per_ns overhead =
     (let t = burst_from rnd N clk cycles_per_ns overhead events 0 (timing_start book out) in (tm_book t, tm_out t))"

section \<open>Lanes\<close>

record lane_stats =
  ln_add_cyc :: u128
  ln_trade_cyc :: u128
  ln_cancel_cyc :: u128
  ln_n_add :: u64
  ln_n_trade :: u64
  ln_n_cancel :: u64
  ln_cycles_per_ns :: f64

definition lane_stats_default :: lane_stats where
  "lane_stats_default = \<lparr>ln_add_cyc = 0, ln_trade_cyc = 0, ln_cancel_cyc = 0, ln_n_add = 0, ln_n_trade = 0, ln_n_cancel = 0,
     ln_cycles_per_ns = Fin 0\<rparr>"

definition count_lane :: "event \<Rightarrow> lane_stats \<Rightarrow> lane_stats" where
  "count_lane e s =
     (if ev_event_type e = event_type_code OrderAdd then s\<lparr>ln_n_add := ln_n_add s + 1\<rparr>
      else if ev_event_type e = event_type_code Trade then s\<lparr>ln_n_trade := ln_n_trade s + 1\<rparr>
      else if ev_event_type e = event_type_code OrderCancel then s\<lparr>ln_n_cancel := ln_n_cancel s + 1\<rparr> else s)"

text \<open>One window: the counts, then the three timed passes.\<close>

definition lane_window :: "nat \<Rightarrow> (nat \<Rightarrow> u64 \<times> u64) \<Rightarrow> u64 \<Rightarrow> event list \<Rightarrow> hot_book \<times> lane_stats \<times> nat \<Rightarrow> hot_book \<times> lane_stats \<times> nat" where
  "lane_window N clk overhead chunk st =
     (let (book, s, k) = st;
          s = fold count_lane chunk s;
          book = fst (apply_lane_adds N book chunk);
          s = s\<lparr>ln_add_cyc := ln_add_cyc s + ucast (net_cycles (clk k) overhead)\<rparr>;
          book = fst (apply_lane_trades book chunk);
          s = s\<lparr>ln_trade_cyc := ln_trade_cyc s + ucast (net_cycles (clk (k + 1)) overhead)\<rparr>;
          book = fst (apply_lane_cancels book chunk);
          s = s\<lparr>ln_cancel_cyc := ln_cancel_cyc s + ucast (net_cycles (clk (k + 2)) overhead)\<rparr>
      in (book, s, k + 3))"

function chunks :: "nat \<Rightarrow> 'a list \<Rightarrow> 'a list list" where
  "chunks n xs = (if n = 0 \<or> xs = [] then [] else take n xs # chunks n (drop n xs))"
  by auto
termination
  by (relation "measure (length \<circ> snd)") auto

declare chunks.simps [simp del]

definition measure_lanes :: "nat \<Rightarrow> (nat \<Rightarrow> u64 \<times> u64) \<Rightarrow> hot_book \<Rightarrow> event list \<Rightarrow> f64 \<Rightarrow> u64 \<Rightarrow> hot_book \<times> lane_stats" where
  "measure_lanes N clk book events cycles_per_ns overhead =
     (let (book, s, _) = fold (lane_window N clk overhead) (chunks 64 events) (book, lane_stats_default, 0)
      in (book, s\<lparr>ln_cycles_per_ns := cycles_per_ns\<rparr>))"

definition per_event_ns :: "(rat \<Rightarrow> f64) \<Rightarrow> u128 \<Rightarrow> u64 \<Rightarrow> f64 \<Rightarrow> u64" where
  "per_event_ns rnd cyc n cycles_per_ns =
     (if n = 0 then 0
      else f64_as_u64 (f64_div rnd (f64_div rnd (f64_of_nat rnd (unat cyc)) cycles_per_ns) (u64_as_f64 rnd n)))"

definition add_per_event_ns :: "(rat \<Rightarrow> f64) \<Rightarrow> lane_stats \<Rightarrow> u64" where
  "add_per_event_ns rnd s = per_event_ns rnd (ln_add_cyc s) (ln_n_add s) (ln_cycles_per_ns s)"

definition trade_per_event_ns :: "(rat \<Rightarrow> f64) \<Rightarrow> lane_stats \<Rightarrow> u64" where
  "trade_per_event_ns rnd s = per_event_ns rnd (ln_trade_cyc s) (ln_n_trade s) (ln_cycles_per_ns s)"

definition cancel_per_event_ns :: "(rat \<Rightarrow> f64) \<Rightarrow> lane_stats \<Rightarrow> u64" where
  "cancel_per_event_ns rnd s = per_event_ns rnd (ln_cancel_cyc s) (ln_n_cancel s) (ln_cycles_per_ns s)"

definition total_wall_ns :: "(rat \<Rightarrow> f64) \<Rightarrow> lane_stats \<Rightarrow> u64" where
  "total_wall_ns rnd s = wall_ns rnd (ln_cycles_per_ns s) (ln_add_cyc s + ln_trade_cyc s + ln_cancel_cyc s)"

definition total_events :: "lane_stats \<Rightarrow> u64" where
  "total_events s = ln_n_add s + ln_n_trade s + ln_n_cancel s"

text \<open>
  What the measurement loops leave behind: they apply every event once and record it once, prefetching and bursts change
  neither book nor samples, and the lane experiment ends with the book of the serial run.
\<close>

section \<open>Serial loops\<close>

lemma prefetch_steps_eq:
  "snd (fold (prefetch_step rnd N clk c ov events) is ht) = fold (\<lambda>i. time_event rnd N clk c ov (events ! i)) is (snd ht)"
  by (induction "is" arbitrary: ht) (simp_all add: prefetch_step_def Let_def case_prod_unfold)

lemma hinted_slot:
  assumes "SlabSlot slot \<in> set ((if p then case x of Some s \<Rightarrow> [SlabSlot s] | None \<Rightarrow> [] else []) @ (if q then [BidTop, AskTop] else []))"
  shows "x = Some slot"
  using assms by (cases p; cases q; cases x) simp_all

text \<open>A hinted slot is inside the slab and holds the order that the event names.\<close>

lemma prefetched_slot:
  assumes "hb_inv N b" and "SlabSlot slot \<in> set (prefetch_event b e)"
  shows "unat slot < length (sl_data (hb_orders b))"
    and "slab_get (hb_orders b) (ev_order_id e) = Some (sl_data (hb_orders b) ! unat slot)"
proof -
  have s: "om_lookup (sl_index (hb_orders b)) (ev_order_id e) = Some slot"
    using assms(2) unfolding prefetch_event_def Let_def by (rule hinted_slot)
  show "unat slot < length (sl_data (hb_orders b))"
    using assms(1) s unfolding hb_inv_def by (blast intro: slab_slot_bound)
  show "slab_get (hb_orders b) (ev_order_id e) = Some (sl_data (hb_orders b) ! unat slot)"
    by (simp add: slab_get_def s)
qed

lemma fold_indices: "fold (\<lambda>i. f (xs ! i)) [0..<length xs] t = fold f xs t"
proof -
  have "fold (\<lambda>i. f (xs ! i)) [0..<length xs] t = fold f (map ((!) xs) [0..<length xs]) t" by (simp add: fold_map comp_def)
  then show ?thesis by (simp add: map_nth)
qed

lemma burst_from_eq: "burst_from rnd N clk c ov events i t = fold (time_event rnd N clk c ov) (drop i events) t"
proof (induction rnd N clk c ov events i t rule: burst_from.induct [case_names go])
  case (go rnd N clk c ov events i t)
  show ?case
  proof (cases "i < length events")
    case True
    let ?e = "min (i + burst_size) (length events)"
    have "drop i events = take (?e - i) (drop i events) @ drop ?e events"
      using True by (metis append_take_drop_id drop_drop le_add_diff_inverse2 less_imp_le min.bounded_iff le_add1)
    then have "fold (time_event rnd N clk c ov) (drop i events) t =
        fold (time_event rnd N clk c ov) (drop ?e events) (fold (time_event rnd N clk c ov) (take (?e - i) (drop i events)) t)"
      by (metis fold_append comp_apply)
    then show ?thesis using go.IH [OF True refl] True by (simp add: burst_from.simps [of _ _ _ _ _ _ i] Let_def)
  qed (simp add: burst_from.simps)
qed

lemma time_events_book: "tm_book (fold (time_event rnd N clk c ov) events t) = hb_run N (tm_book t) (map se_event events)"
  by (induction events arbitrary: t) (simp_all add: hb_run_def time_event_def Let_def)

lemma hg_record_n: "hg_n (hg_record ns h) = hg_n h + 1"
  by (simp add: hg_record_def Let_def)

lemma time_events_samples:
  "hg_n (pt_total (tm_out (fold (time_event rnd N clk c ov) events t))) = hg_n (pt_total (tm_out t)) + of_nat (length events)"
proof (induction events arbitrary: t)
  case (Cons e es)
  have "hg_n (pt_total (pt_record ty ns p)) = hg_n (pt_total p) + 1" for ty ns p
    by (simp add: pt_record_def hg_record_n Let_def)
  then show ?case using Cons by (simp add: time_event_def Let_def algebra_simps)
qed simp

text \<open>
  The three serial loops measure the same thing: whatever the cycle counter reads, the steady loop leaves the book
  that applying the events in order gives and one sample per event; the prefetching loop returns exactly the same
  book, histograms and wall time for the same readings (a prefetch is not charged to anything), and so does the burst
  loop for book and histograms.
\<close>

theorem serial_loops_agree:
  "fst (measure_steady rnd N clk book events out c ov) = hb_run N book (map se_event events) \<and>
   hg_n (pt_total (fst (snd (measure_steady rnd N clk book events out c ov)))) = hg_n (pt_total out) + of_nat (length events) \<and>
   measure_steady_prefetch rnd N clk book events out c ov = measure_steady rnd N clk book events out c ov \<and>
   measure_burst rnd N clk book events out c ov =
     (fst (measure_steady rnd N clk book events out c ov), fst (snd (measure_steady rnd N clk book events out c ov)))"
  by (simp add: measure_steady_def measure_steady_prefetch_def measure_burst_def Let_def case_prod_unfold prefetch_steps_eq
      fold_indices burst_from_eq time_events_book time_events_samples timing_start_def)

section \<open>Lanes\<close>

lemma concat_chunks: "0 < n \<Longrightarrow> concat (chunks n xs) = xs"
proof (induction n xs rule: chunks.induct [case_names go])
  case (go n xs)
  show ?case
  proof (cases "xs = []")
    case True
    then show ?thesis by (simp add: chunks.simps [of n "[]"])
  next
    case False
    then show ?thesis using go by (simp add: chunks.simps [of n xs])
  qed
qed

lemma lane_window_book: "fst (lane_window N clk ov w (b, s, k)) = fst (apply_lanes N b w)"
  by (simp add: lane_window_def apply_lanes_def Let_def case_prod_unfold)

lemma lane_windows_book: "fst (fold (lane_window N clk ov) ws st) = lanes_run N (fst st) ws"
proof (induction ws arbitrary: st)
  case (Cons w ws)
  obtain b s k where "st = (b, s, k)" by (cases st)
  then show ?case using Cons.IH [of "lane_window N clk ov w st"] lane_window_book [of N clk ov w b s k] by (simp add: lanes_run_def)
qed (simp add: lanes_run_def)

lemma count_lane_total: "laned e \<Longrightarrow> total_events (count_lane e s) = total_events s + 1"
  by (auto simp: laned_def of_type_def count_lane_def total_events_def)

lemma count_lanes_total: "\<forall>e \<in> set w. laned e \<Longrightarrow> total_events (fold count_lane w s) = total_events s + of_nat (length w)"
  by (induction w arbitrary: s) (simp_all add: count_lane_total algebra_simps)

lemma lane_window_total:
  "\<forall>e \<in> set w. laned e \<Longrightarrow> total_events (fst (snd (lane_window N clk ov w st))) = total_events (fst (snd st)) + of_nat (length w)"
  using count_lanes_total [of w "fst (snd st)"] by (cases st) (simp add: lane_window_def Let_def total_events_def)

lemma lane_windows_total:
  "\<forall>e \<in> set (concat ws). laned e \<Longrightarrow>
   total_events (fst (snd (fold (lane_window N clk ov) ws st))) = total_events (fst (snd st)) + of_nat (length (concat ws))"
  by (induction ws arbitrary: st) (simp_all add: lane_window_total)

lemma measure_lanes_eq:
  assumes "\<forall>e \<in> set es. laned e"
  shows "fst (measure_lanes N clk b es c ov) = lanes_run N b (chunks 64 es)"
    and "total_events (snd (measure_lanes N clk b es c ov)) = of_nat (length es)"
  using assms lane_windows_book [of N clk ov "chunks 64 es" "(b, lane_stats_default, 0)"]
    lane_windows_total [of "chunks 64 es" N clk ov "(b, lane_stats_default, 0)"]
  by (simp_all add: measure_lanes_def Let_def case_prod_unfold concat_chunks) (simp add: total_events_def lane_stats_default_def)

section \<open>The realistic stream is in the scope of the lanes\<close>

context pool_generator
begin

definition pool_below :: "bench_gen \<Rightarrow> bool" where
  "pool_below s \<longleftrightarrow> (\<forall>x \<in> set (bg_live s). unat (fst x) < unat (bg_next_order_id s))"

definition lane_event :: "bench_gen \<Rightarrow> event \<Rightarrow> bench_gen \<Rightarrow> bool" where
  "lane_event s e s' \<longleftrightarrow> laned e \<and> (of_type OrderAdd e \<longrightarrow> ev_side e \<le> 1 \<and> unat (ev_qty e) \<le> qmax \<and> ev_order_id e = bg_next_order_id s) \<and>
     unat (ev_order_id e) < unat (bg_next_order_id s') \<and> unat (bg_next_order_id s) \<le> unat (bg_next_order_id s') \<and>
     unat (bg_next_order_id s') \<le> Suc (unat (bg_next_order_id s)) \<and> pool_below s' \<and> length (bg_live s') \<le> Suc (length (bg_live s)) \<and>
     (of_type OrderAdd e \<or> ev_order_id e \<in> fst ` set (bg_live s)) \<and>
     fst ` set (bg_live s') \<subseteq> insert (ev_order_id e) (fst ` set (bg_live s))"

lemma swap_remove_subset: "i < length xs \<Longrightarrow> set (swap_remove i xs) \<subseteq> set xs"
  using arg_cong [OF swap_remove_mset [of i xs], of set_mset] by auto

lemma length_swap_remove: "length (swap_remove i xs) \<le> length xs"
  by (simp add: swap_remove_def)

lemma step_lane_event:
  assumes p: "pool_below s" and n: "Suc (unat (bg_next_order_id s)) < 2 ^ 64" and l: "length (bg_live s) < 2 ^ 64"
    and r: "step i s = Some (s', e)"
  shows "lane_event s e s'"
  using step_cases [OF l, of i]
proof (elim disjE exE conjE)
  fix x side price qty
  assume a: "step i s = Some (bg_add i side price qty (s\<lparr>bg_rng := x\<rparr>))" "side \<le> 1" "unat qty \<le> qmax"
  have "unat (bg_next_order_id s + 1) = Suc (unat (bg_next_order_id s))" using n by (simp add: unat_word_ariths)
  moreover have "\<forall>x \<in> set (bg_live s). unat (fst x) < Suc (unat (bg_next_order_id s))"
    using p by (simp add: pool_below_def less_SucI)
  moreover have "s' = s\<lparr>bg_rng := x, bg_next_order_id := bg_next_order_id s + 1,
        bg_live := bg_live s @ [(bg_next_order_id s, price, qty, side)]\<rparr>"
      "e = bench_event i OrderAdd side price qty (bg_next_order_id s)"
    using r a(1) by (auto simp: bg_add_def Let_def)
  ultimately show ?thesis
    using a(2,3) by (simp add: lane_event_def pool_below_def laned_def of_type_def bench_event_def)
next
  fix x idx
  assume a: "step i s = bg_cancel i idx (s\<lparr>bg_rng := x\<rparr>)" and idx: "idx < length (bg_live s)"
  obtain oid price qty side where y: "bg_live s ! idx = (oid, price, qty, side)" by (cases "bg_live s ! idx")
  have mem: "oid \<in> fst ` set (bg_live s)" "fst ` set (swap_remove idx (bg_live s)) \<subseteq> fst ` set (bg_live s)"
    using nth_mem [OF idx] y swap_remove_subset [OF idx] by (force, blast)
  have "unat oid < unat (bg_next_order_id s)" using p nth_mem [OF idx] y by (auto simp: pool_below_def)
  moreover have "\<forall>x \<in> set (swap_remove idx (bg_live s)). unat (fst x) < unat (bg_next_order_id s)"
    using p swap_remove_subset [OF idx] unfolding pool_below_def by blast
  moreover have "s' = s\<lparr>bg_rng := x, bg_live := swap_remove idx (bg_live s)\<rparr>" "e = bench_event i OrderCancel side price qty oid"
    using r a y idx by (auto simp: bg_cancel_def Let_def)
  ultimately show ?thesis
    using length_swap_remove [of idx "bg_live s"] mem
    by (simp add: lane_event_def pool_below_def laned_def of_type_def bench_event_def subset_insertI2)
next
  fix x idx fill
  assume a: "step i s = bg_trade i idx fill (s\<lparr>bg_rng := x\<rparr>)" and idx: "idx < length (bg_live s)"
  obtain oid price qty side where y: "bg_live s ! idx = (oid, price, qty, side)" by (cases "bg_live s ! idx")
  let ?pool = "if qty \<le> fill qty then swap_remove idx (bg_live s) else (bg_live s)[idx := (oid, price, qty - fill qty, side)]"
  have o: "unat oid < unat (bg_next_order_id s)" using p nth_mem [OF idx] y by (auto simp: pool_below_def)
  have "set ?pool \<subseteq> insert (oid, price, qty - fill qty, side) (set (bg_live s))"
    using swap_remove_subset [OF idx] set_update_subset_insert [of "bg_live s" idx] by auto
  note sub = this
  have mem: "oid \<in> fst ` set (bg_live s)" "fst ` set ?pool \<subseteq> insert oid (fst ` set (bg_live s))"
    using nth_mem [OF idx] y image_mono [OF sub, of fst] by force+
  have "\<forall>x \<in> insert (oid, price, qty - fill qty, side) (set (bg_live s)). unat (fst x) < unat (bg_next_order_id s)"
    using p o by (simp add: pool_below_def)
  with sub have "\<forall>x \<in> set ?pool. unat (fst x) < unat (bg_next_order_id s)" by (meson subsetD)
  moreover have "length ?pool \<le> length (bg_live s)" using length_swap_remove [of idx "bg_live s"] by simp
  moreover have "s' = s\<lparr>bg_rng := x, bg_live := ?pool\<rparr>" "e = bench_event i Trade side price (fill qty) oid"
    using r a y idx by (auto simp: bg_trade_def Let_def)
  ultimately show ?thesis using o mem by (simp add: lane_event_def pool_below_def laned_def of_type_def bench_event_def)
qed

lemma loop_lane:
  "bg_loop step is s = Some (s', es) \<Longrightarrow> pool_below s \<Longrightarrow> unat (bg_next_order_id s) + length is < 2 ^ 64 \<Longrightarrow>
   length (bg_live s) + length is < 2 ^ 64 \<Longrightarrow> seen \<subseteq> {k. unat k < unat (bg_next_order_id s)} \<Longrightarrow>
   fst ` set (bg_live s) \<subseteq> A \<Longrightarrow> adds_first seen (map se_event es) \<and> uses_added A (map se_event es) \<and>
   (\<forall>e \<in> set (map se_event es). laned e \<and> (of_type OrderAdd e \<longrightarrow> ev_side e \<le> 1 \<and> unat (ev_qty e) \<le> qmax))"
proof (induction "is" arbitrary: s s' es seen A)
  case (Cons i "is")
  obtain s1 e es1 where 1: "step i s = Some (s1, e)" "bg_loop step is s1 = Some (s', es1)" "es = sequenced (of_nat i + 1) e # es1"
    using Cons.prems(1) by (auto split: option.splits)
  have le: "lane_event s e s1" using step_lane_event [OF Cons.prems(2) _ _ 1(1)] Cons.prems(3,4) by simp
  have "insert (ev_order_id e) seen \<subseteq> {k. unat k < unat (bg_next_order_id s1)}"
    using le Cons.prems(5) by (auto simp: lane_event_def)
  moreover have "fst ` set (bg_live s1) \<subseteq> insert (ev_order_id e) A" using le Cons.prems(6) unfolding lane_event_def by blast
  ultimately have "adds_first (insert (ev_order_id e) seen) (map se_event es1) \<and> uses_added (insert (ev_order_id e) A) (map se_event es1) \<and>
      (\<forall>e \<in> set (map se_event es1). laned e \<and> (of_type OrderAdd e \<longrightarrow> ev_side e \<le> 1 \<and> unat (ev_qty e) \<le> qmax))"
    using le Cons.prems(3,4) by (intro Cons.IH [OF 1(2)]) (simp_all add: lane_event_def)
  moreover have "ev_order_id e \<notin> seen" if "of_type OrderAdd e" using that le Cons.prems(5) by (auto simp: lane_event_def)
  moreover have "of_type OrderAdd e \<or> ev_order_id e \<in> A" using le Cons.prems(6) by (auto simp: lane_event_def)
  ultimately show ?case using le by (simp add: 1(3) sequenced_def lane_event_def)
qed simp

lemma stream_lanes:
  assumes n: "n < 2 ^ 32" and r: "bg_loop step [0..<n] (bg_init seed) = Some (s, es)"
  shows "lane_stream (map se_event es) \<and> uses_added {} (map se_event es) \<and> length es = n \<and>
    (\<forall>e \<in> set (map se_event es). banded P e \<and> unat (ev_order_id e) \<le> n \<and> (of_type OrderAdd e \<longrightarrow> unat (ev_qty e) \<le> qmax))"
proof -
  obtain s' es' where e: "bg_loop step [0..<n] (bg_init seed) = Some (s', es')" "map se_seq es' = map (\<lambda>i. of_nat i + 1) [0..<n]"
      "\<forall>e \<in> set (map se_event es'). banded P e \<and> (is_add e \<longrightarrow> unat (ev_order_id e) \<le> n)"
    using stream_events [OF n, of seed] by blast
  then have es: "es' = es" using r by simp
  have len: "length es = n" using arg_cong [OF e(2), of length] by (simp add: es)
  have a: "adds_first {} (map se_event es) \<and> uses_added {} (map se_event es) \<and>
      (\<forall>e \<in> set (map se_event es). laned e \<and> (of_type OrderAdd e \<longrightarrow> ev_side e \<le> 1 \<and> unat (ev_qty e) \<le> qmax))"
    using n by (intro loop_lane [OF r]) (simp_all add: bg_init_def pool_below_def)
  have "(\<Sum>e\<leftarrow>filter (of_type OrderAdd) (map se_event es). unat (ev_qty e)) \<le> qmax * length (filter (of_type OrderAdd) (map se_event es))"
    using a by (intro sum_list_bounded) auto
  also have "\<dots> \<le> qmax * n" using length_filter_le [of "of_type OrderAdd" "map se_event es"] len by (simp add: mult_le_mono2)
  also have "\<dots> < 2 ^ 32 * 2 ^ 32" using n qmax_small by (intro mult_strict_mono) auto
  finally have "(\<Sum>e\<leftarrow>filter (of_type OrderAdd) (map se_event es). unat (ev_qty e)) < 2 ^ 64" by simp
  moreover have "unat (ev_order_id x) \<le> n" if "x \<in> set (map se_event es)" for x
    using uses_added_ids [of "{}" "map se_event es" x] a that e(3) by (auto simp: es is_add_iff)
  ultimately show ?thesis using a e(3) n len by (auto simp: lane_stream_def es)
qed

end

section \<open>The warmed book\<close>

lemma warmup_banded:
  "\<forall>i \<in> set is. i < 2 ^ 32 \<Longrightarrow>
   \<forall>e \<in> set (map se_event (warmup_from cfg is x)). banded (market_band cfg) e \<and> ev_side e \<le> 1 \<and> unat (ev_order_id e) < 2 ^ 40"
proof (induction "is" arbitrary: x)
  case (Cons i "is")
  obtain x1 side price where 1: "bg_place cfg x = (x1, side, price)" by (cases "bg_place cfg x")
  obtain x2 q where 2: "xs_bounded 90 x1 = (x2, q)" by fastforce
  have "i < 2 ^ 32" using Cons.prems by simp
  then have oid: "unat (of_nat i + 1 :: u64) = Suc i" by (simp add: unat_word_ariths unat_of_nat_small)
  then have "(of_nat i + 1 :: u64) \<noteq> 0" by (metis nat.distinct(1) unat_0)
  moreover have "unat (of_nat i + 1 :: u64) < 2 ^ 40" using oid \<open>i < 2 ^ 32\<close> by simp
  moreover have "side_from_u8 side = Some (if side = 0 then Bid else Ask)" using bg_place_ok [OF 1] by (auto simp: u8_le_1 side_from_u8_def)
  ultimately show ?case
    using Cons.IH [of x2] Cons.prems bg_place_ok [OF 1] by (simp add: 1 2 banded_def)
qed simp

lemma warmup_warm:
  assumes "m < 2 ^ 32"
  shows "warm_adds (map se_event (warmup_events m cfg)) \<and> length (warmup_events m cfg) = m \<and>
    (\<forall>e \<in> set (map se_event (warmup_events m cfg)). banded (market_band cfg) e \<and> unat (ev_qty e) \<le> 99)"
proof -
  let ?w = "map se_event (warmup_events m cfg)"
  note w = warmup_from_events [of cfg "[0..<m]" "mc_seed cfg + 1", folded warmup_events_def]
  have "\<forall>e \<in> set ?w. banded (market_band cfg) e \<and> ev_side e \<le> 1 \<and> unat (ev_order_id e) < 2 ^ 40"
    using warmup_banded [of "[0..<m]" cfg "mc_seed cfg + 1"] assms by (simp add: warmup_events_def)
  moreover have "\<forall>e \<in> set ?w. of_type OrderAdd e \<and> unat (ev_qty e) \<le> 99" using w by (simp add: is_add_iff)
  moreover have "filter is_add ?w = ?w" using w by (simp add: filter_id_conv)
  then have "distinct (map ev_order_id ?w)" using warmup_fresh [OF assms, of cfg] by (simp add: fresh_stream_def)
  moreover have "length (warmup_events m cfg) = m" using arg_cong [OF conjunct2 [OF w], of length] by simp
  ultimately show ?thesis by (simp add: warm_adds_def)
qed

text \<open>
  Property C38. The lane experiment compares like with like. Both measurements start from books warmed up with the same \<open>m\<close>
  orders, whose ids the realistic stream of \<open>n\<close> events then uses again; for every market configuration, seed, lengths with
  \<open>m + n\<close> below \<open>2^32\<close> and cycle counter, the lane run (three passes over windows of 64 events) and the steady run
  end with books of the same canonical hash, and the lane run counts as many events as the steady run has samples.
\<close>

theorem lane_experiment_agrees:
  assumes "m + n < 2 ^ 32"
  shows "\<exists>es. realistic_events n cfg = Some es \<and>
    (let book = hb_run 256 (hb_new 256 iid) (map se_event (warmup_events m cfg)) in
       hb_canonical_l2_hash xxh xxs (fst (measure_lanes 256 clk book (map se_event es) c ov)) =
         hb_canonical_l2_hash xxh xxs (fst (measure_steady rnd 256 clk' book es pt_new c ov)) \<and>
       total_events (snd (measure_lanes 256 clk book (map se_event es) c ov)) = of_nat n \<and>
       hg_n (pt_total (fst (snd (measure_steady rnd 256 clk' book es pt_new c ov)))) = of_nat n)"
proof -
  have n: "n < 2 ^ 32" and m: "m < 2 ^ 32" using assms by simp_all
  obtain s es where es: "bg_loop (realistic_step cfg) [0..<n] (bg_init (mc_seed cfg)) = Some (s, es)"
    using realistic.stream_events [OF n, of cfg "mc_seed cfg"] by blast
  let ?w = "map se_event (warmup_events m cfg)" and ?es = "map se_event es" and ?ws = "chunks 64 (map se_event es)"
  note l = realistic.stream_lanes [OF n es] and w = warmup_warm [OF m, of cfg]
  have la: "\<forall>e \<in> set ?es. laned e" using l by (simp add: lane_stream_def)
  have q: "\<forall>e \<in> set (filter (of_type OrderAdd) (?w @ ?es)). unat (ev_qty e) \<le> 5841" using l w by fastforce
  have "(\<Sum>e\<leftarrow>filter (of_type OrderAdd) (?w @ ?es). unat (ev_qty e)) \<le> 5841 * length (filter (of_type OrderAdd) (?w @ ?es))"
    using q by (intro sum_list_bounded) blast
  also have "\<dots> \<le> 5841 * (m + n)"
    using length_filter_le [of "of_type OrderAdd" "?w @ ?es"] l w by (intro mult_le_mono2) simp
  also have "\<dots> < 2 ^ 64" using assms by simp
  finally have sum: "(\<Sum>e\<leftarrow>filter (of_type OrderAdd) (?w @ ?es). unat (ev_qty e)) < 2 ^ 64" .
  have c: "concat ?ws = ?es" by (simp add: concat_chunks)
  have ids: "\<forall>e \<in> set ?es. unat (ev_order_id e) < 2 ^ 40" using l n by fastforce
  have "hb_canonical_l2_hash xxh xxs (lanes_run 256 (hb_run 256 (hb_new 256 iid) ?w) ?ws) =
      hb_canonical_l2_hash xxh xxs (hb_run 256 (hb_new 256 iid) (?w @ concat ?ws))"
  proof (rule price_band.lanes_agree_warmed [OF market_price_band [of cfg]])
    show "\<forall>e \<in> set (?w @ concat ?ws). banded (market_band cfg) e" using l w by (auto simp: c)
    show "length (?w @ concat ?ws) < 2 ^ 32" using l w assms by (simp add: c)
  qed (use l w ids sum in \<open>simp_all only: c\<close>)
  then show ?thesis
    using es l measure_lanes_eq [OF la] time_events_book time_events_samples
    by (intro exI [of _ es]) (simp add: realistic_events_def c measure_steady_def Let_def timing_start_def
        pt_new_def hg_new_def hb_run_join)
qed

theorem lane_experiment_agrees_witness:
  "\<exists>es. realistic_events 500000 market_config_default = Some es \<and>
    (let book = hb_run 256 (hb_new 256 1) (map se_event (warmup_events 50000 market_config_default)) in
       hb_canonical_l2_hash (\<lambda>_. 11) (\<lambda>bs s. of_nat (le_dec bs) + 31 * s)
         (fst (measure_lanes 256 (\<lambda>k. (of_nat k, of_nat k + 40)) book (map se_event es) (Fin 3) 20)) =
       hb_canonical_l2_hash (\<lambda>_. 11) (\<lambda>bs s. of_nat (le_dec bs) + 31 * s)
         (fst (measure_steady Fin 256 (\<lambda>k. (of_nat k, of_nat k + 40)) book es pt_new (Fin 3) 20)))"
  using lane_experiment_agrees [of 50000 500000 market_config_default 1 "\<lambda>_. 11" "\<lambda>bs s. of_nat (le_dec bs) + 31 * s"
      "\<lambda>k. (of_nat k, of_nat k + 40)" "Fin 3" 20 Fin "\<lambda>k. (of_nat k, of_nat k + 40)"]
  unfolding Let_def by auto

end
