(* ===== verification/FL_ChainLatency.thy ===== *)
theory FL_ChainLatency
  imports FL_Chain FL_Latency
begin

text \<open>
  The harness \<open>bench/src/bin/chaos_latency.rs\<close>: passes of a fresh default chain over a stream, and the statistics of their
  times. The measured times are a parameter, one per pass, as are the square roots.
\<close>

record chain_stats =
  cl_mean_ns :: f64
  cl_stddev_ns :: f64
  cl_p50_ns :: f64
  cl_p90_ns :: f64
  cl_p99_ns :: f64
  cl_min_ns :: f64
  cl_max_ns :: f64
  cl_flags_per_iter :: u64

text \<open>One pass: the buffer is cleared before each event.\<close>

definition chain_pass :: "(rat \<Rightarrow> f64) \<Rightarrow> (f64 \<Rightarrow> f64) \<Rightarrow> sequenced_event list \<Rightarrow> chaos_chain \<Rightarrow> chaos_chain" where
  "chain_pass rnd sq stream c = fold (\<lambda>ev c. fst (cc_process_into rnd sq ev (c, []))) stream c"

definition f64_sum :: "(rat \<Rightarrow> f64) \<Rightarrow> f64 list \<Rightarrow> f64" where
  "f64_sum rnd xs = foldl (f64_add rnd) (Fin 0) xs"

text \<open>The flags of the last pass; no pass leaves 0.\<close>

fun last_flags :: "(rat \<Rightarrow> f64) \<Rightarrow> (f64 \<Rightarrow> f64) \<Rightarrow> sequenced_event list \<Rightarrow> nat \<Rightarrow> u64" where
  "last_flags rnd sq stream 0 = 0"
| "last_flags rnd sq stream (Suc n) = cc_total_flags (chain_pass rnd sq stream (cc_default_itch rnd))"

definition measure_chain :: "(rat \<Rightarrow> f64) \<Rightarrow> (f64 \<Rightarrow> f64) \<Rightarrow> sequenced_event list \<Rightarrow> nat list \<Rightarrow> chain_stats option" where
  "measure_chain rnd sq stream elapsed =
     (let raw = map (\<lambda>ns. f64_div rnd (f64_of_nat rnd ns) (f64_of_nat rnd (length stream))) elapsed;
          n = length raw
      in if n = 0 \<or> 2 \<le> n \<and> NaN \<in> set raw then None
         else let samples = f64_sort raw;
                  mean = f64_div rnd (f64_sum rnd samples) (f64_of_nat rnd n);
                  var = f64_div rnd (f64_sum rnd (map (\<lambda>x. f64_mul rnd (f64_sub rnd x mean) (f64_sub rnd x mean)) samples)) (f64_of_nat rnd n)
              in Some \<lparr>cl_mean_ns = mean, cl_stddev_ns = sq var, cl_p50_ns = samples ! (n div 2), cl_p90_ns = samples ! (n * 9 div 10),
                   cl_p99_ns = samples ! (n * 99 div 100), cl_min_ns = samples ! 0, cl_max_ns = samples ! (n - 1),
                   cl_flags_per_iter = last_flags rnd sq stream n\<rparr>)"

section \<open>Ordered percentiles\<close>

lemma set_f64_insort: "set (f64_insort x xs) = insert x (set xs)"
  by (induction xs) auto

lemma set_f64_sort: "set (f64_sort xs) = set xs"
  by (induction xs) (simp_all add: f64_sort_def set_f64_insort)

lemma length_f64_sort: "length (f64_sort xs) = length xs"
proof -
  have "length (f64_insort x ys) = Suc (length ys)" for x ys by (induction ys) auto
  then show ?thesis by (induction xs) (simp_all add: f64_sort_def)
qed

lemma f64_insort_sorted:
  "NaN \<notin> insert x (set xs) \<Longrightarrow> sorted_wrt f64_le xs \<Longrightarrow> sorted_wrt f64_le (f64_insort x xs)"
proof (induction xs)
  case (Cons y ys)
  have "x \<noteq> NaN" "y \<noteq> NaN" using Cons.prems(1) by auto
  then have "f64_le x y \<or> f64_le y x" by (rule f64_le_total)
  then show ?case using Cons by (auto simp: set_f64_insort intro: f64_le_trans)
qed simp

lemma f64_sort_sorted: "NaN \<notin> set xs \<Longrightarrow> sorted_wrt f64_le (f64_sort xs)"
proof (induction xs)
  case (Cons x xs)
  have "f64_sort (x # xs) = f64_insort x (f64_sort xs)" by (simp add: f64_sort_def)
  moreover have "NaN \<notin> insert x (set (f64_sort xs))" using Cons.prems by (auto simp: set_f64_sort)
  ultimately show ?case using Cons.IH f64_insort_sorted Cons.prems by simp
qed (simp add: f64_sort_def)

lemma f64_sort_mono:
  assumes "NaN \<notin> set xs" "i \<le> j" "j < length xs"
  shows "f64_le (f64_sort xs ! i) (f64_sort xs ! j)"
proof (cases "i = j")
  case True
  have "f64_sort xs ! j \<in> set xs" using assms(3) nth_mem [of j "f64_sort xs"] by (simp add: length_f64_sort set_f64_sort)
  then have "f64_sort xs ! j \<noteq> NaN" using assms(1) by auto
  then show ?thesis using f64_le_total True by blast
next
  case False
  then show ?thesis using f64_sort_sorted [OF assms(1)] assms by (simp add: sorted_wrt_iff_nth_less length_f64_sort)
qed

lemma chain_pass_run: "chain_pass rnd sq stream c = fst (cc_run rnd sq stream c)"
  by (induction stream arbitrary: c) (simp_all add: chain_pass_def cc_run_Cons cc_process_def)

text \<open>
  The statistics of the chain harness: with at least one pass and a stream that is not empty it returns, its figures are
  ordered, minimum to median to 90th and 99th percentile to maximum, and the flags it reports are those that one run of
  the default chain counts, however many passes it makes.
\<close>

theorem chain_stats_ordered:
  assumes "unbounded rnd" and "stream \<noteq> []" and "elapsed \<noteq> []"
  shows "\<exists>st. measure_chain rnd sq stream elapsed = Some st \<and> f64_le (cl_min_ns st) (cl_p50_ns st) \<and>
    f64_le (cl_p50_ns st) (cl_p90_ns st) \<and> f64_le (cl_p90_ns st) (cl_p99_ns st) \<and> f64_le (cl_p99_ns st) (cl_max_ns st) \<and>
    cl_flags_per_iter st = cc_total_flags (fst (cc_run rnd sq stream (cc_default_itch rnd)))"
proof -
  let ?raw = "map (\<lambda>ns. f64_div rnd (f64_of_nat rnd ns) (f64_of_nat rnd (length stream))) elapsed"
  have "is_fin (f64_div rnd (f64_of_nat rnd ns) (f64_of_nat rnd (length stream)))" for ns
    using assms(1,2) f64_of_nat_nonzero [OF unbounded_rounding [OF assms(1)]] by (intro is_fin_div is_fin_of_nat) simp_all
  then have nan: "NaN \<notin> set ?raw" by (metis (no_types, lifting) imageE is_fin.simps(4) list.set_map)
  let ?n = "length ?raw"
  have n: "0 < ?n" using assms(3) by simp
  then obtain m where m: "?n = Suc m" by (cases ?n) simp_all
  have ix: "?n div 2 \<le> ?n * 9 div 10" "?n * 9 div 10 \<le> ?n * 99 div 100" "?n * 99 div 100 \<le> ?n - 1" "?n * 99 div 100 < ?n" "?n * 9 div 10 < ?n"
    using n by linarith+
  show ?thesis
    using n nan f64_sort_mono [OF nan] ix m
    by (simp add: measure_chain_def Let_def chain_pass_run)
qed

end
