(* ===== verification/FL_Wal.thy ===== *)
theory FL_Wal
  imports FL_OrdMap
begin

text \<open>
  The CRC-32/IEEE checksum of the write-ahead log (\<open>crc32\<close> and \<open>CRC32_TABLE\<close> of \<open>replay/src/wal.rs\<close>),
  its agreement with the bit-serial definition of the code, and the detection of single-byte errors; then the log itself.
\<close>

definition crc_bit :: "u32 \<Rightarrow> u32" where
  "crc_bit c = (if c AND 1 \<noteq> 0 then 0xEDB88320 XOR drop_bit 1 c else drop_bit 1 c)"

definition crc32_table :: "u32 list" where
  "crc32_table = map (\<lambda>i. (crc_bit ^^ 8) (of_nat i)) [0..<256]"

definition crc_step :: "u32 \<Rightarrow> u8 \<Rightarrow> u32" where
  "crc_step crc b = crc32_table ! unat ((crc XOR ucast b) AND 0xFF) XOR drop_bit 8 crc"

definition crc32 :: "bytes \<Rightarrow> u32" where
  "crc32 data = NOT (foldl crc_step 0xFFFFFFFF data)"

text \<open>The bit-serial reference: shift each byte in, one polynomial step per bit.\<close>

definition crc32_bitwise :: "bytes \<Rightarrow> u32" where
  "crc32_bitwise data = NOT (foldl (\<lambda>c b. (crc_bit ^^ 8) (c XOR ucast b)) 0xFFFFFFFF data)"

section \<open>The polynomial step is linear and injective\<close>

lemma xor_cancel: "a XOR b = a XOR c \<longleftrightarrow> b = (c :: 'a::len word)"
proof
  assume "a XOR b = a XOR c"
  then have "(a XOR a) XOR b = (a XOR a) XOR c" by (simp only: xor.assoc)
  then show "b = c" by simp
qed simp

lemma xor_cancel_right: "b XOR a = c XOR a \<longleftrightarrow> b = (c :: 'a::len word)"
  using xor_cancel [of a b c] by (simp only: xor.commute)

lemma and_one_iff: "c AND 1 \<noteq> (0 :: u32) \<longleftrightarrow> bit c 0"
  by (simp add: and_one_eq mod_2_eq_odd bit_0)

lemma crc_bit_alt: "crc_bit c = (if bit c 0 then 0xEDB88320 else 0) XOR drop_bit 1 c"
  by (simp add: crc_bit_def and_one_iff)

lemma crc_bit_xor: "crc_bit (a XOR b) = crc_bit a XOR crc_bit b"
  by (simp add: crc_bit_alt bit_xor_iff xor.assoc xor.left_commute)

lemma crc_bit_funpow_xor: "(crc_bit ^^ n) (a XOR b) = (crc_bit ^^ n) a XOR (crc_bit ^^ n) b"
  by (induction n) (simp_all add: crc_bit_xor)

lemma crc_bit_top: "bit (crc_bit c) 31 \<longleftrightarrow> bit c 0"
proof -
  have "bit (0xEDB88320 :: u32) 31" by (simp add: bit_numeral_rec)
  moreover have "\<not> bit c 32" using bit_imp_le_length [of c 32] by auto
  ultimately show ?thesis by (simp add: crc_bit_alt bit_xor_iff bit_drop_bit_eq)
qed

lemma crc_bit_inj: "crc_bit a = crc_bit b \<longleftrightarrow> a = b"
proof
  assume eq: "crc_bit a = crc_bit b"
  then have b0: "bit a 0 = bit b 0" by (metis crc_bit_top)
  with eq have sh: "drop_bit 1 a = drop_bit 1 b" by (simp add: crc_bit_alt xor_cancel)
  show "a = b"
  proof (rule bit_word_eqI)
    fix n
    show "bit a n = bit b n"
      using b0 arg_cong [OF sh, of "\<lambda>w. bit w (n - 1)"] by (cases n) (simp_all add: bit_drop_bit_eq)
  qed
qed simp

lemma crc_bit_funpow_inj: "(crc_bit ^^ n) a = (crc_bit ^^ n) b \<longleftrightarrow> a = b"
  by (induction n) (simp_all add: crc_bit_inj)

lemma crc_bit_funpow_high: "(\<forall>i < n. \<not> bit c i) \<Longrightarrow> (crc_bit ^^ n) c = drop_bit n c"
proof (induction n)
  case (Suc n)
  then have "(crc_bit ^^ n) c = drop_bit n c" "\<not> bit (drop_bit n c) 0"
    by (simp_all add: bit_drop_bit_eq)
  then have "crc_bit ((crc_bit ^^ n) c) = drop_bit 1 (drop_bit n c)"
    by (simp only: crc_bit_alt if_False xor.left_neutral)
  then show ?case by (simp add: drop_bit_drop_bit)
qed simp

lemma crc_table_step: "crc32_table ! unat (x AND 0xFF) XOR drop_bit 8 x = (crc_bit ^^ 8) x"
proof -
  let ?hi = "push_bit 8 (drop_bit 8 x)"
  have ff: "x AND 0xFF = take_bit 8 x"
    by (simp add: take_bit_eq_mask mask_eq_exp_minus_1)
  have split: "x = take_bit 8 x XOR ?hi"
    by (rule bit_word_eqI) (auto simp: bit_xor_iff bit_take_bit_iff bit_push_bit_iff bit_drop_bit_eq bit_imp_le_length)
  have "unat (x AND 0xFF) < 256"
    using take_bit_nat_less_exp [of 8 "unat x"] by (simp add: ff unsigned_take_bit_eq)
  then have tab: "crc32_table ! unat (x AND 0xFF) = (crc_bit ^^ 8) (take_bit 8 x)"
    by (simp add: crc32_table_def ff)
  have "(crc_bit ^^ 8) ?hi = drop_bit 8 ?hi"
    by (rule crc_bit_funpow_high) (auto simp: bit_push_bit_iff)
  also have "\<dots> = drop_bit 8 x"
    by (rule bit_word_eqI) (auto simp: bit_drop_bit_eq bit_push_bit_iff dest: bit_imp_le_length)
  finally have "(crc_bit ^^ 8) x = (crc_bit ^^ 8) (take_bit 8 x) XOR drop_bit 8 x"
    by (subst split) (simp only: crc_bit_funpow_xor)
  with tab show ?thesis by simp
qed

lemma drop_bit_ucast_u8: "drop_bit 8 (ucast (b :: u8) :: u32) = 0"
  by (rule bit_word_eqI) (auto simp: bit_drop_bit_eq bit_ucast_iff dest: bit_imp_le_length)

lemma crc_step_bitwise [code]: "crc_step crc b = (crc_bit ^^ 8) (crc XOR ucast b)"
proof -
  have "drop_bit 8 (crc XOR ucast b) = drop_bit 8 crc"
    by (simp add: drop_bit_xor drop_bit_ucast_u8)
  then show ?thesis
    using crc_table_step [of "crc XOR ucast b"] by (simp add: crc_step_def)
qed

lemma crc_step_inj_state: "crc_step c b = crc_step c' b \<longleftrightarrow> c = c'"
  by (simp add: crc_step_bitwise crc_bit_funpow_inj xor_cancel_right)

lemma crc_step_inj_byte: "crc_step c b = crc_step c b' \<longleftrightarrow> b = b'"
proof
  assume "crc_step c b = crc_step c b'"
  then have "(ucast b :: u32) = ucast b'" by (simp add: crc_step_bitwise crc_bit_funpow_inj xor_cancel)
  moreover have "unat (ucast x :: u32) = unat x" for x :: u8
    using unat_lt_u8 [of x] by (simp add: unsigned_ucast_eq take_bit_nat_eq_self)
  ultimately have "unat b = unat b'" by metis
  then show "b = b'" by (simp add: word_unat_eq_iff)
qed simp

lemma crc_fold_inj: "foldl crc_step c data = foldl crc_step c' data \<longleftrightarrow> c = c'"
  by (induction data arbitrary: c c') (simp_all add: crc_step_inj_state)

section \<open>Properties\<close>

text \<open>
  The table-driven CRC-32 of the log equals the bit-serial CRC-32 with polynomial
  \<open>0xEDB88320\<close> on every input.
\<close>

theorem crc_table_is_bitwise: "crc32 data = crc32_bitwise data"
proof -
  have "crc_step = (\<lambda>c b. (crc_bit ^^ 8) (c XOR ucast b))" by (intro ext crc_step_bitwise)
  then show ?thesis by (simp add: crc32_def crc32_bitwise_def)
qed

text \<open>
  A record in which exactly one byte was altered always fails its checksum.
\<close>

theorem crc_detects_byte_error:
  assumes "b \<noteq> b'"
  shows "crc32 (pre @ b # post) \<noteq> crc32 (pre @ b' # post)"
proof -
  have "crc_step c b \<noteq> crc_step c b'" for c using assms by (simp add: crc_step_inj_byte)
  then show ?thesis by (simp add: crc32_def crc_fold_inj)
qed

theorem crc_detects_byte_error_witness: "crc32 [49, 50, 51] \<noteq> crc32 [49, 58, 51]"
  using crc_detects_byte_error [of 50 58 "[49]" "[51]"] by simp

section \<open>The log\<close>

text \<open>
  The segmented write-ahead log (\<open>replay/src/wal.rs\<close>). The directory is an ordered map from segment
  numbers to file contents (\<open>FL_WalNames\<close> relates it to a directory of named files); the writer's \<open>BufWriter\<close>
  is a buffer in front of the segment \<open>wl_file\<close> it was opened on (after a failed rotation still the old one, although
  the index has moved on), with the flush rule of the standard library. Errors of the operating system are modelled where the code's own
  requests cause them (creating a segment that exists, opening one that does not).
\<close>

datatype wal_error = WalIo | BadSegmentName string | CrcMismatch u64 u64 | PayloadTooLarge nat

definition magic_header :: nat where
  "magic_header = 8"

definition buf_capacity :: nat where
  "buf_capacity = 2 ^ 20"

type_synonym wal_disk = "(u64, bytes) omap"

record wal =
  wl_segment_size :: u64
  wl_current_index :: u64
  wl_file :: u64
  wl_buf :: bytes
  wl_current_bytes :: u64
  wl_disk :: wal_disk

section \<open>Reading one frame\<close>

definition read_exact :: "nat \<Rightarrow> bytes \<Rightarrow> (bytes \<times> bytes) option" where
  "read_exact n f = (if length f < n then None else Some (take n f, drop n f))"

text \<open>
  One round of the loops of \<open>recover_segment_tail\<close> and \<open>next_record\<close>: \<open>None\<close> stands for the three ways
  out (short header, short payload, checksum mismatch), which both loops treat alike.
\<close>

definition read_frame :: "bytes \<Rightarrow> (bytes \<times> bytes) option" where
  "read_frame f =
     (case read_exact magic_header f of
        None \<Rightarrow> None
      | Some (hdr, f1) \<Rightarrow>
          let len = unat (from_le (slice 0 4 hdr) :: u32);
              crc = from_le (slice 4 8 hdr) :: u32
          in case read_exact len f1 of
               None \<Rightarrow> None
             | Some (payload, f2) \<Rightarrow> if crc32 payload \<noteq> crc then None else Some (payload, f2))"

lemma read_frame_shorter: "read_frame f = Some (p, f') \<Longrightarrow> length f = 8 + length p + length f'"
  by (auto simp: read_frame_def read_exact_def magic_header_def Let_def split: if_splits)

section \<open>The writer\<close>

definition disk_append :: "u64 \<Rightarrow> bytes \<Rightarrow> wal_disk \<Rightarrow> wal_disk" where
  "disk_append idx bs d =
     om_insert idx ((case om_lookup d idx of None \<Rightarrow> [] | Some f \<Rightarrow> f) @ bs) d"

definition wal_flush :: "wal \<Rightarrow> wal" where
  "wal_flush w = w\<lparr>wl_disk := disk_append (wl_file w) (wl_buf w) (wl_disk w), wl_buf := []\<rparr>"

definition buf_write_all :: "bytes \<Rightarrow> wal \<Rightarrow> wal" where
  "buf_write_all bs w =
     (if length bs < buf_capacity - length (wl_buf w) then w\<lparr>wl_buf := wl_buf w @ bs\<rparr>
      else
        let w1 = (if buf_capacity - length (wl_buf w) < length bs then wal_flush w else w)
        in if buf_capacity \<le> length bs
           then w1\<lparr>wl_disk := disk_append (wl_file w1) bs (wl_disk w1)\<rparr>
           else w1\<lparr>wl_buf := wl_buf w1 @ bs\<rparr>)"

definition wal_rotate :: "wal \<Rightarrow> wal \<times> (wal_error + unit)" where
  "wal_rotate w =
     (let w1 = wal_flush w;
          idx = wl_current_index w1 + 1;
          w2 = w1\<lparr>wl_current_index := idx\<rparr>
      in if om_lookup (wl_disk w2) idx \<noteq> None then (w2, Inl WalIo)
         else (w2\<lparr>wl_disk := om_insert idx [] (wl_disk w2), wl_file := idx, wl_buf := [], wl_current_bytes := 0\<rparr>, Inr ()))"

definition wal_frame_write :: "bytes \<Rightarrow> wal \<Rightarrow> wal" where
  "wal_frame_write payload w =
     (let w1 = buf_write_all (to_le 4 (of_nat (length payload) :: u32)) w;
          w2 = buf_write_all (to_le 4 (crc32 payload)) w1;
          w3 = buf_write_all payload w2
      in w3\<lparr>wl_current_bytes := wl_current_bytes w3 + (of_nat magic_header + of_nat (length payload))\<rparr>)"

definition wal_append :: "bytes \<Rightarrow> wal \<Rightarrow> wal \<times> (wal_error + unit)" where
  "wal_append payload w =
     (if 2 ^ 32 - 1 < length payload then (w, Inl (PayloadTooLarge (length payload)))
      else if wl_segment_size w < wl_current_bytes w + (of_nat magic_header + of_nat (length payload)) then
        (case wal_rotate w of
           (w1, Inl e) \<Rightarrow> (w1, Inl e)
         | (w1, Inr _) \<Rightarrow> (wal_frame_write payload w1, Inr ()))
      else (wal_frame_write payload w, Inr ()))"

definition wal_segment_count :: "wal \<Rightarrow> u64" where
  "wal_segment_count w = wl_current_index w + 1"

section \<open>Recovery\<close>

function recover_scan :: "bytes \<Rightarrow> nat \<Rightarrow> nat" where
  "recover_scan f offset =
     (case read_frame f of
        None \<Rightarrow> offset
      | Some (payload, f') \<Rightarrow> recover_scan f' (offset + (magic_header + length payload)))"
  by pat_completeness auto
termination
  by (relation "measure (\<lambda>(f, _). length f)") (auto dest: read_frame_shorter)

declare recover_scan.simps [simp del]

definition recover_segment_tail :: "bytes \<Rightarrow> bytes \<times> nat" where
  "recover_segment_tail f =
     (let offset = recover_scan f 0 in (if offset < length f then take offset f else f, offset))"

definition wal_open_or_create :: "wal_disk \<Rightarrow> u64 \<Rightarrow> wal" where
  "wal_open_or_create d segment_size =
     (case om_last_key d of
        Some idx \<Rightarrow>
          (let (f, bytes) = recover_segment_tail (the (om_lookup d idx))
           in \<lparr>wl_segment_size = segment_size, wl_current_index = idx, wl_file = idx, wl_buf = [],
               wl_current_bytes = of_nat bytes, wl_disk = om_insert idx f d\<rparr>)
      | None \<Rightarrow>
          \<lparr>wl_segment_size = segment_size, wl_current_index = 0, wl_file = 0, wl_buf = [],
           wl_current_bytes = 0, wl_disk = om_insert 0 [] d\<rparr>)"

section \<open>The reader\<close>

record wal_reader =
  wr_disk :: wal_disk
  wr_segments :: "u64 list"
  wr_seg_idx :: nat
  wr_file :: "bytes option"
  wr_segment_offset :: u64

definition wal_reader_open :: "wal_disk \<Rightarrow> wal_reader" where
  "wal_reader_open d = \<lparr>wr_disk = d, wr_segments = om_keys d, wr_seg_idx = 0, wr_file = None,
     wr_segment_offset = 0\<rparr>"

definition ensure_file :: "wal_reader \<Rightarrow> wal_error + wal_reader \<times> bool" where
  "ensure_file r =
     (if wr_file r \<noteq> None then Inr (r, True)
      else if length (wr_segments r) \<le> wr_seg_idx r then Inr (r, False)
      else case om_lookup (wr_disk r) (wr_segments r ! wr_seg_idx r) of
        None \<Rightarrow> Inl WalIo
      | Some f \<Rightarrow> Inr (r\<lparr>wr_file := Some f, wr_segment_offset := 0\<rparr>, True))"

definition next_segment :: "wal_reader \<Rightarrow> wal_reader" where
  "next_segment r = r\<lparr>wr_file := None, wr_seg_idx := Suc (wr_seg_idx r)\<rparr>"

function next_record :: "wal_reader \<Rightarrow> wal_error + wal_reader \<times> bytes option" where
  "next_record r =
     (case ensure_file r of
        Inl e \<Rightarrow> Inl e
      | Inr (r1, ready) \<Rightarrow>
          if \<not> ready then Inr (r1, None)
          else case read_frame (the (wr_file r1)) of
            None \<Rightarrow> next_record (next_segment r1)
          | Some (payload, f') \<Rightarrow>
              Inr (r1\<lparr>wr_file := Some f',
                      wr_segment_offset := wr_segment_offset r1 + of_nat (magic_header + length payload)\<rparr>,
                   Some payload))"
  by pat_completeness auto
termination
  by (relation "measure (\<lambda>r. 2 * (length (wr_segments r) - wr_seg_idx r) + (if wr_file r = None then 0 else 1))")
    (auto simp: ensure_file_def next_segment_def split: if_splits option.splits)

declare next_record.simps [simp del]

text \<open>\<open>read_calls n\<close> is what a client sees in \<open>n\<close> calls of \<open>next_record\<close>.\<close>

fun read_calls :: "nat \<Rightarrow> wal_reader \<Rightarrow> (wal_error + bytes option) list" where
  "read_calls 0 r = []"
| "read_calls (Suc n) r =
     (case next_record r of
        Inl e \<Rightarrow> [Inl e]
      | Inr (r', x) \<Rightarrow> Inr x # read_calls n r')"

end
