(* ===== verification/FL_Decimal.thy ===== *)
theory FL_Decimal
  imports FL_Prelude
begin

text \<open>
  Decimal numbers as the standard library prints and parses them: \<open>format!\<close> of an unsigned integer with zero padding and
  \<open>str::parse\<close> for unsigned integers (an optional plus sign, at least one digit, no overflow).
\<close>

definition digit_char :: "nat \<Rightarrow> char" where
  "digit_char d = char_of (48 + d)"

definition digit_value :: "char \<Rightarrow> nat option" where
  "digit_value c = (let n = of_char c :: nat in if 48 \<le> n \<and> n \<le> 57 then Some (n - 48) else None)"

fun dec_string :: "nat \<Rightarrow> string" where
  "dec_string n = (if n < 10 then [digit_char n] else dec_string (n div 10) @ [digit_char (n mod 10)])"

declare dec_string.simps [simp del]

definition zero_pad :: "nat \<Rightarrow> string \<Rightarrow> string" where
  "zero_pad w s = replicate (w - length s) (CHR ''0'') @ s"

text \<open>The digits of a number below \<open>lim\<close>, after those read into the accumulator.\<close>

fun parse_digits :: "nat \<Rightarrow> nat \<Rightarrow> string \<Rightarrow> nat option" where
  "parse_digits lim acc [] = Some acc"
| "parse_digits lim acc (c # cs) =
     (case digit_value c of
        None \<Rightarrow> None
      | Some d \<Rightarrow> if acc * 10 + d < lim then parse_digits lim (acc * 10 + d) cs else None)"

definition parse_uint :: "nat \<Rightarrow> string \<Rightarrow> nat option" where
  "parse_uint lim s =
     (let ds = (case s of c # cs \<Rightarrow> if c = CHR ''+'' then cs else s | [] \<Rightarrow> [])
      in if ds = [] then None else parse_digits lim 0 ds)"

definition parse_u32 :: "string \<Rightarrow> u32 option" where
  "parse_u32 s = map_option of_nat (parse_uint (2 ^ 32) s)"

definition parse_u64 :: "string \<Rightarrow> u64 option" where
  "parse_u64 s = map_option of_nat (parse_uint (2 ^ 64) s)"

section \<open>Round trip\<close>

lemma digit_value_char [simp]: "d < 10 \<Longrightarrow> digit_value (digit_char d) = Some d"
  by (simp add: digit_value_def digit_char_def Let_def)

lemma digit_value_zero: "digit_value (CHR ''0'') = Some 0"
  by (simp add: digit_value_def)

lemma digit_char_not_plus: "d < 10 \<Longrightarrow> digit_char d \<noteq> CHR ''+''"
  using digit_value_char [of d] by (auto simp: digit_value_def)

lemma parse_digits_append:
  "parse_digits lim acc (xs @ ys) = (case parse_digits lim acc xs of None \<Rightarrow> None | Some a \<Rightarrow> parse_digits lim a ys)"
  by (induction xs arbitrary: acc) (auto split: option.split)

lemma parse_dec_string: "n < lim \<Longrightarrow> parse_digits lim 0 (dec_string n) = Some n"
proof (induction n rule: dec_string.induct)
  case (1 n)
  then show ?case
    by (cases "n < 10") (simp_all add: dec_string.simps [of n] parse_digits_append)
qed

lemma parse_zeros: "0 < lim \<Longrightarrow> parse_digits lim 0 (replicate k (CHR ''0'') @ s) = parse_digits lim 0 s"
  by (induction k) (simp_all add: digit_value_zero)

lemma dec_string_digits: "c \<in> set (dec_string n) \<Longrightarrow> \<exists>d < 10. c = digit_char d"
proof (induction n rule: dec_string.induct)
  case (1 n)
  then show ?case by (cases "n < 10") (auto simp: dec_string.simps [of n] intro: exI [of _ "n mod 10"])
qed

lemma dec_string_nonempty [simp]: "dec_string n \<noteq> []"
  by (simp add: dec_string.simps)

lemma padded_no_plus: "c \<in> set (zero_pad w (dec_string n)) \<Longrightarrow> c \<noteq> CHR ''+''"
  by (auto simp: zero_pad_def dest!: dec_string_digits digit_char_not_plus)

lemma parse_padded: 
  assumes "n < lim"
  shows "parse_uint lim (zero_pad w (dec_string n)) = Some n"
proof -
  have "parse_digits lim 0 (zero_pad w (dec_string n)) = Some n"
    using assms by (simp add: zero_pad_def parse_zeros parse_dec_string)
  moreover have "zero_pad w (dec_string n) \<noteq> []" by (simp add: zero_pad_def)
  moreover have "hd (zero_pad w (dec_string n)) \<noteq> CHR ''+''"
    using padded_no_plus hd_in_set calculation(2) by blast
  ultimately show ?thesis by (auto simp: parse_uint_def Let_def split: list.split)
qed

lemma parse_u64_padded [simp]: "parse_u64 (zero_pad w (dec_string (unat idx))) = Some idx"
  using parse_padded [of "unat idx" "2 ^ 64" w] unat_lt_u64 [of idx] by (simp add: parse_u64_def)

lemma parse_u32_padded: "parse_u32 (zero_pad w (dec_string (unat idx))) = Some idx"
  using parse_padded [of "unat idx" "2 ^ 32" w] unat_lt_u32 [of idx] by (simp add: parse_u32_def)

end
