(* ===== verification/FL_WalNames.thy ===== *)
theory FL_WalNames
  imports FL_Wal FL_Decimal
begin

text \<open>
  The file names of the write-ahead log (\<open>segment_path\<close> and \<open>list_segments\<close> of \<open>replay/src/wal.rs\<close>): a directory is the list
  of its entries, in the order in which the operating system lists them, and \<open>disk_of\<close> is the map from segment numbers
  that \<open>FL_Wal\<close> works on.
\<close>

type_synonym wal_dir = "(string \<times> bytes) list"

definition segment_name :: "u64 \<Rightarrow> string" where
  "segment_name idx = ''wal-'' @ zero_pad 20 (dec_string (unat idx)) @ ''.log''"

definition strip_prefix :: "string \<Rightarrow> string \<Rightarrow> string option" where
  "strip_prefix p s = (if take (length p) s = p then Some (drop (length p) s) else None)"

definition strip_suffix :: "string \<Rightarrow> string \<Rightarrow> string option" where
  "strip_suffix p s =
     (if length p \<le> length s \<and> drop (length s - length p) s = p then Some (take (length s - length p) s) else None)"

definition segment_digits :: "string \<Rightarrow> string option" where
  "segment_digits name = (case strip_prefix ''wal-'' name of None \<Rightarrow> None | Some s \<Rightarrow> strip_suffix ''.log'' s)"

fun list_segments :: "string list \<Rightarrow> wal_error + u64 list" where
  "list_segments [] = Inr []"
| "list_segments (name # names) =
     (case segment_digits name of
        None \<Rightarrow> list_segments names
      | Some digits \<Rightarrow>
          (case parse_u64 digits of
             None \<Rightarrow> Inl (BadSegmentName name)
           | Some idx \<Rightarrow> (case list_segments names of Inl e \<Rightarrow> Inl e | Inr out \<Rightarrow> Inr (idx # out))))"

text \<open>Writing a file: in place when the name exists, otherwise as a new entry.\<close>

fun dir_put :: "string \<Rightarrow> bytes \<Rightarrow> wal_dir \<Rightarrow> wal_dir" where
  "dir_put name f [] = [(name, f)]"
| "dir_put name f ((n, g) # dir) = (if n = name then (n, f) # dir else (n, g) # dir_put name f dir)"

text \<open>\<open>open_or_create\<close> on named files: the directory, the current segment and its size.\<close>

definition named_open_or_create :: "wal_dir \<Rightarrow> wal_error + wal_dir \<times> u64 \<times> u64" where
  "named_open_or_create dir =
     (case list_segments (map fst dir) of
        Inl e \<Rightarrow> Inl e
      | Inr segments \<Rightarrow>
          let sorted = sort segments
          in if sorted \<noteq> [] then
               let idx = last sorted; path = segment_name idx
               in (case map_of dir path of
                     None \<Rightarrow> Inl WalIo
                   | Some f \<Rightarrow> let (f', bytes) = recover_segment_tail f in Inr (dir_put path f' dir, idx, of_nat bytes))
             else if map_of dir (segment_name 0) \<noteq> None then Inl WalIo
             else Inr (dir_put (segment_name 0) [] dir, 0, 0))"

text \<open>\<open>WalReader::open\<close> on named files: the segments it will visit.\<close>

definition named_reader_open :: "wal_dir \<Rightarrow> wal_error + u64 list" where
  "named_reader_open dir = (case list_segments (map fst dir) of Inl e \<Rightarrow> Inl e | Inr segments \<Rightarrow> Inr (sort segments))"

section \<open>Names and numbers\<close>

lemma strip_prefix_append [simp]: "strip_prefix p (p @ s) = Some s"
  by (simp add: strip_prefix_def)

lemma strip_suffix_append [simp]: "strip_suffix p (s @ p) = Some s"
  by (simp add: strip_suffix_def)

lemma segment_digits_name: "segment_digits (segment_name idx) = Some (zero_pad 20 (dec_string (unat idx)))"
  unfolding segment_digits_def segment_name_def strip_prefix_append option.case by (rule strip_suffix_append)

definition segment_index :: "string \<Rightarrow> u64 option" where
  "segment_index name =
     (case segment_digits name of None \<Rightarrow> None | Some ds \<Rightarrow> parse_u64 ds)"

lemma segment_index_name [simp]: "segment_index (segment_name idx) = Some idx"
  by (simp add: segment_index_def segment_digits_name)

lemma segment_name_inj: "segment_name i = segment_name j \<longleftrightarrow> i = j"
  by (metis option.inject segment_index_name)

section \<open>Directories\<close>

text \<open>Every entry that looks like a segment has the name that the log gives to its number.\<close>

definition canonical :: "wal_dir \<Rightarrow> bool" where
  "canonical dir \<longleftrightarrow> distinct (map fst dir) \<and>
     (\<forall>name \<in> set (map fst dir). segment_digits name \<noteq> None \<longrightarrow> (\<exists>idx. name = segment_name idx))"

definition disk_of :: "wal_dir \<Rightarrow> wal_disk" where
  "disk_of dir = foldr (\<lambda>(name, f) d. case segment_index name of None \<Rightarrow> d | Some idx \<Rightarrow> om_insert idx f d) dir om_empty"

lemma map_of_dir_put: "map_of (dir_put name f dir) = (map_of dir)(name \<mapsto> f)"
  by (induction dir) auto

lemma dir_put_names: "set (map fst (dir_put name f dir)) = insert name (set (map fst dir))"
proof (induction dir)
  case (Cons e dir)
  then show ?case by (cases e) (simp add: insert_commute)
qed simp

lemma distinct_dir_put: "distinct (map fst dir) \<Longrightarrow> distinct (map fst (dir_put name f dir))"
proof (induction dir)
  case (Cons e dir)
  then show ?case using dir_put_names [of name f dir] by (cases e) auto
qed simp

lemma canonical_put: "canonical dir \<Longrightarrow> canonical (dir_put (segment_name idx) f dir)"
  unfolding canonical_def dir_put_names by (simp add: distinct_dir_put) blast

lemma canonical_cases:
  assumes "canonical ((name, f) # dir)"
  obtains (segment) idx where "name = segment_name idx" | (other) "segment_digits name = None" "\<And>idx. name \<noteq> segment_name idx"
  using assms by (cases "segment_digits name") (auto simp: canonical_def segment_digits_name)

lemma canonical_tl: "canonical (e # dir) \<Longrightarrow> canonical dir"
  by (simp add: canonical_def)

lemma lookup_disk_of: "canonical dir \<Longrightarrow> om_lookup (disk_of dir) idx = map_of dir (segment_name idx)"
proof (induction dir)
  case (Cons e dir)
  obtain name f where e: "e = (name, f)" by (cases e)
  note ih = Cons.IH [OF canonical_tl [OF Cons.prems]]
  from Cons.prems [unfolded e] show ?case
  proof (cases rule: canonical_cases)
    case (segment i)
    then show ?thesis using ih by (auto simp: e disk_of_def om_lookup_insert segment_name_inj)
  next
    case other
    then show ?thesis using ih by (auto simp: e disk_of_def segment_index_def)
  qed
qed (simp add: disk_of_def)

lemma disk_of_put: "canonical dir \<Longrightarrow> disk_of (dir_put (segment_name idx) f dir) = om_insert idx f (disk_of dir)"
  by (rule omap_eqI) (auto simp: lookup_disk_of canonical_put map_of_dir_put om_lookup_insert segment_name_inj)

lemma list_segments_canonical:
  "canonical dir \<Longrightarrow> \<exists>out. list_segments (map fst dir) = Inr out \<and> distinct out \<and>
     set out = {idx. segment_name idx \<in> set (map fst dir)}"
proof (induction dir)
  case (Cons e dir)
  obtain name f where e: "e = (name, f)" by (cases e)
  obtain out where out: "list_segments (map fst dir) = Inr out" "distinct out" "set out = {idx. segment_name idx \<in> set (map fst dir)}"
    using Cons.IH [OF canonical_tl [OF Cons.prems]] by blast
  from Cons.prems [unfolded e] show ?case
  proof (cases rule: canonical_cases)
    case (segment i)
    moreover have "name \<notin> set (map fst dir)" using Cons.prems by (simp add: e canonical_def)
    ultimately show ?thesis
      using out by (auto simp: e segment_digits_name segment_name_inj)
  next
    case other
    then show ?thesis using out by (auto simp: e)
  qed
qed simp

lemma sorted_segments:
  assumes "canonical dir"
  shows "named_reader_open dir = Inr (om_keys (disk_of dir))"
proof -
  obtain out where out: "list_segments (map fst dir) = Inr out" "distinct out" "set out = {idx. segment_name idx \<in> set (map fst dir)}"
    using list_segments_canonical [OF assms] by blast
  have "set out = set (om_keys (disk_of dir))"
    unfolding out(3) by (simp add: set_eq_iff om_key_iff lookup_disk_of [OF assms] map_of_eq_None_iff del: not_None_eq)
  then have "sort out = om_keys (disk_of dir)"
    using out(2) om_keys_sorted [of "disk_of dir"]
    by (intro sorted_distinct_set_unique) (simp_all add: strict_sorted_iff)
  then show ?thesis using out(1) by (simp add: named_reader_open_def)
qed

text \<open>
  Property C40. The log on named files is the log on numbered segments: in a directory where every entry of the form
  \<open>wal-*.log\<close> carries a name the log has given, in whatever order the entries are listed and whatever other files there are,
  opening succeeds exactly as on the map from segment numbers, with the same current segment and size and the same files afterwards,
  and a reader visits the segments in the order of their numbers.
\<close>

theorem wal_names_refine:
  assumes "canonical dir"
  shows "\<exists>dir' idx bytes. named_open_or_create dir = Inr (dir', idx, bytes) \<and> canonical dir' \<and>
    wal_open_or_create (disk_of dir) sz =
      \<lparr>wl_segment_size = sz, wl_current_index = idx, wl_file = idx, wl_buf = [], wl_current_bytes = bytes, wl_disk = disk_of dir'\<rparr> \<and>
    named_reader_open dir' = Inr (wr_segments (wal_reader_open (disk_of dir')))"
proof -
  obtain out where out: "list_segments (map fst dir) = Inr out" "sort out = om_keys (disk_of dir)"
    using sorted_segments [OF assms] by (auto simp: named_reader_open_def split: sum.splits)
  have open_as: ?thesis
    if "named_open_or_create dir = Inr (dir_put (segment_name idx) f dir, idx, bytes)"
      and "wal_open_or_create (disk_of dir) sz = \<lparr>wl_segment_size = sz, wl_current_index = idx, wl_file = idx, wl_buf = [],
        wl_current_bytes = bytes, wl_disk = om_insert idx f (disk_of dir)\<rparr>" for idx f bytes
    using that assms canonical_put [OF assms, of idx f] sorted_segments [OF canonical_put [OF assms, of idx f]]
    by (simp add: disk_of_put wal_reader_open_def)
  show ?thesis
  proof (cases "om_keys (disk_of dir) = []")
    case True
    then have "om_lookup (disk_of dir) 0 = None" using om_key_iff [of 0 "disk_of dir"] by simp
    then show ?thesis
      using True out assms by (intro open_as [of 0 "[]" 0]) (simp_all add: named_open_or_create_def wal_open_or_create_def om_last_key_def lookup_disk_of)
  next
    case False
    let ?i = "last (om_keys (disk_of dir))"
    have "om_lookup (disk_of dir) ?i \<noteq> None" using last_in_set [OF False] unfolding om_key_iff .
    then obtain f where f: "map_of dir (segment_name ?i) = Some f" using assms by (auto simp: lookup_disk_of)
    then show ?thesis
      using False out assms
      by (intro open_as [of ?i "fst (recover_segment_tail f)" "of_nat (snd (recover_segment_tail f))"])
        (simp_all add: named_open_or_create_def wal_open_or_create_def om_last_key_def lookup_disk_of Let_def case_prod_unfold)
  qed
qed

theorem wal_names_refine_witness:
  "\<exists>dir' idx bytes. named_open_or_create [(segment_name 10, [1, 2, 3]), (''notes.txt'', [7]), (segment_name 9, [])] = Inr (dir', idx, bytes) \<and>
    named_reader_open dir' = Inr (wr_segments (wal_reader_open (disk_of dir')))"
proof -
  have "segment_digits ''notes.txt'' = None" by (simp add: segment_digits_def strip_prefix_def)
  moreover from this have "segment_name i \<noteq> ''notes.txt''" for i using segment_digits_name [of i] by force
  ultimately have "canonical [(segment_name 10, [1, 2, 3]), (''notes.txt'', [7]), (segment_name 9, [])]"
    unfolding canonical_def by (simp add: segment_name_inj del: not_None_eq) (metis)
  from wal_names_refine [OF this] show ?thesis by blast
qed

text \<open>
  A segment file whose number is not padded to 20 digits is listed, but it is looked for under the padded name: the log
  cannot be opened any more, with an error of the operating system instead of the one for bad names.
\<close>

theorem unpadded_name_blocks: "named_open_or_create [(''wal-7.log'', f)] = Inl WalIo"
proof -
  have d: "segment_digits ''wal-7.log'' = Some ''7''"
    by (simp add: segment_digits_def strip_prefix_def strip_suffix_def)
  have p: "parse_u64 ''7'' = Some 7" by (simp add: parse_u64_def parse_uint_def digit_value_def)
  have "length (segment_name 7) \<noteq> length ''wal-7.log''" by (simp add: segment_name_def zero_pad_def dec_string.simps)
  then have "segment_name 7 \<noteq> ''wal-7.log''" by metis
  then show ?thesis by (simp add: named_open_or_create_def d p)
qed

end
