(* ===== verification/FL_ItchProperties.thy ===== *)
theory FL_ItchProperties
  imports FL_Itch
begin

text \<open>
  The parser inverts the emitters, reads a buffer message by message whatever its end, and accepts every
  stream the generator can produce.
\<close>

section \<open>Emitted messages\<close>

lemma rd_ts48_bytes:
  assumes "slice off (off + 2) b = to_be 2 (ucast (drop_bit 32 ts) :: u16)"
    and "slice (off + 2) (off + 6) b = to_be 4 (ucast (ts AND 0xFFFFFFFF) :: u32)"
  shows "rd_ts48 b off = take_bit 48 ts"
proof -
  have "rd_ts48 b off = push_bit 32 (ucast (ucast (drop_bit 32 ts) :: u16)) OR ucast (ucast (ts AND 0xFFFFFFFF) :: u32)"
    using assms by (simp add: rd_ts48_def rd_u16_def rd_u32_def add.commute)
  also have "\<dots> = take_bit 48 ts"
  proof -
    have m: "ts AND 0xFFFFFFFF = take_bit 32 ts" by (simp add: take_bit_eq_mask mask_eq_exp_minus_1)
    show ?thesis
      unfolding m
      by (rule bit_word_eqI)
        (auto simp: bit_or_iff bit_push_bit_iff bit_ucast_iff bit_drop_bit_eq bit_take_bit_iff)
  qed
  finally show ?thesis .
qed

lemma emit_header_length [simp]: "length (emit_header t ts oid) = 19"
  by (simp add: emit_header_def)

lemma emit_header_fields:
  "(emit_header t ts oid @ rest) ! 0 = t"
  "rd_u16 (emit_header t ts oid @ rest) 1 = 0"
  "rd_ts48 (emit_header t ts oid @ rest) 5 = take_bit 48 ts"
  "rd_u64 (emit_header t ts oid @ rest) 11 = oid"
proof -
  let ?m = "emit_header t ts oid @ rest"
  show "?m ! 0 = t" by (simp add: emit_header_def)
  show "rd_u16 ?m 1 = 0" by (simp add: rd_u16_def emit_header_def slice_def)
  show "rd_u64 ?m 11 = oid" by (simp add: rd_u64_def emit_header_def slice_def)
  show "rd_ts48 ?m 5 = take_bit 48 ts"
    by (rule rd_ts48_bytes) (simp_all add: emit_header_def slice_def)
qed

lemma emit_body_fields:
  assumes "length h = 19"
  shows "(h @ [c] @ to_be 4 sh @ replicate 8 0x20 @ to_be 4 pr @ rest) ! 19 = c"
    and "rd_u32 (h @ [c] @ to_be 4 sh @ replicate 8 0x20 @ to_be 4 pr @ rest) 20 = sh"
    and "rd_u32 (h @ [c] @ to_be 4 sh @ replicate 8 0x20 @ to_be 4 pr @ rest) 32 = pr"
  using assms by (simp_all add: rd_u32_def slice_def nth_append)

lemma parse_side_char: "parse_side (side_char sd) = side_code sd"
  by (cases sd) (simp_all add: parse_side_def side_char_def)

section \<open>Buffers\<close>

definition msg_ok :: "bytes \<Rightarrow> bool" where
  "msg_ok m \<longleftrightarrow> m \<noteq> [] \<and> length m = unat (msg_length (m ! 0))"

text \<open>\<open>tail_of_buffer\<close>: what may follow the last complete message, and how parsing ends there.\<close>

definition incomplete :: "bytes \<Rightarrow> bool" where
  "incomplete tl' \<longleftrightarrow> tl' = [] \<or> msg_length (tl' ! 0) = 0 \<or> length tl' < unat (msg_length (tl' ! 0))"

definition parse_end :: "bytes \<Rightarrow> nat \<Rightarrow> itch_error + nat" where
  "parse_end tl' n = (if tl' = [] then Inr n else if msg_length (tl' ! 0) = 0 then Inl UnknownItchType
     else Inl TruncatedItch)"

definition events_of :: "bytes list \<Rightarrow> event list" where
  "events_of ms = concat (map (\<lambda>m. case dispatch m of None \<Rightarrow> [] | Some e \<Rightarrow> [e]) ms)"

lemma parse_buffer_tail:
  "incomplete tl' \<Longrightarrow> parse_buffer_from (pre @ tl') (length pre) out n = (out, parse_end tl' n)"
  by (subst parse_buffer_from.simps)
    (auto simp: incomplete_def parse_end_def Let_def nth_append unat_eq_0)

lemma parse_buffer_messages:
  "\<forall>m \<in> set ms. msg_ok m \<Longrightarrow> incomplete tl' \<Longrightarrow>
   parse_buffer_from (pre @ concat ms @ tl') (length pre) out n =
     (out @ events_of ms, parse_end tl' (n + length (events_of ms)))"
proof (induction ms arbitrary: pre out n)
  case Nil
  then show ?case using parse_buffer_tail [of tl' pre out n] by (simp add: events_of_def)
next
  case (Cons m ms)
  let ?raw = "pre @ m @ concat ms @ tl'"
  have m: "m \<noteq> []" "unat (msg_length (m ! 0)) = length m" using Cons.prems by (simp_all add: msg_ok_def)
  have at: "?raw ! length pre = m ! 0" using m by (simp add: nth_append)
  have sl: "slice (length pre) (length pre + length m) ?raw = m" by (rule slice_mid) simp_all
  note ih = Cons.IH [of "pre @ m", simplified]
  show ?case
  proof (cases "dispatch m")
    case None
    have "parse_buffer_from ?raw (length pre) out n = parse_buffer_from ?raw (length pre + length m) out n"
      using m at sl None by (subst parse_buffer_from.simps) (simp add: Let_def)
    then show ?thesis using ih [of out n] Cons.prems None by (simp add: events_of_def)
  next
    case (Some e)
    have "parse_buffer_from ?raw (length pre) out n =
        parse_buffer_from ?raw (length pre + length m) (out @ [e]) (Suc n)"
      using m at sl Some by (subst parse_buffer_from.simps) (simp add: Let_def)
    then show ?thesis using ih [of "out @ [e]" "Suc n"] Cons.prems Some by (simp add: events_of_def)
  qed
qed

section \<open>The generator\<close>

lemma dispatch_type:
  "m ! 0 = 0x41 \<Longrightarrow> m \<noteq> [] \<Longrightarrow> dispatch m = parse_add_order m"
  "m ! 0 = 0x44 \<Longrightarrow> m \<noteq> [] \<Longrightarrow> dispatch m = parse_order_delete m"
  "m ! 0 = 0x50 \<Longrightarrow> m \<noteq> [] \<Longrightarrow> dispatch m = parse_trade m"
  by (auto simp: dispatch_def split: list.split)

lemma emit_add_dispatch:
  "dispatch (emit_add_order [] ts oid sd shares price) =
     Some (event_zeroed\<lparr>ev_ts := take_bit 48 ts, ev_price := ucast price, ev_qty := ucast shares, ev_order_id := oid,
       ev_event_type := event_type_code OrderAdd, ev_side := side_code sd\<rparr>)"
proof -
  let ?h = "emit_header 0x41 ts oid"
  let ?m = "?h @ [side_char sd] @ to_be 4 shares @ replicate 8 0x20 @ to_be 4 price"
  have "dispatch ?m = parse_add_order ?m" by (rule dispatch_type) (simp_all only: emit_header_fields, simp)
  also have "\<dots> = Some (event_zeroed\<lparr>ev_ts := take_bit 48 ts, ev_price := ucast price, ev_qty := ucast shares,
      ev_order_id := oid, ev_event_type := event_type_code OrderAdd, ev_side := side_code sd\<rparr>)"
    unfolding parse_add_order_def emit_header_fields
      emit_body_fields [of ?h "side_char sd" shares price "[]", simplified append_Nil2, OF emit_header_length]
    by (simp add: parse_side_char event_zeroed_def)
  finally show ?thesis by (simp add: emit_add_order_def)
qed

lemma emit_delete_dispatch:
  "dispatch (emit_order_delete [] ts oid) =
     Some (event_zeroed\<lparr>ev_ts := take_bit 48 ts, ev_order_id := oid, ev_event_type := event_type_code OrderCancel\<rparr>)"
proof -
  let ?m = "emit_header 0x44 ts oid"
  note f = emit_header_fields [of "0x44" ts oid "[]", simplified append_Nil2]
  have "dispatch ?m = parse_order_delete ?m"
    by (intro dispatch_type) (simp_all only: f, simp add: emit_header_def)
  then show ?thesis unfolding parse_order_delete_def f by (simp add: emit_order_delete_def event_zeroed_def)
qed

lemma emit_trade_dispatch:
  "dispatch (emit_trade [] ts oid sd shares price) =
     Some (event_zeroed\<lparr>ev_ts := take_bit 48 ts, ev_price := ucast price, ev_qty := ucast shares, ev_order_id := oid,
       ev_event_type := event_type_code Trade, ev_side := side_code sd\<rparr>)"
proof -
  let ?h = "emit_header 0x50 ts oid"
  let ?m = "?h @ [side_char sd] @ to_be 4 shares @ replicate 8 0x20 @ to_be 4 price @ to_be 8 (0 :: u64)"
  have "dispatch ?m = parse_trade ?m" by (rule dispatch_type) (simp_all only: emit_header_fields, simp)
  also have "\<dots> = Some (event_zeroed\<lparr>ev_ts := take_bit 48 ts, ev_price := ucast price, ev_qty := ucast shares,
      ev_order_id := oid, ev_event_type := event_type_code Trade, ev_side := side_code sd\<rparr>)"
    unfolding parse_trade_def emit_header_fields
      emit_body_fields [OF emit_header_length, of "0x50" ts oid "side_char sd" shares price "to_be 8 (0 :: u64)"]
    by (simp add: parse_side_char event_zeroed_def)
  finally show ?thesis by (simp add: emit_trade_def)
qed

lemma emitted_ok:
  "msg_ok (emit_add_order [] ts oid sd shares price)" "msg_ok (emit_order_delete [] ts oid)"
  "msg_ok (emit_trade [] ts oid sd shares price)"
  by (simp_all add: msg_ok_def emit_add_order_def emit_order_delete_def emit_trade_def emit_header_def msg_length_def)

lemma emit_append:
  "emit_add_order buf ts oid sd shares price = buf @ emit_add_order [] ts oid sd shares price"
  "emit_order_delete buf ts oid = buf @ emit_order_delete [] ts oid"
  "emit_trade buf ts oid sd shares price = buf @ emit_trade [] ts oid sd shares price"
  by (simp_all add: emit_add_order_def emit_order_delete_def emit_trade_def)

lemma synthetic_step_emits:
  "\<exists>m. ig_buf (synthetic_step i g) = ig_buf g @ m \<and> msg_ok m \<and> (\<exists>e. dispatch m = Some e)"
proof -
  have "\<exists>m. emit_add_order b ts oid sd sh pr = b @ m \<and> msg_ok m \<and> (\<exists>e. dispatch m = Some e)"
    "\<exists>m. emit_order_delete b ts oid = b @ m \<and> msg_ok m \<and> (\<exists>e. dispatch m = Some e)"
    "\<exists>m. emit_trade b ts oid sd sh pr = b @ m \<and> msg_ok m \<and> (\<exists>e. dispatch m = Some e)" for b ts oid sd sh pr
    by (intro exI conjI, rule emit_append, rule emitted_ok,
        rule emit_add_dispatch emit_delete_dispatch emit_trade_dispatch)+
  then show ?thesis by (simp add: synthetic_step_def Let_def)
qed

lemma synthetic_messages:
  "\<exists>ms. synthetic_itch_stream n seed = concat ms \<and> length ms = n \<and> (\<forall>m \<in> set ms. msg_ok m \<and> (\<exists>e. dispatch m = Some e))"
proof -
  have "\<exists>ms. ig_buf (fold synthetic_step is g) = ig_buf g @ concat ms \<and> length ms = length is \<and>
      (\<forall>m \<in> set ms. msg_ok m \<and> (\<exists>e. dispatch m = Some e))" for "is" g
  proof (induction "is" arbitrary: g)
    case (Cons i "is")
    obtain m where m: "ig_buf (synthetic_step i g) = ig_buf g @ m" "msg_ok m \<and> (\<exists>e. dispatch m = Some e)"
      using synthetic_step_emits by blast
    obtain ms where "ig_buf (fold synthetic_step is (synthetic_step i g)) = ig_buf (synthetic_step i g) @ concat ms"
        "length ms = length is" "\<forall>m \<in> set ms. msg_ok m \<and> (\<exists>e. dispatch m = Some e)"
      using Cons by blast
    with m show ?case by (intro exI [of _ "m # ms"]) simp
  qed simp
  from this [of "[0..<n]" "\<lparr>ig_rng = seed, ig_buf = [], ig_next_id = 1, ig_live_ids = []\<rparr>"] show ?thesis
    by (simp add: synthetic_itch_stream_def)
qed

text \<open>The calls of the emitters, and the event each of them describes; the format has 48 bits for the timestamp.\<close>

datatype emit_call =
    EmitAdd u64 u64 side u32 u32
  | EmitDelete u64 u64
  | EmitTrade u64 u64 side u32 u32

fun emit_one :: "bytes \<Rightarrow> emit_call \<Rightarrow> bytes" where
  "emit_one buf (EmitAdd ts oid sd shares price) = emit_add_order buf ts oid sd shares price"
| "emit_one buf (EmitDelete ts oid) = emit_order_delete buf ts oid"
| "emit_one buf (EmitTrade ts oid sd shares price) = emit_trade buf ts oid sd shares price"

fun emitted_event :: "emit_call \<Rightarrow> event" where
  "emitted_event (EmitAdd ts oid sd shares price) =
     event_zeroed\<lparr>ev_ts := take_bit 48 ts, ev_price := ucast price, ev_qty := ucast shares, ev_order_id := oid,
       ev_event_type := event_type_code OrderAdd, ev_side := side_code sd\<rparr>"
| "emitted_event (EmitDelete ts oid) =
     event_zeroed\<lparr>ev_ts := take_bit 48 ts, ev_order_id := oid, ev_event_type := event_type_code OrderCancel\<rparr>"
| "emitted_event (EmitTrade ts oid sd shares price) =
     event_zeroed\<lparr>ev_ts := take_bit 48 ts, ev_price := ucast price, ev_qty := ucast shares, ev_order_id := oid,
       ev_event_type := event_type_code Trade, ev_side := side_code sd\<rparr>"

lemma emit_one_message: "msg_ok (emit_one [] c)" "dispatch (emit_one [] c) = Some (emitted_event c)"
  by (cases c; simp add: emitted_ok emit_add_dispatch emit_delete_dispatch emit_trade_dispatch)+

lemma emit_one_append: "emit_one buf c = buf @ emit_one [] c"
  by (cases c) (simp_all only: emit_one.simps, (rule emit_append)+)

lemma emit_all: "foldl emit_one buf cs = buf @ concat (map (emit_one []) cs)"
proof (induction cs arbitrary: buf)
  case (Cons c cs)
  show ?case using emit_one_append [of buf c] by (simp add: Cons)
qed simp

lemma emitted_events: "events_of (map (emit_one []) cs) = map emitted_event cs"
  by (induction cs) (simp_all add: events_of_def emit_one_message)

section \<open>Properties\<close>

text \<open>
  Property C16. The parser inverts the emitters. A buffer filled by any sequence of calls of the three emitters
  parses without error, message by message, to one event per call, in order: its type, and the emitted order id,
  quantity, price and side (an emitted delete has only the order id), with the low 48 bits of the timestamp, which
  is all the format has room for. The events are appended to those already in the output.
\<close>

theorem itch_emit_parse_roundtrip:
  "parse_buffer (foldl emit_one [] cs) out = (out @ map emitted_event cs, Inr (length cs))"
proof -
  have "\<forall>m \<in> set (map (emit_one []) cs). msg_ok m" by (simp add: emit_one_message)
  from parse_buffer_messages [OF this, of "[]" "[]" out 0] show ?thesis
    by (simp add: parse_buffer_def emit_all emitted_events incomplete_def parse_end_def)
qed

text \<open>
  \<open>parse_buffer\<close> reads a buffer message by message: complete messages followed by a tail give
  the events of those messages, in order, and the result the tail calls for: the event count when the
  tail is empty, an error when it starts with an unknown type or is cut short.
\<close>

theorem parse_buffer_outcome:
  assumes "\<forall>m \<in> set ms. msg_ok m" and "incomplete tl'"
  shows "parse_buffer (concat ms @ tl') out = (out @ events_of ms, parse_end tl' (length (events_of ms)))"
  using parse_buffer_messages [OF assms, of "[]" out 0] by (simp add: parse_buffer_def)

theorem parse_buffer_outcome_witness:
  "parse_buffer (concat [emit_order_delete [] 5 9] @ [0x5A, 1, 2]) [] =
   (events_of [emit_order_delete [] 5 9], Inl UnknownItchType)"
proof -
  have "incomplete [0x5A, 1, 2]" "parse_end [0x5A, 1, 2] n = Inl UnknownItchType" for n
    by (simp_all add: incomplete_def parse_end_def msg_length_def)
  with parse_buffer_outcome [of "[emit_order_delete [] 5 9]" "[0x5A, 1, 2]" "[]"] show ?thesis
    by (simp add: emitted_ok)
qed

text \<open>
  Every synthetic stream is valid ITCH: for any seed and any length \<open>n\<close> it parses without
  error, to exactly \<open>n\<close> events.
\<close>

theorem synthetic_stream_parses:
  "\<exists>es. parse_buffer (synthetic_itch_stream n seed) [] = (es, Inr n) \<and> length es = n"
proof -
  obtain ms where ms: "synthetic_itch_stream n seed = concat ms" "length ms = n"
      "\<forall>m \<in> set ms. msg_ok m \<and> (\<exists>e. dispatch m = Some e)"
    using synthetic_messages by blast
  have "length (events_of ms) = length ms"
    using ms(3) by (induction ms) (auto simp: events_of_def)
  with ms parse_buffer_messages [of ms "[]" "[]" "[]" 0] show ?thesis
    by (simp add: parse_buffer_def incomplete_def parse_end_def)
qed

end
