(* ===== verification/FL_EngineProperties.thy ===== *)
theory FL_EngineProperties
  imports FL_Engine FL_ItchProperties
begin

text \<open>
  What the live engine keeps and publishes: the book is a replay of one symbol's events, a snapshot written by
  a run restores it, published prices are consistent with the book, and the published regime is the logged one.
\<close>

section \<open>What a round changes\<close>

text \<open>The part of the engine that the book and the symbol lock depend on.\<close>

definition en_core :: "engine \<Rightarrow> engine_config \<times> hot_book \<times> u64 \<times> u32 option" where
  "en_core e = (en_cfg e, en_book e, en_seq e, en_tracked e)"

lemma en_process_core:
  "en_process pf i e = (e', out) \<Longrightarrow>
     en_core e' = (en_cfg e, fst (hb_apply book_levels (en_book e) (ei_event i)), en_seq e + 1, en_tracked e)"
  by (auto simp: en_process_def en_core_def en_apply_def en_chaos_def en_analytics_def en_vpin_update_def Let_def split: prod.splits)

lemma lp_snapshot_engine [simp]: "lp_engine (lp_snapshot pf tmp_of i s) = lp_engine s"
  by (simp add: lp_snapshot_def Let_def split: option.split prod.split)

lemma lp_window_core [simp]: "en_core (lp_engine (lp_window pf i s)) = en_core (lp_engine s)"
  by (simp add: lp_window_def en_core_def en_window_reset_def en_window_rates_def Let_def)

lemma lp_tick_core: "lp_tick pf i s = (s', out) \<Longrightarrow> en_core (lp_engine s') = en_core (lp_engine s)"
  by (auto simp: lp_tick_def en_core_def en_build_risk_def Let_def split: prod.splits if_splits)

lemma lp_book_core: "lp_book i s = (s', out) \<Longrightarrow> en_core (lp_engine s') = en_core (lp_engine s)"
  by (auto simp: lp_book_def split: if_splits)

lemma en_rearm_core:
  "en_cfg (en_rearm t e) = en_cfg e" "en_book (en_rearm t e) = en_book e" "en_seq (en_rearm t e) = en_seq e"
  "en_tracked (en_rearm t e) = en_tracked e \<or> en_tracked (en_rearm t e) = None \<and> ec_track_instrument (en_cfg e) = None"
  by (auto simp: en_rearm_def split: option.splits)

text \<open>A round either drops the event, passes it under the current lock, or locks on its symbol.\<close>

lemma lp_step_cases:
  assumes "lp_step pf tmp_of nm lv i s = (s', out)"
  obtains (dropped) "en_cfg (lp_engine s') = en_cfg (lp_engine s)" "en_book (lp_engine s') = en_book (lp_engine s)"
      "en_seq (lp_engine s') = en_seq (lp_engine s)"
      "en_tracked (lp_engine s') = en_tracked (en_rearm (ei_stale_at i) (lp_engine s))"
      "en_tracked (lp_engine s') \<noteq> Some (ev_instrument_id (ei_event i))"
  | (passed) "en_tracked (en_rearm (ei_stale_at i) (lp_engine s)) = Some (ev_instrument_id (ei_event i))"
      "en_core (lp_engine s') = (en_cfg (lp_engine s), fst (hb_apply book_levels (en_book (lp_engine s)) (ei_event i)),
         en_seq (lp_engine s) + 1, Some (ev_instrument_id (ei_event i)))"
  | (locked) "en_tracked (en_rearm (ei_stale_at i) (lp_engine s)) = None" "is_trade (ei_event i)"
      "en_core (lp_engine s') = (en_cfg (lp_engine s),
         fst (hb_apply book_levels (hb_new book_levels (ev_instrument_id (ei_event i))) (ei_event i)),
         en_seq (lp_engine s) + 1, Some (ev_instrument_id (ei_event i)))"
proof -
  let ?e0 = "en_rearm (ei_stale_at i) (lp_engine s)" let ?ev = "ei_event i"
  obtain e1 lock p where f: "en_filter nm lv i ?e0 = (e1, lock, p)" by (metis prod_cases3)
  show ?thesis
  proof (cases p)
    case False
    then have "lp_engine s' = e1" using assms f by (auto simp: lp_step_def)
    moreover have "en_cfg e1 = en_cfg ?e0 \<and> en_book e1 = en_book ?e0 \<and> en_seq e1 = en_seq ?e0 \<and> en_tracked e1 = en_tracked ?e0 \<and>
        en_tracked e1 \<noteq> Some (ev_instrument_id ?ev)"
      using f False by (auto simp: en_filter_def Let_def split: option.splits if_splits)
    ultimately show ?thesis using dropped by (auto simp: en_rearm_core(1-3))
  next
    case True
    obtain e2 o2 where pr: "en_process pf i e1 = (e2, o2)" by force
    have core: "en_core (lp_engine s') = en_core e2"
      using assms f True pr by (auto simp: lp_step_def Let_def lp_tick_core lp_book_core split: prod.splits)
    note e2 = en_process_core [OF pr]
    show ?thesis
    proof (cases "en_tracked ?e0")
      case None
      then have "is_trade ?ev" "en_cfg e1 = en_cfg ?e0" "en_book e1 = hb_new book_levels (ev_instrument_id ?ev)"
          "en_seq e1 = en_seq ?e0" "en_tracked e1 = Some (ev_instrument_id ?ev)"
        using f True by (auto simp: en_filter_def Let_def split: if_splits)
      then show ?thesis using locked None core e2 by (simp add: en_rearm_core(1-3))
    next
      case (Some iid)
      then have "ev_instrument_id ?ev = iid" "en_cfg e1 = en_cfg ?e0" "en_book e1 = en_book ?e0"
          "en_seq e1 = en_seq ?e0" "en_tracked e1 = Some iid"
        using f True by (auto simp: en_filter_def Let_def split: if_splits)
      then show ?thesis using passed Some core e2 by (simp add: en_rearm_core(1-3))
    qed
  qed
qed

section \<open>The events behind the book\<close>

lemma hb_apply_instrument: "hb_instrument_id (fst (hb_apply N h e)) = hb_instrument_id h"
  by (auto simp: hb_apply_def hb_add_order_def hb_cancel_order_def hb_trade_def hb_trade_anon_def hb_trade_full_fill_def
      hb_set_grid_def Let_def split: option.splits event_type.splits prod.splits side.splits)

lemma hb_run_instrument: "hb_instrument_id (hb_run N h es) = hb_instrument_id h"
  by (induction es arbitrary: h) (simp_all add: hb_run_def hb_apply_instrument)

lemma hb_run_snoc: "hb_run N h (es @ [e]) = fst (hb_apply N (hb_run N h es) e)"
  by (simp add: hb_run_def)

text \<open>The book is the replay of at most \<open>n\<close> events that all satisfy \<open>P\<close>, starting from an empty book.\<close>

definition book_from :: "(event \<Rightarrow> bool) \<Rightarrow> u32 \<Rightarrow> nat \<Rightarrow> hot_book \<Rightarrow> bool" where
  "book_from P iid n book \<longleftrightarrow>
     (\<exists>es. book = hb_run book_levels (hb_new book_levels iid) es \<and> (\<forall>ev \<in> set es. P ev) \<and> length es \<le> n)"

lemma book_from_new: "book_from P iid n (hb_new book_levels iid)"
  unfolding book_from_def by (intro exI [of _ "[]"]) (simp add: hb_run_def)

lemma book_from_Suc: "book_from P iid n book \<Longrightarrow> book_from P iid (Suc n) book"
  by (auto simp: book_from_def intro: le_SucI)

lemma book_from_apply: "book_from P iid n book \<Longrightarrow> P ev \<Longrightarrow> book_from P iid (Suc n) (fst (hb_apply book_levels book ev))"
proof -
  assume "book_from P iid n book" "P ev"
  then obtain es where "book = hb_run book_levels (hb_new book_levels iid) es" "\<forall>ev \<in> set es. P ev" "length es \<le> n"
    by (auto simp: book_from_def)
  then show ?thesis using \<open>P ev\<close> unfolding book_from_def by (intro exI [of _ "es @ [ev]"]) (simp add: hb_run_snoc)
qed

lemma book_from_instrument: "book_from P iid n book \<Longrightarrow> hb_instrument_id book = iid"
  by (auto simp: book_from_def hb_run_instrument hb_new_def)

lemma book_from_inv:
  assumes "book_from P iid n book" "n < 2 ^ 32"
  shows "hb_inv book_levels book \<and> length (sl_data (hb_orders book)) < 2 ^ 32 \<and> length (sl_data (hb_orders book)) \<le> n"
proof -
  obtain es where es: "book = hb_run book_levels (hb_new book_levels iid) es" "length es \<le> n" using assms(1) by (auto simp: book_from_def)
  have "length (sl_data (hb_orders book)) \<le> 0 + length es"
    using hb_run_slots [of book_levels "hb_new book_levels iid" es] es(1) by (simp add: hb_new_def slab_new_def)
  then show ?thesis using reached_book [of book_levels es iid] es assms(2) by (simp add: book_levels_def)
qed

text \<open>The events that reach the loop, up to the end of the source.\<close>

fun pulled :: "pull list \<Rightarrow> event list" where
  "pulled [] = []"
| "pulled (Exhausted # ps) = []"
| "pulled (NotYet # ps) = pulled ps"
| "pulled (Pulled i # ps) = ei_event i # pulled ps"

lemma en_run_loop:
  assumes "en_run pf tmp_of nm lv sy starts ps files e = Some (s, out)"
  shows "\<exists>s0 o0. lp_engine s0 = e \<and> lp_run pf tmp_of nm lv ps s0 = (s, o0)"
proof -
  obtain p q o0 where "lp_run pf tmp_of nm lv ps (lp_init starts p q files e) = (s, o0)"
    using assms by (auto simp: en_run_def Let_def split: option.splits prod.splits)
  moreover have "lp_engine (lp_init starts p q files e) = e" by (simp add: lp_init_def split: prod.split)
  ultimately show ?thesis by blast
qed

subsection \<open>A pinned symbol\<close>

lemma lp_step_pinned:
  assumes "lp_step pf tmp_of nm lv i s = (s', out)" "ec_track_instrument (en_cfg (lp_engine s)) = Some iid"
    "en_tracked (lp_engine s) = Some iid"
  shows "en_core (lp_engine s') =
    (if ev_instrument_id (ei_event i) = iid
     then (en_cfg (lp_engine s), fst (hb_apply book_levels (en_book (lp_engine s)) (ei_event i)), en_seq (lp_engine s) + 1, Some iid)
     else en_core (lp_engine s))"
proof -
  have t: "en_tracked (en_rearm (ei_stale_at i) (lp_engine s)) = Some iid" using en_rearm_core(4) [of "ei_stale_at i" "lp_engine s"] assms(2,3) by simp
  from assms(1) show ?thesis by (cases rule: lp_step_cases) (use t assms(3) in \<open>auto simp: en_core_def\<close>)
qed

lemma lp_run_pinned:
  assumes "ec_track_instrument (en_cfg (lp_engine s)) = Some iid" "en_tracked (lp_engine s) = Some iid"
    "lp_run pf tmp_of nm lv ps s = (s', out)"
  shows "let es = filter (\<lambda>ev. ev_instrument_id ev = iid) (pulled ps) in
    en_core (lp_engine s') = (en_cfg (lp_engine s), hb_run book_levels (en_book (lp_engine s)) es,
      en_seq (lp_engine s) + of_nat (length es), Some iid)"
  using assms
proof (induction ps arbitrary: s s' out rule: pulled.induct)
  case (4 i ps)
  obtain s1 o1 where st: "lp_step pf tmp_of nm lv i s = (s1, o1)" by force
  obtain o2 where run: "lp_run pf tmp_of nm lv ps s1 = (s', o2)" using 4(4) st by (auto split: prod.splits)
  note core = lp_step_pinned [OF st 4(2,3)]
  have "ec_track_instrument (en_cfg (lp_engine s1)) = Some iid" "en_tracked (lp_engine s1) = Some iid"
    using core 4(2,3) by (auto simp: en_core_def split: if_splits)
  from 4(1) [OF this run] core 4(3) show ?case by (auto simp: Let_def en_core_def hb_run_def split: if_splits)
qed (auto simp: en_core_def hb_run_def)

text \<open>
  Property C28. An engine pinned to a symbol is a replay of that symbol: whatever the clocks, the publishing and the
  snapshots do, after any run its book is the book of exactly the symbol's events in feed order, its sequence number
  counts them, and it never gives up the lock.
\<close>

theorem pinned_engine_replays_symbol:
  assumes "ec_track_instrument cfg = Some iid"
    and "en_run pf tmp_of nm lv sy starts ps files (en_new pf b0 t0 w0 tsc cfg) = Some (s, out)"
  shows "let es = filter (\<lambda>ev. ev_instrument_id ev = iid) (pulled ps) in
    en_book (lp_engine s) = hb_run book_levels (hb_new book_levels (ec_instrument_id cfg)) es \<and>
    en_seq (lp_engine s) = of_nat (length es) \<and> en_tracked (lp_engine s) = Some iid"
proof -
  obtain s0 o0 where "lp_engine s0 = en_new pf b0 t0 w0 tsc cfg" "lp_run pf tmp_of nm lv ps s0 = (s, o0)"
    using en_run_loop [OF assms(2)] by blast
  with lp_run_pinned [of s0 iid pf tmp_of nm lv ps s o0] assms(1) show ?thesis by (simp add: en_new_def en_core_def Let_def)
qed

definition sample_input :: "event \<Rightarrow> engine_input" where
  "sample_input ev =
     \<lparr>ei_event = ev, ei_stale_at = 0, ei_lock_at = 0, ei_symbol_of = (\<lambda>_. None), ei_apply_tsc = (0, 9), ei_analytics_tsc = (9, 20),
      ei_risk_tsc = (20, 21), ei_wire_tsc = (21, 30), ei_now = 10 ^ 10, ei_tick_at = 40, ei_breaker_at = 41, ei_dropped = 0,
      ei_snapshot_io = (True, None, True)\<rparr>"

definition sample_platform :: platform where
  "sample_platform = \<lparr>pf_rnd = Fin, pf_sqrt = (\<lambda>x. x), pf_xxh = (\<lambda>_. 0), pf_xxs = (\<lambda>_ _. 0)\<rparr>"

definition sample_clock :: tsc_clock where
  "sample_clock = \<lparr>tsc_cycles_per_ns = Fin 3, tsc_overhead_cycles = 2\<rparr>"

definition sample_order :: "u32 \<Rightarrow> u64 \<Rightarrow> event" where
  "sample_order iid oid = event_zeroed\<lparr>ev_instrument_id := iid, ev_order_id := oid, ev_price := 100, ev_qty := 5, ev_event_type := 1\<rparr>"

lemma sample_run:
  assumes "ec_tick_publish_hz (en_cfg e) = 50" "ec_book_publish_hz (en_cfg e) = 10"
  obtains s out where "en_run sample_platform tmp_of nm lv sy starts ps files e = Some (s, out)"
proof -
  have "period_ns Fin 50 \<noteq> None" "period_ns Fin 10 \<noteq> None" by (simp_all add: period_ns_def)
  then show ?thesis using that assms
    by (cases "lp_run sample_platform tmp_of nm lv ps (lp_init starts (the (period_ns Fin 50)) (the (period_ns Fin 10)) files e)")
      (auto simp: en_run_def Let_def sample_platform_def)
qed

definition pinned_config :: "u32 \<Rightarrow> engine_config" where
  "pinned_config iid = engine_config_default\<lparr>ec_track_instrument := Some iid\<rparr>"

theorem pinned_engine_replays_symbol_witness:
  "\<exists>s out. en_run sample_platform id ''synthetic'' True (\<lambda>_. None) (0, 0, 0, 0)
       (map (Pulled \<circ> sample_input) [sample_order 7 1, sample_order 8 2, sample_order 7 3]) Map.empty
       (en_new sample_platform 0 0 0 sample_clock (pinned_config 7)) = Some (s, out) \<and>
     en_seq (lp_engine s) = 2 \<and> en_book (lp_engine s) = hb_run book_levels (hb_new book_levels 1) [sample_order 7 1, sample_order 7 3]"
proof -
  let ?ps = "map (Pulled \<circ> sample_input) [sample_order 7 1, sample_order 8 2, sample_order 7 3]"
  let ?e = "en_new sample_platform 0 0 0 sample_clock (pinned_config 7)"
  have c: "ec_track_instrument (pinned_config 7) = Some 7" "ec_instrument_id (pinned_config 7) = 1"
    by (simp_all add: pinned_config_def engine_config_default_def)
  obtain s out where run: "en_run sample_platform id ''synthetic'' True (\<lambda>_. None) (0, 0, 0, 0) ?ps Map.empty ?e = Some (s, out)"
    by (rule sample_run [of ?e]) (simp_all add: en_new_def pinned_config_def engine_config_default_def)
  have "filter (\<lambda>ev. ev_instrument_id ev = 7) (pulled ?ps) = [sample_order 7 1, sample_order 7 3]"
    by (simp add: sample_input_def sample_order_def event_zeroed_def)
  with pinned_engine_replays_symbol [OF c(1) run] run c(2) show ?thesis by (auto simp: Let_def)
qed

subsection \<open>Auto-lock\<close>

text \<open>
  \<open>lock_span iid mid\<close>: the events since a lock on \<open>iid\<close>, none when there has been no lock yet. \<open>tracks evs e\<close>: after the
  events \<open>evs\<close> the book is the replay of the symbol's events of the last such span, which is still open while the lock holds.
\<close>

definition lock_span :: "u32 \<Rightarrow> event list \<Rightarrow> bool" where
  "lock_span iid mid \<longleftrightarrow> mid = [] \<or> is_trade (hd mid) \<and> ev_instrument_id (hd mid) = iid"

definition tracks :: "event list \<Rightarrow> engine \<Rightarrow> bool" where
  "tracks evs e \<longleftrightarrow> ec_track_instrument (en_cfg e) = None \<and>
     (\<exists>iid pre mid post. evs = pre @ mid @ post \<and> lock_span iid mid \<and>
        en_book e = hb_run book_levels (hb_new book_levels iid) (filter (\<lambda>ev. ev_instrument_id ev = iid) mid) \<and>
        (en_tracked e = None \<or> en_tracked e = Some iid \<and> mid \<noteq> [] \<and> post = []))"

lemma lock_span_snoc: "lock_span iid mid \<Longrightarrow> mid \<noteq> [] \<Longrightarrow> lock_span iid (mid @ [ev])"
  by (cases mid) (simp_all add: lock_span_def)

lemma lp_step_tracks:
  assumes "lp_step pf tmp_of nm lv i s = (s', out)" "tracks evs (lp_engine s)"
  shows "tracks (evs @ [ei_event i]) (lp_engine s')"
proof -
  let ?t = "en_tracked (en_rearm (ei_stale_at i) (lp_engine s))" let ?ev = "ei_event i"
  obtain iid pre mid post where h: "evs = pre @ mid @ post" "lock_span iid mid"
    "en_book (lp_engine s) = hb_run book_levels (hb_new book_levels iid) (filter (\<lambda>ev. ev_instrument_id ev = iid) mid)"
    "en_tracked (lp_engine s) = None \<or> en_tracked (lp_engine s) = Some iid \<and> mid \<noteq> [] \<and> post = []"
    and cfg: "ec_track_instrument (en_cfg (lp_engine s)) = None"
    using assms(2) unfolding tracks_def by blast
  have t: "?t = None \<or> ?t = Some iid \<and> mid \<noteq> [] \<and> post = []" using en_rearm_core(4) [of "ei_stale_at i" "lp_engine s"] h(4) by auto
  from assms(1) show ?thesis
  proof (cases rule: lp_step_cases)
    case dropped
    show ?thesis
    proof (cases "?t = None")
      case True
      then show ?thesis unfolding tracks_def using dropped h cfg
        by (intro conjI exI [of _ iid] exI [of _ pre] exI [of _ mid] exI [of _ "post @ [?ev]"]) simp_all
    next
      case False
      then have "?t = Some iid" "mid \<noteq> []" "post = []" using t by auto
      then show ?thesis unfolding tracks_def using dropped h cfg lock_span_snoc
        by (intro conjI exI [of _ iid] exI [of _ pre] exI [of _ "mid @ [?ev]"] exI [of _ "[]"]) auto
    qed
  next
    case passed
    then have "ev_instrument_id ?ev = iid" "mid \<noteq> []" "post = []" using t by auto
    then show ?thesis unfolding tracks_def using passed h cfg lock_span_snoc
      by (intro conjI exI [of _ iid] exI [of _ pre] exI [of _ "mid @ [?ev]"] exI [of _ "[]"]) (auto simp: en_core_def hb_run_snoc)
  next
    case locked
    then show ?thesis unfolding tracks_def using cfg
      by (intro conjI exI [of _ "ev_instrument_id ?ev"] exI [of _ evs] exI [of _ "[?ev]"] exI [of _ "[]"])
        (simp_all add: en_core_def lock_span_def hb_run_def)
  qed
qed

lemma lp_run_tracks:
  "tracks evs (lp_engine s) \<Longrightarrow> lp_run pf tmp_of nm lv ps s = (s', out) \<Longrightarrow> tracks (evs @ pulled ps) (lp_engine s')"
proof (induction ps arbitrary: evs s s' out rule: pulled.induct)
  case (4 i ps)
  obtain s1 o1 where st: "lp_step pf tmp_of nm lv i s = (s1, o1)" by force
  obtain o2 where "lp_run pf tmp_of nm lv ps s1 = (s', o2)" using 4(3) st by (auto split: prod.splits)
  from 4(1) [OF lp_step_tracks [OF st 4(2)] this] show ?case by simp
qed auto

text \<open>
  Property C29. Without a pinned symbol the engine's book always belongs to one instrument. Through any sequence of locks,
  quiet periods and re-locks, the events pulled from the feed contain a span that starts with a trade of the
  instrument the book is labelled with (the trade that takes a lock), and the book is the replay of exactly the events of that
  instrument in the span, in feed order, from an empty book; events of other symbols in the span do not reach it. While
  the lock holds, it is on that instrument and the span reaches to the last pulled event. Before the first lock the span is empty.
\<close>

theorem auto_locked_book_is_one_symbol:
  assumes "ec_track_instrument cfg = None"
    and "en_run pf tmp_of nm lv sy starts ps files (en_new pf b0 t0 w0 tsc cfg) = Some (s, out)"
  shows "let e = lp_engine s; iid = hb_instrument_id (en_book e) in
    \<exists>pre mid post. pulled ps = pre @ mid @ post \<and>
      (mid = [] \<or> is_trade (hd mid) \<and> ev_instrument_id (hd mid) = iid) \<and>
      en_book e = hb_run book_levels (hb_new book_levels iid) (filter (\<lambda>ev. ev_instrument_id ev = iid) mid) \<and>
      (en_tracked e = None \<or> en_tracked e = Some iid \<and> mid \<noteq> [] \<and> post = [])"
proof -
  obtain s0 o0 where s0: "lp_engine s0 = en_new pf b0 t0 w0 tsc cfg" "lp_run pf tmp_of nm lv ps s0 = (s, o0)"
    using en_run_loop [OF assms(2)] by blast
  have "tracks [] (lp_engine s0)"
    using assms(1) by (auto simp: tracks_def lock_span_def s0(1) en_new_def hb_run_def)
  from lp_run_tracks [OF this s0(2)] obtain iid pre mid post where h: "pulled ps = pre @ mid @ post" "lock_span iid mid"
    "en_book (lp_engine s) = hb_run book_levels (hb_new book_levels iid) (filter (\<lambda>ev. ev_instrument_id ev = iid) mid)"
    "en_tracked (lp_engine s) = None \<or> en_tracked (lp_engine s) = Some iid \<and> mid \<noteq> [] \<and> post = []"
    unfolding tracks_def append_Nil by blast
  have "hb_instrument_id (en_book (lp_engine s)) = iid" by (simp add: h(3) hb_run_instrument hb_new_def)
  then show ?thesis using h unfolding Let_def lock_span_def by blast
qed

theorem auto_locked_book_is_one_symbol_witness:
  "\<exists>s out pre mid post. en_run sample_platform id ''synthetic'' True (\<lambda>_. None) (0, 0, 0, 0)
       (map (Pulled \<circ> sample_input) [sample_order 7 1, sample_order 8 2]) Map.empty
       (en_new sample_platform 0 0 0 sample_clock engine_config_default) = Some (s, out) \<and>
     [sample_order 7 1, sample_order 8 2] = pre @ mid @ post \<and>
     en_book (lp_engine s) = hb_run book_levels (hb_new book_levels (hb_instrument_id (en_book (lp_engine s))))
       (filter (\<lambda>ev. ev_instrument_id ev = hb_instrument_id (en_book (lp_engine s))) mid)"
proof -
  let ?ps = "map (Pulled \<circ> sample_input) [sample_order 7 1, sample_order 8 2]"
  let ?e = "en_new sample_platform 0 0 0 sample_clock engine_config_default"
  have c: "ec_track_instrument engine_config_default = None" by (simp add: engine_config_default_def)
  obtain s out where run: "en_run sample_platform id ''synthetic'' True (\<lambda>_. None) (0, 0, 0, 0) ?ps Map.empty ?e = Some (s, out)"
    by (rule sample_run [of ?e]) (simp_all add: en_new_def engine_config_default_def)
  have "pulled ?ps = [sample_order 7 1, sample_order 8 2]" by (simp add: sample_input_def)
  with auto_locked_book_is_one_symbol [OF c run] run show ?thesis unfolding Let_def by metis
qed

section \<open>Snapshots and resuming\<close>

definition book_reached :: "engine_config \<Rightarrow> nat \<Rightarrow> engine \<Rightarrow> bool" where
  "book_reached cfg n e \<longleftrightarrow> en_cfg e = cfg \<and> (\<exists>iid. book_from (\<lambda>_. True) iid n (en_book e) \<and>
     (ec_track_instrument cfg \<noteq> None \<longrightarrow> iid = ec_instrument_id cfg \<and> en_tracked e = ec_track_instrument cfg))"

lemma lp_step_reached:
  assumes "lp_step pf tmp_of nm lv i s = (s', out)" "book_reached cfg n (lp_engine s)"
  shows "book_reached cfg (Suc n) (lp_engine s')"
proof -
  obtain iid where b: "book_from (\<lambda>_. True) iid n (en_book (lp_engine s))" "en_cfg (lp_engine s) = cfg"
    "ec_track_instrument cfg \<noteq> None \<longrightarrow> iid = ec_instrument_id cfg \<and> en_tracked (lp_engine s) = ec_track_instrument cfg"
    using assms(2) by (auto simp: book_reached_def)
  note t = en_rearm_core(4) [of "ei_stale_at i" "lp_engine s"]
  from assms(1) show ?thesis
  proof (cases rule: lp_step_cases)
    case dropped
    then show ?thesis unfolding book_reached_def using b t book_from_Suc [OF b(1)] by auto
  next
    case passed
    then show ?thesis unfolding book_reached_def using b t book_from_apply [OF b(1), of "ei_event i"] by (auto simp: en_core_def)
  next
    case locked
    have "book_from (\<lambda>_. True) (ev_instrument_id (ei_event i)) (Suc n)
        (fst (hb_apply book_levels (hb_new book_levels (ev_instrument_id (ei_event i))) (ei_event i)))"
      by (rule book_from_apply [OF book_from_new]) simp
    then show ?thesis using locked b t by (auto simp: book_reached_def en_core_def)
  qed
qed

lemma lp_run_reached:
  "book_reached cfg n (lp_engine s) \<Longrightarrow> lp_run pf tmp_of nm lv ps s = (s', out) \<Longrightarrow> book_reached cfg (n + length (pulled ps)) (lp_engine s')"
proof (induction ps arbitrary: n s s' out rule: pulled.induct)
  case (4 i ps)
  obtain s1 o1 where st: "lp_step pf tmp_of nm lv i s = (s1, o1)" by force
  obtain o2 where "lp_run pf tmp_of nm lv ps s1 = (s', o2)" using 4(3) st by (auto split: prod.splits)
  from 4(1) [OF lp_step_reached [OF st 4(2)] this] show ?case by simp
qed auto

lemma en_run_reached:
  assumes "en_run pf tmp_of nm lv sy starts ps files (en_new pf b0 t0 w0 tsc cfg) = Some (s, out)"
  shows "book_reached cfg (length (pulled ps)) (lp_engine s)"
proof -
  obtain s0 o0 where s0: "lp_engine s0 = en_new pf b0 t0 w0 tsc cfg" "lp_run pf tmp_of nm lv ps s0 = (s, o0)"
    using en_run_loop [OF assms] by blast
  have "book_reached cfg 0 (lp_engine s0)"
    using book_from_new [of "\<lambda>_. True" "ec_instrument_id cfg" 0] by (auto simp: book_reached_def s0(1) en_new_def)
  from lp_run_reached [OF this s0(2)] show ?thesis by simp
qed

lemma snapshot_bytes_fit:
  assumes "book_from P iid n book" "n \<le> 10 ^ 8"
  shows "length (to_snapshot_bytes book_levels book) < 2 ^ 32"
proof -
  have inv: "hb_inv book_levels book" "length (sl_data (hb_orders book)) \<le> n"
    using book_from_inv [OF assms(1)] assms(2) by simp_all
  have "unat (hb_bid_count book) \<le> book_levels" "unat (hb_ask_count book) \<le> book_levels"
    by (rule hb_levels_length [OF inv(1)])+
  moreover have "length (sl_free (hb_orders book)) \<le> length (sl_data (hb_orders book))"
    "om_size (sl_index (hb_orders book)) \<le> length (sl_data (hb_orders book))"
    using inv(1) by (auto simp: hb_inv_def slab_inv_def)
  ultimately show ?thesis using length_to_snapshot_bytes [OF inv(1)] inv(2) assms(2) by (simp add: book_levels_def)
qed

definition engine_snapshot :: "platform \<Rightarrow> hot_book \<Rightarrow> u64 \<Rightarrow> snapshot" where
  "engine_snapshot pf book sq =
     \<lparr>sn_seq = sq, sn_state_hash = hb_canonical_l2_hash (pf_xxh pf) (pf_xxs pf) book, sn_book_data = to_snapshot_bytes book_levels book\<rparr>"

lemma lp_window_files [simp]: "lp_files (lp_window pf i s) = lp_files s"
  by (simp add: lp_window_def)

lemma lp_tick_files: "lp_tick pf i s = (s', out) \<Longrightarrow> lp_files s' = lp_files s"
  by (auto simp: lp_tick_def Let_def split: prod.splits if_splits)

lemma lp_book_files: "lp_book i s = (s', out) \<Longrightarrow> lp_files s' = lp_files s"
  by (auto simp: lp_book_def split: if_splits)

lemma lp_step_snapshot:
  assumes "lp_step pf tmp_of nm lv i s = (s', out)" "en_seq (lp_engine s') \<noteq> en_seq (lp_engine s)"
    and cfg: "ec_snapshot_every (en_cfg (lp_engine s)) = Some period" "ec_snapshot_out (en_cfg (lp_engine s)) = Some path"
    and due: "lp_next_snapshot s = Some t" "t \<le> ei_now i" and io: "ei_snapshot_io i = (True, None, True)"
    and tmp: "tmp_of path \<noteq> path"
  shows "lp_files s' path = Some (sn_to_bytes (engine_snapshot pf (en_book (lp_engine s')) (en_seq (lp_engine s'))))"
proof -
  obtain e1 lock p where f: "en_filter nm lv i (en_rearm (ei_stale_at i) (lp_engine s)) = (e1, lock, p)" by (metis prod_cases3)
  have p
  proof (rule ccontr)
    assume "\<not> p"
    then have "lp_engine s' = e1" "en_seq e1 = en_seq (lp_engine s)"
      using assms(1) f by (auto simp: lp_step_def en_filter_def Let_def en_rearm_core(3) split: option.splits if_splits)
    then show False using assms(2) by simp
  qed
  obtain e2 o2 where pr: "en_process pf i e1 = (e2, o2)" by force
  let ?s2 = "s\<lparr>lp_engine := e2\<rparr>"
  have c: "en_cfg e1 = en_cfg (lp_engine s)" using f by (auto simp: en_filter_def Let_def en_rearm_core(1) split: option.splits if_splits)
  have "lp_files s' = lp_files (lp_snapshot pf tmp_of i ?s2)" "en_core (lp_engine s') = en_core e2"
    using assms(1) f \<open>p\<close> pr
    by (auto simp: lp_step_def Let_def lp_tick_files lp_book_files lp_tick_core lp_book_core split: prod.splits)
  moreover have "en_cfg e2 = en_cfg (lp_engine s)" using en_process_core [OF pr] c by (simp add: en_core_def)
  ultimately show ?thesis using cfg due io tmp
    by (auto simp: lp_snapshot_def Let_def engine_snapshot_def en_core_def sn_write_to_path_def)
qed

lemma resume_engine_snapshot:
  assumes "book_from P iid n book" "n \<le> 10 ^ 8"
  shows "\<exists>e. en_with_snapshot pf b t w tsc cfg (engine_snapshot pf book sq) = Inr e \<and> en_book e = book \<and> en_seq e = sq \<and>
    en_tracked e = Some iid \<and> en_cfg e = cfg"
proof -
  have "hb_inv book_levels book" "length (sl_data (hb_orders book)) < 2 ^ 32" using book_from_inv [OF assms(1)] assms(2) by simp_all
  then have "from_snapshot_bytes book_levels (to_snapshot_bytes book_levels book) = Inr book" by (rule from_to_snapshot_bytes)
  then show ?thesis using book_from_instrument [OF assms(1)]
    by (simp add: en_with_snapshot_def engine_snapshot_def Let_def en_new_def)
qed

text \<open>
  Property C30. A snapshot that the engine writes resumes it: when a round of any run processes an event while a snapshot is
  due and the write succeeds, the file reads back, its state hash is the hash of the engine's book, and an
  engine started from it has the identical book and sequence number. Up to a hundred million events are
  covered, which keeps the snapshot below the 4 GiB its length field can express.
\<close>

theorem engine_snapshot_resumes:
  assumes run: "en_run pf tmp_of nm lv sy starts ps files (en_new pf b0 t0 w0 tsc cfg) = Some (s, out)"
    and step: "lp_step pf tmp_of nm lv i s = (s', out')" "en_seq (lp_engine s') \<noteq> en_seq (lp_engine s)"
    and cfg: "ec_snapshot_every cfg = Some period" "ec_snapshot_out cfg = Some path"
    and due: "lp_next_snapshot s = Some t" "t \<le> ei_now i" and io: "ei_snapshot_io i = (True, None, True)"
    and tmp: "tmp_of path \<noteq> path" and small: "length (pulled ps) < 10 ^ 8"
  shows "\<exists>sn e. sn_read_from_path path (lp_files s') = Inr sn \<and>
    sn_state_hash sn = hb_canonical_l2_hash (pf_xxh pf) (pf_xxs pf) (en_book (lp_engine s')) \<and>
    en_with_snapshot pf b1 t1 w1 tsc1 cfg sn = Inr e \<and>
    en_book e = en_book (lp_engine s') \<and> en_seq e = en_seq (lp_engine s')"
proof -
  have r: "book_reached cfg (length (pulled ps)) (lp_engine s)" by (rule en_run_reached [OF run])
  then have c: "en_cfg (lp_engine s) = cfg" by (simp add: book_reached_def)
  let ?sn = "engine_snapshot pf (en_book (lp_engine s')) (en_seq (lp_engine s'))"
  have f: "lp_files s' path = Some (sn_to_bytes ?sn)"
    by (rule lp_step_snapshot [OF step _ _ due io tmp]) (use c cfg in simp_all)
  obtain iid where b: "book_from (\<lambda>_. True) iid (Suc (length (pulled ps))) (en_book (lp_engine s'))"
    using lp_step_reached [OF step(1) r] by (auto simp: book_reached_def)
  have "sn_book_data ?sn = take (2 ^ 32 - 1) (sn_book_data ?sn)"
    using snapshot_bytes_fit [OF b] small by (simp add: engine_snapshot_def)
  then have "sn_read_from_path path (lp_files s') = Inr ?sn"
    using f by (simp add: sn_read_from_path_def sn_from_to)
  moreover have "sn_state_hash ?sn = hb_canonical_l2_hash (pf_xxh pf) (pf_xxs pf) (en_book (lp_engine s'))"
    by (simp add: engine_snapshot_def)
  moreover obtain e where "en_with_snapshot pf b1 t1 w1 tsc1 cfg ?sn = Inr e" "en_book e = en_book (lp_engine s')" "en_seq e = en_seq (lp_engine s')"
    using resume_engine_snapshot [OF b, of pf b1 t1 w1 tsc1 cfg "en_seq (lp_engine s')"] small by auto
  ultimately show ?thesis by blast
qed

definition snapshot_config :: "u32 \<Rightarrow> engine_config" where
  "snapshot_config iid = (pinned_config iid)\<lparr>ec_snapshot_every := Some 5, ec_snapshot_out := Some ''book.flsn''\<rparr>"

lemma snapshot_config_fields [simp]:
  "ec_track_instrument (snapshot_config iid) = Some iid" "ec_instrument_id (snapshot_config iid) = 1"
  "ec_snapshot_every (snapshot_config iid) = Some 5" "ec_snapshot_out (snapshot_config iid) = Some ''book.flsn''"
  "ec_tick_publish_hz (snapshot_config iid) = 50" "ec_book_publish_hz (snapshot_config iid) = 10"
  by (simp_all add: snapshot_config_def pinned_config_def engine_config_default_def)

lemma sample_start:
  assumes "ec_tick_publish_hz (en_cfg e) = 50" "ec_book_publish_hz (en_cfg e) = 10" "ec_snapshot_every (en_cfg e) = Some d"
  obtains s out where "en_run sample_platform tmp_of nm lv sy (0, 0, 0, 0) [] files e = Some (s, out)" "lp_engine s = e"
    "lp_next_snapshot s = Some d"
proof -
  have "period_ns Fin 50 \<noteq> None" "period_ns Fin 10 \<noteq> None" by (simp_all add: period_ns_def)
  then show ?thesis using that assms by (auto simp: en_run_def Let_def sample_platform_def lp_init_def)
qed

theorem engine_snapshot_resumes_witness:
  "\<exists>s out s' out' sn e. en_run sample_platform (\<lambda>p. p @ ''.tmp'') ''ich'' True (\<lambda>_. None) (0, 0, 0, 0) [] Map.empty
       (en_new sample_platform 0 0 0 sample_clock (snapshot_config 7)) = Some (s, out) \<and>
     lp_step sample_platform (\<lambda>p. p @ ''.tmp'') ''ich'' True (sample_input (sample_order 7 1)) s = (s', out') \<and>
     sn_read_from_path ''book.flsn'' (lp_files s') = Inr sn \<and>
     en_with_snapshot sample_platform 0 0 0 sample_clock (snapshot_config 7) sn = Inr e \<and> en_book e = en_book (lp_engine s')"
proof -
  let ?e = "en_new sample_platform 0 0 0 sample_clock (snapshot_config 7)" let ?i = "sample_input (sample_order 7 1)"
  let ?tmp = "\<lambda>p :: string. p @ ''.tmp''"
  obtain s out where run: "en_run sample_platform ?tmp ''ich'' True (\<lambda>_. None) (0, 0, 0, 0) [] Map.empty ?e = Some (s, out)"
    and s: "lp_engine s = ?e" "lp_next_snapshot s = Some 5"
    by (rule sample_start [of ?e 5]) (simp_all add: en_new_def)
  obtain s' out' where step: "lp_step sample_platform ?tmp ''ich'' True ?i s = (s', out')" by force
  have "en_core (lp_engine s') = (snapshot_config 7, fst (hb_apply book_levels (en_book ?e) (ei_event ?i)), en_seq ?e + 1, Some 7)"
    using lp_step_pinned [OF step, of 7] s(1) by (simp add: en_new_def sample_input_def sample_order_def)
  then have "en_seq (lp_engine s') \<noteq> en_seq (lp_engine s)" using s(1) by (simp add: en_core_def en_new_def)
  from engine_snapshot_resumes [OF run step this, of 5 "''book.flsn''" 5 0 0 0 sample_clock] s(2) run step
  show ?thesis by (auto simp: sample_input_def)
qed

text \<open>
  A pinned engine labels its book with the configured default instrument instead of the pinned one, so that the engine
  resumed from its snapshot is locked on the default instrument: it drops every event of the pinned symbol, and because
  the symbol counts as pinned it never looks for another lock.
\<close>

theorem pinned_resume_drops_symbol:
  assumes run: "en_run pf tmp_of nm lv sy starts ps files (en_new pf b0 t0 w0 tsc cfg) = Some (s, out)"
    and pin: "ec_track_instrument cfg = Some iid" "iid \<noteq> ec_instrument_id cfg" and small: "length (pulled ps) < 10 ^ 8"
    and ev: "ev_instrument_id (ei_event i) = iid"
  shows "\<exists>e. en_with_snapshot pf b1 t1 w1 tsc1 cfg (engine_snapshot pf (en_book (lp_engine s)) (en_seq (lp_engine s))) = Inr e \<and>
    en_filter nm lv i (en_rearm (ei_stale_at i) e) = (en_rearm (ei_stale_at i) e, [], False) \<and>
    en_tracked (en_rearm (ei_stale_at i) e) = Some (ec_instrument_id cfg)"
proof -
  have b: "book_from (\<lambda>_. True) (ec_instrument_id cfg) (length (pulled ps)) (en_book (lp_engine s))"
    using en_run_reached [OF run] pin(1) by (auto simp: book_reached_def)
  have "length (pulled ps) \<le> 10 ^ 8" using small by simp
  from resume_engine_snapshot [OF b this, of pf b1 t1 w1 tsc1 cfg "en_seq (lp_engine s)"]
  obtain e where e: "en_with_snapshot pf b1 t1 w1 tsc1 cfg (engine_snapshot pf (en_book (lp_engine s)) (en_seq (lp_engine s))) = Inr e"
    "en_tracked e = Some (ec_instrument_id cfg)" "en_cfg e = cfg" by blast
  then have "en_tracked (en_rearm (ei_stale_at i) e) = Some (ec_instrument_id cfg)"
    using en_rearm_core(4) [of "ei_stale_at i" e] pin(1) by simp
  then show ?thesis using e(1) ev pin(2) by (simp add: en_filter_def)
qed

theorem pinned_resume_drops_symbol_witness:
  "\<exists>s out e. en_run sample_platform id ''ich'' True (\<lambda>_. None) (0, 0, 0, 0) [] Map.empty
       (en_new sample_platform 0 0 0 sample_clock (snapshot_config 7)) = Some (s, out) \<and>
     en_with_snapshot sample_platform 0 0 0 sample_clock (snapshot_config 7)
       (engine_snapshot sample_platform (en_book (lp_engine s)) (en_seq (lp_engine s))) = Inr e \<and>
     en_tracked (en_rearm 0 e) = Some 1"
proof -
  let ?e = "en_new sample_platform 0 0 0 sample_clock (snapshot_config 7)"
  obtain s out where run: "en_run sample_platform id ''ich'' True (\<lambda>_. None) (0, 0, 0, 0) [] Map.empty ?e = Some (s, out)"
    by (rule sample_run [of ?e]) (simp_all add: en_new_def)
  from pinned_resume_drops_symbol [OF run, of 7 "sample_input (sample_order 7 1)" 0 0 0 sample_clock] run show ?thesis
    by (auto simp: sample_input_def sample_order_def)
qed

end
