(* ===== verification/FL_Ich.thy ===== *)
theory FL_Ich
  imports FL_Itch FL_OrdMap FL_Float
begin

text \<open>
  The ITCH file source of the engine (\<open>engine/src/ich.rs\<close>): a mapped file, a cursor that rewinds at the end, the
  framing of the messages, the symbol directory and the fast-forward scan of \<open>open_with\<close>. The outcome of opening
  and mapping the file is an argument. The wall clock only delays \<open>pace_to\<close>, whose effect on the state is the
  base time stamp. \<open>next\<close> is a loop that may run for ever, so it returns an option.
\<close>

datatype pace = AsFastAsPossible | Realtime f64

datatype framing = Unframed | BinaryFile

record ich_source =
  ic_mmap :: bytes
  ic_cursor :: nat
  ic_loop_start :: nat
  ic_pace :: pace
  ic_framing :: framing
  ic_base_event_ns :: "u64 option"
  ic_skipped_unknown :: u64
  ic_skipped_ignored :: u64
  ic_bytes_total :: u64
  ic_symbols :: "(u32, bytes) omap"

section \<open>Opening\<close>

text \<open>The body bounds of the message at the cursor: \<open>Stop\<close> ends the scan, \<open>SkipByte\<close> is an unknown type.\<close>

datatype scan_item = Stop | SkipByte | Body nat nat

definition scan_item_at :: "framing \<Rightarrow> bytes \<Rightarrow> nat \<Rightarrow> scan_item" where
  "scan_item_at fr buf cursor =
     (case fr of
        BinaryFile \<Rightarrow>
          if length buf < cursor + 2 then Stop
          else let len = unat (rd_u16 buf cursor); body_end = cursor + 2 + len
               in if len = 0 then Stop else if length buf < body_end then Stop else Body (cursor + 2) body_end
      | Unframed \<Rightarrow>
          if length buf \<le> cursor then Stop
          else let len = unat (msg_length (buf ! cursor))
               in if len = 0 then SkipByte else if length buf < cursor + len then Stop else Body cursor (cursor + len))"

lemma scan_item_forward: "scan_item_at fr buf cursor = Body a b \<Longrightarrow> cursor < b \<and> b \<le> length buf \<and> cursor \<le> a \<and> a < b"
  by (auto simp: scan_item_at_def Let_def split: framing.splits if_splits)

lemma scan_item_skip: "scan_item_at fr buf cursor = SkipByte \<Longrightarrow> cursor < length buf"
  by (auto simp: scan_item_at_def Let_def split: framing.splits if_splits)

definition harvest :: "bytes \<Rightarrow> (u32, bytes) omap \<Rightarrow> (u32, bytes) omap" where
  "harvest m symbols =
     (if m \<noteq> [] \<and> m ! 0 = 0x52 then
        (case parse_stock_directory m of Some (iid, ticker) \<Rightarrow> om_insert iid ticker symbols | None \<Rightarrow> symbols)
      else symbols)"

function fast_forward :: "framing \<Rightarrow> bytes \<Rightarrow> u64 \<Rightarrow> nat \<Rightarrow> (u32, bytes) omap \<Rightarrow> nat \<times> (u32, bytes) omap" where
  "fast_forward fr buf target_ns cursor symbols =
     (case scan_item_at fr buf cursor of
        Stop \<Rightarrow> (cursor, symbols)
      | SkipByte \<Rightarrow> fast_forward fr buf target_ns (cursor + 1) symbols
      | Body body_start body_end \<Rightarrow>
          let m = slice body_start body_end buf;
              symbols' = harvest m symbols
          in if 11 \<le> length m \<and> target_ns \<le> rd_ts48 m 5 then (cursor, symbols')
             else fast_forward fr buf target_ns body_end symbols')"
  by pat_completeness auto
termination
  by (relation "measure (\<lambda>(_, buf, _, cursor, _). length buf - cursor)")
    (auto dest: scan_item_forward scan_item_skip)

declare fast_forward.simps [simp del]

datatype ich_open_error = IchIo | IchEmpty

definition ic_open_with :: "bytes option \<Rightarrow> pace \<Rightarrow> framing \<Rightarrow> u64 option \<Rightarrow> ich_open_error + ich_source" where
  "ic_open_with mapped pc fr start_at_ns =
     (case mapped of
        None \<Rightarrow> Inl IchIo
      | Some mmap \<Rightarrow>
          if mmap = [] then Inl IchEmpty
          else let (cursor, symbols) = (case start_at_ns of None \<Rightarrow> (0, om_empty)
                     | Some target_ns \<Rightarrow> fast_forward fr mmap target_ns 0 om_empty)
               in Inr \<lparr>ic_mmap = mmap, ic_cursor = cursor, ic_loop_start = cursor, ic_pace = pc, ic_framing = fr,
                       ic_base_event_ns = None, ic_skipped_unknown = 0, ic_skipped_ignored = 0,
                       ic_bytes_total = of_nat (length mmap), ic_symbols = symbols\<rparr>)"

definition ic_open :: "bytes option \<Rightarrow> pace \<Rightarrow> framing \<Rightarrow> ich_open_error + ich_source" where
  "ic_open mapped pc fr = ic_open_with mapped pc fr None"

definition ic_bytes_consumed :: "ich_source \<Rightarrow> u64" where
  "ic_bytes_consumed s = of_nat (ic_cursor s)"

definition ic_symbol_of :: "u32 \<Rightarrow> ich_source \<Rightarrow> bytes option" where
  "ic_symbol_of iid s = om_lookup (ic_symbols s) iid"

definition ic_is_live :: "ich_source \<Rightarrow> bool" where
  "ic_is_live s = True"

section \<open>Pulling events\<close>

definition ic_pace_to :: "u64 \<Rightarrow> ich_source \<Rightarrow> ich_source" where
  "ic_pace_to event_ns s =
     (case ic_base_event_ns s of Some _ \<Rightarrow> s | None \<Rightarrow> s\<lparr>ic_base_event_ns := Some event_ns\<rparr>)"

definition ic_rewind :: "ich_source \<Rightarrow> ich_source" where
  "ic_rewind s = s\<lparr>ic_cursor := ic_loop_start s, ic_base_event_ns := None\<rparr>"

text \<open>The message cut out by one round of the loop; \<open>Rewound\<close> and \<open>Skipped\<close> continue, \<open>Ended\<close> returns \<open>None\<close>.\<close>

datatype cut = Rewound ich_source | Skipped ich_source | Ended | Message bytes ich_source

definition ic_cut :: "ich_source \<Rightarrow> cut" where
  "ic_cut s =
     (let buf = ic_mmap s; cursor = ic_cursor s
      in case ic_framing s of
           Unframed \<Rightarrow>
             if length buf \<le> cursor then Rewound (ic_rewind s)
             else let len = unat (msg_length (buf ! cursor))
                  in if len = 0 then Skipped (s\<lparr>ic_skipped_unknown := sat_add (ic_skipped_unknown s) 1, ic_cursor := cursor + 1\<rparr>)
                     else if length buf < cursor + len then Rewound (ic_rewind s)
                     else Message (slice cursor (cursor + len) buf) (s\<lparr>ic_cursor := cursor + len\<rparr>)
         | BinaryFile \<Rightarrow>
             if length buf < cursor + 2 then Rewound (ic_rewind s)
             else let len = unat (rd_u16 buf cursor)
                  in if len = 0 then Ended
                     else let body_start = cursor + 2; body_end = body_start + len
                          in if length buf < body_end then Rewound (ic_rewind s)
                             else let m = slice body_start body_end buf; s1 = s\<lparr>ic_cursor := body_end\<rparr>;
                                      expected = unat (msg_length (m ! 0))
                                  in if expected = 0 \<or> expected \<noteq> len
                                     then Skipped (s1\<lparr>ic_skipped_unknown := sat_add (ic_skipped_unknown s1) 1\<rparr>)
                                     else Message m s1)"

text \<open>One round of the loop: \<open>Inl\<close> goes on with the state, \<open>Inr\<close> returns.\<close>

definition ic_round :: "ich_source \<Rightarrow> ich_source + (ich_source \<times> event option)" where
  "ic_round s =
     (case ic_cut s of
        Rewound s1 \<Rightarrow> Inl s1
      | Skipped s1 \<Rightarrow> Inl s1
      | Ended \<Rightarrow> Inr (s, None)
      | Message m s1 \<Rightarrow>
          (case dispatch m of
             Some ev \<Rightarrow> Inr (case ic_pace s1 of Realtime _ \<Rightarrow> ic_pace_to (ev_ts ev) s1 | AsFastAsPossible \<Rightarrow> s1, Some ev)
           | None \<Rightarrow> Inl (s1\<lparr>ic_symbols := harvest m (ic_symbols s1),
                              ic_skipped_ignored := sat_add (ic_skipped_ignored s1) 1\<rparr>)))"

partial_function (option) ic_next :: "ich_source \<Rightarrow> (ich_source \<times> event option) option" where
  "ic_next s = (case ic_round s of Inl s1 \<Rightarrow> ic_next s1 | Inr r \<Rightarrow> Some r)"

end
