(* ===== verification/FL_IchProperties.thy ===== *)
theory FL_IchProperties
  imports FL_Ich FL_ItchProperties
begin

text \<open>
  When \<open>next\<close> of the ITCH file source returns, and what it returns on a well-formed file.
\<close>

section \<open>One pass over the file\<close>

datatype round_kind = KRewind | KNext nat | KReturn

definition kind_of_message :: "bytes \<Rightarrow> nat \<Rightarrow> round_kind" where
  "kind_of_message m c = (if dispatch m = None then KNext c else KReturn)"

definition round_kind_at :: "framing \<Rightarrow> bytes \<Rightarrow> nat \<Rightarrow> round_kind" where
  "round_kind_at fr buf c =
     (case fr of
        Unframed \<Rightarrow>
          if length buf \<le> c then KRewind
          else let len = unat (msg_length (buf ! c))
               in if len = 0 then KNext (c + 1) else if length buf < c + len then KRewind
                  else kind_of_message (slice c (c + len) buf) (c + len)
      | BinaryFile \<Rightarrow>
          if length buf < c + 2 then KRewind
          else let len = unat (rd_u16 buf c)
               in if len = 0 then KReturn else if length buf < c + 2 + len then KRewind
                  else let m = slice (c + 2) (c + 2 + len) buf; expected = unat (msg_length (m ! 0))
                       in if expected = 0 \<or> expected \<noteq> len then KNext (c + 2 + len) else kind_of_message m (c + 2 + len))"

lemma round_kind_forward: "round_kind_at fr buf c = KNext c' \<Longrightarrow> c < c' \<and> c' \<le> length buf"
  by (auto simp: round_kind_at_def kind_of_message_def Let_def split: framing.splits if_splits)

text \<open>Whether reading on from an offset returns before the end of the file is reached.\<close>

function pass_returns :: "framing \<Rightarrow> bytes \<Rightarrow> nat \<Rightarrow> bool" where
  "pass_returns fr buf c =
     (case round_kind_at fr buf c of KRewind \<Rightarrow> False | KReturn \<Rightarrow> True | KNext c' \<Rightarrow> pass_returns fr buf c')"
  by pat_completeness auto
termination
  by (relation "measure (\<lambda>(_, buf, c). length buf - c)") (auto dest: round_kind_forward)

declare pass_returns.simps [simp del]

definition ic_at :: "framing \<Rightarrow> bytes \<Rightarrow> nat \<Rightarrow> nat \<Rightarrow> ich_source \<Rightarrow> bool" where
  "ic_at fr buf ls c s \<longleftrightarrow> ic_framing s = fr \<and> ic_mmap s = buf \<and> ic_loop_start s = ls \<and> ic_cursor s = c"

lemma ic_round_kind:
  assumes "ic_at fr buf ls c s"
  shows "case round_kind_at fr buf c of
      KRewind \<Rightarrow> \<exists>s'. ic_round s = Inl s' \<and> ic_at fr buf ls ls s'
    | KNext c' \<Rightarrow> \<exists>s'. ic_round s = Inl s' \<and> ic_at fr buf ls c' s'
    | KReturn \<Rightarrow> \<exists>r. ic_round s = Inr r"
  using assms
  by (cases fr) (auto simp: ic_at_def round_kind_at_def ic_round_def ic_cut_def ic_rewind_def kind_of_message_def Let_def split: option.split)

lemma returns_from_pass: "pass_returns fr buf c \<Longrightarrow> ic_at fr buf ls c s \<Longrightarrow> ic_next s \<noteq> None"
proof (induction fr buf c arbitrary: s rule: pass_returns.induct)
  case (1 fr buf c)
  show ?case
  proof (cases "round_kind_at fr buf c")
    case KRewind
    then show ?thesis using 1(2) by (simp add: pass_returns.simps)
  next
    case (KNext c')
    then obtain s' where "ic_round s = Inl s'" "ic_at fr buf ls c' s'" using ic_round_kind [OF 1(3)] by auto
    with 1(1) [OF KNext] 1(2) KNext show ?thesis by (simp add: ic_next.simps pass_returns.simps [of fr buf c])
  next
    case KReturn
    then show ?thesis using ic_round_kind [OF 1(3)] by (auto simp: ic_next.simps)
  qed
qed

lemma pass_to_rewind:
  "\<not> pass_returns fr buf c \<Longrightarrow> ic_at fr buf ls c s \<Longrightarrow> \<exists>s'. ic_at fr buf ls ls s' \<and> ic_next s = ic_next s'"
proof (induction fr buf c arbitrary: s rule: pass_returns.induct)
  case (1 fr buf c)
  show ?case
  proof (cases "round_kind_at fr buf c")
    case KRewind
    then show ?thesis using ic_round_kind [OF 1(3)] by (auto simp: ic_next.simps [of s])
  next
    case (KNext c')
    then obtain s' where s': "ic_round s = Inl s'" "ic_at fr buf ls c' s'" using ic_round_kind [OF 1(3)] by auto
    have "\<not> pass_returns fr buf c'" using 1(2) KNext by (simp add: pass_returns.simps [of fr buf c])
    from 1(1) [OF KNext this s'(2)] s'(1) show ?thesis by (simp add: ic_next.simps [of s])
  next
    case KReturn
    then show ?thesis using 1(2) by (simp add: pass_returns.simps)
  qed
qed

definition stuck :: "ich_source \<Rightarrow> bool" where
  "stuck s \<longleftrightarrow> \<not> pass_returns (ic_framing s) (ic_mmap s) (ic_cursor s) \<and> \<not> pass_returns (ic_framing s) (ic_mmap s) (ic_loop_start s)"

lemma stuck_round:
  assumes "stuck s"
  shows "\<exists>s'. ic_round s = Inl s' \<and> stuck s'"
proof -
  let ?fr = "ic_framing s" let ?buf = "ic_mmap s" let ?ls = "ic_loop_start s" let ?c = "ic_cursor s"
  have at: "ic_at ?fr ?buf ?ls ?c s" by (simp add: ic_at_def)
  show ?thesis
  proof (cases "round_kind_at ?fr ?buf ?c")
    case KRewind
    then show ?thesis using ic_round_kind [OF at] assms by (auto simp: stuck_def ic_at_def)
  next
    case (KNext c')
    then have "\<not> pass_returns ?fr ?buf c'" using assms by (simp add: stuck_def pass_returns.simps [of ?fr ?buf ?c])
    then show ?thesis using ic_round_kind [OF at] KNext assms by (auto simp: stuck_def ic_at_def)
  next
    case KReturn
    then show ?thesis using assms by (simp add: stuck_def pass_returns.simps [of ?fr ?buf ?c])
  qed
qed

lemma stuck_diverges:
  assumes "ic_next s = Some r"
  shows "\<not> stuck s"
proof (rule ic_next.raw_induct [where P = "\<lambda>s _. \<not> stuck s" and y = r])
  fix nxt :: "ich_source \<Rightarrow> (ich_source \<times> event option) option" and s r
  assume IH: "\<And>s r. nxt s = Some r \<Longrightarrow> \<not> stuck s"
    and step: "(case ic_round s of Inl s1 \<Rightarrow> nxt s1 | Inr r \<Rightarrow> Some r) = Some r"
  show "\<not> stuck s"
  proof
    assume "stuck s"
    then obtain s' where "ic_round s = Inl s'" "stuck s'" using stuck_round by blast
    then show False using IH step by auto
  qed
qed (simp add: assms)

lemma ic_next_iff: "ic_next s \<noteq> None \<longleftrightarrow> \<not> stuck s"
proof
  assume "\<not> stuck s"
  let ?fr = "ic_framing s" let ?buf = "ic_mmap s" let ?ls = "ic_loop_start s"
  have at: "ic_at ?fr ?buf ?ls (ic_cursor s) s" by (simp add: ic_at_def)
  show "ic_next s \<noteq> None"
  proof (cases "pass_returns ?fr ?buf (ic_cursor s)")
    case True
    then show ?thesis using returns_from_pass at by blast
  next
    case False
    then obtain s' where "ic_at ?fr ?buf ?ls ?ls s'" "ic_next s = ic_next s'" using pass_to_rewind [OF _ at] by blast
    moreover have "pass_returns ?fr ?buf ?ls" using False \<open>\<not> stuck s\<close> by (simp add: stuck_def)
    ultimately show ?thesis using returns_from_pass by simp
  qed
qed (use stuck_diverges in force)

section \<open>A well-formed file\<close>

definition bin_frame :: "bytes \<Rightarrow> bytes" where
  "bin_frame m = to_be 2 (of_nat (length m) :: u16) @ m"

definition bin_file :: "bytes list \<Rightarrow> bytes" where
  "bin_file ms = concat (map bin_frame ms)"

lemma msg_ok_short: "msg_ok m \<Longrightarrow> 0 < length m \<and> length m < 65536"
  using unsigned_less [of "msg_length (m ! 0)"] length_greater_0_conv [of m] by (simp add: msg_ok_def del: length_greater_0_conv)

lemma bin_frame_length:
  assumes "msg_ok m"
  shows "unat (rd_u16 (pre @ bin_frame m @ post) (length pre)) = length m"
proof -
  have "rd_u16 (pre @ bin_frame m @ post) (length pre) = of_nat (length m)"
    by (simp add: rd_u16_def bin_frame_def slice_mid)
  then show ?thesis using msg_ok_short [OF assms] by (simp add: unat_of_nat)
qed

text \<open>
  The messages \<open>base\<close> lie before the point the source rewinds to, and the cursor stands between the messages \<open>pre\<close> already
  read since then and the messages \<open>post\<close> still to come.
\<close>

definition at_message :: "bytes list \<Rightarrow> bytes list \<Rightarrow> bytes list \<Rightarrow> ich_source \<Rightarrow> bool" where
  "at_message base pre post s \<longleftrightarrow>
     ic_at BinaryFile (bin_file (base @ pre @ post)) (length (bin_file base)) (length (bin_file (base @ pre))) s"

lemma bin_file_simps [simp]: "bin_file [] = []" "bin_file (xs @ ys) = bin_file xs @ bin_file ys" "bin_file (m # ms) = bin_frame m @ bin_file ms"
  by (simp_all add: bin_file_def)

lemma length_bin_frame [simp]: "length (bin_frame m) = 2 + length m"
  by (simp add: bin_frame_def)

lemma ic_cut_message:
  assumes "msg_ok m" "at_message base pre (m # post) s"
  shows "ic_cut s = Message m (s\<lparr>ic_cursor := length (bin_file (base @ pre @ [m]))\<rparr>)"
proof -
  let ?buf = "bin_file (base @ pre) @ bin_frame m @ bin_file post" let ?c = "length (bin_file (base @ pre))"
  have s: "ic_mmap s = ?buf" "ic_cursor s = ?c" "ic_framing s = BinaryFile"
    using assms(2) by (simp_all add: at_message_def ic_at_def)
  have sl: "slice (?c + 2) (?c + 2 + length m) ?buf = m"
    using slice_mid [of "bin_file (base @ pre) @ to_be 2 (of_nat (length m) :: u16)" "?c + 2" m "?c + 2 + length m" "bin_file post"]
    by (simp add: bin_frame_def)
  have "unat (msg_length (m ! 0)) = length m" using assms(1) by (simp add: msg_ok_def)
  with bin_frame_length [OF assms(1), of "bin_file (base @ pre)" "bin_file post"] msg_ok_short [OF assms(1)] sl
  show ?thesis by (simp add: ic_cut_def s Let_def add.assoc)
qed

lemma ic_round_message:
  assumes "msg_ok m" "at_message base pre (m # post) s"
  obtains (event) e s' where "dispatch m = Some e" "ic_round s = Inr (s', Some e)" "at_message base (pre @ [m]) post s'"
  | (ignored) s' where "dispatch m = None" "ic_round s = Inl s'" "at_message base (pre @ [m]) post s'"
  using ic_cut_message [OF assms] assms(2)
  by (cases "dispatch m") (auto simp: ic_round_def at_message_def ic_at_def ic_pace_to_def split: pace.splits option.splits intro: that)

lemma ic_next_event:
  assumes "list_all msg_ok post" "at_message base pre post s" "events_of post = e # es"
  shows "\<exists>pre' post' s'. ic_next s = Some (s', Some e) \<and> at_message base pre' post' s' \<and> pre' @ post' = pre @ post \<and> events_of post' = es"
  using assms
proof (induction post arbitrary: pre s)
  case (Cons m post)
  have "msg_ok m" using Cons.prems(1) by simp
  from this Cons.prems(2) show ?case
  proof (cases rule: ic_round_message)
    case (event e' s')
    then have "ic_next s = Some (s', Some e)" "events_of post = es" "at_message base (pre @ [m]) post s'"
      using Cons.prems(3) by (simp_all add: ic_next.simps [of s] events_of_def)
    then show ?thesis by (intro exI [of _ "pre @ [m]"] exI [of _ post] exI [of _ s']) simp
  next
    case (ignored s')
    with Cons.IH [of "pre @ [m]" s'] Cons.prems show ?thesis by (simp add: ic_next.simps [of s] events_of_def)
  qed
qed (simp add: events_of_def)

lemma ic_next_wraps:
  assumes "list_all msg_ok post" "at_message base pre post s" "events_of post = []"
  shows "\<exists>s'. ic_next s = ic_next s' \<and> at_message base [] (pre @ post) s'"
  using assms
proof (induction post arbitrary: pre s)
  case Nil
  then have "ic_round s = Inl (ic_rewind s)"
    by (simp add: at_message_def ic_at_def ic_round_def ic_cut_def)
  moreover have "at_message base [] pre (ic_rewind s)" using Nil by (simp add: at_message_def ic_at_def ic_rewind_def)
  ultimately show ?case by (auto simp: ic_next.simps [of s])
next
  case (Cons m post)
  have "msg_ok m" using Cons.prems(1) by simp
  from this Cons.prems(2) show ?case
  proof (cases rule: ic_round_message)
    case (event e' s')
    then show ?thesis using Cons.prems(3) by (simp add: events_of_def)
  next
    case (ignored s')
    with Cons.IH [of "pre @ [m]" s'] Cons.prems show ?thesis by (simp add: ic_next.simps [of s] events_of_def)
  qed
qed

section \<open>Pulling repeatedly\<close>

fun ic_pulls :: "nat \<Rightarrow> ich_source \<Rightarrow> event option list option" where
  "ic_pulls 0 s = Some []"
| "ic_pulls (Suc k) s = (case ic_next s of None \<Rightarrow> None | Some (s', r) \<Rightarrow> map_option ((#) r) (ic_pulls k s'))"

lemma ic_next_at:
  assumes "list_all msg_ok (pre @ post)" "at_message base pre post s" "j < length evs"
    "evs = events_of (pre @ post)" "events_of post = drop j evs"
  shows "\<exists>pre' post' s'. ic_next s = Some (s', Some (evs ! j)) \<and> at_message base pre' post' s' \<and>
    pre' @ post' = pre @ post \<and> events_of post' = drop (Suc j) evs"
  using ic_next_event [of post base pre s "evs ! j" "drop (Suc j) evs"] assms by (simp add: Cons_nth_drop_Suc)

lemma mod_Suc_add_left: "Suc (j mod n + i) mod n = Suc (j + i) mod (n :: nat)"
  by (metis add_Suc_right mod_add_left_eq)

lemma ic_pulls_cycle:
  assumes "list_all msg_ok (pre @ post)" "at_message base pre post s" "j \<le> length evs" "evs \<noteq> []"
    "evs = events_of (pre @ post)" "events_of post = drop j evs"
  shows "ic_pulls k s = Some (map (\<lambda>i. Some (evs ! ((j + i) mod length evs))) [0..<k])"
  using assms
proof (induction k arbitrary: pre post s j)
  case (Suc k)
  let ?n = "length evs"
  have "\<exists>pre' post' s'. ic_next s = Some (s', Some (evs ! (j mod ?n))) \<and> at_message base pre' post' s' \<and>
    pre' @ post' = pre @ post \<and> events_of post' = drop (Suc (j mod ?n)) evs"
  proof (cases "j < ?n")
    case True
    then show ?thesis using ic_next_at [OF Suc.prems(1,2) True Suc.prems(5,6)] by simp
  next
    case False
    then have "j = ?n" using Suc.prems(3) by simp
    then obtain s0 where s0: "ic_next s = ic_next s0" "at_message base [] (pre @ post) s0"
      using ic_next_wraps [of post base pre s] Suc.prems by auto
    have "\<exists>pre' post' s'. ic_next s0 = Some (s', Some (evs ! 0)) \<and> at_message base pre' post' s' \<and>
        pre' @ post' = [] @ pre @ post \<and> events_of post' = drop (Suc 0) evs"
      by (rule ic_next_at) (use s0 Suc.prems in \<open>simp_all\<close>)
    then show ?thesis using s0(1) \<open>j = ?n\<close> by simp
  qed
  then obtain pre' post' s' where n: "ic_next s = Some (s', Some (evs ! (j mod ?n)))" "at_message base pre' post' s'"
    "pre' @ post' = pre @ post" "events_of post' = drop (Suc (j mod ?n)) evs" by blast
  have "Suc (j mod ?n) \<le> ?n" using Suc.prems(4) by (simp add: Suc_leI)
  with Suc.IH [of pre' post' s' "Suc (j mod ?n)"] n Suc.prems
  have "ic_pulls k s' = Some (map (\<lambda>i. Some (evs ! ((Suc (j mod ?n) + i) mod ?n))) [0..<k])" by simp
  then have "ic_pulls (Suc k) s = Some (Some (evs ! (j mod ?n)) # map (\<lambda>i. Some (evs ! ((Suc (j mod ?n) + i) mod ?n))) [0..<k])"
    using n(1) by simp
  also have "map (\<lambda>i. Some (evs ! ((Suc (j mod ?n) + i) mod ?n))) [0..<k] = map (\<lambda>i. Some (evs ! ((j + i) mod ?n))) [Suc 0..<Suc k]"
    by (simp add: map_Suc_upt [symmetric] comp_def mod_Suc_add_left del: upt_Suc)
  finally show ?case by (simp add: upt_conv_Cons [of 0] del: upt_Suc)
qed simp

lemma bin_file_nonempty: "ms \<noteq> [] \<Longrightarrow> bin_file ms \<noteq> []"
  by (cases ms) (simp_all add: length_greater_0_conv [symmetric] del: length_greater_0_conv)

text \<open>
  The messages the source replays when it is opened with a start time: from the first message on that is long enough to
  carry a time stamp and is stamped at or after that time.
\<close>

definition early :: "u64 \<Rightarrow> bytes \<Rightarrow> bool" where
  "early t m \<longleftrightarrow> length m < 11 \<or> rd_ts48 m 5 < t"

definition from_time :: "u64 option \<Rightarrow> bytes list \<Rightarrow> bytes list" where
  "from_time start ms = (case start of None \<Rightarrow> ms | Some t \<Rightarrow> dropWhile (early t) ms)"

lemma fast_forward_window:
  assumes "list_all msg_ok post"
  shows "\<exists>sy'. fast_forward BinaryFile (bin_file (pre @ post)) t (length (bin_file pre)) sy =
    (length (bin_file (pre @ takeWhile (early t) post)), sy')"
  using assms
proof (induction post arbitrary: pre sy)
  case Nil
  then show ?case by (simp add: fast_forward.simps scan_item_at_def)
next
  case (Cons m post)
  have m: "msg_ok m" using Cons.prems(1) by simp
  let ?buf = "bin_file pre @ bin_frame m @ bin_file post" let ?c = "length (bin_file pre)"
  have sl: "slice (?c + 2) (?c + 2 + length m) ?buf = m"
    using slice_mid [of "bin_file pre @ to_be 2 (of_nat (length m) :: u16)" "?c + 2" m "?c + 2 + length m" "bin_file post"]
    by (simp add: bin_frame_def)
  have sc: "scan_item_at BinaryFile ?buf ?c = Body (?c + 2) (?c + 2 + length m)"
    using bin_frame_length [OF m, of "bin_file pre" "bin_file post"] msg_ok_short [OF m] by (simp add: scan_item_at_def Let_def)
  have ff: "fast_forward BinaryFile ?buf t ?c sy = (if early t m then fast_forward BinaryFile ?buf t (?c + 2 + length m) (harvest m sy)
      else (?c, harvest m sy))"
    unfolding fast_forward.simps [of BinaryFile ?buf t ?c] sc scan_item.case Let_def sl early_def by auto
  show ?case
  proof (cases "early t m")
    case True
    with ff Cons.IH [of "pre @ [m]" "harvest m sy"] Cons.prems show ?thesis by (simp add: add.assoc)
  next
    case False
    with ff show ?thesis by simp
  qed
qed

lemma at_message_open:
  assumes "list_all msg_ok ms" "ms \<noteq> []"
  shows "\<exists>s base. ic_open_with (Some (bin_file ms)) pc BinaryFile start = Inr s \<and> at_message base [] (from_time start ms) s"
proof (cases start)
  case None
  then show ?thesis using bin_file_nonempty [OF assms(2)]
    by (auto simp: ic_open_with_def at_message_def ic_at_def from_time_def intro!: exI [of _ "[]"])
next
  case (Some t)
  obtain sy where "fast_forward BinaryFile (bin_file ms) t 0 om_empty = (length (bin_file (takeWhile (early t) ms)), sy)"
    using fast_forward_window [OF assms(1), of "[]" t om_empty] by auto
  then obtain s where "ic_open_with (Some (bin_file ms)) pc BinaryFile start = Inr s" "ic_framing s = BinaryFile" "ic_mmap s = bin_file ms"
      "ic_cursor s = length (bin_file (takeWhile (early t) ms))" "ic_loop_start s = length (bin_file (takeWhile (early t) ms))"
    using bin_file_nonempty [OF assms(2)] by (simp add: ic_open_with_def Some)
  moreover have "takeWhile (early t) ms @ dropWhile (early t) ms = ms" by (rule takeWhile_dropWhile_id)
  ultimately show ?thesis
    by (intro exI [of _ s] exI [of _ "takeWhile (early t) ms"]) (simp add: at_message_def ic_at_def from_time_def Some del: bin_file_simps(2))
qed

text \<open>
  The file source replays a well-formed length-framed file for ever: the pulls return the events of its
  messages in file order and start again with the first event after the last one, whatever mix of ignored
  messages (directories, system events) stands between them.
\<close>

theorem ich_replays_file:
  assumes "list_all msg_ok ms" "events_of ms \<noteq> []" "ic_open (Some (bin_file ms)) pc BinaryFile = Inr s"
  shows "ic_pulls k s = Some (map (\<lambda>i. Some (events_of ms ! (i mod length (events_of ms)))) [0..<k])"
proof -
  have "ms \<noteq> []" using assms(2) by (auto simp: events_of_def)
  from at_message_open [OF assms(1) this, of pc None] assms(3) obtain base where "at_message base [] ms s"
    by (auto simp: ic_open_def from_time_def)
  from ic_pulls_cycle [of "[]" ms base s 0 "events_of ms" k, unfolded append_Nil, OF assms(1) this _ assms(2)] show ?thesis by simp
qed

theorem ich_replays_file_witness:
  "\<exists>s. ic_open (Some (bin_file [emit_order_delete [] 5 9, emit_order_delete [] 6 8])) AsFastAsPossible BinaryFile = Inr s \<and>
     ic_pulls 3 s = Some (map (\<lambda>i. Some (events_of [emit_order_delete [] 5 9, emit_order_delete [] 6 8] ! i)) [0, 1, 0])"
proof -
  let ?ms = "[emit_order_delete [] 5 9, emit_order_delete [] 6 8]"
  obtain s where s: "ic_open (Some (bin_file ?ms)) AsFastAsPossible BinaryFile = Inr s"
    using at_message_open [of ?ms AsFastAsPossible None] by (auto simp: emitted_ok ic_open_def)
  have e: "length (events_of ?ms) = 2" by (simp add: events_of_def emit_delete_dispatch)
  have "[0..<3] = [0, 1, 2 :: nat]" by (simp add: upt_rec)
  then have "ic_pulls 3 s = Some (map (\<lambda>i. Some (events_of ?ms ! i)) [0, 1, 0])"
    using ich_replays_file [of ?ms AsFastAsPossible s 3, OF _ _ s] e by (simp add: emitted_ok length_greater_0_conv [symmetric] del: length_greater_0_conv)
  with s show ?thesis by blast
qed

text \<open>
  Property C27. \<open>next\<close> returns exactly when reading on from the cursor, or from the point it rewinds to, meets a message
  that yields an event (or, in a length-framed file, the zero length that ends the session): otherwise it
  rewinds for ever. The pass itself always ends, since every round of it moves the cursor forward.
\<close>

theorem ich_next_returns_iff:
  "ic_next s \<noteq> None \<longleftrightarrow>
     pass_returns (ic_framing s) (ic_mmap s) (ic_cursor s) \<or> pass_returns (ic_framing s) (ic_mmap s) (ic_loop_start s)"
  unfolding ic_next_iff stuck_def by simp

section \<open>Starting past the last message\<close>

text \<open>
  Seeking past the last message of a well-formed file leaves the rewind point at the end of the file, so
  that \<open>next\<close> never returns, although the file holds events.
\<close>

theorem ich_seek_past_end_hangs:
  assumes "list_all msg_ok ms" "ms \<noteq> []" "\<forall>m \<in> set ms. length m < 11 \<or> rd_ts48 m 5 < t"
  shows "\<exists>s. ic_open_with (Some (bin_file ms)) pc BinaryFile (Some t) = Inr s \<and> ic_next s = None"
proof -
  have ne: "bin_file ms \<noteq> []" using assms(2) by (rule bin_file_nonempty)
  obtain sy' where ff: "fast_forward BinaryFile (bin_file ms) t 0 om_empty = (length (bin_file ms), sy')"
    using fast_forward_window [OF assms(1), of "[]" t om_empty] takeWhile_eq_all_conv [of "early t" ms, THEN iffD2] assms(3)
    by (auto simp: early_def)
  have "\<not> pass_returns BinaryFile (bin_file ms) (length (bin_file ms))"
    by (simp add: pass_returns.simps round_kind_at_def)
  then have "\<And>s. ic_framing s = BinaryFile \<Longrightarrow> ic_mmap s = bin_file ms \<Longrightarrow> ic_cursor s = length (bin_file ms) \<Longrightarrow>
      ic_loop_start s = length (bin_file ms) \<Longrightarrow> ic_next s = None"
    by (metis ic_next_iff stuck_def)
  then show ?thesis using ne by (simp add: ic_open_with_def ff)
qed

theorem ich_seek_past_end_hangs_witness:
  "\<exists>s. ic_open_with (Some (bin_file [emit_order_delete [] 5 9])) AsFastAsPossible BinaryFile (Some 6) = Inr s \<and> ic_next s = None"
proof -
  have "rd_ts48 (emit_order_delete [] 5 9) 5 = 5" by code_simp
  then show ?thesis using ich_seek_past_end_hangs [of "[emit_order_delete [] 5 9]" 6 AsFastAsPossible] by (simp add: emitted_ok)
qed

end
