(* ===== verification/FL_EngineMain.thy ===== *)
theory FL_EngineMain
  imports FL_EngineProperties FL_IchProperties FL_Synthetic FL_Decimal
begin

text \<open>
  The engine's process (\<open>engine/src/main.rs\<close>) from the parsed command line on: choice and opening of the source, resolution of
  the symbol, configuration, resuming and the run over the chosen source (\<open>engine/src/source.rs\<close>). The file system, the
  outcome of binding the server's socket and of starting its thread, the clock readings and the iteration order of the hash map
  of symbols are parameters. Command line and tickers are ASCII.
\<close>

section \<open>Command line\<close>

record cli =
  ci_source :: string
  ci_source_arg :: string
  ci_seed :: u64
  ci_ich_pace :: string
  ci_ich_framing :: string
  ci_ich_skip_to_secs :: u32
  ci_listen :: string
  ci_wire :: string
  ci_tick_hz :: u32
  ci_book_hz :: u32
  ci_capacity :: nat
  ci_symbol :: "string option"
  ci_resume_from :: "string option"
  ci_snapshot_every_secs :: "u64 option"
  ci_snapshot_out :: "string option"

definition cli_default :: cli where
  "cli_default = \<lparr>ci_source = ''synthetic'', ci_source_arg = [], ci_seed = 0xC0FFEE, ci_ich_pace = ''max'', ci_ich_framing = ''binaryfile'',
     ci_ich_skip_to_secs = 34200, ci_listen = ''127.0.0.1:9090'', ci_wire = ''bincode'', ci_tick_hz = 50, ci_book_hz = 10,
     ci_capacity = 8192, ci_symbol = None, ci_resume_from = None, ci_snapshot_every_secs = None, ci_snapshot_out = None\<rparr>"

datatype main_error = MissingSourceArg | InvalidPace string | InvalidFraming string | IchOpen ich_open_error
  | TickerNotFound string | UnknownSource string | BindFailed | SpawnFailed | SnapshotNeedsOut
  | ResumeRead snapshot_io_error | ResumeBook book_snapshot_error

text \<open>
  \<open>str::parse::<f64>\<close>: a sign, then \<open>inf\<close>, \<open>infinity\<close> or \<open>nan\<close> in any case, or digits with an optional point and
  exponent; the value is rounded.
\<close>

definition is_digit :: "char \<Rightarrow> bool" where
  "is_digit c \<longleftrightarrow> digit_value c \<noteq> None"

definition digits_nat :: "string \<Rightarrow> nat" where
  "digits_nat ds = foldl (\<lambda>a c. a * 10 + the (digit_value c)) 0 ds"

definition lower_char :: "char \<Rightarrow> char" where
  "lower_char c = (let n = of_char c :: nat in if 65 \<le> n \<and> n \<le> 90 then char_of (n + 32) else c)"

definition split_sign :: "string \<Rightarrow> bool \<times> string" where
  "split_sign s =
     (case s of c # cs \<Rightarrow> if c = CHR ''-'' then (True, cs) else if c = CHR ''+'' then (False, cs) else (False, s)
      | [] \<Rightarrow> (False, []))"

definition parse_exponent :: "string \<Rightarrow> int option" where
  "parse_exponent s =
     (case s of
        [] \<Rightarrow> Some 0
      | c # cs \<Rightarrow>
          if lower_char c \<noteq> CHR ''e'' then None
          else let (neg, ds) = split_sign cs
               in if ds = [] \<or> \<not> list_all is_digit ds then None
                  else Some (if neg then - int (digits_nat ds) else int (digits_nat ds)))"

definition parse_number :: "string \<Rightarrow> rat option" where
  "parse_number s =
     (let ip = takeWhile is_digit s;
          rest = dropWhile is_digit s;
          (fp, rest) = (case rest of c # cs \<Rightarrow> if c = CHR ''.'' then (takeWhile is_digit cs, dropWhile is_digit cs) else ([], rest)
                        | [] \<Rightarrow> ([], []))
      in if ip = [] \<and> fp = [] then None
         else case parse_exponent rest of
           None \<Rightarrow> None
         | Some e \<Rightarrow>
             let k = e - int (length fp); m = of_nat (digits_nat (ip @ fp)) :: rat
             in Some (if 0 \<le> k then m * 10 ^ nat k else m / 10 ^ nat (- k)))"

definition parse_f64 :: "(rat \<Rightarrow> f64) \<Rightarrow> string \<Rightarrow> f64 option" where
  "parse_f64 rnd s =
     (let (neg, t) = split_sign s; w = map lower_char t
      in if w = ''nan'' then Some NaN
         else if w = ''inf'' \<or> w = ''infinity'' then Some (if neg then NInf else PInf)
         else map_option (\<lambda>q. rnd (if neg then - q else q)) (parse_number t))"

definition main_pace :: "(rat \<Rightarrow> f64) \<Rightarrow> string \<Rightarrow> main_error + pace" where
  "main_pace rnd s =
     (if s = ''max'' then Inr AsFastAsPossible
      else case parse_f64 rnd s of
        Some x \<Rightarrow> if f64_lt (Fin 0) x then Inr (Realtime x) else Inl (InvalidPace s)
      | None \<Rightarrow> Inl (InvalidPace s))"

definition main_framing :: "string \<Rightarrow> main_error + framing" where
  "main_framing s =
     (if s = ''binaryfile'' \<or> s = ''binary'' \<or> s = ''framed'' then Inr BinaryFile
      else if s = ''unframed'' \<or> s = ''raw'' then Inr Unframed
      else Inl (InvalidFraming s))"

section \<open>Symbols\<close>

definition ascii_space :: "u8 \<Rightarrow> bool" where
  "ascii_space b \<longleftrightarrow> b = 32 \<or> 9 \<le> b \<and> b \<le> 13"

definition trim_ascii :: "bytes \<Rightarrow> bytes" where
  "trim_ascii bs = rev (dropWhile ascii_space (rev (dropWhile ascii_space bs)))"

definition upper_byte :: "u8 \<Rightarrow> u8" where
  "upper_byte b = (if 97 \<le> b \<and> b \<le> 122 then b - 32 else b)"

definition lower_byte :: "u8 \<Rightarrow> u8" where
  "lower_byte b = (if 65 \<le> b \<and> b \<le> 90 then b + 32 else b)"

definition eq_ignore_case :: "bytes \<Rightarrow> bytes \<Rightarrow> bool" where
  "eq_ignore_case xs ys \<longleftrightarrow> map lower_byte xs = map lower_byte ys"

definition ic_locate_of :: "((u32, bytes) omap \<Rightarrow> (u32 \<times> bytes) list) \<Rightarrow> bytes \<Rightarrow> ich_source \<Rightarrow> u32 option" where
  "ic_locate_of it ticker s =
     (let want = map upper_byte (trim_ascii ticker)
      in map_option fst (find (\<lambda>(_, sym). eq_ignore_case (trim_ascii sym) want) (it (ic_symbols s))))"

section \<open>Sources\<close>

datatype 'r source = SrcSynthetic "'r synthetic" | SrcIch ich_source

fun src_name :: "'r source \<Rightarrow> string" where
  "src_name (SrcSynthetic _) = ''synthetic''"
| "src_name (SrcIch _) = ''ich''"

fun src_is_live :: "'r source \<Rightarrow> bool" where
  "src_is_live (SrcSynthetic _) = True"
| "src_is_live (SrcIch s) = ic_is_live s"

fun src_symbol_of :: "'r source \<Rightarrow> u32 \<Rightarrow> bytes option" where
  "src_symbol_of (SrcSynthetic _) iid = None"
| "src_symbol_of (SrcIch s) iid = ic_symbol_of iid s"

text \<open>\<open>None\<close> is a call that does not return.\<close>

fun src_next :: "'r std_rng \<Rightarrow> u64 \<Rightarrow> 'r source \<Rightarrow> ('r source \<times> event option) option" where
  "src_next R now (SrcSynthetic s) = map_option (\<lambda>(s, e). (SrcSynthetic s, Some e)) (sy_next R now s)"
| "src_next R now (SrcIch s) = map_option (\<lambda>(s, r). (SrcIch s, r)) (ic_next s)"

text \<open>
  The answers of a source over some rounds of the engine: a round comes with the reading of the source's clock and with
  everything else the engine reads.
\<close>

fun src_pulls :: "'r std_rng \<Rightarrow> (u64 \<times> engine_input) list \<Rightarrow> 'r source \<Rightarrow> pull list option" where
  "src_pulls R [] src = Some []"
| "src_pulls R ((now, i) # rounds) src =
     (case src_next R now src of
        None \<Rightarrow> None
      | Some (src', Some ev) \<Rightarrow>
          map_option ((#) (Pulled (i\<lparr>ei_event := ev, ei_symbol_of := src_symbol_of src'\<rparr>))) (src_pulls R rounds src')
      | Some (src', None) \<Rightarrow>
          if src_is_live src' then map_option ((#) NotYet) (src_pulls R rounds src') else Some [Exhausted])"

section \<open>The process\<close>

definition resolve_symbol :: "((u32, bytes) omap \<Rightarrow> (u32 \<times> bytes) list) \<Rightarrow> string \<Rightarrow> ich_source \<Rightarrow> u32 option" where
  "resolve_symbol it req s = (case parse_u32 req of Some iid \<Rightarrow> Some iid | None \<Rightarrow> ic_locate_of it (map of_char req) s)"

definition main_source :: "(rat \<Rightarrow> f64) \<Rightarrow> 'r std_rng \<Rightarrow> ((u32, bytes) omap \<Rightarrow> (u32 \<times> bytes) list) \<Rightarrow> string file_system \<Rightarrow> cli \<Rightarrow>
    main_error + 'r source \<times> u32 option" where
  "main_source rnd R it files c =
     (if ci_source c = ''synthetic'' then
        Inr (SrcSynthetic (sy_new R (ci_seed c)), case ci_symbol c of None \<Rightarrow> None | Some s \<Rightarrow> parse_u32 s)
      else if ci_source c = ''ich'' then
        if ci_source_arg c = [] then Inl MissingSourceArg
        else bind_res (main_pace rnd (ci_ich_pace c)) (\<lambda>pc. bind_res (main_framing (ci_ich_framing c)) (\<lambda>fr.
          let start_at_ns = (if 0 < ci_ich_skip_to_secs c then Some (ucast (ci_ich_skip_to_secs c) * 1000000000) else None)
          in case ic_open_with (files (ci_source_arg c)) pc fr start_at_ns of
               Inl e \<Rightarrow> Inl (IchOpen e)
             | Inr s \<Rightarrow>
                 (case ci_symbol c of
                    None \<Rightarrow> Inr (SrcIch s, None)
                  | Some req \<Rightarrow>
                      (case resolve_symbol it req s of
                         Some iid \<Rightarrow> Inr (SrcIch s, Some iid)
                       | None \<Rightarrow> Inl (TickerNotFound req)))))
      else Inl (UnknownSource (ci_source c)))"

definition main_config :: "cli \<Rightarrow> u32 option \<Rightarrow> engine_config" where
  "main_config c tracked = engine_config_default\<lparr>ec_tick_publish_hz := ci_tick_hz c, ec_book_publish_hz := ci_book_hz c,
     ec_track_instrument := tracked, ec_snapshot_every := map_option (\<lambda>secs. int (unat secs) * 10 ^ 9) (ci_snapshot_every_secs c),
     ec_snapshot_out := ci_snapshot_out c\<rparr>"

definition main_engine :: "platform \<Rightarrow> int \<times> int \<times> int \<Rightarrow> tsc_clock \<Rightarrow> string file_system \<Rightarrow> cli \<Rightarrow> u32 option \<Rightarrow>
    main_error + engine" where
  "main_engine pf at0 tsc files c tracked =
     (if ci_snapshot_every_secs c \<noteq> None \<and> ci_snapshot_out c = None then Inl SnapshotNeedsOut
      else let (b0, t0, w0) = at0; cfg = main_config c tracked
           in case ci_resume_from c of
                None \<Rightarrow> Inr (en_new pf b0 t0 w0 tsc cfg)
              | Some path \<Rightarrow>
                  (case sn_read_from_path path files of
                     Inl e \<Rightarrow> Inl (ResumeRead e)
                   | Inr sn \<Rightarrow> (case en_with_snapshot pf b0 t0 w0 tsc cfg sn of Inl e \<Rightarrow> Inl (ResumeBook e) | Inr e \<Rightarrow> Inr e)))"

record host =
  ho_bind_ok :: bool
  ho_spawn_ok :: bool
  ho_created :: "int \<times> int \<times> int"
  ho_tsc :: tsc_clock
  ho_starts :: "int \<times> int \<times> int \<times> int"
  ho_rounds :: "(u64 \<times> engine_input) list"

text \<open>\<open>main\<close>, observed over the rounds of the host; \<open>Inr None\<close> is a panic or a pull that does not return.\<close>

definition engine_main :: "platform \<Rightarrow> 'r std_rng \<Rightarrow> ((u32, bytes) omap \<Rightarrow> (u32 \<times> bytes) list) \<Rightarrow> (string \<Rightarrow> string) \<Rightarrow> host \<Rightarrow>
    string file_system \<Rightarrow> cli \<Rightarrow> main_error + (loop_state \<times> telemetry_frame list) option" where
  "engine_main pf R it tmp_of h files c =
     bind_res (main_source (pf_rnd pf) R it files c) (\<lambda>(src, tracked).
       if \<not> ho_bind_ok h then Inl BindFailed
       else if \<not> ho_spawn_ok h then Inl SpawnFailed
       else bind_res (main_engine pf (ho_created h) (ho_tsc h) files c tracked) (\<lambda>e.
         case src_pulls R (ho_rounds h) src of
           None \<Rightarrow> Inr None
         | Some pulls \<Rightarrow> Inr (en_run pf tmp_of (src_name src) (src_is_live src) (src_symbol_of src) (ho_starts h) pulls files e)))"

text \<open>
  The process as a whole: a run on a file with a pinned symbol replays that symbol, and the resolution of tickers, which
  depends on the fast-forward scan.
\<close>

section \<open>Answers of the file source\<close>

lemma src_pulls_ich:
  assumes "ic_pulls (length rounds) s = Some (map Some evs)"
  shows "\<exists>ps. src_pulls R rounds (SrcIch s) = Some ps \<and> pulled ps = evs"
  using assms
proof (induction rounds arbitrary: s evs)
  case (Cons r rounds)
  obtain now i where r: "r = (now, i)" by (cases r)
  obtain s' x rs where n: "ic_next s = Some (s', x)" "ic_pulls (length rounds) s' = Some rs" "x # rs = map Some evs"
    using Cons.prems by (auto split: option.splits)
  obtain ev evs' where e: "evs = ev # evs'" "x = Some ev" "rs = map Some evs'" using n(3) by (cases evs) auto
  obtain ps where "src_pulls R rounds (SrcIch s') = Some ps" "pulled ps = evs'" using Cons.IH n(2) e(3) by blast
  then show ?case by (simp add: r n(1) e(1,2))
qed simp

section \<open>Symbols\<close>

lemma lower_upper_byte: "lower_byte (upper_byte b) = lower_byte b"
proof (cases "97 \<le> b \<and> b \<le> 122")
  case True
  then have "97 \<le> unat b" "unat b \<le> 122" by (simp_all add: word_le_nat_alt)
  then have "(32 :: u8) \<le> b" by (simp add: word_le_nat_alt)
  then have "unat (b - 32) = unat b - 32" by (simp add: unat_sub)
  then show ?thesis using True \<open>97 \<le> unat b\<close> \<open>unat b \<le> 122\<close>
    by (simp add: upper_byte_def lower_byte_def word_le_nat_alt) linarith
qed (auto simp: upper_byte_def)

lemma eq_ignore_case_upper: "eq_ignore_case xs (map upper_byte ys) \<longleftrightarrow> eq_ignore_case xs ys"
  by (simp add: eq_ignore_case_def comp_def lower_upper_byte)

text \<open>
  What \<open>locate_of\<close> finds: whatever the iteration order, a locate whose ticker is the requested one up to case and
  padding, and none exactly if the directory has no such ticker.
\<close>

lemma locate_of_sound:
  assumes "set (it (ic_symbols s)) = set (om_entries (ic_symbols s))" and "ic_locate_of it ticker s = Some iid"
  shows "\<exists>sym. ic_symbol_of iid s = Some sym \<and> eq_ignore_case (trim_ascii sym) (trim_ascii ticker)"
proof -
  obtain sym where "find (\<lambda>(_, sym). eq_ignore_case (trim_ascii sym) (map upper_byte (trim_ascii ticker))) (it (ic_symbols s)) = Some (iid, sym)"
    using assms(2) by (auto simp: ic_locate_of_def Let_def)
  then have "(iid, sym) \<in> set (it (ic_symbols s))" "eq_ignore_case (trim_ascii sym) (trim_ascii ticker)"
    by (auto simp: find_Some_iff eq_ignore_case_upper in_set_conv_nth)
  then show ?thesis using assms(1) by (auto simp: ic_symbol_of_def om_lookup_Some_iff)
qed

lemma locate_of_None:
  assumes "set (it (ic_symbols s)) = set (om_entries (ic_symbols s))"
  shows "ic_locate_of it ticker s = None \<longleftrightarrow>
    (\<forall>iid sym. ic_symbol_of iid s = Some sym \<longrightarrow> \<not> eq_ignore_case (trim_ascii sym) (trim_ascii ticker))"
  using assms by (auto simp: ic_locate_of_def Let_def find_None_iff eq_ignore_case_upper ic_symbol_of_def om_lookup_Some_iff)

text \<open>
  A ticker can only be resolved after a fast-forward: with \<open>--ich-skip-to-secs 0\<close> the symbol directory is empty when
  \<open>--symbol\<close> is looked up, so that the process refuses every ticker, in any file that opens, even one that starts with
  the directory.
\<close>

theorem ticker_needs_fast_forward:
  assumes "ci_source c = ''ich''" and "ci_source_arg c \<noteq> []" and "main_pace (pf_rnd pf) (ci_ich_pace c) = Inr pc"
    and "main_framing (ci_ich_framing c) = Inr fr" and "files (ci_source_arg c) = Some bytes" and "bytes \<noteq> []"
    and "ci_ich_skip_to_secs c = 0" and "ci_symbol c = Some req" and "parse_u32 req = None" and "it om_empty = []"
  shows "engine_main pf R it tmp_of h files c = Inl (TickerNotFound req)"
  using assms by (simp add: engine_main_def main_source_def ic_open_with_def resolve_symbol_def ic_locate_of_def)

section \<open>The pinned file replay\<close>

lemma en_run_returns:
  assumes "period_ns (pf_rnd pf) (ec_tick_publish_hz (en_cfg e)) \<noteq> None" "period_ns (pf_rnd pf) (ec_book_publish_hz (en_cfg e)) \<noteq> None"
  obtains s out where "en_run pf tmp_of nm lv sy starts ps files e = Some (s, out)"
proof -
  obtain p q where "period_ns (pf_rnd pf) (ec_tick_publish_hz (en_cfg e)) = Some p" "period_ns (pf_rnd pf) (ec_book_publish_hz (en_cfg e)) = Some q"
    using assms by blast
  then show ?thesis using that by (cases "lp_run pf tmp_of nm lv ps (lp_init starts p q files e)") (simp add: en_run_def Let_def)
qed

text \<open>The start time that \<open>--ich-skip-to-secs\<close> asks for.\<close>

definition skip_target :: "cli \<Rightarrow> u64 option" where
  "skip_target c = (if 0 < ci_ich_skip_to_secs c then Some (ucast (ci_ich_skip_to_secs c) * 1000000000) else None)"

text \<open>
  Property C39. The whole process on a file: started on a well-formed length-framed ITCH file (\<open>--ich-framing\<close> for that
  format) with a numeric \<open>--symbol\<close>, not resuming from a snapshot, with a valid pace and publishing rates and with the
  server up, it runs as long as it is observed. Its events are those of the file from the first message stamped at
  or after \<open>--ich-skip-to-secs\<close> on (from the first message for 0) to the end of the file, and from there again;
  that part of the file must yield at least one event. Its book is exactly the replay of the symbol's events among them, its
  sequence number counts these and it stays on the symbol.
\<close>

theorem main_replays_pinned_file:
  fixes R :: "'r std_rng"
  assumes dump: "list_all msg_ok ms" "events_of (from_time (skip_target c) ms) \<noteq> []" "files (ci_source_arg c) = Some (bin_file ms)"
    and src: "ci_source c = ''ich''" "ci_source_arg c \<noteq> []" "main_pace (pf_rnd pf) (ci_ich_pace c) = Inr pc"
      "main_framing (ci_ich_framing c) = Inr BinaryFile"
    and pin: "ci_symbol c = Some req" "parse_u32 req = Some iid"
    and cfg: "ci_resume_from c = None" "ci_snapshot_every_secs c = None \<or> ci_snapshot_out c \<noteq> None"
      "period_ns (pf_rnd pf) (ci_tick_hz c) \<noteq> None" "period_ns (pf_rnd pf) (ci_book_hz c) \<noteq> None"
    and host: "ho_bind_ok h" "ho_spawn_ok h"
  shows "\<exists>s out. engine_main pf R it tmp_of h files c = Inr (Some (s, out)) \<and>
    (let day = events_of (from_time (skip_target c) ms);
         evs = map (\<lambda>i. day ! (i mod length day)) [0..<length (ho_rounds h)];
         es = filter (\<lambda>ev. ev_instrument_id ev = iid) evs
     in en_book (lp_engine s) = hb_run book_levels (hb_new book_levels 1) es \<and>
        en_seq (lp_engine s) = of_nat (length es) \<and> en_tracked (lp_engine s) = Some iid)"
proof -
  define ws where "ws = from_time (skip_target c) ms"
  let ?evs = "map (\<lambda>i. events_of ws ! (i mod length (events_of ws))) [0..<length (ho_rounds h)]"
  let ?cfg = "main_config c (Some iid)"
  have ne: "events_of ws \<noteq> []" using dump(2) by (simp add: ws_def)
  then have "ms \<noteq> []" by (auto simp: ws_def events_of_def from_time_def split: option.splits)
  then obtain s0 base where s0: "ic_open_with (Some (bin_file ms)) pc BinaryFile (skip_target c) = Inr s0" "at_message base [] ws s0"
    using at_message_open [OF dump(1)] unfolding ws_def by blast
  have "list_all msg_ok ws"
    using dump(1) by (auto simp: ws_def from_time_def list_all_iff dest: set_dropWhileD split: option.splits)
  then have "ic_pulls (length (ho_rounds h)) s0 = Some (map Some ?evs)"
    using ic_pulls_cycle [of "[]" ws base s0 0 "events_of ws", unfolded append_Nil, OF _ s0(2) _ ne] by (simp add: comp_def)
  then obtain ps where ps: "src_pulls R (ho_rounds h) (SrcIch s0) = Some ps" "pulled ps = ?evs"
    using src_pulls_ich by blast
  obtain b0 t0 w0 where at0: "ho_created h = (b0, t0, w0)" by (cases "ho_created h")
  let ?e = "en_new pf b0 t0 w0 (ho_tsc h) ?cfg"
  have e: "en_cfg ?e = ?cfg" "en_tracked ?e = Some iid" "en_book ?e = hb_new book_levels 1" "en_seq ?e = 0"
    by (simp_all add: en_new_def main_config_def engine_config_default_def)
  have hz: "ec_tick_publish_hz ?cfg = ci_tick_hz c" "ec_book_publish_hz ?cfg = ci_book_hz c" "ec_track_instrument ?cfg = Some iid"
    by (simp_all add: main_config_def)
  obtain s out where run: "en_run pf tmp_of ''ich'' True (src_symbol_of (SrcIch s0 :: 'r source)) (ho_starts h) ps files ?e = Some (s, out)"
    using cfg(3,4) by (rule en_run_returns [of pf ?e, unfolded e(1) hz(1,2)])
  obtain l0 o0 where l: "lp_engine l0 = ?e" "lp_run pf tmp_of ''ich'' True ps l0 = (s, o0)" using en_run_loop [OF run] by blast
  have "main_source (pf_rnd pf) R it files c = Inr (SrcIch s0, Some iid)"
    using src dump(3) pin s0(1) unfolding skip_target_def by (simp add: main_source_def resolve_symbol_def Let_def)
  moreover have "main_engine pf (ho_created h) (ho_tsc h) files c (Some iid) = Inr ?e"
    using cfg(1,2) by (auto simp: main_engine_def at0 Let_def)
  ultimately have "engine_main pf R it tmp_of h files c = Inr (Some (s, out))"
    using host ps(1) run by (simp add: engine_main_def ic_is_live_def)
  moreover have "en_book (lp_engine s) = hb_run book_levels (hb_new book_levels 1) (filter (\<lambda>ev. ev_instrument_id ev = iid) ?evs) \<and>
      en_seq (lp_engine s) = of_nat (length (filter (\<lambda>ev. ev_instrument_id ev = iid) ?evs)) \<and> en_tracked (lp_engine s) = Some iid"
    using lp_run_pinned [of l0 iid pf tmp_of "''ich''" True ps s o0] l e hz(3) ps(2) by (simp add: en_core_def Let_def)
  ultimately show ?thesis unfolding ws_def [symmetric] by (simp add: Let_def)
qed

definition sample_dump :: "bytes list" where
  "sample_dump = [emit_order_delete [] 5 9, emit_order_delete [] 34200000000000 8]"

definition sample_cli :: cli where
  "sample_cli = cli_default\<lparr>ci_source := ''ich'', ci_source_arg := ''day.itch'', ci_ich_pace := ''10.5'', ci_symbol := Some ''0''\<rparr>"

definition sample_host :: host where
  "sample_host = \<lparr>ho_bind_ok = True, ho_spawn_ok = True, ho_created = (0, 0, 0), ho_tsc = sample_clock, ho_starts = (0, 0, 0, 0),
     ho_rounds = replicate 3 (0, sample_input (sample_order 1 1))\<rparr>"

lemma sample_pace: "main_pace Fin ''10.5'' = Inr (Realtime (Fin (21 / 2)))"
  by code_simp

lemma sample_window: "from_time (skip_target sample_cli) sample_dump = [emit_order_delete [] 34200000000000 8]"
proof -
  have "rd_ts48 (emit_order_delete [] ts oid) 5 = take_bit 48 ts" for ts oid
    using emit_header_fields [of "0x44" ts oid "[]"] by (simp add: emit_order_delete_def)
  moreover have "length (emit_order_delete [] ts oid) = 19" for ts oid by (simp add: emit_order_delete_def emit_header_def)
  ultimately show ?thesis
    by (simp add: from_time_def skip_target_def sample_cli_def cli_default_def sample_dump_def early_def)
qed

theorem main_replays_pinned_file_witness:
  "\<exists>s out. engine_main sample_platform \<lparr>seed_from_u64 = (\<lambda>_. ()), gen_range = (\<lambda>_ _ r. (r, 0)), gen_bool = (\<lambda>_ r. (r, True))\<rparr>
       om_entries id sample_host [''day.itch'' \<mapsto> bin_file sample_dump] sample_cli = Inr (Some (s, out)) \<and>
     en_tracked (lp_engine s) = Some 0 \<and> en_seq (lp_engine s) = 3"
proof -
  have dump: "list_all msg_ok sample_dump" "length (events_of (from_time (skip_target sample_cli) sample_dump)) = 1"
    "events_of (from_time (skip_target sample_cli) sample_dump) \<noteq> []"
    unfolding sample_window by (simp_all add: sample_dump_def emitted_ok events_of_def emit_delete_dispatch)
  have iid0: "ev_instrument_id (events_of (from_time (skip_target sample_cli) sample_dump) ! 0) = 0"
    unfolding sample_window by (simp add: events_of_def emit_delete_dispatch event_zeroed_def)
  have "parse_u32 ''0'' = Some 0" by (simp add: parse_u32_def parse_uint_def digit_value_def)
  moreover have "period_ns Fin 50 \<noteq> None" "period_ns Fin 10 \<noteq> None" by (simp_all add: period_ns_def)
  moreover note sample_pace
  ultimately have "\<exists>s out. engine_main sample_platform \<lparr>seed_from_u64 = (\<lambda>_. ()), gen_range = (\<lambda>_ _ r. (r, 0)), gen_bool = (\<lambda>_ r. (r, True))\<rparr>
       om_entries id sample_host [''day.itch'' \<mapsto> bin_file sample_dump] sample_cli = Inr (Some (s, out)) \<and>
    (let day = events_of (from_time (skip_target sample_cli) sample_dump);
         evs = map (\<lambda>i. day ! (i mod length day)) [0..<length (ho_rounds sample_host)];
         es = filter (\<lambda>ev. ev_instrument_id ev = 0) evs
     in en_book (lp_engine s) = hb_run book_levels (hb_new book_levels 1) es \<and>
        en_seq (lp_engine s) = of_nat (length es) \<and> en_tracked (lp_engine s) = Some 0)"
    by (intro main_replays_pinned_file [OF dump(1,3)])
      (simp_all add: sample_cli_def cli_default_def sample_host_def sample_platform_def main_framing_def)
  moreover have "length (ho_rounds sample_host) = 3" by (simp add: sample_host_def)
  ultimately show ?thesis using dump(2) by (auto simp: Let_def comp_def iid0)
qed

end
