(* ===== verification/FL_Replay.thy ===== *)
theory FL_Replay
  imports FL_Codec FL_BookProperties
begin

text \<open>
  Deterministic replay: the hash-chained state machine (\<open>core/src/state.rs\<close>), the replay engine that
  drives it (\<open>replay/src/engine.rs\<close>), the binary event log (\<open>replay/src/log.rs\<close>), the running hasher
  and the cross-language verifier (\<open>verify/src\<close>). XXH3 is the parameter \<open>xxh\<close>. The outcome of an
  operating-system call is an argument of the operation that makes it: for a write, \<open>None\<close> is success
  and \<open>Some k\<close> an error after \<open>k\<close> bytes.
\<close>

section \<open>The state machine\<close>

datatype state_error = StateGap u64 u64

record replay_state =
  rs_book :: order_book
  rs_last_seq :: "u64 option"
  rs_state_hash :: u64

definition rs_new :: "u32 \<Rightarrow> replay_state" where
  "rs_new iid = \<lparr>rs_book = ob_new iid, rs_last_seq = None, rs_state_hash = 0\<rparr>"

definition chain_block :: "u64 \<Rightarrow> u64 \<Rightarrow> event \<Rightarrow> bytes" where
  "chain_block h seq e = to_le 8 h @ to_le 8 seq @ event_bytes e"

definition rs_process :: "(bytes \<Rightarrow> u64) \<Rightarrow> replay_state \<Rightarrow> sequenced_event \<Rightarrow>
    replay_state \<times> (state_error + unit)" where
  "rs_process xxh st se =
     (case rs_last_seq st of
        Some prev \<Rightarrow>
          if se_seq se \<noteq> prev + 1 then (st, Inl (StateGap (prev + 1) (se_seq se)))
          else
            (st\<lparr>rs_book := fst (ob_apply (rs_book st) (se_event se)), rs_last_seq := Some (se_seq se),
                rs_state_hash := xxh (chain_block (rs_state_hash st) (se_seq se) (se_event se))\<rparr>, Inr ())
      | None \<Rightarrow>
            (st\<lparr>rs_book := fst (ob_apply (rs_book st) (se_event se)), rs_last_seq := Some (se_seq se),
                rs_state_hash := xxh (chain_block (rs_state_hash st) (se_seq se) (se_event se))\<rparr>, Inr ()))"

definition rs_hash :: "replay_state \<Rightarrow> u64" where
  "rs_hash st = rs_state_hash st"

section \<open>The replay engine\<close>

datatype replay_error =
    SequenceGap u64 u64 u64
  | CorruptedLog nat nat
  | Io string

record replay_result =
  rr_events_processed :: u64
  rr_final_hash :: u64
  rr_last_seq :: u64

record replay_engine =
  re_state :: replay_state
  re_events_processed :: u64

definition re_new :: "u32 \<Rightarrow> replay_engine" where
  "re_new iid = \<lparr>re_state = rs_new iid, re_events_processed = 0\<rparr>"

fun replay_loop :: "(bytes \<Rightarrow> u64) \<Rightarrow> replay_engine \<Rightarrow> sequenced_event list \<Rightarrow>
    replay_engine \<times> (replay_error + unit)" where
  "replay_loop xxh re [] = (re, Inr ())"
| "replay_loop xxh re (se # ses) =
     (case rs_process xxh (re_state re) se of
        (st, Inl (StateGap expected got)) \<Rightarrow>
          (re\<lparr>re_state := st\<rparr>, Inl (SequenceGap expected got (re_events_processed re)))
      | (st, Inr _) \<Rightarrow>
          replay_loop xxh (re\<lparr>re_state := st, re_events_processed := re_events_processed re + 1\<rparr>) ses)"

definition replay_finish :: "replay_engine \<times> (replay_error + unit) \<Rightarrow>
    replay_engine \<times> (replay_error + replay_result)" where
  "replay_finish r =
     (fst r, bind_res (snd r) (\<lambda>_. Inr \<lparr>rr_events_processed = re_events_processed (fst r),
        rr_final_hash = rs_hash (re_state (fst r)),
        rr_last_seq = (case rs_last_seq (re_state (fst r)) of None \<Rightarrow> 0 | Some s \<Rightarrow> s)\<rparr>))"

definition re_replay :: "(bytes \<Rightarrow> u64) \<Rightarrow> replay_engine \<Rightarrow> sequenced_event list \<Rightarrow>
    replay_engine \<times> (replay_error + replay_result)" where
  "re_replay xxh re ses = replay_finish (replay_loop xxh re ses)"

definition number_events :: "event list \<Rightarrow> sequenced_event list" where
  "number_events es = map (\<lambda>(i, e). \<lparr>se_seq = of_nat i + 1, se_channel_id = 0, se_event = e\<rparr>)
     (zip [0..<length es] es)"

definition re_replay_from_file :: "(bytes \<Rightarrow> u64) \<Rightarrow> replay_engine \<Rightarrow> string + bytes \<Rightarrow>
    replay_engine \<times> (replay_error + replay_result)" where
  "re_replay_from_file xxh re file =
     (case file of
        Inl err \<Rightarrow> (re, Inl (Io err))
      | Inr mmap \<Rightarrow>
          if length mmap mod 40 \<noteq> 0 then (re, Inl (CorruptedLog (length mmap) 40))
          else re_replay xxh re
                 (number_events (read_seq event_of_bytes 40 (length mmap div 40) mmap 0)))"

section \<open>The event log\<close>

record event_log =
  el_file :: bytes
  el_count :: u64

definition log_create :: event_log where
  "log_create = \<lparr>el_file = [], el_count = 0\<rparr>"

definition log_append :: "bytes \<Rightarrow> event_log" where
  "log_append file = \<lparr>el_file = file, el_count = of_nat (length file) div 40\<rparr>"

definition log_write_all :: "nat option \<Rightarrow> bytes \<Rightarrow> u64 \<Rightarrow> event_log \<Rightarrow> event_log \<times> bool" where
  "log_write_all os bs n l =
     (case os of
        None \<Rightarrow> (l\<lparr>el_file := el_file l @ bs, el_count := el_count l + n\<rparr>, True)
      | Some k \<Rightarrow> (l\<lparr>el_file := el_file l @ take k bs\<rparr>, False))"

definition log_write_event :: "nat option \<Rightarrow> event \<Rightarrow> event_log \<Rightarrow> event_log \<times> bool" where
  "log_write_event os e l = log_write_all os (event_bytes e) 1 l"

definition log_write_batch :: "nat option \<Rightarrow> event list \<Rightarrow> event_log \<Rightarrow> event_log \<times> bool" where
  "log_write_batch os es l = log_write_all os (concat (map event_bytes es)) (of_nat (length es)) l"

section \<open>Running hash and cross-language check\<close>

record state_hasher =
  sh_state :: u64

definition sh_new :: state_hasher where
  "sh_new = \<lparr>sh_state = 0\<rparr>"

definition sh_update :: "(bytes \<Rightarrow> u64) \<Rightarrow> bytes \<Rightarrow> state_hasher \<Rightarrow> state_hasher" where
  "sh_update xxh data h = h\<lparr>sh_state := xxh (to_le 8 (sh_state h) @ data)\<rparr>"

definition sh_digest :: "state_hasher \<Rightarrow> u64" where
  "sh_digest h = sh_state h"

definition sh_reset :: "state_hasher \<Rightarrow> state_hasher" where
  "sh_reset h = h\<lparr>sh_state := 0\<rparr>"

datatype verification_error = HashMismatch u64 u64

record cross_language_verifier =
  cv_rust_hash :: u64
  cv_cpp_hash :: u64

definition cv_new :: cross_language_verifier where
  "cv_new = \<lparr>cv_rust_hash = 0, cv_cpp_hash = 0\<rparr>"

definition cv_set_rust_hash :: "u64 \<Rightarrow> cross_language_verifier \<Rightarrow> cross_language_verifier" where
  "cv_set_rust_hash h v = v\<lparr>cv_rust_hash := h\<rparr>"

definition cv_set_cpp_hash :: "u64 \<Rightarrow> cross_language_verifier \<Rightarrow> cross_language_verifier" where
  "cv_set_cpp_hash h v = v\<lparr>cv_cpp_hash := h\<rparr>"

definition cv_verify :: "cross_language_verifier \<Rightarrow> verification_error + unit" where
  "cv_verify v = (if cv_rust_hash v = cv_cpp_hash v then Inr ()
     else Inl (HashMismatch (cv_rust_hash v) (cv_cpp_hash v)))"

section \<open>Consecutive streams\<close>

text \<open>
  \<open>consecutive prev ses\<close>: every sequence number is one more than its predecessor, the first one more
  than \<open>prev\<close> when there is one. \<open>chain_hash\<close> and \<open>final_seq\<close> are what a gapless run leaves behind.
\<close>

fun consecutive :: "u64 option \<Rightarrow> sequenced_event list \<Rightarrow> bool" where
  "consecutive prev [] = True"
| "consecutive prev (se # ses) = ((\<forall>l. prev = Some l \<longrightarrow> se_seq se = l + 1) \<and> consecutive (Some (se_seq se)) ses)"

fun chain_hash :: "(bytes \<Rightarrow> u64) \<Rightarrow> u64 \<Rightarrow> sequenced_event list \<Rightarrow> u64" where
  "chain_hash xxh h [] = h"
| "chain_hash xxh h (se # ses) = chain_hash xxh (xxh (chain_block h (se_seq se) (se_event se))) ses"

definition final_seq :: "u64 option \<Rightarrow> sequenced_event list \<Rightarrow> u64 option" where
  "final_seq prev ses = (if ses = [] then prev else Some (se_seq (last ses)))"

definition replayed :: "(bytes \<Rightarrow> u64) \<Rightarrow> replay_engine \<Rightarrow> sequenced_event list \<Rightarrow> replay_engine" where
  "replayed xxh re ses =
     \<lparr>re_state = \<lparr>rs_book = ob_run (rs_book (re_state re)) (map se_event ses),
        rs_last_seq = final_seq (rs_last_seq (re_state re)) ses,
        rs_state_hash = chain_hash xxh (rs_state_hash (re_state re)) ses\<rparr>,
      re_events_processed = re_events_processed re + of_nat (length ses)\<rparr>"

lemma rs_process_next:
  assumes "\<forall>l. rs_last_seq st = Some l \<longrightarrow> se_seq se = l + 1"
  shows "rs_process xxh st se =
    (\<lparr>rs_book = fst (ob_apply (rs_book st) (se_event se)), rs_last_seq = Some (se_seq se),
      rs_state_hash = xxh (chain_block (rs_state_hash st) (se_seq se) (se_event se))\<rparr>, Inr ())"
  using assms by (cases st) (auto simp: rs_process_def split: option.split)

lemma rs_process_gap:
  assumes "rs_last_seq st = Some l" "se_seq se \<noteq> l + 1"
  shows "rs_process xxh st se = (st, Inl (StateGap (l + 1) (se_seq se)))"
  using assms by (simp add: rs_process_def)

lemma replay_loop_consecutive:
  "consecutive (rs_last_seq (re_state re)) ses \<Longrightarrow> replay_loop xxh re ses = (replayed xxh re ses, Inr ())"
proof (induction ses arbitrary: re)
  case (Cons se ses)
  then show ?case
    by (simp add: rs_process_next replayed_def final_seq_def ob_run_def add.assoc)
qed (simp add: replayed_def final_seq_def ob_run_def)

lemma replayed_nil [simp]: "replayed xxh re [] = re"
  by (simp add: replayed_def final_seq_def ob_run_def)

lemma replay_loop_append:
  "consecutive (rs_last_seq (re_state re)) as \<Longrightarrow>
   replay_loop xxh re (as @ bs) = replay_loop xxh (replayed xxh re as) bs"
proof (induction as arbitrary: re)
  case (Cons se ses)
  then show ?case
    by (simp add: rs_process_next replayed_def final_seq_def ob_run_def add.assoc)
qed (simp add: replayed_nil)

lemma consecutive_split:
  "\<not> consecutive prev ses \<Longrightarrow> \<exists>as se bs l. ses = as @ se # bs \<and> consecutive prev as \<and>
     final_seq prev as = Some l \<and> se_seq se \<noteq> l + 1"
proof (induction ses arbitrary: prev)
  case (Cons se ses)
  show ?case
  proof (cases "\<forall>l. prev = Some l \<longrightarrow> se_seq se = l + 1")
    case True
    then obtain as x bs l where "ses = as @ x # bs" "consecutive (Some (se_seq se)) as"
        "final_seq (Some (se_seq se)) as = Some l" "se_seq x \<noteq> l + 1"
      using Cons by (auto simp del: consecutive.simps(1)) (metis Cons.IH)
    with True show ?thesis
      by (intro exI [of _ "se # as"] exI [of _ x] exI [of _ bs] exI [of _ l])
        (auto simp: final_seq_def split: if_splits)
  next
    case False
    then show ?thesis by (intro exI [of _ "[]"]) (auto simp: final_seq_def)
  qed
qed simp

lemma number_events_consecutive:
  "consecutive None (number_events es)"
proof -
  have step: "consecutive (Some (of_nat k))
      (map (\<lambda>(i, e). \<lparr>se_seq = of_nat i + 1, se_channel_id = 0, se_event = e\<rparr>) (zip [k..<k + length es] es))"
    for k and es :: "event list"
  proof (induction es arbitrary: k)
    case (Cons e es)
    show ?case
      using Cons.IH [of "Suc k"] by (subst upt_conv_Cons) (simp_all add: add.commute)
  qed simp
  show ?thesis
  proof (cases es)
    case (Cons e es')
    show ?thesis
      using step [of 1 es'] by (simp only: Cons number_events_def) (subst upt_conv_Cons, simp_all)
  qed (simp add: number_events_def)
qed

lemma number_events_sel [simp]: "map se_event (number_events es) = es" "length (number_events es) = length es"
  by (simp_all add: number_events_def comp_def case_prod_unfold)

lemma re_replay_consecutive:
  assumes "consecutive (rs_last_seq (re_state re)) ses"
  shows "re_replay xxh re ses = replay_finish (replayed xxh re ses, Inr ())"
  using assms by (simp add: re_replay_def replay_loop_consecutive)

lemma re_replay_gap:
  assumes "consecutive (rs_last_seq (re_state re)) as"
    and "final_seq (rs_last_seq (re_state re)) as = Some l" and "se_seq se \<noteq> l + 1"
  shows "re_replay xxh re (as @ se # bs) =
    (replayed xxh re as, Inl (SequenceGap (l + 1) (se_seq se) (re_events_processed re + of_nat (length as))))"
proof -
  have "rs_last_seq (re_state (replayed xxh re as)) = Some l"
    using assms(2) by (simp add: replayed_def)
  from rs_process_gap [OF this assms(3), of xxh] show ?thesis
    using assms(1) by (simp add: re_replay_def replay_loop_append replay_finish_def) (simp add: replayed_def)
qed

section \<open>The hash chain\<close>

text \<open>The blocks a run feeds to XXH3, one per event.\<close>

fun chain_blocks :: "(bytes \<Rightarrow> u64) \<Rightarrow> u64 \<Rightarrow> sequenced_event list \<Rightarrow> bytes list" where
  "chain_blocks xxh h [] = []"
| "chain_blocks xxh h (se # ses) =
     chain_block h (se_seq se) (se_event se) #
     chain_blocks xxh (xxh (chain_block h (se_seq se) (se_event se))) ses"

lemma chain_block_inj: "chain_block h s e = chain_block h' s' e' \<longleftrightarrow> h = h' \<and> s = s' \<and> e = e'"
  by (auto simp: chain_block_def to_le_inj_u64 event_bytes_inj)

lemma chain_hash_snoc:
  "chain_hash xxh h (ses @ [se]) = xxh (chain_block (chain_hash xxh h ses) (se_seq se) (se_event se))"
  by (induction ses arbitrary: h) simp_all

lemma chain_blocks_snoc:
  "chain_blocks xxh h (ses @ [se]) =
   chain_blocks xxh h ses @ [chain_block (chain_hash xxh h ses) (se_seq se) (se_event se)]"
  by (induction ses arbitrary: h) simp_all

lemma chain_hash_nonzero:
  assumes "0 \<notin> xxh ` set (chain_blocks xxh 0 ses)" "ses \<noteq> []"
  shows "chain_hash xxh 0 ses \<noteq> 0"
proof -
  obtain as a where "ses = as @ [a]" using assms(2) by (cases ses rule: rev_cases) auto
  with assms(1) show ?thesis by (force simp: chain_hash_snoc chain_blocks_snoc)
qed

text \<open>
  The chain tells streams of any lengths apart: no block but the empty stream leaves the initial state zero.
\<close>

lemma chain_hash_inj:
  assumes "inj_on xxh (set (chain_blocks xxh 0 as) \<union> set (chain_blocks xxh 0 bs))"
    and "0 \<notin> xxh ` (set (chain_blocks xxh 0 as) \<union> set (chain_blocks xxh 0 bs))"
    and "chain_hash xxh 0 as = chain_hash xxh 0 bs"
  shows "map (\<lambda>se. (se_seq se, se_event se)) as = map (\<lambda>se. (se_seq se, se_event se)) bs"
  using assms
proof (induction as arbitrary: bs rule: rev_induct)
  case Nil
  then show ?case using chain_hash_nonzero [of xxh bs] by (cases "bs = []") (simp_all add: image_Un)
next
  case (snoc a as)
  have "bs \<noteq> []" using snoc.prems(2,3) chain_hash_nonzero [of xxh "as @ [a]"] by (auto simp: image_Un)
  then obtain bs' b where bs: "bs = bs' @ [b]" by (cases bs rule: rev_cases) auto
  note inj = snoc.prems(1) [unfolded bs chain_blocks_snoc]
  have "chain_block (chain_hash xxh 0 as) (se_seq a) (se_event a) =
      chain_block (chain_hash xxh 0 bs') (se_seq b) (se_event b)"
    using snoc.prems(3) by (intro inj_onD [OF inj]) (simp_all add: bs chain_hash_snoc)
  then have eq: "chain_hash xxh 0 as = chain_hash xxh 0 bs'" "se_seq a = se_seq b" "se_event a = se_event b"
    by (simp_all add: chain_block_inj)
  have "inj_on xxh (set (chain_blocks xxh 0 as) \<union> set (chain_blocks xxh 0 bs'))"
    by (rule inj_on_subset [OF inj]) auto
  moreover have "0 \<notin> xxh ` (set (chain_blocks xxh 0 as) \<union> set (chain_blocks xxh 0 bs'))"
    using snoc.prems(2) by (auto simp: bs chain_blocks_snoc)
  ultimately show ?case using eq snoc.IH [of bs'] by (simp add: bs)
qed

text \<open>The events a replay takes in: all of a gapless stream, otherwise those before the first gap.\<close>

fun accepted :: "u64 option \<Rightarrow> sequenced_event list \<Rightarrow> sequenced_event list" where
  "accepted prev [] = []"
| "accepted prev (se # ses) =
     (if \<forall>l. prev = Some l \<longrightarrow> se_seq se = l + 1 then se # accepted (Some (se_seq se)) ses else [])"

lemma accepted_consecutive: "consecutive prev ses \<Longrightarrow> accepted prev ses = ses"
  by (induction ses arbitrary: prev) auto

lemma accepted_prefix:
  "consecutive prev as \<Longrightarrow> final_seq prev as = Some l \<Longrightarrow> se_seq se \<noteq> l + 1 \<Longrightarrow> accepted prev (as @ se # bs) = as"
  by (induction as arbitrary: prev) (auto simp: final_seq_def split: if_splits)

lemma re_replay_accepted:
  "fst (re_replay xxh re ses) = replayed xxh re (accepted (rs_last_seq (re_state re)) ses)"
proof (cases "consecutive (rs_last_seq (re_state re)) ses")
  case True
  then show ?thesis by (simp add: re_replay_consecutive replay_finish_def accepted_consecutive)
next
  case False
  from consecutive_split [OF this] obtain as se bs l where "ses = as @ se # bs" "consecutive (rs_last_seq (re_state re)) as"
      "final_seq (rs_last_seq (re_state re)) as = Some l" "se_seq se \<noteq> l + 1"
    by blast
  with re_replay_gap [of re as l se xxh bs] accepted_prefix show ?thesis by simp
qed

section \<open>Properties\<close>

definition sample_seq :: "sequenced_event list" where
  "sample_seq = number_events (take 3 sample_stream)"

text \<open>
  Property C6. Replay succeeds exactly on gapless input, and then the engine holds the book that applied
  all events, the last sequence number, the hash chain over all events and the event count.
\<close>

theorem replay_succeeds_iff_consecutive:
  "((\<exists>r. snd (re_replay xxh re ses) = Inr r) \<longleftrightarrow> consecutive (rs_last_seq (re_state re)) ses) \<and>
   (consecutive (rs_last_seq (re_state re)) ses \<longrightarrow> fst (re_replay xxh re ses) = replayed xxh re ses)"
proof (cases "consecutive (rs_last_seq (re_state re)) ses")
  case True
  then show ?thesis by (simp add: re_replay_consecutive replay_finish_def)
next
  case False
  then obtain as se bs l where "ses = as @ se # bs" "consecutive (rs_last_seq (re_state re)) as"
      "final_seq (rs_last_seq (re_state re)) as = Some l" "se_seq se \<noteq> l + 1"
    using consecutive_split by blast
  with False re_replay_gap [of re as l se xxh bs] show ?thesis by simp
qed

theorem replay_succeeds_iff_consecutive_witness:
  "\<exists>r. snd (re_replay (\<lambda>b. of_nat (le_dec b)) (re_new 7) sample_seq) = Inr r"
proof -
  have "consecutive (rs_last_seq (re_state (re_new 7))) sample_seq"
    by (simp add: sample_seq_def re_new_def rs_new_def number_events_consecutive)
  then show ?thesis using replay_succeeds_iff_consecutive by blast
qed

text \<open>
  Property C7. On the first gap replay halts: it reports the expected and the received sequence number and
  how many events were processed, leaves the engine exactly as the gapless prefix left it, and never
  looks at the rest of the input.
\<close>

theorem replay_halts_at_first_gap:
  assumes "consecutive (rs_last_seq (re_state re)) as"
    and "final_seq (rs_last_seq (re_state re)) as = Some l" and "se_seq se \<noteq> l + 1"
  shows "re_replay xxh re (as @ se # bs) =
    (replayed xxh re as, Inl (SequenceGap (l + 1) (se_seq se) (re_events_processed re + of_nat (length as))))"
  using assms by (rule re_replay_gap)

theorem replay_halts_at_first_gap_witness:
  "snd (re_replay (\<lambda>b. of_nat (le_dec b)) (re_new 7) (sample_seq @ (sample_seq ! 0)\<lparr>se_seq := 5\<rparr> # [])) =
   Inl (SequenceGap 4 5 3)"
proof -
  have "consecutive (rs_last_seq (re_state (re_new 7))) sample_seq"
    by (simp add: sample_seq_def re_new_def rs_new_def number_events_consecutive)
  moreover have "final_seq (rs_last_seq (re_state (re_new 7))) sample_seq = Some 3" by code_simp
  moreover have "re_events_processed (re_new 7) + of_nat (length sample_seq) = 3" by code_simp
  ultimately show ?thesis
    using replay_halts_at_first_gap [of "re_new 7" sample_seq 3 "(sample_seq ! 0)\<lparr>se_seq := 5\<rparr>"] by simp
qed

text \<open>
  Log round trip: events written to a fresh log in any batches and replayed from the file into
  a fresh engine give the book, the count and the hash chain of those events numbered from 1.
\<close>

theorem log_replay_roundtrip:
  "re_replay_from_file xxh (re_new iid)
      (Inr (el_file (foldl (\<lambda>l es. fst (log_write_batch None es l)) log_create batches))) =
   (replayed xxh (re_new iid) (number_events (concat batches)),
    Inr \<lparr>rr_events_processed = of_nat (length (concat batches)),
         rr_final_hash = chain_hash xxh 0 (number_events (concat batches)),
         rr_last_seq = of_nat (length (concat batches))\<rparr>)"
proof -
  have "el_file (foldl (\<lambda>l es. fst (log_write_batch None es l)) l batches) =
      el_file l @ concat (map event_bytes (concat batches))" for l
    by (induction batches arbitrary: l) (simp_all add: log_write_batch_def log_write_all_def)
  then have written: "el_file (foldl (\<lambda>l es. fst (log_write_batch None es l)) log_create batches) =
      concat (map event_bytes (concat batches))"
    by (simp add: log_create_def)
  define es where "es = concat batches"
  have len: "length (concat (map event_bytes es)) = length es * 40" by (rule evc.length_concat_enc)
  have "read_seq event_of_bytes 40 (length es) (concat (map event_bytes es)) 0 = es"
    using evc.read_seq_enc [of "[]" 0 es "[]"] by simp
  with len have "re_replay_from_file xxh (re_new iid) (Inr (concat (map event_bytes es))) =
      re_replay xxh (re_new iid) (number_events es)"
    by (simp add: re_replay_from_file_def del: evc.length_concat_enc)
  moreover have "final_seq None (number_events es) = (if es = [] then None else Some (of_nat (length es)))"
    by (cases es rule: rev_cases) (simp_all add: final_seq_def number_events_def)
  ultimately show ?thesis
    unfolding written es_def [symmetric]
    by (simp add: re_replay_consecutive re_new_def rs_new_def number_events_consecutive replay_finish_def
        replayed_def rs_hash_def)
qed

text \<open>
  Property C8. The state hash tells streams apart, whatever their lengths and their first sequence numbers. As long as XXH3
  neither collides on the blocks that the two replays hash nor hashes one of them to the initial state zero, equal
  final hashes of two replays mean that both took in the same sequence numbers and events, so a
  changed, missing, added, truncated or reordered event shows. For gapless streams these are the whole streams; a stream
  with a gap is taken in up to the gap.
\<close>

theorem state_hash_detects_divergence:
  assumes "inj_on xxh (set (chain_blocks xxh 0 (accepted None as)) \<union> set (chain_blocks xxh 0 (accepted None bs)))"
    and "0 \<notin> xxh ` (set (chain_blocks xxh 0 (accepted None as)) \<union> set (chain_blocks xxh 0 (accepted None bs)))"
    and "rs_hash (re_state (fst (re_replay xxh (re_new iid) as))) =
         rs_hash (re_state (fst (re_replay xxh (re_new iid) bs)))"
  shows "map (\<lambda>se. (se_seq se, se_event se)) (accepted None as) = map (\<lambda>se. (se_seq se, se_event se)) (accepted None bs) \<and>
    (consecutive None as \<and> consecutive None bs \<longrightarrow>
       map (\<lambda>se. (se_seq se, se_event se)) as = map (\<lambda>se. (se_seq se, se_event se)) bs)"
proof -
  have "chain_hash xxh 0 (accepted None as) = chain_hash xxh 0 (accepted None bs)"
    using assms(3) by (simp add: re_replay_accepted re_new_def rs_new_def replayed_def rs_hash_def)
  from chain_hash_inj [OF assms(1,2) this] show ?thesis by (auto simp: accepted_consecutive)
qed

theorem state_hash_detects_divergence_witness:
  "rs_hash (re_state (fst (re_replay (\<lambda>b. of_nat (le_dec (slice 24 32 b))) (re_new 7) [sample_seq ! 0]))) \<noteq>
   rs_hash (re_state (fst (re_replay (\<lambda>b. of_nat (le_dec (slice 24 32 b))) (re_new 7) [sample_seq ! 0, sample_seq ! 1])))"
proof
  let ?f = "\<lambda>b. of_nat (le_dec (slice 24 32 b)) :: u64"
  let ?as = "[sample_seq ! 0]" and ?bs = "[sample_seq ! 0, sample_seq ! 1]"
  assume eq: "rs_hash (re_state (fst (re_replay ?f (re_new 7) ?as))) = rs_hash (re_state (fst (re_replay ?f (re_new 7) ?bs)))"
  have seqs: "se_seq (sample_seq ! 0) = 1" "se_seq (sample_seq ! 1) = 2" by code_simp+
  have acc: "accepted None ?as = ?as" "accepted None ?bs = ?bs" using seqs by simp_all
  have hashes: "?f (chain_block 0 1 (se_event (sample_seq ! 0))) = 100" "?f (chain_block 100 2 (se_event (sample_seq ! 1))) = 99"
    by code_simp+
  define x y where "x = chain_block 0 1 (se_event (sample_seq ! 0))" and "y = chain_block 100 2 (se_event (sample_seq ! 1))"
  have f: "?f x = 100" "?f y = 99" using hashes by (simp_all only: x_def y_def)
  have set: "set (chain_blocks ?f 0 (accepted None ?as)) \<union> set (chain_blocks ?f 0 (accepted None ?bs)) = {x, y}"
    unfolding acc chain_blocks.simps seqs hashes list.set x_def y_def by blast
  have "x \<noteq> y" using f by auto
  then have "inj_on ?f {x, y}" "0 \<notin> ?f ` {x, y}" using f by (simp_all add: inj_on_def)
  from state_hash_detects_divergence [OF this [folded set] eq]
  have "length (accepted None ?as) = length (accepted None ?bs)" using map_eq_imp_length_eq by blast
  then show False unfolding acc by simp
qed

text \<open>
  The hash a replay state carries is the digest of a \<open>StateHasher\<close> fed the sequence number and
  the bytes of every event, so the two implementations of the chain can be compared.
\<close>

theorem state_hash_is_hasher_digest:
  assumes "consecutive (rs_last_seq (re_state (re_new iid))) ses"
  shows "rs_hash (re_state (fst (re_replay xxh (re_new iid) ses))) =
    sh_digest (foldl (\<lambda>h se. sh_update xxh (to_le 8 (se_seq se) @ event_bytes (se_event se)) h) sh_new ses)"
proof -
  have "chain_hash xxh (sh_state h) ses =
      sh_state (foldl (\<lambda>h se. sh_update xxh (to_le 8 (se_seq se) @ event_bytes (se_event se)) h) h ses)" for h
  proof (induction ses arbitrary: h)
    case (Cons se ses)
    from Cons [of "sh_update xxh (to_le 8 (se_seq se) @ event_bytes (se_event se)) h"] show ?case
      by (simp add: sh_update_def chain_block_def)
  qed simp
  from this [of sh_new] assms show ?thesis
    by (simp add: re_replay_consecutive replay_finish_def replayed_def rs_hash_def sh_digest_def)
      (simp add: sh_new_def re_new_def rs_new_def)
qed

theorem state_hash_is_hasher_digest_witness:
  "rs_hash (re_state (fst (re_replay (\<lambda>b. of_nat (le_dec b)) (re_new 7) sample_seq))) =
   sh_digest (foldl (\<lambda>h se. sh_update (\<lambda>b. of_nat (le_dec b))
     (to_le 8 (se_seq se) @ event_bytes (se_event se)) h) sh_new sample_seq)"
  by (rule state_hash_is_hasher_digest)
    (simp add: sample_seq_def re_new_def rs_new_def number_events_consecutive)

end
