(* ===== verification/FL_WalProperties.thy ===== *)
theory FL_WalProperties
  imports FL_Wal
begin

text \<open>
  The write-ahead log keeps what it acknowledged: framing, the buffered writer, rotation, recovery of a
  torn tail and the reader, put together into the round trip and the crash recovery of the log.
\<close>

section \<open>Frames\<close>

definition frame :: "bytes \<Rightarrow> bytes" where
  "frame p = to_le 4 (of_nat (length p) :: u32) @ to_le 4 (crc32 p) @ p"

definition frames :: "bytes list \<Rightarrow> bytes" where
  "frames ps = concat (map frame ps)"

definition small :: "bytes list \<Rightarrow> bool" where
  "small ps \<longleftrightarrow> (\<forall>p \<in> set ps. length p < 2 ^ 32)"

text \<open>\<open>whole k ps\<close>: the leading records that lie completely within the first \<open>k\<close> bytes.\<close>

fun whole :: "nat \<Rightarrow> bytes list \<Rightarrow> bytes list" where
  "whole k [] = []"
| "whole k (p # ps) = (if 8 + length p \<le> k then p # whole (k - (8 + length p)) ps else [])"

function decode :: "bytes \<Rightarrow> bytes list" where
  "decode f = (case read_frame f of None \<Rightarrow> [] | Some (p, f') \<Rightarrow> p # decode f')"
  by pat_completeness auto
termination
  by (relation "measure length") (auto dest: read_frame_shorter)

declare decode.simps [simp del]

lemma length_frame [simp]: "length (frame p) = 8 + length p"
  by (simp add: frame_def)

lemma frames_simps [simp]:
  "frames [] = []" "frames (p # ps) = frame p @ frames ps" "frames (ps @ qs) = frames ps @ frames qs"
  by (simp_all add: frames_def)

lemma small_simps [simp]:
  "small []" "small (p # ps) \<longleftrightarrow> length p < 2 ^ 32 \<and> small ps" "small (ps @ qs) \<longleftrightarrow> small ps \<and> small qs"
  by (auto simp: small_def)

lemma read_frame_frame:
  assumes "length p < 2 ^ 32"
  shows "read_frame (frame p @ rest) = Some (p, rest)"
  using assms by (simp add: read_frame_def read_exact_def magic_header_def frame_def slice_def unat_of_nat_small)

lemma read_frame_torn:
  assumes "length p < 2 ^ 32" "k < 8 + length p"
  shows "read_frame (take k (frame p @ rest)) = None"
proof (cases "k < 8")
  case True
  then show ?thesis by (simp add: read_frame_def read_exact_def magic_header_def)
next
  case False
  then have "take 8 (take k (frame p @ rest)) = to_le 4 (of_nat (length p) :: u32) @ to_le 4 (crc32 p)"
    by (simp add: frame_def min_def)
  moreover have "k - 8 < length p" using assms(2) False by arith
  ultimately show ?thesis
    using assms False
    by (simp add: read_frame_def read_exact_def magic_header_def slice_def unat_of_nat_small Let_def)
qed

lemma whole_small: "small ps \<Longrightarrow> small (whole k ps)"
  by (induction ps arbitrary: k) auto

lemma whole_prefix: "\<exists>qs. ps = whole k ps @ qs"
  by (induction ps arbitrary: k) auto

lemma frames_whole: "\<exists>rest. take k (frames ps) = frames (whole k ps) @ rest"
proof (induction ps arbitrary: k)
  case (Cons p ps)
  then show ?case
    using Cons [of "k - (8 + length p)"] by (cases "8 + length p \<le> k") auto
qed simp

lemma decode_torn: "small ps \<Longrightarrow> decode (take k (frames ps)) = whole k ps"
proof (induction ps arbitrary: k)
  case Nil
  show ?case by (subst decode.simps) (simp add: read_frame_def read_exact_def magic_header_def)
next
  case (Cons p ps)
  show ?case
  proof (cases "8 + length p \<le> k")
    case True
    then have "take k (frames (p # ps)) = frame p @ take (k - (8 + length p)) (frames ps)" by simp
    with True Cons show ?thesis by (subst decode.simps) (simp add: read_frame_frame)
  next
    case False
    with Cons.prems show ?thesis by (subst decode.simps) (simp add: read_frame_torn del: take_append)
  qed
qed

lemma decode_frames: "small ps \<Longrightarrow> decode (frames ps) = ps"
proof -
  have "whole (length (frames ps)) ps = ps" by (induction ps) simp_all
  then show "small ps \<Longrightarrow> decode (frames ps) = ps" using decode_torn [of ps "length (frames ps)"] by simp
qed

lemma recover_scan_torn: "small ps \<Longrightarrow> recover_scan (take k (frames ps)) off = off + length (frames (whole k ps))"
proof (induction ps arbitrary: k off)
  case Nil
  show ?case by (subst recover_scan.simps) (simp add: read_frame_def read_exact_def magic_header_def)
next
  case (Cons p ps)
  show ?case
  proof (cases "8 + length p \<le> k")
    case True
    then have "take k (frames (p # ps)) = frame p @ take (k - (8 + length p)) (frames ps)" by simp
    with True Cons show ?thesis by (subst recover_scan.simps) (simp add: read_frame_frame magic_header_def)
  next
    case False
    with Cons.prems show ?thesis by (subst recover_scan.simps) (simp add: read_frame_torn del: take_append)
  qed
qed

lemma recover_torn:
  assumes "small ps"
  shows "recover_segment_tail (take k (frames ps)) = (frames (whole k ps), length (frames (whole k ps)))"
proof -
  obtain rest where eq: "take k (frames ps) = frames (whole k ps) @ rest"
    using frames_whole by blast
  have "recover_scan (take k (frames ps)) 0 = length (frames (whole k ps))"
    using recover_scan_torn [OF assms, of k 0] by simp
  then show ?thesis unfolding eq by (simp add: recover_segment_tail_def Let_def)
qed

section \<open>The reader returns what the segments decode to\<close>

definition reader_ok :: "wal_reader \<Rightarrow> bool" where
  "reader_ok r \<longleftrightarrow> (\<forall>i \<in> set (wr_segments r). om_lookup (wr_disk r) i \<noteq> None)"

definition segment_records :: "wal_reader \<Rightarrow> u64 list \<Rightarrow> bytes list" where
  "segment_records r is = concat (map (\<lambda>i. decode (the (om_lookup (wr_disk r) i))) is)"

definition to_come :: "wal_reader \<Rightarrow> bytes list" where
  "to_come r = (case wr_file r of
       None \<Rightarrow> segment_records r (drop (wr_seg_idx r) (wr_segments r))
     | Some f \<Rightarrow> decode f @ segment_records r (drop (Suc (wr_seg_idx r)) (wr_segments r)))"

lemma ensure_file_ok:
  assumes "reader_ok r"
  shows "(ensure_file r = Inr (r, False) \<and> wr_file r = None \<and> to_come r = []) \<or>
    (\<exists>r1 f. ensure_file r = Inr (r1, True) \<and> wr_file r1 = Some f \<and> to_come r1 = to_come r \<and> reader_ok r1)"
proof (cases "wr_file r = None \<and> wr_seg_idx r < length (wr_segments r)")
  case True
  then obtain f where f: "om_lookup (wr_disk r) (wr_segments r ! wr_seg_idx r) = Some f"
    using assms nth_mem [of "wr_seg_idx r" "wr_segments r"] by (auto simp: reader_ok_def simp del: nth_mem)
  have "drop (wr_seg_idx r) (wr_segments r) =
      wr_segments r ! wr_seg_idx r # drop (Suc (wr_seg_idx r)) (wr_segments r)"
    using True by (simp add: Cons_nth_drop_Suc)
  with True f assms show ?thesis
    by (simp add: ensure_file_def to_come_def segment_records_def reader_ok_def)
next
  case False
  with assms show ?thesis
    by (auto simp: ensure_file_def to_come_def segment_records_def)
qed

lemma next_record_to_come:
  "reader_ok r \<Longrightarrow> (case to_come r of
      [] \<Rightarrow> \<exists>r'. next_record r = Inr (r', None)
    | p # ps \<Rightarrow> \<exists>r'. next_record r = Inr (r', Some p) \<and> to_come r' = ps \<and> reader_ok r')"
proof (induction r rule: next_record.induct)
  case (1 r)
  from ensure_file_ok [OF "1.prems"] show ?case
  proof (elim disjE exE conjE)
    assume "ensure_file r = Inr (r, False)" "to_come r = []"
    then show ?case by (simp add: next_record.simps)
  next
    fix r1 f
    assume r1: "ensure_file r = Inr (r1, True)" "wr_file r1 = Some f" "to_come r1 = to_come r" "reader_ok r1"
    show ?case
    proof (cases "read_frame f")
      case None
      have "to_come (next_segment r1) = to_come r" "reader_ok (next_segment r1)"
        using r1 None
        by (simp_all add: to_come_def next_segment_def segment_records_def decode.simps [of f] reader_ok_def)
      moreover have "next_record r = next_record (next_segment r1)"
        using r1 None by (subst next_record.simps) simp
      ultimately show ?thesis using "1.IH" [OF r1(1) refl] r1(2) None by (cases "to_come r") simp_all
    next
      case (Some pf)
      obtain p f' where pf: "pf = (p, f')" by force
      have "to_come r = p # decode f' @ segment_records r1 (drop (Suc (wr_seg_idx r1)) (wr_segments r1))"
        unfolding r1(3) [symmetric] using r1(2) Some pf by (simp add: to_come_def decode.simps [of f])
      with r1 Some pf show ?thesis
        by (simp add: next_record.simps [of r]) (simp add: to_come_def segment_records_def reader_ok_def)
    qed
  qed
qed

lemma read_calls_to_come:
  "reader_ok r \<Longrightarrow> read_calls (Suc (length (to_come r))) r = map (Inr \<circ> Some) (to_come r) @ [Inr None]"
proof (induction "to_come r" arbitrary: r)
  case Nil
  from Nil(1) [symmetric] next_record_to_come [OF Nil(2)] show ?case by auto
next
  case (Cons p ps)
  from next_record_to_come [OF Cons.prems] Cons.hyps(2) [symmetric]
  obtain r' where "next_record r = Inr (r', Some p)" "to_come r' = ps" "reader_ok r'" by auto
  with Cons.hyps(1) [of r'] Cons.hyps(2) [symmetric] show ?case by simp
qed

lemma map_snd_lookup: "map (\<lambda>i. g (the (om_lookup d i))) (om_keys d) = map (g \<circ> snd) (om_entries d)"
proof -
  have "the (om_lookup d k) = v" if "(k, v) \<in> set (om_entries d)" for k v
    using that by (metis om_lookup_Some_iff option.sel)
  then show ?thesis by (auto simp: om_keys_def)
qed

lemma reader_open:
  "reader_ok (wal_reader_open d)" "to_come (wal_reader_open d) = concat (map (decode \<circ> snd) (om_entries d))"
  using map_snd_lookup [of decode d]
  by (auto simp: reader_ok_def wal_reader_open_def to_come_def segment_records_def om_key_iff)

section \<open>The writer extends the log\<close>

text \<open>
  \<open>logged w segs\<close>: with the buffer flushed, the directory holds exactly the segments \<open>segs\<close>, each the
  frames of its records, and the writer is on the last one.
\<close>

definition seg_file :: "u64 \<times> bytes list \<Rightarrow> u64 \<times> bytes" where
  "seg_file s = (fst s, frames (snd s))"

definition logged :: "wal \<Rightarrow> (u64 \<times> bytes list) list \<Rightarrow> bool" where
  "logged w segs \<longleftrightarrow> segs \<noteq> [] \<and> fst (last segs) = wl_current_index w \<and> wl_file w = wl_current_index w \<and>
     om_entries (wl_disk (wal_flush w)) = map seg_file segs \<and> (\<forall>s \<in> set segs. small (snd s))"

lemma al_insert_last: "al_sorted (xs @ [(k, u)]) \<Longrightarrow> al_insert k v (xs @ [(k, u)]) = xs @ [(k, v)]"
  by (induction xs) (auto simp: sorted_wrt_append)

lemma al_insert_end: "\<forall>x \<in> set xs. fst x < k \<Longrightarrow> al_insert k v xs = xs @ [(k, v)]"
  by (induction xs) auto

lemma om_insert_last:
  assumes "om_entries d = xs @ [(k, u)]"
  shows "om_entries (om_insert k v d) = xs @ [(k, v)]"
  using assms om_sorted [of d] by (simp add: om_insert.rep_eq al_insert_last)

lemma om_insert_end:
  assumes "\<forall>x \<in> set (om_entries d). fst x < k"
  shows "om_entries (om_insert k v d) = om_entries d @ [(k, v)]"
  using assms by (simp add: om_insert.rep_eq al_insert_end)

text \<open>What the current segment will hold once the buffer is flushed.\<close>

definition cur_stream :: "wal \<Rightarrow> bytes" where
  "cur_stream w = (case om_lookup (wl_disk w) (wl_file w) of None \<Rightarrow> [] | Some f \<Rightarrow> f) @ wl_buf w"

lemma wal_flush_disk: "wl_disk (wal_flush w) = om_insert (wl_file w) (cur_stream w) (wl_disk w)"
  by (simp add: wal_flush_def disk_append_def cur_stream_def)

lemma om_insert_insert: "om_insert k v (om_insert k u d) = om_insert k v d"
  by (rule omap_eqI) (simp add: om_lookup_insert)

lemma cur_stream_bytes [simp]: "cur_stream (w\<lparr>wl_current_bytes := n\<rparr>) = cur_stream w"
  by (simp add: cur_stream_def)

lemma buf_write_all_stream:
  shows bw_stream: "cur_stream (buf_write_all bs w) = cur_stream w @ bs"
    and bw_index: "wl_current_index (buf_write_all bs w) = wl_current_index w" "wl_file (buf_write_all bs w) = wl_file w"
    and bw_disk: "wl_file w = i \<Longrightarrow>
      om_insert i v (wl_disk (buf_write_all bs w)) = om_insert i v (wl_disk w)"
proof -
  have "wl_buf w = []" if "buf_capacity \<le> buf_capacity - length (wl_buf w)"
  proof -
    have "0 < buf_capacity" by (simp add: buf_capacity_def)
    with that have "length (wl_buf w) = 0" by arith
    then show ?thesis by simp
  qed
  then show "cur_stream (buf_write_all bs w) = cur_stream w @ bs"
    by (auto simp: buf_write_all_def wal_flush_def disk_append_def cur_stream_def Let_def om_lookup_insert)
  show "wl_current_index (buf_write_all bs w) = wl_current_index w" "wl_file (buf_write_all bs w) = wl_file w"
    by (simp_all add: buf_write_all_def wal_flush_def Let_def)
  show "wl_file w = i \<Longrightarrow>
      om_insert i v (wl_disk (buf_write_all bs w)) = om_insert i v (wl_disk w)"
    by (auto simp: buf_write_all_def wal_flush_def disk_append_def Let_def om_insert_insert)
qed

lemma frame_write_flushed:
  "wl_disk (wal_flush (wal_frame_write p w)) =
     om_insert (wl_file w) (cur_stream w @ frame p) (wl_disk w)"
  "wl_current_index (wal_frame_write p w) = wl_current_index w" "wl_file (wal_frame_write p w) = wl_file w"
  by (simp_all add: wal_flush_disk wal_frame_write_def Let_def bw_stream bw_index bw_disk frame_def)

lemma logged_parts:
  assumes "logged w segs"
  obtains pre ps where "segs = pre @ [(wl_current_index w, ps)]" "cur_stream w = frames ps"
    "om_entries (om_insert (wl_current_index w) v (wl_disk w)) = map seg_file pre @ [(wl_current_index w, v)]"
    "\<forall>s \<in> set segs. small (snd s)" "wl_file w = wl_current_index w"
proof -
  obtain pre ps where segs: "segs = pre @ [(wl_current_index w, ps)]"
    using assms by (cases segs rule: rev_cases) (auto simp: logged_def)
  have e: "om_entries (om_insert (wl_current_index w) (cur_stream w) (wl_disk w)) =
      map seg_file pre @ [(wl_current_index w, frames ps)]"
    using assms segs by (auto simp: logged_def wal_flush_disk seg_file_def)
  have "om_lookup (om_insert (wl_current_index w) (cur_stream w) (wl_disk w)) (wl_current_index w) = Some (frames ps)"
    unfolding om_lookup_Some_iff e by simp
  then have "cur_stream w = frames ps" by (simp add: om_lookup_insert)
  moreover have "om_entries (om_insert (wl_current_index w) v (wl_disk w)) =
      map seg_file pre @ [(wl_current_index w, v)]"
    using om_insert_last [OF e, of v] by (simp add: om_insert_insert)
  ultimately show thesis using that segs assms by (auto simp: logged_def)
qed

lemma frame_write_logged:
  assumes "logged w segs" "length p < 2 ^ 32"
  shows "\<exists>segs'. logged (wal_frame_write p w) segs' \<and> concat (map snd segs') = concat (map snd segs) @ [p]"
proof -
  obtain pre ps where segs: "segs = pre @ [(wl_current_index w, ps)]" and cur: "cur_stream w = frames ps"
    and e: "om_entries (om_insert (wl_current_index w) (frames ps @ frame p) (wl_disk w)) =
      map seg_file pre @ [(wl_current_index w, frames ps @ frame p)]" and sm: "\<forall>s \<in> set segs. small (snd s)"
    and fl: "wl_file w = wl_current_index w"
    by (rule logged_parts [OF assms(1), of "cur_stream w @ frame p"]) simp
  have "logged (wal_frame_write p w) (pre @ [(wl_current_index w, ps @ [p])])"
    using e sm assms(2) segs fl by (simp add: logged_def frame_write_flushed cur seg_file_def)
  moreover have "concat (map snd (pre @ [(wl_current_index w, ps @ [p])])) = concat (map snd segs) @ [p]"
    by (simp add: segs)
  ultimately show ?thesis by blast
qed

lemma unat_index_succ: "unat (i :: u64) + 1 < 2 ^ 64 \<Longrightarrow> unat (i + 1) = unat i + 1"
  by (simp add: unat_word_ariths)

lemma rotate_logged:
  assumes "logged w segs" "unat (wl_current_index w) + 1 < 2 ^ 64"
  shows "\<exists>w'. wal_rotate w = (w', Inr ()) \<and> logged w' (segs @ [(wl_current_index w + 1, [])]) \<and>
    wl_current_index w' = wl_current_index w + 1"
proof -
  let ?i = "wl_current_index w"
  let ?d = "wl_disk (wal_flush w)"
  have e: "om_entries ?d = map seg_file segs" and l: "segs \<noteq> []" "fst (last segs) = ?i"
    using assms by (simp_all add: logged_def)
  have lt: "?i < ?i + 1" using assms(2) by (simp add: word_less_nat_alt unat_index_succ)
  have "\<forall>x \<in> set (om_entries ?d). fst x \<le> ?i"
  proof -
    obtain pre ps where segs: "segs = pre @ [(?i, ps)]" using l by (cases segs rule: rev_cases) auto
    have "al_sorted (map seg_file pre @ [(?i, frames ps)])"
      using om_sorted [of ?d] e segs by (simp add: seg_file_def)
    then show ?thesis
      unfolding e segs by (auto simp: sorted_wrt_append seg_file_def intro: less_imp_le)
  qed
  then have end': "\<forall>x \<in> set (om_entries ?d). fst x < ?i + 1" using lt by (meson le_less_trans)
  then have none: "om_lookup ?d (?i + 1) = None"
    by (auto simp: om_lookup_def map_of_eq_None_iff)
  have idx: "wl_current_index (wal_flush w) = ?i" by (simp add: wal_flush_def)
  obtain w' where w': "wal_rotate w = (w', Inr ())" "wl_disk w' = om_insert (?i + 1) [] ?d" "wl_buf w' = []"
      "wl_current_index w' = ?i + 1" "wl_file w' = ?i + 1"
    using none idx by (simp add: wal_rotate_def Let_def)
  have "wl_disk (wal_flush w') = om_insert (?i + 1) [] ?d"
    by (simp add: wal_flush_disk cur_stream_def w' om_lookup_insert om_insert_insert)
  then have "logged w' (segs @ [(?i + 1, [])])"
    using assms om_insert_end [OF end', of "[]"] e w' by (simp add: logged_def seg_file_def)
  with w' show ?thesis by blast
qed

lemma append_logged:
  assumes "logged w segs" "unat (wl_current_index w) + 1 < 2 ^ 64" "length p < 2 ^ 32"
  shows "\<exists>w' segs'. wal_append p w = (w', Inr ()) \<and> logged w' segs' \<and>
    concat (map snd segs') = concat (map snd segs) @ [p] \<and>
    unat (wl_current_index w') \<le> unat (wl_current_index w) + 1"
proof -
  obtain w1 where w1: "wal_rotate w = (w1, Inr ())" "logged w1 (segs @ [(wl_current_index w + 1, [])])"
      "wl_current_index w1 = wl_current_index w + 1"
    using rotate_logged [OF assms(1,2)] by blast
  have small_p: "\<not> 2 ^ 32 - 1 < length p" using assms(3) by simp
  from frame_write_logged [OF w1(2) assms(3)] frame_write_logged [OF assms(1,3)] show ?thesis
    using w1 small_p assms(2) by (auto simp: wal_append_def frame_write_flushed unat_index_succ)
qed

definition wal_append_all :: "bytes list \<Rightarrow> wal \<Rightarrow> wal \<times> (wal_error + unit) list" where
  "wal_append_all ps w = foldl (\<lambda>(w, rs) p. let (w', r) = wal_append p w in (w', rs @ [r])) (w, []) ps"

lemma append_all_logged:
  assumes "logged w segs" "unat (wl_current_index w) + length ps < 2 ^ 64" "small ps"
  shows "\<exists>w' segs'. wal_append_all ps w = (w', replicate (length ps) (Inr ())) \<and> logged w' segs' \<and>
    concat (map snd segs') = concat (map snd segs) @ ps"
proof -
  have "\<exists>w' segs'. foldl (\<lambda>(w, rs) p. let (w', r) = wal_append p w in (w', rs @ [r])) (w, rs) ps =
      (w', rs @ replicate (length ps) (Inr ())) \<and> logged w' segs' \<and>
      concat (map snd segs') = concat (map snd segs) @ ps" for rs
    using assms
  proof (induction ps arbitrary: w rs segs)
    case (Cons p ps)
    have "unat (wl_current_index w) + 1 < 2 ^ 64" "length p < 2 ^ 32" using Cons.prems by simp_all
    from append_logged [OF Cons.prems(1) this] obtain w1 segs1 where
      w1: "wal_append p w = (w1, Inr ())" "logged w1 segs1" "concat (map snd segs1) = concat (map snd segs) @ [p]"
        "unat (wl_current_index w1) \<le> unat (wl_current_index w) + 1" by blast
    have "unat (wl_current_index w1) + length ps < 2 ^ 64" "small ps"
      using Cons.prems w1(4) by simp_all
    from Cons.IH [OF w1(2) this, of "rs @ [Inr ()]"] w1 show ?case by simp
  qed auto
  from this [of "[]"] show ?thesis by (simp add: wal_append_all_def)
qed

lemma open_logged:
  assumes "om_entries d = map seg_file pre @ [(i, take k (frames ps))]"
    and "\<forall>s \<in> set pre. small (snd s)" "small ps"
  shows "logged (wal_open_or_create d sz) (pre @ [(i, whole k ps)])"
    and "wl_current_index (wal_open_or_create d sz) = i"
proof -
  have lk: "om_lookup d i = Some (take k (frames ps))" by (simp add: om_lookup_Some_iff assms(1))
  have key: "om_last_key d = Some i" by (simp add: om_last_key_def om_keys_def assms(1))
  have open_eq: "wal_open_or_create d sz = \<lparr>wl_segment_size = sz, wl_current_index = i, wl_file = i, wl_buf = [],
      wl_current_bytes = of_nat (length (frames (whole k ps))), wl_disk = om_insert i (frames (whole k ps)) d\<rparr>"
    by (simp add: wal_open_or_create_def key lk recover_torn [OF assms(3)])
  then show "wl_current_index (wal_open_or_create d sz) = i" by simp
  show "logged (wal_open_or_create d sz) (pre @ [(i, whole k ps)])"
    using om_insert_last [OF assms(1), of "frames (whole k ps)"] assms(2) whole_small [OF assms(3)]
    by (auto simp: logged_def open_eq wal_flush_disk cur_stream_def om_lookup_insert om_insert_insert seg_file_def)
qed

lemma open_fresh_logged: "logged (wal_open_or_create om_empty sz) [(0, [])]"
  and open_fresh_index: "wl_current_index (wal_open_or_create om_empty sz) = 0"
  by (simp_all add: wal_open_or_create_def om_last_key_def om_keys_def logged_def wal_flush_disk cur_stream_def
      om_lookup_insert om_insert_insert seg_file_def om_insert.rep_eq)

lemma logged_reads:
  assumes "logged w segs"
  shows "read_calls (Suc (length (concat (map snd segs)))) (wal_reader_open (wl_disk (wal_flush w))) =
    map (Inr \<circ> Some) (concat (map snd segs)) @ [Inr None]"
proof -
  have "map (decode \<circ> snd) (om_entries (wl_disk (wal_flush w))) = map snd segs"
    using assms by (auto simp: logged_def seg_file_def decode_frames)
  then have "to_come (wal_reader_open (wl_disk (wal_flush w))) = concat (map snd segs)"
    by (simp add: reader_open)
  then show ?thesis
    using read_calls_to_come [OF reader_open(1), of "wl_disk (wal_flush w)"] by simp
qed

section \<open>Properties\<close>

text \<open>
  Property C10. What the log accepts it gives back: records appended to a fresh log are all accepted, and
  after a flush a reader returns exactly them, in order and across every segment rotation, then the end.
\<close>

theorem wal_roundtrip:
  assumes "small ps" and "length ps < 2 ^ 64"
  shows "snd (wal_append_all ps (wal_open_or_create om_empty sz)) = replicate (length ps) (Inr ()) \<and>
    read_calls (Suc (length ps))
      (wal_reader_open (wl_disk (wal_flush (fst (wal_append_all ps (wal_open_or_create om_empty sz)))))) =
    map (Inr \<circ> Some) ps @ [Inr None]"
proof -
  let ?w = "wal_open_or_create om_empty sz"
  obtain w' segs' where w': "wal_append_all ps ?w = (w', replicate (length ps) (Inr ()))" "logged w' segs'"
      "concat (map snd segs') = ps"
    using append_all_logged [OF open_fresh_logged, of sz ps] assms by (auto simp: open_fresh_index)
  from logged_reads [OF w'(2)] w' show ?thesis by (simp del: read_calls.simps)
qed

theorem wal_roundtrip_witness:
  "read_calls 3 (wal_reader_open (wl_disk (wal_flush (fst (wal_append_all [[1, 2, 3], [4]]
     (wal_open_or_create om_empty 12)))))) = [Inr (Some [1, 2, 3]), Inr (Some [4]), Inr None]"
  using wal_roundtrip [of "[[1, 2, 3], [4]]" 12] by (simp add: numeral_3_eq_3 del: read_calls.simps)

text \<open>
  Property C11. Crash recovery: when the last segment was cut at an arbitrary byte, reopening the log keeps
  every record that lies completely before the cut and nothing else, accepts new records, and a reader
  then sees the old segments, the surviving records and the new ones, in order.
\<close>

theorem wal_crash_recovery:
  assumes "om_entries d = map seg_file pre @ [(i, take k (frames ps))]"
    and "\<forall>s \<in> set pre. small (snd s)" and "small ps" and "small new"
    and "unat i + length new < 2 ^ 64"
  shows "let log = concat (map snd pre) @ whole k ps @ new;
             w = wal_append_all new (wal_open_or_create d sz)
         in snd w = replicate (length new) (Inr ()) \<and>
            read_calls (Suc (length log)) (wal_reader_open (wl_disk (wal_flush (fst w)))) =
              map (Inr \<circ> Some) log @ [Inr None]"
proof -
  note op = open_logged [OF assms(1-3), of sz]
  obtain w' segs' where w': "wal_append_all new (wal_open_or_create d sz) = (w', replicate (length new) (Inr ()))"
      "logged w' segs'" "concat (map snd segs') = concat (map snd (pre @ [(i, whole k ps)])) @ new"
    using append_all_logged [OF op(1)] assms(4,5) op(2) by metis
  from logged_reads [OF w'(2)] w' show ?thesis by (simp add: Let_def del: read_calls.simps length_concat)
qed

theorem wal_crash_recovery_witness:
  "read_calls 3 (wal_reader_open (wl_disk (wal_flush (fst (wal_append_all [[9]]
     (wal_open_or_create (om_insert 0 (take 15 (frames [[1, 2], [3, 4]])) om_empty) 64)))))) =
   [Inr (Some [1, 2]), Inr (Some [9]), Inr None]"
proof -
  have "om_entries (om_insert (0 :: u64) (take 15 (frames [[1, 2], [3, 4]])) om_empty) =
      map seg_file [] @ [(0, take 15 (frames [[1, 2], [3, 4]]))]"
    by (simp add: om_insert.rep_eq)
  from wal_crash_recovery [OF this, of "[[9]]" 64] show ?thesis
    by (simp add: Let_def numeral_3_eq_3 del: read_calls.simps)
qed

end
