(* ===== verification/FL_Mold.thy ===== *)
theory FL_Mold
  imports FL_Prelude FL_OrdMap
begin

text \<open>
  MoldUDP64 framing and gap recovery (\<open>replay/src/moldudp.rs\<close>): the frame parser, the message iterator,
  which stays where it is after an error, and the gap tracker with its bounded forward buffer. \<open>ingest\<close>
  loops until the iterator is exhausted, so it is a partial function: \<open>None\<close> means that it never returns.
\<close>

section \<open>Frames\<close>

datatype mold_error = TooShort nat nat | MessageOverflow nat nat | TrailingBytes nat

record mold_header =
  mh_session :: bytes
  mh_sequence :: u64
  mh_count :: u16

definition mold_header_size :: nat where
  "mold_header_size = 20"

definition is_heartbeat :: "mold_header \<Rightarrow> bool" where
  "is_heartbeat h \<longleftrightarrow> mh_count h = 0"

definition is_end_of_session :: "mold_header \<Rightarrow> bool" where
  "is_end_of_session h \<longleftrightarrow> mh_count h = 0xFFFF"

record mold_frame =
  mf_header :: mold_header
  mf_body :: bytes

definition mold_parse :: "bytes \<Rightarrow> mold_error + mold_frame" where
  "mold_parse datagram =
     (if length datagram < mold_header_size then Inl (TooShort mold_header_size (length datagram))
      else
        let header = \<lparr>mh_session = take 10 datagram, mh_sequence = from_be (slice 10 18 datagram),
                      mh_count = from_be (slice 18 20 datagram)\<rparr>;
            body = drop mold_header_size datagram
        in if (is_heartbeat header \<or> is_end_of_session header) \<and> body \<noteq> []
           then Inl (TrailingBytes (length body))
           else Inr \<lparr>mf_header = header, mf_body = body\<rparr>)"

record mold_iter =
  mi_body :: bytes
  mi_offset :: nat
  mi_next_seq :: u64
  mi_remaining :: u32

definition mold_messages :: "mold_frame \<Rightarrow> mold_iter" where
  "mold_messages fr = \<lparr>mi_body = mf_body fr, mi_offset = 0, mi_next_seq = mh_sequence (mf_header fr),
     mi_remaining = (if is_heartbeat (mf_header fr) \<or> is_end_of_session (mf_header fr) then 0
                     else ucast (mh_count (mf_header fr)))\<rparr>"

definition mold_next :: "mold_iter \<Rightarrow> mold_iter \<times> (mold_error + u64 \<times> bytes) option" where
  "mold_next it =
     (if mi_remaining it = 0 then (it, None)
      else if length (mi_body it) < mi_offset it + 2 then
        (it, Some (Inl (TooShort 2 (length (mi_body it) - mi_offset it))))
      else
        let len = unat (from_be [mi_body it ! mi_offset it, mi_body it ! (mi_offset it + 1)] :: u16);
            start = mi_offset it + 2;
            end' = start + len
        in if length (mi_body it) < end' then (it, Some (Inl (MessageOverflow len (mi_offset it))))
           else (it\<lparr>mi_next_seq := mi_next_seq it + 1, mi_offset := end',
                    mi_remaining := mi_remaining it - 1\<rparr>,
                 Some (Inr (mi_next_seq it, slice start end' (mi_body it)))))"

section \<open>The gap tracker\<close>

record gap_stats =
  gs_in_order_delivered :: u64
  gs_reordered_delivered :: u64
  gs_gaps_opened :: u64
  gs_gaps_closed :: u64
  gs_dropped_overflow :: u64
  gs_duplicates_ignored :: u64

record gap_tracker =
  gt_expected :: u64
  gt_pending :: "(u64, bytes) omap"
  gt_max_buffered :: nat
  gt_stats :: gap_stats

record delivered =
  dl_sequence :: u64
  dl_payload :: bytes

definition gap_stats_default :: gap_stats where
  "gap_stats_default = \<lparr>gs_in_order_delivered = 0, gs_reordered_delivered = 0, gs_gaps_opened = 0,
     gs_gaps_closed = 0, gs_dropped_overflow = 0, gs_duplicates_ignored = 0\<rparr>"

definition gt_with_capacity :: "u64 \<Rightarrow> nat \<Rightarrow> gap_tracker" where
  "gt_with_capacity start cap =
     \<lparr>gt_expected = start, gt_pending = om_empty, gt_max_buffered = cap, gt_stats = gap_stats_default\<rparr>"

definition gt_new :: "u64 \<Rightarrow> gap_tracker" where
  "gt_new start = \<lparr>gt_expected = start, gt_pending = om_empty, gt_max_buffered = 16 * 1024,
     gt_stats = gap_stats_default\<rparr>"

definition gt_open_gap :: "gap_tracker \<Rightarrow> (u64 \<times> u64) option" where
  "gt_open_gap t =
     (case om_first_key (gt_pending t) of
        None \<Rightarrow> None
      | Some first_buffered \<Rightarrow>
          if gt_expected t < first_buffered then Some (gt_expected t, first_buffered - 1) else None)"

definition drain_step :: "gap_tracker \<Rightarrow> u64 \<Rightarrow> gap_tracker \<times> delivered" where
  "drain_step t next =
     (let buf = the (om_lookup (gt_pending t) next);
          pending = om_remove next (gt_pending t);
          expected = gt_expected t + 1;
          closed = (case om_first_key pending of None \<Rightarrow> False | Some k \<Rightarrow> k \<noteq> expected);
          st = gt_stats t
      in (t\<lparr>gt_pending := pending, gt_expected := expected,
            gt_stats := st\<lparr>gs_reordered_delivered := gs_reordered_delivered st + 1,
                            gs_gaps_closed := (if closed then gs_gaps_closed st + 1 else gs_gaps_closed st)\<rparr>\<rparr>,
          \<lparr>dl_sequence = next, dl_payload = buf\<rparr>))"

function drain :: "gap_tracker \<Rightarrow> delivered list \<Rightarrow> gap_tracker \<times> delivered list" where
  "drain t out =
     (case om_first_key (gt_pending t) of
        None \<Rightarrow> (t, out)
      | Some next \<Rightarrow>
          if next = gt_expected t then
            let (t', d) = drain_step t next in drain t' (out @ [d])
          else (t, out))"
  by pat_completeness auto
termination
proof (relation "measure (\<lambda>(t, _). om_size (gt_pending t))", goal_cases)
  case (2 t out nxt)
  then have "nxt \<in> set (om_keys (gt_pending t))"
    by (auto simp: om_first_key_def split: list.splits)
  then have lk: "om_lookup (gt_pending t) nxt \<noteq> None" by (simp add: om_key_iff)
  then have "om_size (gt_pending t) \<noteq> 0" by (auto simp: om_size_0_iff)
  with lk 2 show ?case by (auto simp: drain_step_def Let_def om_size_remove)
qed simp

declare drain.simps [simp del]

definition bump_duplicates :: "gap_tracker \<Rightarrow> gap_tracker" where
  "bump_duplicates t =
     t\<lparr>gt_stats := (gt_stats t)\<lparr>gs_duplicates_ignored := gs_duplicates_ignored (gt_stats t) + 1\<rparr>\<rparr>"

definition ingest_one :: "u64 \<Rightarrow> bytes \<Rightarrow> gap_tracker \<times> delivered list \<Rightarrow> gap_tracker \<times> delivered list" where
  "ingest_one seq payload = (\<lambda>(t, out).
     if seq < gt_expected t then (bump_duplicates t, out)
     else if seq = gt_expected t then
       drain (t\<lparr>gt_expected := gt_expected t + 1,
                gt_stats := (gt_stats t)\<lparr>gs_in_order_delivered := gs_in_order_delivered (gt_stats t) + 1\<rparr>\<rparr>)
         (out @ [\<lparr>dl_sequence = seq, dl_payload = payload\<rparr>])
     else
       let t1 = (if om_size (gt_pending t) = 0
                 then t\<lparr>gt_stats := (gt_stats t)\<lparr>gs_gaps_opened := gs_gaps_opened (gt_stats t) + 1\<rparr>\<rparr> else t)
       in if gt_max_buffered t1 \<le> om_size (gt_pending t1) then
            (t1\<lparr>gt_stats := (gt_stats t1)\<lparr>gs_dropped_overflow := gs_dropped_overflow (gt_stats t1) + 1\<rparr>\<rparr>, out)
          else if om_lookup (gt_pending t1) seq \<noteq> None then (bump_duplicates t1, out)
          else (t1\<lparr>gt_pending := om_insert seq payload (gt_pending t1)\<rparr>, out))"

definition gt_ingest_single :: "u64 \<Rightarrow> bytes \<Rightarrow> gap_tracker \<Rightarrow> gap_tracker \<times> delivered list" where
  "gt_ingest_single seq payload t = ingest_one seq payload (t, [])"

partial_function (option) ingest_loop ::
  "mold_iter \<Rightarrow> gap_tracker \<times> delivered list \<Rightarrow> (gap_tracker \<times> delivered list) option" where
  "ingest_loop it st =
     (case mold_next it of
        (it', None) \<Rightarrow> Some st
      | (it', Some (Inl e)) \<Rightarrow> ingest_loop it' st
      | (it', Some (Inr (seq, payload))) \<Rightarrow> ingest_loop it' (ingest_one seq payload st))"

definition gt_ingest :: "mold_frame \<Rightarrow> gap_tracker \<Rightarrow> (gap_tracker \<times> delivered list) option" where
  "gt_ingest fr t = ingest_loop (mold_messages fr) (t, [])"

section \<open>The UDP feed handler\<close>

text \<open>
  One step of \<open>UdpFeedHandler\<close> (\<open>replay/src/udp_source.rs\<close>): what the socket answers is an argument; the
  messages passed to the sink are returned in order.
\<close>

datatype recv_result = Received bytes | ReadTimeout | RecvFailed

definition udp_scratch_len :: nat where
  "udp_scratch_len = 65536"

definition udp_step :: "recv_result \<Rightarrow> gap_tracker \<Rightarrow>
    (gap_tracker \<times> delivered list \<times> (unit + nat option)) option" where
  "udp_step recv t =
     (case recv of
        ReadTimeout \<Rightarrow> Some (t, [], Inr None)
      | RecvFailed \<Rightarrow> Some (t, [], Inl ())
      | Received dg \<Rightarrow>
          (case mold_parse (take udp_scratch_len dg) of
             Inl _ \<Rightarrow> Some (t, [], Inr (Some 0))
           | Inr frame \<Rightarrow>
               map_option (\<lambda>(t', ds). (t', ds, Inr (Some (length ds)))) (gt_ingest frame t)))"

definition udp_ingest_retransmit :: "u64 \<Rightarrow> bytes \<Rightarrow> gap_tracker \<Rightarrow> gap_tracker \<times> delivered list" where
  "udp_ingest_retransmit seq payload t = gt_ingest_single seq payload t"

text \<open>The handler's loop over a list of socket answers, collecting what the sink sees.\<close>

fun udp_run :: "recv_result list \<Rightarrow> gap_tracker \<Rightarrow> (gap_tracker \<times> delivered list) option" where
  "udp_run [] t = Some (t, [])"
| "udp_run (r # rs) t =
     (case udp_step r t of
        None \<Rightarrow> None
      | Some (t', ds, _) \<Rightarrow> map_option (\<lambda>(t'', ds'). (t'', ds @ ds')) (udp_run rs t'))"

end
