(* ===== verification/FL_MoldProperties.thy ===== *)
theory FL_MoldProperties
  imports FL_Mold
begin

text \<open>
  The gap tracker delivers a gapless stream: every call keeps the buffered sequence numbers ahead of the
  expected one and within the buffer bound, deliveries are consecutive, and a stream of which every
  message arrives at least once comes out complete and in order whatever the arrival order. A frame whose
  declared messages do not fit its body makes \<open>ingest\<close> loop for ever.
\<close>

section \<open>Order of delivery\<close>

definition gt_inv :: "gap_tracker \<Rightarrow> bool" where
  "gt_inv t \<longleftrightarrow> (\<forall>k p. om_lookup (gt_pending t) k = Some p \<longrightarrow> gt_expected t < k) \<and>
     om_size (gt_pending t) \<le> gt_max_buffered t"

text \<open>\<open>extends t out (t', out')\<close>: \<open>out'\<close> adds the messages \<open>expected\<close>, \<open>expected + 1\<close>, ... and \<open>t'\<close> expects the next.\<close>

definition extends :: "gap_tracker \<Rightarrow> delivered list \<Rightarrow> gap_tracker \<times> delivered list \<Rightarrow> bool" where
  "extends t out r \<longleftrightarrow> (\<exists>ds. snd r = out @ ds \<and>
     map dl_sequence ds = map (\<lambda>i. gt_expected t + of_nat i) [0..<length ds] \<and>
     gt_expected (fst r) = gt_expected t + of_nat (length ds) \<and>
     gt_max_buffered (fst r) = gt_max_buffered t)"

lemma succ_le_u64: "x < y \<Longrightarrow> x + 1 \<le> (y :: u64)"
  by (rule inc_le)

lemma extends_refl:
  "gt_expected t' = gt_expected t \<Longrightarrow> gt_max_buffered t' = gt_max_buffered t \<Longrightarrow> extends t out (t', out)"
  by (simp add: extends_def)

lemma extends_one:
  assumes "dl_sequence d = gt_expected t" "gt_expected t1 = gt_expected t + 1"
    "gt_max_buffered t1 = gt_max_buffered t" "extends t1 (out @ [d]) r"
  shows "extends t out r"
proof -
  obtain ds where ds: "snd r = out @ d # ds"
      "map dl_sequence ds = map (\<lambda>i. gt_expected t1 + of_nat i) [0..<length ds]"
      "gt_expected (fst r) = gt_expected t1 + of_nat (length ds)"
      "gt_max_buffered (fst r) = gt_max_buffered t1"
    using assms(4) by (auto simp: extends_def)
  have "map dl_sequence (d # ds) = map (\<lambda>i. gt_expected t + of_nat i) [0..<Suc (length ds)]"
    using ds(2) assms(1,2) by (simp add: upt_conv_Cons map_Suc_upt [symmetric] add.assoc del: upt_Suc)
  then show ?thesis
    using ds assms(2,3) unfolding extends_def by (intro exI [of _ "d # ds"]) (simp add: add.assoc)
qed

lemma extends_trans:
  assumes "extends t out (t1, out1)" "extends t1 out1 r"
  shows "extends t out r"
proof -
  obtain ds es where ds: "out1 = out @ ds" "snd r = out1 @ es"
      "map dl_sequence ds = map (\<lambda>i. gt_expected t + of_nat i) [0..<length ds]"
      "map dl_sequence es = map (\<lambda>i. gt_expected t1 + of_nat i) [0..<length es]"
      "gt_expected t1 = gt_expected t + of_nat (length ds)"
      "gt_expected (fst r) = gt_expected t1 + of_nat (length es)"
      "gt_max_buffered t1 = gt_max_buffered t" "gt_max_buffered (fst r) = gt_max_buffered t1"
    using assms by (auto simp: extends_def)
  have "[0..<length ds + length es] = [0..<length ds] @ map (\<lambda>i. i + length ds) [0..<length es]"
    unfolding map_add_upt by (subst upt_add_eq_append) (simp_all add: add.commute)
  then have "map dl_sequence (ds @ es) = map (\<lambda>i. gt_expected t + of_nat i) [0..<length (ds @ es)]"
    using ds(3,4,5) by (simp add: comp_def add.assoc add.commute)
  then show ?thesis
    using ds unfolding extends_def by (intro exI [of _ "ds @ es"]) (simp add: add.assoc)
qed

lemma drain_inv:
  "(\<forall>k p. om_lookup (gt_pending t) k = Some p \<longrightarrow> gt_expected t \<le> k) \<Longrightarrow>
   om_size (gt_pending t) \<le> gt_max_buffered t \<Longrightarrow>
   gt_inv (fst (drain t out)) \<and> extends t out (drain t out)"
proof (induction t out rule: drain.induct)
  case (1 t out)
  show ?case
  proof (cases "om_first_key (gt_pending t)")
    case None
    then have "gt_pending t = om_empty" by (simp add: om_first_key_None)
    then show ?thesis using None by (simp add: drain.simps gt_inv_def extends_refl)
  next
    case (Some k)
    note first = om_first_key_Some [THEN iffD1, OF Some]
    show ?thesis
    proof (cases "k = gt_expected t")
      case False
      have "gt_expected t \<le> k" using first "1.prems"(1) by blast
      with False have "gt_expected t < k" by simp
      then have "gt_expected t < k'" if "om_lookup (gt_pending t) k' = Some p" for k' p
        using first that by (auto intro: less_le_trans)
      then have "gt_inv t"
        using "1.prems"(2) by (simp add: gt_inv_def)
      then show ?thesis using Some False by (simp add: drain.simps extends_refl)
    next
      case True
      obtain t1 d where td: "drain_step t k = (t1, d)" by force
      have t1: "gt_pending t1 = om_remove k (gt_pending t)" "gt_expected t1 = gt_expected t + 1"
          "gt_max_buffered t1 = gt_max_buffered t" "dl_sequence d = k"
        using td by (auto simp: drain_step_def Let_def)
      have "gt_expected t1 \<le> k'" if "om_lookup (gt_pending t1) k' = Some p" for k' p
        using that "1.prems"(1) True t1(1,2)
        by (auto simp: om_lookup_remove split: if_splits intro!: succ_le_u64 order_neq_le_trans)
      moreover have "om_size (gt_pending t1) \<le> gt_max_buffered t1"
        using "1.prems"(2) t1 by (auto simp: om_size_remove)
      ultimately have "gt_inv (fst (drain t1 (out @ [d]))) \<and> extends t1 (out @ [d]) (drain t1 (out @ [d]))"
        using "1.IH" [OF Some True td [symmetric]] by blast
      then show ?thesis
        using Some True td t1 extends_one [of d t t1 out] by (simp add: drain.simps [of t])
    qed
  qed
qed

lemma ingest_one_inv:
  assumes "gt_inv t"
  shows "gt_inv (fst (ingest_one seq payload (t, out))) \<and> extends t out (ingest_one seq payload (t, out))"
proof -
  consider "seq < gt_expected t" | "seq = gt_expected t" | "gt_expected t < seq" by force
  then show ?thesis
  proof cases
    case 1
    then show ?thesis
      using assms by (simp add: ingest_one_def bump_duplicates_def gt_inv_def extends_refl)
  next
    case 2
    let ?t = "t\<lparr>gt_expected := gt_expected t + 1, gt_stats :=
      (gt_stats t)\<lparr>gs_in_order_delivered := gs_in_order_delivered (gt_stats t) + 1\<rparr>\<rparr>"
    let ?d = "\<lparr>dl_sequence = seq, dl_payload = payload\<rparr>"
    have "gt_inv (fst (drain ?t (out @ [?d]))) \<and> extends ?t (out @ [?d]) (drain ?t (out @ [?d]))"
      using assms by (intro drain_inv) (auto simp: gt_inv_def intro: succ_le_u64)
    then show ?thesis
      using 2 extends_one [of ?d t ?t out] by (simp add: ingest_one_def)
  next
    case 3
    then show ?thesis
      using assms
      by (auto simp: ingest_one_def bump_duplicates_def gt_inv_def Let_def om_lookup_insert om_size_insert
          intro!: extends_refl split: if_splits)
  qed
qed

section \<open>Completeness of delivery\<close>

definition sq :: "nat \<Rightarrow> nat \<Rightarrow> u64" where
  "sq start i = of_nat (start + i)"

definition stream_prefix :: "nat \<Rightarrow> (nat \<Rightarrow> bytes) \<Rightarrow> nat \<Rightarrow> delivered list" where
  "stream_prefix start P m = map (\<lambda>i. \<lparr>dl_sequence = sq start i, dl_payload = P i\<rparr>) [0..<m]"

text \<open>
  The messages numbered \<open>S\<close> have arrived, the first \<open>m\<close> were delivered, the others from \<open>m\<close> on wait.
\<close>

definition tracked :: "nat \<Rightarrow> nat \<Rightarrow> (nat \<Rightarrow> bytes) \<Rightarrow> nat set \<Rightarrow> nat \<Rightarrow> gap_tracker \<times> delivered list \<Rightarrow> bool" where
  "tracked start n P S m r \<longleftrightarrow> S \<subseteq> {..<n} \<and> {..<m} \<subseteq> S \<and> n \<le> gt_max_buffered (fst r) \<and>
     gt_expected (fst r) = sq start m \<and> snd r = stream_prefix start P m \<and>
     (\<forall>k p. om_lookup (gt_pending (fst r)) k = Some p \<longleftrightarrow> (\<exists>i \<in> S. m \<le> i \<and> k = sq start i \<and> p = P i))"

lemma unat_sq: "start + i < 2 ^ 64 \<Longrightarrow> unat (sq start i) = start + i"
  unfolding sq_def by (rule unat_of_nat_small) simp

lemma sq_less: "start + n < 2 ^ 64 \<Longrightarrow> i \<le> n \<Longrightarrow> j \<le> n \<Longrightarrow> sq start i < sq start j \<longleftrightarrow> i < j"
  by (simp add: word_less_nat_alt unat_sq)

lemma sq_eq: "start + n < 2 ^ 64 \<Longrightarrow> i \<le> n \<Longrightarrow> j \<le> n \<Longrightarrow> sq start i = sq start j \<longleftrightarrow> i = j"
  by (simp add: word_unat_eq_iff unat_sq)

lemma sq_Suc: "sq start m + 1 = sq start (Suc m)"
  by (simp add: sq_def)

lemma stream_prefix_Suc:
  "stream_prefix start P (Suc m) = stream_prefix start P m @ [\<lparr>dl_sequence = sq start m, dl_payload = P m\<rparr>]"
  by (simp add: stream_prefix_def)

lemma tracked_le: "tracked start n P S m r \<Longrightarrow> m \<le> n"
  by (meson lessThan_subset_iff subset_trans tracked_def)

lemma drain_tracked:
  assumes "start + n < 2 ^ 64"
  shows "tracked start n P S m (t, out) \<Longrightarrow> \<exists>m'. tracked start n P S m' (drain t out) \<and> m' \<notin> S"
proof (induction t out arbitrary: m rule: drain.induct)
  case (1 t out)
  have le: "i \<le> n" if "i \<in> S" for i using "1.prems" that by (auto simp: tracked_def)
  have mn: "m \<le> n" using "1.prems" by (rule tracked_le)
  have lk: "om_lookup (gt_pending t) k = Some p \<longleftrightarrow> (\<exists>i \<in> S. m \<le> i \<and> k = sq start i \<and> p = P i)" for k p
    using "1.prems" by (simp add: tracked_def)
  have ex: "gt_expected t = sq start m" using "1.prems" by (simp add: tracked_def)
  show ?case
  proof (cases "om_first_key (gt_pending t) = Some (sq start m)")
    case False
    have "m \<notin> S"
    proof
      assume "m \<in> S"
      then have in_p: "om_lookup (gt_pending t) (sq start m) \<noteq> None" using lk [of "sq start m" "P m"] by auto
      moreover have "sq start m \<le> k" if "om_lookup (gt_pending t) k \<noteq> None" for k
      proof -
        from that obtain p where "om_lookup (gt_pending t) k = Some p" by auto
        then obtain i where "i \<in> S" "m \<le> i" "k = sq start i" unfolding lk by auto
        then show ?thesis using sq_less [OF assms, of i m] le mn by (simp add: not_less [symmetric])
      qed
      ultimately have "om_first_key (gt_pending t) = Some (sq start m)" by (simp add: om_first_key_Some)
      with False show False by contradiction
    qed
    moreover have "drain t out = (t, out)"
      using False ex by (auto simp: drain.simps split: option.split)
    ultimately show ?thesis using "1.prems" by auto
  next
    case True
    obtain t1 d where td: "drain_step t (sq start m) = (t1, d)" by force
    obtain i where i: "i \<in> S" "m \<le> i" "sq start m = sq start i"
      using True lk [of "sq start m"] by (auto simp: om_first_key_Some)
    then have m: "m \<in> S" using sq_eq [OF assms mn le] by auto
    have t1: "gt_pending t1 = om_remove (sq start m) (gt_pending t)" "gt_expected t1 = sq start (Suc m)"
        "gt_max_buffered t1 = gt_max_buffered t" "d = \<lparr>dl_sequence = sq start m, dl_payload = P m\<rparr>"
      using td m ex lk [of "sq start m" "P m"] by (auto simp: drain_step_def Let_def sq_Suc)
    have e: "sq start i = sq start m \<longleftrightarrow> i = m" if "i \<in> S" for i
      using sq_eq [OF assms le [OF that] mn] .
    have "om_lookup (gt_pending t1) k = Some p \<longleftrightarrow> (\<exists>i \<in> S. Suc m \<le> i \<and> k = sq start i \<and> p = P i)" for k p
    proof -
      have "om_lookup (gt_pending t1) k = Some p \<longleftrightarrow> k \<noteq> sq start m \<and> om_lookup (gt_pending t) k = Some p"
        by (simp add: t1(1) om_lookup_remove)
      also have "\<dots> \<longleftrightarrow> (\<exists>i \<in> S. (m \<le> i \<and> i \<noteq> m) \<and> k = sq start i \<and> p = P i)"
        unfolding lk by (auto simp: e)
      also have "\<dots> \<longleftrightarrow> (\<exists>i \<in> S. Suc m \<le> i \<and> k = sq start i \<and> p = P i)"
        by (rule bex_cong) auto
      finally show ?thesis .
    qed
    then have "tracked start n P S (Suc m) (t1, out @ [d])"
      using "1.prems" m t1 by (auto simp: tracked_def stream_prefix_Suc less_Suc_eq)
    then obtain m' where "tracked start n P S m' (drain t1 (out @ [d]))" "m' \<notin> S"
      using "1.IH" [OF True ex [symmetric] td [symmetric]] by blast
    moreover have "drain t out = drain t1 (out @ [d])"
      using True ex td by (simp add: drain.simps [of t])
    ultimately show ?thesis by auto
  qed
qed

lemma ingest_tracked:
  assumes b: "start + n < 2 ^ 64" and tr: "tracked start n P S m (t, out)" and mS: "m \<notin> S" and s: "s < n"
  shows "\<exists>m'. tracked start n P (insert s S) m' (ingest_one (sq start s) (P s) (t, out)) \<and> m' \<notin> insert s S"
proof -
  have mn: "m \<le> n" using tr by (rule tracked_le)
  have le: "i \<le> n" if "i \<in> S" for i using tr that by (auto simp: tracked_def)
  have lk: "om_lookup (gt_pending t) k = Some p \<longleftrightarrow> (\<exists>i \<in> S. m \<le> i \<and> k = sq start i \<and> p = P i)" for k p
    using tr by (simp add: tracked_def)
  have ex: "gt_expected t = sq start m" using tr by (simp add: tracked_def)
  consider "s < m" | "s = m" | "m < s" by linarith
  then show ?thesis
  proof cases
    case 1
    then have "s \<in> S" using tr by (auto simp: tracked_def)
    moreover have "sq start s < gt_expected t" using 1 sq_less [OF b, of s m] mn s ex by simp
    ultimately show ?thesis
      using tr mS by (intro exI [of _ m]) (simp add: ingest_one_def bump_duplicates_def insert_absorb tracked_def)
  next
    case 2
    let ?t = "t\<lparr>gt_expected := gt_expected t + 1, gt_stats :=
      (gt_stats t)\<lparr>gs_in_order_delivered := gs_in_order_delivered (gt_stats t) + 1\<rparr>\<rparr>"
    let ?d = "\<lparr>dl_sequence = sq start s, dl_payload = P s\<rparr>"
    have "(\<exists>i \<in> S. m \<le> i \<and> Q i) \<longleftrightarrow> (\<exists>i \<in> insert m S. Suc m \<le> i \<and> Q i)" for Q
      using mS by (metis Suc_le_eq insert_iff le_less not_less_eq_eq order_refl)
    then have "tracked start n P (insert s S) (Suc m) (?t, out @ [?d])"
      using tr 2 s lk by (auto simp: tracked_def stream_prefix_Suc sq_Suc less_Suc_eq)
    from drain_tracked [OF b this] show ?thesis using 2 ex by (simp add: ingest_one_def)
  next
    case 3
    have lt: "sq start m < sq start s" using 3 sq_less [OF b, of m s] mn s by simp
    have "dom (om_lookup (gt_pending t)) \<subseteq> sq start ` (S - {m})"
      using lk mS by (auto simp: dom_def)
    moreover have "finite S" using tr finite_subset by (auto simp: tracked_def)
    ultimately have "card (dom (om_lookup (gt_pending t))) \<le> card (S - {m})"
      by (meson card_image_le card_mono finite_Diff finite_imageI order_trans)
    also have "\<dots> < n"
    proof -
      have "S - {m} \<subseteq> {..<n} - {m}" using tr by (auto simp: tracked_def)
      then have "card (S - {m}) \<le> n - 1"
        using card_mono [of "{..<n} - {m}" "S - {m}"] 3 s by simp
      then show ?thesis using s by linarith
    qed
    finally have room: "\<not> gt_max_buffered t \<le> om_size (gt_pending t)"
      using tr by (simp add: om_size_card tracked_def)
    have dup: "om_lookup (gt_pending t) (sq start s) = (if s \<in> S then Some (P s) else None)"
    proof (cases "s \<in> S")
      case True
      then have "\<exists>i \<in> S. m \<le> i \<and> sq start s = sq start i \<and> P s = P i"
        using 3 by (intro bexI [of _ s]) simp_all
      then show ?thesis using True by (simp only: lk [symmetric]) simp
    next
      case False
      then have "om_lookup (gt_pending t) (sq start s) \<noteq> Some p" for p
        using lk [of "sq start s" p] sq_eq [OF b, of s] le s by auto
      with False show ?thesis by (cases "om_lookup (gt_pending t) (sq start s)") auto
    qed
    show ?thesis
    proof (cases "s \<in> S")
      case True
      then show ?thesis
        using tr mS lt ex room dup
        by (intro exI [of _ m]) (auto simp: ingest_one_def bump_duplicates_def Let_def insert_absorb tracked_def)
    next
      case False
      then have "(if k = sq start s then Some (P s) else om_lookup (gt_pending t) k) = Some p \<longleftrightarrow>
          (\<exists>i \<in> insert s S. m \<le> i \<and> k = sq start i \<and> p = P i)" for k p
        using lk [of k p] 3 sq_eq [OF b, of s] le s by auto
      with False show ?thesis
        using tr mS lt ex room dup s 3
        by (intro exI [of _ m]) (auto simp: ingest_one_def Let_def tracked_def om_lookup_insert)
    qed
  qed
qed

section \<open>Frames\<close>

fun ingest_all :: "u64 \<Rightarrow> bytes list \<Rightarrow> gap_tracker \<times> delivered list \<Rightarrow> gap_tracker \<times> delivered list" where
  "ingest_all s [] st = st"
| "ingest_all s (m # ms) st = ingest_all (s + 1) ms (ingest_one s m st)"

definition enc_msg :: "bytes \<Rightarrow> bytes" where
  "enc_msg m = to_be 2 (of_nat (length m) :: u16) @ m"

text \<open>The wire image of a data frame, as the protocol defines it.\<close>

definition mold_encode :: "bytes \<Rightarrow> u64 \<Rightarrow> bytes list \<Rightarrow> bytes" where
  "mold_encode session seq msgs =
     session @ to_be 8 seq @ to_be 2 (of_nat (length msgs) :: u16) @ concat (map enc_msg msgs)"

text \<open>\<open>body_ok body off n\<close>: \<open>n\<close> complete messages stand in \<open>body\<close> from \<open>off\<close> on.\<close>

fun body_ok :: "bytes \<Rightarrow> nat \<Rightarrow> nat \<Rightarrow> bool" where
  "body_ok body off 0 = True"
| "body_ok body off (Suc n) =
     (off + 2 \<le> length body \<and>
      off + 2 + unat (from_be [body ! off, body ! (off + 1)] :: u16) \<le> length body \<and>
      body_ok body (off + 2 + unat (from_be [body ! off, body ! (off + 1)] :: u16)) n)"

lemma unat_minus_one: "x \<noteq> 0 \<Longrightarrow> unat (x - 1 :: u32) = unat x - 1"
  by (simp add: unat_minus_one)

lemma mold_next_error:
  assumes "mi_remaining it \<noteq> 0" and "length (mi_body it) < mi_offset it + 2 \<or> length (mi_body it) <
    mi_offset it + 2 + unat (from_be [mi_body it ! mi_offset it, mi_body it ! (mi_offset it + 1)] :: u16)"
  shows "\<exists>e. mold_next it = (it, Some (Inl e))"
  using assms by (auto simp: mold_next_def Let_def)

lemma ingest_loop_returns_ok:
  assumes "ingest_loop it st = Some r"
  shows "body_ok (mi_body it) (mi_offset it) (unat (mi_remaining it))"
proof (rule ingest_loop.raw_induct [OF _ assms,
    where P = "\<lambda>it st r. body_ok (mi_body it) (mi_offset it) (unat (mi_remaining it))"])
  fix loop :: "mold_iter \<Rightarrow> gap_tracker \<times> delivered list \<Rightarrow> (gap_tracker \<times> delivered list) option"
  fix it st r
  assume IH: "\<And>it st r. loop it st = Some r \<Longrightarrow> body_ok (mi_body it) (mi_offset it) (unat (mi_remaining it))"
  assume eq: "(case mold_next it of (it', None) \<Rightarrow> Some st
      | (it', Some (Inl e)) \<Rightarrow> loop it' st
      | (it', Some (Inr (seq, payload))) \<Rightarrow> loop it' (ingest_one seq payload st)) = Some r"
  let ?len = "unat (from_be [mi_body it ! mi_offset it, mi_body it ! (mi_offset it + 1)] :: u16)"
  show "body_ok (mi_body it) (mi_offset it) (unat (mi_remaining it))"
  proof (cases "mi_remaining it = 0")
    case False
    then obtain n where n: "unat (mi_remaining it) = Suc n" "unat (mi_remaining it - 1) = n"
      by (metis Suc_pred unat_minus_one unat_gt_0 diff_Suc_1)
    show ?thesis
    proof (cases "length (mi_body it) < mi_offset it + 2 \<or> length (mi_body it) < mi_offset it + 2 + ?len")
      case True
      with False obtain e where "mold_next it = (it, Some (Inl e))"
        using mold_next_error by blast
      then have "loop it st = Some r" using eq by simp
      then show ?thesis by (rule IH)
    next
      case ok: False
      let ?it = "it\<lparr>mi_next_seq := mi_next_seq it + 1, mi_offset := mi_offset it + 2 + ?len,
        mi_remaining := mi_remaining it - 1\<rparr>"
      have "mold_next it = (?it, Some (Inr (mi_next_seq it, slice (mi_offset it + 2) (mi_offset it + 2 + ?len) (mi_body it))))"
        using False ok by (simp add: mold_next_def Let_def)
      then have "loop ?it (ingest_one (mi_next_seq it)
          (slice (mi_offset it + 2) (mi_offset it + 2 + ?len) (mi_body it)) st) = Some r"
        using eq by simp
      from IH [OF this] n ok show ?thesis by simp
    qed
  qed simp
qed

lemma enc_msg_at:
  assumes "length m < 2 ^ 16"
  shows "from_be [(pre @ enc_msg m @ rest) ! length pre, (pre @ enc_msg m @ rest) ! (length pre + 1)] =
      (of_nat (length m) :: u16)"
    and "slice (length pre + 2) (length pre + 2 + length m) (pre @ enc_msg m @ rest) = m"
    and "length (enc_msg m) = 2 + length m"
proof -
  have "length (to_be 2 (of_nat (length m) :: u16)) = Suc (Suc 0)" by simp
  then obtain a b where ab: "to_be 2 (of_nat (length m) :: u16) = [a, b]"
    by (auto simp only: length_Suc_conv length_0_conv)
  have "from_be [a, b] = (of_nat (length m) :: u16)" unfolding ab [symmetric] by simp
  then show "from_be [(pre @ enc_msg m @ rest) ! length pre, (pre @ enc_msg m @ rest) ! (length pre + 1)] =
      (of_nat (length m) :: u16)"
    by (simp add: enc_msg_def ab nth_append)
  show "slice (length pre + 2) (length pre + 2 + length m) (pre @ enc_msg m @ rest) = m"
    by (simp add: slice_def enc_msg_def ab)
  show "length (enc_msg m) = 2 + length m" by (simp add: enc_msg_def)
qed

lemma ingest_loop_messages:
  "\<lbrakk>mi_body it = pre @ concat (map enc_msg ms) @ post; mi_offset it = length pre;
    mi_remaining it = of_nat (length ms); length ms < 2 ^ 32; \<forall>m \<in> set ms. length m < 2 ^ 16\<rbrakk> \<Longrightarrow>
   ingest_loop it st = Some (ingest_all (mi_next_seq it) ms st)"
proof (induction ms arbitrary: it st pre)
  case Nil
  then show ?case by (subst ingest_loop.simps) (simp add: mold_next_def)
next
  case (Cons m ms)
  let ?it = "it\<lparr>mi_next_seq := mi_next_seq it + 1, mi_offset := length (pre @ enc_msg m),
    mi_remaining := of_nat (length ms)\<rparr>"
  have m: "length m < 2 ^ 16" using Cons.prems by simp
  have body: "mi_body it = pre @ enc_msg m @ (concat (map enc_msg ms) @ post)" using Cons.prems by simp
  note at = enc_msg_at(1,2) [OF m, of pre "concat (map enc_msg ms) @ post", folded body] enc_msg_at(3) [OF m]
  have nz: "mi_remaining it \<noteq> 0" and pred: "mi_remaining it - 1 = of_nat (length ms)"
  proof -
    have "unat (mi_remaining it) = Suc (length ms)"
      using Cons.prems(3,4) by (simp only: Cons.prems(3)) (simp add: unat_of_nat_small del: of_nat_Suc)
    then show "mi_remaining it \<noteq> 0" by auto
    show "mi_remaining it - 1 = of_nat (length ms)" by (simp add: Cons.prems(3))
  qed
  have len: "unat (of_nat (length m) :: u16) = length m" using m by (intro unat_of_nat_small) simp
  have "mold_next it = (?it, Some (Inr (mi_next_seq it, m)))"
    using nz pred at len body Cons.prems(2) by (simp add: mold_next_def Let_def add.commute add.left_commute)
  moreover have "ingest_loop ?it (ingest_one (mi_next_seq it) m st) =
      Some (ingest_all (mi_next_seq it + 1) ms (ingest_one (mi_next_seq it) m st))"
    using Cons.IH [of ?it "pre @ enc_msg m"] Cons.prems body by simp
  ultimately show ?case by (subst ingest_loop.simps) simp
qed

lemma parse_ingest:
  assumes "length session = 10" "msgs \<noteq> []" "length msgs < 65535" "\<forall>m \<in> set msgs. length m < 2 ^ 16"
  shows "\<exists>fr. mold_parse (mold_encode session seq msgs) = Inr fr \<and>
    gt_ingest fr t = Some (ingest_all seq msgs (t, []))"
proof -
  let ?dg = "mold_encode session seq msgs"
  let ?h = "\<lparr>mh_session = session, mh_sequence = seq, mh_count = of_nat (length msgs)\<rparr>"
  have hdr: "take 10 ?dg = session" "from_be (slice 10 18 ?dg) = seq"
      "from_be (slice 18 20 ?dg) = (of_nat (length msgs) :: u16)" "drop 20 ?dg = concat (map enc_msg msgs)"
      "20 \<le> length ?dg"
    using assms(1) by (simp_all add: mold_encode_def slice_def)
  have n: "unat (of_nat (length msgs) :: u16) = length msgs"
    using assms(3) by (intro unat_of_nat_small) simp
  then have count: "of_nat (length msgs) \<noteq> (0 :: u16)" "of_nat (length msgs) \<noteq> (0xFFFF :: u16)"
    using assms(2,3) by (auto simp: word_unat_eq_iff)
  let ?fr = "\<lparr>mf_header = ?h, mf_body = concat (map enc_msg msgs)\<rparr>"
  have "mold_parse ?dg = Inr ?fr"
    using hdr count by (simp add: mold_parse_def mold_header_size_def is_heartbeat_def is_end_of_session_def Let_def)
  moreover have "gt_ingest ?fr t = Some (ingest_all seq msgs (t, []))"
  proof -
    let ?it = "mold_messages ?fr"
    have "ucast (of_nat (length msgs) :: u16) = (of_nat (length msgs) :: u32)"
      using n by (metis of_nat_unat)
    then have "ingest_loop ?it (t, []) = Some (ingest_all (mi_next_seq ?it) msgs (t, []))"
      using count assms(3,4)
      by (intro ingest_loop_messages [where pre = "[]" and post = "[]"])
        (simp_all add: mold_messages_def is_heartbeat_def is_end_of_session_def)
    then show ?thesis by (simp add: gt_ingest_def) (simp add: mold_messages_def)
  qed
  ultimately show ?thesis by blast
qed

lemma body_ok_returns:
  "body_ok (mi_body it) (mi_offset it) (unat (mi_remaining it)) \<Longrightarrow> \<exists>r. ingest_loop it st = Some r"
proof (induction "unat (mi_remaining it)" arbitrary: it st)
  case 0
  then show ?case by (subst ingest_loop.simps) (simp add: mold_next_def unat_eq_0)
next
  case (Suc n)
  let ?len = "unat (from_be [mi_body it ! mi_offset it, mi_body it ! (mi_offset it + 1)] :: u16)"
  let ?it = "it\<lparr>mi_next_seq := mi_next_seq it + 1, mi_offset := mi_offset it + 2 + ?len,
    mi_remaining := mi_remaining it - 1\<rparr>"
  have nz: "mi_remaining it \<noteq> 0" using Suc.hyps(2) by auto
  have ok: "mi_offset it + 2 \<le> length (mi_body it)" "mi_offset it + 2 + ?len \<le> length (mi_body it)"
      "body_ok (mi_body it) (mi_offset it + 2 + ?len) n"
    using Suc.prems unfolding Suc.hyps(2) [symmetric] by simp_all
  have n: "n = unat (mi_remaining ?it)" using Suc.hyps(2) unat_minus_one [OF nz] by simp
  have "\<exists>r. ingest_loop ?it (ingest_one (mi_next_seq it)
      (slice (mi_offset it + 2) (mi_offset it + 2 + ?len) (mi_body it)) st) = Some r"
    using ok(3) n by (intro Suc.hyps(1) [OF n]) simp
  moreover have "mold_next it = (?it, Some (Inr (mi_next_seq it,
      slice (mi_offset it + 2) (mi_offset it + 2 + ?len) (mi_body it))))"
    using nz ok by (simp add: mold_next_def Let_def)
  ultimately show ?case by (subst ingest_loop.simps) simp
qed

section \<open>Output is only appended\<close>

lemma drain_append: "drain t (xs @ ys) = apsnd (\<lambda>ds. xs @ ds) (drain t ys)"
proof (induction t ys rule: drain.induct)
  case (1 t ys)
  show ?case
  proof (cases "om_first_key (gt_pending t) = Some (gt_expected t)")
    case True
    obtain t1 d where td: "drain_step t (gt_expected t) = (t1, d)" by force
    from "1.IH" [OF True refl td [symmetric]] True td show ?thesis
      by (simp add: drain.simps [of t])
  next
    case False
    then show ?thesis by (auto simp: drain.simps [of t] split: option.split)
  qed
qed

lemma ingest_one_append: "ingest_one s p (t, xs @ ys) = apsnd (\<lambda>ds. xs @ ds) (ingest_one s p (t, ys))"
  using drain_append [of _ xs "ys @ _"] by (auto simp: ingest_one_def Let_def)

lemma ingest_all_append: "ingest_all s ms (t, xs @ ys) = apsnd (\<lambda>ds. xs @ ds) (ingest_all s ms (t, ys))"
proof (induction ms arbitrary: s t ys)
  case (Cons m ms)
  obtain t1 zs where "ingest_one s m (t, ys) = (t1, zs)" by force
  then show ?case using Cons [of "s + 1" t1 zs] by (simp add: ingest_one_append)
qed simp

section \<open>A stream of datagrams\<close>

lemma ingest_all_tracked:
  assumes b: "start + n < 2 ^ 64"
  shows "tracked start n P S m r \<Longrightarrow> m \<notin> S \<Longrightarrow> a + c \<le> n \<Longrightarrow>
    \<exists>m'. tracked start n P (S \<union> {a..<a + c}) m' (ingest_all (sq start a) (map P [a..<a + c]) r) \<and>
         m' \<notin> S \<union> {a..<a + c}"
proof (induction c arbitrary: a S m r)
  case (Suc c)
  obtain m1 where m1: "tracked start n P (insert a S) m1 (ingest_one (sq start a) (P a) r)" "m1 \<notin> insert a S"
    using ingest_tracked [OF b, of P S m "fst r" "snd r" a] Suc.prems by auto
  have "{a..<a + Suc c} = insert a {Suc a..<Suc a + c}" by auto
  moreover have "map P [a..<a + Suc c] = P a # map P [Suc a..<Suc a + c]"
    by (simp add: upt_conv_Cons del: upt_Suc)
  ultimately show ?case
    using Suc.IH [OF m1, of "Suc a"] Suc.prems(3) by (simp add: sq_Suc insert_commute Un_insert_right)
qed auto

definition data_frame :: "bytes \<Rightarrow> nat \<Rightarrow> (nat \<Rightarrow> bytes) \<Rightarrow> nat \<times> nat \<Rightarrow> bytes" where
  "data_frame session start P f = mold_encode session (sq start (fst f)) (map P [fst f..<fst f + snd f])"

definition frame_fits :: "bytes \<Rightarrow> nat \<Rightarrow> (nat \<Rightarrow> bytes) \<Rightarrow> nat \<Rightarrow> nat \<times> nat \<Rightarrow> bool" where
  "frame_fits session start P n f \<longleftrightarrow> 0 < snd f \<and> snd f < 65535 \<and> fst f + snd f \<le> n \<and>
     (\<forall>i < n. length (P i) < 2 ^ 16) \<and> length (data_frame session start P f) \<le> udp_scratch_len"

lemma udp_step_tracked:
  assumes b: "start + n < 2 ^ 64" "length session = 10" and fits: "frame_fits session start P n f"
    and tr: "tracked start n P S m (t, out)" "m \<notin> S"
  shows "\<exists>t' ds x m'. udp_step (Received (data_frame session start P f)) t = Some (t', ds, x) \<and>
    tracked start n P (S \<union> {fst f..<fst f + snd f}) m' (t', out @ ds) \<and> m' \<notin> S \<union> {fst f..<fst f + snd f}"
proof -
  let ?ms = "map P [fst f..<fst f + snd f]"
  obtain fr where fr: "mold_parse (data_frame session start P f) = Inr fr"
      "gt_ingest fr t = Some (ingest_all (sq start (fst f)) ?ms (t, []))"
    using parse_ingest [OF b(2), of ?ms "sq start (fst f)" t] fits by (auto simp: frame_fits_def data_frame_def)
  obtain t' ds where ds: "ingest_all (sq start (fst f)) ?ms (t, []) = (t', ds)" by force
  then have "ingest_all (sq start (fst f)) ?ms (t, out) = (t', out @ ds)"
    using ingest_all_append [of _ _ t out "[]"] by simp
  with ingest_all_tracked [OF b(1) tr, of "fst f" "snd f"] fits
  obtain m' where "tracked start n P (S \<union> {fst f..<fst f + snd f}) m' (t', out @ ds)"
      "m' \<notin> S \<union> {fst f..<fst f + snd f}"
    by (auto simp: frame_fits_def)
  moreover have "udp_step (Received (data_frame session start P f)) t = Some (t', ds, Inr (Some (length ds)))"
    using fits fr ds by (simp add: udp_step_def frame_fits_def)
  ultimately show ?thesis by blast
qed

lemma udp_run_tracked:
  assumes b: "start + n < 2 ^ 64" "length session = 10"
  shows "tracked start n P S m (t, out) \<Longrightarrow> m \<notin> S \<Longrightarrow> \<forall>f \<in> set fs. frame_fits session start P n f \<Longrightarrow>
    \<exists>t' ds m'. udp_run (map (\<lambda>f. Received (data_frame session start P f)) fs) t = Some (t', ds) \<and>
      tracked start n P (S \<union> (\<Union>f \<in> set fs. {fst f..<fst f + snd f})) m' (t', out @ ds) \<and>
      m' \<notin> S \<union> (\<Union>f \<in> set fs. {fst f..<fst f + snd f})"
proof (induction fs arbitrary: S m t out)
  case (Cons f fs)
  obtain t1 ds1 x m1 where 1: "udp_step (Received (data_frame session start P f)) t = Some (t1, ds1, x)"
      "tracked start n P (S \<union> {fst f..<fst f + snd f}) m1 (t1, out @ ds1)" "m1 \<notin> S \<union> {fst f..<fst f + snd f}"
    using udp_step_tracked [OF b _ Cons.prems(1,2), of f] Cons.prems(3) by auto
  from Cons.IH [OF 1(2,3)] Cons.prems(3) obtain t2 ds2 m2 where
      2: "udp_run (map (\<lambda>f. Received (data_frame session start P f)) fs) t1 = Some (t2, ds2)"
      "tracked start n P ((S \<union> {fst f..<fst f + snd f}) \<union> (\<Union>f \<in> set fs. {fst f..<fst f + snd f})) m2 (t2, (out @ ds1) @ ds2)"
      "m2 \<notin> (S \<union> {fst f..<fst f + snd f}) \<union> (\<Union>f \<in> set fs. {fst f..<fst f + snd f})" by auto
  have run: "udp_run (map (\<lambda>f. Received (data_frame session start P f)) (f # fs)) t = Some (t2, ds1 @ ds2)"
    using 1 2 by simp
  have un: "S \<union> (\<Union>f \<in> set (f # fs). {fst f..<fst f + snd f}) =
      (S \<union> {fst f..<fst f + snd f}) \<union> (\<Union>f \<in> set fs. {fst f..<fst f + snd f})" by auto
  show ?case unfolding un using run 2(2) [unfolded append_assoc] 2(3) by blast
qed auto

section \<open>Properties\<close>

text \<open>
  Whatever messages arrive (late, early, duplicated, too many to buffer), what the tracker
  delivers is numbered consecutively from the start sequence, the tracker expects the next number, every
  buffered message lies ahead of it and the buffer never exceeds its bound.
\<close>

theorem gap_tracker_in_order:
  "let (t, out) = fold (\<lambda>(seq, payload). ingest_one seq payload) msgs (gt_with_capacity start cap, [])
   in gt_inv t \<and> map dl_sequence out = map (\<lambda>i. start + of_nat i) [0..<length out] \<and>
      gt_expected t = start + of_nat (length out) \<and> om_size (gt_pending t) \<le> cap"
proof -
  have "gt_inv t0 \<Longrightarrow> (\<lambda>r. gt_inv (fst r) \<and> extends t0 out0 r)
      (fold (\<lambda>(seq, payload). ingest_one seq payload) msgs (t0, out0))" for t0 out0
  proof (induction msgs arbitrary: t0 out0)
    case (Cons sp msgs)
    obtain s p where sp: "sp = (s, p)" by force
    obtain t1 out1 where r: "ingest_one s p (t0, out0) = (t1, out1)" by force
    from ingest_one_inv [OF Cons.prems, of s p out0] r have "gt_inv t1" "extends t0 out0 (t1, out1)" by simp_all
    with Cons.IH [of t1 out1] r sp show ?case by (auto intro: extends_trans)
  qed (simp add: extends_refl)
  moreover have "gt_inv (gt_with_capacity start cap)" by (simp add: gt_inv_def gt_with_capacity_def)
  ultimately show ?thesis
    by (fastforce simp: extends_def case_prod_unfold Let_def gt_inv_def gt_with_capacity_def)
qed

text \<open>
  Property C12. Gap recovery is complete for a stream that fits the reorder buffer: if datagrams carrying pieces of a
  stream of \<open>n\<close> messages arrive in any order and with any overlap and repetition, and together cover the stream, and \<open>n\<close> is
  at most the tracker's capacity, then the feed handler delivers exactly the \<open>n\<close> messages, each once, in
  order and with its own payload, and no gap stays open. Each datagram is non-empty and fits the receive buffer, and the
  sequence numbers do not wrap. (Beyond its capacity the tracker drops buffered messages.)
\<close>

theorem feed_delivers_whole_stream:
  assumes "start + n < 2 ^ 64" and "length session = 10" and "n \<le> cap"
    and "\<forall>f \<in> set fs. frame_fits session start P n f"
    and "(\<Union>f \<in> set fs. {fst f..<fst f + snd f}) = {..<n}"
  shows "\<exists>t. udp_run (map (\<lambda>f. Received (data_frame session start P f)) fs) (gt_with_capacity (of_nat start) cap) =
      Some (t, stream_prefix start P n) \<and> gt_expected t = sq start n \<and> gt_open_gap t = None"
proof -
  have "tracked start n P {} 0 (gt_with_capacity (of_nat start) cap, [])"
    using assms(3) by (simp add: tracked_def gt_with_capacity_def sq_def stream_prefix_def)
  from udp_run_tracked [OF assms(1,2) this _ assms(4)] assms(5) obtain t ds m where
    run: "udp_run (map (\<lambda>f. Received (data_frame session start P f)) fs) (gt_with_capacity (of_nat start) cap) = Some (t, ds)"
    and tr: "tracked start n P {..<n} m (t, ds)" and m: "m \<notin> {..<n}" by auto
  have mn: "m = n" using tracked_le [OF tr] m by simp
  then have "om_lookup (gt_pending t) k = None" for k
    using tr by (cases "om_lookup (gt_pending t) k") (auto simp: tracked_def)
  then have "gt_pending t = om_empty" by (intro omap_eqI) simp
  then have "gt_open_gap t = None" by (simp add: gt_open_gap_def om_first_key_None [THEN iffD2])
  with run tr mn show ?thesis by (simp add: tracked_def)
qed

theorem feed_delivers_whole_stream_witness:
  "\<exists>t. udp_run (map (\<lambda>f. Received (data_frame (replicate 10 65) 1 (\<lambda>i. [of_nat i]) f)) [(1, 2), (0, 2)])
      (gt_with_capacity (of_nat 1) 8) = Some (t, stream_prefix 1 (\<lambda>i. [of_nat i]) 3) \<and>
    gt_expected t = sq 1 3 \<and> gt_open_gap t = None"
  by (rule feed_delivers_whole_stream)
    (auto simp: frame_fits_def data_frame_def mold_encode_def enc_msg_def udp_scratch_len_def upt_conv_Cons)

text \<open>
  Property C13. \<open>ingest\<close> returns exactly on frames whose body holds all declared messages. On any other
  frame it never returns: the iterator reports the malformed message without advancing, and the loop skips
  it and asks again.
\<close>

theorem ingest_returns_iff_body_ok:
  "(\<exists>r. gt_ingest fr t = Some r) \<longleftrightarrow>
   is_heartbeat (mf_header fr) \<or> is_end_of_session (mf_header fr) \<or>
   body_ok (mf_body fr) 0 (unat (mh_count (mf_header fr)))"
proof -
  let ?it = "mold_messages fr"
  have "unat (ucast c :: u32) = unat c" for c :: u16
    using unat_lt_u16 [of c] by (simp add: unsigned_ucast_eq take_bit_nat_eq_self)
  then have "body_ok (mi_body ?it) (mi_offset ?it) (unat (mi_remaining ?it)) \<longleftrightarrow>
      is_heartbeat (mf_header fr) \<or> is_end_of_session (mf_header fr) \<or>
      body_ok (mf_body fr) 0 (unat (mh_count (mf_header fr)))"
    by (auto simp: mold_messages_def)
  then show ?thesis
    using ingest_loop_returns_ok [of ?it "(t, [])"] body_ok_returns [of ?it "(t, [])"]
    by (auto simp: gt_ingest_def)
qed

end
