(* ===== verification/FL_Ring.thy ===== *)
theory FL_Ring
  imports FL_Prelude
begin

text \<open>
  The shared-memory byte ring (\<open>replay/src/ring_reader.rs\<close>). The mapped file is a record of its fields;
  \<open>ring_image\<close> is its byte layout. The two cursors are \<open>u64\<close> counters that only grow (and wrap), the slot
  of a cursor is its low bits. \<open>ring_read\<close> returns the bytes it copies out.
\<close>

record ring =
  rg_capacity :: u64
  rg_write_idx :: u64
  rg_read_idx :: u64
  rg_payload :: bytes

datatype ring_error =
    RingIo
  | RingBadMagic bytes
  | CapacityMismatch u64 u64
  | NotPowerOfTwo u64
  | Full nat nat
  | TooSmall nat nat

definition ring_magic :: bytes where
  "ring_magic = [0x46, 0x4C, 0x4F, 0x57, 0x52, 0x49, 0x4E, 0x47]"

definition data_offset :: nat where
  "data_offset = 192"

definition is_power_of_two :: "u64 \<Rightarrow> bool" where
  "is_power_of_two c = list_ex (\<lambda>k. c = 2 ^ k) [0..<64]"

definition ring_mask :: "ring \<Rightarrow> u64" where
  "ring_mask r = rg_capacity r - 1"

text \<open>The bytes of the mapped file.\<close>

definition ring_image :: "ring \<Rightarrow> bytes" where
  "ring_image r = ring_magic @ to_le 8 (rg_capacity r) @ replicate 48 0 @
     to_le 8 (rg_write_idx r) @ replicate 56 0 @ to_le 8 (rg_read_idx r) @ replicate 56 0 @ rg_payload r"

definition ring_create :: "u64 \<Rightarrow> ring_error + ring" where
  "ring_create capacity =
     (if \<not> is_power_of_two capacity then Inl (NotPowerOfTwo capacity)
      else Inr \<lparr>rg_capacity = capacity, rg_write_idx = 0, rg_read_idx = 0,
                rg_payload = replicate (unat capacity) 0\<rparr>)"

definition ring_open :: "bytes option \<Rightarrow> u64 \<Rightarrow> ring_error + ring" where
  "ring_open file expected_capacity =
     (case file of
        None \<Rightarrow> Inl RingIo
      | Some mmap \<Rightarrow>
          if length mmap < data_offset then Inl (TooSmall (length mmap) data_offset)
          else if slice 0 8 mmap \<noteq> ring_magic then Inl (RingBadMagic (slice 0 8 mmap))
          else
            let capacity = from_le (slice 8 16 mmap) :: u64;
                need = data_offset + unat capacity
            in if \<not> is_power_of_two capacity then Inl (NotPowerOfTwo capacity)
               else if expected_capacity \<noteq> 0 \<and> expected_capacity \<noteq> capacity then
                 Inl (CapacityMismatch capacity expected_capacity)
               else if length mmap < need then Inl (TooSmall (length mmap) need)
               else Inr \<lparr>rg_capacity = capacity, rg_write_idx = from_le (slice 64 72 mmap),
                         rg_read_idx = from_le (slice 128 136 mmap),
                         rg_payload = slice data_offset need mmap\<rparr>)"

definition ring_available :: "ring \<Rightarrow> nat \<Rightarrow> bytes \<times> bytes" where
  "ring_available r max_bytes =
     (let n0 = unat (rg_write_idx r - rg_read_idx r) in
      if n0 = 0 then ([], [])
      else
        let n = (if max_bytes < n0 then max_bytes else n0);
            start = unat (rg_read_idx r AND ring_mask r);
            cap = unat (rg_capacity r)
        in if start + n \<le> cap then (slice start (start + n) (rg_payload r), [])
           else
             let first = cap - start
             in (drop start (rg_payload r), take (n - first) (rg_payload r)))"

definition ring_read :: "nat \<Rightarrow> ring \<Rightarrow> ring \<times> bytes" where
  "ring_read dst_len r =
     (let (a, b) = ring_available r dst_len;
          n = length a + length b
      in if n = 0 then (r, [])
         else (r\<lparr>rg_read_idx := rg_read_idx r + of_nat n\<rparr>, a @ b))"

definition blit :: "nat \<Rightarrow> bytes \<Rightarrow> bytes \<Rightarrow> bytes" where
  "blit off src dst = take off dst @ src @ drop (off + length src) dst"

definition ring_write :: "bytes \<Rightarrow> ring \<Rightarrow> ring \<times> (ring_error + unit)" where
  "ring_write batch r =
     (let wi = rg_write_idx r;
          free = rg_capacity r - (wi - rg_read_idx r)
      in if unat free < length batch then (r, Inl (Full (length batch) (unat free)))
         else
           let start = unat (wi AND ring_mask r);
               cap = unat (rg_capacity r);
               payload =
                 (if start + length batch \<le> cap then blit start batch (rg_payload r)
                  else
                    let first = cap - start
                    in blit 0 (drop first batch) (blit start (take first batch) (rg_payload r)))
           in (r\<lparr>rg_payload := payload, rg_write_idx := wi + of_nat (length batch)\<rparr>, Inr ()))"

section \<open>Slots and cursors\<close>

text \<open>
  \<open>cursors r W R\<close>: \<open>W\<close> bytes were published and \<open>R\<close> consumed since the ring was created. The cursors of
  the code are these numbers modulo \<open>2^64\<close>.
\<close>

definition cap_of :: "ring \<Rightarrow> nat" where
  "cap_of r = unat (rg_capacity r)"

definition cursors :: "ring \<Rightarrow> nat \<Rightarrow> nat \<Rightarrow> bool" where
  "cursors r W R \<longleftrightarrow> is_power_of_two (rg_capacity r) \<and> length (rg_payload r) = cap_of r \<and>
     rg_write_idx r = of_nat W \<and> rg_read_idx r = of_nat R \<and> R \<le> W \<and> W \<le> R + cap_of r"

definition slot :: "ring \<Rightarrow> nat \<Rightarrow> u8" where
  "slot r v = rg_payload r ! (v mod cap_of r)"

definition unread :: "ring \<Rightarrow> nat \<Rightarrow> nat \<Rightarrow> bytes" where
  "unread r W R = map (slot r) [R..<W]"

lemma capacity_power:
  assumes "is_power_of_two (rg_capacity r)"
  obtains k where "k < 64" "rg_capacity r = 2 ^ k" "cap_of r = 2 ^ k"
proof -
  obtain k where k: "k < 64" "rg_capacity r = 2 ^ k"
    using assms by (auto simp: is_power_of_two_def list_ex_iff)
  have "(2 :: nat) ^ k < 2 ^ 64" using k(1) by (rule power_strict_increasing) simp
  then have "unat (of_nat (2 ^ k) :: u64) = 2 ^ k"
    by (intro unat_of_nat_small) simp
  then have "cap_of r = 2 ^ k"
    by (simp add: cap_of_def k(2))
  with k that show thesis by blast
qed

lemma cap_pos: "is_power_of_two (rg_capacity r) \<Longrightarrow> 0 < cap_of r"
  by (metis capacity_power zero_less_numeral zero_less_power)

lemma cap_small: "cap_of r < 2 ^ 64"
  using unat_lt_u64 [of "rg_capacity r"] by (simp add: cap_of_def)

lemma masked_cursor:
  assumes "is_power_of_two (rg_capacity r)"
  shows "unat (of_nat v AND ring_mask r) = v mod cap_of r"
proof -
  obtain k where k: "k < 64" "rg_capacity r = 2 ^ k" "cap_of r = 2 ^ k"
    using assms by (rule capacity_power)
  have "of_nat v AND ring_mask r = take_bit k (of_nat v)"
    by (simp add: ring_mask_def k(2) take_bit_eq_mask mask_eq_exp_minus_1)
  then have "unat (of_nat v AND ring_mask r) = take_bit k (unat (of_nat v :: u64))"
    by (simp only: unsigned_take_bit_eq)
  also have "\<dots> = (v mod 2 ^ 64) mod 2 ^ k"
    by (simp add: take_bit_eq_mod unat_of_nat)
  also have "\<dots> = v mod 2 ^ k"
    using k(1) by (intro mod_mod_cancel le_imp_power_dvd) simp
  finally show ?thesis by (simp add: k(3))
qed

lemma cursor_distance:
  assumes "cursors r W R"
  shows "unat (rg_write_idx r - rg_read_idx r) = W - R"
proof -
  have "rg_write_idx r - rg_read_idx r = of_nat (W - R)"
    using assms by (simp add: cursors_def of_nat_diff)
  moreover have "W - R < 2 ^ 64" using assms cap_small [of r] unfolding cursors_def by linarith
  ultimately show ?thesis by (simp add: unat_of_nat_small)
qed

lemma cursor_free:
  assumes "cursors r W R"
  shows "unat (rg_capacity r - (rg_write_idx r - rg_read_idx r)) = cap_of r - (W - R)"
proof -
  have "W - R \<le> cap_of r" using assms by (auto simp: cursors_def)
  then have "rg_write_idx r - rg_read_idx r \<le> rg_capacity r"
    using cursor_distance [OF assms] by (simp add: word_le_nat_alt cap_of_def)
  then show ?thesis using cursor_distance [OF assms] by (simp add: unat_sub cap_of_def)
qed

lemma mod_distinct: "u < v \<Longrightarrow> v < u + c \<Longrightarrow> u mod c \<noteq> v mod (c :: nat)"
  by (metis add_diff_cancel_left' less_imp_le mod_eq_dvd_iff_nat nat_dvd_not_less zero_less_diff less_diff_conv2 add.commute)

lemma drop_take_nth: "i + n \<le> length xs \<Longrightarrow> take n (drop i xs) = map (\<lambda>j. xs ! j) [i..<i + n]"
  by (rule nth_equalityI) simp_all

lemma unread_wrapped:
  assumes c: "cursors r W R" and n: "n \<le> W - R"
  defines "start \<equiv> R mod cap_of r"
  shows "map (slot r) [R..<R + n] =
    (if start + n \<le> cap_of r then slice start (start + n) (rg_payload r)
     else drop start (rg_payload r) @ take (n - (cap_of r - start)) (rg_payload r))"
proof -
  let ?c = "cap_of r"
  have pos: "0 < ?c" and len: "length (rg_payload r) = ?c" and nc: "n \<le> ?c"
    using c n cap_pos by (auto simp: cursors_def)
  have st: "start < ?c" using pos by (simp add: start_def)
  have idx: "(R + j) mod ?c = (if start + j < ?c then start + j else start + j - ?c)" if "j < n" for j
  proof -
    have "(R + j) mod ?c = (start + j) mod ?c" by (simp add: start_def mod_add_left_eq)
    also have "\<dots> = (if start + j < ?c then start + j else start + j - ?c)"
      using st that nc by (simp add: mod_if [of "start + j"])
    finally show ?thesis .
  qed
  show ?thesis
    using st len idx nc
    by (intro nth_equalityI) (auto simp: slot_def slice_def nth_append add.commute)
qed

section \<open>First in, first out\<close>

lemma ring_read_correct:
  assumes "cursors r W R"
  shows "snd (ring_read n r) = take n (unread r W R) \<and>
    cursors (fst (ring_read n r)) W (R + min n (W - R)) \<and>
    unread (fst (ring_read n r)) W (R + min n (W - R)) = drop n (unread r W R)"
proof -
  let ?m = "min n (W - R)"
  note pow = assms [unfolded cursors_def, THEN conjunct1]
  have ri: "unat (rg_read_idx r AND ring_mask r) = R mod cap_of r"
    using assms masked_cursor [OF pow, of R] by (simp add: cursors_def)
  have bytes: "fst (ring_available r n) @ snd (ring_available r n) = map (slot r) [R..<R + ?m]"
    using unread_wrapped [OF assms, of ?m] cursor_distance [OF assms] ri
    by (auto simp: ring_available_def Let_def cap_of_def min_def split: if_splits)
  have tk: "map (slot r) [R..<R + ?m] = take n (unread r W R)"
  proof (cases "n \<le> W - R")
    case True
    then have "R + n \<le> W" using assms unfolding cursors_def by linarith
    then show ?thesis using True by (simp add: unread_def take_map take_upt min_def)
  next
    case False
    then show ?thesis using assms by (simp add: unread_def cursors_def min_def)
  qed
  have len: "length (fst (ring_available r n)) + length (snd (ring_available r n)) = ?m"
    using arg_cong [OF bytes, of length] by simp
  have sl: "slot (r\<lparr>rg_read_idx := x\<rparr>) = slot r" "cap_of (r\<lparr>rg_read_idx := x\<rparr>) = cap_of r" for x
    by (simp_all add: slot_def cap_of_def fun_eq_iff)
  have dr: "map (slot r) [R + ?m..<W] = drop n (unread r W R)"
    using assms by (simp add: unread_def drop_map cursors_def min_def)
  show ?thesis
  proof (cases "?m = 0")
    case True
    then show ?thesis
      using len bytes tk dr assms by (simp add: ring_read_def case_prod_unfold Let_def unread_def)
  next
    case False
    then show ?thesis
      using len bytes tk dr assms
      by (auto simp: ring_read_def case_prod_unfold Let_def unread_def sl cursors_def)
  qed
qed

lemma length_blit [simp]: "off + length src \<le> length dst \<Longrightarrow> length (blit off src dst) = length dst"
  by (simp add: blit_def)

lemma nth_blit:
  "off + length src \<le> length dst \<Longrightarrow> i < length dst \<Longrightarrow>
   blit off src dst ! i = (if off \<le> i \<and> i < off + length src then src ! (i - off) else dst ! i)"
  by (auto simp: blit_def nth_append)

text \<open>Where the bytes of a batch land, seen from virtual position \<open>v\<close>.\<close>

lemma ring_write_payload:
  assumes c: "cursors r W R" and fit: "W + length batch \<le> R + cap_of r"
  defines "start \<equiv> W mod cap_of r"
  defines "payload \<equiv> (if start + length batch \<le> cap_of r then blit start batch (rg_payload r)
     else blit 0 (drop (cap_of r - start) batch) (blit start (take (cap_of r - start) batch) (rg_payload r)))"
  shows "length payload = cap_of r"
    and "j < length batch \<Longrightarrow> payload ! ((W + j) mod cap_of r) = batch ! j"
    and "R \<le> v \<Longrightarrow> v < W \<Longrightarrow> payload ! (v mod cap_of r) = rg_payload r ! (v mod cap_of r)"
proof -
  let ?c = "cap_of r"
  have pos: "0 < ?c" and len: "length (rg_payload r) = ?c" and nc: "length batch \<le> ?c"
    using c fit cap_pos by (auto simp: cursors_def)
  have st: "start < ?c" using pos by (simp add: start_def)
  show plen: "length payload = ?c"
    using st len nc by (auto simp: payload_def)
  have at: "payload ! i = (if start \<le> i \<and> i < start + length batch then batch ! (i - start)
      else if i + ?c < start + length batch then batch ! (i + ?c - start) else rg_payload r ! i)" if "i < ?c" for i
    using that st len nc by (auto simp: payload_def nth_blit add.commute)
  have idx: "(W + j) mod ?c = (if start + j < ?c then start + j else start + j - ?c)" if "j < ?c" for j
  proof -
    have "(W + j) mod ?c = (start + j) mod ?c" by (simp add: start_def mod_add_left_eq)
    also have "\<dots> = (if start + j < ?c then start + j else start + j - ?c)"
      using st that by (simp add: mod_if [of "start + j"])
    finally show ?thesis .
  qed
  show in_batch: "payload ! ((W + j) mod ?c) = batch ! j" if "j < length batch" for j
    using that st nc idx [of j] at [of "(W + j) mod ?c"] pos by auto
  show "payload ! (v mod ?c) = rg_payload r ! (v mod ?c)" if v: "R \<le> v" "v < W" for v
  proof -
    have other: "v mod ?c \<noteq> (W + j) mod ?c" if "j < length batch" for j
      using that v fit by (intro mod_distinct) linarith+
    have i: "v mod ?c < ?c" using pos by simp
    have "\<not> (start \<le> v mod ?c \<and> v mod ?c < start + length batch)"
    proof
      assume h: "start \<le> v mod ?c \<and> v mod ?c < start + length batch"
      then have j: "v mod ?c - start < length batch" by linarith
      show False using other [OF j] idx [OF less_le_trans [OF j nc]] h i by simp
    qed
    moreover have "\<not> v mod ?c + ?c < start + length batch"
    proof
      assume h: "v mod ?c + ?c < start + length batch"
      then have j: "v mod ?c + ?c - start < length batch" using st by linarith
      show False using other [OF j] idx [of "v mod ?c + ?c - start"] j nc st by simp
    qed
    ultimately show ?thesis using at [OF i] by auto
  qed
qed

lemma ring_write_correct:
  assumes "cursors r W R"
  shows "(if length batch \<le> cap_of r - (W - R)
     then snd (ring_write batch r) = Inr () \<and> cursors (fst (ring_write batch r)) (W + length batch) R \<and>
          unread (fst (ring_write batch r)) (W + length batch) R = unread r W R @ batch
     else ring_write batch r = (r, Inl (Full (length batch) (cap_of r - (W - R)))))"
proof (cases "length batch \<le> cap_of r - (W - R)")
  case False
  then show ?thesis using cursor_free [OF assms] by (simp add: ring_write_def Let_def)
next
  case True
  have fit: "W + length batch \<le> R + cap_of r" using True assms unfolding cursors_def by linarith
  note pow = assms [unfolded cursors_def, THEN conjunct1]
  have wi: "unat (rg_write_idx r AND ring_mask r) = W mod cap_of r"
    using assms masked_cursor [OF pow, of W] by (simp add: cursors_def)
  note pl = ring_write_payload [OF assms fit]
  let ?p = "if W mod cap_of r + length batch \<le> cap_of r then blit (W mod cap_of r) batch (rg_payload r)
     else blit 0 (drop (cap_of r - W mod cap_of r) batch)
       (blit (W mod cap_of r) (take (cap_of r - W mod cap_of r) batch) (rg_payload r))"
  have w: "ring_write batch r =
      (r\<lparr>rg_payload := ?p, rg_write_idx := rg_write_idx r + of_nat (length batch)\<rparr>, Inr ())"
    using True cursor_free [OF assms] wi by (simp add: ring_write_def Let_def cap_of_def)
  let ?r = "fst (ring_write batch r)"
  have cap: "cap_of ?r = cap_of r" by (simp add: w cap_of_def)
  have cur: "cursors ?r (W + length batch) R"
    using assms fit pl(1) cap by (simp add: cursors_def w del: of_nat_add) simp
  have old: "map (slot ?r) [R..<W] = map (slot r) [R..<W]"
    using pl(3) by (intro map_cong) (simp_all add: slot_def w cap_of_def)
  have new: "map (slot ?r) [W..<W + length batch] = batch"
    using pl(2) by (intro nth_equalityI) (simp_all add: slot_def w cap_of_def)
  have "[R..<W + length batch] = [R..<W] @ [W..<W + length batch]"
    using assms by (intro upt_add_eq_append) (simp add: cursors_def)
  with old new have "unread ?r (W + length batch) R = unread r W R @ batch"
    by (simp add: unread_def)
  with cur w True show ?thesis by simp
qed

lemma ring_create_cursors:
  assumes "is_power_of_two capacity"
  shows "\<exists>r. ring_create capacity = Inr r \<and> cursors r 0 0 \<and> unread r 0 0 = [] \<and> cap_of r = unat capacity"
  using assms by (simp add: ring_create_def cursors_def unread_def cap_of_def)

lemma ring_open_image:
  assumes "is_power_of_two (rg_capacity r)" "length (rg_payload r) = cap_of r"
    "expected = 0 \<or> expected = rg_capacity r"
  shows "ring_open (Some (ring_image r)) expected = Inr r"
proof -
  have "slice 0 8 (ring_image r) = ring_magic" "slice 8 16 (ring_image r) = to_le 8 (rg_capacity r)"
      "slice 64 72 (ring_image r) = to_le 8 (rg_write_idx r)" "slice 128 136 (ring_image r) = to_le 8 (rg_read_idx r)"
      "slice 192 (192 + unat (rg_capacity r)) (ring_image r) = rg_payload r"
      "length (ring_image r) = 192 + unat (rg_capacity r)"
    using assms(2) by (simp_all add: ring_image_def slice_def ring_magic_def cap_of_def)
  then show ?thesis
    using assms(1,3) by (auto simp: ring_open_def data_offset_def Let_def)
qed

end
