(* ===== verification/FL_RingProperties.thy ===== *)
theory FL_RingProperties
  imports FL_Ring
begin

text \<open>
  The ring is a bounded byte queue. A \<open>byte_fifo\<close> is the contract its clients rely on; the ring is an
  instance, with the unread bytes between the two cursors as its contents. The second half models one
  writer and one reader that run concurrently, with every copied byte and every cursor store a step of
  its own.
\<close>

section \<open>The contract\<close>

datatype fifo_op = Put bytes | Get nat

locale byte_fifo =
  fixes valid :: "'r \<Rightarrow> bool" and contents :: "'r \<Rightarrow> bytes" and cap :: "'r \<Rightarrow> nat"
    and put :: "bytes \<Rightarrow> 'r \<Rightarrow> 'r \<times> bool" and get :: "nat \<Rightarrow> 'r \<Rightarrow> 'r \<times> bytes"
  assumes put_fits: "valid r \<Longrightarrow> length b \<le> cap r - length (contents r) \<Longrightarrow>
      snd (put b r) \<and> valid (fst (put b r)) \<and> contents (fst (put b r)) = contents r @ b \<and> cap (fst (put b r)) = cap r"
    and put_full: "valid r \<Longrightarrow> \<not> length b \<le> cap r - length (contents r) \<Longrightarrow> put b r = (r, False)"
    and get_front: "valid r \<Longrightarrow> snd (get n r) = take n (contents r) \<and> valid (fst (get n r)) \<and>
      contents (fst (get n r)) = drop n (contents r) \<and> cap (fst (get n r)) = cap r"
    and bounded: "valid r \<Longrightarrow> length (contents r) \<le> cap r"
begin
fun run_op :: "fifo_op \<Rightarrow> 'r \<times> bytes \<times> bytes \<Rightarrow> 'r \<times> bytes \<times> bytes" where
  "run_op (Put b) (r, sent, rcvd) = (let (r', ok) = put b r in (r', if ok then sent @ b else sent, rcvd))"
| "run_op (Get n) (r, sent, rcvd) = (let (r', bs) = get n r in (r', sent, rcvd @ bs))"
lemma run_fifo:
  "valid r \<Longrightarrow> case fold run_op ops (r, sent, rcvd) of (r', sent', rcvd') \<Rightarrow>
     valid r' \<and> cap r' = cap r \<and>
     (rcvd @ contents r = sent \<longrightarrow> rcvd' @ contents r' = sent')"
proof (induction ops arbitrary: r sent rcvd)
  case (Cons op ops)
  show ?case
  proof (cases op)
    case (Put b)
    obtain r1 ok where p: "put b r = (r1, ok)" by force
    with put_fits [OF Cons.prems, of b] put_full [OF Cons.prems, of b] have
      "valid r1" "cap r1 = cap r" "ok \<Longrightarrow> contents r1 = contents r @ b" "\<not> ok \<Longrightarrow> r1 = r"
      using Cons.prems by (cases "length b \<le> cap r - length (contents r)"; simp)+
    with Cons.IH [of r1 rcvd "if ok then sent @ b else sent"] p Put show ?thesis
      by (cases ok) (simp_all add: case_prod_unfold)
  next
    case (Get n)
    obtain r1 bs where g: "get n r = (r1, bs)" by force
    with get_front [OF Cons.prems, of n] have
      "valid r1" "cap r1 = cap r" "bs @ contents r1 = contents r" by auto
    with Cons.IH [of r1 "rcvd @ bs" sent] g Get show ?thesis
      by (simp add: case_prod_unfold)
  qed
qed auto
end

section \<open>The ring meets the contract\<close>

definition ring_valid :: "ring \<Rightarrow> bool" where
  "ring_valid r \<longleftrightarrow> is_power_of_two (rg_capacity r) \<and> length (rg_payload r) = cap_of r \<and>
     unat (rg_write_idx r - rg_read_idx r) \<le> cap_of r"

definition ring_contents :: "ring \<Rightarrow> bytes" where
  "ring_contents r = map (\<lambda>i. slot r (unat (rg_read_idx r) + i)) [0..<unat (rg_write_idx r - rg_read_idx r)]"

definition ring_put :: "bytes \<Rightarrow> ring \<Rightarrow> ring \<times> bool" where
  "ring_put b r = (case ring_write b r of (r', res) \<Rightarrow> (r', res = Inr ()))"

lemma valid_cursors:
  "ring_valid r \<Longrightarrow>
   cursors r (unat (rg_read_idx r) + unat (rg_write_idx r - rg_read_idx r)) (unat (rg_read_idx r))"
  by (simp add: ring_valid_def cursors_def)

lemma cursors_valid:
  assumes "cursors r W R"
  shows "ring_valid r" "ring_contents r = unread r W R"
proof -
  note pow = assms [unfolded cursors_def, THEN conjunct1]
  note dist = cursor_distance [OF assms]
  show "ring_valid r"
    using assms dist by (auto simp: ring_valid_def cursors_def)
  obtain k where k: "k < 64" "rg_capacity r = 2 ^ k" "cap_of r = 2 ^ k"
    using pow by (rule capacity_power)
  have "(unat (rg_read_idx r) + i) mod cap_of r = (R + i) mod cap_of r" for i
  proof -
    have "unat (rg_read_idx r) mod cap_of r = (R mod 2 ^ 64) mod 2 ^ k"
      using assms k(3) by (simp add: cursors_def unat_of_nat)
    also have "\<dots> = R mod cap_of r"
      using k by (simp add: mod_mod_cancel le_imp_power_dvd flip: power_numeral)
    finally show ?thesis by (metis mod_add_left_eq)
  qed
  then show "ring_contents r = unread r W R"
    using assms dist
    by (intro nth_equalityI) (auto simp: ring_contents_def unread_def slot_def cursors_def)
qed

lemma length_ring_contents: "length (ring_contents r) = unat (rg_write_idx r - rg_read_idx r)"
  by (simp add: ring_contents_def)

lemma cap_of_write: "cap_of (fst (ring_write b r)) = cap_of r"
  by (simp add: ring_write_def cap_of_def Let_def)

lemma cap_of_read: "cap_of (fst (ring_read n r)) = cap_of r"
  by (simp add: ring_read_def cap_of_def Let_def case_prod_unfold)

lemma ring_put_laws:
  assumes "ring_valid r"
  shows "if length b \<le> cap_of r - length (ring_contents r)
    then snd (ring_put b r) \<and> ring_valid (fst (ring_put b r)) \<and>
         ring_contents (fst (ring_put b r)) = ring_contents r @ b
    else ring_put b r = (r, False)"
proof -
  note cu = valid_cursors [OF assms]
  note w = ring_write_correct [OF cu, of b]
  show ?thesis
  proof (cases "length b \<le> cap_of r - length (ring_contents r)")
    case True
    then have w': "snd (ring_write b r) = Inr ()"
        "cursors (fst (ring_write b r)) (unat (rg_read_idx r) + unat (rg_write_idx r - rg_read_idx r) + length b) (unat (rg_read_idx r))"
        "unread (fst (ring_write b r)) (unat (rg_read_idx r) + unat (rg_write_idx r - rg_read_idx r) + length b) (unat (rg_read_idx r)) =
           unread r (unat (rg_read_idx r) + unat (rg_write_idx r - rg_read_idx r)) (unat (rg_read_idx r)) @ b"
      using w by (simp_all add: length_ring_contents)
    show ?thesis
      using True w'(1,3) cursors_valid [OF w'(2)] cursors_valid(2) [OF cu] by (simp add: ring_put_def case_prod_unfold)
  next
    case False
    then show ?thesis using w by (simp add: length_ring_contents ring_put_def)
  qed
qed

lemma ring_get_laws:
  assumes "ring_valid r"
  shows "snd (ring_read n r) = take n (ring_contents r) \<and> ring_valid (fst (ring_read n r)) \<and>
    ring_contents (fst (ring_read n r)) = drop n (ring_contents r)"
proof -
  note cu = valid_cursors [OF assms]
  note rd = ring_read_correct [OF cu, of n]
  from cursors_valid [OF conjunct1 [OF conjunct2 [OF rd]]] cursors_valid(2) [OF cu] rd show ?thesis by simp
qed

interpretation rq: byte_fifo ring_valid ring_contents cap_of ring_put ring_read
proof
  show "ring_valid r \<Longrightarrow> length b \<le> cap_of r - length (ring_contents r) \<Longrightarrow>
      snd (ring_put b r) \<and> ring_valid (fst (ring_put b r)) \<and>
      ring_contents (fst (ring_put b r)) = ring_contents r @ b \<and> cap_of (fst (ring_put b r)) = cap_of r" for r b
    using ring_put_laws [of r b] cap_of_write [of b r] by (simp add: ring_put_def case_prod_unfold)
  show "ring_valid r \<Longrightarrow> \<not> length b \<le> cap_of r - length (ring_contents r) \<Longrightarrow> ring_put b r = (r, False)" for r b
    using ring_put_laws [of r b] by simp
  show "ring_valid r \<Longrightarrow> snd (ring_read n r) = take n (ring_contents r) \<and> ring_valid (fst (ring_read n r)) \<and>
      ring_contents (fst (ring_read n r)) = drop n (ring_contents r) \<and> cap_of (fst (ring_read n r)) = cap_of r" for r n
    using ring_get_laws [of r n] cap_of_read [of n r] by simp
  show "ring_valid r \<Longrightarrow> length (ring_contents r) \<le> cap_of r" for r
    by (simp add: ring_valid_def length_ring_contents)
qed

section \<open>One writer and one reader, interleaved\<close>

text \<open>
  The writer is idle or copying byte \<open>i\<close> of a batch that it found room for; the reader is idle or copying
  byte \<open>i\<close> of the \<open>n\<close> bytes it found available. \<open>cs_sent\<close> and \<open>cs_rcvd\<close> record what was published and
  what was consumed. Cursor loads and stores and single-byte copies interleave freely; the release and
  acquire orderings of the code are what makes a published cursor imply its copied bytes. The code copies a batch with one
  or two \<open>memcpy\<close> calls, whose bytes another thread may see one by one; \<open>bytewise_copy\<close> shows that the single-byte
  copies of a batch together do exactly what those calls do, and \<open>bytewise_read\<close> the same for the reader.
\<close>

datatype writer_pc = WIdle | WCopy bytes nat
datatype reader_pc = RIdle | RCopy nat bytes

record ring_system =
  cs_ring :: ring
  cs_writer :: writer_pc
  cs_reader :: reader_pc
  cs_sent :: bytes
  cs_rcvd :: bytes

definition poke :: "u64 \<Rightarrow> u8 \<Rightarrow> ring \<Rightarrow> ring" where
  "poke idx b r = r\<lparr>rg_payload := (rg_payload r)[unat (idx AND ring_mask r) := b]\<rparr>"

definition peek :: "u64 \<Rightarrow> ring \<Rightarrow> u8" where
  "peek idx r = rg_payload r ! unat (idx AND ring_mask r)"

inductive writer_step :: "ring_system \<Rightarrow> ring_system \<Rightarrow> bool" where
  write_begin: "cs_writer s = WIdle \<Longrightarrow>
     length batch \<le> unat (rg_capacity (cs_ring s) - (rg_write_idx (cs_ring s) - rg_read_idx (cs_ring s))) \<Longrightarrow>
     writer_step s (s\<lparr>cs_writer := WCopy batch 0\<rparr>)"
| write_byte: "cs_writer s = WCopy batch i \<Longrightarrow> i < length batch \<Longrightarrow>
     writer_step s (s\<lparr>cs_writer := WCopy batch (Suc i),
       cs_ring := poke (rg_write_idx (cs_ring s) + of_nat i) (batch ! i) (cs_ring s)\<rparr>)"
| write_publish: "cs_writer s = WCopy batch (length batch) \<Longrightarrow>
     writer_step s (s\<lparr>cs_writer := WIdle, cs_sent := cs_sent s @ batch,
       cs_ring := (cs_ring s)\<lparr>rg_write_idx := rg_write_idx (cs_ring s) + of_nat (length batch)\<rparr>\<rparr>)"

inductive reader_step :: "ring_system \<Rightarrow> ring_system \<Rightarrow> bool" where
  read_begin: "cs_reader s = RIdle \<Longrightarrow>
     n \<le> unat (rg_write_idx (cs_ring s) - rg_read_idx (cs_ring s)) \<Longrightarrow>
     reader_step s (s\<lparr>cs_reader := RCopy n []\<rparr>)"
| read_byte: "cs_reader s = RCopy n got \<Longrightarrow> length got < n \<Longrightarrow>
     reader_step s (s\<lparr>cs_reader := RCopy n (got @ [peek (rg_read_idx (cs_ring s) + of_nat (length got)) (cs_ring s)])\<rparr>)"
| read_commit: "cs_reader s = RCopy n got \<Longrightarrow> length got = n \<Longrightarrow>
     reader_step s (s\<lparr>cs_reader := RIdle, cs_rcvd := cs_rcvd s @ got,
       cs_ring := (cs_ring s)\<lparr>rg_read_idx := rg_read_idx (cs_ring s) + of_nat n\<rparr>\<rparr>)"

inductive ring_step :: "ring_system \<Rightarrow> ring_system \<Rightarrow> bool" where
  writer_moves: "writer_step s s' \<Longrightarrow> ring_step s s'"
| reader_moves: "reader_step s s' \<Longrightarrow> ring_step s s'"

definition ring_init :: "ring \<Rightarrow> ring_system" where
  "ring_init r = \<lparr>cs_ring = r, cs_writer = WIdle, cs_reader = RIdle, cs_sent = [], cs_rcvd = []\<rparr>"

definition writer_ok :: "ring \<Rightarrow> nat \<Rightarrow> nat \<Rightarrow> writer_pc \<Rightarrow> bool" where
  "writer_ok r W R w \<longleftrightarrow> (\<forall>batch i. w = WCopy batch i \<longrightarrow>
     W + length batch \<le> R + cap_of r \<and> i \<le> length batch \<and> (\<forall>j < i. slot r (W + j) = batch ! j))"

definition reader_ok :: "bytes \<Rightarrow> nat \<Rightarrow> nat \<Rightarrow> reader_pc \<Rightarrow> bool" where
  "reader_ok sent W R p \<longleftrightarrow> (\<forall>n got. p = RCopy n got \<longrightarrow>
     R + n \<le> W \<and> length got \<le> n \<and> got = take (length got) (drop R sent))"

definition sys_inv :: "ring_system \<Rightarrow> bool" where
  "sys_inv s \<longleftrightarrow> (let W = length (cs_sent s); R = length (cs_rcvd s) in
     cursors (cs_ring s) W R \<and> cs_rcvd s = take R (cs_sent s) \<and>
     (\<forall>v. R \<le> v \<longrightarrow> v < W \<longrightarrow> slot (cs_ring s) v = cs_sent s ! v) \<and>
     writer_ok (cs_ring s) W R (cs_writer s) \<and> reader_ok (cs_sent s) W R (cs_reader s))"

lemma slot_poke:
  assumes "cursors r W R"
  shows "slot (poke (of_nat v) b r) u = (if u mod cap_of r = v mod cap_of r then b else slot r u)"
    and "cursors (poke (of_nat v) b r) W R" and "cap_of (poke (of_nat v) b r) = cap_of r"
proof -
  note pow = assms [unfolded cursors_def, THEN conjunct1]
  have "v mod cap_of r < length (rg_payload r)"
    using assms cap_pos [OF pow] by (simp add: cursors_def)
  then show "slot (poke (of_nat v) b r) u = (if u mod cap_of r = v mod cap_of r then b else slot r u)"
    by (simp add: slot_def poke_def masked_cursor [OF pow] cap_of_def nth_list_update)
  show "cursors (poke (of_nat v) b r) W R" "cap_of (poke (of_nat v) b r) = cap_of r"
    using assms by (simp_all add: cursors_def poke_def cap_of_def)
qed

lemma peek_slot: "cursors r W R \<Longrightarrow> peek (of_nat v) r = slot r v"
  by (simp add: peek_def slot_def masked_cursor cursors_def)

lemma slot_cursor_updates [simp]:
  "slot (r\<lparr>rg_write_idx := x\<rparr>) = slot r" "cap_of (r\<lparr>rg_write_idx := x\<rparr>) = cap_of r"
  "slot (r\<lparr>rg_read_idx := x\<rparr>) = slot r" "cap_of (r\<lparr>rg_read_idx := x\<rparr>) = cap_of r"
  by (simp_all add: slot_def cap_of_def fun_eq_iff)

lemma write_byte_inv:
  assumes "sys_inv s" "cs_writer s = WCopy batch i" "i < length batch"
  shows "sys_inv (s\<lparr>cs_writer := WCopy batch (Suc i),
    cs_ring := poke (rg_write_idx (cs_ring s) + of_nat i) (batch ! i) (cs_ring s)\<rparr>)"
proof -
  let ?W = "length (cs_sent s)" and ?R = "length (cs_rcvd s)" and ?r = "cs_ring s"
  have cu: "cursors ?r ?W ?R" and w: "?W + length batch \<le> ?R + cap_of ?r" "\<forall>j < i. slot ?r (?W + j) = batch ! j"
    using assms(1,2) by (simp_all add: sys_inv_def Let_def writer_ok_def)
  have idx: "rg_write_idx ?r + of_nat i = of_nat ?W + of_nat i" using cu by (simp add: cursors_def)
  note pk = slot_poke [OF cu, of "?W + i" "batch ! i", unfolded of_nat_add]
  have ne: "v mod cap_of ?r \<noteq> (?W + i) mod cap_of ?r" if "?R \<le> v" "v < ?W + i" for v
    using that w(1) assms(3) by (intro mod_distinct) linarith+
  have RW: "?R \<le> ?W" using cu by (simp add: cursors_def)
  have "slot (poke (of_nat ?W + of_nat i) (batch ! i) ?r) (?W + j) = batch ! j" if "j < Suc i" for j
    using that w(2) ne [of "?W + j"] RW by (cases "j = i") (auto simp: pk(1))
  moreover have "slot (poke (of_nat ?W + of_nat i) (batch ! i) ?r) v = slot ?r v" if "?R \<le> v" "v < ?W" for v
    using that ne [of v] by (simp add: pk(1))
  ultimately show ?thesis
    using assms pk(2,3) w(1) unfolding idx by (simp add: sys_inv_def Let_def writer_ok_def)
qed

lemma write_publish_inv:
  assumes "sys_inv s" "cs_writer s = WCopy batch (length batch)"
  shows "sys_inv (s\<lparr>cs_writer := WIdle, cs_sent := cs_sent s @ batch,
    cs_ring := (cs_ring s)\<lparr>rg_write_idx := rg_write_idx (cs_ring s) + of_nat (length batch)\<rparr>\<rparr>)"
proof -
  let ?W = "length (cs_sent s)" and ?R = "length (cs_rcvd s)" and ?r = "cs_ring s"
  have cu: "cursors ?r ?W ?R" and w: "?W + length batch \<le> ?R + cap_of ?r"
      "\<And>j. j < length batch \<Longrightarrow> slot ?r (?W + j) = batch ! j" and rd: "reader_ok (cs_sent s) ?W ?R (cs_reader s)"
    using assms by (simp_all add: sys_inv_def Let_def writer_ok_def)
  have "slot ?r v = (cs_sent s @ batch) ! v" if "?R \<le> v" "v < ?W + length batch" for v
    using that assms(1) w(2) [of "v - ?W"] by (auto simp: sys_inv_def Let_def nth_append)
  moreover have "reader_ok (cs_sent s @ batch) (?W + length batch) ?R (cs_reader s)"
    using rd by (auto simp: reader_ok_def)
  ultimately show ?thesis
    using assms(1) w(1) cu by (simp add: sys_inv_def Let_def writer_ok_def cursors_def)
qed

lemma read_byte_inv:
  assumes "sys_inv s" "cs_reader s = RCopy n got" "length got < n"
  shows "sys_inv (s\<lparr>cs_reader :=
    RCopy n (got @ [peek (rg_read_idx (cs_ring s) + of_nat (length got)) (cs_ring s)])\<rparr>)"
proof -
  let ?W = "length (cs_sent s)" and ?R = "length (cs_rcvd s)" and ?r = "cs_ring s"
  have cu: "cursors ?r ?W ?R" and rd: "?R + n \<le> ?W" "got = take (length got) (drop ?R (cs_sent s))"
    using assms(1,2) by (simp_all add: sys_inv_def Let_def reader_ok_def)
  have "rg_read_idx ?r + of_nat (length got) = of_nat (?R + length got)" using cu by (simp add: cursors_def)
  then have "peek (rg_read_idx ?r + of_nat (length got)) ?r = slot ?r (?R + length got)"
    using peek_slot [OF cu, of "?R + length got"] by simp
  also have "\<dots> = cs_sent s ! (?R + length got)"
    using assms(1,3) rd(1) by (simp add: sys_inv_def Let_def)
  finally have "got @ [peek (rg_read_idx ?r + of_nat (length got)) ?r] =
      take (Suc (length got)) (drop ?R (cs_sent s))"
    using rd assms(3) by (simp add: take_Suc_conv_app_nth)
  then show ?thesis
    using assms rd(1) by (simp add: sys_inv_def Let_def reader_ok_def)
qed

lemma read_commit_inv:
  assumes "sys_inv s" "cs_reader s = RCopy n got" "length got = n"
  shows "sys_inv (s\<lparr>cs_reader := RIdle, cs_rcvd := cs_rcvd s @ got,
    cs_ring := (cs_ring s)\<lparr>rg_read_idx := rg_read_idx (cs_ring s) + of_nat n\<rparr>\<rparr>)"
proof -
  let ?W = "length (cs_sent s)" and ?R = "length (cs_rcvd s)"
  have rd: "?R + n \<le> ?W" "got = take n (drop ?R (cs_sent s))" "cs_rcvd s = take ?R (cs_sent s)"
    using assms by (simp_all add: sys_inv_def Let_def reader_ok_def)
  have "cs_rcvd s @ got = take (?R + n) (cs_sent s)"
    using rd by (simp add: take_add)
  then show ?thesis
    using assms(1,3) rd(1) by (auto simp: sys_inv_def Let_def reader_ok_def writer_ok_def cursors_def)
qed

lemma writer_step_inv: "writer_step s s' \<Longrightarrow> sys_inv s \<Longrightarrow> sys_inv s'"
proof (induction rule: writer_step.induct)
  case (write_begin s batch)
  let ?W = "length (cs_sent s)" and ?R = "length (cs_rcvd s)"
  have cu: "cursors (cs_ring s) ?W ?R" using write_begin by (simp add: sys_inv_def Let_def)
  then have "?W + length batch \<le> ?R + cap_of (cs_ring s)"
    using write_begin(2) cursor_free [OF cu] unfolding cursors_def by linarith
  then show ?case using write_begin by (simp add: sys_inv_def Let_def writer_ok_def)
qed (auto intro: write_byte_inv write_publish_inv)

lemma reader_step_inv: "reader_step s s' \<Longrightarrow> sys_inv s \<Longrightarrow> sys_inv s'"
proof (induction rule: reader_step.induct)
  case (read_begin s n)
  let ?W = "length (cs_sent s)" and ?R = "length (cs_rcvd s)"
  have cu: "cursors (cs_ring s) ?W ?R" using read_begin by (simp add: sys_inv_def Let_def)
  then have "?R + n \<le> ?W"
    using read_begin(2) cursor_distance [OF cu] unfolding cursors_def by linarith
  then show ?case using read_begin by (simp add: sys_inv_def Let_def reader_ok_def)
qed (auto intro: read_byte_inv read_commit_inv)

lemma ring_step_inv: "ring_step s s' \<Longrightarrow> sys_inv s \<Longrightarrow> sys_inv s'"
  by (auto elim!: ring_step.cases intro: writer_step_inv reader_step_inv)

lemma ring_step_cap: "ring_step s s' \<Longrightarrow> cap_of (cs_ring s') = cap_of (cs_ring s)"
  by (auto elim!: ring_step.cases writer_step.cases reader_step.cases simp: poke_def cap_of_def)

text \<open>All bytes of a batch poked one by one, against the block copies of \<open>ring_write\<close>.\<close>

definition poke_all :: "bytes \<Rightarrow> nat \<Rightarrow> ring \<Rightarrow> ring" where
  "poke_all batch n r = fold (\<lambda>j. poke (rg_write_idx r + of_nat j) (batch ! j)) [0..<n] r"

lemma poke_all_Suc: "poke_all batch (Suc n) r = poke (rg_write_idx r + of_nat n) (batch ! n) (poke_all batch n r)"
  by (simp add: poke_all_def)

lemma poke_all_keeps: "rg_capacity (poke_all batch n r) = rg_capacity r" "length (rg_payload (poke_all batch n r)) = length (rg_payload r)"
  by (induction n) (simp_all add: poke_all_Suc poke_def, simp_all add: poke_all_def)

lemma poke_all_record: "poke_all batch n r = r\<lparr>rg_payload := rg_payload (poke_all batch n r)\<rparr>"
proof (induction n)
  case (Suc n)
  obtain p where "poke_all batch n r = r\<lparr>rg_payload := p\<rparr>" using Suc by metis
  then show ?case by (simp add: poke_all_Suc poke_def)
qed (simp add: poke_all_def)

lemma poke_all_nth:
  assumes "cursors r W R" "n \<le> cap_of r" "i < cap_of r"
  defines "start \<equiv> W mod cap_of r"
  shows "rg_payload (poke_all batch n r) ! i =
    (if start \<le> i \<and> i < start + n then batch ! (i - start)
     else if i + cap_of r < start + n then batch ! (i + cap_of r - start) else rg_payload r ! i)"
  using assms(2)
proof (induction n)
  case 0
  have "start < cap_of r" using assms(3) by (simp add: start_def)
  then show ?case by (auto simp: poke_all_def)
next
  case (Suc n)
  let ?c = "cap_of r" and ?q = "poke_all batch n r"
  note pow = assms(1) [unfolded cursors_def, THEN conjunct1]
  have st: "start < ?c" using assms(3) by (simp add: start_def)
  have "ring_mask ?q = ring_mask r" by (simp add: ring_mask_def poke_all_keeps)
  then have "unat ((rg_write_idx r + of_nat n) AND ring_mask ?q) = (W + n) mod ?c"
    using assms(1) masked_cursor [OF pow, of "W + n"] by (simp add: cursors_def)
  also have "\<dots> = (start + n) mod ?c" by (simp add: start_def mod_add_left_eq)
  also have "\<dots> = (if start + n < ?c then start + n else start + n - ?c)"
    using st Suc.prems by (simp add: mod_if [of "start + n"])
  finally have "rg_payload (poke_all batch (Suc n) r) =
      (rg_payload ?q)[(if start + n < ?c then start + n else start + n - ?c) := batch ! n]"
    by (simp add: poke_all_Suc poke_def)
  moreover have "length (rg_payload ?q) = ?c" using assms(1) by (simp add: poke_all_keeps cursors_def)
  ultimately show ?case using Suc st assms(3) by (auto simp: nth_list_update)
qed

lemma bytewise_copy:
  assumes "cursors r W R" "length batch \<le> cap_of r - (W - R)"
  shows "ring_write batch r = ((poke_all batch (length batch) r)\<lparr>rg_write_idx := rg_write_idx r + of_nat (length batch)\<rparr>, Inr ())"
proof -
  let ?c = "cap_of r" and ?q = "poke_all batch (length batch) r"
  define st where "st = W mod ?c"
  note pow = assms(1) [unfolded cursors_def, THEN conjunct1]
  have wi: "unat (rg_write_idx r AND ring_mask r) = st"
    using assms(1) masked_cursor [OF pow, of W] by (simp add: cursors_def st_def)
  have len: "length (rg_payload r) = ?c" and nc: "length batch \<le> ?c" and lt: "st < ?c"
    using assms cap_pos [OF pow] by (auto simp: cursors_def st_def)
  let ?p = "if st + length batch \<le> ?c then blit st batch (rg_payload r)
     else blit 0 (drop (?c - st) batch) (blit st (take (?c - st) batch) (rg_payload r))"
  have "rg_payload ?q = ?p"
    using len nc lt
    by (intro nth_equalityI) (auto simp: poke_all_keeps poke_all_nth [OF assms(1) nc, folded st_def] nth_blit add.commute)
  with poke_all_record [of batch "length batch" r] have q: "?q = r\<lparr>rg_payload := ?p\<rparr>" by simp
  have "ring_write batch r = (r\<lparr>rg_payload := ?p, rg_write_idx := rg_write_idx r + of_nat (length batch)\<rparr>, Inr ())"
    using assms(2) cursor_free [OF assms(1)] wi by (simp add: ring_write_def Let_def cap_of_def)
  then show ?thesis by (simp only: q)
qed

lemma bytewise_read:
  assumes "cursors r W R"
  shows "snd (ring_read n r) = map (\<lambda>j. peek (rg_read_idx r + of_nat j) r) [0..<min n (W - R)]"
proof -
  have "peek (rg_read_idx r + of_nat j) r = slot r (R + j)" for j
    using peek_slot [OF assms, of "R + j"] assms by (simp add: cursors_def)
  moreover have "snd (ring_read n r) = take n (unread r W R)" using ring_read_correct [OF assms, of n] by simp
  moreover have "take n (map (slot r) [R..<W]) = map (\<lambda>j. slot r (R + j)) [0..<min n (W - R)]"
    by (intro nth_equalityI) auto
  ultimately show ?thesis by (simp add: unread_def)
qed

section \<open>Properties\<close>

text \<open>
  Property C14. The ring is a lossless queue: for any sequence of writes and reads on a fresh ring of a
  power-of-two capacity, the bytes read so far followed by the bytes still in the ring are exactly the
  bytes of the accepted writes, in order; the ring never holds more than its capacity. The cursors may
  wrap around \<open>2^64\<close>.
\<close>

theorem ring_fifo:
  assumes "ring_create capacity = Inr r"
  shows "case fold rq.run_op ops (r, [], []) of (r', sent, rcvd) \<Rightarrow>
    rcvd @ ring_contents r' = sent \<and> length (ring_contents r') \<le> unat capacity"
proof -
  have "is_power_of_two capacity" using assms by (auto simp: ring_create_def split: if_splits)
  then have c: "cursors r 0 0" "unread r 0 0 = []" "cap_of r = unat capacity"
    using ring_create_cursors [of capacity] assms by auto
  obtain r' sent rcvd where run: "fold rq.run_op ops (r, [], []) = (r', sent, rcvd)" by (metis prod_cases3)
  from rq.run_fifo [where ops = ops and sent = "[]" and rcvd = "[]", OF cursors_valid(1) [OF c(1)]]
  have "ring_valid r'" "cap_of r' = unat capacity" "rcvd @ ring_contents r' = sent"
    using cursors_valid(2) [OF c(1)] c run by simp_all
  with rq.bounded [of r'] run show ?thesis by simp
qed

theorem ring_fifo_witness:
  "case fold rq.run_op [Put [1, 2, 3], Get 2, Put [4, 5, 6]] (\<lparr>rg_capacity = 4, rg_write_idx = 0, rg_read_idx = 0,
      rg_payload = replicate 4 0\<rparr>, [], []) of (r', sent, rcvd) \<Rightarrow>
    rcvd @ ring_contents r' = sent \<and> length (ring_contents r') \<le> unat (4 :: u64)"
proof (rule ring_fifo)
  show "ring_create 4 = Inr \<lparr>rg_capacity = 4, rg_write_idx = 0, rg_read_idx = 0, rg_payload = replicate 4 0\<rparr>"
    by code_simp
qed

text \<open>
  Property C15. Under every interleaving of one writer and one reader, byte by byte, the bytes the reader
  has consumed are a prefix of the bytes the writer has published, and a reader in the middle of a copy
  holds exactly the next published bytes: nothing is lost, duplicated, reordered, torn or overwritten.
\<close>

theorem ring_interleaved_fifo:
  assumes "ring_create capacity = Inr r" and "ring_step\<^sup>*\<^sup>* (ring_init r) s"
  shows "cs_rcvd s = take (length (cs_rcvd s)) (cs_sent s) \<and>
    length (cs_sent s) \<le> length (cs_rcvd s) + unat capacity \<and>
    (\<forall>n got. cs_reader s = RCopy n got \<longrightarrow> got = take (length got) (drop (length (cs_rcvd s)) (cs_sent s)))"
proof -
  have pow: "is_power_of_two capacity" using assms by (auto simp: ring_create_def split: if_splits)
  then have c: "cursors r 0 0" "cap_of r = unat capacity"
    using ring_create_cursors [of capacity] assms by auto
  have "sys_inv s \<and> cap_of (cs_ring s) = unat capacity"
    using assms(2)
  proof (induction rule: rtranclp_induct)
    case base
    show ?case using c by (simp add: sys_inv_def ring_init_def writer_ok_def reader_ok_def)
  next
    case (step s s')
    then show ?case by (auto simp: ring_step_cap intro: ring_step_inv)
  qed
  then show ?thesis by (auto simp: sys_inv_def Let_def reader_ok_def cursors_def)
qed

theorem ring_interleaved_fifo_witness:
  "\<exists>s. ring_step\<^sup>*\<^sup>* (ring_init \<lparr>rg_capacity = 2, rg_write_idx = 0, rg_read_idx = 0, rg_payload = [0, 0]\<rparr>) s \<and>
     cs_sent s = [7] \<and> length (cs_sent s) \<le> length (cs_rcvd s) + unat (2 :: u64)"
proof -
  let ?r = "\<lparr>rg_capacity = 2, rg_write_idx = 0, rg_read_idx = 0, rg_payload = [0, 0]\<rparr> :: ring"
  let ?s0 = "ring_init ?r"
  let ?s1 = "?s0\<lparr>cs_writer := WCopy [7] 0\<rparr>"
  let ?s2 = "?s1\<lparr>cs_writer := WCopy [7] (Suc 0), cs_ring := poke (rg_write_idx (cs_ring ?s1) + of_nat 0) ([7] ! 0) (cs_ring ?s1)\<rparr>"
  let ?s3 = "?s2\<lparr>cs_writer := WIdle, cs_sent := cs_sent ?s2 @ [7],
    cs_ring := (cs_ring ?s2)\<lparr>rg_write_idx := rg_write_idx (cs_ring ?s2) + of_nat (length [7 :: u8])\<rparr>\<rparr>"
  have "ring_step ?s0 ?s1" by (rule writer_moves, rule write_begin) (simp_all add: ring_init_def)
  moreover have "ring_step ?s1 ?s2" by (rule writer_moves, rule write_byte) simp_all
  moreover have "ring_step ?s2 ?s3" by (rule writer_moves, rule write_publish) simp
  ultimately have run: "ring_step\<^sup>*\<^sup>* ?s0 ?s3" by (meson converse_rtranclp_into_rtranclp r_into_rtranclp)
  have "ring_create 2 = Inr ?r" by code_simp
  from ring_interleaved_fifo [OF this run] have "length (cs_sent ?s3) \<le> length (cs_rcvd ?s3) + unat (2 :: u64)" by simp
  moreover have "cs_sent ?s3 = [7]" by (simp add: ring_init_def)
  ultimately show ?thesis using run by blast
qed

end
