(* ===== verification/FL_FileSource.thy ===== *)
theory FL_FileSource
  imports FL_RingProperties FL_ItchProperties
begin

text \<open>
  The offline ITCH source (\<open>replay/src/file_source.rs\<close>): it walks the file message by message and publishes
  it to the ring in batches of about 64 KiB. Where the code yields to the consumer because the ring is
  full, the consumer's turn is the head of a schedule: the number of bytes it reads. A schedule that runs
  out while the source still waits is \<open>None\<close>. Pacing only delays and is not modelled.
\<close>

datatype file_error =
    FsRing ring_error
  | FsTruncated nat nat
  | FsUnknownType u8 nat

record file_stats =
  fs_messages :: nat
  fs_bytes :: nat

text \<open>The pipeline the source drives: the consumer's schedule, the ring, and what the consumer has read.\<close>

type_synonym pipe = "nat list \<times> ring \<times> bytes"

fun flush_batch :: "nat list \<Rightarrow> bytes \<Rightarrow> ring \<Rightarrow> bytes \<Rightarrow> (pipe \<times> (file_error + unit)) option" where
  "flush_batch ks batch r out =
     (if batch = [] then Some ((ks, r, out), Inr ())
      else case ring_write batch r of
        (r', Inr _) \<Rightarrow> Some ((ks, r', out), Inr ())
      | (r', Inl (Full need avail)) \<Rightarrow>
          (case ks of
             [] \<Rightarrow> None
           | k # ks' \<Rightarrow>
               if 0 < avail then
                 (case ring_write (take avail batch) r' of
                    (r1, Inl e) \<Rightarrow> Some ((ks, r1, out), Inl (FsRing e))
                  | (r1, Inr _) \<Rightarrow>
                      let (r2, bs) = ring_read k r1 in flush_batch ks' (drop avail batch) r2 (out @ bs))
               else let (r2, bs) = ring_read k r' in flush_batch ks' batch r2 (out @ bs))
      | (r', Inl e) \<Rightarrow> Some ((ks, r', out), Inl (FsRing e)))"

declare flush_batch.simps [simp del]

definition batch_target :: nat where
  "batch_target = 64 * 1024"

function drive_loop :: "bytes \<Rightarrow> nat \<Rightarrow> nat \<Rightarrow> nat \<Rightarrow> nat \<Rightarrow> pipe \<Rightarrow>
    ((nat \<times> pipe) \<times> (file_error + file_stats)) option" where
  "drive_loop buf cursor batch_start messages bytes' pipe =
     (if length buf \<le> cursor then
        (if batch_start < cursor then
           (case pipe of (ks, r, out) \<Rightarrow>
              (case flush_batch ks (slice batch_start cursor buf) r out of
                 None \<Rightarrow> None
               | Some (pipe', res) \<Rightarrow>
                   Some ((cursor, pipe'), bind_res res (\<lambda>_. Inr \<lparr>fs_messages = messages, fs_bytes = bytes'\<rparr>))))
         else Some ((cursor, pipe), Inr \<lparr>fs_messages = messages, fs_bytes = bytes'\<rparr>))
      else
        let ty = buf ! cursor;
            len = unat (msg_length ty)
        in if len = 0 then Some ((cursor, pipe), Inl (FsUnknownType ty cursor))
           else if length buf < cursor + len then
             Some ((cursor, pipe), Inl (FsTruncated cursor (cursor + len - length buf)))
           else if batch_target \<le> cursor + len - batch_start then
             (case pipe of (ks, r, out) \<Rightarrow>
                (case flush_batch ks (slice batch_start (cursor + len) buf) r out of
                   None \<Rightarrow> None
                 | Some (pipe', Inl e) \<Rightarrow> Some ((cursor + len, pipe'), Inl e)
                 | Some (pipe', Inr _) \<Rightarrow>
                     drive_loop buf (cursor + len) (cursor + len) (messages + 1) (bytes' + len) pipe'))
           else drive_loop buf (cursor + len) batch_start (messages + 1) (bytes' + len) pipe)"
  by pat_completeness auto
termination
  by (relation "measure (\<lambda>(buf, cursor, _). length buf - cursor)") auto

declare drive_loop.simps [simp del]

definition file_drive :: "bytes \<Rightarrow> nat \<Rightarrow> pipe \<Rightarrow> ((nat \<times> pipe) \<times> (file_error + file_stats)) option" where
  "file_drive buf cursor pipe = drive_loop buf cursor cursor 0 0 pipe"

definition extract_ts_ns :: "bytes \<Rightarrow> u64 option" where
  "extract_ts_ns msg =
     (if length msg < 11 then None
      else if msg ! 0 \<in> {0x41, 0x46, 0x44, 0x58, 0x45, 0x43, 0x50, 0x55, 0x51} then
        Some (push_bit 40 (ucast (msg ! 5)) OR push_bit 32 (ucast (msg ! 6)) OR push_bit 24 (ucast (msg ! 7)) OR
              push_bit 16 (ucast (msg ! 8)) OR push_bit 8 (ucast (msg ! 9)) OR ucast (msg ! 10))
      else None)"

section \<open>Flushing a batch\<close>

definition free_of :: "ring \<Rightarrow> nat" where
  "free_of r = cap_of r - length (ring_contents r)"

lemma write_fits:
  assumes "ring_valid r" "length b \<le> free_of r"
  obtains r1 where "ring_write b r = (r1, Inr ())" "ring_valid r1" "cap_of r1 = cap_of r"
    "ring_contents r1 = ring_contents r @ b"
proof -
  obtain r1 res where w: "ring_write b r = (r1, res)" by force
  show thesis
    using rq.put_fits [OF assms(1), of b] assms(2) w that [of r1]
    by (simp add: ring_put_def free_of_def)
qed

lemma write_full:
  assumes "ring_valid r" "\<not> length b \<le> free_of r"
  shows "ring_write b r = (r, Inl (Full (length b) (free_of r)))"
  using ring_write_correct [OF valid_cursors [OF assms(1)], of b] assms(2)
  by (simp add: free_of_def length_ring_contents)

lemma read_laws:
  assumes "ring_valid r"
  obtains r2 where "ring_read k r = (r2, take k (ring_contents r))" "ring_valid r2" "cap_of r2 = cap_of r"
    "ring_contents r2 = drop k (ring_contents r)"
  using rq.get_front [OF assms, of k] by (cases "ring_read k r") auto

text \<open>Consumer turns a batch may need: one to make room when the ring is full, then one per byte at most.\<close>

definition turns :: "bytes \<Rightarrow> ring \<Rightarrow> nat" where
  "turns batch r = length batch + (if free_of r = 0 then 1 else 0)"

lemma flush_batch_completes:
  "\<lbrakk>ring_valid r; 0 < cap_of r; \<forall>k \<in> set ks. 0 < k; turns batch r \<le> length ks\<rbrakk> \<Longrightarrow>
   \<exists>ks' r' bs. flush_batch ks batch r out = Some ((ks', r', out @ bs), Inr ()) \<and> ring_valid r' \<and>
     cap_of r' = cap_of r \<and> bs @ ring_contents r' = ring_contents r @ batch \<and>
     length ks \<le> length ks' + turns batch r \<and> set ks' \<subseteq> set ks"
proof (induction ks arbitrary: batch r out)
  case Nil
  then have "batch = []" by (simp add: turns_def)
  with Nil show ?case by (subst flush_batch.simps) auto
next
  case (Cons k ks)
  note v = Cons.prems(1)
  show ?case
  proof (cases "length batch \<le> free_of r")
    case True
    obtain r1 where r1: "ring_write batch r = (r1, Inr ())" "ring_valid r1" "cap_of r1 = cap_of r"
        "ring_contents r1 = ring_contents r @ batch"
      using write_fits [OF v True] by blast
    show ?thesis
    proof (cases "batch = []")
      case True
      then show ?thesis using v by (subst flush_batch.simps) auto
    next
      case False
      then show ?thesis using r1 by (subst flush_batch.simps) auto
    qed
  next
    case full: False
    let ?a = "free_of r"
    have ne: "batch \<noteq> []" using full by auto
    note w = write_full [OF v full]
    show ?thesis
    proof (cases "?a = 0")
      case True
      obtain r2 where r2: "ring_read k r = (r2, take k (ring_contents r))" "ring_valid r2" "cap_of r2 = cap_of r"
          "ring_contents r2 = drop k (ring_contents r)"
        using read_laws [OF v] by blast
      have "0 < free_of r2"
        using r2 True Cons.prems(2,3) rq.bounded [OF v] by (simp add: free_of_def)
      then have t: "turns batch r2 = length batch" "turns batch r = Suc (length batch)"
        using True by (simp_all add: turns_def)
      have "flush_batch (k # ks) batch r out = flush_batch ks batch r2 (out @ take k (ring_contents r))"
        using w ne True r2 by (subst flush_batch.simps) simp
      moreover obtain ks' r' bs where "flush_batch ks batch r2 (out @ take k (ring_contents r)) =
          Some ((ks', r', (out @ take k (ring_contents r)) @ bs), Inr ())" "ring_valid r'" "cap_of r' = cap_of r2"
          "bs @ ring_contents r' = ring_contents r2 @ batch" "length ks \<le> length ks' + turns batch r2" "set ks' \<subseteq> set ks"
        using Cons.IH [of r2 batch "out @ take k (ring_contents r)"] r2 Cons.prems t by auto
      ultimately show ?thesis
        using r2 t by (intro exI [of _ ks'] exI [of _ r'] exI [of _ "take k (ring_contents r) @ bs"]) auto
    next
      case False
      have "length (take ?a batch) \<le> free_of r" by simp
      then obtain r1 where r1: "ring_write (take ?a batch) r = (r1, Inr ())" "ring_valid r1" "cap_of r1 = cap_of r"
          "ring_contents r1 = ring_contents r @ take ?a batch"
        using write_fits [OF v] by blast
      obtain r2 where r2: "ring_read k r1 = (r2, take k (ring_contents r1))" "ring_valid r2" "cap_of r2 = cap_of r1"
          "ring_contents r2 = drop k (ring_contents r1)"
        using read_laws [OF r1(2)] by blast
      have "length (ring_contents r1) = cap_of r"
        using r1(4) full rq.bounded [OF v] by (simp add: free_of_def)
      then have "length (ring_contents r2) = cap_of r - k" by (simp only: r2(4) length_drop)
      then have "0 < free_of r2"
        using r1(3) r2(3) Cons.prems(2,3) by (simp add: free_of_def)
      then have t: "turns (drop ?a batch) r2 = length batch - ?a" "turns batch r = length batch"
        using False by (simp_all add: turns_def)
      have "flush_batch (k # ks) batch r out =
          flush_batch ks (drop ?a batch) r2 (out @ take k (ring_contents r1))"
        using w ne False r1 r2 by (subst flush_batch.simps) simp
      moreover obtain ks' r' bs where "flush_batch ks (drop ?a batch) r2 (out @ take k (ring_contents r1)) =
          Some ((ks', r', (out @ take k (ring_contents r1)) @ bs), Inr ())" "ring_valid r'" "cap_of r' = cap_of r2"
          "bs @ ring_contents r' = ring_contents r2 @ drop ?a batch"
          "length ks \<le> length ks' + turns (drop ?a batch) r2" "set ks' \<subseteq> set ks"
      proof -
        have "0 < cap_of r2" "\<forall>k \<in> set ks. 0 < k" "turns (drop ?a batch) r2 \<le> length ks"
          using r1(3) r2(3) Cons.prems(2,3,4) t False by simp_all
        from Cons.IH [OF r2(2) this, of "out @ take k (ring_contents r1)"] that show ?thesis by blast
      qed
      moreover have "take k (ring_contents r1) @ ring_contents r2 @ drop ?a batch = ring_contents r @ batch"
        using r1(4) r2(4) by (metis append.assoc append_take_drop_id)
      ultimately show ?thesis
        using r1 r2 t False full
        by (intro exI [of _ ks'] exI [of _ r'] exI [of _ "take k (ring_contents r1) @ bs"]) auto
    qed
  qed
qed

section \<open>Driving a file\<close>

text \<open>Turns that the rest of the walk may need, with \<open>p\<close> bytes of the current batch still unpublished.\<close>

lemma drive_loop_completes:
  "\<lbrakk>\<forall>m \<in> set ms. msg_ok m; ring_valid r; 0 < cap_of r; \<forall>k \<in> set ks. 0 < k;
    2 * (length pend + length (concat ms)) \<le> length ks\<rbrakk> \<Longrightarrow>
   \<exists>ks' r' bs. drive_loop (pre @ pend @ concat ms) (length pre + length pend) (length pre) n b (ks, r, out) =
       Some ((length (pre @ pend @ concat ms), ks', r', out @ bs),
             Inr \<lparr>fs_messages = n + length ms, fs_bytes = b + length (concat ms)\<rparr>) \<and>
     ring_valid r' \<and> cap_of r' = cap_of r \<and> bs @ ring_contents r' = ring_contents r @ pend @ concat ms"
proof (induction ms arbitrary: pre pend n b ks r out)
  case Nil
  have pend: "slice (length pre) (length pre + length pend) (pre @ pend) = pend"
    using slice_mid [of pre _ pend _ "[]"] by simp
  show ?case
  proof (cases "pend = []")
    case True
    then show ?thesis using Nil by (subst drive_loop.simps) auto
  next
    case False
    then have "turns pend r \<le> length ks" using Nil.prems(5) by (cases pend) (simp_all add: turns_def)
    with flush_batch_completes [OF Nil.prems(2,3,4) this, of out] False pend show ?thesis
      by (subst drive_loop.simps) auto
  qed
next
  case (Cons m ms)
  let ?buf = "pre @ pend @ m @ concat ms"
  let ?cur = "length pre + length pend"
  have m: "m \<noteq> []" "unat (msg_length (m ! 0)) = length m" using Cons.prems(1) by (simp_all add: msg_ok_def)
  have at: "?buf ! ?cur = m ! 0" using m by (simp add: nth_append)
  have sl: "slice (length pre) (?cur + length m) ?buf = pend @ m"
    using slice_mid [of pre _ "pend @ m" _ "concat ms"] by simp
  have go: "\<not> length ?buf \<le> ?cur" "\<not> length ?buf < ?cur + length m" "length m \<noteq> 0" using m by simp_all
  show ?case
  proof (cases "batch_target \<le> length pend + length m")
    case False
    have "drive_loop ?buf ?cur (length pre) n b (ks, r, out) =
        drive_loop ?buf (?cur + length m) (length pre) (n + 1) (b + length m) (ks, r, out)"
      using go at m(2) False by (subst drive_loop.simps) (simp add: Let_def)
    then show ?thesis
      using Cons.IH [of r ks "pend @ m" pre "n + 1" "b + length m" out] Cons.prems by (simp add: add.assoc)
  next
    case True
    have "turns (pend @ m) r \<le> 2 * length (pend @ m)" using m(1) by (cases m) (simp_all add: turns_def)
    moreover from this have "turns (pend @ m) r \<le> length ks" using Cons.prems(5) by simp
    ultimately obtain ks1 r1 bs1 where f: "flush_batch ks (pend @ m) r out = Some ((ks1, r1, out @ bs1), Inr ())"
        "ring_valid r1" "cap_of r1 = cap_of r" "bs1 @ ring_contents r1 = ring_contents r @ pend @ m"
        "length ks \<le> length ks1 + 2 * length (pend @ m)" "set ks1 \<subseteq> set ks"
      using flush_batch_completes [OF Cons.prems(2,3,4), of "pend @ m" out] by force
    have "drive_loop ?buf ?cur (length pre) n b (ks, r, out) =
        drive_loop ?buf (?cur + length m) (?cur + length m) (n + 1) (b + length m) (ks1, r1, out @ bs1)"
      using go at m(2) True sl f(1) by (subst drive_loop.simps) (simp add: Let_def)
    moreover have "\<forall>k \<in> set ks1. 0 < k" "2 * (length ([] :: bytes) + length (concat ms)) \<le> length ks1"
      using Cons.prems(4,5) f(5,6) by auto
    ultimately show ?thesis
      using Cons.IH [of r1 ks1 "[]" "pre @ pend @ m" "n + 1" "b + length m" "out @ bs1"] Cons.prems(1,3) f(2,3,4)
      by (auto simp: add.assoc)
  qed
qed

section \<open>Properties\<close>

text \<open>
  Property C17. A recorded feed reaches the consumer intact: driving a file of complete messages through a
  fresh ring of any capacity, with a consumer that keeps reading, terminates, reports the number of
  messages and bytes, and what the consumer has read plus what is left in the ring is the file, byte for
  byte; so parsing it gives the same events as parsing the file.
\<close>

theorem file_replay_intact:
  assumes "ring_create capacity = Inr r" and "\<forall>m \<in> set ms. msg_ok m"
    and "\<forall>k \<in> set ks. 0 < k" and "2 * length (concat ms) \<le> length ks"
  shows "\<exists>ks' r' bs. file_drive (concat ms) 0 (ks, r, []) =
      Some ((length (concat ms), ks', r', bs), Inr \<lparr>fs_messages = length ms, fs_bytes = length (concat ms)\<rparr>) \<and>
    bs @ ring_contents r' = concat ms \<and>
    parse_buffer (bs @ ring_contents r') [] = (events_of ms, Inr (length (events_of ms)))"
proof -
  have "is_power_of_two capacity" using assms(1) by (auto simp: ring_create_def split: if_splits)
  then have c: "cursors r 0 0" "unread r 0 0 = []"
    using ring_create_cursors [of capacity] assms(1) by auto
  note v = cursors_valid [OF c(1)]
  have "0 < cap_of r" using c(1) cap_pos by (simp add: cursors_def)
  with drive_loop_completes [OF assms(2) v(1) _ assms(3), of "[]" "[]" 0 0 "[]"] assms(4) v(2) c(2)
  obtain ks' r' bs where "file_drive (concat ms) 0 (ks, r, []) =
      Some ((length (concat ms), ks', r', bs), Inr \<lparr>fs_messages = length ms, fs_bytes = length (concat ms)\<rparr>)"
      "bs @ ring_contents r' = concat ms"
    by (auto simp: file_drive_def)
  moreover have "parse_buffer (concat ms) [] = (events_of ms, Inr (length (events_of ms)))"
    using parse_buffer_messages [OF assms(2), of "[]" "[]" "[]" 0]
    by (simp add: parse_buffer_def incomplete_def parse_end_def)
  ultimately show ?thesis by auto
qed

theorem file_replay_intact_witness:
  "\<exists>ks' r' bs. file_drive (concat [emit_order_delete [] 5 9]) 0 (replicate 40 3,
      \<lparr>rg_capacity = 4, rg_write_idx = 0, rg_read_idx = 0, rg_payload = replicate 4 0\<rparr>, []) =
      Some ((19, ks', r', bs), Inr \<lparr>fs_messages = 1, fs_bytes = 19\<rparr>) \<and>
    bs @ ring_contents r' = emit_order_delete [] 5 9"
proof -
  let ?r = "\<lparr>rg_capacity = 4, rg_write_idx = 0, rg_read_idx = 0, rg_payload = replicate 4 0\<rparr> :: ring"
  have "ring_create 4 = Inr ?r" by code_simp
  moreover have "length (concat [emit_order_delete [] 5 9]) = 19" by (simp add: emit_order_delete_def)
  ultimately show ?thesis
    using file_replay_intact [of 4 ?r "[emit_order_delete [] 5 9]" "replicate 40 3"] by (auto simp: emitted_ok)
qed

end
