(* ===== verification/FL_BreakerProperties.thy ===== *)
theory FL_BreakerProperties
  imports FL_CircuitBreaker
begin

text \<open>
  The breaker fails closed, its flag and its reason agree, the position cap holds for orders that are
  filled one after the other, and the token bucket bounds the number of orders in any time span.
\<close>

section \<open>Latching\<close>

definition flag_ok :: "circuit_breaker \<Rightarrow> bool" where
  "flag_ok b \<longleftrightarrow> (cb_is_halted b \<longleftrightarrow> cb_halt_reason b \<noteq> None)"

fun recovers :: "breaker_op \<Rightarrow> bool" where
  "recovers OpReset = True"
| "recovers OpStartOfDay = True"
| "recovers _ = False"

fun is_check :: "breaker_op \<Rightarrow> bool" where
  "is_check (OpCheck _ _) = True"
| "is_check _ = False"

lemmas breaker_defs = cb_check_def cb_record_fill_def cb_record_gap_def cb_manual_halt_def cb_latch_def
  cb_snapshot_def cb_halt_reason_def cb_is_halted_def

lemma flag_ok_op: "flag_ok b \<Longrightarrow> flag_ok (fst (run_breaker_op rnd op (b, ds)))"
  by (cases op)
    (auto simp: flag_ok_def breaker_defs cb_reset_def cb_start_of_day_def Let_def case_prod_unfold split: option.splits)

lemma flag_ok_run: "flag_ok b \<Longrightarrow> flag_ok (fst (fold (run_breaker_op rnd) ops (b, ds)))"
proof (induction ops arbitrary: b ds)
  case (Cons op ops)
  then show ?case
    using flag_ok_op [OF Cons.prems, of rnd op ds] by (cases "run_breaker_op rnd op (b, ds)") simp
qed simp

lemma halted_op:
  assumes "cb_reason b = Some r" "\<not> recovers op"
  shows "\<exists>b'. run_breaker_op rnd op (b, ds) = (b', if is_check op then ds @ [Block r] else ds) \<and>
    cb_reason b' = Some r \<and> cb_orders_sent b' = cb_orders_sent b"
  using assms
  by (cases op) (auto simp: breaker_defs Let_def split: option.splits)

lemma halted_run:
  "cb_reason b = Some r \<Longrightarrow> \<forall>op \<in> set ops. \<not> recovers op \<Longrightarrow>
   \<exists>b'. fold (run_breaker_op rnd) ops (b, ds) = (b', ds @ replicate (length (filter is_check ops)) (Block r)) \<and>
     cb_reason b' = Some r \<and> cb_orders_sent b' = cb_orders_sent b"
proof (induction ops arbitrary: b ds)
  case (Cons op ops)
  obtain b1 where b1: "run_breaker_op rnd op (b, ds) = (b1, if is_check op then ds @ [Block r] else ds)"
      "cb_reason b1 = Some r" "cb_orders_sent b1 = cb_orders_sent b"
    using halted_op [OF Cons.prems(1)] Cons.prems(2) by (metis list.set_intros(1))
  from Cons.IH [OF b1(2), of "if is_check op then ds @ [Block r] else ds"] Cons.prems(2) b1 show ?case
    by (cases "is_check op") auto
qed simp

section \<open>Position cap\<close>

text \<open>One order: checked, and when allowed filled with at most its quantity before the next one.\<close>

definition trade_cycle :: "(rat \<Rightarrow> rat) \<Rightarrow> int \<times> intent \<times> u32 \<times> u64 \<Rightarrow> circuit_breaker \<Rightarrow> circuit_breaker" where
  "trade_cycle rnd c b =
     (case c of (now, i, qty, price) \<Rightarrow>
        (case cb_check rnd now i b of
           (b1, Allow) \<Rightarrow> cb_record_fill \<lparr>fl_instrument_id = in_instrument_id i, fl_side = in_side i,
             fl_qty = qty, fl_price_ticks = price\<rparr> b1
         | (b1, Block _) \<Rightarrow> b1))"

definition within_cap :: "int \<Rightarrow> circuit_breaker \<Rightarrow> bool" where
  "within_cap m b \<longleftrightarrow> (\<forall>iid. \<bar>sint (cb_position b iid)\<bar> \<le> m)"

lemma int_powers: "(2 :: int) ^ 63 = 9223372036854775808" "(2 :: int) ^ 62 = 4611686018427387904"
  "(2 :: int) ^ 32 = 4294967296"
  by simp_all

lemma sint_small: "- (2 ^ 63) \<le> x \<Longrightarrow> x < 2 ^ 63 \<Longrightarrow> sint (of_int x :: i64) = x"
  by (simp add: sint_sbintrunc' signed_take_bit_int_eq_self)

lemma sint_add_small:
  "- (2 ^ 63) \<le> sint a + sint b \<Longrightarrow> sint a + sint b < 2 ^ 63 \<Longrightarrow> sint (a + b :: i64) = sint a + sint b"
  by (simp add: sint_word_add signed_take_bit_int_eq_self)

lemma int_unat_u32: "int (unat (q :: u32)) < 2 ^ 32"
  by (metis of_nat_less_iff of_nat_numeral of_nat_power unat_lt_u32)

lemma sint_of_small:
  assumes "0 \<le> x" "x < 2 ^ 32"
  shows "sint (of_int x :: i64) = x" "sint (- of_int x :: i64) = - x"
proof -
  have x: "x < 4294967296" using assms(2) by simp
  show "sint (of_int x :: i64) = x"
    using assms(1) x by (intro sint_small) simp_all
  have "sint (of_int (- x) :: i64) = - x"
    using assms(1) x by (intro sint_small) simp_all
  then show "sint (- of_int x :: i64) = - x" by simp
qed

lemma sint_signed_qty: "sint (signed_qty sd q) = (case sd of Buy \<Rightarrow> int (unat q) | Sell \<Rightarrow> - int (unat q))"
proof -
  have u: "(ucast q :: i64) = of_int (int (unat q))" by simp
  show ?thesis
    using sint_of_small [OF of_nat_0_le_iff int_unat_u32 [of q]] unfolding signed_qty_def u
    by (cases sd) (simp_all only: order_side.case)
qed

lemma abs_i64_small: "- (2 ^ 63) < sint w \<Longrightarrow> sint (abs_i64 w) = \<bar>sint w\<bar>"
  using sint_lt [of w] by (simp add: abs_i64_def sint_word_minus signed_take_bit_int_eq_self)

lemma cb_check_config: "cb_cfg (fst (cb_check rnd now i b)) = cb_cfg b"
  by (simp add: cb_check_def cb_latch_def Let_def case_prod_unfold split: option.splits)

lemma cb_check_positions: "cb_positions (fst (cb_check rnd now i b)) = cb_positions b"
  by (simp add: cb_check_def cb_latch_def Let_def case_prod_unfold split: option.splits)

lemma cb_check_allow:
  assumes "snd (cb_check rnd now i b) = Allow"
  shows "\<not> position_trips i b" "\<not> loss_trips b" "cb_reason b = None"
  using assms
  by (auto simp: cb_check_def cb_latch_def Let_def case_prod_unfold cb_halt_reason_def position_trips_def loss_trips_def
      cb_position_def split: option.splits if_splits)

lemma partial_fill_between:
  assumes "\<bar>c\<bar> \<le> m" "\<bar>c + d\<bar> \<le> m" "d = (if s then int Q else - int Q)" "q \<le> Q"
  shows "\<bar>c + (if s then int q else - int q)\<bar> \<le> m"
  using assms by (auto split: if_splits)

lemma trade_cycle_cap:
  assumes cfg: "bc_max_position (cb_cfg b) = Some mx" and m: "sint mx \<le> 2 ^ 62"
    and cap: "within_cap (sint mx) b" and q: "qty \<le> in_qty i"
  shows "within_cap (sint mx) (trade_cycle rnd (now, i, qty, price) b)"
proof (cases "snd (cb_check rnd now i b)")
  case (Block r)
  then show ?thesis
    using cap cb_check_positions [of rnd now i b]
    by (cases "cb_check rnd now i b") (simp add: trade_cycle_def within_cap_def cb_position_def)
next
  case Allow
  obtain b1 where b1: "cb_check rnd now i b = (b1, Allow)" using Allow by (cases "cb_check rnd now i b") auto
  have pos: "cb_positions b1 = cb_positions b" using cb_check_positions [of rnd now i b] b1 by simp
  define c where "c = sint (cb_position b (in_instrument_id i))"
  have c: "\<bar>c\<bar> \<le> sint mx" using cap by (simp add: within_cap_def c_def)
  have Q: "int (unat (in_qty i)) < 2 ^ 32" by (rule int_unat_u32)
  have d: "sint (signed_qty sd x) = (if sd = Buy then int (unat x) else - int (unat x))" for sd x
    by (cases sd) (simp_all add: sint_signed_qty)
  have add: "sint (cb_position b (in_instrument_id i) + signed_qty (in_side i) x) =
      c + (if in_side i = Buy then int (unat x) else - int (unat x))" if "x \<le> in_qty i" for x
  proof -
    have "\<bar>sint (signed_qty (in_side i) x)\<bar> < 2 ^ 32" using int_unat_u32 [of x] d [of "in_side i" x] by auto
    then have "sint (cb_position b (in_instrument_id i) + signed_qty (in_side i) x) =
        sint (cb_position b (in_instrument_id i)) + sint (signed_qty (in_side i) x)"
      using c m unfolding c_def int_powers by (intro sint_add_small; unfold int_powers; linarith)
    then show ?thesis by (simp only: d c_def)
  qed
  have "\<not> position_trips i b" using cb_check_allow(1) Allow by blast
  then have "sint (abs_i64 (cb_position b (in_instrument_id i) + signed_qty (in_side i) (in_qty i))) \<le> sint mx"
    by (simp add: position_trips_def cfg)
  moreover have "\<bar>sint (cb_position b (in_instrument_id i) + signed_qty (in_side i) (in_qty i))\<bar> < 2 ^ 63"
  proof -
    have "0 \<le> int (unat (in_qty i))" by simp
    then show ?thesis
      unfolding add [OF order_refl] using c m Q unfolding int_powers by (simp only: split: if_split) linarith
  qed
  ultimately have "\<bar>c + (if in_side i = Buy then int (unat (in_qty i)) else - int (unat (in_qty i)))\<bar> \<le> sint mx"
    using add [OF order_refl] by (subst (asm) abs_i64_small) linarith+
  then have "\<bar>c + (if in_side i = Buy then int (unat qty) else - int (unat qty))\<bar> \<le> sint mx"
    using q c by (intro partial_fill_between) (simp_all add: word_le_nat_alt)
  then have "\<bar>sint (cb_position b (in_instrument_id i) + signed_qty (in_side i) qty)\<bar> \<le> sint mx"
    unfolding add [OF q] .
  then show ?thesis
    using cap b1 pos
    by (auto simp: trade_cycle_def within_cap_def cb_position_def cb_record_fill_def Let_def om_lookup_insert)
qed

lemma cb_record_fill_config: "cb_cfg (cb_record_fill f b) = cb_cfg b"
  by (simp add: cb_record_fill_def Let_def)

lemma trade_cycle_config: "cb_cfg (trade_cycle rnd c b) = cb_cfg b"
proof -
  obtain now i qty price where c: "c = (now, i, qty, price)" by (cases c)
  show ?thesis
    using cb_check_config [of rnd now i b]
    by (cases "cb_check rnd now i b"; cases "snd (cb_check rnd now i b)")
      (simp_all add: c trade_cycle_def cb_record_fill_config)
qed

lemma trade_cycles_cap:
  assumes "bc_max_position (cb_cfg b) = Some mx" "sint mx \<le> 2 ^ 62" "within_cap (sint mx) b"
    "\<forall>(now, i, qty, price) \<in> set cs. qty \<le> in_qty i"
  shows "within_cap (sint mx) (fold (trade_cycle rnd) cs b)"
  using assms
proof (induction cs arbitrary: b)
  case (Cons c cs)
  obtain now i qty price where c: "c = (now, i, qty, price)" by (cases c)
  have "within_cap (sint mx) (trade_cycle rnd c b)"
    using trade_cycle_cap [OF Cons.prems(1-3)] Cons.prems(4) by (simp add: c)
  then show ?case using Cons by (simp add: trade_cycle_config)
qed simp

section \<open>Order rate\<close>

definition check_times :: "breaker_op list \<Rightarrow> int list" where
  "check_times ops = concat (map (\<lambda>op. case op of OpCheck t _ \<Rightarrow> [t] | _ \<Rightarrow> []) ops)"

definition allowed :: "decision list \<Rightarrow> nat" where
  "allowed ds = length (filter (\<lambda>d. d = Allow) ds)"

lemma allowed_simps [simp]: "allowed [] = 0" "allowed (ds @ [Allow]) = Suc (allowed ds)"
  "allowed (ds @ [Block r]) = allowed ds"
  by (simp_all add: allowed_def)

text \<open>
  What the bucket needs of \<open>f64\<close> arithmetic on values in its range: rounding keeps the sign, and it is off by at most
  one part in \<open>2^53\<close> (half a unit in the last place of a normal number) or, near zero, by a tiny absolute amount.
  Rounding to nearest has both for every value up to \<open>2^200\<close>, far below the overflow threshold.
\<close>

definition near_rounding :: "(rat \<Rightarrow> rat) \<Rightarrow> bool" where
  "near_rounding rnd \<longleftrightarrow> (\<forall>x. 0 \<le> x \<and> x \<le> 2 ^ 200 \<longrightarrow> 0 \<le> rnd x \<and> \<bar>rnd x - x\<bar> \<le> x / 2 ^ 53 + 1 / 2 ^ 80)"

lemma near_roundingD:
  assumes "near_rounding rnd" "0 \<le> x" "x \<le> 2 ^ 200"
  shows "0 \<le> rnd x" "rnd x \<le> x + x / 2 ^ 53 + 1 / 2 ^ 80"
proof -
  have "0 \<le> rnd x \<and> \<bar>rnd x - x\<bar> \<le> x / 2 ^ 53 + 1 / 2 ^ 80" using assms unfolding near_rounding_def by blast
  then show "0 \<le> rnd x" "rnd x \<le> x + x / 2 ^ 53 + 1 / 2 ^ 80" by linarith+
qed

lemma as_secs_bound:
  assumes rnd: "near_rounding rnd" and d: "0 \<le> d" "d < 2 ^ 64 * 10 ^ 9"
  defines "E \<equiv> of_int d / 10 ^ 9"
  shows "0 \<le> as_secs_f64 rnd d" "as_secs_f64 rnd d \<le> E + E / 2 ^ 51 + 1 / 2 ^ 77" "0 \<le> E" "E \<le> 2 ^ 64"
proof -
  define q m :: rat where "q = of_int (d div 10 ^ 9)" and "m = of_int (d mod 10 ^ 9) / 10 ^ 9"
  have "(of_int d :: rat) = of_int (d div 10 ^ 9 * 10 ^ 9 + d mod 10 ^ 9)" by simp
  then have "(of_int d :: rat) = of_int (d div 10 ^ 9) * 10 ^ 9 + of_int (d mod 10 ^ 9)"
    unfolding of_int_add of_int_mult by simp
  then have E: "E = q + m" by (simp add: E_def q_def m_def field_simps)
  have "0 \<le> d div 10 ^ 9" "0 \<le> d mod 10 ^ 9" using d by simp_all
  then have qm: "0 \<le> q" "0 \<le> m" unfolding q_def m_def by simp_all
  have "(of_int d :: rat) \<le> of_int (2 ^ 64 * 10 ^ 9)" using d(2) by (intro of_int_le_iff [THEN iffD2]) simp
  then show E64: "E \<le> 2 ^ 64" by (simp add: E_def field_simps)
  show "0 \<le> E" using qm E by simp
  have "0 \<le> rnd q" "rnd q \<le> q + q / 2 ^ 53 + 1 / 2 ^ 80" "0 \<le> rnd m" "rnd m \<le> m + m / 2 ^ 53 + 1 / 2 ^ 80"
    using qm E E64 by (intro near_roundingD [OF rnd]; simp)+
  then have x: "0 \<le> rnd q + rnd m" "rnd q + rnd m \<le> E + E / 2 ^ 53 + 2 / 2 ^ 80" unfolding E by (simp_all add: field_simps)
  then have "rnd q + rnd m \<le> 2 ^ 200" using E64 by simp
  with near_roundingD [OF rnd x(1)] x E64 qm E
  show "0 \<le> as_secs_f64 rnd d" "as_secs_f64 rnd d \<le> E + E / 2 ^ 51 + 1 / 2 ^ 77"
    unfolding as_secs_f64_def q_def [symmetric] m_def [symmetric] by (simp_all add: field_simps)
qed

lemma refill_bound:
  assumes rnd: "near_rounding rnd" and tok: "0 \<le> tok" "tok \<le> r" and r: "0 \<le> r" "r \<le> 2 ^ 32"
    and e: "0 \<le> e" "e \<le> E + E / 2 ^ 51 + 1 / 2 ^ 77" and E: "0 \<le> E" "E \<le> 2 ^ 64"
  shows "0 \<le> rnd (tok + rnd (e * r))" "rnd (tok + rnd (e * r)) \<le> tok + E * r * (1 + 1 / 2 ^ 50) + 1 / 2 ^ 20"
proof -
  define Z where "Z = E * r"
  have Z: "0 \<le> Z" "Z \<le> 2 ^ 96" using E r mult_mono [of E "2 ^ 64" r "2 ^ 32"] by (simp_all add: Z_def)
  have "e * r \<le> (E + E / 2 ^ 51 + 1 / 2 ^ 77) * r" using e(2) r(1) by (rule mult_right_mono)
  then have er: "0 \<le> e * r" "e * r \<le> Z + Z / 2 ^ 51 + r / 2 ^ 77"
    using e r by (simp_all add: Z_def algebra_simps)
  then have "e * r \<le> 2 ^ 200" using Z r by simp
  note p = near_roundingD [OF rnd er(1) this]
  then have q: "0 \<le> tok + rnd (e * r)" "tok + rnd (e * r) \<le> 2 ^ 200" using tok r Z er by simp_all
  note t = near_roundingD [OF rnd q]
  show "0 \<le> rnd (tok + rnd (e * r))" by (rule t(1))
  have "rnd (tok + rnd (e * r)) \<le> tok + Z * (1 + 1 / 2 ^ 50) + 1 / 2 ^ 20"
    using t(2) p er Z r tok by (simp add: field_simps)
  then show "rnd (tok + rnd (e * r)) \<le> tok + E * r * (1 + 1 / 2 ^ 50) + 1 / 2 ^ 20" unfolding Z_def .
qed

lemma tb_try_take_bound:
  assumes rnd: "near_rounding rnd" and t: "tb_last b \<le> now" "now - tb_last b < 2 ^ 64 * 10 ^ 9"
    and tok: "0 \<le> tb_tokens b" "tb_tokens b \<le> r" "tb_capacity b = r" and r: "r \<le> 2 ^ 32"
    and step: "tb_try_take rnd now 1 r b = (b', ok)"
  shows "tb_last b' = now" "tb_capacity b' = r" "0 \<le> tb_tokens b'" "tb_tokens b' \<le> r"
    "tb_tokens b' + (if ok then 1 else 0) \<le> tb_tokens b + r * (1 + 1 / 2 ^ 50) * (of_int (now - tb_last b) / 10 ^ 9) + 1 / 2 ^ 19"
proof -
  define E e x where "E = (of_int (now - tb_last b) / 10 ^ 9 :: rat)" and "e = as_secs_f64 rnd (now - tb_last b)"
    and "x = rnd (tb_tokens b + rnd (e * r))"
  have d: "max 0 (now - tb_last b) = now - tb_last b" "0 \<le> now - tb_last b" using t by simp_all
  note secs = as_secs_bound [OF rnd d(2) t(2), folded E_def e_def]
  have r0: "0 \<le> r" using tok by linarith
  note x = refill_bound [OF rnd tok(1,2) r0 r secs, folded x_def]
  define y where "y = min x r"
  have y: "0 \<le> y" "y \<le> r" "y \<le> tb_tokens b + E * r * (1 + 1 / 2 ^ 50) + 1 / 2 ^ 20" using x r0 by (auto simp: y_def)
  have s: "(b', ok) = (if 1 \<le> y then (b\<lparr>tb_last := now, tb_tokens := rnd (y - 1)\<rparr>, True)
      else (b\<lparr>tb_last := now, tb_tokens := y\<rparr>, False))"
    using step unfolding tb_try_take_def d(1) e_def [symmetric] tok(3) x_def [symmetric] y_def [symmetric] Let_def by (rule sym)
  have z: "0 \<le> rnd (y - 1)" "rnd (y - 1) \<le> y - 1 + 1 / 2 ^ 21 + 1 / 2 ^ 80" if "1 \<le> y"
    using near_roundingD [OF rnd, of "y - 1"] that y(2) r by (simp_all add: field_simps)
  show "tb_last b' = now" "tb_capacity b' = r" "0 \<le> tb_tokens b'" "tb_tokens b' \<le> r"
    using s y z tok(3) by (simp_all split: if_splits)
  have "tb_tokens b' + (if ok then 1 else 0) \<le> y + 1 / 2 ^ 20" using s y z by (simp split: if_splits)
  with y(3) show "tb_tokens b' + (if ok then 1 else 0) \<le> tb_tokens b + r * (1 + 1 / 2 ^ 50) * (of_int (now - tb_last b) / 10 ^ 9) + 1 / 2 ^ 19"
    unfolding E_def [symmetric] by (simp add: algebra_simps)
qed

text \<open>
  Tokens left and orders allowed never exceed the burst plus what the bucket has been refilled with, up to the rounding
  error of the checks made so far.
\<close>

definition refilled :: "u32 \<Rightarrow> int \<Rightarrow> rat" where
  "refilled r d = of_nat (unat r) * (1 + 1 / 2 ^ 50) * (of_int d / 10 ^ 9)"

lemma refilled_add: "refilled r (a + b) = refilled r a + refilled r b"
  by (simp add: refilled_def add_divide_distrib algebra_simps)

lemma refilled_nonneg: "0 \<le> d \<Longrightarrow> 0 \<le> refilled r d"
  unfolding refilled_def by (intro mult_nonneg_nonneg of_nat_0_le_iff) simp_all

definition rate_inv :: "u32 \<Rightarrow> int \<Rightarrow> circuit_breaker \<times> decision list \<Rightarrow> bool" where
  "rate_inv r t0 s \<longleftrightarrow>
     (case s of (b, ds) \<Rightarrow>
        bc_max_orders_per_sec (cb_cfg b) = Some r \<and> 0 \<le> tb_tokens (cb_rate b) \<and> tb_tokens (cb_rate b) \<le> of_nat (unat r) \<and>
        tb_capacity (cb_rate b) = of_nat (unat r) \<and> t0 \<le> tb_last (cb_rate b) \<and>
        of_nat (allowed ds) + tb_tokens (cb_rate b)
          \<le> of_nat (unat r) + refilled r (tb_last (cb_rate b) - t0) + of_nat (length ds) / 2 ^ 19)"

lemma rate_inv_check:
  assumes rnd: "near_rounding rnd" and inv: "rate_inv r t0 (b, ds)"
    and t: "tb_last (cb_rate b) \<le> now" "now - t0 < 2 ^ 64 * 10 ^ 9"
    and step: "run_breaker_op rnd (OpCheck now i) (b, ds) = (b', ds')"
  shows "rate_inv r t0 (b', ds')" "tb_last (cb_rate b') \<le> now"
proof -
  define R where "R = (of_nat (unat r) :: rat)"
  obtain tb ok where tk: "tb_try_take rnd now 1 R (cb_rate b) = (tb, ok)" by fastforce
  have cfg: "bc_max_orders_per_sec (cb_cfg b) = Some r" and t0: "t0 \<le> tb_last (cb_rate b)"
    and tok: "0 \<le> tb_tokens (cb_rate b)" "tb_tokens (cb_rate b) \<le> R" "tb_capacity (cb_rate b) = R"
    and old: "of_nat (allowed ds) + tb_tokens (cb_rate b) \<le> R + refilled r (tb_last (cb_rate b) - t0) + of_nat (length ds) / 2 ^ 19"
    using inv by (simp_all add: rate_inv_def R_def)
  have "unat r \<le> 2 ^ 32" using unat_lt_u32 [of r] by simp
  then have R32: "R \<le> 2 ^ 32" unfolding R_def by (metis of_nat_le_iff of_nat_numeral of_nat_power)
  have "now - tb_last (cb_rate b) < 2 ^ 64 * 10 ^ 9" using t0 t(2) by simp
  note tb = tb_try_take_bound [OF rnd t(1) this tok R32 tk]
  have rt: "rate_trips rnd now b = (tb, \<not> ok)"
    unfolding rate_trips_def cfg option.case R_def [symmetric] tk by simp
  have "refilled r (now - t0) = refilled r (now - tb_last (cb_rate b)) + refilled r (tb_last (cb_rate b) - t0)"
    by (simp add: refilled_add [symmetric])
  with tb(5) old have new: "of_nat (allowed ds) + (tb_tokens tb + (if ok then 1 else 0)) \<le>
      R + refilled r (now - t0) + of_nat (Suc (length ds)) / 2 ^ 19"
    unfolding refilled_def [of _ "now - tb_last (cb_rate b)"] R_def [symmetric] by (simp add: add_divide_distrib)
  have shape: "(cb_rate b' = cb_rate b \<or> cb_rate b' = tb) \<and> cb_cfg b' = cb_cfg b \<and>
      (ds' = ds @ [Allow] \<and> ok \<and> cb_rate b' = tb \<or> (\<exists>q. ds' = ds @ [Block q]))"
    using step by (auto simp: cb_check_def cb_halt_reason_def cb_latch_def rt Let_def split: option.splits if_splits)
  show "tb_last (cb_rate b') \<le> now" using shape tb(1) t by auto
  have kept: "of_nat (allowed ds) + tb_tokens (cb_rate b) \<le> R + refilled r (tb_last (cb_rate b) - t0) + of_nat (Suc (length ds)) / 2 ^ 19"
    using old by (simp add: add_divide_distrib)
  have gone: "of_nat (allowed ds) + tb_tokens tb \<le> R + refilled r (now - t0) + of_nat (Suc (length ds)) / 2 ^ 19"
    using new by (simp split: if_splits)
  from shape consider (allow) "ds' = ds @ [Allow]" "ok" "cb_rate b' = tb" "cb_cfg b' = cb_cfg b"
    | (taken) q where "ds' = ds @ [Block q]" "cb_rate b' = tb" "cb_cfg b' = cb_cfg b"
    | (same) q where "ds' = ds @ [Block q]" "cb_rate b' = cb_rate b" "cb_cfg b' = cb_cfg b" by blast
  then show "rate_inv r t0 (b', ds')"
  proof cases
    case allow
    then show ?thesis using new tb(1-4) cfg t0 t(1) unfolding rate_inv_def R_def [symmetric] by simp
  next
    case taken
    then show ?thesis using gone tb(1-4) cfg t0 t(1) unfolding rate_inv_def R_def [symmetric] by simp
  next
    case same
    then show ?thesis using kept tok cfg t0 unfolding rate_inv_def R_def [symmetric] by simp
  qed
qed

lemma rate_inv_other:
  assumes "rate_inv r t0 (b, ds)" "\<not> is_check op" "run_breaker_op rnd op (b, ds) = (b', ds')"
  shows "rate_inv r t0 (b', ds')" "tb_last (cb_rate b') = tb_last (cb_rate b)" "ds' = ds"
proof -
  have "cb_rate b' = cb_rate b \<and> cb_cfg b' = cb_cfg b \<and> ds' = ds"
    using assms(2,3)
    by (cases op) (auto simp: breaker_defs cb_reset_def cb_start_of_day_def Let_def split: option.splits if_splits)
  then show "rate_inv r t0 (b', ds')" "tb_last (cb_rate b') = tb_last (cb_rate b)" "ds' = ds"
    using assms(1) by (simp_all add: rate_inv_def)
qed

lemma rate_inv_run:
  assumes rnd: "near_rounding rnd" and t1: "t1 - t0 < 2 ^ 64 * 10 ^ 9"
    and "rate_inv r t0 (b, ds)" "sorted (tb_last (cb_rate b) # check_times ops @ [t1])"
  shows "rate_inv r t0 (fold (run_breaker_op rnd) ops (b, ds)) \<and>
    tb_last (cb_rate (fst (fold (run_breaker_op rnd) ops (b, ds)))) \<le> t1 \<and>
    length (snd (fold (run_breaker_op rnd) ops (b, ds))) = length ds + length (check_times ops)"
  using assms(3,4)
proof (induction ops arbitrary: b ds)
  case (Cons op ops)
  obtain b' ds' where step: "run_breaker_op rnd op (b, ds) = (b', ds')" by fastforce
  have "rate_inv r t0 (b', ds') \<and> sorted (tb_last (cb_rate b') # check_times ops @ [t1]) \<and>
      length ds' + length (check_times ops) = length ds + length (check_times (op # ops))"
  proof (cases op)
    case (OpCheck now i)
    have now: "tb_last (cb_rate b) \<le> now" "now \<le> t1" using Cons.prems(2) by (simp_all add: check_times_def OpCheck)
    then have "now - t0 < 2 ^ 64 * 10 ^ 9" using t1 by simp
    from rate_inv_check [OF rnd Cons.prems(1) now(1) this step [unfolded OpCheck]] Cons.prems(2) step show ?thesis
      by (auto simp: check_times_def OpCheck split: prod.splits)
  qed (use rate_inv_other [OF Cons.prems(1) _ step] Cons.prems(2) in \<open>simp_all add: check_times_def\<close>)
  then show ?case using Cons.IH [of b' ds'] by (simp only: fold_simps step)
qed (simp_all add: check_times_def)

lemma rate_inv_new: "bc_max_orders_per_sec cfg = Some r \<Longrightarrow> rate_inv r t0 (cb_new t0 cfg, [])"
  by (simp add: rate_inv_def cb_new_def tb_new_def refilled_def del: of_nat_unat)

section \<open>Properties\<close>

text \<open>
  Property C18. The breaker fails closed. Take a breaker whose flag and reason agree, as a new one's do,
  halt it, and run any history that contains no explicit recovery: every check in it answers
  \<open>Block\<close> with the reason that was latched first, no order is counted as sent, and flag and reason still
  agree at the end.
\<close>

theorem breaker_fail_closed:
  assumes "flag_ok b" "cb_halt_reason b = Some r" "\<forall>op \<in> set ops. \<not> recovers op"
  shows "case fold (run_breaker_op rnd) ops (b, []) of (b', ds) \<Rightarrow>
    ds = replicate (length (filter is_check ops)) (Block r) \<and> cb_is_halted b' \<and> cb_halt_reason b' = Some r \<and>
    cb_orders_sent b' = cb_orders_sent b"
  using halted_run [of b r ops rnd "[]"] flag_ok_run [OF assms(1), of rnd ops "[]"] assms
  by (auto simp: cb_halt_reason_def flag_ok_def)

theorem breaker_fail_closed_witness:
  "snd (fold (run_breaker_op id) [OpGap 5, OpCheck 6 \<lparr>in_instrument_id = 1, in_side = Sell, in_qty = 2, in_price_ticks = 3\<rparr>]
     (cb_manual_halt (cb_new 0 breaker_config_default), [])) = [Block Manual]"
proof -
  have "flag_ok (cb_manual_halt (cb_new 0 breaker_config_default))"
    "cb_halt_reason (cb_manual_halt (cb_new 0 breaker_config_default)) = Some Manual"
    by (simp_all add: flag_ok_def breaker_defs cb_new_def)
  from breaker_fail_closed [OF this, of "[OpGap 5, OpCheck 6 \<lparr>in_instrument_id = 1, in_side = Sell, in_qty = 2,
    in_price_ticks = 3\<rparr>]" id] show ?thesis by (auto simp: case_prod_unfold)
qed

text \<open>
  Property C19. With a position cap between 0 and \<open>2 ^ 62\<close>, a breaker that checks every order before it is
  filled, each allowed order being filled with at most its quantity before the next check, never lets the
  net position of any instrument leave the cap, whatever the order of sides, quantities and prices.
\<close>

theorem position_cap_holds:
  assumes "bc_max_position cfg = Some mx" "0 \<le> sint mx" "sint mx \<le> 2 ^ 62"
    "\<forall>(now, i, qty, price) \<in> set cs. qty \<le> in_qty i"
  shows "\<bar>sint (cb_position (fold (trade_cycle rnd) cs (cb_new t0 cfg)) iid)\<bar> \<le> sint mx"
  using trade_cycles_cap [of "cb_new t0 cfg" mx cs rnd] assms
  by (auto simp: within_cap_def cb_new_def Let_def cb_position_def)

theorem position_cap_holds_witness:
  "\<bar>sint (cb_position (fold (trade_cycle id)
     [(1, \<lparr>in_instrument_id = 1, in_side = Buy, in_qty = 9000, in_price_ticks = 3\<rparr>, 9000, 3),
      (2, \<lparr>in_instrument_id = 1, in_side = Buy, in_qty = 2000, in_price_ticks = 3\<rparr>, 2000, 3)]
     (cb_new 0 breaker_config_default)) 1)\<bar> \<le> 10000"
proof -
  have "sint (10000 :: i64) = 10000" by simp
  with position_cap_holds [of breaker_config_default 10000
     "[(1, \<lparr>in_instrument_id = 1, in_side = Buy, in_qty = 9000, in_price_ticks = 3\<rparr>, 9000, 3),
       (2, \<lparr>in_instrument_id = 1, in_side = Buy, in_qty = 2000, in_price_ticks = 3\<rparr>, 2000, 3)]" id 0 1]
  show ?thesis by (simp add: breaker_config_default_def)
qed

text \<open>
  Property C20. With a limit of \<open>r\<close> orders per second, every history of a new breaker, resets and starts of day
  included, allows at most \<open>r\<close> orders at once plus \<open>r\<close> per elapsed second, up to the rounding of \<open>f64\<close>: the
  refill is off by at most one part in \<open>2^50\<close>, and each check adds at most \<open>2^-19\<close> of an order. The clock of
  the checks is monotonic, as \<open>Instant\<close> is, and the whole history fits a \<open>Duration\<close>.
\<close>

theorem order_rate_bounded:
  assumes "near_rounding rnd" "bc_max_orders_per_sec cfg = Some r"
    and "sorted (t0 # check_times ops @ [t1])" "t1 - t0 < 2 ^ 64 * 10 ^ 9"
  shows "of_nat (allowed (snd (fold (run_breaker_op rnd) ops (cb_new t0 cfg, []))))
    \<le> of_nat (unat r) * (1 + (1 + 1 / 2 ^ 50) * (of_int (t1 - t0) / 10 ^ 9)) + of_nat (length (check_times ops)) / (2 ^ 19 :: rat)"
proof -
  obtain b ds where run: "fold (run_breaker_op rnd) ops (cb_new t0 cfg, []) = (b, ds)" by fastforce
  have "tb_last (cb_rate (cb_new t0 cfg)) = t0" by (simp add: cb_new_def tb_new_def Let_def)
  then have inv: "rate_inv r t0 (b, ds)" and t: "tb_last (cb_rate b) \<le> t1" and n: "length ds = length (check_times ops)"
    using rate_inv_run [OF assms(1,4) rate_inv_new [OF assms(2)], of ops] assms(3) unfolding run by simp_all
  have "refilled r (t1 - t0) = refilled r (t1 - tb_last (cb_rate b)) + refilled r (tb_last (cb_rate b) - t0)"
    by (simp add: refilled_add [symmetric])
  then have "refilled r (tb_last (cb_rate b) - t0) \<le> refilled r (t1 - t0)"
    using refilled_nonneg [of "t1 - tb_last (cb_rate b)" r] t by simp
  then have "of_nat (allowed ds) \<le> of_nat (unat r) + refilled r (t1 - t0) + of_nat (length ds) / 2 ^ 19"
    using inv unfolding rate_inv_def prod.case by linarith
  moreover have "R + R * c * T = R * (1 + c * T)" for R c T :: rat by (simp add: algebra_simps)
  ultimately show ?thesis unfolding run snd_conv n refilled_def by (simp only:)
qed

text \<open>Rounding to the nearest multiple of \<open>2^-80\<close>, an instance that is not exact.\<close>

definition fixed_rounding :: "rat \<Rightarrow> rat" where
  "fixed_rounding x = of_int (round (x * 2 ^ 80)) / 2 ^ 80"

lemma fixed_rounding_near: "near_rounding fixed_rounding"
proof -
  have "\<bar>fixed_rounding x - x\<bar> \<le> x / 2 ^ 53 + 1 / 2 ^ 80" if "0 \<le> x" for x
  proof -
    have "fixed_rounding x - x = (of_int (round (x * 2 ^ 80)) - x * 2 ^ 80) / 2 ^ 80"
      by (simp add: fixed_rounding_def diff_divide_distrib)
    then have "\<bar>fixed_rounding x - x\<bar> = \<bar>of_int (round (x * 2 ^ 80)) - x * 2 ^ 80\<bar> / 2 ^ 80"
      by (simp only: abs_divide power_abs abs_numeral)
    also have "\<dots> \<le> (1 / 2) / 2 ^ 80" by (rule divide_right_mono [OF of_int_round_abs_le]) simp
    finally have "\<bar>fixed_rounding x - x\<bar> \<le> (1 / 2) / 2 ^ 80" .
    with that show ?thesis by simp
  qed
  moreover have "0 \<le> fixed_rounding x" if "0 \<le> x" for x
    using that round_mono [of 0 "x * 2 ^ 80"] by (simp add: fixed_rounding_def)
  ultimately show ?thesis by (simp add: near_rounding_def)
qed

theorem order_rate_bounded_witness:
  "of_nat (allowed (snd (fold (run_breaker_op fixed_rounding)
     [OpCheck 10 \<lparr>in_instrument_id = 1, in_side = Buy, in_qty = 1, in_price_ticks = 3\<rparr>, OpReset,
      OpCheck 20 \<lparr>in_instrument_id = 1, in_side = Buy, in_qty = 1, in_price_ticks = 3\<rparr>]
     (cb_new 0 breaker_config_default, [])))) \<le> (10001 :: rat)"
  using order_rate_bounded [OF fixed_rounding_near, of breaker_config_default 5000 0
     "[OpCheck 10 \<lparr>in_instrument_id = 1, in_side = Buy, in_qty = 1, in_price_ticks = 3\<rparr>, OpReset,
       OpCheck 20 \<lparr>in_instrument_id = 1, in_side = Buy, in_qty = 1, in_price_ticks = 3\<rparr>]" "10 ^ 9"]
  by (simp add: breaker_config_default_def check_times_def)

end
