(* ===== verification/FL_Clustering.thy ===== *)
theory FL_Clustering
  imports FL_Chaos
begin

text \<open>
  The episode clusterer of \<open>chaos/src/clustering.rs\<close>. The natural logarithm of the composite score is a parameter;
  \<open>sort_by_key\<close> is the stable \<open>sort_key\<close>.
\<close>

section \<open>Episodes\<close>

record chaos_cluster =
  cl_start_seq :: u64
  cl_end_seq :: u64
  cl_start_ts_ns :: u64
  cl_end_ts_ns :: u64
  cl_events :: "chaos_event list"
  cl_peak_severity :: f64
  cl_mean_severity :: f64
  cl_composite_severity :: f64
  cl_count :: nat
  cl_dominant_kind :: chaos_kind
  cl_initiator :: "u64 option"
  cl_sum_severity :: f64

record chaos_clusterer =
  ck_max_gap :: u64
  ck_max_time_gap_ns :: u64

definition ck_new :: "u64 \<Rightarrow> chaos_clusterer" where
  "ck_new max_gap = \<lparr>ck_max_gap = max_gap, ck_max_time_gap_ns = 0\<rparr>"

definition ck_with_windows :: "u64 \<Rightarrow> u64 \<Rightarrow> chaos_clusterer" where
  "ck_with_windows max_gap max_time_gap_ns = \<lparr>ck_max_gap = max_gap, ck_max_time_gap_ns = max_time_gap_ns\<rparr>"

definition recompute_composite :: "(rat \<Rightarrow> f64) \<Rightarrow> (f64 \<Rightarrow> f64) \<Rightarrow> chaos_cluster \<Rightarrow> chaos_cluster" where
  "recompute_composite rnd lnf c =
     (let persistence = f64_add rnd (Fin 1) (lnf (f64_of_nat rnd (cl_count c)))
      in c\<lparr>cl_composite_severity := f64_mul rnd (cl_peak_severity c) persistence\<rparr>)"

definition from_event :: "(rat \<Rightarrow> f64) \<Rightarrow> (f64 \<Rightarrow> f64) \<Rightarrow> chaos_event \<Rightarrow> chaos_cluster" where
  "from_event rnd lnf e =
     recompute_composite rnd lnf
       \<lparr>cl_start_seq = ce_start_seq e, cl_end_seq = ce_end_seq e, cl_start_ts_ns = ce_start_ts_ns e,
        cl_end_ts_ns = ce_end_ts_ns e, cl_events = [e], cl_peak_severity = ce_severity e,
        cl_mean_severity = ce_severity e, cl_composite_severity = Fin 0, cl_count = 1, cl_dominant_kind = ce_kind e,
        cl_initiator = ce_initiator e, cl_sum_severity = ce_severity e\<rparr>"

definition absorb :: "(rat \<Rightarrow> f64) \<Rightarrow> (f64 \<Rightarrow> f64) \<Rightarrow> chaos_cluster \<Rightarrow> chaos_event \<Rightarrow> chaos_cluster" where
  "absorb rnd lnf c e =
     (let sum = f64_add rnd (cl_sum_severity c) (ce_severity e);
          count = cl_count c + 1
      in recompute_composite rnd lnf
           (c\<lparr>cl_end_seq := max (cl_end_seq c) (ce_end_seq e), cl_end_ts_ns := max (cl_end_ts_ns c) (ce_end_ts_ns e),
              cl_peak_severity := f64_max (cl_peak_severity c) (ce_severity e), cl_sum_severity := sum, cl_count := count,
              cl_mean_severity := f64_div rnd sum (f64_of_nat rnd count), cl_events := cl_events c @ [e]\<rparr>))"

definition should_merge :: "chaos_clusterer \<Rightarrow> chaos_cluster \<Rightarrow> chaos_event \<Rightarrow> bool" where
  "should_merge k current e =
     (let seq_close = (0 < ck_max_gap k \<and> ce_start_seq e \<le> sat_add (cl_end_seq current) (ck_max_gap k));
          time_close = (0 < ck_max_time_gap_ns k \<and>
            ce_start_ts_ns e \<le> sat_add (cl_end_ts_ns current) (ck_max_time_gap_ns k))
      in if \<not> (seq_close \<or> time_close) then False
         else if (cl_dominant_kind current, ce_kind e) \<in> {(FlashCrash, MomentumIgnition), (MomentumIgnition, FlashCrash)} then True
         else if cl_dominant_kind current = ce_kind e then
           (case (cl_initiator current, ce_initiator e) of (Some x, Some y) \<Rightarrow> x = y | _ \<Rightarrow> False)
         else False)"

fun cluster_loop :: "(rat \<Rightarrow> f64) \<Rightarrow> (f64 \<Rightarrow> f64) \<Rightarrow> chaos_clusterer \<Rightarrow> chaos_cluster list \<Rightarrow> chaos_cluster \<Rightarrow> chaos_event list \<Rightarrow>
    chaos_cluster list" where
  "cluster_loop rnd lnf k clusters current [] = clusters @ [current]"
| "cluster_loop rnd lnf k clusters current (e # es) =
     (if should_merge k current e then cluster_loop rnd lnf k clusters (absorb rnd lnf current e) es
      else cluster_loop rnd lnf k (clusters @ [current]) (from_event rnd lnf e) es)"

definition cluster :: "(rat \<Rightarrow> f64) \<Rightarrow> (f64 \<Rightarrow> f64) \<Rightarrow> chaos_clusterer \<Rightarrow> chaos_event list \<Rightarrow> chaos_cluster list" where
  "cluster rnd lnf k es =
     (case sort_key ce_start_seq es of [] \<Rightarrow> [] | e # rest \<Rightarrow> cluster_loop rnd lnf k [] (from_event rnd lnf e) rest)"

section \<open>The summary of an episode\<close>

text \<open>The merge policy of the module documentation, on kinds and initiators.\<close>

definition same_episode :: "chaos_event \<Rightarrow> chaos_event \<Rightarrow> bool" where
  "same_episode a b \<longleftrightarrow> {ce_kind a, ce_kind b} = {FlashCrash, MomentumIgnition} \<or>
     ce_kind a = ce_kind b \<and> ce_initiator a \<noteq> None \<and> ce_initiator a = ce_initiator b"

text \<open>
  The merge policy on windows: an event is near an episode when it starts at most the gap after the largest
  end so far, in sequence numbers or in time; a gap of zero turns the test off. An event joins the open episode when
  it is near the events collected so far and belongs with the first of them. Both are stated on natural numbers, without
  the saturation of the code.
\<close>

definition near_episode :: "chaos_clusterer \<Rightarrow> chaos_event list \<Rightarrow> chaos_event \<Rightarrow> bool" where
  "near_episode k evs e \<longleftrightarrow>
     0 < unat (ck_max_gap k) \<and> unat (ce_start_seq e) \<le> unat (Max (ce_end_seq ` set evs)) + unat (ck_max_gap k) \<or>
     0 < unat (ck_max_time_gap_ns k) \<and> unat (ce_start_ts_ns e) \<le> unat (Max (ce_end_ts_ns ` set evs)) + unat (ck_max_time_gap_ns k)"

definition joins :: "chaos_clusterer \<Rightarrow> chaos_event list \<Rightarrow> chaos_event \<Rightarrow> bool" where
  "joins k evs e \<longleftrightarrow> near_episode k evs e \<and> same_episode (hd evs) e"

definition chained :: "chaos_clusterer \<Rightarrow> chaos_event list \<Rightarrow> bool" where
  "chained k evs \<longleftrightarrow> evs \<noteq> [] \<and> (\<forall>i. 0 < i \<and> i < length evs \<longrightarrow> joins k (take i evs) (evs ! i))"

definition summary_ok :: "chaos_cluster \<Rightarrow> bool" where
  "summary_ok c \<longleftrightarrow> (\<exists>e es. cl_events c = e # es \<and> cl_dominant_kind c = ce_kind e \<and> cl_initiator c = ce_initiator e \<and>
     cl_start_seq c = ce_start_seq e \<and> cl_start_ts_ns c = ce_start_ts_ns e \<and> (\<forall>x \<in> set es. same_episode e x)) \<and>
     cl_count c = length (cl_events c) \<and> cl_end_seq c = Max (ce_end_seq ` set (cl_events c)) \<and>
     cl_end_ts_ns c = Max (ce_end_ts_ns ` set (cl_events c)) \<and>
     cl_peak_severity c \<in> ce_severity ` set (cl_events c) \<and>
     (\<forall>x \<in> set (cl_events c). f64_le (ce_severity x) (cl_peak_severity c))"

lemma summary_from_event: "ce_severity e \<noteq> NaN \<Longrightarrow> summary_ok (from_event rnd lnf e)"
  by (simp add: summary_ok_def from_event_def recompute_composite_def f64_le_refl)

lemma f64_max_cases:
  assumes "x \<noteq> NaN" "y \<noteq> NaN"
  shows "f64_max x y \<in> {x, y} \<and> f64_le x (f64_max x y) \<and> f64_le y (f64_max x y)"
  using assms f64_le_total [of x y] by (auto simp: f64_max_def f64_le_refl)

lemma summary_absorb:
  assumes c: "summary_ok c" and m: "should_merge k c x" and x: "ce_severity x \<noteq> NaN"
  shows "summary_ok (absorb rnd lnf c x)"
proof -
  obtain e es where e: "cl_events c = e # es" "cl_dominant_kind c = ce_kind e" "cl_initiator c = ce_initiator e"
    "cl_start_seq c = ce_start_seq e" "cl_start_ts_ns c = ce_start_ts_ns e" "\<forall>x \<in> set es. same_episode e x"
    using c by (auto simp: summary_ok_def)
  have "same_episode e x"
    using m e by (auto simp: should_merge_def same_episode_def Let_def split: if_splits option.splits)
  moreover have "cl_peak_severity c \<noteq> NaN" using c e(1) f64_le_not_NaN by (fastforce simp: summary_ok_def)
  note peak = f64_max_cases [OF this x]
  moreover have "Max (insert (ce_end_seq e) (insert (ce_end_seq x) (ce_end_seq ` set es))) = max (cl_end_seq c) (ce_end_seq x)"
    "Max (insert (ce_end_ts_ns e) (insert (ce_end_ts_ns x) (ce_end_ts_ns ` set es))) = max (cl_end_ts_ns c) (ce_end_ts_ns x)"
    using c e(1) by (simp_all add: summary_ok_def insert_commute [of "ce_end_seq e"] insert_commute [of "ce_end_ts_ns e"] max.commute)
  moreover have "f64_le (ce_severity y) (f64_max (cl_peak_severity c) (ce_severity x))" if "y \<in> set (cl_events c)" for y
    using c that peak f64_le_trans by (auto simp: summary_ok_def)
  ultimately show ?thesis
    using c e x by (auto simp: summary_ok_def absorb_def recompute_composite_def Let_def)
qed

lemma sat_add_reach: "x \<le> sat_add y g \<longleftrightarrow> unat x \<le> unat y + unat g" for x y g :: u64
  using unat_lt_u64 [of x] by (simp add: word_le_nat_alt unat_sat_add min_def)

lemma should_merge_joins:
  assumes "summary_ok c"
  shows "should_merge k c x = joins k (cl_events c) x"
proof -
  obtain e es where e: "cl_events c = e # es" "cl_dominant_kind c = ce_kind e" "cl_initiator c = ce_initiator e"
    using assms by (auto simp: summary_ok_def)
  have near: "near_episode k (cl_events c) x \<longleftrightarrow>
      0 < ck_max_gap k \<and> ce_start_seq x \<le> sat_add (cl_end_seq c) (ck_max_gap k) \<or>
      0 < ck_max_time_gap_ns k \<and> ce_start_ts_ns x \<le> sat_add (cl_end_ts_ns c) (ck_max_time_gap_ns k)"
    using assms by (simp only: summary_ok_def near_episode_def sat_add_reach word_less_nat_alt unat_0)
  have same: "same_episode e x \<longleftrightarrow> (cl_dominant_kind c, ce_kind x) \<in> {(FlashCrash, MomentumIgnition), (MomentumIgnition, FlashCrash)} \<or>
      cl_dominant_kind c = ce_kind x \<and> (case (cl_initiator c, ce_initiator x) of (Some x, Some y) \<Rightarrow> x = y | _ \<Rightarrow> False)"
    by (auto simp: e same_episode_def doubleton_eq_iff split: option.splits)
  show ?thesis by (cases "ce_kind x") (simp_all add: should_merge_def joins_def e(1) near [unfolded e(1)] same Let_def)
qed

lemma chained_single: "chained k [e]"
  by (simp add: chained_def)

lemma chained_snoc: "chained k evs \<Longrightarrow> joins k evs e \<Longrightarrow> chained k (evs @ [e])"
  by (auto simp: chained_def nth_append less_Suc_eq)

section \<open>The clustering loop\<close>

definition split_at :: "chaos_clusterer \<Rightarrow> chaos_cluster \<Rightarrow> chaos_cluster \<Rightarrow> bool" where
  "split_at k a b \<longleftrightarrow> \<not> joins k (cl_events a) (hd (cl_events b))"

definition episode_ok :: "chaos_clusterer \<Rightarrow> chaos_cluster \<Rightarrow> bool" where
  "episode_ok k c \<longleftrightarrow> summary_ok c \<and> chained k (cl_events c)"

lemma absorb_events: "cl_events (absorb rnd lnf c e) = cl_events c @ [e]"
  by (simp add: absorb_def recompute_composite_def Let_def)

lemma from_event_events: "cl_events (from_event rnd lnf e) = [e]"
  by (simp add: from_event_def recompute_composite_def Let_def)

lemma summary_nonempty: "summary_ok c \<Longrightarrow> cl_events c \<noteq> []"
  by (auto simp: summary_ok_def)

lemma loop_correct:
  assumes "\<forall>e \<in> set es. ce_severity e \<noteq> NaN" "\<forall>c \<in> set (cs @ [cur]). episode_ok k c" "successively (split_at k) (cs @ [cur])"
  shows "concat (map cl_events (cluster_loop rnd lnf k cs cur es)) = concat (map cl_events cs) @ cl_events cur @ es \<and>
    (\<forall>c \<in> set (cluster_loop rnd lnf k cs cur es). episode_ok k c) \<and> successively (split_at k) (cluster_loop rnd lnf k cs cur es)"
  using assms
proof (induction es arbitrary: cs cur)
  case (Cons e es)
  show ?case
  proof (cases "should_merge k cur e")
    case True
    have cur: "summary_ok cur" "chained k (cl_events cur)" using Cons.prems(2) by (simp_all add: episode_ok_def)
    have "episode_ok k (absorb rnd lnf cur e)"
      using Cons.prems(1) True cur summary_absorb [OF cur(1) True] chained_snoc [OF cur(2)]
      by (simp add: episode_ok_def absorb_events should_merge_joins)
    moreover have "split_at k a (absorb rnd lnf cur e) = split_at k a cur" for a
      using summary_nonempty [OF cur(1)] by (simp add: split_at_def absorb_events)
    ultimately have "\<forall>c \<in> set (cs @ [absorb rnd lnf cur e]). episode_ok k c" "successively (split_at k) (cs @ [absorb rnd lnf cur e])"
      using Cons.prems(2,3) by (auto simp: successively_append_iff)
    from Cons.IH [OF _ this] Cons.prems(1) True show ?thesis by (simp add: absorb_events)
  next
    case False
    have "episode_ok k (from_event rnd lnf e)"
      using Cons.prems(1) summary_from_event [of e rnd lnf] by (simp add: episode_ok_def from_event_events chained_single)
    moreover have "split_at k cur (from_event rnd lnf e)"
      using False Cons.prems(2) by (simp add: split_at_def from_event_events episode_ok_def should_merge_joins)
    ultimately have "\<forall>c \<in> set ((cs @ [cur]) @ [from_event rnd lnf e]). episode_ok k c"
      "successively (split_at k) ((cs @ [cur]) @ [from_event rnd lnf e])"
      using Cons.prems(2,3) by (auto simp: successively_append_iff)
    from Cons.IH [OF _ this] Cons.prems(1) False show ?thesis by (simp add: from_event_events)
  qed
qed simp

lemma cluster_correct:
  assumes "\<forall>e \<in> set es. ce_severity e \<noteq> NaN"
  shows "concat (map cl_events (cluster rnd lnf k es)) = sort_key ce_start_seq es \<and>
    (\<forall>c \<in> set (cluster rnd lnf k es). episode_ok k c) \<and> successively (split_at k) (cluster rnd lnf k es)"
proof (cases "sort_key ce_start_seq es")
  case (Cons e rest)
  then have s: "\<forall>x \<in> set (e # rest). ce_severity x \<noteq> NaN" using assms by (metis set_sort)
  then show ?thesis
    using loop_correct [of rest "[]" "from_event rnd lnf e" k rnd lnf] summary_from_event [of e rnd lnf] Cons
    by (simp add: cluster_def from_event_events episode_ok_def chained_single)
qed (simp add: cluster_def)

lemma cluster_start_min:
  assumes "\<forall>e \<in> set es. ce_severity e \<noteq> NaN" "c \<in> set (cluster rnd lnf k es)" "x \<in> set (cl_events c)"
  shows "cl_start_seq c \<le> ce_start_seq x"
proof -
  note c = cluster_correct [OF assms(1), of rnd lnf k]
  obtain cs1 cs2 where cs: "cluster rnd lnf k es = cs1 @ c # cs2" using assms(2) by (meson split_list)
  have "sorted (map ce_start_seq (concat (map cl_events (cluster rnd lnf k es))))" using c by simp
  then have "sorted (map ce_start_seq (cl_events c))" by (simp add: cs sorted_append)
  moreover obtain e es' where "cl_events c = e # es'" "cl_start_seq c = ce_start_seq e"
    using c assms(2) by (auto simp: episode_ok_def summary_ok_def)
  ultimately show ?thesis using assms(3) by auto
qed

text \<open>The running sum and the mean with exact arithmetic.\<close>

definition sev_rat :: "chaos_event \<Rightarrow> rat" where
  "sev_rat e = (case ce_severity e of Fin a \<Rightarrow> a | _ \<Rightarrow> 0)"

definition mean_ok :: "chaos_cluster \<Rightarrow> bool" where
  "mean_ok c \<longleftrightarrow> cl_count c = length (cl_events c) \<and> 0 < cl_count c \<and> cl_sum_severity c = Fin (sum_list (map sev_rat (cl_events c))) \<and>
     cl_mean_severity c = Fin (sum_list (map sev_rat (cl_events c)) / of_nat (cl_count c))"

lemma mean_from_event: "is_fin (ce_severity e) \<Longrightarrow> mean_ok (from_event Fin lnf e)"
  by (cases "ce_severity e") (simp_all add: mean_ok_def from_event_def recompute_composite_def sev_rat_def)

lemma mean_absorb: "mean_ok c \<Longrightarrow> is_fin (ce_severity e) \<Longrightarrow> mean_ok (absorb Fin lnf c e)"
  by (cases "ce_severity e") (simp_all add: mean_ok_def absorb_def recompute_composite_def sev_rat_def Let_def f64_of_nat_def)

lemma mean_loop:
  "\<forall>e \<in> set es. is_fin (ce_severity e) \<Longrightarrow> \<forall>c \<in> set (cs @ [cur]). mean_ok c \<Longrightarrow>
   \<forall>c \<in> set (cluster_loop Fin lnf k cs cur es). mean_ok c"
proof (induction es arbitrary: cs cur)
  case (Cons e es)
  have m: "\<forall>c \<in> set (cs @ [absorb Fin lnf cur e]). mean_ok c" "\<forall>c \<in> set ((cs @ [cur]) @ [from_event Fin lnf e]). mean_ok c"
    using Cons.prems mean_absorb [of cur e lnf] mean_from_event [of e lnf] by simp_all
  have es: "\<forall>e \<in> set es. is_fin (ce_severity e)" using Cons.prems(1) by simp
  from Cons.IH [OF es m(1)] Cons.IH [OF es m(2)] show ?case by (cases "should_merge k cur e") simp_all
qed simp

section \<open>Properties\<close>

text \<open>
  Property C25. Clustering is the greedy split of the flags by the merge policy, and every episode is summarised correctly.
  For flags with scores that are numbers, the events of the clusters in order are the input stably sorted by start, so
  none is lost, invented or reordered otherwise. Every event of a cluster after the first is near the ones before it
  (in sequence numbers or in time, against the largest end so far) and belongs with the first by kind and initiator; the first
  event of the next cluster does not join the cluster before it. Each cluster has its number of events, the kind and
  initiator of its first event, the smallest start and the largest end of its events, and the largest of their
  scores as its peak. Only the previous, still open episode is compared: an episode is not reopened after an
  unrelated flag.
\<close>

theorem cluster_partition:
  assumes "\<forall>e \<in> set es. ce_severity e \<noteq> NaN"
  shows "concat (map cl_events (cluster rnd lnf k es)) = sort_key ce_start_seq es \<and>
    (\<forall>c \<in> set (cluster rnd lnf k es). cl_events c \<noteq> [] \<and>
       (\<forall>i. 0 < i \<and> i < length (cl_events c) \<longrightarrow> joins k (take i (cl_events c)) (cl_events c ! i)) \<and>
       summary_ok c \<and> (\<forall>x \<in> set (cl_events c). cl_start_seq c \<le> ce_start_seq x)) \<and>
    successively (\<lambda>a b. \<not> joins k (cl_events a) (hd (cl_events b))) (cluster rnd lnf k es)"
  using cluster_correct [OF assms, of rnd lnf k] cluster_start_min [OF assms]
  by (auto simp: split_at_def [abs_def] episode_ok_def chained_def)

definition flag_at :: "chaos_kind \<Rightarrow> u64 \<Rightarrow> u64 \<Rightarrow> u64 option \<Rightarrow> chaos_event" where
  "flag_at kd s e who =
     \<lparr>ce_kind = kd, ce_start_seq = s, ce_end_seq = e, ce_start_ts_ns = 0, ce_end_ts_ns = 0, ce_severity = Fin (1 / 2),
      ce_initiator = who, ce_features = \<lparr>cf_event_count = 1, cf_duration_ns = 0, cf_cancel_trade_ratio = Fin 0,
        cf_price_displacement = 0, cf_depth_removed = 0\<rparr>\<rparr>"

theorem cluster_partition_witness:
  "concat (map cl_events (cluster Fin id (ck_new 5) [flag_at Spoof 9 10 (Some 7), flag_at Spoof 1 2 (Some 7)])) =
     [flag_at Spoof 1 2 (Some 7), flag_at Spoof 9 10 (Some 7)] \<and>
   \<not> joins (ck_new 5) [flag_at Spoof 1 2 (Some 7)] (flag_at Spoof 9 10 (Some 7))"
proof -
  let ?es = "[flag_at Spoof 9 10 (Some 7), flag_at Spoof 1 2 (Some 7)]"
  have "\<forall>e \<in> set ?es. ce_severity e \<noteq> NaN" by (simp add: flag_at_def)
  note part = cluster_partition [OF this, of Fin id "ck_new 5"]
  have "sort_key ce_start_seq ?es = [flag_at Spoof 1 2 (Some 7), flag_at Spoof 9 10 (Some 7)]" by code_simp
  moreover have "map cl_events (cluster Fin id (ck_new 5) ?es) = [[flag_at Spoof 1 2 (Some 7)], [flag_at Spoof 9 10 (Some 7)]]"
    by code_simp
  ultimately show ?thesis using part by (auto simp: map_eq_Cons_conv)
qed

text \<open>
  With exact arithmetic the running sum and the mean score of every cluster are the sum and the
  arithmetic mean of the scores of its events.
\<close>

theorem cluster_mean_exact:
  assumes "\<forall>e \<in> set es. is_fin (ce_severity e)" "c \<in> set (cluster Fin lnf k es)"
  shows "cl_mean_severity c = Fin (sum_list (map sev_rat (cl_events c)) / of_nat (length (cl_events c)))"
proof -
  have "\<forall>e \<in> set (sort_key ce_start_seq es). is_fin (ce_severity e)" using assms(1) by simp
  then have "mean_ok c"
    using mean_loop [of "tl (sort_key ce_start_seq es)" "[]" "from_event Fin lnf (hd (sort_key ce_start_seq es))" lnf k]
      mean_from_event [of "hd (sort_key ce_start_seq es)" lnf] assms(2)
    by (cases "sort_key ce_start_seq es") (simp_all add: cluster_def)
  then show ?thesis by (simp add: mean_ok_def)
qed

theorem cluster_mean_exact_witness:
  "cl_mean_severity (hd (cluster Fin id (ck_new 5) [flag_at Spoof 1 2 (Some 7), flag_at Spoof 3 4 (Some 7)])) = Fin (1 / 2)"
proof -
  let ?es = "[flag_at Spoof 1 2 (Some 7), flag_at Spoof 3 4 (Some 7)]"
  have ev: "cl_events (hd (cluster Fin id (ck_new 5) ?es)) = ?es" "cluster Fin id (ck_new 5) ?es \<noteq> []" by code_simp+
  have "\<forall>e \<in> set ?es. is_fin (ce_severity e)" by (simp add: flag_at_def)
  note mean = cluster_mean_exact [OF this hd_in_set [OF ev(2)], unfolded ev(1)]
  have "sev_rat (flag_at a b c w) = 1 / 2" for a b c w by (simp add: sev_rat_def flag_at_def)
  with mean show ?thesis by simp
qed

text \<open>
  Only the newest episode is open. Two flags of one kind and initiator that are close in sequence, which the
  documented policy always merges, end up in different clusters when an unrelated flag starts between them.
\<close>

theorem interleaved_flag_splits_episode:
  "map cl_events (cluster Fin id (ck_new 100) [flag_at Spoof 1 2 (Some 7), flag_at QuoteStuff 3 3 None, flag_at Spoof 4 5 (Some 7)]) =
     [[flag_at Spoof 1 2 (Some 7)], [flag_at QuoteStuff 3 3 None], [flag_at Spoof 4 5 (Some 7)]]"
  by code_simp

end
