(* ===== verification/FL_FlowMetricsProperties.thy ===== *)
theory FL_FlowMetricsProperties
  imports FL_FlowMetrics
begin

text \<open>
  The running totals of the flow metrics are exact, and the imbalance is normalised under the rounding that IEEE
  754 prescribes.
\<close>

section \<open>VPIN\<close>

definition vp_total :: "vpin_calculator \<Rightarrow> rat" where
  "vp_total v = (case vp_running_abs_diff v of Fin r \<Rightarrow> r | _ \<Rightarrow> 0)"

definition gap_of :: "u64 \<times> u64 \<Rightarrow> rat" where
  "gap_of b = \<bar>of_nat (unat (fst b)) - of_nat (unat (snd b))\<bar>"

lemma abs_diff_gap: "abs_diff Fin b = Fin (gap_of b)"
  by (simp add: abs_diff_def gap_of_def u64_as_f64_def f64_of_nat_def f64_sub_def f64_abs_def f64_sgn_def abs_if del: of_nat_unat)

interpretation vpin_sum: rolling_sum "vp_push_bucket Fin" vp_buckets vp_total vp_num_buckets gap_of "\<lambda>v. is_fin (vp_running_abs_diff v)"
  by unfold_locales
    (auto simp: vp_push_bucket_def vp_total_def Let_def abs_diff_gap is_fin_iff f64_sub_def split: list.split)

text \<open>The buckets that a sequence of signed trades completes.\<close>

fun completed :: "(u64 \<times> int) list \<Rightarrow> vpin_calculator \<Rightarrow> (u64 \<times> u64) list" where
  "completed [] v = []"
| "completed ((q, a) # ts) v =
     (if q = 0 then completed ts v
      else let v1 = vp_accumulate q a v
           in if vp_bucket_size v1 \<le> vp_current_bucket_vol v1
              then (vp_current_buy_vol v1, vp_current_sell_vol v1) #
                completed ts (v1\<lparr>vp_current_buy_vol := 0, vp_current_sell_vol := 0, vp_current_bucket_vol := 0\<rparr>)
              else completed ts v1)"

definition vp_run :: "(u64 \<times> int) list \<Rightarrow> vpin_calculator \<Rightarrow> vpin_calculator" where
  "vp_run ts v = fold (\<lambda>(q, a) v. fst (vp_process_signed Fin q a v)) ts v"

definition vp_acc :: "vpin_calculator \<Rightarrow> _" where
  "vp_acc v = (vp_bucket_size v, vp_current_buy_vol v, vp_current_sell_vol v, vp_current_bucket_vol v)"

definition vp_win :: "vpin_calculator \<Rightarrow> _" where
  "vp_win v = (vp_bucket_size v, vp_num_buckets v, vp_buckets v, vp_running_abs_diff v)"

lemma vp_accumulate_parts:
  "vp_acc v = vp_acc w \<Longrightarrow> vp_acc (vp_accumulate q a v) = vp_acc (vp_accumulate q a w)"
  "vp_win (vp_accumulate q a v) = vp_win v"
  by (auto simp: vp_acc_def vp_win_def vp_accumulate_def Let_def)

lemma vp_push_parts:
  "vp_acc (vp_push_bucket rnd b v) = vp_acc v"
  "vp_win v = vp_win w \<Longrightarrow> vp_win (vp_push_bucket rnd b v) = vp_win (vp_push_bucket rnd b w)"
  by (auto simp: vp_acc_def vp_win_def vp_push_bucket_def Let_def split: list.split)

lemma completed_acc: "vp_acc v = vp_acc w \<Longrightarrow> completed ts v = completed ts w"
proof (induction ts v arbitrary: w rule: completed.induct)
  case (2 q a ts v)
  have acc: "vp_acc (vp_accumulate q a v) = vp_acc (vp_accumulate q a w)" using 2(4) by (rule vp_accumulate_parts)
  let ?z = "\<lambda>u :: vpin_calculator. u\<lparr>vp_current_buy_vol := 0, vp_current_sell_vol := 0, vp_current_bucket_vol := 0\<rparr>"
  have z: "vp_acc (?z (vp_accumulate q a v)) = vp_acc (?z (vp_accumulate q a w))" using acc by (simp add: vp_acc_def)
  show ?case
    using 2(1) [OF _ 2(4)] 2(2) [OF _ refl _ z] 2(3) [OF _ refl _ acc] acc by (simp add: vp_acc_def Let_def)
qed simp

lemma vp_pushes_win:
  "vp_win x = vp_win y \<Longrightarrow> vp_win (fold (vp_push_bucket rnd) bs x) = vp_win (fold (vp_push_bucket rnd) bs y)"
proof (induction bs arbitrary: x y)
  case (Cons b bs)
  from Cons.IH [OF vp_push_parts(2) [OF Cons.prems]] show ?case by simp
qed simp

lemma vp_run_pushes:
  "vp_win (vp_run ts v) = vp_win (fold (vp_push_bucket Fin) (completed ts v) v)"
proof (induction ts arbitrary: v)
  case (Cons t ts)
  obtain q a where t: "t = (q, a)" by fastforce
  let ?v1 = "vp_accumulate q a v"
  let ?z = "\<lambda>u :: vpin_calculator. u\<lparr>vp_current_buy_vol := 0, vp_current_sell_vol := 0, vp_current_bucket_vol := 0\<rparr>"
  have z: "vp_win (?z u) = vp_win u" for u by (simp add: vp_win_def)
  have run: "vp_run (t # ts) v = vp_run ts (fst (vp_process_signed Fin q a v))" by (simp add: vp_run_def t)
  consider "q = 0" | "q \<noteq> 0" "vp_bucket_size ?v1 \<le> vp_current_bucket_vol ?v1" | "q \<noteq> 0" "\<not> vp_bucket_size ?v1 \<le> vp_current_bucket_vol ?v1"
    by blast
  then show ?case
  proof cases
    case 1
    then show ?thesis using Cons.IH [of v] run by (simp add: t vp_process_signed_def)
  next
    case 2
    let ?b = "(vp_current_buy_vol ?v1, vp_current_sell_vol ?v1)"
    have p: "fst (vp_process_signed Fin q a v) = ?z (vp_push_bucket Fin ?b ?v1)" using 2 by (simp add: vp_process_signed_def Let_def)
    have c: "completed ts (?z (vp_push_bucket Fin ?b ?v1)) = completed ts (?z ?v1)"
      using vp_push_parts(1) [of Fin ?b ?v1] by (intro completed_acc) (simp add: vp_acc_def)
    have w: "vp_win (?z (vp_push_bucket Fin ?b ?v1)) = vp_win (vp_push_bucket Fin ?b v)"
      using vp_push_parts(2) [OF vp_accumulate_parts(2)] z by simp
    show ?thesis
      using Cons.IH [of "?z (vp_push_bucket Fin ?b ?v1)"] vp_pushes_win [OF w, of Fin "completed ts (?z ?v1)"] run p c 2 by (simp add: t Let_def)
  next
    case 3
    then have "fst (vp_process_signed Fin q a v) = ?v1" by (simp add: vp_process_signed_def Let_def)
    then show ?thesis using Cons.IH [of ?v1] run 3 vp_pushes_win [OF vp_accumulate_parts(2), of Fin "completed ts ?v1" q a v] by (simp add: t Let_def)
  qed
qed (simp add: vp_run_def)

section \<open>Rounding to nearest\<close>

text \<open>Round to nearest is also symmetric, and exact on its own results.\<close>

definition nearest :: "(rat \<Rightarrow> f64) \<Rightarrow> bool" where
  "nearest rnd \<longleftrightarrow> rounding rnd \<and> (\<forall>x. rnd (- x) = f64_neg (rnd x)) \<and> (\<forall>x y. rnd x = Fin y \<longrightarrow> rnd y = Fin y)"

lemma nearest_Fin: "nearest Fin"
  by (simp add: nearest_def rounding_Fin)

lemma nearest_between:
  assumes "nearest rnd" "rnd x = Fin x" "- x \<le> y" "y \<le> x"
  shows "\<exists>z. rnd y = Fin z \<and> - x \<le> z \<and> z \<le> x"
proof -
  have m: "f64_le (rnd a) (rnd b)" if "a \<le> b" for a b using assms(1) that by (simp add: nearest_def rounding_def)
  have neg: "rnd (- x) = Fin (- x)" using assms(1,2) by (simp add: nearest_def)
  have "f64_le (rnd (- x)) (rnd y)" "f64_le (rnd y) (rnd x)" using m assms(3,4) by blast+
  then show ?thesis unfolding neg assms(2) by (cases "rnd y") auto
qed

lemma normalised_difference:
  assumes rnd: "nearest rnd" and nowrap: "unat b + unat a < 2 ^ 64" and pos: "b + a \<noteq> (0 :: u64)"
  shows "\<exists>z. f64_div rnd (f64_sub rnd (u64_as_f64 rnd b) (u64_as_f64 rnd a)) (u64_as_f64 rnd (b + a)) = Fin z \<and> - 1 \<le> z \<and> z \<le> 1"
proof -
  have r: "rounding rnd" using rnd by (simp add: nearest_def)
  obtain x y t where x: "u64_as_f64 rnd b = Fin x" "0 \<le> x" and y: "u64_as_f64 rnd a = Fin y" "0 \<le> y"
    and t: "u64_as_f64 rnd (b + a) = Fin t" "1 \<le> t"
    using u64_as_f64_Fin [OF r, of b] u64_as_f64_Fin [OF r, of a] u64_as_f64_Fin [OF r, of "b + a"] pos by blast
  have sum: "unat (b + a) = unat b + unat a" using nowrap by (simp add: unat_word_ariths)
  have mono: "f64_le (u64_as_f64 rnd w) (u64_as_f64 rnd (b + a))" if "unat w \<le> unat (b + a)" for w
  proof -
    have "of_nat (unat w) \<le> (of_nat (unat (b + a)) :: rat)" using that by (rule of_nat_mono)
    then show ?thesis using r unfolding rounding_def u64_as_f64_def f64_of_nat_def by blast
  qed
  have le: "x \<le> t" "y \<le> t" using mono [of b] mono [of a] sum x t y by auto
  have tt: "rnd t = Fin t" using rnd t(1) by (auto simp: nearest_def u64_as_f64_def f64_of_nat_def simp del: of_nat_unat)
  obtain d where d: "rnd (x - y) = Fin d" "- t \<le> d" "d \<le> t"
    using nearest_between [OF rnd tt, of "x - y"] le x(2) y(2) by auto
  have "- 1 \<le> d / t" "d / t \<le> 1" using d t(2) by (simp_all add: field_simps)
  moreover have "rnd 1 = Fin 1" using r by (simp add: rounding_def)
  ultimately show ?thesis
    using nearest_between [OF rnd, of 1 "d / t"] x y t d by (auto simp: f64_sub_def)
qed

section \<open>Properties\<close>

text \<open>
  The VPIN running sum never drifts (exact arithmetic): after any sequence of signed trades from a new
  calculator with a positive bucket size, the queue holds the latest \<open>num_buckets\<close> (at least one) of the buckets
  those trades completed, and the value reported is the mean of their absolute imbalances divided by the
  bucket size, or 0 before the first bucket.
\<close>

theorem vpin_exact:
  assumes "bsz \<noteq> 0" "v = vp_run ts (vp_new bsz nb)" "bs = lastn (max 1 nb) (completed ts (vp_new bsz nb))"
  shows "vp_buckets v = bs \<and> vp_vpin Fin v =
    Fin (if bs = [] then 0 else sum_list (map gap_of bs) / (of_nat (length bs) * of_nat (unat bsz)))"
proof -
  let ?v = "fold (vp_push_bucket Fin) (completed ts (vp_new bsz nb)) (vp_new bsz nb)"
  have w: "vp_win v = vp_win ?v" using vp_run_pushes assms(2) by simp
  have sz: "vp_bucket_size (fold (vp_push_bucket Fin) xs u) = vp_bucket_size u" for xs u
    by (induction xs arbitrary: u) (auto simp: vp_push_bucket_def Let_def split: list.split)
  have r: "vp_buckets ?v = bs" "is_fin (vp_running_abs_diff ?v)" "vp_total ?v = sum_list (map gap_of bs)"
    using vpin_sum.run [of "vp_new bsz nb" "[]" "completed ts (vp_new bsz nb)"] assms(3)
    by (simp_all add: vp_new_def vp_total_def lastn_def)
  have f: "vp_buckets v = bs" "vp_running_abs_diff v = Fin (sum_list (map gap_of bs))" "vp_bucket_size v = bsz"
    using w r sz [of "completed ts (vp_new bsz nb)" "vp_new bsz nb"]
    by (auto simp: vp_win_def vp_total_def is_fin_iff vp_new_def)
  have "unat bsz \<noteq> 0" using assms(1) by (simp add: unat_eq_zero)
  then show ?thesis
    using f by (simp add: vp_vpin_def vp_calculate_def u64_as_f64_def f64_of_nat_def f64_mul_def del: of_nat_unat)
qed

theorem vpin_exact_witness: "vp_vpin Fin (vp_run [(4, 1), (6, - 1)] (vp_new 10 3)) = Fin (2 / 10)"
proof -
  have c: "completed [(4, 1), (6, - 1)] (vp_new 10 3) = [(4, 6)]"
    by (simp add: vp_accumulate_def vp_new_def)
  note exact = vpin_exact [OF _ refl refl, of 10 "[(4, 1), (6, - 1)]" 3, unfolded c]
  then show ?thesis by (simp add: lastn_def gap_of_def del: completed.simps)
qed

text \<open>
  A trade is never split over buckets, so the value is not a probability: one trade of ten bucket sizes gives 10.
\<close>

theorem vpin_exceeds_one: "snd (vp_process_signed Fin 10 1 (vp_new 1 4)) = Some (Fin 10)"
  by (simp add: vp_process_signed_def vp_new_def vp_accumulate_def vp_push_bucket_def abs_diff_gap gap_of_def vp_calculate_def
      Let_def f64_of_nat_def u64_as_f64_def f64_mul_def)

text \<open>
  The spread tracker's running sum never drifts, wrap-around included: after recording any sequence of
  books, its history is the latest \<open>window\<close> (at least one) spreads of the books that have one, and the running
  sum is the sum of that history.
\<close>

theorem spread_sum_exact:
  "st_history (fold (\<lambda>b t. fst (st_record rnd b t)) books (st_new w)) = lastn (max 1 w) (List.map_filter hb_spread books) \<and>
   st_running_sum (fold (\<lambda>b t. fst (st_record rnd b t)) books (st_new w)) = sum_list (lastn (max 1 w) (List.map_filter hb_spread books))"
proof -
  have "fold (\<lambda>b t. fst (st_record rnd b t)) books t = fold st_push (List.map_filter hb_spread books) t" for t
    by (induction books arbitrary: t) (auto simp: st_record_def Let_def split: option.split)
  then show ?thesis
    using spread_sum.run [of "st_new w" "[]" "List.map_filter hb_spread books"] by (simp add: st_new_def lastn_def)
qed

text \<open>
  The book imbalance is normalised: with rounding to nearest, and unless the two depths overflow
  \<open>u64\<close> together, it is a number between -1 and 1.
\<close>

theorem imbalance_normalised:
  assumes "nearest rnd" "unat (hb_bid_depth b n) + unat (hb_ask_depth b n) < 2 ^ 64"
  shows "\<exists>z. book_imbalance rnd b n = Fin z \<and> - 1 \<le> z \<and> z \<le> 1"
  using normalised_difference [OF assms] by (auto simp: book_imbalance_def Let_def)

theorem imbalance_normalised_witness: "\<exists>z. book_imbalance Fin (hb_new 4 7) 2 = Fin z \<and> - 1 \<le> z \<and> z \<le> 1"
proof -
  have "hb_bid_depth (hb_new 4 7) 2 = 0" "hb_ask_depth (hb_new 4 7) 2 = 0" by code_simp+
  then show ?thesis by (intro imbalance_normalised [OF nearest_Fin]) simp
qed

end
