(* ===== verification/FL_Window.thy ===== *)
theory FL_Window
  imports FL_Regime
begin

text \<open>
  Stress windows (\<open>chaos/src/window.rs\<close>): the extractor that merges neighbouring stressed samples, proved
  equal to a direct description of the maximal runs.
\<close>

record stress_window =
  sw_start_seq :: u64
  sw_end_seq :: u64
  sw_regime :: regime
  sw_severity :: f64
  sw_chaos_events :: "chaos_event list"

record window_extractor =
  we_min_regime :: regime
  we_merge_gap :: u64

type_synonym tagged = "u64 \<times> regime \<times> chaos_event list"

definition we_new :: "regime \<Rightarrow> u64 \<Rightarrow> window_extractor" where
  "we_new r g = \<lparr>we_min_regime = r, we_merge_gap = g\<rparr>"

definition severity_finalize :: "(rat \<Rightarrow> f64) \<Rightarrow> stress_window \<Rightarrow> stress_window list \<Rightarrow> stress_window list" where
  "severity_finalize rnd w dest =
     dest @ [w\<lparr>sw_severity :=
       (if sw_chaos_events w = [] then Fin 0
        else f64_div rnd (fold (\<lambda>e acc. f64_add rnd acc (ce_severity e)) (sw_chaos_events w) (Fin 0))
               (f64_of_nat rnd (length (sw_chaos_events w))))\<rparr>]"

definition finalize_current :: "(rat \<Rightarrow> f64) \<Rightarrow> stress_window list \<times> stress_window option \<Rightarrow> stress_window list" where
  "finalize_current rnd st =
     (case st of (ws, None) \<Rightarrow> ws | (ws, Some w) \<Rightarrow> severity_finalize rnd w ws)"

definition extract_step :: "(rat \<Rightarrow> f64) \<Rightarrow> window_extractor \<Rightarrow> tagged \<Rightarrow>
    stress_window list \<times> stress_window option \<Rightarrow> stress_window list \<times> stress_window option" where
  "extract_step rnd x entry st =
     (case (entry, st) of ((s, r, chaos), (ws, current)) \<Rightarrow>
        let fresh = (finalize_current rnd st,
              Some \<lparr>sw_start_seq = s, sw_end_seq = s, sw_regime = r, sw_severity = Fin 0, sw_chaos_events = chaos\<rparr>)
        in if we_min_regime x \<le> r then
             (case current of
                Some w \<Rightarrow>
                  if s - sw_end_seq w \<le> we_merge_gap x
                  then (ws, Some (w\<lparr>sw_end_seq := s, sw_regime := (if sw_regime w < r then r else sw_regime w),
                          sw_chaos_events := sw_chaos_events w @ chaos\<rparr>))
                  else fresh
              | None \<Rightarrow> fresh)
           else (finalize_current rnd st, None))"

definition we_extract :: "(rat \<Rightarrow> f64) \<Rightarrow> window_extractor \<Rightarrow> tagged list \<Rightarrow> stress_window list" where
  "we_extract rnd x tagged = finalize_current rnd (fold (extract_step rnd x) tagged ([], None))"

section \<open>Maximal runs\<close>

definition stressed :: "window_extractor \<Rightarrow> tagged \<Rightarrow> bool" where
  "stressed x t \<longleftrightarrow> we_min_regime x \<le> fst (snd t)"

definition joined :: "window_extractor \<Rightarrow> tagged \<Rightarrow> tagged \<Rightarrow> bool" where
  "joined x t u \<longleftrightarrow> stressed x t \<and> stressed x u \<and> fst u - fst t \<le> we_merge_gap x"

fun runs :: "window_extractor \<Rightarrow> tagged list \<Rightarrow> tagged list list" where
  "runs x [] = []"
| "runs x [t] = (if stressed x t then [[t]] else [])"
| "runs x (t # u # us) =
     (if joined x t u then (case runs x (u # us) of r # rs \<Rightarrow> (t # r) # rs | [] \<Rightarrow> [[t]])
      else if stressed x t then [t] # runs x (u # us)
      else runs x (u # us))"

definition open_window :: "tagged list \<Rightarrow> stress_window" where
  "open_window r =
     \<lparr>sw_start_seq = fst (hd r), sw_end_seq = fst (last r), sw_regime = Max (set (map (fst \<circ> snd) r)),
      sw_severity = Fin 0, sw_chaos_events = concat (map (snd \<circ> snd) r)\<rparr>"

definition mean_severity :: "(rat \<Rightarrow> f64) \<Rightarrow> chaos_event list \<Rightarrow> f64" where
  "mean_severity rnd es =
     (if es = [] then Fin 0
      else f64_div rnd (fold (\<lambda>s acc. f64_add rnd acc s) (map ce_severity es) (Fin 0)) (f64_of_nat rnd (length es)))"

definition window_of :: "(rat \<Rightarrow> f64) \<Rightarrow> tagged list \<Rightarrow> stress_window" where
  "window_of rnd r = (open_window r)\<lparr>sw_severity := mean_severity rnd (concat (map (snd \<circ> snd) r))\<rparr>"

definition chain :: "window_extractor \<Rightarrow> tagged list \<Rightarrow> bool" where
  "chain x r \<longleftrightarrow> r \<noteq> [] \<and> successively (joined x) r \<and> stressed x (hd r)"

lemma runs_hd: "stressed x u \<Longrightarrow> \<exists>r rs. runs x (u # us) = (u # r) # rs"
proof (induction us arbitrary: u)
  case (Cons v us)
  then show ?case
    using Cons.IH [of v] by (cases "joined x u v") (auto simp: joined_def split: list.splits)
qed simp

lemma runs_break:
  "chain x r \<Longrightarrow> \<not> joined x (last r) t \<Longrightarrow> runs x (r @ t # ts) = r # runs x (t # ts)"
proof (induction r rule: induct_list012)
  case (3 a b r)
  then have "joined x a b" "chain x (b # r)" by (auto simp: chain_def joined_def)
  with 3 show ?case by simp
qed (auto simp: chain_def)

lemma runs_chain: "chain x r \<Longrightarrow> runs x r = [r]"
proof (induction r rule: induct_list012)
  case (3 a b r)
  then have "joined x a b" "chain x (b # r)" by (auto simp: chain_def joined_def)
  with 3 show ?case by simp
qed (auto simp: chain_def)

lemma concat_runs: "concat (runs x ts) = filter (stressed x) ts"
proof (induction x ts rule: runs.induct)
  case (3 x t u us)
  show ?case
  proof (cases "joined x t u")
    case True
    then obtain r rs where r: "runs x (u # us) = (u # r) # rs" using runs_hd unfolding joined_def by blast
    have "stressed x t" using True by (simp add: joined_def)
    with True 3(1) [OF True] show ?thesis by (simp add: r)
  next
    case False
    with 3(2,3) show ?thesis by (cases "stressed x t") simp_all
  qed
qed simp_all

section \<open>The extractor computes the maximal runs\<close>

lemma chain_snoc: "chain x r \<Longrightarrow> joined x (last r) t \<Longrightarrow> chain x (r @ [t])"
  by (auto simp: chain_def successively_append_iff)

lemma chain_last: "chain x r \<Longrightarrow> stressed x (last r)"
  by (induction r rule: induct_list012) (auto simp: chain_def joined_def)

lemma chain_single: "chain x [t] \<longleftrightarrow> stressed x t"
  by (simp add: chain_def)

lemma finalize_open: "finalize_current rnd (ws, Some (open_window r)) = ws @ [window_of rnd r]"
  by (simp add: finalize_current_def severity_finalize_def window_of_def mean_severity_def fold_map comp_def open_window_def)

lemma open_window_snoc:
  assumes "r \<noteq> []"
  shows "open_window (r @ [(s, g, c)]) =
    (open_window r)\<lparr>sw_end_seq := s, sw_regime := (if sw_regime (open_window r) < g then g else sw_regime (open_window r)),
      sw_chaos_events := sw_chaos_events (open_window r) @ c\<rparr>"
proof -
  let ?m = "Max (set (map (fst \<circ> snd) r))"
  have "Max (set (map (fst \<circ> snd) (r @ [(s, g, c)]))) = max g ?m"
    using assms by (simp add: Max_insert del: Max_less_iff)
  moreover have "max g ?m = (if ?m < g then g else ?m)" by (auto simp: max_def simp del: Max_less_iff)
  ultimately show ?thesis
    unfolding open_window_def stress_window.select_convs stress_window.update_convs using assms by simp
qed

lemma extract_step_open:
  assumes r: "chain x r"
  shows "extract_step rnd x t (ws, Some (open_window r)) =
    (if joined x (last r) t then (ws, Some (open_window (r @ [t])))
     else (ws @ [window_of rnd r], if stressed x t then Some (open_window [t]) else None))"
proof -
  obtain s g c where t: "t = (s, g, c)" by (cases t)
  have "r \<noteq> []" using r by (simp add: chain_def)
  have j: "joined x (last r) t \<longleftrightarrow> we_min_regime x \<le> g \<and> s - sw_end_seq (open_window r) \<le> we_merge_gap x"
    using chain_last [OF r] by (auto simp: joined_def stressed_def t open_window_def)
  have s: "stressed x t \<longleftrightarrow> we_min_regime x \<le> g" by (simp add: stressed_def t)
  have o1: "open_window [t] = \<lparr>sw_start_seq = s, sw_end_seq = s, sw_regime = g, sw_severity = Fin 0, sw_chaos_events = c\<rparr>"
    by (simp add: open_window_def t)
  show ?thesis
    unfolding j s o1 unfolding t extract_step_def prod.case Let_def option.case finalize_open open_window_snoc [OF \<open>r \<noteq> []\<close>]
    by simp
qed

lemma extract_step_none:
  "extract_step rnd x t (ws, None) = (ws, if stressed x t then Some (open_window [t]) else None)"
  by (cases t) (simp add: extract_step_def stressed_def open_window_def finalize_current_def)

lemma extract_loop:
  "chain x r \<Longrightarrow> finalize_current rnd (fold (extract_step rnd x) ts (ws, Some (open_window r)))
     = ws @ map (window_of rnd) (runs x (r @ ts))"
  "finalize_current rnd (fold (extract_step rnd x) ts (ws, None)) = ws @ map (window_of rnd) (runs x ts)"
proof (induction ts arbitrary: ws r)
  case Nil
  { case 1 then show ?case by (simp add: runs_chain finalize_open) }
  { case 2 then show ?case by (simp add: finalize_current_def) }
next
  case (Cons t ts)
  have skip: "runs x (t # ts) = runs x ts" if "\<not> stressed x t"
    using that by (cases ts) (auto simp: joined_def)
  { case 1
    then show ?case
      using Cons(1) [OF chain_snoc [OF 1]] Cons(1) [of "[t]"] Cons(2) skip
      by (cases "joined x (last r) t"; cases "stressed x t")
        (simp_all add: extract_step_open runs_break chain_single) }
  { case 2
    then show ?case
      using Cons(1) [of "[t]"] Cons(2) skip
      by (cases "stressed x t") (simp_all add: extract_step_none chain_single) }
qed

text \<open>
  Property C21. The extracted stress windows are exactly the maximal runs of the input: two neighbouring
  samples share a window if and only if both reach the minimum regime and their sequence numbers are at
  most the merge gap apart. A window spans its run from the first to the last sequence number, has the
  highest regime of the run, all its chaos events in order and their mean severity; every stressed sample
  lies in exactly one window.
\<close>

theorem stress_windows_are_runs:
  "we_extract rnd x ts = map (window_of rnd) (runs x ts) \<and> concat (runs x ts) = filter (stressed x) ts"
  using extract_loop(2) [of rnd x ts "[]"] by (simp add: we_extract_def concat_runs)

end
