(* ===== verification/FL_LatencyProperties.thy ===== *)
theory FL_LatencyProperties
  imports FL_Latency
begin

text \<open>
  The stage ring keeps the latest samples, its percentiles are ordered, the bins of the engine's histogram are the
  bins of the benchmark's, and a bin brackets the samples it counts.
\<close>

section \<open>The stage ring\<close>

definition ss_view :: "stage_stats \<Rightarrow> u64 list" where
  "ss_view s = drop (ss_head s) (ss_samples s) @ take (ss_head s) (ss_samples s)"

definition ss_ok :: "stage_stats \<Rightarrow> bool" where
  "ss_ok s \<longleftrightarrow> 0 < ss_cap s \<and> length (ss_samples s) \<le> ss_cap s \<and> ss_head s < ss_cap s \<and>
     (length (ss_samples s) < ss_cap s \<longrightarrow> ss_head s = 0)"

lemma ring_overwrite:
  assumes "h < length xs"
  shows "drop (Suc h) (xs[h := x]) @ take (Suc h) (xs[h := x]) = tl (drop h xs @ take h xs) @ [x]"
proof -
  have "drop (Suc h) (xs[h := x]) = tl (drop h xs)" by (simp add: tl_drop drop_Suc [symmetric])
  moreover have "take (Suc h) (xs[h := x]) = take h xs @ [x]" using assms by (simp add: take_Suc_conv_app_nth)
  ultimately show ?thesis using assms by (simp add: tl_append2)
qed

lemma ss_push_view:
  assumes "ss_ok s"
  shows "ss_ok (ss_push x s) \<and> ss_cap (ss_push x s) = ss_cap s \<and> ss_view (ss_push x s) = lastn (ss_cap s) (ss_view s @ [x])"
proof (cases "length (ss_samples s) < ss_cap s")
  case True
  then show ?thesis using assms by (auto simp: ss_ok_def ss_push_def ss_view_def lastn_def)
next
  case False
  let ?h = "ss_head s" let ?xs = "ss_samples s"
  have len: "length ?xs = ss_cap s" "?h < length ?xs" using assms False by (auto simp: ss_ok_def)
  have "lastn (ss_cap s) (ss_view s @ [x]) = tl (ss_view s) @ [x]"
    using len by (simp add: lastn_def ss_view_def drop_Suc tl_drop)
  moreover have "ss_view (ss_push x s) = tl (ss_view s) @ [x]"
  proof (cases "Suc ?h = ss_cap s")
    case True
    then show ?thesis using ring_overwrite [OF len(2), of x] len False
      by (simp add: ss_push_def ss_view_def Let_def del: drop_update_cancel)
  next
    case False
    then show ?thesis using ring_overwrite [OF len(2), of x] len \<open>\<not> length ?xs < ss_cap s\<close>
      by (simp add: ss_push_def ss_view_def Let_def del: drop_update_cancel)
  qed
  ultimately show ?thesis using assms False len by (auto simp: ss_ok_def ss_push_def Let_def)
qed

lemma ss_run_view:
  assumes "ss_ok s" "ss_view s = lastn (ss_cap s) ys"
  shows "ss_ok (fold ss_push xs s) \<and> ss_view (fold ss_push xs s) = lastn (ss_cap s) (ys @ xs)"
  using assms
proof (induction xs arbitrary: s ys)
  case (Cons x xs)
  note p = ss_push_view [OF Cons.prems(1), of x]
  have "ss_view (ss_push x s) = lastn (ss_cap (ss_push x s)) (ys @ [x])"
    using p lastn_append [of "ss_cap s" ys "[x]"] Cons.prems(2) by simp
  from Cons.IH [OF conjunct1 [OF p] this] conjunct1 [OF conjunct2 [OF p]] show ?case by simp
qed simp

text \<open>
  The rolling statistics of a stage are a first-in first-out window: after any sequence of samples the
  ring read from its head holds exactly the last \<open>cap\<close> of them, oldest first, so the percentiles are taken over the
  latest samples and never over a stale one.
\<close>

theorem stage_ring_is_fifo:
  assumes "0 < cap"
  shows "ss_view (fold ss_push ns (ss_new cap)) = lastn cap ns"
  using ss_run_view [of "ss_new cap" "[]" ns] assms by (simp add: ss_ok_def ss_new_def ss_view_def lastn_def)

theorem stage_ring_is_fifo_witness: "ss_view (fold ss_push [5, 6, 7] (ss_new 2)) = [6, 7]"
  using stage_ring_is_fifo [of 2 "[5, 6, 7]"] by (simp add: lastn_def)

section \<open>Percentiles\<close>

definition ss_index :: "f64 \<Rightarrow> f64 \<Rightarrow> (rat \<Rightarrow> f64) \<Rightarrow> nat" where
  "ss_index x q rnd = f64_as_nat (f64_round (f64_mul rnd x q))"

lemma ss_index_mono:
  assumes r: "rounding rnd" and x: "f64_le (Fin 0) x" and q: "0 \<le> p" "p \<le> q"
  shows "ss_index x (Fin p) rnd \<le> ss_index x (Fin q) rnd"
proof (cases "x = PInf")
  case True
  then show ?thesis using q by (auto simp: ss_index_def f64_mul_def f64_sgn_def f64_as_nat_def)
next
  case False
  then have "f64_le (Fin 0) (f64_mul rnd x (Fin p))"
    using x q rounding_nonneg [OF r] by (cases x) (auto simp: f64_mul_def)
  then show ?thesis unfolding ss_index_def
    by (intro f64_as_nat_mono f64_round_mono f64_mul_mono [OF r x q False])
qed

lemma rounding_unit:
  assumes "rounding rnd" "0 \<le> p" "p \<le> q" "q \<le> 1"
  obtains a b where "rnd p = Fin a" "rnd q = Fin b" "0 \<le> a" "a \<le> b"
proof -
  have "f64_le (Fin 0) (rnd p)" "f64_le (rnd p) (rnd q)" "f64_le (rnd q) (Fin 1)"
    using assms by (metis rounding_def order_trans)+
  then show ?thesis by (cases "rnd p"; cases "rnd q") (auto intro: that)
qed

lemma len_minus_one_nonneg:
  assumes "rounding rnd" "0 < n"
  shows "f64_le (Fin 0) (f64_sub rnd (f64_of_nat rnd n) (rnd 1))"
proof -
  have "(1 :: rat) \<le> of_nat n" using assms(2) by simp
  then have "f64_le (Fin 1) (f64_of_nat rnd n)" using assms(1) unfolding f64_of_nat_def by (metis rounding_def)
  then show ?thesis using assms(1) rounding_nonneg [OF assms(1)]
    by (cases "f64_of_nat rnd n") (auto simp: f64_sub_def rounding_def)
qed

lemma ss_pick_mono:
  assumes "rounding rnd" "0 \<le> p" "p \<le> q" "q \<le> 1" "sorted s" "s \<noteq> []"
  shows "ss_pick rnd s p \<le> ss_pick rnd s q"
proof -
  obtain a b where ab: "rnd p = Fin a" "rnd q = Fin b" "0 \<le> a" "a \<le> b" using rounding_unit [OF assms(1-4)] .
  let ?x = "f64_sub rnd (f64_of_nat rnd (length s)) (rnd 1)"
  have "ss_index ?x (Fin a) rnd \<le> ss_index ?x (Fin b) rnd"
    using ss_index_mono [OF assms(1) len_minus_one_nonneg [OF assms(1)]] ab assms(6) by simp
  then have "min (ss_index ?x (rnd p) rnd) (length s - 1) \<le> min (ss_index ?x (rnd q) rnd) (length s - 1)" by (simp add: ab)
  then show ?thesis unfolding ss_pick_def Let_def ss_index_def [symmetric]
    using assms(5,6) by (intro sorted_nth_mono) (auto simp: min_def intro: order.strict_trans1 [of _ "length s - Suc 0"])
qed

lemma sorted_nth_last: "sorted s \<Longrightarrow> i < length s \<Longrightarrow> s ! i \<le> List.last s" for s :: "u64 list"
  by (subst last_conv_nth) (auto intro!: sorted_nth_mono)

lemma ss_pick_bounds:
  assumes "sorted s" "s \<noteq> []"
  shows "ss_pick rnd s p \<in> set s \<and> ss_pick rnd s p \<le> List.last s"
proof -
  obtain k where "ss_pick rnd s p = s ! min k (length s - 1)" by (simp add: ss_pick_def Let_def)
  moreover have "min k (length s - 1) < length s" using assms(2) by (cases s) auto
  ultimately obtain i where "ss_pick rnd s p = s ! i" "i < length s" by blast
  then show ?thesis using sorted_nth_last [OF assms(1)] by simp
qed

text \<open>
  The latency summary of a stage with at least one sample is made of samples of its window, and is
  ordered: median, 99th percentile, 99.9th percentile, maximum; the maximum is the largest sample.
\<close>

theorem stage_percentiles_ordered:
  assumes "rounding rnd" "ss_samples st \<noteq> []"
  shows "let l = ss_snapshot rnd st in
    sl_p50_ns l \<le> sl_p99_ns l \<and> sl_p99_ns l \<le> sl_p999_ns l \<and> sl_p999_ns l \<le> sl_max_ns l \<and>
    {sl_p50_ns l, sl_p99_ns l, sl_p999_ns l, sl_max_ns l} \<subseteq> set (ss_samples st) \<and> (\<forall>x \<in> set (ss_samples st). x \<le> sl_max_ns l)"
proof -
  let ?s = "sort (ss_samples st)"
  have s: "sorted ?s" "?s \<noteq> []" by (rule sorted_sort) (metis assms(2) length_sort length_0_conv)
  have "x \<le> List.last ?s" if "x \<in> set ?s" for x
    using that sorted_nth_last [OF s(1)] in_set_conv_nth [of x ?s] by blast
  moreover have "List.last ?s \<in> set ?s" using s(2) by (rule last_in_set)
  moreover have "ss_pick rnd ?s (50 / 100) \<le> ss_pick rnd ?s (99 / 100)" "ss_pick rnd ?s (99 / 100) \<le> ss_pick rnd ?s (999 / 1000)"
    by (rule ss_pick_mono [OF assms(1) _ _ _ s]; simp)+
  ultimately show ?thesis using ss_pick_bounds [OF s, of rnd] assms(2) by (simp add: ss_snapshot_def Let_def)
qed

theorem stage_percentiles_ordered_witness:
  "let l = ss_snapshot Fin (fold ss_push [5, 6, 7] (ss_new 2)) in sl_p50_ns l \<le> sl_p99_ns l \<and> sl_p999_ns l \<le> sl_max_ns l"
proof -
  have "ss_samples (fold ss_push [5, 6, 7] (ss_new 2)) \<noteq> []" by (simp add: ss_push_def ss_new_def)
  from stage_percentiles_ordered [OF rounding_Fin this] show ?thesis by (simp add: Let_def)
qed

section \<open>Histogram bins\<close>

lemma group_bounds:
  assumes "ns \<noteq> 0"
  shows "2 ^ (63 - leading_zeros ns) \<le> unat ns \<and> unat ns < 2 ^ Suc (63 - leading_zeros ns) \<and> 63 - leading_zeros ns \<le> 63"
proof -
  let ?L = "floorlog 2 (unat ns)"
  have pos: "0 < unat ns" using assms by (simp add: unat_gt_0)
  then have b: "2 ^ (?L - 1) \<le> unat ns \<and> unat ns < 2 ^ ?L" by (intro floorlog_bounds) simp_all
  have "0 < ?L" using pos by (simp add: floorlog_def)
  moreover have "(2 :: nat) ^ (?L - 1) < 2 ^ 64" using b unat_lt_u64 [of ns] by linarith
  then have "?L - 1 < 64" by (simp only: power_strict_increasing_iff one_less_numeral_iff semiring_norm)
  ultimately have "63 - leading_zeros ns = ?L - 1" "Suc (?L - 1) = ?L" by (simp_all add: leading_zeros_def)
  with b show ?thesis by simp
qed

lemma group_small: "ns \<noteq> 0 \<Longrightarrow> unat ns < 2 ^ 24 \<longleftrightarrow> 63 - leading_zeros ns < 24"
proof
  assume "ns \<noteq> 0" "unat ns < 2 ^ 24"
  then have "(2 :: nat) ^ (63 - leading_zeros ns) < 2 ^ 24" using group_bounds [of ns] by linarith
  then show "63 - leading_zeros ns < 24" by (simp only: power_strict_increasing_iff one_less_numeral_iff semiring_norm)
next
  assume ns: "ns \<noteq> 0" and "63 - leading_zeros ns < 24"
  then have "(2 :: nat) ^ Suc (63 - leading_zeros ns) \<le> 2 ^ 24" by (intro power_increasing) simp_all
  then show "unat ns < 2 ^ 24" using group_bounds [OF ns] by linarith
qed

text \<open>The sub-bin of a value in the group \<open>g\<close>.\<close>

lemma unat_pow2: "g < 64 \<Longrightarrow> unat (2 ^ g :: u64) = 2 ^ g"
proof -
  assume "g < 64"
  then have "(2 :: nat) ^ g < 2 ^ 64" by (intro power_strict_increasing) simp_all
  then have "unat (of_nat (2 ^ g) :: u64) = 2 ^ g" by (intro unat_of_nat_small) simp
  then show ?thesis by simp
qed

lemma unat_push_1: "g < 64 \<Longrightarrow> unat (push_bit g 1 :: u64) = 2 ^ g"
  by (simp add: unat_pow2)

lemma sub_bin:
  assumes "2 ^ g \<le> unat ns" "unat ns < 2 ^ 61" "g < 64"
  shows "unat ((ns - push_bit g 1) * 8 div push_bit g 1 :: u64) = (unat ns - 2 ^ g) * 8 div 2 ^ g"
proof -
  have u: "unat (push_bit g 1 :: u64) = 2 ^ g" by (rule unat_push_1 [OF assms(3)])
  then have "push_bit g 1 \<le> ns" using assms(1) by (simp add: word_le_nat_alt)
  then have "unat (ns - push_bit g 1) = unat ns - 2 ^ g" using u by (simp add: unat_sub)
  moreover have "(unat ns - 2 ^ g) * 8 < 2 ^ 64" using assms(2) by simp
  ultimately have "unat ((ns - push_bit g 1) * 8) = (unat ns - 2 ^ g) * 8"
    by (subst unat_mult_lem [THEN iffD1]) simp_all
  then show ?thesis using u by (simp add: unat_div)
qed

lemma sub_less_8: "n < 2 ^ Suc g \<Longrightarrow> 2 ^ g \<le> n \<Longrightarrow> (n - 2 ^ g) * 8 div 2 ^ g < (8 :: nat)"
  by (rule less_mult_imp_div_less) simp

lemma hg_bin_eq:
  assumes "ns \<noteq> 0" "unat ns < 2 ^ 24"
  shows "hg_bin_of ns = (63 - leading_zeros ns) * 8 + (unat ns - 2 ^ (63 - leading_zeros ns)) * 8 div 2 ^ (63 - leading_zeros ns)"
proof -
  let ?g = "63 - leading_zeros ns"
  have g: "?g < 24" using group_small assms by blast
  note b = group_bounds [OF assms(1)]
  have "unat ns < 2 ^ 61" using assms(2) by simp
  from sub_bin [OF _ this, of ?g] sub_less_8 [of "unat ns" ?g] b g show ?thesis using assms(1)
    by (simp add: hg_bin_of_def Let_def bin_groups_def subbins_def min_def)
qed

text \<open>
  The engine's latency histogram has the bins of the benchmark's: for every latency below \<open>2^61\<close> ns both
  compute the same bin, except that the engine counts in its last bin what the benchmark counts as overflow.
\<close>

theorem histogram_layout_shared:
  assumes "unat ns < 2 ^ 61"
  shows "ah_bin ns = min (hg_bin_of ns) 191"
proof (cases "ns = 0 \<or> unat ns < 2 ^ 24")
  case True
  show ?thesis
  proof (cases "ns = 0")
    case False
    let ?g = "63 - leading_zeros ns"
    have small: "unat ns < 2 ^ 24" and g: "?g < 24" using True False group_small by auto
    note b = group_bounds [OF False]
    from sub_bin [OF _ assms, of ?g] b g have "unat ((ns - push_bit ?g 1) * 8 div push_bit ?g 1 :: u64) = (unat ns - 2 ^ ?g) * 8 div 2 ^ ?g"
      by simp
    moreover have "min ?g 23 = ?g" using g by simp
    moreover have "0 < (push_bit ?g 1 :: u64)" using g by (simp add: word_gt_0 push_bit_of_1)
    ultimately show ?thesis using False hg_bin_eq [OF False small] by (simp add: ah_bin_def Let_def)
  qed (simp add: ah_bin_def hg_bin_of_def)
next
  case False
  then have "\<not> 63 - leading_zeros ns < 24" using group_small by auto
  then have "min (63 - leading_zeros ns) 23 = 23" "24 \<le> 63 - leading_zeros ns" by auto
  moreover have "8 \<le> (unat ns - 2 ^ 23) * 8 div 2 ^ 23"
  proof -
    have "16777216 \<le> unat ns" using False by simp
    then have "8388608 \<le> unat ns - 8388608" by linarith
    then show ?thesis using div_le_mono [of "2 ^ 23 * 8" "(unat ns - 2 ^ 23) * 8" "2 ^ 23"] by simp
  qed
  ultimately show ?thesis using False sub_bin [of 23 ns] assms
    by (simp add: ah_bin_def hg_bin_of_def Let_def bin_groups_def n_bins_def subbins_def push_bit_of_1)
qed

theorem histogram_layout_shared_witness: "ah_bin 1000 = min (hg_bin_of 1000) 191"
  by (rule histogram_layout_shared) simp

section \<open>Bin edges\<close>

lemma unat_lower:
  assumes "i \<le> n_bins"
  shows "unat (hg_lower_ns i) = 2 ^ (i div 8) + i mod 8 * 2 ^ (i div 8) div 8"
proof -
  let ?g = "i div 8" let ?s = "i mod 8"
  have g: "?g \<le> 24" using assms by (simp add: n_bins_def bin_groups_def subbins_def)
  then have p: "(2 :: nat) ^ ?g \<le> 2 ^ 24" by (intro power_increasing) simp_all
  have u: "unat (push_bit ?g 1 :: u64) = 2 ^ ?g" by (rule unat_push_1) (use g in simp)
  have s: "?s < 8" by simp
  have m: "?s * 2 ^ ?g \<le> 8 * 2 ^ 24" by (rule mult_le_mono) (use s p in simp_all)
  have us: "unat (of_nat ?s :: u64) = ?s" by (rule unat_of_nat_small) simp
  have "unat (of_nat ?s * push_bit ?g 1 :: u64) = ?s * 2 ^ ?g"
    by (subst unat_mult_lem [THEN iffD1]) (use u us m in simp_all)
  then have d: "unat (of_nat ?s * push_bit ?g 1 div 8 :: u64) = ?s * 2 ^ ?g div 8" by (simp add: unat_div)
  have d8: "?s * 2 ^ ?g div 8 \<le> 2 ^ 24" using div_le_mono [OF m, of 8] by simp
  have "unat (push_bit ?g 1 + of_nat ?s * push_bit ?g 1 div 8 :: u64) = 2 ^ ?g + ?s * 2 ^ ?g div 8"
    by (subst unat_add_lem [THEN iffD1]) (use u d d8 p in simp_all)
  then show ?thesis by (simp add: hg_lower_ns_def subbins_def Let_def)
qed

lemma lower_step:
  assumes "Suc i \<le> n_bins"
  shows "unat (hg_lower_ns i) \<le> unat (hg_lower_ns (Suc i))"
proof (cases "i mod 8 = 7")
  case True
  then have "Suc i div 8 = Suc (i div 8)" "Suc i mod 8 = 0" by (simp_all add: div_Suc mod_Suc)
  moreover have "7 * 2 ^ (i div 8) div 8 \<le> (2 :: nat) ^ (i div 8)" by linarith
  ultimately show ?thesis using unat_lower [of i] unat_lower [OF assms] assms True by simp
next
  case False
  then have "Suc i div 8 = i div 8" "Suc i mod 8 = Suc (i mod 8)" by (simp_all add: div_Suc mod_Suc)
  moreover have "i mod 8 * 2 ^ (i div 8) div 8 \<le> Suc (i mod 8) * 2 ^ (i div 8) div 8" by (intro div_le_mono mult_le_mono) simp_all
  ultimately show ?thesis using unat_lower [of i] unat_lower [OF assms] assms by simp
qed

lemma lower_mono: "i \<le> j \<Longrightarrow> j \<le> n_bins \<Longrightarrow> unat (hg_lower_ns i) \<le> unat (hg_lower_ns j)"
proof (induction j rule: dec_induct)
  case (step j)
  then show ?case using lower_step [of j] by simp
qed simp

lemma lower_eq:
  assumes "g < 24" "r < 8"
  shows "unat (hg_lower_ns (g * 8 + r)) = 2 ^ g + r * 2 ^ g div 8"
  using assms unat_lower [of "g * 8 + r"] by (simp add: n_bins_def bin_groups_def subbins_def)

lemma bin_parts:
  assumes "ns \<noteq> 0" "unat ns < 2 ^ 24"
  obtains g r where "hg_bin_of ns = g * 8 + r" "g < 24" "r < 8" "2 ^ g \<le> unat ns" "unat ns < 2 * 2 ^ g"
    "r * 2 ^ g \<le> (unat ns - 2 ^ g) * 8" "(unat ns - 2 ^ g) * 8 < (r + 1) * 2 ^ g"
proof -
  define g where "g = 63 - leading_zeros ns"
  define r where "r = (unat ns - 2 ^ g) * 8 div 2 ^ g"
  note b = group_bounds [OF assms(1), folded g_def]
  have "r < 8" unfolding r_def using sub_less_8 b by blast
  moreover have "r * 2 ^ g \<le> (unat ns - 2 ^ g) * 8" unfolding r_def by (rule div_times_less_eq_dividend)
  moreover have "(unat ns - 2 ^ g) * 8 < (r + 1) * 2 ^ g"
    unfolding r_def using dividend_less_div_times [of "2 ^ g" "(unat ns - 2 ^ g) * 8"] by simp
  moreover have "g < 24" unfolding g_def using group_small [OF assms(1)] assms(2) by blast
  moreover have "hg_bin_of ns = g * 8 + r" unfolding r_def g_def by (rule hg_bin_eq [OF assms])
  ultimately show ?thesis using that b by simp
qed

lemma bin_lower:
  assumes "ns \<noteq> 0" "unat ns < 2 ^ 24"
  shows "unat (hg_lower_ns (hg_bin_of ns)) \<le> unat ns"
proof -
  obtain g r where p: "hg_bin_of ns = g * 8 + r" "g < 24" "r < 8" "2 ^ g \<le> unat ns"
    "r * 2 ^ g \<le> (unat ns - 2 ^ g) * 8" using bin_parts [OF assms] by metis
  have "r * 2 ^ g div 8 \<le> unat ns - 2 ^ g" using div_le_mono [OF p(5), of 8] by simp
  then show ?thesis using lower_eq [OF p(2,3)] p(1,4) by simp
qed

lemma bin_upper:
  assumes "8 \<le> unat ns" "unat ns < 2 ^ 24"
  shows "unat ns < unat (hg_lower_ns (hg_bin_of ns + 1))"
proof -
  have nz: "ns \<noteq> 0" using assms(1) by auto
  obtain g r where p: "hg_bin_of ns = g * 8 + r" "g < 24" "r < 8" "2 ^ g \<le> unat ns" "unat ns < 2 * 2 ^ g"
    "(unat ns - 2 ^ g) * 8 < (r + 1) * 2 ^ g" using bin_parts [OF nz assms(2)] by metis
  show ?thesis
  proof (cases "r = 7")
    case True
    have "unat (hg_lower_ns (g * 8 + 7 + 1)) = 2 * 2 ^ g"
      using unat_lower [of "g * 8 + 7 + 1"] p(2) by (simp add: n_bins_def bin_groups_def subbins_def)
    then show ?thesis using p(1,5) True by simp
  next
    case False
    have "3 \<le> g"
    proof (rule ccontr)
      assume "\<not> 3 \<le> g"
      then have "(2 :: nat) ^ g \<le> 2 ^ 2" by (intro power_increasing) simp_all
      then show False using p(5) assms(1) by simp
    qed
    then obtain k where k: "g = 3 + k" using le_Suc_ex by blast
    have "(r + 1) * 2 ^ g = (r + 1) * 2 ^ k * 8" unfolding k by (simp add: power_add)
    then have "unat ns - 2 ^ g < (r + 1) * 2 ^ g div 8" using p(6) by simp
    then show ?thesis using lower_eq [of g "r + 1"] p False by simp
  qed
qed

section \<open>The recorded samples\<close>

lemma hg_bin_less: "hg_bin_of ns < n_bins \<longleftrightarrow> unat ns < 2 ^ 24"
proof (cases "ns = 0")
  case False
  let ?g = "63 - leading_zeros ns"
  show ?thesis
  proof (cases "unat ns < 2 ^ 24")
    case True
    then show ?thesis using bin_parts [OF False True] by (force simp: n_bins_def bin_groups_def subbins_def)
  next
    case big: False
    then have "\<not> ?g < 24" using group_small [OF False] by blast
    then show ?thesis using big False by (simp add: hg_bin_of_def Let_def bin_groups_def)
  qed
qed (simp add: hg_bin_of_def n_bins_def bin_groups_def subbins_def)

text \<open>The histogram of a list of samples, while the counters do not wrap.\<close>

definition hg_of :: "u64 list \<Rightarrow> histogram \<Rightarrow> bool" where
  "hg_of xs h \<longleftrightarrow> length (hg_counts h) = n_bins \<and> unat (hg_n h) = length xs \<and>
     unat (hg_overflow h) = length (filter (\<lambda>x. hg_bin_of x = n_bins) xs) \<and>
     (\<forall>i < n_bins. unat (hg_counts h ! i) = length (filter (\<lambda>x. hg_bin_of x = i) xs))"

lemma hg_bin_le: "hg_bin_of ns \<le> n_bins"
proof (cases "hg_bin_of ns < n_bins")
  case False
  then have big: "\<not> unat ns < 2 ^ 24" using hg_bin_less [of ns] by blast
  then have "ns \<noteq> 0" by auto
  with big have "\<not> 63 - leading_zeros ns < 24" using group_small by blast
  then show ?thesis using \<open>ns \<noteq> 0\<close> by (simp add: hg_bin_of_def Let_def bin_groups_def)
qed simp

lemma unat_inc: "unat (w :: u64) = k \<Longrightarrow> k < 2 ^ 64 - 1 \<Longrightarrow> unat (w + 1) = Suc k"
  by (subst unat_add_lem [THEN iffD1]) simp_all

lemma hg_record_of:
  assumes "hg_of xs h" "length xs < 2 ^ 64 - 1"
  shows "hg_of (xs @ [x]) (hg_record x h)"
proof -
  have len: "length (filter P xs) < 2 ^ 64 - 1" for P using assms(2) length_filter_le [of P xs] by linarith
  show ?thesis using assms hg_bin_le [of x] unat_inc [OF _ len]
    by (auto simp: hg_of_def hg_record_def Let_def nth_list_update unat_inc)
qed

lemma hg_run_of:
  assumes "hg_of ys h" "length ys + length xs < 2 ^ 64"
  shows "hg_of (ys @ xs) (fold hg_record xs h)"
  using assms
proof (induction xs arbitrary: ys h)
  case (Cons x xs)
  from hg_record_of [OF Cons.prems(1), of x] Cons.prems(2) Cons.IH [of "ys @ [x]" "hg_record x h"] show ?case by simp
qed simp

lemma hg_new_of: "hg_of [] hg_new"
  by (simp add: hg_of_def hg_new_def)

lemma find_downto:
  assumes "List.find P (rev [0..<n]) = Some i"
  shows "i < n \<and> P i \<and> (\<forall>j < n. P j \<longrightarrow> j \<le> i)"
  using assms
proof (induction n)
  case (Suc n)
  then show ?case by (cases "P n") (auto simp: less_Suc_eq)
qed simp

lemma unat_pos_iff: "0 < (w :: u64) \<longleftrightarrow> 0 < unat w"
  by (simp add: word_less_nat_alt)

text \<open>
  The benchmark's reported maximum bounds every recorded latency, up to bin granularity: when every sample
  is in \<open>[8 ns, 2^24 ns)\<close>, the maximum is at least each of them.
\<close>

theorem bench_max_bounds:
  assumes "length xs < 2 ^ 64" "x \<in> set xs" "\<forall>y \<in> set xs. 8 \<le> unat y \<and> unat y < 2 ^ 24"
  shows "x \<le> hg_max (fold hg_record xs hg_new)"
proof -
  define h where "h = fold hg_record xs hg_new"
  have h: "hg_of xs h" using hg_run_of [OF hg_new_of, of xs] assms(1) by (simp add: h_def)
  have lt: "hg_bin_of y < n_bins" if "y \<in> set xs" for y using assms(3) that hg_bin_less by blast
  then have "filter (\<lambda>y. hg_bin_of y = n_bins) xs = []" by (force simp: filter_empty_conv)
  then have no: "\<not> 0 < hg_overflow h" using h by (simp add: hg_of_def unat_pos_iff)
  have hit: "0 < hg_counts h ! i \<longleftrightarrow> (\<exists>y \<in> set xs. hg_bin_of y = i)" if "i < n_bins" for i
    using h that by (auto simp: hg_of_def unat_pos_iff filter_empty_conv)
  obtain i where f: "List.find (\<lambda>i. 0 < hg_counts h ! i) (rev [0..<n_bins]) = Some i"
    using hit [OF lt [OF assms(2)]] assms(2) lt [OF assms(2)] by (cases "List.find (\<lambda>i. 0 < hg_counts h ! i) (rev [0..<n_bins])") (auto simp: find_None_iff)
  note fi = find_downto [OF f]
  obtain y where y: "y \<in> set xs" "hg_bin_of y = i" using fi hit by blast
  have le: "hg_bin_of x + 1 \<le> i + 1" "i + 1 \<le> n_bins" using fi hit lt [OF assms(2)] assms(2) by auto
  have "unat x < unat (hg_lower_ns (i + 1))" using bin_upper [of x] lower_mono [OF le] assms(2,3) by fastforce
  then have "x \<le> sat_sub (hg_lower_ns (i + 1)) 1" by (simp add: word_le_nat_alt unat_sat_sub)
  then show ?thesis using no f by (simp add: hg_max_def h_def)
qed

theorem bench_max_bounds_witness: "9 \<le> hg_max (fold hg_record [9, 40] hg_new)"
  by (rule bench_max_bounds) simp_all

text \<open>
  Below 8 ns the reported maximum falls short: the sub-bins of the first three groups are narrower than one
  nanosecond, so the upper edge of a bin is not above the samples it counts, and a single sample of 1 ns
  is reported as a maximum of 0.
\<close>

theorem bench_max_short: "hg_max (hg_record 1 hg_new) = 0"
proof -
  define h where "h = hg_record 1 hg_new"
  have h: "hg_of [1] h" using hg_record_of [OF hg_new_of, of 1] by (simp add: h_def)
  have b: "hg_bin_of 1 = 0"
  proof -
    have "63 - leading_zeros 1 = 0" by (simp add: leading_zeros_def floorlog_def)
    then show ?thesis by (simp add: hg_bin_of_def Let_def bin_groups_def subbins_def)
  qed
  have c: "0 < hg_counts h ! i \<longleftrightarrow> i = 0" if "i < n_bins" for i
    using h that b by (auto simp: hg_of_def unat_pos_iff)
  have "List.find (\<lambda>i. 0 < hg_counts h ! i) (rev [0..<n_bins]) = Some 0"
  proof (cases "List.find (\<lambda>i. 0 < hg_counts h ! i) (rev [0..<n_bins])")
    case None
    then show ?thesis using c [of 0] by (auto simp: find_None_iff n_bins_def bin_groups_def subbins_def)
  next
    case (Some i)
    then show ?thesis using find_downto [OF Some] c by auto
  qed
  moreover have "hg_overflow h = 0" using h b by (simp add: hg_of_def n_bins_def bin_groups_def subbins_def unat_eq_0 [symmetric])
  moreover have "hg_lower_ns 1 = 1" by (simp add: hg_lower_ns_def subbins_def)
  ultimately show ?thesis by (simp add: hg_max_def h_def)
qed

section \<open>Benchmark percentiles\<close>

lemma hg_scan_ge: "i + length cs \<le> n_bins \<Longrightarrow> hg_lower_ns i \<le> hg_scan t i acc cs"
proof (induction cs arbitrary: i acc)
  case (Cons c cs)
  have "hg_lower_ns i \<le> hg_lower_ns (i + 1)" using lower_mono [of i "i + 1"] Cons.prems by (simp add: word_le_nat_alt)
  with Cons.IH [of "i + 1" "acc + c"] Cons.prems show ?case by (auto simp: Let_def intro: order_trans)
qed simp

lemma hg_scan_mono: "i + length cs \<le> n_bins \<Longrightarrow> t \<le> t' \<Longrightarrow> hg_scan t i acc cs \<le> hg_scan t' i acc cs"
proof (induction cs arbitrary: i acc)
  case (Cons c cs)
  have "hg_lower_ns i \<le> hg_scan t' (i + 1) (acc + c) cs"
    using hg_scan_ge [of "i + 1" cs t' "acc + c"] lower_mono [of i "i + 1"] Cons.prems(1) by (simp add: word_le_nat_alt)
  with Cons show ?case by (auto simp: Let_def)
qed simp

lemma f64_div_mono: "rounding rnd \<Longrightarrow> f64_le x y \<Longrightarrow> 0 < c \<Longrightarrow> f64_le (f64_div rnd x (Fin c)) (f64_div rnd y (Fin c))"
proof -
  assume r: "rounding rnd" and "f64_le x y" "0 < c"
  have "f64_le (rnd z) PInf" "f64_le NInf (rnd z)" for z using rounding_not_NaN [OF r, of z] by (cases "rnd z"; simp)+
  with \<open>f64_le x y\<close> \<open>0 < c\<close> show ?thesis
    using r divide_right_mono [of _ _ c] by (cases x; cases y) (auto simp: rounding_def)
qed

text \<open>
  The benchmark's percentiles are ordered: a higher percentile of the same histogram is never reported as a
  lower latency.
\<close>

theorem bench_percentiles_ordered:
  assumes "rounding rnd" "rnd p = Fin a" "rnd q = Fin b" "0 \<le> p" "p \<le> q" "rnd 100 = Fin 100" "length (hg_counts h) = n_bins"
  shows "hg_percentile rnd p h \<le> hg_percentile rnd q h"
proof -
  have "f64_le (rnd p) (rnd q)" using assms(1,5) by (simp add: rounding_def)
  then have ab: "0 \<le> a" "a \<le> b" using rounding_nonneg [OF assms(1,4)] assms(2,3) by simp_all
  obtain n where n: "u64_as_f64 rnd (hg_n h) = Fin n" "0 \<le> n" using u64_as_f64_Fin [OF assms(1)] by blast
  have "f64_le (f64_mul rnd (Fin n) (Fin a)) (f64_mul rnd (Fin n) (Fin b))"
    by (rule f64_mul_mono [OF assms(1)]) (use ab n in simp_all)
  then have "f64_as_nat (f64_ceil (f64_div rnd (f64_mul rnd (Fin n) (Fin a)) (Fin 100))) \<le>
      f64_as_nat (f64_ceil (f64_div rnd (f64_mul rnd (Fin n) (Fin b)) (Fin 100)))"
    by (intro f64_as_nat_mono f64_ceil_mono f64_div_mono [OF assms(1)]) simp_all
  then have "f64_as_u64 (f64_ceil (f64_div rnd (f64_mul rnd (Fin n) (Fin a)) (Fin 100))) \<le>
      f64_as_u64 (f64_ceil (f64_div rnd (f64_mul rnd (Fin n) (Fin b)) (Fin 100)))"
    using f64_as_nat_bound by (simp add: f64_as_u64_def word_le_nat_alt unat_of_nat_small)
  then show ?thesis using assms(7) by (simp add: hg_percentile_def Let_def n assms(2,3,6) hg_scan_mono)
qed

theorem bench_percentiles_ordered_witness:
  "hg_percentile Fin 50 (hg_record 9 hg_new) \<le> hg_percentile Fin 99 (hg_record 9 hg_new)"
proof (rule bench_percentiles_ordered)
  show "length (hg_counts (hg_record 9 hg_new)) = n_bins" using hg_record_of [OF hg_new_of, of 9] by (simp add: hg_of_def)
qed (simp_all add: rounding_Fin)

end
