(* ===== verification/FL_WireProperties.thy ===== *)
theory FL_WireProperties
  imports FL_Wire "HOL-Library.Sublist"
begin

text \<open>
  Every telemetry frame is delivered in order or counted as dropped, and the client reads back exactly the
  payloads that the server framed.
\<close>

section \<open>Backpressure\<close>

lemma bounded_fifo_send:
  assumes "bounded_fifo bounded snd_op rcv_op queued cap"
  obtains (sent) c where "length (queued (lk_chan l)) < cap" "bp_try_send snd_op t l = l\<lparr>lk_chan := c\<rparr>"
    "queued c = queued (lk_chan l) @ [t]"
  | (dropped) c where "\<not> length (queued (lk_chan l)) < cap"
    "bp_try_send snd_op t l = l\<lparr>lk_chan := c, lk_dropped := lk_dropped l + 1\<rparr>" "queued c = queued (lk_chan l)"
proof (cases "length (queued (lk_chan l)) < cap")
  case True
  then obtain c where "snd_op t (lk_chan l) = (c, Sent)" "queued c = queued (lk_chan l) @ [t]"
    using assms unfolding bounded_fifo_def by metis
  then show ?thesis using True sent by (simp add: bp_try_send_def)
next
  case False
  then obtain c where "snd_op t (lk_chan l) = (c, Full)" "queued c = queued (lk_chan l)"
    using assms unfolding bounded_fifo_def by metis
  then show ?thesis using False dropped by (simp add: bp_try_send_def)
qed

lemma bounded_fifo_recv:
  assumes "bounded_fifo bounded snd_op rcv_op queued cap"
  obtains c where "bp_try_recv rcv_op l = (l\<lparr>lk_chan := c\<rparr>, case queued (lk_chan l) of [] \<Rightarrow> None | t # _ \<Rightarrow> Some t)"
    "queued c = tl (queued (lk_chan l))"
proof -
  obtain c where "rcv_op (lk_chan l) = (c, case queued (lk_chan l) of [] \<Rightarrow> None | t # _ \<Rightarrow> Some t)"
    "queued c = tl (queued (lk_chan l))" using assms unfolding bounded_fifo_def by blast
  then show ?thesis using that by (simp add: bp_try_recv_def)
qed

lemma run_link_accounts:
  assumes ch: "bounded_fifo bounded snd_op rcv_op queued cap"
  shows "length (queued (lk_chan l)) \<le> cap \<Longrightarrow> unat (lk_dropped l) + length (sends ops) < 2 ^ 64 \<Longrightarrow>
    run_link snd_op rcv_op ops l = (l', got) \<Longrightarrow>
    subseq (got @ queued (lk_chan l')) (queued (lk_chan l) @ sends ops) \<and> length (queued (lk_chan l')) \<le> cap \<and>
    length (queued (lk_chan l)) + length (sends ops) + unat (lk_dropped l) =
      length got + length (queued (lk_chan l')) + unat (lk_dropped l')"
proof (induction ops arbitrary: l l' got)
  case (Cons op ops)
  show ?case
  proof (cases op)
    case (LSend t)
    from ch show ?thesis
    proof (cases rule: bounded_fifo_send [where l = l and t = t])
      case (sent c)
      then show ?thesis using Cons.IH [of "l\<lparr>lk_chan := c\<rparr>" l' got] Cons.prems LSend by simp
    next
      case (dropped c)
      have "unat (lk_dropped l + 1) = unat (lk_dropped l) + 1"
        using Cons.prems(2) LSend by (subst unat_add_lem [THEN iffD1]) simp_all
      then show ?thesis using dropped Cons.IH [of "l\<lparr>lk_chan := c, lk_dropped := lk_dropped l + 1\<rparr>" l' got] Cons.prems LSend
        by (auto intro: subseq_order.trans [OF _ list_emb_append_mono [OF subseq_order.refl subseq_Cons']])
    qed
  next
    case LRecv
    obtain c where r: "bp_try_recv rcv_op l = (l\<lparr>lk_chan := c\<rparr>, case queued (lk_chan l) of [] \<Rightarrow> None | t # _ \<Rightarrow> Some t)"
      "queued c = tl (queued (lk_chan l))" using bounded_fifo_recv [OF ch] .
    obtain l2 got2 where run: "run_link snd_op rcv_op ops (l\<lparr>lk_chan := c\<rparr>) = (l2, got2)" by force
    have IH: "subseq (got2 @ queued (lk_chan l2)) (tl (queued (lk_chan l)) @ sends ops)" "length (queued (lk_chan l2)) \<le> cap"
      "length (tl (queued (lk_chan l))) + length (sends ops) + unat (lk_dropped l) = length got2 + length (queued (lk_chan l2)) + unat (lk_dropped l2)"
      using Cons.IH [OF _ _ run] Cons.prems(1,2) LRecv r(2) by auto
    have "l' = l2" "got = (case queued (lk_chan l) of [] \<Rightarrow> [] | t # _ \<Rightarrow> [t]) @ got2"
      using Cons.prems(3) LRecv r(1) run by (auto split: list.splits)
    then show ?thesis using IH LRecv by (cases "queued (lk_chan l)") auto
  qed
qed simp

text \<open>
  The telemetry channel never blocks and never loses a frame silently: under every interleaving of sends and
  receives on a bounded queue, what has been received followed by what is still queued is a subsequence of what
  was sent, the queue stays within its capacity, and the drop counter is exactly the number of frames that
  are in neither.
\<close>

theorem backpressure_accounting:
  assumes "bounded_fifo bounded snd_op rcv_op queued cap" "length (sends ops) < 2 ^ 64"
    and "run_link snd_op rcv_op ops (channel bounded cap) = (l, got)"
  shows "subseq (got @ queued (lk_chan l)) (sends ops) \<and> length (queued (lk_chan l)) \<le> cap \<and>
    length (sends ops) = length got + length (queued (lk_chan l)) + unat (bp_dropped_total l)"
proof -
  have "queued (bounded cap) = []" using assms(1) by (simp add: bounded_fifo_def)
  then show ?thesis using run_link_accounts [OF assms(1), of "channel bounded cap" ops l got] assms(2,3)
    by (simp add: channel_def bp_dropped_total_def)
qed

text \<open>A list with a capacity is such a queue.\<close>

definition list_send :: "nat \<Rightarrow> 't \<Rightarrow> 't list \<Rightarrow> 't list \<times> send_result" where
  "list_send cap t q = (if length q < cap then (q @ [t], Sent) else (q, Full))"

definition list_recv :: "'t list \<Rightarrow> 't list \<times> 't option" where
  "list_recv q = (tl q, case q of [] \<Rightarrow> None | t # _ \<Rightarrow> Some t)"

lemma list_queue_fifo: "bounded_fifo (\<lambda>_. []) (list_send cap) list_recv (\<lambda>q. q) cap"
  by (auto simp: bounded_fifo_def list_send_def list_recv_def)

theorem backpressure_accounting_witness:
  "\<exists>l got. run_link (list_send 1) list_recv [LSend FHeartbeat, LSend FHeartbeat, LRecv] (channel (\<lambda>_. []) 1) = (l, got) \<and>
     length got + length (lk_chan l) + unat (bp_dropped_total l) = 2"
proof -
  let ?ops = "[LSend FHeartbeat, LSend FHeartbeat, LRecv]"
  obtain l got where run: "run_link (list_send 1) list_recv ?ops (channel (\<lambda>_. []) 1) = (l, got)" by force
  from backpressure_accounting [OF list_queue_fifo _ run] have "length got + length (lk_chan l) + unat (bp_dropped_total l) = 2" by simp
  with run show ?thesis by blast
qed

section \<open>Framing\<close>

definition payloads :: "(telemetry_frame \<Rightarrow> string + bytes) \<Rightarrow> telemetry_frame list \<Rightarrow> bytes list" where
  "payloads enc fs = concat (map (\<lambda>f. case enc f of Inl _ \<Rightarrow> [] | Inr p \<Rightarrow> [p]) fs)"

lemma payloads_simps [simp]:
  "payloads enc [] = []" "payloads enc (f # fs) = (case enc f of Inl _ \<Rightarrow> [] | Inr p \<Rightarrow> [p]) @ payloads enc fs"
  by (simp_all add: payloads_def)

lemma unat_frame_len:
  assumes "length p \<le> 2 ^ 20 - 2"
  shows "unat (2 + of_nat (length p) :: u32) = length p + 2"
proof -
  have "unat (of_nat (length p + 2) :: u32) = length p + 2" by (rule unat_of_nat_small) (use assms in simp)
  then show ?thesis by (simp add: add.commute)
qed

lemma run_once_frame:
  assumes "length p \<le> 2 ^ 20 - 2"
  shows "run_once (frame_bytes p @ bs) = (p # fst (run_once bs), snd (run_once bs))"
proof -
  let ?n = "2 + of_nat (length p) :: u32"
  have n: "unat ?n = length p + 2" by (rule unat_frame_len [OF assms])
  then have ok: "\<not> (?n < 2 \<or> 2 ^ 20 < ?n)" using assms by (simp add: word_less_nat_alt del: of_nat_add)
  have v: "from_le (to_le 2 wire_version) = wire_version" by (simp add: from_to_le)
  show ?thesis using n ok v
    by (subst run_once.simps) (simp add: frame_bytes_def Let_def supported_wire_version_def wire_version_def slice_def split: prod.split)
qed

lemma run_once_cut:
  assumes "length p \<le> 2 ^ 20 - 2" "k < length (frame_bytes p)"
  shows "fst (run_once (take k (frame_bytes p))) = []"
proof (cases "k < 4")
  case True
  then show ?thesis by (subst run_once.simps) simp
next
  case False
  have n: "unat (2 + of_nat (length p) :: u32) = length p + 2" by (rule unat_frame_len [OF assms(1)])
  have "take 4 (take k (frame_bytes p)) = to_le 4 (2 + of_nat (length p) :: u32)"
    using False by (simp add: frame_bytes_def)
  then show ?thesis using assms(2) False n by (subst run_once.simps) (auto simp: Let_def frame_bytes_def)
qed

text \<open>The number of frames that lie completely in the first \<open>k\<close> bytes of a framed stream.\<close>

fun whole_frames :: "nat \<Rightarrow> bytes list \<Rightarrow> nat" where
  "whole_frames k [] = 0"
| "whole_frames k (p # ps) = (if length (frame_bytes p) \<le> k then Suc (whole_frames (k - length (frame_bytes p)) ps) else 0)"

lemma run_once_Nil [simp]: "fst (run_once []) = []"
  by (subst run_once.simps) simp

lemma run_once_prefix:
  "\<forall>p \<in> set ps. length p \<le> 2 ^ 20 - 2 \<Longrightarrow> fst (run_once (take k (concat (map frame_bytes ps)))) = take (whole_frames k ps) ps"
proof (induction ps arbitrary: k)
  case (Cons p ps)
  then have p: "length p \<le> 2 ^ 20 - 2" by simp
  show ?case
  proof (cases "length (frame_bytes p) \<le> k")
    case True
    then show ?thesis using Cons run_once_frame [OF p] by simp
  next
    case False
    then show ?thesis using run_once_cut [OF p, of k] by simp
  qed
qed simp

lemma whole_frames_all: "length (concat (map frame_bytes ps)) \<le> k \<Longrightarrow> whole_frames k ps = length ps"
  by (induction ps arbitrary: k) auto

lemma client_loop_out:
  assumes "client_loop enc wr i frames = (out, rest, ok)"
  obtains (finished) "ok" "rest = []" "out = concat (map frame_bytes (payloads enc frames))"
  | (failed) pre f p k where "\<not> ok" "frames = pre @ f # rest" "enc f = Inr p"
      "out = concat (map frame_bytes (payloads enc pre)) @ take k (frame_bytes p)"
  using assms
proof (induction frames arbitrary: i out rest ok thesis)
  case (Cons f fs)
  show ?case
  proof (cases "enc f")
    case (Inl e)
    have "client_loop enc wr i fs = (out, rest, ok)" using Cons.prems(3) Inl by simp
    from Cons.IH [OF _ _ this] show ?thesis using Cons.prems(1,2) Inl by (metis append_Cons append_Nil payloads_simps(2) sum.case(1))
  next
    case (Inr p)
    show ?thesis
    proof (cases "wr i")
      case (Some k)
      then show ?thesis using Cons.prems(3) Inr by (intro Cons.prems(2) [of "[]" f p k]) auto
    next
      case None
      obtain out' where h: "client_loop enc wr (i + 1) fs = (out', rest, ok)" and o: "out = frame_bytes p @ out'"
        using Cons.prems(3) Inr None by (auto split: prod.splits)
      show ?thesis
      proof (rule Cons.IH [OF _ _ h])
        assume "ok" "rest = []" "out' = concat (map frame_bytes (payloads enc fs))"
        then show ?thesis using o Inr by (intro Cons.prems(1)) simp_all
      next
        fix pre g q k assume "\<not> ok" "fs = pre @ g # rest" "enc g = Inr q"
          "out' = concat (map frame_bytes (payloads enc pre)) @ take k (frame_bytes q)"
        then show ?thesis using o Inr by (intro Cons.prems(2) [of "f # pre" g q k]) simp_all
      qed
    qed
  qed
qed simp

lemma payloads_append: "payloads enc (fs @ gs) = payloads enc fs @ payloads enc gs"
  by (simp add: payloads_def)

lemma client_loop_stream:
  assumes "client_loop enc wr i frames = (out, rest, ok)"
  shows "\<exists>j. out = take j (concat (map frame_bytes (payloads enc frames)))"
  using assms
proof (cases rule: client_loop_out)
  case finished
  then show ?thesis by (metis order_refl take_all)
next
  case (failed pre f p k)
  let ?n = "length (concat (map frame_bytes (payloads enc pre)))"
  have "out = take (?n + min k (length (frame_bytes p))) (concat (map frame_bytes (payloads enc frames)))"
    using failed(3,4) by (simp add: failed(2) payloads_append min_def)
  then show ?thesis by blast
qed

lemma payloads_small:
  assumes "\<forall>f p. f \<in> set frames \<longrightarrow> enc f = Inr p \<longrightarrow> length p \<le> 2 ^ 20 - 2"
  shows "\<forall>p \<in> set (payloads enc frames). length p \<le> 2 ^ 20 - 2"
  using assms by (auto simp: payloads_def split: sum.splits)

lemma failed_reads:
  assumes "\<forall>p \<in> set (payloads enc (pre @ [f])). length p \<le> 2 ^ 20 - 2" "enc f = Inr p"
  shows "fst (run_once (concat (map frame_bytes (payloads enc pre)) @ take k (frame_bytes p))) \<in> {payloads enc pre, payloads enc (pre @ [f])}"
proof -
  have "fst (run_once (concat (map frame_bytes ps) @ bs)) = ps @ fst (run_once bs)"
    if "\<forall>p \<in> set ps. length p \<le> 2 ^ 20 - 2" for ps bs
    using that run_once_frame by (induction ps) simp_all
  from this [of "payloads enc pre" "take k (frame_bytes p)"]
  have "fst (run_once (concat (map frame_bytes (payloads enc pre)) @ take k (frame_bytes p))) =
      payloads enc pre @ take (whole_frames k [p]) [p]"
    using assms run_once_prefix [of "[p]" k] by (simp add: payloads_append)
  then show ?thesis using assms(2) by (simp add: payloads_append)
qed

text \<open>
  Property C31. The payloads the client dispatches are exactly those of the frames of which every byte arrived. The network may
  deliver only the first \<open>k\<close> of the bytes that the socket accepted from the server (a reset loses the rest): the
  client then reads, byte for byte and in order, the payloads of the leading frames taken from the channel that lie
  completely in those bytes, and nothing else. When the channel closes without an error, the socket has accepted all
  frames, and when all bytes arrive the client reads all of them. When a write fails, exactly one frame is taken from the channel
  and not completely accepted, or accepted as the last one, and the following ones stay for the next client; when
  already the address of the peer cannot be read, all stay. Payloads are assumed to be at most two bytes below 1 MiB, the client's limit.
\<close>

theorem telemetry_stream_roundtrip:
  assumes "\<forall>f p. f \<in> set frames \<longrightarrow> enc f = Inr p \<longrightarrow> length p \<le> 2 ^ 20 - 2"
    and "handle_client enc peer_ok wr frames = (out, rest, ok)"
  shows "fst (run_once (take k out)) = take (whole_frames (min k (length out)) (payloads enc frames)) (payloads enc frames) \<and>
    (ok \<longrightarrow> rest = [] \<and> (length out \<le> k \<longrightarrow> fst (run_once (take k out)) = payloads enc frames)) \<and>
    (\<not> ok \<longrightarrow> \<not> peer_ok \<and> out = [] \<and> rest = frames \<or>
       (\<exists>pre f. frames = pre @ f # rest \<and>
          (length out \<le> k \<longrightarrow> fst (run_once (take k out)) \<in> {payloads enc pre, payloads enc (pre @ [f])})))"
proof (cases peer_ok)
  case False
  then have "out = [] \<and> rest = frames \<and> \<not> ok" using assms(2) by (simp add: handle_client_def)
  moreover have "whole_frames 0 ps = 0" for ps by (cases ps) (simp_all add: frame_bytes_def)
  ultimately show ?thesis using False by simp
next
  case True
  then have h: "client_loop enc wr 0 frames = (out, rest, ok)" using assms(2) by (simp add: handle_client_def)
  note small = payloads_small [OF assms(1)]
  obtain j where j: "out = take j (concat (map frame_bytes (payloads enc frames)))" using client_loop_stream [OF h] by blast
  have "take k out = take (min k (length out)) (concat (map frame_bytes (payloads enc frames)))"
    unfolding j by (simp add: min_def)
  then have read: "fst (run_once (take k out)) = take (whole_frames (min k (length out)) (payloads enc frames)) (payloads enc frames)"
    using run_once_prefix [OF small] by simp
  from h show ?thesis
  proof (cases rule: client_loop_out)
    case finished
    then show ?thesis using read whole_frames_all [of "payloads enc frames" "length out"] by (auto simp: min_def)
  next
    case (failed pre f p m)
    have "\<forall>p \<in> set (payloads enc (pre @ [f])). length p \<le> 2 ^ 20 - 2" using small by (auto simp: failed(2) payloads_append)
    note mem = failed_reads [OF this failed(3), of m, folded failed(4)]
    have "length out \<le> k \<longrightarrow> fst (run_once (take k out)) \<in> {payloads enc pre, payloads enc (pre @ [f])}" using mem by simp
    then show ?thesis using read failed(1,2) by blast
  qed
qed

theorem telemetry_stream_roundtrip_witness:
  "\<exists>out rest ok. handle_client (\<lambda>_. Inr [1, 2]) True (\<lambda>_. None) [FHeartbeat, FHeartbeat] = (out, rest, ok) \<and> ok \<and>
     fst (run_once (take 16 out)) = [[1, 2], [1, 2]] \<and> fst (run_once (take 9 out)) = [[1, 2]]"
proof -
  let ?enc = "\<lambda>_. Inr [1, 2] :: string + bytes"
  obtain out rest ok where h: "handle_client ?enc True (\<lambda>_. None) [FHeartbeat, FHeartbeat] = (out, rest, ok)" by (metis prod_cases3)
  then have o: ok "length out = 16" by (auto simp: handle_client_def frame_bytes_def)
  have "\<forall>f p. f \<in> set [FHeartbeat, FHeartbeat] \<longrightarrow> ?enc f = Inr p \<longrightarrow> length p \<le> 2 ^ 20 - 2" by auto
  from telemetry_stream_roundtrip [OF this h, of 16] telemetry_stream_roundtrip [OF this h, of 9] h o show ?thesis
    by (auto simp: frame_bytes_def)
qed

end
