(* ===== verification/FL_EngineTelemetry.thy ===== *)
theory FL_EngineTelemetry
  imports FL_EngineProperties
begin

text \<open>
  The published numbers: prices of a tick against the book, the regime label against the log line, and the aggressor
  of an ITCH execution.
\<close>

section \<open>Prices of a tick\<close>

lemma sint_of_int_64: "0 \<le> x \<Longrightarrow> x < 2 ^ 63 \<Longrightarrow> sint (word_of_int x :: 64 word) = x"
  by (simp add: sint_sbintrunc' signed_take_bit_int_eq_self)

lemma sint_of_int_128: "0 \<le> x \<Longrightarrow> x < 2 ^ 127 \<Longrightarrow> sint (word_of_int x :: 128 word) = x"
  by (simp add: sint_sbintrunc' signed_take_bit_int_eq_self)

lemma uint_less_exp: "unat (w :: 64 word) < 2 ^ k \<Longrightarrow> uint w < 2 ^ k"
  by (metis of_nat_less_iff of_nat_numeral of_nat_power uint_nat)

lemma sint_unat_small: "unat (w :: 64 word) < 2 ^ 63 \<Longrightarrow> sint w = int (unat w)"
  using sint_of_int_64 [of "uint w"] uint_less_exp [of w 63] by simp

lemma sdiv_nonneg: "0 \<le> (a :: int) \<Longrightarrow> 0 < b \<Longrightarrow> a sdiv b = a div b"
  by (cases "a = 0") (simp_all add: signed_divide_int_def)

lemma between_weighted:
  fixes bid ask b a :: int
  assumes "0 \<le> b" "0 \<le> a" "0 < b + a" "bid \<le> ask"
  shows "bid \<le> (bid * a + ask * b) div (b + a)" "(bid * a + ask * b) div (b + a) \<le> ask"
proof -
  have "bid * b \<le> ask * b" "bid * a \<le> ask * a" using assms by (simp_all add: mult_right_mono)
  then have "bid * (b + a) \<le> bid * a + ask * b" "bid * a + ask * b \<le> ask * (b + a)" by (simp_all add: distrib_left)
  then have "bid * (b + a) div (b + a) \<le> (bid * a + ask * b) div (b + a)" "(bid * a + ask * b) div (b + a) \<le> ask * (b + a) div (b + a)"
    using assms(3) by (simp_all only: zdiv_mono1)
  then show "bid \<le> (bid * a + ask * b) div (b + a)" "(bid * a + ask * b) div (b + a) \<le> ask" using assms(3) by simp_all
qed

lemma microprice_between:
  assumes "unat bb < 2 ^ 62" "unat ba < 2 ^ 62" "unat bb \<le> unat ba" "unat bsz < 2 ^ 63" "unat asz < 2 ^ 63" "0 < uint bsz + uint asz"
  shows "int (unat bb) \<le> sint (microprice bb ba bsz asz) \<and> sint (microprice bb ba bsz asz) \<le> int (unat ba)"
proof -
  define x where "x = int (unat bb) * uint asz + int (unat ba) * uint bsz"
  have u: "uint bsz < 2 ^ 63" "uint asz < 2 ^ 63" by (rule uint_less_exp [OF assms(4)], rule uint_less_exp [OF assms(5)])
  have s: "sint bb = int (unat bb)" "sint ba = int (unat ba)" using assms(1,2) by (intro sint_unat_small; simp)+
  have le: "int (unat bb) \<le> 2 ^ 62" "int (unat ba) \<le> 2 ^ 62" using uint_less_exp [OF assms(1)] uint_less_exp [OF assms(2)] by simp_all
  have "int (unat bb) * uint asz \<le> 2 ^ 62 * 2 ^ 63" by (rule mult_mono [OF le(1) less_imp_le [OF u(2)]]) simp_all
  moreover have "int (unat ba) * uint bsz \<le> 2 ^ 62 * 2 ^ 63" by (rule mult_mono [OF le(2) less_imp_le [OF u(1)]]) simp_all
  ultimately have x: "0 \<le> x" "x < 2 ^ 127" by (simp_all add: x_def)
  have "x div (uint bsz + uint asz) \<le> int (unat ba)" "int (unat bb) \<le> x div (uint bsz + uint asz)"
    using between_weighted [of "uint bsz" "uint asz" "int (unat bb)" "int (unat ba)"] assms(3,6) by (simp_all add: x_def del: of_nat_unat)
  moreover have "microprice bb ba bsz asz = word_of_int (x div (uint bsz + uint asz))"
    unfolding microprice_def add_i128_def s x_def [symmetric] sint_of_int_128 [OF x] sdiv_nonneg [OF x(1) assms(6)] ..
  moreover have "0 \<le> x div (uint bsz + uint asz)" using x(1) assms(6) by (simp add: pos_imp_zdiv_nonneg_iff)
  moreover from this have "sint (word_of_int (x div (uint bsz + uint asz)) :: 64 word) = x div (uint bsz + uint asz)"
    using le(2) \<open>x div (uint bsz + uint asz) \<le> int (unat ba)\<close> by (intro sint_of_int_64) simp_all
  ultimately show ?thesis by simp
qed

text \<open>
  The prices of a tick agree with the book it is built from: on a two-sided uncrossed book the mid is the
  truncated average and lies in \<open>[bid, ask)\<close>, the spread is positive, and the microprice lies between bid and ask
  whatever the sizes; otherwise all three are 0 and no tick is sent. Prices below \<open>2^62\<close> and sizes below \<open>2^63\<close>
  keep the machine arithmetic exact.
\<close>

theorem tick_prices_consistent:
  assumes "bb = or_zero (hb_best_bid (en_book e))" "ba = or_zero (hb_best_ask (en_book e))"
    and "unat bb < 2 ^ 62" "unat ba < 2 ^ 62" "unat (hb_best_bid_size (en_book e)) < 2 ^ 63" "unat (hb_best_ask_size (en_book e)) < 2 ^ 63"
  shows "let f = en_build_tick pf i e; bid = int (unat bb); ask = int (unat ba) in
    if 0 < bid \<and> bid < ask
    then sint (tk_mid_ticks f) = (bid + ask) div 2 \<and> bid \<le> sint (tk_mid_ticks f) \<and> sint (tk_mid_ticks f) < ask \<and>
      sint (tk_spread_ticks f) = ask - bid \<and> bid \<le> sint (tk_microprice_ticks f) \<and> sint (tk_microprice_ticks f) \<le> ask
    else tk_mid_ticks f = 0 \<and> tk_spread_ticks f = 0 \<and> tk_microprice_ticks f = 0"
proof -
  define f where "f = en_build_tick pf i e"
  define bid ask where "bid = int (unat bb)" and "ask = int (unat ba)"
  let ?bsz = "hb_best_bid_size (en_book e)" let ?asz = "hb_best_ask_size (en_book e)"
  have s: "sint bb = bid" "sint ba = ask" unfolding bid_def ask_def using assms(3,4) by (intro sint_unat_small; simp)+
  have "bid < 2 ^ 62" "ask < 2 ^ 62" unfolding bid_def ask_def using assms(3,4) by (simp_all only: of_nat_less_numeral_power_cancel_iff)
  show ?thesis
  proof (cases "0 < bid \<and> bid < ask")
    case True
    have "bb + ba = word_of_int (bid + ask)" by (simp add: bid_def ask_def)
    then have "sint (bb + ba) = bid + ask" using sint_of_int_64 [of "bid + ask"] True \<open>bid < 2 ^ 62\<close> \<open>ask < 2 ^ 62\<close> by simp
    then have "tk_mid_ticks f = word_of_int ((bid + ask) div 2)"
      using True s assms(1,2) sdiv_nonneg [of "bid + ask" 2] by (simp add: f_def en_build_tick_def Let_def)
    then have mid: "sint (tk_mid_ticks f) = (bid + ask) div 2" using sint_of_int_64 [of "(bid + ask) div 2"] True \<open>ask < 2 ^ 62\<close> by auto
    have "tk_spread_ticks f = word_of_int (ask - bid)"
      using True s assms(1,2) by (simp add: f_def en_build_tick_def Let_def bid_def ask_def)
    then have spread: "sint (tk_spread_ticks f) = ask - bid" using sint_of_int_64 [of "ask - bid"] True \<open>ask < 2 ^ 62\<close> by simp
    have micro: "bid \<le> sint (tk_microprice_ticks f) \<and> sint (tk_microprice_ticks f) \<le> ask"
    proof (cases "0 < uint ?bsz + uint ?asz")
      case pos: True
      then have "tk_microprice_ticks f = microprice bb ba ?bsz ?asz"
        using True s assms(1,2) by (simp add: f_def en_build_tick_def Let_def)
      moreover have "unat bb \<le> unat ba" using True by (simp only: bid_def ask_def of_nat_less_iff less_imp_le)
      ultimately show ?thesis using microprice_between [OF assms(3,4) _ assms(5,6) pos] by (simp add: bid_def ask_def)
    next
      case False
      then have "tk_microprice_ticks f = tk_mid_ticks f" by (simp add: f_def en_build_tick_def Let_def)
      then show ?thesis using mid True by auto
    qed
    have "bid \<le> (bid + ask) div 2" "(bid + ask) div 2 < ask" using True by linarith+
    then show ?thesis using True mid spread micro unfolding Let_def f_def [symmetric] bid_def [symmetric] ask_def [symmetric] by simp
  next
    case False
    then have "\<not> (0 < sint bb \<and> 0 < sint ba \<and> sint bb < sint ba)" unfolding s by auto
    then have "tk_mid_ticks f = 0 \<and> tk_spread_ticks f = 0 \<and> tk_microprice_ticks f = 0"
      using assms(1,2) by (auto simp: f_def en_build_tick_def Let_def)
    then show ?thesis using False unfolding Let_def f_def [symmetric] bid_def [symmetric] ask_def [symmetric] by simp
  qed
qed

theorem tick_prices_consistent_witness:
  "tk_mid_ticks (en_build_tick sample_platform (sample_input (sample_order 7 1))
     (en_new sample_platform 0 0 0 sample_clock engine_config_default)) = 0"
proof -
  let ?e = "en_new sample_platform 0 0 0 sample_clock engine_config_default"
  have "hb_best_bid (en_book ?e) = None" "hb_best_ask (en_book ?e) = None" "hb_best_bid_size (en_book ?e) = 0" "hb_best_ask_size (en_book ?e) = 0"
    by (simp_all add: en_new_def hb_best_bid_def hb_best_ask_def hb_best_bid_size_def hb_best_ask_size_def hb_new_def)
  then show ?thesis
    using tick_prices_consistent [OF refl refl, of ?e sample_platform "sample_input (sample_order 7 1)"] by (simp add: or_zero_def Let_def)
qed

section \<open>The regime label\<close>

definition regime_label :: "nat \<Rightarrow> string" where
  "regime_label n = [''CALM'', ''VOLATILE'', ''AGGRESSIVE'', ''CRISIS''] ! n"

text \<open>Rounding a rounded number changes nothing.\<close>

definition idempotent :: "(rat \<Rightarrow> f64) \<Rightarrow> bool" where
  "idempotent rnd \<longleftrightarrow> (\<forall>x a. rnd x = Fin a \<longrightarrow> rnd a = Fin a)"

lemma f64_add_zero:
  assumes "idempotent rnd"
  shows "f64_add rnd (f64_add rnd x y) (Fin 0) = f64_add rnd x y"
proof -
  have "f64_add rnd (rnd r) (Fin 0) = rnd r" for r using assms by (cases "rnd r") (auto simp: idempotent_def)
  then show ?thesis by (cases x; cases y) simp_all
qed

lemma depth_score_zero: "rounding rnd \<Longrightarrow> f64_mul rnd (Fin 0) (rnd 3) = Fin 0"
proof -
  assume r: "rounding rnd"
  have "f64_le (rnd 0) (rnd 3)" "f64_le (rnd 3) (rnd (2 ^ 64))" using r unfolding rounding_def by (metis zero_le_numeral, simp)
  moreover obtain m where "rnd (2 ^ 64) = Fin m" "rnd 0 = Fin 0" using r by (auto simp: rounding_def)
  ultimately have "f64_le (Fin 0) (rnd 3)" "f64_le (rnd 3) (Fin m)" "rnd 0 = Fin 0" by simp_all
  then show ?thesis by (cases "rnd 3") (simp_all add: f64_mul_def)
qed

lemma log_score_is_composite:
  assumes "rounding (pf_rnd pf)" "idempotent (pf_rnd pf)" "en_last_eps e \<noteq> 0"
    and "unat (or_zero (hb_best_bid (en_book e))) < 2 ^ 63" "unat (or_zero (hb_best_ask (en_book e))) < 2 ^ 63"
  shows "composite_score (pf_rnd pf) (en_regime_input pf e) = log_score pf e"
proof -
  let ?bb = "or_zero (hb_best_bid (en_book e))" let ?ba = "or_zero (hb_best_ask (en_book e))"
  have "(0 < sint ?bb \<and> 0 < sint ?ba \<and> sint ?ba \<le> sint ?bb) = (0 < ?bb \<and> 0 < ?ba \<and> ?ba \<le> ?bb)"
    unfolding sint_unat_small [OF assms(4)] sint_unat_small [OF assms(5)] by (simp add: word_less_nat_alt word_le_nat_alt del: uint_nat of_nat_unat)
  then show ?thesis using assms(3)
    by (simp add: composite_score_def log_score_def en_regime_input_def Let_def f64_add_zero [OF assms(2)] depth_score_zero [OF assms(1)])
qed

text \<open>
  The regime the engine publishes is the regime it logs: from the same state the diagnostic line and the tick
  frame give the same label whenever the last window saw at least one event per second, although one is computed
  inline and the other by the classifier of the \<open>flow\<close> crate.
\<close>

theorem regime_label_matches_log:
  assumes "rounding (pf_rnd pf)" "idempotent (pf_rnd pf)" "en_regime e = regime_classifier_default (pf_rnd pf)" "en_last_eps e \<noteq> 0"
    and "unat (or_zero (hb_best_bid (en_book e))) < 2 ^ 63" "unat (or_zero (hb_best_ask (en_book e))) < 2 ^ 63"
  shows "regime_label (unat (tk_regime (en_build_tick pf i e))) = log_label pf e"
proof -
  note sc = log_score_is_composite [OF assms(1,2,4-6)]
  have "tk_regime (en_build_tick pf i e) = of_nat (regime_code (classify (pf_rnd pf) (en_regime e) (en_regime_input pf e)))"
    by (simp add: en_build_tick_def Let_def)
  then show ?thesis
    by (simp add: classify_def level_of_def sc assms(3) regime_classifier_default_def log_label_def Let_def regime_label_def)
qed

theorem regime_label_matches_log_witness:
  "let e = (en_new sample_platform 0 0 0 sample_clock engine_config_default)\<lparr>en_last_eps := 40, en_last_vpin := Fin 1\<rparr>
   in regime_label (unat (tk_regime (en_build_tick sample_platform (sample_input (sample_order 7 1)) e))) = log_label sample_platform e"
proof -
  let ?e = "(en_new sample_platform 0 0 0 sample_clock engine_config_default)\<lparr>en_last_eps := 40, en_last_vpin := Fin 1\<rparr>"
  have "hb_best_bid (en_book ?e) = None" "hb_best_ask (en_book ?e) = None"
    by (simp_all add: en_new_def hb_best_bid_def hb_best_ask_def hb_new_def)
  then have b: "unat (or_zero (hb_best_bid (en_book ?e))) < 2 ^ 63" "unat (or_zero (hb_best_ask (en_book ?e))) < 2 ^ 63"
    by (simp_all only: or_zero_def option.case unsigned_0) simp_all
  have "regime_label (unat (tk_regime (en_build_tick sample_platform (sample_input (sample_order 7 1)) ?e))) = log_label sample_platform ?e"
    by (rule regime_label_matches_log [OF _ _ _ _ b]) (simp_all add: sample_platform_def rounding_Fin idempotent_def en_new_def)
  then show ?thesis by (simp only: Let_def)
qed

text \<open>
  In a window without events the labels part: the log fades the score to zero, the classifier does not fade it at
  all, so a quiet engine with a high VPIN logs \<open>CALM\<close> and publishes level 3.
\<close>

theorem quiet_label_differs:
  "let e = (en_new sample_platform 0 0 0 sample_clock engine_config_default)\<lparr>en_last_vpin := Fin 1\<rparr>
   in log_label sample_platform e = ''CALM'' \<and> tk_regime (en_build_tick sample_platform (sample_input (sample_order 7 1)) e) = 3"
proof -
  let ?e = "(en_new sample_platform 0 0 0 sample_clock engine_config_default)\<lparr>en_last_vpin := Fin 1\<rparr>"
  have b: "hb_best_bid (en_book ?e) = None" "hb_best_ask (en_book ?e) = None"
    by (simp_all add: en_new_def hb_best_bid_def hb_best_ask_def hb_new_def)
  have f: "en_last_eps ?e = 0" "en_last_vpin ?e = Fin 1" "en_last_imbalance ?e = Fin 0" "en_last_blowout_ratio ?e = Fin 0"
    "en_last_mid_drift_bps ?e = Fin 0" "en_trade_velocity_baseline ?e = Fin 0" "en_regime ?e = regime_classifier_default Fin"
    by (simp_all add: en_new_def sample_platform_def)
  have r: "pf_rnd sample_platform = Fin" by (simp add: sample_platform_def)
  have v: "velocity_ratio Fin ?e = Fin 1" by (simp add: velocity_ratio_def f f64_lt_def)
  have "log_score sample_platform ?e = Fin 0"
    by (simp add: log_score_def Let_def r f b v or_zero_def f64_sub_def f64_max_def f64_mul_def f64_abs_def f64_sgn_def f64_min_def u64_as_f64_def f64_of_nat_def)
  then have l: "log_label sample_platform ?e = ''CALM''" by (simp add: log_label_def Let_def r)
  have "composite_score Fin (en_regime_input sample_platform ?e) = Fin 5"
    by (simp add: composite_score_def en_regime_input_def Let_def r f b v or_zero_def f64_sub_def f64_max_def f64_mul_def f64_abs_def f64_sgn_def)
  then have "tk_regime (en_build_tick sample_platform (sample_input (sample_order 7 1)) ?e) = 3"
    by (simp add: en_build_tick_def Let_def r f(7) classify_def level_of_def regime_classifier_default_def)
  with l show ?thesis by (simp only: Let_def)
qed

section \<open>Aggressor of an execution\<close>

text \<open>
  An ITCH execution carries no side, the decoder leaves it at zero, and the engine reads zero as the bid: on an
  uncrossed book every execution is printed at the best bid and tagged as an aggressive sell, also when the order
  that was hit rests on the ask side, and with an empty bid side it is not printed at all.
\<close>

theorem executions_print_as_sells:
  assumes "dispatch m = Some ev" "m ! 0 = 0x45" "m \<noteq> []" "hb_best_bid book = Some bb" "0 < bb" "\<forall>ba. hb_best_ask book = Some ba \<longrightarrow> bb < ba"
  shows "trade_info book ev = Some (bb, ev_qty ev, ev_ts ev, - 1)"
proof -
  have "dispatch m = parse_order_executed m" using assms(2,3) by (cases m) (simp_all add: dispatch_def)
  then have e: "ev_price ev = 0" "ev_side ev = 0" "is_trade ev"
    using assms(1,2) by (auto simp: parse_order_executed_def is_trade_def event_zeroed_def split: if_splits)
  have "aggressor_of bb (or_zero (hb_best_ask book)) bb = - 1"
    using assms(5,6) by (cases "hb_best_ask book") (auto simp: aggressor_of_def or_zero_def)
  then show ?thesis using e assms(4,5) by (simp add: trade_info_def print_price_def or_zero_def Let_def)
qed

theorem executions_print_as_sells_witness:
  "\<exists>ev. dispatch (0x45 # replicate 30 1) = Some ev \<and>
     trade_info (hb_run book_levels (hb_new book_levels 7) [sample_order 7 1]) ev = Some (100, ev_qty ev, ev_ts ev, - 1)"
proof -
  let ?m = "0x45 # replicate 30 1 :: bytes" let ?b = "hb_run book_levels (hb_new book_levels 7) [sample_order 7 1]"
  obtain ev where ev: "dispatch ?m = Some ev" by (simp add: dispatch_def parse_order_executed_def)
  have "hb_best_bid ?b = Some 100 \<and> hb_best_ask ?b = None" by code_simp
  then show ?thesis using executions_print_as_sells [OF ev, of ?b 100] ev by simp
qed

end
