(* ===== verification/Spec2Isabelle.thy ===== *)
theory Spec2Isabelle
  imports FL_SyntheticProperties FL_BenchWorkloads FL_QuoteStorm FL_FlashStorm FL_Measure FL_ChainLatency FL_WalNames
    FL_EngineMain
    FL_BookProperties FL_BookSnapshot FL_Replay FL_SnapshotFile FL_WalProperties FL_MoldProperties
    FL_RingProperties FL_FileSource FL_ItchProperties FL_BreakerProperties
    FL_Chain FL_Clustering FL_FlowMetricsProperties FL_Window FL_IchProperties FL_LatencyProperties
    FL_WireProperties FL_EngineTelemetry
begin

text \<open>
  \<^bold>\<open>Flowlab\<close>: a verification development for the Rust crates of a deterministic market-data replay engine.

  \<^bold>\<open>The program.\<close> Exchange messages (ITCH 5.0, framed in MoldUDP64 datagrams or read from a file) are decoded
  into 40-byte events (\<open>core/src/event.rs\<close>, \<open>replay/src/itch.rs\<close>, \<open>moldudp.rs\<close>, \<open>udp_source.rs\<close>,
  \<open>file_source.rs\<close>), cross a shared-memory ring (\<open>ring_reader.rs\<close>) and drive an order book. There are two
  books: the reference book on tree maps (\<open>core/src/orderbook.rs\<close>) and the hot book on fixed arrays with a
  slab of orders (\<open>core/src/hot_book.rs\<close>); both hash their price levels so that runs can be compared. The
  replay state (\<open>core/src/state.rs\<close>, \<open>replay/src/engine.rs\<close>) chains a hash over all events, logs and
  snapshots make a run durable (\<open>log.rs\<close>, \<open>wal.rs\<close>, \<open>snapshot.rs\<close>) and \<open>verify\<close> compares digests. On top,
  \<open>chaos\<close> detects abusive patterns in the event stream, \<open>flow\<close> classifies the market regime and guards
  outgoing orders with a circuit breaker, and \<open>engine\<close> publishes telemetry.

  \<^bold>\<open>Conventions.\<close> A struct is a record, an enum a datatype, a method a function that takes the state and
  returns the new one with the result. Integers are words of their width with the wrap-around of a release
  build; lengths and indices in \<open>usize\<close> are natural numbers. \<open>BTreeMap\<close>, and \<open>HashMap\<close> where the code
  does not observe its iteration order, is the type \<open>omap\<close> of finite ordered maps (\<open>FL_OrdMap\<close>), on which
  equality is equality of contents. A \<open>Result\<close> is a sum with the error on the left. Code outside the
  repository is a parameter: XXH3 (\<open>xxh\<close>, \<open>xxs\<close>), the rounding of floating-point results (\<open>rnd\<close>), the
  square root of the storm baseline and the logarithm of the episode score, the outcome of operating-system
  calls, the socket's answers, the schedule of the consumer of a ring, the MessagePack serializers, the bounded
  channel of \<open>crossbeam\<close>, the random generator of the \<open>rand\<close> crate (\<open>rng_ok\<close>: a draw lies in its range), the iteration order
  of the hash map that resolves tickers, the clock (each breaker operation takes its time, each round of the live engine its
  readings) and the place of temporary files (\<open>tmp_of\<close>).

  \<^bold>\<open>Theories.\<close>
  \<^item> \<open>FL_Prelude\<close>, \<open>FL_OrdMap\<close>, \<open>FL_Codec\<close>: machine integers, byte codecs, finite maps, and the locale
    \<open>fixed_codec\<close> of fixed-width records, interpreted for integers and events.
  \<^item> \<open>FL_Event\<close>: the event, its type and side codes and its byte layout.
  \<^item> \<open>FL_OrderIndex\<close>: the locale of an order index (look-up after insert, update and remove), which both
    books rely on; interpreted for the hash map of the reference book and, in \<open>FL_Slab\<close>, for the slab
    with its free list. The slab refines a finite map under any operations, and every slot that
    the code reads unchecked is in bounds.
  \<^item> \<open>FL_OrderBook\<close>, \<open>FL_BookConsistent\<close>: the reference book; its levels aggregate its orders.
  \<^item> \<open>FL_HotBook\<close>, \<open>FL_HotGrid\<close>: the hot book; binary search (\<open>partition_point\<close> is the length of the
    longest prefix that satisfies the predicate, which is what it computes on the partitioned slices it is
    applied to), insertion and removal by \<open>memmove\<close>, the unrolled depth sums, batch apply.
  \<^item> \<open>FL_BookRefine\<close>, \<open>FL_BookProperties\<close>: the hot book simulates the reference book on conformant streams,
    so that the two canonical hashes agree; rejection at full depth; the effect of modifies.
  \<^item> \<open>FL_BookSnapshot\<close>: the binary snapshot of the hot book: round trip, resumption, truncated input.
  \<^item> \<open>FL_Replay\<close>: replay state and engine, event log, \<open>StateHasher\<close>, \<open>CrossLanguageVerifier\<close>: replay accepts
    exactly the gapless streams, stops at the first gap, and equal digests mean equal streams, also of different
    lengths, unless the hash collides or hits zero on the blocks hashed.
  \<^item> \<open>FL_SnapshotFile\<close>, \<open>FL_Wal\<close>, \<open>FL_WalProperties\<close>: snapshot frames and their atomic
    replacement, CRC-32, the segmented write-ahead log with rotation, crash recovery and the reader. The writer's segment
    (\<open>wl_file\<close>) is kept apart from its current index, since a failed rotation leaves them different.
  \<^item> \<open>FL_Decimal\<close>, \<open>FL_WalNames\<close>: decimal numbers in strings, and the names of log segments: the log on a directory of named
    files refines the log on numbered segments.
  \<^item> \<open>FL_Mold\<close>, \<open>FL_MoldProperties\<close>: datagram parser, message iterator, gap tracker and UDP handler; a
    stream that fits the reorder buffer and whose messages all arrive is delivered once and in order.
  \<^item> \<open>FL_Ring\<close>, \<open>FL_RingProperties\<close>: the ring as a byte queue (locale \<open>byte_fifo\<close>) and the byte-level
    interleaving of one writer and one reader as step relations; the byte copies of a whole write or read are the
    two block copies of the code.
  \<^item> \<open>FL_Itch\<close>, \<open>FL_ItchProperties\<close>, \<open>FL_FileSource\<close>: decoder, encoders, synthetic stream and the file driver;
    a buffer of emitted messages parses to one event per message, with the low 48 bits of the timestamp.
  \<^item> \<open>FL_CircuitBreaker\<close>, \<open>FL_BreakerProperties\<close>: the risk gate: it fails closed, keeps the position cap and
    bounds the order rate up to the rounding error of \<open>f64\<close> (\<open>near_rounding\<close>: within \<open>x / 2 ^ 53 + 1 / 2 ^ 80\<close> of any \<open>x\<close> from 0
    to \<open>2 ^ 200\<close>). Positions wrap at 64 bits, which is why the cap is assumed below \<open>2 ^ 62\<close>.
  \<^item> \<open>FL_Float\<close>: floating point with infinities and NaN; what the proofs assume of rounding.
  \<^item> \<open>FL_Chaos\<close>: reported events and the locale \<open>chaos_detector\<close> of the contract every detector offers (good
    states are kept; a flag has the detector's kind, ends at the event and has a score in [0, 1]), extended by
    \<open>refractory_detector\<close> for those that fall silent after a flag. The first is interpreted for all seven
    detectors, the second for the cancellation-storm, momentum-ignition and flash-crash detectors.
  \<^item> \<open>FL_OrderTracker\<close>, \<open>FL_MiniBook\<close>, \<open>FL_BookTotals\<close>: the order tracker that the detectors share, which agrees
    with the reference book, and the capped mini-book per side with its quantities summed over prices.
  \<^item> \<open>FL_Detection\<close>, \<open>FL_Phantom\<close>, \<open>FL_CancelStorm\<close>, \<open>FL_Momentum\<close>, \<open>FL_FlashCrash\<close>, \<open>FL_LatencyArb\<close> and their
    \<open>Properties\<close> theories: the seven detectors. Incremental state is exact (windows, counters, running
    statistics, cached best prices and depth, the ring of snapshots), and a flag means what it reports in
    terms of the history of the feed.
  \<^item> \<open>FL_Chain\<close>: the detector chain and the locale \<open>kinded_detector\<close> (every flag of a detector has its kind), interpreted for the
    seven detectors under any rounding: the chain is the seven detectors side by side, in a fixed order, with exact counters.
  \<^item> \<open>FL_Clustering\<close>: episodes are the greedy split of the sorted flags by the merge policy, applied to the open episode
    only, and are summarised exactly.
  \<^item> \<open>FL_FlowMetrics\<close>, \<open>FL_FlowMetricsProperties\<close>: VPIN, spread tracker and imbalance; the locale \<open>rolling_sum\<close> of a
    bounded queue with a running total, interpreted for both trackers.
  \<^item> \<open>FL_Regime\<close>, \<open>FL_Window\<close>: the regime classifier and the extraction of stress windows as maximal runs.
  \<^item> \<open>FL_Ich\<close>, \<open>FL_IchProperties\<close>: the engine's file source (\<open>engine/src/ich.rs\<close>): it replays a well-formed file in
    a cycle, from the first message at or after the start time on; \<open>next\<close> returns exactly when a pass over the file meets an event.
  \<^item> \<open>FL_Latency\<close>, \<open>FL_LatencyProperties\<close>: cycle clock, stage windows and histograms of the engine and of the
    benchmark: the window holds the latest samples, percentiles are ordered, both histograms share their bins.
  \<^item> \<open>FL_Wire\<close>, \<open>FL_WireProperties\<close>: telemetry frames, the drop-counting sender, the server's length-prefixed
    framing and the reader at the other end: every frame is sent in order or counted as dropped, and the reader
    decodes exactly the payloads of the frames that arrive completely, whatever prefix of the bytes the network delivers.
  \<^item> \<open>FL_Engine\<close>, \<open>FL_EngineProperties\<close>, \<open>FL_EngineTelemetry\<close>: the live engine (\<open>engine/src/engine.rs\<close>): symbol
    filter and automatic lock, book and analytics pipeline, one-second window, snapshots and frames. A pinned
    engine replays exactly the events of its symbol, the book of an automatically locked engine is the replay of one
    symbol's events in a span of the feed that starts with the trade that took the lock, a snapshot
    resumes the run, and the published prices and labels are those of the book and the event log.
  \<^item> \<open>FL_EngineMain\<close>: the process (\<open>engine/src/main.rs\<close>) from the parsed command line on: source, symbol,
    configuration, resuming and run; on a file with a pinned symbol it replays exactly that symbol,
    from \<open>--ich-skip-to-secs\<close> on.
  \<^item> \<open>FL_BookBand\<close>, \<open>FL_FreshStream\<close>: two reasons why a stream is harmless for the books: its prices stay in a band
    of few levels per side that does not cross (locale \<open>price_band\<close>), or no order id is added twice.
  \<^item> \<open>FL_Synthetic\<close>, \<open>FL_SyntheticProperties\<close>: the engine's synthetic source (\<open>engine/src/synthetic.rs\<close>) over any
    random generator: its feed is replayed identically by both books and never crosses them.
  \<^item> \<open>FL_BenchGen\<close>, \<open>FL_BenchGenProperties\<close>, \<open>FL_BenchCrash\<close>, \<open>FL_BenchWorkloads\<close>: the streams of the benchmarks
    (\<open>bench/src/lib.rs\<close>, \<open>bench/src/bin/latency_apply.rs\<close>): the locale \<open>pool_generator\<close> of a generator with a pool
    of live orders, interpreted for the realistic and the bursty stream, whose pool is exactly the set of resting
    orders; the injected crashes do not reach the book; isolated trades keep every level; warm-up ids collide.
  \<^item> \<open>FL_Generators\<close>, \<open>FL_Storm\<close>: the seven storm generators (\<open>chaos/src/generators.rs\<close>) and the orchestrator that
    starts, restarts, polls and expires them (\<open>chaos/src/storm.rs\<close>).
  \<^item> \<open>FL_GeneratorContract\<close>, \<open>FL_StormProperties\<close>: what every generator promises (locale \<open>storm_source\<close>, interpreted
    for all seven together); every poll returns, with bounded output in strictly ascending order.
  \<^item> \<open>FL_ClosedLoop\<close>, \<open>FL_QuoteStorm\<close>, \<open>FL_FlashStorm\<close>: generators against detectors, through the orchestrator (locale
    \<open>storm_stream\<close> of the shape of everything a storm emits, interpreted for four kinds): spoofing, phantom-liquidity and
    quote-stuffing storms are flagged; a flash-crash storm never is, from a base price of 200000 ticks on, because its quotes
    stay too close to the mid.
  \<^item> \<open>FL_Lanes\<close>: the lane-separated batch apply of the hot book is equivalent to the serial loop on streams that add every
    order id once and before its use, contain no modify and whose prices fit the book together, also on a book warmed up with
    orders whose ids the stream uses again.
  \<^item> \<open>FL_Measure\<close>: the measurement loops of \<open>bench/src/bin/latency_apply.rs\<close>, over any readings of
    the cycle counter: steady, prefetching and burst loops leave the same book and the same samples, and the lane
    experiment ends with the book of the steady one, both on the warmed-up book. A prefetched slot is in bounds and holds the order it is meant for.
  \<^item> \<open>FL_ChainLatency\<close>: the harness of the detector chain (\<open>bench/src/bin/chaos_latency.rs\<close>): its percentiles are ordered
    and its flag count is that of one run.

  \<^bold>\<open>Termination and fuel.\<close> Loops over a buffer or a list are structural or have a measure. \<open>ingest_loop\<close> in
  \<open>FL_Mold\<close> and \<open>ic_next\<close> in \<open>FL_Ich\<close> may run for ever and return an option; their properties say exactly when they
  return. The poll loop of a storm is a total function: it restarts a finished generator at most once before a step,
  and takes at most 32 steps. The burst loop and the windows of \<open>FL_Measure\<close> end because the index or the rest of the
  list moves by a positive amount. Waiting for the consumer of a full ring is driven by the consumer's schedule: \<open>flush_batch\<close> returns when the schedule
  drains enough, and the file replay property states how much that is.

  \<^bold>\<open>Not modelled.\<close> Pacing sleeps and throughput figures, socket set-up,
  tracing; the breaker's locks (each operation is one step); the Go, Zig, C++ and TypeScript parts.
  Of the engine's process, the parser of the command line and the start of the server's thread (\<open>main.rs\<close>); of the benchmarks, the
  command line, the printed reports, the layer isolation harness and the Criterion benches, which only time calls of the modelled
  components.
\<close>

end
